(* ===== verification/Prelude.thy ===== *)
theory Prelude
  imports Main "HOL-Library.AList" "HOL-Library.Char_ord" "HOL-Library.List_Lexorder"
    "HOL-Library.Product_Lexorder" "HOL-Library.Sublist" "HOL-Library.Word"
begin

text \<open>
  Shared vocabulary of the development: results (\<open>error + value\<close>), instants of
  \<open>time.Time\<close>, Go maps as association lists with distinct keys (the list order stands for
  the unspecified iteration order of a Go map, so a lemma about every such list covers every
  order), byte strings and the two string functions the packages validate identifiers with
  (\<open>strings.TrimSpace\<close> and the \<open>unicode.IsControl\<close> scan), and the
  environment of a file-backed store.
\<close>

section \<open>Fact collections\<close>

named_theorems state_simps \<open>unfoldings of state accessors and small pure helpers\<close>
named_theorems inv_rules \<open>preservation of component invariants\<close>

section \<open>Results\<close>

text \<open>A fallible Go function returns \<open>Inl\<close> of its error or \<open>Inr\<close> of its value.\<close>

type_synonym ('e, 'a) result = "'e + 'a"

definition and_then :: "('e, 'a) result \<Rightarrow> ('a \<Rightarrow> ('e, 'b) result) \<Rightarrow> ('e, 'b) result" where
  "and_then r f = (case r of Inl e \<Rightarrow> Inl e | Inr a \<Rightarrow> f a)"

lemma and_then_simps [simp]:
  "and_then (Inl e) f = Inl e"
  "and_then (Inr a) f = f a"
  by (simp_all add: and_then_def)

lemma and_then_Inr_iff [simp]:
  "and_then r f = Inr b \<longleftrightarrow> (\<exists>a. r = Inr a \<and> f a = Inr b)"
  by (cases r) auto

definition failed :: "('e, 'a) result \<Rightarrow> bool" where
  "failed r = (case r of Inl _ \<Rightarrow> True | Inr _ \<Rightarrow> False)"

lemma failed_simps [simp]: "failed (Inl e)" "\<not> failed (Inr a)"
  by (simp_all add: failed_def)

text \<open>The first error of a list of checks, as a chain of early returns gives it.\<close>

fun first_error :: "('e, unit) result list \<Rightarrow> ('e, unit) result" where
  "first_error [] = Inr ()"
| "first_error (r # rs) = (case r of Inl e \<Rightarrow> Inl e | Inr _ \<Rightarrow> first_error rs)"

lemma first_error_ok_iff: "first_error rs = Inr () \<longleftrightarrow> (\<forall>r \<in> set rs. r = Inr ())"
  by (induction rs) (auto split: sum.splits)

lemma first_error_map_ok_iff: "first_error (map f xs) = Inr u \<longleftrightarrow> (\<forall>x \<in> set xs. f x = Inr ())"
  by (induction xs) (auto split: sum.splits)

definition guard :: "bool \<Rightarrow> 'e \<Rightarrow> ('e, unit) result" where
  "guard ok e = (if ok then Inr () else Inl e)"

lemma guard_simps [simp]:
  "guard ok e = Inr () \<longleftrightarrow> ok"
  "guard ok e = Inr u \<longleftrightarrow> ok"
  "guard ok e = Inl e' \<longleftrightarrow> \<not> ok \<and> e' = e"
  "guard True e = Inr ()" "guard False e = Inl e"
  by (auto simp: guard_def)

section \<open>Environment of a file-backed store\<close>

text \<open>
  What the operating system and the context decide on one store operation: whether reading
  (the context check included) and writing fail. Both are inputs of the model.
\<close>

record io_env =
  io_read_fails :: bool
  io_write_fails :: bool

definition io_ok :: io_env where
  "io_ok = \<lparr>io_read_fails = False, io_write_fails = False\<rparr>"

lemma io_ok_simps [simp]: "io_read_fails io_ok = False" "io_write_fails io_ok = False"
  by (simp_all add: io_ok_def)

section \<open>Instants\<close>

text \<open>
  A \<open>time.Time\<close> is the number of nanoseconds since the zero time, so
  \<open>IsZero\<close> is equality with 0. A \<open>time.Duration\<close> is an \<open>int64\<close>, and
  \<open>Sub\<close> saturates at its bounds.
\<close>

type_synonym time = int

definition max_duration :: int where "max_duration = 2 ^ 63 - 1"
definition min_duration :: int where "min_duration = - (2 ^ 63)"

definition time_sub :: "time \<Rightarrow> time \<Rightarrow> int" where
  "time_sub t u = (if t - u > max_duration then max_duration
                   else if t - u < min_duration then min_duration else t - u)"

lemma time_sub_bounds: "min_duration \<le> time_sub t u \<and> time_sub t u \<le> max_duration"
  by (auto simp: time_sub_def max_duration_def min_duration_def)

lemma time_sub_mono: "t \<le> t' \<Longrightarrow> time_sub t u \<le> time_sub t' u"
  by (auto simp: time_sub_def max_duration_def min_duration_def)

definition defaultTime :: "time \<Rightarrow> time \<Rightarrow> time" where
  "defaultTime v fallback = (if v = 0 then fallback else v)"

text \<open>
  A timestamp field holds text. \<open>Stamp t\<close> is the \<open>RFC3339Nano\<close> rendering of an
  instant, \<open>BadStamp s\<close> a text that \<open>time.Parse\<close> rejects, \<open>NoStamp\<close> the empty
  text. Rendering needs a four-digit year: outside the years 0 to 9999 the text that
  \<open>Format\<close> writes does not parse again.
\<close>

datatype stamp = NoStamp | Stamp time | BadStamp string

definition ns_per_day :: int where "ns_per_day = 86400 * 1000000000"

definition four_digit_year :: "time \<Rightarrow> bool" where
  "four_digit_year t \<longleftrightarrow> - (366 * ns_per_day) \<le> t \<and> t < 3652059 * ns_per_day"

definition format_stamp :: "time \<Rightarrow> stamp" where
  "format_stamp t = (if four_digit_year t then Stamp t else BadStamp ''out of range'')"

definition parse_stamp :: "stamp \<Rightarrow> time option" where
  "parse_stamp s = (case s of Stamp t \<Rightarrow> if four_digit_year t then Some t else None | _ \<Rightarrow> None)"

lemma parse_format_stamp: "four_digit_year t \<Longrightarrow> parse_stamp (format_stamp t) = Some t"
  by (simp add: parse_stamp_def format_stamp_def)

lemma format_stamp_nonempty [simp]: "format_stamp t \<noteq> NoStamp" "NoStamp \<noteq> format_stamp t"
  by (auto simp: format_stamp_def)

lemma parse_stamp_simps [simp]:
  "parse_stamp NoStamp = None" "parse_stamp (BadStamp s) = None"
  by (simp_all add: parse_stamp_def)

section \<open>Go maps as association lists\<close>

text \<open>
  \<open>map_of m k\<close> looks up, \<open>AList.update k v m\<close> assigns, \<open>AList.delete k m\<close>
  deletes. The library's facts are restated once in the form the components use.
\<close>

lemma map_of_update [simp]: "map_of (AList.update k v m) = (map_of m)(k \<mapsto> v)"
  by (rule update_conv')

lemma map_of_delete [simp]: "map_of (AList.delete k m) = (map_of m)(k := None)"
  by (rule delete_conv')

lemma fst_set_update [simp]: "fst ` set (AList.update k v m) = insert k (fst ` set m)"
  by (simp add: dom_update)

lemma in_set_iff_map_of: "distinct (map fst m) \<Longrightarrow> (k, v) \<in> set m \<longleftrightarrow> map_of m k = Some v"
  by simp

lemma all_entries_iff:
  assumes "distinct (map fst m)"
  shows "(\<forall>x \<in> set m. P (fst x) (snd x)) \<longleftrightarrow> (\<forall>k v. map_of m k = Some v \<longrightarrow> P k v)"
  unfolding in_set_iff_map_of [OF assms, symmetric] by auto

text \<open>The components speak of lookups; entries are turned into lookups, never the reverse.\<close>

declare map_of_eq_Some_iff [simp del] Some_eq_map_of_iff [simp del]

lemma update_entry_cases:
  assumes "distinct (map fst m)" "(k', v') \<in> set (AList.update k v m)"
  shows "(k' = k \<and> v' = v) \<or> (k' \<noteq> k \<and> (k', v') \<in> set m)"
proof -
  have "distinct (map fst (AList.update k v m))" using assms(1) by (rule distinct_update)
  with assms(2) have "((map_of m)(k \<mapsto> v)) k' = Some v'"
    using in_set_iff_map_of [of "AList.update k v m"] by simp
  with assms(1) show ?thesis by (auto split: if_splits dest: map_of_SomeD)
qed

lemma delete_entry: "(k', v') \<in> set (AList.delete k m) \<Longrightarrow> k' \<noteq> k \<and> (k', v') \<in> set m"
  by (auto simp: AList.delete_eq)

lemma distinct_keys_update [inv_rules]:
  "distinct (map fst m) \<Longrightarrow> distinct (map fst (AList.update k v m))"
  by (rule distinct_update)

lemma distinct_keys_delete [inv_rules]:
  "distinct (map fst m) \<Longrightarrow> distinct (map fst (AList.delete k m))"
  by (rule distinct_delete)

lemma map_of_mapped_keys:
  "map_of (map (\<lambda>(k, v). (k, f v)) m) k = map_option f (map_of m k)"
  by (induction m) auto

lemma map_fst_mapped_keys [simp]: "map fst (map (\<lambda>(k, v). (k, f v)) m) = map fst m"
  by (induction m) auto

section \<open>Byte strings\<close>

text \<open>
  A Go string is a byte sequence; so is \<^typ>\<open>string\<close>, and \<open>length\<close> is
  \<open>len\<close>. \<open>space_encodings\<close> lists the UTF-8 encodings of the runes that
  \<open>unicode.IsSpace\<close> accepts.
\<close>

abbreviation byte :: "nat \<Rightarrow> char" where "byte n \<equiv> char_of n"

definition space_encodings :: "string list" where
  "space_encodings =
     [[CHR '' ''], [CHR 0x0A], [CHR 0x09], [CHR 0x0D], [CHR 0x0B], [CHR 0x0C],
      [CHR 0xC2, CHR 0x85], [CHR 0xC2, CHR 0xA0], [CHR 0xE1, CHR 0x9A, CHR 0x80],
      [CHR 0xE2, CHR 0x80, CHR 0x80], [CHR 0xE2, CHR 0x80, CHR 0x81],
      [CHR 0xE2, CHR 0x80, CHR 0x82], [CHR 0xE2, CHR 0x80, CHR 0x83],
      [CHR 0xE2, CHR 0x80, CHR 0x84], [CHR 0xE2, CHR 0x80, CHR 0x85],
      [CHR 0xE2, CHR 0x80, CHR 0x86], [CHR 0xE2, CHR 0x80, CHR 0x87],
      [CHR 0xE2, CHR 0x80, CHR 0x88], [CHR 0xE2, CHR 0x80, CHR 0x89],
      [CHR 0xE2, CHR 0x80, CHR 0x8A], [CHR 0xE2, CHR 0x80, CHR 0xA8],
      [CHR 0xE2, CHR 0x80, CHR 0xA9], [CHR 0xE2, CHR 0x80, CHR 0xAF],
      [CHR 0xE2, CHR 0x81, CHR 0x9F], [CHR 0xE3, CHR 0x80, CHR 0x80]]"

definition front_code :: "string list \<Rightarrow> string \<Rightarrow> string option" where
  "front_code encs s = find (\<lambda>e. e \<noteq> [] \<and> prefix e s) encs"

lemma front_code_SomeD: "front_code encs s = Some e \<Longrightarrow> e \<noteq> [] \<and> prefix e s \<and> e \<in> set encs"
  by (auto simp: front_code_def find_Some_iff)

lemma front_code_None_iff:
  "front_code encs s = None \<longleftrightarrow> (\<forall>e \<in> set encs. e = [] \<or> \<not> prefix e s)"
  by (auto simp: front_code_def find_None_iff)

function strip_front :: "string list \<Rightarrow> string \<Rightarrow> string" where
  "strip_front encs s =
     (case front_code encs s of None \<Rightarrow> s | Some e \<Rightarrow> strip_front encs (drop (length e) s))"
  by pat_completeness auto
termination
proof (relation "measure (\<lambda>(encs, s). length s)", goal_cases)
  case 1
  show ?case by simp
next
  case (2 encs s e)
  then have "e \<noteq> []" "prefix e s" by (auto dest: front_code_SomeD)
  then have "0 < length e" "length e \<le> length s" by (auto dest: prefix_length_le)
  then have "length s - length e < length s" by linarith
  then show ?case by simp
qed

declare strip_front.simps [simp del]

lemma strip_front_clean: "front_code encs (strip_front encs s) = None"
proof (induction encs s rule: strip_front.induct)
  case (1 encs s)
  then show ?case
    by (cases "front_code encs s") (simp_all add: strip_front.simps [of encs s])
qed

lemma strip_front_id: "front_code encs s = None \<Longrightarrow> strip_front encs s = s"
  by (simp add: strip_front.simps)

lemma strip_front_suffix: "suffix (strip_front encs s) s"
proof (induction encs s rule: strip_front.induct)
  case (1 encs s)
  show ?case
  proof (cases "front_code encs s")
    case None
    then show ?thesis by (simp add: strip_front.simps [of encs s])
  next
    case (Some e)
    with 1 have "suffix (strip_front encs (drop (length e) s)) (drop (length e) s)" by simp
    then have "suffix (strip_front encs (drop (length e) s)) s"
      by (meson suffix_drop suffix_order.trans)
    with Some show ?thesis by (simp add: strip_front.simps [of encs s])
  qed
qed

definition strip_back :: "string list \<Rightarrow> string \<Rightarrow> string" where
  "strip_back encs s = rev (strip_front (map rev encs) (rev s))"

lemma strip_back_prefix: "prefix (strip_back encs s) s"
  using strip_front_suffix [of "map rev encs" "rev s"]
  by (simp add: strip_back_def suffix_to_prefix)

lemma strip_back_idem: "strip_back encs (strip_back encs s) = strip_back encs s"
  by (simp add: strip_back_def strip_front_id strip_front_clean)

lemma front_code_None_prefix:
  "prefix t s \<Longrightarrow> front_code encs s = None \<Longrightarrow> front_code encs t = None"
  by (auto simp: front_code_None_iff intro: prefix_order.trans)

text \<open>\<open>strings.TrimSpace\<close>.\<close>

definition trim_space :: "string \<Rightarrow> string" where
  "trim_space s = strip_back space_encodings (strip_front space_encodings s)"

lemma trim_space_idem [simp]: "trim_space (trim_space s) = trim_space s"
proof -
  let ?f = "strip_front space_encodings s"
  have "front_code space_encodings (strip_back space_encodings ?f) = None"
    using front_code_None_prefix [OF strip_back_prefix strip_front_clean] .
  then show ?thesis by (simp add: trim_space_def strip_front_id strip_back_idem)
qed

lemma trim_space_length: "length (trim_space s) \<le> length s"
  using prefix_length_le [OF strip_back_prefix [of space_encodings "strip_front space_encodings s"]]
    suffix_length_le [OF strip_front_suffix [of space_encodings s]]
  by (simp add: trim_space_def)

lemma trim_space_Nil [simp]: "trim_space [] = []"
  using trim_space_length [of "[]"] by simp

text \<open>
  A text that starts and ends with a visible ASCII character is not changed; evaluation takes
  this short cut.
\<close>

definition visible :: "char \<Rightarrow> bool" where
  "visible c \<longleftrightarrow> (33 :: nat) \<le> of_char c \<and> of_char c < (127 :: nat)"

lemma visible_no_space:
  "visible c \<Longrightarrow> front_code space_encodings (c # cs) = None"
  "visible c \<Longrightarrow> front_code (map rev space_encodings) (c # cs) = None"
  by (auto simp: front_code_None_iff space_encodings_def visible_def)

lemma trim_space_visible:
  assumes "s = [] \<or> visible (hd s) \<and> visible (last s)"
  shows "trim_space s = s"
proof (cases "s = []")
  case False
  with assms have v: "visible (hd s)" "visible (last s)" by auto
  obtain c cs where s: "s = c # cs" using False by (cases s) auto
  obtain d ds where r: "rev s = d # ds" using False by (cases "rev s") auto
  have "last s = d" by (metis hd_rev list.sel(1) r)
  then have "strip_back space_encodings s = s"
    using v(2) visible_no_space(2) [of d ds] r
    by (simp add: strip_back_def strip_front_id flip: rev_swap)
  moreover have "strip_front space_encodings s = s"
    using v(1) visible_no_space(1) [of c cs] s by (simp add: strip_front_id)
  ultimately show ?thesis by (simp add: trim_space_def)
qed simp

lemma trim_space_code [code]:
  "trim_space s = (if s = [] \<or> visible (hd s) \<and> visible (last s) then s
                   else strip_back space_encodings (strip_front space_encodings s))"
  using trim_space_visible [of s] by (auto simp: trim_space_def)

text \<open>
  Whether a rune of the string is a control character: below \<open>0x20\<close>, \<open>0x7F\<close>, or
  one of \<open>U+0080\<close> to \<open>U+009F\<close>, which UTF-8 encodes as \<open>0xC2\<close> and a byte below
  \<open>0xA0\<close> (\<open>0xC2\<close> is never a continuation byte, so the pair always starts a rune).
\<close>

fun has_control :: "string \<Rightarrow> bool" where
  "has_control [] = False"
| "has_control (c # cs) =
     (of_char c < (32 :: nat) \<or> of_char c = (127 :: nat) \<or>
      (c = CHR 0xC2 \<and> (case cs of [] \<Rightarrow> False | d # _ \<Rightarrow> (128 :: nat) \<le> of_char d \<and> of_char d < (160 :: nat))) \<or>
      has_control cs)"

text \<open>The white space of JSON.\<close>

definition json_space :: "char \<Rightarrow> bool" where
  "json_space c \<longleftrightarrow> c = CHR '' '' \<or> c = CHR 0x09 \<or> c = CHR 0x0A \<or> c = CHR 0x0D"

text \<open>\<open>strconv.Itoa\<close> of a length.\<close>

fun decimal :: "nat \<Rightarrow> string" where
  "decimal n = (if n < 10 then [byte (48 + n)] else decimal (n div 10) @ [byte (48 + n mod 10)])"

declare decimal.simps [simp del]

lemma decimal_nonempty [simp]: "decimal n \<noteq> []"
  by (subst decimal.simps) simp

lemma decimal_digits: "c \<in> set (decimal n) \<Longrightarrow> c \<noteq> CHR '':''"
proof (induction n arbitrary: c rule: decimal.induct)
  case (1 n)
  have digit: "byte (48 + k) \<noteq> CHR '':''" if "k < 10" for k :: nat
  proof
    assume "byte (48 + k) = CHR '':''"
    then have "of_char (byte (48 + k)) = (of_char (CHR '':'') :: nat)" by simp
    with that show False by simp
  qed
  show ?case
  proof (cases "n < 10")
    case True
    with "1.prems" digit [of n] show ?thesis by (simp add: decimal.simps [of n])
  next
    case False
    with "1.prems" consider "c \<in> set (decimal (n div 10))" | "c = byte (48 + n mod 10)"
      by (subst (asm) decimal.simps) auto
    then show ?thesis using "1.IH" [OF False] digit [of "n mod 10"] by cases auto
  qed
qed

end
