(* ===== verification/Machines.thy ===== *)
theory Machines
  imports Prelude
begin

text \<open>
  The contracts several components share, as locales, and the runs they speak about.
  \<open>store_machine\<close> is a store whose operations keep an invariant (a failing operation
  leaves the store as it was); \<open>monotone_machine\<close> adds a preorder that every operation
  climbs (what was recorded stays recorded); \<open>lifecycle\<close> is a status machine whose
  terminal statuses have no way out. Each is interpreted on the model of a package in that
  package's theory.
\<close>

section \<open>Runs\<close>

fun run :: "('op \<Rightarrow> 's \<Rightarrow> 's) \<Rightarrow> 's \<Rightarrow> 'op list \<Rightarrow> 's" where
  "run step s [] = s"
| "run step s (x # xs) = run step (step x s) xs"

lemma run_append: "run step s (xs @ ys) = run step (run step s xs) ys"
  by (induction xs arbitrary: s) auto

text \<open>
  A mutation of a store that keeps the old state on an error: the read-modify-write of the
  file stores, whose write happens only when the mutation succeeded.
\<close>

definition commit :: "'s \<Rightarrow> ('e, 's \<times> 'r) result \<Rightarrow> 's" where
  "commit s r = (case r of Inl _ \<Rightarrow> s | Inr (s', _) \<Rightarrow> s')"

lemma commit_simps [simp]: "commit s (Inl e) = s" "commit s (Inr (s', x)) = s'"
  by (simp_all add: commit_def)

lemma commit_inv: "I s \<Longrightarrow> (\<And>s' x. r = Inr (s', x) \<Longrightarrow> I s') \<Longrightarrow> I (commit s r)"
  by (auto simp: commit_def split: sum.splits)

section \<open>Stores with an invariant\<close>

locale store_machine =
  fixes init :: "'s"
    and step :: "'op \<Rightarrow> 's \<Rightarrow> 's"
    and inv :: "'s \<Rightarrow> bool"
  assumes init_inv: "inv init"
    and step_inv: "inv s \<Longrightarrow> inv (step x s)"
begin

lemma run_inv: "inv s \<Longrightarrow> inv (run step s xs)"
  by (induction xs arbitrary: s) (auto intro: step_inv)

lemma reachable_inv: "inv (run step init xs)"
  by (rule run_inv) (rule init_inv)

lemma consequence: "(\<And>s. inv s \<Longrightarrow> P s) \<Longrightarrow> P (run step init xs)"
  using reachable_inv by blast

end

locale monotone_machine = store_machine init step inv
  for init :: "'s" and step :: "'op \<Rightarrow> 's \<Rightarrow> 's" and inv :: "'s \<Rightarrow> bool" +
  fixes below :: "'s \<Rightarrow> 's \<Rightarrow> bool"
  assumes below_refl: "below s s"
    and below_trans: "below s t \<Longrightarrow> below t u \<Longrightarrow> below s u"
    and step_below: "inv s \<Longrightarrow> below s (step x s)"
begin

lemma run_below: "inv s \<Longrightarrow> below s (run step s xs)"
proof (induction xs arbitrary: s)
  case Nil
  then show ?case by (simp add: below_refl)
next
  case (Cons x xs)
  from Cons.prems have "below s (step x s)" by (rule step_below)
  moreover from Cons have "below (step x s) (run step (step x s) xs)" by (simp add: step_inv)
  ultimately show ?case by (auto intro: below_trans)
qed

lemma later_below: "below (run step init xs) (run step init (xs @ ys))"
  by (simp add: run_append run_below reachable_inv)

end

section \<open>Status machines\<close>

locale lifecycle =
  fixes terminal :: "'p \<Rightarrow> bool"
    and allowed :: "'p \<Rightarrow> 'p \<Rightarrow> bool"
  assumes terminal_stuck: "terminal p \<Longrightarrow> allowed p q \<Longrightarrow> q = p"
begin

lemma terminal_chain:
  "terminal p \<Longrightarrow> successively allowed (p # ps) \<Longrightarrow> q \<in> set ps \<Longrightarrow> q = p"
proof (induction ps arbitrary: p)
  case Nil
  then show ?case by simp
next
  case (Cons r ps)
  from Cons.prems have "r = p" by (auto dest: terminal_stuck)
  with Cons show ?case by auto
qed

end

end
