(* ===== verification/TaskState.thy ===== *)
theory TaskState
  imports Machines
begin

text \<open>
  Model of \<open>pkg/taskstate\<close>: plans, tasks with dependencies, claims by owners, approvals
  and the event list. The types are those of \<open>types.go\<close>, the checks those of
  \<open>validation.go\<close>, the transitions those of \<open>tasks.go\<close>, and the store operations those
  of \<open>file_store.go\<close> over the read-validate-mutate-write of \<open>persistence.go\<close>.
  An operation takes the state and the clock reading and returns an error or the new state
  with its result; the JSON file is an absent, undecodable or decoded state.
\<close>

section \<open>Types\<close>

datatype approval_state =
  ApprovalUnset | ApprovalPending | ApprovalApproved | ApprovalRejected | ApprovalOther string

datatype task_status =
  StatusUnset | StatusPending | StatusInProgress | StatusCompleted | StatusCancelled
  | StatusOther string

record approval_record =
  ar_state :: approval_state
  ar_actor :: string
  ar_reason :: string
  ar_decided :: "time option"

record approval_decision =
  ad_state :: approval_state
  ad_actor :: string
  ad_reason :: string
  ad_decided :: time

record plan_ref =
  pr_id :: string
  pr_title :: string
  pr_description :: string
  pr_created :: time
  pr_updated :: time
  pr_approval :: approval_record

record evidence_link =
  el_label :: string
  el_path :: string
  el_url :: string

record task_node =
  tn_id :: string
  tn_plan :: string
  tn_title :: string
  tn_description :: string
  tn_status :: task_status
  tn_blocked :: "string list"
  tn_owner :: string
  tn_hint :: string
  tn_created :: time
  tn_updated :: time
  tn_claimed :: "time option"
  tn_completed :: "time option"
  tn_approval :: approval_record
  tn_evidence :: "evidence_link list"

record task_event =
  te_task :: string
  te_plan :: string
  te_type :: string
  te_actor :: string
  te_status :: task_status
  te_created :: time

record claim_request =
  cr_plan :: string
  cr_task :: string
  cr_owner :: string
  cr_stale :: int

record task_update =
  tu_id :: string
  tu_title :: string
  tu_description :: string
  tu_status :: task_status
  tu_blocked :: "string list option"
  tu_owner :: string
  tu_hint :: string
  tu_evidence :: "evidence_link list option"

record owner_guard =
  og_plan :: string
  og_owner :: string
  og_status :: task_status

record guarded_update =
  gu_guard :: owner_guard
  gu_update :: task_update

datatype task_error =
  ErrCorruptState | ErrDependencyCycle | ErrInvalidApproval | ErrInvalidTransition
  | ErrInvalidOwner | ErrMissingDependency | ErrPlanExists | ErrPlanNotFound | ErrTaskBlocked
  | ErrTaskExists | ErrTaskNotFound | ErrTaskOwnerMismatch | ErrTaskOwned
  | ErrReadTaskState | ErrWriteTaskState

record task_state =
  ts_plans :: "(string \<times> plan_ref) list"
  ts_tasks :: "(string \<times> task_node) list"
  ts_events :: "task_event list"

definition newFileState :: task_state where
  "newFileState = \<lparr>ts_plans = [], ts_tasks = [], ts_events = []\<rparr>"

section \<open>Validation\<close>

definition validApprovalState :: "approval_state \<Rightarrow> bool" where
  "validApprovalState st =
     (case st of ApprovalPending \<Rightarrow> True | ApprovalApproved \<Rightarrow> True | ApprovalRejected \<Rightarrow> True
      | _ \<Rightarrow> False)"

definition validTaskStatus :: "task_status \<Rightarrow> bool" where
  "validTaskStatus st =
     (case st of StatusPending \<Rightarrow> True | StatusInProgress \<Rightarrow> True | StatusCompleted \<Rightarrow> True
      | StatusCancelled \<Rightarrow> True | _ \<Rightarrow> False)"

definition defaultStatus :: "task_status \<Rightarrow> task_status" where
  "defaultStatus st = (if st = StatusUnset then StatusPending else st)"

definition defaultApproval :: "approval_record \<Rightarrow> approval_record" where
  "defaultApproval a = (if ar_state a = ApprovalUnset then a\<lparr>ar_state := ApprovalPending\<rparr> else a)"

definition validTransition :: "task_status \<Rightarrow> task_status \<Rightarrow> (task_error, unit) result" where
  "validTransition from_status to_status =
     (if \<not> validTaskStatus from_status \<or> \<not> validTaskStatus to_status then Inl ErrInvalidTransition
      else if from_status = to_status then Inr ()
      else case from_status of
        StatusPending \<Rightarrow>
          (if to_status = StatusInProgress \<or> to_status = StatusCancelled then Inr ()
           else Inl ErrInvalidTransition)
      | StatusInProgress \<Rightarrow>
          (if to_status = StatusPending \<or> to_status = StatusCompleted \<or> to_status = StatusCancelled
           then Inr () else Inl ErrInvalidTransition)
      | _ \<Rightarrow> Inl ErrInvalidTransition)"

text \<open>
  The blockers of a key: reading an absent key of the Go map gives the zero task, which has
  none.
\<close>

definition blockersOf :: "(string \<times> task_node) list \<Rightarrow> string \<Rightarrow> string list" where
  "blockersOf tasks k = (case map_of tasks k of None \<Rightarrow> [] | Some t \<Rightarrow> tn_blocked t)"

text \<open>
  The depth-first search with its two mutable maps. The recursion is not structural, so it
  runs on fuel that bounds the depth; \<open>None\<close> is running out, which the fuel that
  \<open>validateGraph\<close> gives excludes (lemma \<open>hasCycle_enough\<close>).
\<close>

type_synonym marks = "string set \<times> string set"

fun hasCycle :: "nat \<Rightarrow> (string \<times> task_node) list \<Rightarrow> string \<Rightarrow> marks \<Rightarrow> (bool \<times> marks) option"
  and hasCycle_list ::
    "nat \<Rightarrow> (string \<times> task_node) list \<Rightarrow> string list \<Rightarrow> marks \<Rightarrow> (bool \<times> marks) option"
where
  "hasCycle 0 tasks k m = None"
| "hasCycle (Suc n) tasks k (visiting, visited) =
     (if k \<in> visited then Some (False, (visiting, visited))
      else if k \<in> visiting then Some (True, (visiting, visited))
      else case hasCycle_list n tasks (blockersOf tasks k) (insert k visiting, visited) of
        None \<Rightarrow> None
      | Some (True, m) \<Rightarrow> Some (True, m)
      | Some (False, (visiting', visited')) \<Rightarrow>
          Some (False, (visiting' - {k}, insert k visited')))"
| "hasCycle_list n tasks [] m = Some (False, m)"
| "hasCycle_list n tasks (d # ds) m =
     (case hasCycle n tasks d m of
        None \<Rightarrow> None
      | Some (True, m') \<Rightarrow> Some (True, m')
      | Some (False, m') \<Rightarrow> hasCycle_list n tasks ds m')"

definition missingDependency :: "(string \<times> task_node) list \<Rightarrow> bool" where
  "missingDependency tasks =
     list_ex (\<lambda>(k, t). list_ex (\<lambda>d. case map_of tasks d of
        None \<Rightarrow> True | Some dep \<Rightarrow> tn_plan dep \<noteq> tn_plan t) (tn_blocked t)) tasks"

definition validateGraph :: "(string \<times> task_node) list \<Rightarrow> (task_error, unit) result" where
  "validateGraph tasks =
     (if missingDependency tasks then Inl ErrMissingDependency
      else case hasCycle_list (length tasks + 2) tasks (map fst tasks) ({}, {}) of
        Some (False, _) \<Rightarrow> Inr ()
      | _ \<Rightarrow> Inl ErrDependencyCycle)"

definition validateState :: "task_state \<Rightarrow> (task_error, unit) result" where
  "validateState s =
     and_then (first_error (map (\<lambda>(k, p).
        guard (validApprovalState (ar_state (pr_approval p))) ErrInvalidApproval) (ts_plans s)))
     (\<lambda>_. and_then (first_error (map (\<lambda>(k, t).
        if \<not> validTaskStatus (tn_status t) then Inl ErrInvalidTransition
        else guard (validApprovalState (ar_state (tn_approval t))) ErrInvalidApproval) (ts_tasks s)))
     (\<lambda>_. validateGraph (ts_tasks s)))"

definition dependenciesComplete :: "task_state \<Rightarrow> task_node \<Rightarrow> bool" where
  "dependenciesComplete s t =
     list_all (\<lambda>d. case map_of (ts_tasks s) d of
        None \<Rightarrow> False | Some dep \<Rightarrow> tn_status dep = StatusCompleted) (tn_blocked t)"

section \<open>Transitions of one task\<close>

definition applyUpdate :: "task_node \<Rightarrow> task_update \<Rightarrow> time \<Rightarrow> task_node" where
  "applyUpdate t u now =
     (let t1 = (if tu_title u \<noteq> [] then t\<lparr>tn_title := tu_title u\<rparr> else t);
          t2 = (if tu_description u \<noteq> [] then t1\<lparr>tn_description := tu_description u\<rparr> else t1);
          t3 = (if tu_status u \<noteq> StatusUnset then t2\<lparr>tn_status := tu_status u\<rparr> else t2);
          t4 = (case tu_blocked u of None \<Rightarrow> t3 | Some ds \<Rightarrow> t3\<lparr>tn_blocked := ds\<rparr>);
          t5 = (if tu_owner u \<noteq> [] then t4\<lparr>tn_owner := tu_owner u\<rparr> else t4);
          t6 = (if tu_hint u \<noteq> [] then t5\<lparr>tn_hint := tu_hint u\<rparr> else t5);
          t7 = (case tu_evidence u of None \<Rightarrow> t6 | Some es \<Rightarrow> t6\<lparr>tn_evidence := es\<rparr>);
          t8 = (if tn_status t7 = StatusCompleted \<and> tn_completed t7 = None
                then t7\<lparr>tn_completed := Some now\<rparr> else t7);
          t9 = (if tn_status t8 \<noteq> StatusInProgress
                then t8\<lparr>tn_owner := [], tn_claimed := None\<rparr> else t8)
      in t9\<lparr>tn_updated := now\<rparr>)"

definition ownerStale :: "task_node \<Rightarrow> claim_request \<Rightarrow> time \<Rightarrow> bool" where
  "ownerStale t c now =
     (if cr_stale c \<le> 0 then False
      else case tn_claimed t of None \<Rightarrow> False | Some at \<Rightarrow> time_sub now at > cr_stale c)"

definition claimable :: "task_state \<Rightarrow> task_node \<Rightarrow> claim_request \<Rightarrow> time \<Rightarrow> bool" where
  "claimable s t c now =
     (if tn_status t = StatusCompleted \<or> tn_status t = StatusCancelled then False
      else if tn_status t = StatusInProgress \<and> tn_owner t \<noteq> [] \<and> \<not> ownerStale t c now then False
      else dependenciesComplete s t)"

definition validateClaimOwner :: "claim_request \<Rightarrow> (task_error, unit) result" where
  "validateClaimOwner c = guard (cr_owner c \<noteq> []) ErrInvalidOwner"

definition validateTaskOwnerGuard :: "task_node \<Rightarrow> owner_guard \<Rightarrow> (task_error, unit) result" where
  "validateTaskOwnerGuard t g =
     (if og_owner g = [] then Inl ErrInvalidOwner
      else if og_plan g \<noteq> [] \<and> tn_plan t \<noteq> og_plan g then Inl ErrTaskNotFound
      else if tn_owner t \<noteq> og_owner g then Inl ErrTaskOwnerMismatch
      else if og_status g \<noteq> StatusUnset \<and> tn_status t \<noteq> og_status g then Inl ErrInvalidTransition
      else Inr ())"

definition approvalFromDecision ::
  "approval_decision \<Rightarrow> time \<Rightarrow> (task_error, approval_record) result" where
  "approvalFromDecision d now =
     (if \<not> validApprovalState (ad_state d) then Inl ErrInvalidApproval
      else Inr \<lparr>ar_state = ad_state d, ar_actor = ad_actor d, ar_reason = ad_reason d,
                ar_decided = Some (defaultTime (ad_decided d) now)\<rparr>)"

definition newEvent :: "task_node \<Rightarrow> string \<Rightarrow> string \<Rightarrow> time \<Rightarrow> task_event" where
  "newEvent t kind actor now =
     \<lparr>te_task = tn_id t, te_plan = tn_plan t, te_type = kind, te_actor = actor,
      te_status = tn_status t, te_created = now\<rparr>"

definition sortTasks :: "task_node list \<Rightarrow> task_node list" where
  "sortTasks ts = sort_key (\<lambda>t. (tn_created t, tn_id t)) ts"

section \<open>Store operations\<close>

text \<open>
  Writing \<open>state.Tasks[key]\<close> and appending the event, which every successful task
  mutation ends with.
\<close>

definition putTask :: "task_state \<Rightarrow> string \<Rightarrow> task_node \<Rightarrow> string \<Rightarrow> string \<Rightarrow> time \<Rightarrow> task_state" where
  "putTask s k t kind actor now =
     s\<lparr>ts_tasks := AList.update k t (ts_tasks s),
       ts_events := ts_events s @ [newEvent t kind actor now]\<rparr>"

definition createPlan ::
  "time \<Rightarrow> plan_ref \<Rightarrow> task_state \<Rightarrow> (task_error, task_state \<times> plan_ref) result" where
  "createPlan now p s =
     (if pr_id p = [] then Inl ErrPlanNotFound
      else if map_of (ts_plans s) (pr_id p) \<noteq> None then Inl ErrPlanExists
      else
        let created = defaultTime (pr_created p) now;
            p' = p\<lparr>pr_created := created, pr_updated := defaultTime (pr_updated p) created,
                   pr_approval := defaultApproval (pr_approval p)\<rparr>
        in if \<not> validApprovalState (ar_state (pr_approval p')) then Inl ErrInvalidApproval
           else Inr (s\<lparr>ts_plans := AList.update (pr_id p) p' (ts_plans s)\<rparr>, p'))"

definition decidePlan ::
  "time \<Rightarrow> string \<Rightarrow> approval_decision \<Rightarrow> task_state \<Rightarrow> (task_error, task_state \<times> plan_ref) result"
where
  "decidePlan now pid d s =
     (case map_of (ts_plans s) pid of
        None \<Rightarrow> Inl ErrPlanNotFound
      | Some p \<Rightarrow> and_then (approvalFromDecision d now) (\<lambda>a.
          let p' = p\<lparr>pr_approval := a, pr_updated := now\<rparr>
          in Inr (s\<lparr>ts_plans := AList.update pid p' (ts_plans s)\<rparr>, p')))"

definition createTask ::
  "time \<Rightarrow> task_node \<Rightarrow> task_state \<Rightarrow> (task_error, task_state \<times> task_node) result" where
  "createTask now t s =
     (if map_of (ts_plans s) (tn_plan t) = None then Inl ErrPlanNotFound
      else if tn_id t = [] then Inl ErrTaskNotFound
      else if map_of (ts_tasks s) (tn_id t) \<noteq> None then Inl ErrTaskExists
      else
        let t1 = t\<lparr>tn_status := defaultStatus (tn_status t)\<rparr> in
        if \<not> validTaskStatus (tn_status t1) then Inl ErrInvalidTransition
        else
          let t2 = t1\<lparr>tn_approval := defaultApproval (tn_approval t1)\<rparr> in
          if \<not> validApprovalState (ar_state (tn_approval t2)) then Inl ErrInvalidApproval
          else
            let created = defaultTime (tn_created t2) now;
                t3 = t2\<lparr>tn_created := created, tn_updated := defaultTime (tn_updated t2) created\<rparr>
            in and_then (validateGraph (AList.update (tn_id t3) t3 (ts_tasks s)))
                 (\<lambda>_. Inr (putTask s (tn_id t3) t3 ''task.created'' [] now, t3)))"

definition commitUpdate ::
  "time \<Rightarrow> task_update \<Rightarrow> task_node \<Rightarrow> task_state \<Rightarrow> (task_error, task_state \<times> task_node) result"
where
  "commitUpdate now u t s =
     (let next = applyUpdate t u now in
      and_then (validTransition (tn_status t) (tn_status next)) (\<lambda>_.
      and_then (validateGraph (AList.update (tu_id u) next (ts_tasks s))) (\<lambda>_.
      Inr (putTask s (tu_id u) next ''task.updated'' (tn_owner next) now, next))))"

definition updateTask ::
  "time \<Rightarrow> task_update \<Rightarrow> task_state \<Rightarrow> (task_error, task_state \<times> task_node) result" where
  "updateTask now u s =
     (case map_of (ts_tasks s) (tu_id u) of
        None \<Rightarrow> Inl ErrTaskNotFound
      | Some t \<Rightarrow> commitUpdate now u t s)"

definition updateTaskIfOwned ::
  "time \<Rightarrow> guarded_update \<Rightarrow> task_state \<Rightarrow> (task_error, task_state \<times> task_node) result" where
  "updateTaskIfOwned now g s =
     (case map_of (ts_tasks s) (tu_id (gu_update g)) of
        None \<Rightarrow> Inl ErrTaskNotFound
      | Some t \<Rightarrow> and_then (validateTaskOwnerGuard t (gu_guard g))
                   (\<lambda>_. commitUpdate now (gu_update g) t s))"

definition decideTask ::
  "time \<Rightarrow> string \<Rightarrow> approval_decision \<Rightarrow> task_state \<Rightarrow> (task_error, task_state \<times> task_node) result"
where
  "decideTask now k d s =
     (case map_of (ts_tasks s) k of
        None \<Rightarrow> Inl ErrTaskNotFound
      | Some t \<Rightarrow> and_then (approvalFromDecision d now) (\<lambda>a.
          let t' = t\<lparr>tn_approval := a, tn_updated := now\<rparr>
          in Inr (putTask s k t' ''task.approval_decided'' (ad_actor d) now, t')))"

definition claimTask ::
  "time \<Rightarrow> task_node \<Rightarrow> claim_request \<Rightarrow> task_state \<Rightarrow> (task_error, task_state \<times> task_node) result"
where
  "claimTask now t c s =
     and_then (validateClaimOwner c) (\<lambda>_.
       if \<not> claimable s t c now then
         (if tn_owner t \<noteq> [] \<and> \<not> ownerStale t c now then Inl ErrTaskOwned else Inl ErrTaskBlocked)
       else
         let t' = t\<lparr>tn_status := StatusInProgress, tn_owner := cr_owner c,
                    tn_claimed := Some now, tn_updated := now\<rparr>
         in Inr (putTask s (tn_id t) t' ''task.claimed'' (cr_owner c) now, t'))"

definition claimTaskById ::
  "time \<Rightarrow> claim_request \<Rightarrow> task_state \<Rightarrow> (task_error, task_state \<times> task_node) result" where
  "claimTaskById now c s =
     (case map_of (ts_tasks s) (cr_task c) of
        None \<Rightarrow> Inl ErrTaskNotFound
      | Some t \<Rightarrow> claimTask now t c s)"

definition planTasks :: "task_state \<Rightarrow> string \<Rightarrow> task_node list" where
  "planTasks s pid = sortTasks (filter (\<lambda>t. tn_plan t = pid) (map snd (ts_tasks s)))"

definition claimNext ::
  "time \<Rightarrow> claim_request \<Rightarrow> task_state \<Rightarrow> (task_error, task_state \<times> task_node) result" where
  "claimNext now c s =
     (case find (\<lambda>t. claimable s t c now) (planTasks s (cr_plan c)) of
        None \<Rightarrow> Inl ErrTaskBlocked
      | Some t \<Rightarrow> claimTask now t (c\<lparr>cr_task := tn_id t\<rparr>) s)"

definition getPlan :: "string \<Rightarrow> task_state \<Rightarrow> (task_error, plan_ref) result" where
  "getPlan pid s = (case map_of (ts_plans s) pid of None \<Rightarrow> Inl ErrPlanNotFound | Some p \<Rightarrow> Inr p)"

definition listPlans :: "task_state \<Rightarrow> plan_ref list" where
  "listPlans s = sort_key pr_id (map snd (ts_plans s))"

definition listEvents :: "string \<Rightarrow> task_state \<Rightarrow> task_event list" where
  "listEvents pid s = filter (\<lambda>e. te_plan e = pid) (ts_events s)"

section \<open>The file\<close>

datatype task_file = NoFile | UndecodableFile | DecodedFile task_state

definition initState :: "task_state \<Rightarrow> task_state" where
  "initState s =
     s\<lparr>ts_plans := map (\<lambda>(k, p). (k, p\<lparr>pr_approval := defaultApproval (pr_approval p)\<rparr>)) (ts_plans s),
       ts_tasks := map (\<lambda>(k, t). (k, t\<lparr>tn_status := defaultStatus (tn_status t),
                                        tn_approval := defaultApproval (tn_approval t)\<rparr>)) (ts_tasks s)\<rparr>"

definition readState :: "io_env \<Rightarrow> task_file \<Rightarrow> (task_error, task_state) result" where
  "readState io f =
     (if io_read_fails io then Inl ErrReadTaskState
      else case f of
        NoFile \<Rightarrow> Inr newFileState
      | UndecodableFile \<Rightarrow> Inl ErrCorruptState
      | DecodedFile s \<Rightarrow> and_then (validateState (initState s)) (\<lambda>_. Inr (initState s)))"

text \<open>
  \<open>updatePlan\<close> and \<open>updateTask\<close> of \<open>persistence.go\<close>: read, mutate the decoded
  copy, write only when the mutation succeeded.
\<close>

definition withFile ::
  "io_env \<Rightarrow> (task_state \<Rightarrow> (task_error, task_state \<times> 'r) result) \<Rightarrow> task_file
     \<Rightarrow> task_file \<times> (task_error, 'r) result" where
  "withFile io mutate f =
     (case and_then (readState io f) mutate of
        Inl e \<Rightarrow> (f, Inl e)
      | Inr (s', r) \<Rightarrow> if io_write_fails io then (f, Inl ErrWriteTaskState)
                      else (DecodedFile s', Inr r))"

end
