(* ===== verification/TaskGraph.thy ===== *)
theory TaskGraph
  imports TaskState
begin

text \<open>
  Correctness of the dependency check of \<open>pkg/taskstate/validation.go\<close>: the depth-first
  search of \<open>hasCycle\<close> always has fuel, answers true only on a cycle, and marks as visited
  only keys from which every dependency chain ends; so \<open>validateGraph\<close> accepts exactly
  the graphs whose dependencies exist in their own plan and are acyclic.
\<close>

section \<open>The dependency relation\<close>

definition depRel :: "(string \<times> task_node) list \<Rightarrow> (string \<times> string) set" where
  "depRel tasks = {(d, k). d \<in> set (blockersOf tasks k)}"

lemma depRel_iff [simp]: "(d, k) \<in> depRel tasks \<longleftrightarrow> d \<in> set (blockersOf tasks k)"
  by (simp add: depRel_def)

lemma blockersOf_absent: "k \<notin> fst ` set tasks \<Longrightarrow> blockersOf tasks k = []"
  by (metis blockersOf_def map_of_eq_None_iff option.simps(4))

text \<open>One unfolding of the search at a key that carries no mark.\<close>

lemma hasCycle_enter:
  assumes "hasCycle (Suc n) tasks k (vg, vd) = Some (b, m)" "k \<notin> vd" "k \<notin> vg"
  obtains vg1 vd1 where
    "hasCycle_list n tasks (blockersOf tasks k) (insert k vg, vd) = Some (b, (vg1, vd1))"
    "\<not> b \<Longrightarrow> m = (vg1 - {k}, insert k vd1)"
  using assms by (auto split: option.splits bool.splits prod.splits)

lemma hasCycle_list_step:
  assumes "hasCycle_list n tasks (d # ds) m = Some (b, m')"
  obtains (found) "b" "hasCycle n tasks d m = Some (True, m')"
    | (cont) m1 where "hasCycle n tasks d m = Some (False, m1)"
        "hasCycle_list n tasks ds m1 = Some (b, m')"
  using assms by (auto split: option.splits bool.splits prod.splits)

section \<open>What an unsuccessful search leaves behind\<close>

lemma hasCycle_frame:
  shows "hasCycle n tasks k m = Some (False, m') \<Longrightarrow>
           fst m' = fst m \<and> snd m \<subseteq> snd m' \<and> k \<in> snd m'"
    and "hasCycle_list n tasks ds m = Some (False, m') \<Longrightarrow>
           fst m' = fst m \<and> snd m \<subseteq> snd m' \<and> set ds \<subseteq> snd m'"
proof (induction n tasks k m and n tasks ds m arbitrary: m' and m'
    rule: hasCycle_hasCycle_list.induct)
  case (1 tasks k m)
  then show ?case by simp
next
  case (2 n tasks k vg vd)
  show ?case
  proof (cases "k \<in> vd")
    case True
    with "2.prems" show ?thesis by auto
  next
    case False
    with "2.prems" have kvg: "k \<notin> vg" by (auto split: if_splits)
    obtain vg1 vd1 where
      sub: "hasCycle_list n tasks (blockersOf tasks k) (insert k vg, vd) = Some (False, (vg1, vd1))"
      and res: "m' = (vg1 - {k}, insert k vd1)"
      using hasCycle_enter [OF "2.prems" False kvg] by auto
    from "2.IH" [OF False kvg sub] res kvg show ?thesis by auto
  qed
next
  case (3 n tasks m)
  then show ?case by simp
next
  case (4 n tasks d ds m)
  from "4.prems" show ?case
  proof (cases rule: hasCycle_list_step)
    case found
    then show ?thesis by simp
  next
    case (cont m1)
    with "4.IH"(1) "4.IH"(2) [OF cont(1) refl] show ?thesis by fastforce
  qed
qed

lemma hasCycle_visited_acc:
  shows "hasCycle n tasks k m = Some (False, m') \<Longrightarrow> snd m \<subseteq> Wellfounded.acc (depRel tasks) \<Longrightarrow>
           snd m' \<subseteq> Wellfounded.acc (depRel tasks)"
    and "hasCycle_list n tasks ds m = Some (False, m') \<Longrightarrow> snd m \<subseteq> Wellfounded.acc (depRel tasks) \<Longrightarrow>
           snd m' \<subseteq> Wellfounded.acc (depRel tasks)"
proof (induction n tasks k m and n tasks ds m arbitrary: m' and m'
    rule: hasCycle_hasCycle_list.induct)
  case (1 tasks k m)
  then show ?case by simp
next
  case (2 n tasks k vg vd)
  show ?case
  proof (cases "k \<in> vd")
    case True
    with "2.prems" show ?thesis by auto
  next
    case False
    with "2.prems" have kvg: "k \<notin> vg" by (auto split: if_splits)
    obtain vg1 vd1 where
      sub: "hasCycle_list n tasks (blockersOf tasks k) (insert k vg, vd) = Some (False, (vg1, vd1))"
      and res: "m' = (vg1 - {k}, insert k vd1)"
      using hasCycle_enter [OF "2.prems"(1) False kvg] by auto
    have "vd1 \<subseteq> Wellfounded.acc (depRel tasks)" using "2.IH" [OF False kvg sub] "2.prems"(2) by simp
    moreover have "set (blockersOf tasks k) \<subseteq> vd1" using hasCycle_frame(2) [OF sub] by simp
    ultimately have "k \<in> Wellfounded.acc (depRel tasks)" by - (rule Wellfounded.acc.accI, auto)
    with \<open>vd1 \<subseteq> Wellfounded.acc (depRel tasks)\<close> res show ?thesis by simp
  qed
next
  case (3 n tasks m)
  then show ?case by simp
next
  case (4 n tasks d ds m)
  from "4.prems"(1) show ?case
  proof (cases rule: hasCycle_list_step)
    case found
    then show ?thesis by simp
  next
    case (cont m1)
    with "4.IH"(1) "4.IH"(2) [OF cont(1) refl] "4.prems"(2) show ?thesis by blast
  qed
qed

section \<open>A successful search has found a cycle\<close>

lemma hasCycle_sound:
  shows "hasCycle n tasks k m = Some (True, m') \<Longrightarrow> (\<forall>v \<in> fst m. (k, v) \<in> (depRel tasks)\<^sup>+) \<Longrightarrow>
           \<not> acyclic (depRel tasks)"
    and "hasCycle_list n tasks ds m = Some (True, m') \<Longrightarrow>
           (\<forall>d \<in> set ds. \<forall>v \<in> fst m. (d, v) \<in> (depRel tasks)\<^sup>+) \<Longrightarrow> \<not> acyclic (depRel tasks)"
proof (induction n tasks k m and n tasks ds m arbitrary: m' and m'
    rule: hasCycle_hasCycle_list.induct)
  case (1 tasks k m)
  then show ?case by simp
next
  case (2 n tasks k vg vd)
  from "2.prems"(1) have kvd: "k \<notin> vd" by (auto split: if_splits)
  show ?case
  proof (cases "k \<in> vg")
    case True
    with "2.prems"(2) show ?thesis by (auto simp: acyclic_def)
  next
    case False
    obtain vg1 vd1 where
      sub: "hasCycle_list n tasks (blockersOf tasks k) (insert k vg, vd) = Some (True, (vg1, vd1))"
      using hasCycle_enter [OF "2.prems"(1) kvd False] by auto
    have "\<forall>d \<in> set (blockersOf tasks k). \<forall>v \<in> insert k vg. (d, v) \<in> (depRel tasks)\<^sup>+"
    proof (intro ballI)
      fix d v
      assume "d \<in> set (blockersOf tasks k)" and v: "v \<in> insert k vg"
      then have dk: "(d, k) \<in> depRel tasks" by simp
      show "(d, v) \<in> (depRel tasks)\<^sup>+"
      proof (cases "v = k")
        case True
        with dk show ?thesis by blast
      next
        case False
        with v "2.prems"(2) have "(k, v) \<in> (depRel tasks)\<^sup>+" by simp
        with dk show ?thesis by (rule trancl_into_trancl2)
      qed
    qed
    with "2.IH" [OF kvd False sub] show ?thesis by simp
  qed
next
  case (3 n tasks m)
  then show ?case by simp
next
  case (4 n tasks d ds m)
  from "4.prems"(1) show ?case
  proof (cases rule: hasCycle_list_step)
    case found
    with "4.IH"(1) "4.prems"(2) show ?thesis by simp
  next
    case (cont m1)
    with hasCycle_frame(1) [OF cont(1)] "4.IH"(2) [OF cont(1) refl] "4.prems"(2)
    show ?thesis by simp
  qed
qed

section \<open>The fuel is enough\<close>

lemma hasCycle_enough:
  shows "card (fst ` set tasks - fst m) < n \<Longrightarrow> \<exists>r. hasCycle n tasks k m = Some r"
    and "card (fst ` set tasks - fst m) < n \<Longrightarrow> \<exists>r. hasCycle_list n tasks ds m = Some r"
proof (induction n tasks k m and n tasks ds m rule: hasCycle_hasCycle_list.induct)
  case (1 tasks k m)
  then show ?case by simp
next
  case (2 n tasks k vg vd)
  show ?case
  proof (cases "k \<in> vd \<or> k \<in> vg")
    case True
    then show ?thesis by auto
  next
    case False
    then have kvd: "k \<notin> vd" and kvg: "k \<notin> vg" by auto
    have "\<exists>r. hasCycle_list n tasks (blockersOf tasks k) (insert k vg, vd) = Some r"
    proof (cases "k \<in> fst ` set tasks")
      case True
      let ?K = "fst ` set tasks - vg"
      have "card (?K - {k}) < card ?K"
        using True kvg by (intro psubset_card_mono) auto
      moreover have "fst ` set tasks - insert k vg = ?K - {k}" by auto
      ultimately have "card (fst ` set tasks - fst (insert k vg, vd)) < n"
        using "2.prems" by simp
      then show ?thesis using "2.IH" [OF kvd kvg] by simp
    next
      case False
      then show ?thesis by (auto simp: blockersOf_absent)
    qed
    with kvd kvg show ?thesis by (auto split: bool.splits)
  qed
next
  case (3 n tasks m)
  show ?case by (rule exI [of _ "(False, m)"]) simp
next
  case (4 n tasks d ds m)
  from "4.IH"(1) [OF "4.prems"] obtain b m1 where one: "hasCycle n tasks d m = Some (b, m1)"
    by auto
  show ?case
  proof (cases b)
    case True
    with one show ?thesis by (cases m1) auto
  next
    case False
    with one have no: "hasCycle n tasks d m = Some (False, m1)" by simp
    with hasCycle_frame(1) [OF no] "4.IH"(2) [OF no refl] "4.prems" show ?thesis by auto
  qed
qed

section \<open>The whole check\<close>

lemma validateGraph_search:
  obtains b m where "hasCycle_list (length tasks + 2) tasks (map fst tasks) ({}, {}) = Some (b, m)"
proof -
  have "card (fst ` set tasks) \<le> length tasks"
    by (metis card_length image_set length_map)
  then have "card (fst ` set tasks - fst ({}, {})) < length tasks + 2" by simp
  then show ?thesis using hasCycle_enough(2) that by (metis prod.collapse)
qed

lemma all_accessible:
  assumes "fst ` set tasks \<subseteq> Wellfounded.acc (depRel tasks)"
  shows "acyclic (depRel tasks)"
proof -
  have "x \<in> Wellfounded.acc (depRel tasks)" for x
  proof (cases "x \<in> fst ` set tasks")
    case True
    with assms show ?thesis by blast
  next
    case False
    then show ?thesis by - (rule Wellfounded.acc.accI, simp add: blockersOf_absent)
  qed
  then show ?thesis by (intro wf_acyclic acc_wfI) blast
qed

lemma search_result:
  assumes "hasCycle_list (length tasks + 2) tasks (map fst tasks) ({}, {}) = Some (b, m)"
  shows "b \<longleftrightarrow> \<not> acyclic (depRel tasks)"
proof (cases b)
  case True
  with assms hasCycle_sound(2) [of _ tasks _ "({}, {})"] show ?thesis by auto
next
  case False
  with assms have no: "hasCycle_list (length tasks + 2) tasks (map fst tasks) ({}, {}) = Some (False, m)"
    by simp
  have "set (map fst tasks) \<subseteq> snd m" using hasCycle_frame(2) [OF no] by simp
  moreover have "snd m \<subseteq> Wellfounded.acc (depRel tasks)" using hasCycle_visited_acc(2) [OF no] by simp
  ultimately have "acyclic (depRel tasks)" by (intro all_accessible) auto
  with False show ?thesis by simp
qed

definition depsPresent :: "(string \<times> task_node) list \<Rightarrow> bool" where
  "depsPresent tasks \<longleftrightarrow>
     (\<forall>(k, t) \<in> set tasks. \<forall>d \<in> set (tn_blocked t).
        \<exists>dep. map_of tasks d = Some dep \<and> tn_plan dep = tn_plan t)"

lemma missingDependency_iff: "missingDependency tasks \<longleftrightarrow> \<not> depsPresent tasks"
  by (force simp: missingDependency_def depsPresent_def list_ex_iff split: option.splits)

lemma validateGraph_cases:
  "validateGraph tasks =
     (if \<not> depsPresent tasks then Inl ErrMissingDependency
      else if \<not> acyclic (depRel tasks) then Inl ErrDependencyCycle else Inr ())"
proof -
  obtain b m where found:
    "hasCycle_list (length tasks + 2) tasks (map fst tasks) ({}, {}) = Some (b, m)"
    by (rule validateGraph_search)
  from search_result [OF found] found show ?thesis
    by (cases b) (simp_all add: validateGraph_def missingDependency_iff)
qed

lemma validateGraph_ok_iff:
  "validateGraph tasks = Inr u \<longleftrightarrow> depsPresent tasks \<and> acyclic (depRel tasks)"
  by (simp add: validateGraph_cases)

text \<open>The check looks only at the blockers and plans of the entries.\<close>

lemma validateGraph_cong:
  assumes "map (\<lambda>(k, t). (k, tn_plan t, tn_blocked t)) ts = map (\<lambda>(k, t). (k, tn_plan t, tn_blocked t)) us"
  shows "validateGraph ts = validateGraph us"
proof -
  let ?v = "\<lambda>(k, t). (k, (tn_plan t, tn_blocked t))"
  have eq: "map ?v ts = map ?v us" using assms by (simp add: case_prod_beta')
  have look: "map_option (\<lambda>t. (tn_plan t, tn_blocked t)) (map_of ts k) =
              map_option (\<lambda>t. (tn_plan t, tn_blocked t)) (map_of us k)" for k
    using arg_cong [OF eq, of "\<lambda>m. map_of m k"] by (simp add: map_of_mapped_keys)
  have "blockersOf ts k = blockersOf us k" for k
    using look [of k] by (auto simp: blockersOf_def split: option.splits)
  then have R: "depRel ts = depRel us" by (simp add: depRel_def)
  have one: "depsPresent bs"
    if P: "depsPresent as" and E: "map ?v as = map ?v bs"
      and L: "\<And>k. map_option (\<lambda>t. (tn_plan t, tn_blocked t)) (map_of as k) =
                  map_option (\<lambda>t. (tn_plan t, tn_blocked t)) (map_of bs k)"
    for as bs :: "(string \<times> task_node) list"
    unfolding depsPresent_def
  proof (intro ballI, clarify)
    fix k t d
    assume "(k, t) \<in> set bs" and d: "d \<in> set (tn_blocked t)"
    then have "(k, tn_plan t, tn_blocked t) \<in> set (map ?v bs)" by force
    then have "(k, tn_plan t, tn_blocked t) \<in> set (map ?v as)" by (simp only: E)
    then obtain t' where "(k, t') \<in> set as" "tn_plan t' = tn_plan t" "tn_blocked t' = tn_blocked t"
      by auto
    with P d obtain dep where "map_of as d = Some dep" "tn_plan dep = tn_plan t"
      by (fastforce simp: depsPresent_def)
    with L [of d] show "\<exists>dep. map_of bs d = Some dep \<and> tn_plan dep = tn_plan t"
      by (auto simp: map_option_eq_Some dest: sym)
  qed
  have "depsPresent ts \<longleftrightarrow> depsPresent us"
    using one [of ts us] one [of us ts] eq look by metis
  with R show ?thesis by (simp add: validateGraph_cases)
qed

end
