(* ===== verification/TaskStore.thy ===== *)
theory TaskStore
  imports TaskGraph
begin

text \<open>
  The invariant of the task store of \<open>pkg/taskstate\<close> and what its operations promise:
  every operation keeps the stored state valid and acyclic with keys equal to ids, a claim
  needs complete dependencies and never takes a task from an owner whose claim is fresh,
  finished tasks keep their status for ever, and \<open>ClaimNext\<close> takes the first claimable
  task in creation order.
\<close>

section \<open>Invariant\<close>

definition tasksOk :: "(string \<times> task_node) list \<Rightarrow> bool" where
  "tasksOk tasks \<longleftrightarrow>
     distinct (map fst tasks) \<and>
     (\<forall>k t. map_of tasks k = Some t \<longrightarrow> tn_id t = k \<and> validTaskStatus (tn_status t) \<and>
        validApprovalState (ar_state (tn_approval t))) \<and>
     depsPresent tasks \<and> acyclic (depRel tasks)"

definition plansOk :: "(string \<times> plan_ref) list \<Rightarrow> bool" where
  "plansOk plans \<longleftrightarrow>
     distinct (map fst plans) \<and>
     (\<forall>k p. map_of plans k = Some p \<longrightarrow> pr_id p = k \<and> validApprovalState (ar_state (pr_approval p)))"

definition storeOk :: "task_state \<Rightarrow> bool" where
  "storeOk s \<longleftrightarrow>
     plansOk (ts_plans s) \<and> tasksOk (ts_tasks s) \<and>
     (\<forall>k t. map_of (ts_tasks s) k = Some t \<longrightarrow> map_of (ts_plans s) (tn_plan t) \<noteq> None)"

lemma tasksOk_entry:
  "tasksOk tasks \<Longrightarrow> map_of tasks k = Some t \<Longrightarrow>
     tn_id t = k \<and> validTaskStatus (tn_status t) \<and> validApprovalState (ar_state (tn_approval t))"
  by (simp add: tasksOk_def)

lemma storeOk_task:
  "storeOk s \<Longrightarrow> map_of (ts_tasks s) k = Some t \<Longrightarrow>
     tn_id t = k \<and> validTaskStatus (tn_status t) \<and> validApprovalState (ar_state (tn_approval t)) \<and>
     map_of (ts_plans s) (tn_plan t) \<noteq> None"
  by (auto simp: storeOk_def dest: tasksOk_entry)

lemma storeOk_plan:
  "storeOk s \<Longrightarrow> map_of (ts_plans s) k = Some p \<Longrightarrow>
     pr_id p = k \<and> validApprovalState (ar_state (pr_approval p))"
  by (simp add: storeOk_def plansOk_def)

lemma storeOk_entries:
  assumes "storeOk s"
  shows "(k, p) \<in> set (ts_plans s) \<Longrightarrow> map_of (ts_plans s) k = Some p"
    and "(k, t) \<in> set (ts_tasks s) \<Longrightarrow> map_of (ts_tasks s) k = Some t"
proof -
  from assms have "distinct (map fst (ts_plans s))" "distinct (map fst (ts_tasks s))"
    by (simp_all add: storeOk_def plansOk_def tasksOk_def)
  then show "(k, p) \<in> set (ts_plans s) \<Longrightarrow> map_of (ts_plans s) k = Some p"
    and "(k, t) \<in> set (ts_tasks s) \<Longrightarrow> map_of (ts_tasks s) k = Some t"
    by (auto dest: in_set_iff_map_of)
qed

lemma storeOk_validateState:
  assumes "storeOk s"
  shows "validateState s = Inr ()"
proof -
  have "validateGraph (ts_tasks s) = Inr ()"
    using assms by (simp add: storeOk_def tasksOk_def validateGraph_ok_iff)
  moreover have "validApprovalState (ar_state (pr_approval p))" if "(k, p) \<in> set (ts_plans s)" for k p
    using storeOk_plan [OF assms storeOk_entries(1) [OF assms that]] by simp
  moreover have "validTaskStatus (tn_status t) \<and> validApprovalState (ar_state (tn_approval t))"
    if "(k, t) \<in> set (ts_tasks s)" for k t
    using storeOk_task [OF assms storeOk_entries(2) [OF assms that]] by simp
  ultimately show ?thesis by (auto simp: validateState_def first_error_ok_iff)
qed

lemma default_valid:
  "validApprovalState (ar_state a) \<Longrightarrow> defaultApproval a = a"
  "validTaskStatus st \<Longrightarrow> defaultStatus st = st"
  by (auto simp: defaultApproval_def defaultStatus_def validApprovalState_def validTaskStatus_def)

lemma initState_id:
  assumes "storeOk s"
  shows "initState s = s"
proof -
  have "map (\<lambda>(k, p). (k, p\<lparr>pr_approval := defaultApproval (pr_approval p)\<rparr>)) (ts_plans s) = ts_plans s"
    by (rule map_idI) (auto dest!: storeOk_entries(1) [OF assms] dest: storeOk_plan [OF assms]
        simp: default_valid)
  moreover have "map (\<lambda>(k, t). (k, t\<lparr>tn_status := defaultStatus (tn_status t),
           tn_approval := defaultApproval (tn_approval t)\<rparr>)) (ts_tasks s) = ts_tasks s"
    by (rule map_idI) (auto dest!: storeOk_entries(2) [OF assms] dest: storeOk_task [OF assms]
        simp: default_valid)
  ultimately show ?thesis by (simp add: initState_def)
qed

text \<open>A state the store wrote is read back as it was written.\<close>

lemma readState_written: "storeOk s \<Longrightarrow> readState io_ok (DecodedFile s) = Inr s"
  by (simp add: readState_def initState_id storeOk_validateState)

section \<open>Replacing one task\<close>

lemma tasksOk_update:
  assumes "tasksOk tasks" "validateGraph (AList.update k t tasks) = Inr u"
    "tn_id t = k" "validTaskStatus (tn_status t)" "validApprovalState (ar_state (tn_approval t))"
  shows "tasksOk (AList.update k t tasks)"
  using assms by (simp add: tasksOk_def validateGraph_ok_iff distinct_update)

lemma validateGraph_same_edges:
  assumes "distinct (map fst tasks)" "map_of tasks k = Some t" "tn_plan t' = tn_plan t"
    "tn_blocked t' = tn_blocked t"
  shows "validateGraph (AList.update k t' tasks) = validateGraph tasks"
proof (rule validateGraph_cong)
  from assms show "map (\<lambda>(k, t). (k, tn_plan t, tn_blocked t)) (AList.update k t' tasks) =
      map (\<lambda>(k, t). (k, tn_plan t, tn_blocked t)) tasks"
  proof (induction tasks)
    case Nil
    then show ?case by simp
  next
    case (Cons e es)
    obtain k' u where e: "e = (k', u)" by fastforce
    show ?case
    proof (cases "k' = k")
      case True
      with Cons.prems e show ?thesis by auto
    next
      case False
      with Cons e show ?thesis by (auto split: if_splits)
    qed
  qed
qed

lemma storeOk_putTask:
  assumes "storeOk s" "validateGraph (AList.update k t (ts_tasks s)) = Inr u" "tn_id t = k"
    "validTaskStatus (tn_status t)" "validApprovalState (ar_state (tn_approval t))"
    "map_of (ts_plans s) (tn_plan t) \<noteq> None"
  shows "storeOk (putTask s k t kind actor now)"
proof -
  from assms have "tasksOk (AList.update k t (ts_tasks s))"
    by (intro tasksOk_update) (auto simp: storeOk_def)
  with assms show ?thesis by (simp add: storeOk_def putTask_def)
qed

lemma storeOk_putTask_same_edges:
  assumes "storeOk s" "map_of (ts_tasks s) k = Some t" "tn_id t' = k" "tn_plan t' = tn_plan t"
    "tn_blocked t' = tn_blocked t" "validTaskStatus (tn_status t')"
    "validApprovalState (ar_state (tn_approval t'))"
  shows "storeOk (putTask s k t' kind actor now)"
proof (rule storeOk_putTask)
  show "validateGraph (AList.update k t' (ts_tasks s)) = Inr ()"
    using assms validateGraph_same_edges [of "ts_tasks s" k t t']
    by (simp add: storeOk_def tasksOk_def validateGraph_ok_iff)
  show "map_of (ts_plans s) (tn_plan t') \<noteq> None"
    using storeOk_task [OF assms(1,2)] assms(4) by simp
qed (use assms in auto)

section \<open>Every operation keeps the invariant\<close>

lemma validApproval_default:
  "validApprovalState (ar_state (defaultApproval a)) \<longleftrightarrow>
     validApprovalState (ar_state a) \<or> ar_state a = ApprovalUnset"
  by (simp add: defaultApproval_def validApprovalState_def)

lemma approvalFromDecision_valid:
  "approvalFromDecision d now = Inr a \<Longrightarrow> validApprovalState (ar_state a)"
  by (auto simp: approvalFromDecision_def split: if_splits)

lemma storeOk_putPlan:
  assumes "storeOk s" "pr_id p = k" "validApprovalState (ar_state (pr_approval p))"
  shows "storeOk (s\<lparr>ts_plans := AList.update k p (ts_plans s)\<rparr>)"
  using assms by (simp add: storeOk_def plansOk_def distinct_update)

lemma createPlan_ok [inv_rules]: "storeOk s \<Longrightarrow> createPlan now p s = Inr (s', r) \<Longrightarrow> storeOk s'"
  by (auto simp: createPlan_def Let_def split: if_splits intro: storeOk_putPlan)

lemma decidePlan_ok [inv_rules]:
  assumes "storeOk s" "decidePlan now k d s = Inr (s', r)"
  shows "storeOk s'"
proof -
  from assms(2) obtain p a where p: "map_of (ts_plans s) k = Some p"
    and a: "approvalFromDecision d now = Inr a"
    and s': "s' = s\<lparr>ts_plans := AList.update k (p\<lparr>pr_approval := a, pr_updated := now\<rparr>) (ts_plans s)\<rparr>"
    by (auto simp: decidePlan_def Let_def split: option.splits)
  show ?thesis unfolding s'
    using storeOk_plan [OF assms(1) p] approvalFromDecision_valid [OF a]
    by (intro storeOk_putPlan assms) auto
qed

lemma createTask_ok [inv_rules]: "storeOk s \<Longrightarrow> createTask now t s = Inr (s', r) \<Longrightarrow> storeOk s'"
  by (auto simp: createTask_def Let_def split: if_splits intro!: storeOk_putTask)

lemma applyUpdate_id [simp]: "tn_id (applyUpdate t u now) = tn_id t"
  and applyUpdate_plan [simp]: "tn_plan (applyUpdate t u now) = tn_plan t"
  and applyUpdate_approval [simp]: "tn_approval (applyUpdate t u now) = tn_approval t"
  and applyUpdate_status [simp]:
    "tn_status (applyUpdate t u now) =
       (if tu_status u = StatusUnset then tn_status t else tu_status u)"
  by (simp_all add: applyUpdate_def Let_def split: option.split)

lemma validTransition_valid:
  "validTransition a b = Inr u \<Longrightarrow> validTaskStatus a \<and> validTaskStatus b"
  by (auto simp: validTransition_def split: if_splits)

lemma commitUpdate_cases:
  assumes "commitUpdate now u t s = Inr (s', r)"
  shows "validTransition (tn_status t) (tn_status (applyUpdate t u now)) = Inr ()"
    and "validateGraph (AList.update (tu_id u) (applyUpdate t u now) (ts_tasks s)) = Inr ()"
    and "r = applyUpdate t u now"
    and "s' = putTask s (tu_id u) r ''task.updated'' (tn_owner r) now"
  using assms by (auto simp: commitUpdate_def Let_def simp del: applyUpdate_status)

lemma commitUpdate_ok:
  assumes "storeOk s" "map_of (ts_tasks s) (tu_id u) = Some t" "commitUpdate now u t s = Inr (s', r)"
  shows "storeOk s'"
proof -
  note c = commitUpdate_cases [OF assms(3)]
  show ?thesis unfolding c(4) c(3)
    using storeOk_task [OF assms(1,2)] validTransition_valid [OF c(1)]
    by (intro storeOk_putTask [OF assms(1) c(2)]) (auto simp del: applyUpdate_status)
qed

lemma updateTask_ok [inv_rules]: "storeOk s \<Longrightarrow> updateTask now u s = Inr (s', r) \<Longrightarrow> storeOk s'"
  by (auto simp: updateTask_def split: option.splits intro: commitUpdate_ok)

lemma updateTaskIfOwned_ok [inv_rules]:
  "storeOk s \<Longrightarrow> updateTaskIfOwned now g s = Inr (s', r) \<Longrightarrow> storeOk s'"
  by (auto simp: updateTaskIfOwned_def split: option.splits intro: commitUpdate_ok)

lemma decideTask_ok [inv_rules]:
  assumes "storeOk s" "decideTask now k d s = Inr (s', r)"
  shows "storeOk s'"
proof -
  from assms(2) obtain t a where t: "map_of (ts_tasks s) k = Some t"
    and a: "approvalFromDecision d now = Inr a"
    and s': "s' = putTask s k (t\<lparr>tn_approval := a, tn_updated := now\<rparr>) ''task.approval_decided'' (ad_actor d) now"
    by (auto simp: decideTask_def Let_def split: option.splits)
  show ?thesis unfolding s'
    using storeOk_task [OF assms(1) t] approvalFromDecision_valid [OF a]
    by (intro storeOk_putTask_same_edges [OF assms(1) t]) auto
qed

lemma claimTask_cases:
  assumes "claimTask now t c s = Inr (s', r)"
  shows "cr_owner c \<noteq> []" "claimable s t c now"
    and "r = t\<lparr>tn_status := StatusInProgress, tn_owner := cr_owner c,
             tn_claimed := Some now, tn_updated := now\<rparr>"
    and "s' = putTask s (tn_id t) r ''task.claimed'' (cr_owner c) now"
  using assms by (auto simp: claimTask_def validateClaimOwner_def Let_def split: if_splits)

lemma claimTask_ok:
  assumes "storeOk s" "map_of (ts_tasks s) k = Some t" "claimTask now t c s = Inr (s', r)"
  shows "storeOk s'"
proof -
  note c = claimTask_cases [OF assms(3)]
  show ?thesis unfolding c(4) c(3)
    using storeOk_task [OF assms(1,2)] assms(2)
    by (intro storeOk_putTask_same_edges [OF assms(1), where t = t]) (auto simp: validTaskStatus_def)
qed

lemma claimTaskById_ok [inv_rules]:
  "storeOk s \<Longrightarrow> claimTaskById now c s = Inr (s', r) \<Longrightarrow> storeOk s'"
  by (auto simp: claimTaskById_def split: option.splits intro: claimTask_ok)

lemma planTasks_member:
  "t \<in> set (planTasks s pid) \<longleftrightarrow> (\<exists>k. (k, t) \<in> set (ts_tasks s)) \<and> tn_plan t = pid"
  by (force simp: planTasks_def sortTasks_def)

lemma planTasks_lookup:
  assumes "storeOk s" "t \<in> set (planTasks s pid)"
  shows "map_of (ts_tasks s) (tn_id t) = Some t"
proof -
  from assms(2) obtain k where "(k, t) \<in> set (ts_tasks s)" by (auto simp: planTasks_member)
  with assms(1) have k: "map_of (ts_tasks s) k = Some t" by (rule storeOk_entries(2))
  with storeOk_task [OF assms(1) k] show ?thesis by simp
qed

lemma claimNext_cases:
  assumes "claimNext now c s = Inr (s', r)"
  obtains t where "t \<in> set (planTasks s (cr_plan c))"
    "find (\<lambda>t. claimable s t c now) (planTasks s (cr_plan c)) = Some t"
    "claimTask now t (c\<lparr>cr_task := tn_id t\<rparr>) s = Inr (s', r)"
proof -
  let ?f = "find (\<lambda>t. claimable s t c now) (planTasks s (cr_plan c))"
  from assms obtain t where f: "?f = Some t"
    and r: "claimTask now t (c\<lparr>cr_task := tn_id t\<rparr>) s = Inr (s', r)"
    by (auto simp: claimNext_def split: option.splits)
  from f have "t \<in> set (planTasks s (cr_plan c))" by (auto simp: find_Some_iff)
  then show ?thesis using f r by (rule that)
qed

lemma claimNext_ok [inv_rules]:
  assumes "storeOk s" "claimNext now c s = Inr (s', r)"
  shows "storeOk s'"
  using assms(2)
  by (cases rule: claimNext_cases) (metis assms(1) claimTask_ok planTasks_lookup)

section \<open>Runs of the store\<close>

datatype task_op =
    CreatePlan plan_ref
  | DecidePlan string approval_decision
  | CreateTask task_node
  | UpdateTask task_update
  | UpdateTaskIfOwned guarded_update
  | DecideTask string approval_decision
  | ClaimTask claim_request
  | ClaimNext claim_request

fun task_step :: "time \<times> task_op \<Rightarrow> task_state \<Rightarrow> task_state" where
  "task_step (now, CreatePlan p) s = commit s (createPlan now p s)"
| "task_step (now, DecidePlan k d) s = commit s (decidePlan now k d s)"
| "task_step (now, CreateTask t) s = commit s (createTask now t s)"
| "task_step (now, UpdateTask u) s = commit s (updateTask now u s)"
| "task_step (now, UpdateTaskIfOwned g) s = commit s (updateTaskIfOwned now g s)"
| "task_step (now, DecideTask k d) s = commit s (decideTask now k d s)"
| "task_step (now, ClaimTask c) s = commit s (claimTaskById now c s)"
| "task_step (now, ClaimNext c) s = commit s (claimNext now c s)"

lemma storeOk_new: "storeOk newFileState"
  by (simp add: storeOk_def plansOk_def tasksOk_def newFileState_def depsPresent_def depRel_def
      blockersOf_def acyclic_def)

lemma task_step_ok: "storeOk s \<Longrightarrow> storeOk (task_step x s)"
  by (cases "(x, s)" rule: task_step.cases) (auto intro!: commit_inv [of storeOk] dest: inv_rules)


interpretation task_store: store_machine newFileState task_step storeOk
  by unfold_locales (auto intro: storeOk_new task_step_ok)

section \<open>What later operations keep\<close>

definition finished :: "task_status \<Rightarrow> bool" where
  "finished st \<longleftrightarrow> st = StatusCompleted \<or> st = StatusCancelled"

interpretation task_status: lifecycle finished "\<lambda>a b. validTransition a b = Inr ()"
  by unfold_locales (auto simp: finished_def validTransition_def split: if_splits)

text \<open>Tasks stay, finished ones with their status, and the event list grows at its end.\<close>

definition historyKept :: "task_state \<Rightarrow> task_state \<Rightarrow> bool" where
  "historyKept s s' \<longleftrightarrow>
     prefix (ts_events s) (ts_events s') \<and>
     (\<forall>k t. map_of (ts_tasks s) k = Some t \<longrightarrow>
        (\<exists>t'. map_of (ts_tasks s') k = Some t' \<and> tn_plan t' = tn_plan t \<and>
           (finished (tn_status t) \<longrightarrow> tn_status t' = tn_status t)))"

lemma historyKept_refl: "historyKept s s"
  by (simp add: historyKept_def)

lemma historyKept_trans: "historyKept s t \<Longrightarrow> historyKept t u \<Longrightarrow> historyKept s u"
proof -
  assume st: "historyKept s t" and tu: "historyKept t u"
  have "prefix (ts_events s) (ts_events u)"
    using st tu by (auto simp: historyKept_def intro: prefix_order.trans)
  moreover have "\<exists>x''. map_of (ts_tasks u) k = Some x'' \<and> tn_plan x'' = tn_plan x \<and>
      (finished (tn_status x) \<longrightarrow> tn_status x'' = tn_status x)"
    if x: "map_of (ts_tasks s) k = Some x" for k x
  proof -
    from st x obtain x' where x': "map_of (ts_tasks t) k = Some x'" "tn_plan x' = tn_plan x"
      "finished (tn_status x) \<longrightarrow> tn_status x' = tn_status x"
      unfolding historyKept_def by blast
    from tu x'(1) obtain x'' where "map_of (ts_tasks u) k = Some x''" "tn_plan x'' = tn_plan x'"
      "finished (tn_status x') \<longrightarrow> tn_status x'' = tn_status x'"
      unfolding historyKept_def by blast
    with x' show ?thesis by auto
  qed
  ultimately show "historyKept s u" by (simp add: historyKept_def)
qed

lemma historyKept_putTask:
  assumes "\<And>t. map_of (ts_tasks s) k = Some t \<Longrightarrow>
    tn_plan t' = tn_plan t \<and> (finished (tn_status t) \<longrightarrow> tn_status t' = tn_status t)"
  shows "historyKept s (putTask s k t' kind actor now)"
  using assms by (simp add: historyKept_def putTask_def)

lemma historyKept_commitUpdate:
  assumes "map_of (ts_tasks s) (tu_id u) = Some t" "commitUpdate now u t s = Inr (s', r)"
  shows "historyKept s s'"
proof -
  note c = commitUpdate_cases [OF assms(2)]
  show ?thesis unfolding c(4) c(3)
    using task_status.terminal_stuck [OF _ c(1)] assms(1)
    by (intro historyKept_putTask) (auto simp del: applyUpdate_status)
qed

lemma historyKept_claimTask:
  assumes "map_of (ts_tasks s) (tn_id t) = Some t" "claimTask now t c s = Inr (s', r)"
  shows "historyKept s s'"
proof -
  note c = claimTask_cases [OF assms(2)]
  show ?thesis unfolding c(4) c(3)
    using c(2) assms(1)
    by (intro historyKept_putTask) (auto simp: claimable_def finished_def split: if_splits)
qed

lemma historyKept_claimNext:
  assumes "storeOk s" "claimNext now c s = Inr (s', r)"
  shows "historyKept s s'"
  using assms(2)
proof (cases rule: claimNext_cases)
  case (1 t)
  with assms(1) show ?thesis by (auto intro: historyKept_claimTask planTasks_lookup)
qed

lemma historyKept_op:
  assumes "storeOk s"
  shows "createPlan now p s = Inr (s', pr) \<Longrightarrow> historyKept s s'"
    and "decidePlan now k d s = Inr (s', pr) \<Longrightarrow> historyKept s s'"
    and "createTask now t s = Inr (s', r) \<Longrightarrow> historyKept s s'"
    and "updateTask now u s = Inr (s', r) \<Longrightarrow> historyKept s s'"
    and "updateTaskIfOwned now g s = Inr (s', r) \<Longrightarrow> historyKept s s'"
    and "decideTask now k d s = Inr (s', r) \<Longrightarrow> historyKept s s'"
    and "claimTaskById now c s = Inr (s', r) \<Longrightarrow> historyKept s s'"
proof -
  show "createPlan now p s = Inr (s', pr) \<Longrightarrow> historyKept s s'"
    by (auto simp: createPlan_def Let_def historyKept_def split: if_splits)
  show "decidePlan now k d s = Inr (s', pr) \<Longrightarrow> historyKept s s'"
    by (auto simp: decidePlan_def Let_def historyKept_def split: option.splits)
  show "createTask now t s = Inr (s', r) \<Longrightarrow> historyKept s s'"
    by (auto simp: createTask_def Let_def split: if_splits intro!: historyKept_putTask)
  show "updateTask now u s = Inr (s', r) \<Longrightarrow> historyKept s s'"
    by (auto simp: updateTask_def split: option.splits intro: historyKept_commitUpdate)
  show "updateTaskIfOwned now g s = Inr (s', r) \<Longrightarrow> historyKept s s'"
    by (auto simp: updateTaskIfOwned_def split: option.splits intro: historyKept_commitUpdate)
  show "decideTask now k d s = Inr (s', r) \<Longrightarrow> historyKept s s'"
    by (auto simp: decideTask_def Let_def split: option.splits intro!: historyKept_putTask)
  assume claim: "claimTaskById now c s = Inr (s', r)"
  then obtain t where t: "map_of (ts_tasks s) (cr_task c) = Some t" "claimTask now t c s = Inr (s', r)"
    by (auto simp: claimTaskById_def split: option.splits)
  have "tn_id t = cr_task c" using storeOk_task [OF assms t(1)] by simp
  with t show "historyKept s s'" by (intro historyKept_claimTask [of s t now c s' r]) simp_all
qed

lemma task_step_history: "storeOk s \<Longrightarrow> historyKept s (task_step x s)"
  by (cases "(x, s)" rule: task_step.cases)
    (auto intro!: commit_inv [of "historyKept s"] historyKept_refl
      intro: historyKept_op historyKept_claimNext)

interpretation task_history: monotone_machine newFileState task_step storeOk historyKept
  by unfold_locales (auto intro: historyKept_refl historyKept_trans task_step_history)

section \<open>Claims\<close>

lemma claimTaskById_cases:
  assumes "storeOk s" "claimTaskById now c s = Inr (s', r)"
  obtains t where "map_of (ts_tasks s) (cr_task c) = Some t" "tn_id t = cr_task c"
    "claimTask now t c s = Inr (s', r)"
proof -
  from assms(2) obtain t where t: "map_of (ts_tasks s) (cr_task c) = Some t"
    "claimTask now t c s = Inr (s', r)"
    by (auto simp: claimTaskById_def split: option.splits)
  with storeOk_task [OF assms(1) t(1)] show ?thesis by (intro that) auto
qed

text \<open>Which task can be claimed depends on the request's staleness bound alone.\<close>

lemma claimable_cong:
  "cr_stale c = cr_stale c' \<Longrightarrow> ownerStale t c now = ownerStale t c' now"
  "cr_stale c = cr_stale c' \<Longrightarrow> claimable s t c now = claimable s t c' now"
proof -
  assume "cr_stale c = cr_stale c'"
  then show stale: "ownerStale t c now = ownerStale t c' now"
    by (simp add: ownerStale_def split: option.split)
  then show "claimable s t c now = claimable s t c' now" by (simp add: claimable_def)
qed

lemma claimTask_cong:
  assumes "cr_stale c = cr_stale c'" "cr_owner c = cr_owner c'"
  shows "claimTask now t c s = claimTask now t c' s"
  using claimable_cong [OF assms(1)] assms(2)
  by (simp add: claimTask_def validateClaimOwner_def)

lemma dependenciesComplete_iff:
  "dependenciesComplete s t \<longleftrightarrow>
     (\<forall>d \<in> set (tn_blocked t). \<exists>dep. map_of (ts_tasks s) d = Some dep \<and> tn_status dep = StatusCompleted)"
  by (auto simp: dependenciesComplete_def list_all_iff split: option.splits)

lemma find_sorted_least:
  assumes "find P (sort_key f xs) = Some x" "y \<in> set xs" "P y"
  shows "f x \<le> f y"
proof -
  from assms(1) obtain i where i: "i < length (sort_key f xs)" "x = sort_key f xs ! i"
    "\<forall>j < i. \<not> P (sort_key f xs ! j)"
    by (auto simp: find_Some_iff)
  from assms(2) have "y \<in> set (sort_key f xs)" by simp
  then obtain j where j: "j < length (sort_key f xs)" "y = sort_key f xs ! j"
    by (metis in_set_conv_nth)
  with i assms(3) have "i \<le> j" by (meson not_le_imp_less)
  have "sorted (map f (sort_key f xs))" by simp
  with i j \<open>i \<le> j\<close> show ?thesis
    using sorted_nth_mono [of "map f (sort_key f xs)" i j] by simp
qed

section \<open>A concrete store\<close>

text \<open>Two tasks of one plan, the second blocked by the first; the first is claimed at 20.\<close>

definition noApproval :: approval_record where
  "noApproval = \<lparr>ar_state = ApprovalUnset, ar_actor = [], ar_reason = [], ar_decided = None\<rparr>"

definition exampleTask :: "string \<Rightarrow> string list \<Rightarrow> task_node" where
  "exampleTask k ds = \<lparr>tn_id = k, tn_plan = ''p'', tn_title = [], tn_description = [],
     tn_status = StatusUnset, tn_blocked = ds, tn_owner = [], tn_hint = [], tn_created = 0,
     tn_updated = 0, tn_claimed = None, tn_completed = None, tn_approval = noApproval,
     tn_evidence = []\<rparr>"

definition exampleOps :: "(time \<times> task_op) list" where
  "exampleOps =
     [(5, CreatePlan \<lparr>pr_id = ''p'', pr_title = [], pr_description = [], pr_created = 0,
                     pr_updated = 0, pr_approval = noApproval\<rparr>),
      (6, CreateTask (exampleTask ''a'' [])), (7, CreateTask (exampleTask ''b'' [''a'']))]"

definition exampleClaim :: "string \<Rightarrow> claim_request" where
  "exampleClaim own = \<lparr>cr_plan = ''p'', cr_task = ''a'', cr_owner = own, cr_stale = 100\<rparr>"

definition openStore :: task_state where
  "openStore = run task_step newFileState exampleOps"

definition claimedStore :: task_state where
  "claimedStore = run task_step newFileState (exampleOps @ [(20, ClaimTask (exampleClaim ''x''))])"

lemma openStore_ok: "storeOk openStore"
  unfolding openStore_def by (rule task_store.reachable_inv)

lemma claimedStore_ok: "storeOk claimedStore"
  unfolding claimedStore_def by (rule task_store.reachable_inv)

definition claimedTask :: task_node where
  "claimedTask = (exampleTask ''a'' [])\<lparr>tn_status := StatusInProgress, tn_owner := ''x'',
     tn_claimed := Some 20, tn_created := 6, tn_updated := 20,
     tn_approval := noApproval\<lparr>ar_state := ApprovalPending\<rparr>\<rparr>"

lemma claimedStore_task: "map_of (ts_tasks claimedStore) ''a'' = Some claimedTask"
  by code_simp

lemma claimedTask_simps:
  "tn_status claimedTask = StatusInProgress" "tn_owner claimedTask = ''x''"
  "tn_claimed claimedTask = Some 20" "tn_plan claimedTask = ''p''" "tn_id claimedTask = ''a''"
  by (simp_all add: claimedTask_def exampleTask_def)

section \<open>Properties\<close>

text \<open>
  C3: whatever operations run on a new task store, at whatever clock readings and with whatever
  arguments, the stored state is valid: keys are ids, statuses and approvals are known values,
  every dependency exists in the task's own plan, the dependency graph is acyclic, every task's
  plan exists; and the store reads back exactly the state it wrote.
\<close>

theorem task_store_always_valid:
  "storeOk (run task_step newFileState ops) \<and>
   readState io_ok (DecodedFile (run task_step newFileState ops)) = Inr (run task_step newFileState ops)"
  by (simp add: task_store.reachable_inv readState_written)


text \<open>
  C4: a successful claim of a task leaves it in progress with the claimant as owner; it happens
  only for a named claimant, when every dependency is completed, when the task is not finished,
  and, if another owner was working on it, only after that owner's claim became stale; no other
  task changes.
\<close>

theorem claim_is_safe:
  assumes "storeOk s" and "claimTaskById now c s = Inr (s', r)"
  shows "\<exists>t. map_of (ts_tasks s) (cr_task c) = Some t \<and> cr_owner c \<noteq> [] \<and>
           \<not> finished (tn_status t) \<and>
           (\<forall>d \<in> set (tn_blocked t). \<exists>dep. map_of (ts_tasks s) d = Some dep \<and>
              tn_status dep = StatusCompleted) \<and>
           (tn_status t = StatusInProgress \<and> tn_owner t \<noteq> [] \<longrightarrow>
              (\<exists>at. tn_claimed t = Some at \<and> 0 < cr_stale c \<and> cr_stale c < time_sub now at)) \<and>
           map_of (ts_tasks s') =
             (map_of (ts_tasks s))(cr_task c \<mapsto> t\<lparr>tn_status := StatusInProgress,
               tn_owner := cr_owner c, tn_claimed := Some now, tn_updated := now\<rparr>)"
  using assms
proof (cases rule: claimTaskById_cases)
  case (1 t)
  note c = claimTask_cases [OF 1(3)]
  from c(2) have "\<not> finished (tn_status t)" "dependenciesComplete s t"
    "tn_status t = StatusInProgress \<and> tn_owner t \<noteq> [] \<longrightarrow> ownerStale t c now"
    by (auto simp: claimable_def finished_def split: if_splits)
  then show ?thesis using 1 c
    by (intro exI [of _ t]) (auto simp: dependenciesComplete_iff ownerStale_def putTask_def
        split: if_splits option.splits)
qed

theorem claim_is_safe_witness:
  "\<exists>s' r. claimTaskById 20 (exampleClaim ''x'') openStore = Inr (s', r) \<and>
     (\<exists>t. map_of (ts_tasks openStore) ''a'' = Some t \<and> \<not> finished (tn_status t) \<and>
        map_of (ts_tasks s') = (map_of (ts_tasks openStore))(''a'' \<mapsto> t\<lparr>tn_status := StatusInProgress,
               tn_owner := ''x'', tn_claimed := Some 20, tn_updated := 20\<rparr>))"
proof -
  have "\<not> failed (claimTaskById 20 (exampleClaim ''x'') openStore)" by code_simp
  then obtain s' r where ok: "claimTaskById 20 (exampleClaim ''x'') openStore = Inr (s', r)"
    by (cases "claimTaskById 20 (exampleClaim ''x'') openStore") auto
  from claim_is_safe [OF openStore_ok ok] ok show ?thesis
    by (auto simp: exampleClaim_def)
qed

text \<open>
  A task another owner claimed recently enough cannot be taken: \<open>ClaimTask\<close> answers
  that it is owned and \<open>ClaimNext\<close> never returns it.
\<close>

theorem fresh_claim_is_protected:
  assumes "storeOk s" and "map_of (ts_tasks s) k = Some t"
    and "tn_status t = StatusInProgress" and "tn_owner t \<noteq> []" and "tn_claimed t = Some at"
    and "time_sub now at \<le> cr_stale c" and "cr_owner c \<noteq> []"
  shows "claimTaskById now (c\<lparr>cr_task := k\<rparr>) s = Inl ErrTaskOwned \<and>
         (\<forall>s' r. claimNext now c s = Inr (s', r) \<longrightarrow> tn_id r \<noteq> k)"
proof -
  have "\<not> ownerStale t c now" "\<not> ownerStale t (c\<lparr>cr_task := k\<rparr>) now"
    using assms by (auto simp: ownerStale_def)
  then have no: "\<not> claimable s t c now" "\<not> claimable s t (c\<lparr>cr_task := k\<rparr>) now"
    using assms by (auto simp: claimable_def)
  have "tn_id r \<noteq> k" if next_ok: "claimNext now c s = Inr (s', r)" for s' r
    using next_ok
  proof (cases rule: claimNext_cases)
    case (1 u)
    have "claimable s u c now" using 1(2) by (auto simp: find_Some_iff)
    with no have "u \<noteq> t" by auto
    moreover have "map_of (ts_tasks s) (tn_id u) = Some u" by (rule planTasks_lookup [OF assms(1) 1(1)])
    moreover have "tn_id r = tn_id u" using claimTask_cases(3) [OF 1(3)] by simp
    ultimately show ?thesis using assms(2) by auto
  qed
  moreover have "claimTaskById now (c\<lparr>cr_task := k\<rparr>) s = Inl ErrTaskOwned"
    using assms no \<open>\<not> ownerStale t (c\<lparr>cr_task := k\<rparr>) now\<close>
    by (simp add: claimTaskById_def claimTask_def validateClaimOwner_def guard_def)
  ultimately show ?thesis by blast
qed

theorem fresh_claim_is_protected_witness:
  "claimTaskById 50 (exampleClaim ''y'') claimedStore = Inl ErrTaskOwned"
proof -
  have "(exampleClaim ''y'')\<lparr>cr_task := ''a''\<rparr> = exampleClaim ''y''" by (simp add: exampleClaim_def)
  moreover have "time_sub 50 20 \<le> cr_stale (exampleClaim ''y'')" "cr_owner (exampleClaim ''y'') \<noteq> []"
    by (simp_all add: exampleClaim_def time_sub_def max_duration_def min_duration_def)
  ultimately show ?thesis
    using fresh_claim_is_protected [OF claimedStore_ok claimedStore_task, of 20 50 "exampleClaim ''y''"]
    by (simp add: claimedTask_simps)
qed

text \<open>
  Once an operation has run, later operations only add to the history: events are appended,
  no task disappears or moves to another plan, and a completed or cancelled task keeps that
  status for ever.
\<close>

theorem finished_tasks_stay_finished:
  "historyKept (run task_step newFileState ops) (run task_step newFileState (ops @ later))"
  by (rule task_history.later_below)

text \<open>
  \<open>ClaimNext\<close> claims, for a named claimant, the earliest created claimable task of the
  plan (ties broken by id), and reports that everything is blocked exactly when no task of the
  plan is claimable.
\<close>

theorem claimNext_takes_first:
  assumes "storeOk s" and "cr_owner c \<noteq> []"
  shows "(claimNext now c s = Inl ErrTaskBlocked \<longleftrightarrow>
            (\<forall>k t. map_of (ts_tasks s) k = Some t \<and> tn_plan t = cr_plan c \<longrightarrow> \<not> claimable s t c now)) \<and>
         (\<forall>s' r. claimNext now c s = Inr (s', r) \<longrightarrow>
            (\<exists>t. map_of (ts_tasks s) (tn_id r) = Some t \<and> tn_plan t = cr_plan c \<and> claimable s t c now \<and>
               tn_owner r = cr_owner c \<and>
               (\<forall>k u. map_of (ts_tasks s) k = Some u \<and> tn_plan u = cr_plan c \<and> claimable s u c now \<longrightarrow>
                  (tn_created t, tn_id t) \<le> (tn_created u, tn_id u))))"
proof -
  let ?P = "\<lambda>t. claimable s t c now"
  let ?L = "planTasks s (cr_plan c)"
  have member: "t \<in> set ?L \<longleftrightarrow> (\<exists>k. map_of (ts_tasks s) k = Some t) \<and> tn_plan t = cr_plan c" for t
    using storeOk_entries(2) [OF assms(1)] by (auto simp: planTasks_member dest: map_of_SomeD)
  have same: "claimable s t (c\<lparr>cr_task := k\<rparr>) now = claimable s t c now" for t k
    by (rule claimable_cong) simp
  have claim_ok: "claimTask now t (c\<lparr>cr_task := tn_id t\<rparr>) s \<noteq> Inl ErrTaskBlocked"
    if "find ?P ?L = Some t" for t
    using that assms(2) same [of t "tn_id t"]
    by (auto simp: claimTask_def validateClaimOwner_def guard_def find_Some_iff Let_def)
  have "claimNext now c s = Inl ErrTaskBlocked \<longleftrightarrow> find ?P ?L = None"
    using claim_ok by (simp add: claimNext_def split: option.split)
  then have "claimNext now c s = Inl ErrTaskBlocked \<longleftrightarrow> (\<forall>t \<in> set ?L. \<not> ?P t)"
    by (auto simp: find_None_iff)
  then have blocked: "claimNext now c s = Inl ErrTaskBlocked \<longleftrightarrow>
      (\<forall>k t. map_of (ts_tasks s) k = Some t \<and> tn_plan t = cr_plan c \<longrightarrow> \<not> ?P t)"
    using member by blast
  have "\<exists>t. map_of (ts_tasks s) (tn_id r) = Some t \<and> tn_plan t = cr_plan c \<and> ?P t \<and>
      tn_owner r = cr_owner c \<and>
      (\<forall>k u. map_of (ts_tasks s) k = Some u \<and> tn_plan u = cr_plan c \<and> ?P u \<longrightarrow>
         (tn_created t, tn_id t) \<le> (tn_created u, tn_id u))"
    if ok: "claimNext now c s = Inr (s', r)" for s' r
    using ok
  proof (cases rule: claimNext_cases)
    case (1 t)
    have P: "?P t" using 1(2) by (auto simp: find_Some_iff)
    have r: "tn_id r = tn_id t" "tn_owner r = cr_owner c"
      using claimTask_cases(3) [OF 1(3)] by simp_all
    have least: "(tn_created t, tn_id t) \<le> (tn_created u, tn_id u)"
      if "map_of (ts_tasks s) k = Some u" "tn_plan u = cr_plan c" "?P u" for k u
    proof -
      from that member have "u \<in> set ?L" by blast
      then have u: "u \<in> set (filter (\<lambda>t. tn_plan t = cr_plan c) (map snd (ts_tasks s)))"
        by (simp add: planTasks_def sortTasks_def)
      from 1(2) u that(3) show ?thesis
        unfolding planTasks_def sortTasks_def by (rule find_sorted_least)
    qed
    from planTasks_lookup [OF assms(1) 1(1)] 1(1) member P r least show ?thesis by auto
  qed
  with blocked show ?thesis by blast
qed

theorem claimNext_takes_first_witness:
  "claimNext 50 (exampleClaim ''y'') claimedStore = Inl ErrTaskBlocked \<longleftrightarrow>
     (\<forall>k t. map_of (ts_tasks claimedStore) k = Some t \<and> tn_plan t = ''p'' \<longrightarrow>
        \<not> claimable claimedStore t (exampleClaim ''y'') 50)"
  using claimNext_takes_first [OF claimedStore_ok, of "exampleClaim ''y''" 50]
  by (simp add: exampleClaim_def)

text \<open>
  \<open>ClaimTask\<close> never looks at the plan of its request: a claim that names one plan takes
  a task of another, although the guarded updates of the same store check the plan.
\<close>

theorem claim_ignores_plan:
  "claimTaskById now (c\<lparr>cr_plan := p\<rparr>) s = claimTaskById now (c\<lparr>cr_plan := q\<rparr>) s"
proof -
  have "claimTask now t (c\<lparr>cr_plan := p\<rparr>) s = claimTask now t (c\<lparr>cr_plan := q\<rparr>) s" for t
    by (rule claimTask_cong) simp_all
  then show ?thesis by (simp add: claimTaskById_def split: option.split)
qed

end
