(* ===== verification/TeamGraph.thy ===== *)
theory TeamGraph
  imports Machines
begin

text \<open>
  Model of the agent graph of \<open>pkg/team\<close> (\<open>graph_state.go\<close>, \<open>graph_store.go\<close>,
  \<open>types.go\<close>): agents, parent-child edges, the two breadth-first searches, and the store
  operations over the same read-validate-mutate-write as the task store. The lemmas show that
  the cycle search decides reachability, that every stored graph is acyclic with known
  endpoints, and that \<open>DescendantsBFS\<close> lists each descendant once.
\<close>

section \<open>Types\<close>

datatype agent_status =
  AgentStatusUnset | AgentStatusRunning | AgentStatusCompleted | AgentStatusCancelled
  | AgentStatusOther string

record agent_node =
  an_id :: string
  an_name :: string
  an_type :: string
  an_status :: agent_status
  an_created :: time
  an_updated :: time
  an_metadata :: "(string \<times> string) list option"

record agent_edge =
  ae_parent :: string
  ae_child :: string
  ae_created :: time

record add_child_request =
  ac_parent :: string
  ac_child :: agent_node
  ac_max :: int

record graph_state =
  gs_agents :: "(string \<times> agent_node) list"
  gs_edges :: "agent_edge list"

datatype graph_error =
  ErrAgentCycle | ErrAgentExists | ErrAgentNotFound | ErrConcurrencyLimit | ErrGraphCorrupt
  | ErrInvalidAgent | ErrReadGraph | ErrWriteGraph

definition newGraphState :: graph_state where
  "newGraphState = \<lparr>gs_agents = [], gs_edges = []\<rparr>"

section \<open>Helpers\<close>

definition validAgentStatus :: "agent_status \<Rightarrow> bool" where
  "validAgentStatus st =
     (case st of AgentStatusRunning \<Rightarrow> True | AgentStatusCompleted \<Rightarrow> True
      | AgentStatusCancelled \<Rightarrow> True | _ \<Rightarrow> False)"

definition validateAgent :: "agent_node \<Rightarrow> (graph_error, unit) result" where
  "validateAgent a =
     (if an_id a = [] \<or> an_type a = [] \<or> \<not> validAgentStatus (an_status a)
      then Inl ErrInvalidAgent else Inr ())"

definition defaultAgent :: "agent_node \<Rightarrow> time \<Rightarrow> agent_node" where
  "defaultAgent a now =
     (let a1 = (if an_status a = AgentStatusUnset then a\<lparr>an_status := AgentStatusRunning\<rparr> else a);
          created = defaultTime (an_created a1) now
      in a1\<lparr>an_created := created, an_updated := defaultTime (an_updated a1) created\<rparr>)"

text \<open>A missing child reads as the zero agent, whose status is not running.\<close>

definition activeChildren :: "graph_state \<Rightarrow> string \<Rightarrow> nat" where
  "activeChildren s p =
     length (filter (\<lambda>e. ae_parent e = p \<and>
        (case map_of (gs_agents s) (ae_child e) of
           None \<Rightarrow> False | Some a \<Rightarrow> an_status a = AgentStatusRunning)) (gs_edges s))"

definition childrenByParent :: "agent_edge list \<Rightarrow> string \<Rightarrow> string list" where
  "childrenByParent edges p = sort (map ae_child (filter (\<lambda>e. ae_parent e = p) edges))"

definition edgeExists :: "agent_edge list \<Rightarrow> string \<Rightarrow> string \<Rightarrow> bool" where
  "edgeExists edges p c = list_ex (\<lambda>e. ae_parent e = p \<and> ae_child e = c) edges"

lemma set_childrenByParent:
  "c \<in> set (childrenByParent edges p) \<longleftrightarrow> (\<exists>e \<in> set edges. ae_parent e = p \<and> ae_child e = c)"
  by (auto simp: childrenByParent_def)

lemma childrenByParent_absent: "p \<notin> ae_parent ` set edges \<Longrightarrow> childrenByParent edges p = []"
proof -
  assume "p \<notin> ae_parent ` set edges"
  then have "filter (\<lambda>e. ae_parent e = p) edges = []" by (auto simp: filter_empty_conv)
  then show ?thesis by (simp add: childrenByParent_def)
qed

section \<open>The two searches\<close>

text \<open>
  The loop of \<open>hasAgentCycle\<close>: pop the queue, stop at the target, skip what was seen,
  push the children. Either a parent leaves the unseen ones or the queue shrinks.
\<close>

function bfsFinds :: "agent_edge list \<Rightarrow> string \<Rightarrow> string list \<Rightarrow> string list \<Rightarrow> bool" where
  "bfsFinds edges target [] seen = False"
| "bfsFinds edges target (x # queue) seen =
     (if x = target then True
      else if x \<in> set seen then bfsFinds edges target queue seen
      else bfsFinds edges target (queue @ childrenByParent edges x) (x # seen))"
  by pat_completeness auto

lemma unseen_parents_shrink:
  assumes "x \<notin> set seen"
  shows "card (ae_parent ` set edges - set (x # seen)) < card (ae_parent ` set edges - set seen) \<or>
         card (ae_parent ` set edges - set (x # seen)) = card (ae_parent ` set edges - set seen) \<and>
         childrenByParent edges x = []"
proof (cases "x \<in> ae_parent ` set edges")
  case True
  with assms have "ae_parent ` set edges - set (x # seen) \<subset> ae_parent ` set edges - set seen" by auto
  then show ?thesis by (intro disjI1 psubset_card_mono) auto
next
  case False
  then have "ae_parent ` set edges - set (x # seen) = ae_parent ` set edges - set seen" by auto
  with False show ?thesis by (simp add: childrenByParent_absent)
qed

termination bfsFinds
proof (relation "measures [\<lambda>(edges, target, queue, seen). card (ae_parent ` set edges - set seen),
    \<lambda>(edges, target, queue, seen). length queue]", goal_cases)
  case 1
  show ?case by simp
next
  case (2 edges target x queue seen)
  then show ?case by simp
next
  case (3 edges target x queue seen)
  then show ?case using unseen_parents_shrink [of x seen edges] by auto
qed

definition hasAgentCycle :: "graph_state \<Rightarrow> string \<Rightarrow> string \<Rightarrow> bool" where
  "hasAgentCycle s p c =
     (if p = c then True else bfsFinds (gs_edges s) p (childrenByParent (gs_edges s) c) [])"

text \<open>The loop of \<open>DescendantsBFS\<close>, collecting the agents in the order it meets them.\<close>

function descend ::
  "graph_state \<Rightarrow> string list \<Rightarrow> string list \<Rightarrow> agent_node list \<Rightarrow> (graph_error, agent_node list) result"
where
  "descend s [] seen out = Inr out"
| "descend s (x # queue) seen out =
     (if x \<in> set seen then descend s queue seen out
      else case map_of (gs_agents s) x of
        None \<Rightarrow> Inl ErrAgentNotFound
      | Some a \<Rightarrow> descend s (queue @ childrenByParent (gs_edges s) x) (x # seen) (out @ [a]))"
  by pat_completeness auto

termination descend
proof (relation "measures [\<lambda>(s, queue, seen, out). card (ae_parent ` set (gs_edges s) - set seen),
    \<lambda>(s, queue, seen, out). length queue]", goal_cases)
  case 1
  show ?case by simp
next
  case (2 s x queue seen out)
  then show ?case by simp
next
  case (3 s x queue seen out a)
  then show ?case using unseen_parents_shrink [of x seen "gs_edges s"] by auto
qed

definition descendantsBFS :: "string \<Rightarrow> graph_state \<Rightarrow> (graph_error, agent_node list) result" where
  "descendantsBFS p s =
     (if map_of (gs_agents s) p = None then Inl ErrAgentNotFound
      else descend s (childrenByParent (gs_edges s) p) [p] [])"

definition validateGraphState :: "graph_state \<Rightarrow> (graph_error, unit) result" where
  "validateGraphState s =
     and_then (first_error (map (\<lambda>(k, a).
        guard (k = an_id a \<and> validateAgent a = Inr ()) ErrInvalidAgent) (gs_agents s)))
     (\<lambda>_. first_error (map (\<lambda>e.
        if map_of (gs_agents s) (ae_parent e) = None then Inl ErrAgentNotFound
        else if map_of (gs_agents s) (ae_child e) = None then Inl ErrAgentNotFound
        else if hasAgentCycle s (ae_parent e) (ae_child e) then Inl ErrAgentCycle
        else Inr ()) (gs_edges s)))"

section \<open>Store operations\<close>

definition registerAgent ::
  "time \<Rightarrow> agent_node \<Rightarrow> graph_state \<Rightarrow> (graph_error, graph_state \<times> unit) result" where
  "registerAgent now node s =
     (let a = defaultAgent node now in
      and_then (validateAgent a) (\<lambda>_.
        if map_of (gs_agents s) (an_id a) \<noteq> None then Inl ErrAgentExists
        else Inr (s\<lparr>gs_agents := AList.update (an_id a) a (gs_agents s)\<rparr>, ())))"

definition linkChild ::
  "time \<Rightarrow> add_child_request \<Rightarrow> agent_node \<Rightarrow> graph_state \<Rightarrow> (graph_error, graph_state \<times> unit) result"
where
  "linkChild now req child s =
     (if edgeExists (gs_edges s) (ac_parent req) (an_id child) then Inr (s, ())
      else if ac_max req > 0 \<and> int (activeChildren s (ac_parent req)) \<ge> ac_max req
      then Inl ErrConcurrencyLimit
      else
        let s' = s\<lparr>gs_agents := AList.update (an_id child) child (gs_agents s),
                   gs_edges := gs_edges s @
                     [\<lparr>ae_parent = ac_parent req, ae_child = an_id child, ae_created = now\<rparr>]\<rparr>
        in if hasAgentCycle s' (ac_parent req) (an_id child) then Inl ErrAgentCycle
           else Inr (s', ()))"

definition addChild ::
  "time \<Rightarrow> add_child_request \<Rightarrow> graph_state \<Rightarrow> (graph_error, graph_state \<times> unit) result" where
  "addChild now req s =
     (case map_of (gs_agents s) (ac_parent req) of
        None \<Rightarrow> Inl ErrAgentNotFound
      | Some parent \<Rightarrow>
          if an_id parent = [] then Inl ErrAgentNotFound
          else case map_of (gs_agents s) (an_id (ac_child req)) of
            Some existing \<Rightarrow> linkChild now req existing s
          | None \<Rightarrow>
              let child = defaultAgent (ac_child req) now in
              and_then (validateAgent child) (\<lambda>_. linkChild now req child s))"

definition updateAgentStatus ::
  "time \<Rightarrow> string \<Rightarrow> agent_status \<Rightarrow> graph_state \<Rightarrow> (graph_error, graph_state \<times> agent_node) result"
where
  "updateAgentStatus now k st s =
     (case map_of (gs_agents s) k of
        None \<Rightarrow> Inl ErrAgentNotFound
      | Some a \<Rightarrow>
          if \<not> validAgentStatus st then Inl ErrInvalidAgent
          else let a' = a\<lparr>an_status := st, an_updated := now\<rparr>
               in Inr (s\<lparr>gs_agents := AList.update k a' (gs_agents s)\<rparr>, a'))"

definition listAgents :: "graph_state \<Rightarrow> agent_node list" where
  "listAgents s = sort_key an_id (map snd (gs_agents s))"

section \<open>The file\<close>

datatype graph_file = NoGraphFile | UndecodableGraph | DecodedGraph graph_state

definition initGraph :: "graph_state \<Rightarrow> graph_state" where
  "initGraph s =
     s\<lparr>gs_agents := map (\<lambda>(k, a). (k, if an_status a = AgentStatusUnset
                                     then a\<lparr>an_status := AgentStatusRunning\<rparr> else a)) (gs_agents s)\<rparr>"

definition readGraph :: "io_env \<Rightarrow> graph_file \<Rightarrow> (graph_error, graph_state) result" where
  "readGraph io f =
     (if io_read_fails io then Inl ErrReadGraph
      else case f of
        NoGraphFile \<Rightarrow> Inr newGraphState
      | UndecodableGraph \<Rightarrow> Inl ErrGraphCorrupt
      | DecodedGraph s \<Rightarrow> and_then (validateGraphState (initGraph s)) (\<lambda>_. Inr (initGraph s)))"

definition updateGraphFile ::
  "io_env \<Rightarrow> (graph_state \<Rightarrow> (graph_error, graph_state \<times> 'r) result) \<Rightarrow> graph_file
     \<Rightarrow> graph_file \<times> (graph_error, 'r) result" where
  "updateGraphFile io mutate f =
     (case and_then (readGraph io f) mutate of
        Inl e \<Rightarrow> (f, Inl e)
      | Inr (s', r) \<Rightarrow> if io_write_fails io then (f, Inl ErrWriteGraph)
                      else (DecodedGraph s', Inr r))"

section \<open>The searches decide reachability\<close>

definition edgeRel :: "agent_edge list \<Rightarrow> (string \<times> string) set" where
  "edgeRel edges = {(ae_parent e, ae_child e) | e. e \<in> set edges}"

lemma edgeRel_children: "(p, c) \<in> edgeRel edges \<longleftrightarrow> c \<in> set (childrenByParent edges p)"
  by (auto simp: edgeRel_def set_childrenByParent)

text \<open>A path from a seen node to an unseen one passes the queue.\<close>

lemma leave_seen:
  assumes "(x, t) \<in> (edgeRel edges)\<^sup>*" "x \<in> S" "t \<notin> S"
    and "\<And>y z. y \<in> S \<Longrightarrow> (y, z) \<in> edgeRel edges \<Longrightarrow> z \<in> S \<or> z \<in> Q"
  shows "\<exists>q \<in> Q. (q, t) \<in> (edgeRel edges)\<^sup>*"
  using assms(1,2)
proof (induction rule: converse_rtrancl_induct)
  case base
  with assms(3) show ?case by simp
next
  case (step y z)
  with assms(4) [OF step.prems step.hyps(1)] show ?case by blast
qed

lemma bfsFinds_iff:
  assumes "target \<notin> set seen"
    and "\<And>y z. y \<in> set seen \<Longrightarrow> (y, z) \<in> edgeRel edges \<Longrightarrow> z \<in> set seen \<or> z \<in> set queue"
  shows "bfsFinds edges target queue seen \<longleftrightarrow> (\<exists>q \<in> set queue. (q, target) \<in> (edgeRel edges)\<^sup>*)"
  using assms
proof (induction edges target queue seen rule: bfsFinds.induct)
  case (1 edges target seen)
  then show ?case by simp
next
  case (2 edges target x queue seen)
  consider "x = target" | (old) "x \<noteq> target" "x \<in> set seen" | (new) "x \<noteq> target" "x \<notin> set seen"
    by blast
  then show ?case
  proof cases
    case 1
    then show ?thesis by auto
  next
    case old
    have closed: "z \<in> set seen \<or> z \<in> set queue" if "y \<in> set seen" "(y, z) \<in> edgeRel edges" for y z
      using "2.prems"(2) [OF that] old by auto
    with "2.IH"(1) [OF old "2.prems"(1)] old
    have "bfsFinds edges target (x # queue) seen \<longleftrightarrow> (\<exists>q \<in> set queue. (q, target) \<in> (edgeRel edges)\<^sup>*)"
      by simp
    moreover have "\<exists>q \<in> set queue. (q, target) \<in> (edgeRel edges)\<^sup>*"
      if "(x, target) \<in> (edgeRel edges)\<^sup>*"
      using leave_seen [OF that old(2) "2.prems"(1), of "set queue"] closed by blast
    ultimately show ?thesis by auto
  next
    case new
    have "bfsFinds edges target (queue @ childrenByParent edges x) (x # seen) \<longleftrightarrow>
        (\<exists>q \<in> set (queue @ childrenByParent edges x). (q, target) \<in> (edgeRel edges)\<^sup>*)"
    proof (rule "2.IH"(2) [OF new])
      show "target \<notin> set (x # seen)" using "2.prems"(1) new by auto
      show "z \<in> set (x # seen) \<or> z \<in> set (queue @ childrenByParent edges x)"
        if "y \<in> set (x # seen)" "(y, z) \<in> edgeRel edges" for y z
        using that "2.prems"(2) [of y z] by (auto simp: edgeRel_children)
    qed
    moreover have "(x, target) \<in> (edgeRel edges)\<^sup>* \<longleftrightarrow>
        (\<exists>q \<in> set (childrenByParent edges x). (q, target) \<in> (edgeRel edges)\<^sup>*)"
    proof
      assume "(x, target) \<in> (edgeRel edges)\<^sup>*"
      then obtain q where "(x, q) \<in> edgeRel edges" "(q, target) \<in> (edgeRel edges)\<^sup>*"
        using new(1) by (blast elim: converse_rtranclE)
      then show "\<exists>q \<in> set (childrenByParent edges x). (q, target) \<in> (edgeRel edges)\<^sup>*"
        by (auto simp: edgeRel_children)
    next
      assume "\<exists>q \<in> set (childrenByParent edges x). (q, target) \<in> (edgeRel edges)\<^sup>*"
      then show "(x, target) \<in> (edgeRel edges)\<^sup>*"
        by (auto simp: edgeRel_children [symmetric] intro: converse_rtrancl_into_rtrancl)
    qed
    ultimately show ?thesis using new by auto
  qed
qed

text \<open>The cycle test of an edge: the child reaches the parent.\<close>

lemma hasAgentCycle_iff: "hasAgentCycle s p c \<longleftrightarrow> (c, p) \<in> (edgeRel (gs_edges s))\<^sup>*"
proof -
  have "bfsFinds (gs_edges s) p (childrenByParent (gs_edges s) c) [] \<longleftrightarrow>
      (\<exists>q. (c, q) \<in> edgeRel (gs_edges s) \<and> (q, p) \<in> (edgeRel (gs_edges s))\<^sup>*)"
    by (subst bfsFinds_iff) (auto simp: edgeRel_children)
  also have "\<dots> \<longleftrightarrow> (c, p) \<in> (edgeRel (gs_edges s))\<^sup>+"
    by (meson rtrancl_into_trancl2 tranclD)
  finally show ?thesis by (auto simp: hasAgentCycle_def rtrancl_eq_or_trancl)
qed

section \<open>Invariant of the stored graph\<close>

definition graphOk :: "graph_state \<Rightarrow> bool" where
  "graphOk s \<longleftrightarrow>
     distinct (map fst (gs_agents s)) \<and>
     (\<forall>k a. map_of (gs_agents s) k = Some a \<longrightarrow> k = an_id a \<and> validateAgent a = Inr ()) \<and>
     (\<forall>e \<in> set (gs_edges s). map_of (gs_agents s) (ae_parent e) \<noteq> None \<and>
        map_of (gs_agents s) (ae_child e) \<noteq> None) \<and>
     acyclic (edgeRel (gs_edges s))"

lemma acyclic_edges_iff:
  "acyclic (edgeRel es) \<longleftrightarrow> (\<forall>e \<in> set es. (ae_child e, ae_parent e) \<notin> (edgeRel es)\<^sup>*)"
proof
  assume ac: "acyclic (edgeRel es)"
  show "\<forall>e \<in> set es. (ae_child e, ae_parent e) \<notin> (edgeRel es)\<^sup>*"
  proof (intro ballI notI)
    fix e
    assume "e \<in> set es" and bk: "(ae_child e, ae_parent e) \<in> (edgeRel es)\<^sup>*"
    then have "(ae_parent e, ae_child e) \<in> edgeRel es" by (auto simp: edgeRel_def)
    then have "(ae_parent e, ae_parent e) \<in> (edgeRel es)\<^sup>+" using bk by (rule rtrancl_into_trancl2)
    with ac show False by (simp add: acyclic_def)
  qed
next
  assume no: "\<forall>e \<in> set es. (ae_child e, ae_parent e) \<notin> (edgeRel es)\<^sup>*"
  show "acyclic (edgeRel es)"
    unfolding acyclic_def
  proof (intro allI notI)
    fix x
    assume "(x, x) \<in> (edgeRel es)\<^sup>+"
    then obtain y where "(x, y) \<in> edgeRel es" "(y, x) \<in> (edgeRel es)\<^sup>*" by (meson tranclD)
    with no show False by (auto simp: edgeRel_def)
  qed
qed

lemma validateGraphState_iff:
  assumes "distinct (map fst (gs_agents s))"
  shows "validateGraphState s = Inr u \<longleftrightarrow> graphOk s"
proof -
  note agents = all_entries_iff [OF assms, of "\<lambda>k a. k = an_id a \<and> validateAgent a = Inr ()"]
  have edge: "(if map_of (gs_agents s) (ae_parent e) = None then Inl ErrAgentNotFound
        else if map_of (gs_agents s) (ae_child e) = None then Inl ErrAgentNotFound
        else if hasAgentCycle s (ae_parent e) (ae_child e) then Inl ErrAgentCycle
        else Inr ()) = Inr () \<longleftrightarrow>
      map_of (gs_agents s) (ae_parent e) \<noteq> None \<and> map_of (gs_agents s) (ae_child e) \<noteq> None \<and>
      (ae_child e, ae_parent e) \<notin> (edgeRel (gs_edges s))\<^sup>*" for e
    by (simp add: hasAgentCycle_iff)
  have "validateGraphState s = Inr u \<longleftrightarrow>
      (\<forall>x \<in> set (gs_agents s). fst x = an_id (snd x) \<and> validateAgent (snd x) = Inr ()) \<and>
      (\<forall>e \<in> set (gs_edges s). map_of (gs_agents s) (ae_parent e) \<noteq> None \<and>
         map_of (gs_agents s) (ae_child e) \<noteq> None \<and>
         (ae_child e, ae_parent e) \<notin> (edgeRel (gs_edges s))\<^sup>*)"
    by (simp add: validateGraphState_def first_error_map_ok_iff edge case_prod_unfold)
  then show ?thesis
    unfolding agents graphOk_def acyclic_edges_iff using assms by blast
qed

lemma graphOk_new: "graphOk newGraphState"
  by (simp add: graphOk_def newGraphState_def edgeRel_def acyclic_def)

lemma graphOk_updateAgent:
  assumes "graphOk s" "an_id a = k" "validateAgent a = Inr ()"
  shows "graphOk (s\<lparr>gs_agents := AList.update k a (gs_agents s)\<rparr>)"
  using assms by (auto simp: graphOk_def distinct_update)

lemma registerAgent_ok [inv_rules]:
  "graphOk s \<Longrightarrow> registerAgent now node s = Inr (s', r) \<Longrightarrow> graphOk s'"
  by (auto simp: registerAgent_def Let_def split: if_splits intro: graphOk_updateAgent)

lemma edgeRel_snoc: "edgeRel (es @ [e]) = insert (ae_parent e, ae_child e) (edgeRel es)"
  by (auto simp: edgeRel_def)

lemma linkChild_ok:
  assumes "graphOk s" "map_of (gs_agents s) (ac_parent req) \<noteq> None" "validateAgent child = Inr ()"
    "linkChild now req child s = Inr (s', r)"
  shows "graphOk s'"
proof (cases "edgeExists (gs_edges s) (ac_parent req) (an_id child)")
  case True
  with assms show ?thesis by (auto simp: linkChild_def)
next
  case False
  let ?p = "ac_parent req" and ?c = "an_id child"
  let ?e = "\<lparr>ae_parent = ?p, ae_child = ?c, ae_created = now\<rparr>"
  let ?s = "s\<lparr>gs_agents := AList.update ?c child (gs_agents s), gs_edges := gs_edges s @ [?e]\<rparr>"
  from assms(4) False have s': "s' = ?s" and no: "\<not> hasAgentCycle ?s ?p ?c"
    by (auto simp: linkChild_def Let_def split: if_splits)
  from no have "(?c, ?p) \<notin> (edgeRel (gs_edges s @ [?e]))\<^sup>*" by (simp add: hasAgentCycle_iff)
  moreover have "(edgeRel (gs_edges s))\<^sup>* \<subseteq> (edgeRel (gs_edges s @ [?e]))\<^sup>*"
    by (rule rtrancl_mono) (auto simp: edgeRel_snoc)
  ultimately have "(?c, ?p) \<notin> (edgeRel (gs_edges s))\<^sup>*" by blast
  then have "acyclic (edgeRel (gs_edges s @ [?e]))"
    using assms(1) by (simp add: edgeRel_snoc acyclic_insert graphOk_def)
  with assms(1,2,3) show ?thesis
    unfolding s' by (auto simp: graphOk_def distinct_update)
qed

lemma addChild_ok [inv_rules]:
  assumes "graphOk s" "addChild now req s = Inr (s', r)"
  shows "graphOk s'"
proof -
  from assms(2) obtain child where p: "map_of (gs_agents s) (ac_parent req) \<noteq> None"
    and link: "linkChild now req child s = Inr (s', r)"
    and child: "validateAgent child = Inr () \<or> (\<exists>k. map_of (gs_agents s) k = Some child)"
    by (auto simp: addChild_def Let_def split: option.splits if_splits)
  from child assms(1) have "validateAgent child = Inr ()" by (auto simp: graphOk_def)
  with assms(1) p link show ?thesis by (blast intro: linkChild_ok)
qed

lemma updateAgentStatus_ok [inv_rules]:
  assumes "graphOk s" "updateAgentStatus now k st s = Inr (s', r)"
  shows "graphOk s'"
proof -
  from assms(2) obtain a where a: "map_of (gs_agents s) k = Some a" "validAgentStatus st"
    and s': "s' = s\<lparr>gs_agents := AList.update k (a\<lparr>an_status := st, an_updated := now\<rparr>) (gs_agents s)\<rparr>"
    by (auto simp: updateAgentStatus_def Let_def split: option.splits if_splits)
  have "an_id a = k" "validateAgent a = Inr ()" using assms(1) a(1) by (auto simp: graphOk_def)
  with a(2) show ?thesis unfolding s'
    by (intro graphOk_updateAgent assms(1)) (auto simp: validateAgent_def split: if_splits)
qed

section \<open>Runs of the graph store\<close>

datatype graph_op =
    RegisterAgent agent_node
  | AddChild add_child_request
  | UpdateAgentStatus string agent_status

fun graph_step :: "time \<times> graph_op \<Rightarrow> graph_state \<Rightarrow> graph_state" where
  "graph_step (now, RegisterAgent a) s = commit s (registerAgent now a s)"
| "graph_step (now, AddChild req) s = commit s (addChild now req s)"
| "graph_step (now, UpdateAgentStatus k st) s = commit s (updateAgentStatus now k st s)"

lemma graph_step_ok: "graphOk s \<Longrightarrow> graphOk (graph_step x s)"
  by (cases "(x, s)" rule: graph_step.cases) (auto intro!: commit_inv [of graphOk] dest: inv_rules)

interpretation graph_store: store_machine newGraphState graph_step graphOk
  by unfold_locales (auto intro: graphOk_new graph_step_ok)

lemma initGraph_id:
  assumes "graphOk s"
  shows "initGraph s = s"
proof -
  have "an_status a \<noteq> AgentStatusUnset" if "(k, a) \<in> set (gs_agents s)" for k a
  proof -
    have "map_of (gs_agents s) k = Some a"
      using that assms in_set_iff_map_of [of "gs_agents s" k a] by (simp add: graphOk_def)
    with assms have "validateAgent a = Inr ()" unfolding graphOk_def by blast
    then show ?thesis by (auto simp: validateAgent_def validAgentStatus_def split: if_splits)
  qed
  then have "map (\<lambda>(k, a). (k, if an_status a = AgentStatusUnset
      then a\<lparr>an_status := AgentStatusRunning\<rparr> else a)) (gs_agents s) = gs_agents s"
    by (intro map_idI) auto
  then show ?thesis by (simp add: initGraph_def)
qed

section \<open>Links and the limit\<close>

lemma addChild_edge:
  assumes "graphOk s" "addChild now req s = Inr (s', r)" "gs_edges s' \<noteq> gs_edges s"
  shows "\<exists>child. an_id child = an_id (ac_child req) \<and>
    (map_of (gs_agents s) (an_id child) = None \<or> map_of (gs_agents s) (an_id child) = Some child) \<and>
    linkChild now req child s = Inr (s', r)"
proof (cases "map_of (gs_agents s) (an_id (ac_child req))")
  case None
  with assms(2) have "linkChild now req (defaultAgent (ac_child req) now) s = Inr (s', r)"
    by (auto simp: addChild_def Let_def split: option.splits if_splits)
  moreover have "an_id (defaultAgent (ac_child req) now) = an_id (ac_child req)"
    by (simp add: defaultAgent_def Let_def)
  ultimately show ?thesis using None by (intro exI conjI) auto
next
  case (Some a)
  with assms(1) have "an_id a = an_id (ac_child req)" by (auto simp: graphOk_def)
  moreover from assms(2) Some have "linkChild now req a s = Inr (s', r)"
    by (auto simp: addChild_def Let_def split: option.splits if_splits)
  ultimately show ?thesis using Some by (intro exI conjI) auto
qed

lemma linkChild_edge:
  assumes "linkChild now req child s = Inr (s', r)" "gs_edges s' \<noteq> gs_edges s"
  shows "(0 < ac_max req \<longrightarrow> int (activeChildren s (ac_parent req)) < ac_max req) \<and>
    s' = s\<lparr>gs_agents := AList.update (an_id child) child (gs_agents s),
           gs_edges := gs_edges s @ [\<lparr>ae_parent = ac_parent req, ae_child = an_id child, ae_created = now\<rparr>]\<rparr>"
  using assms by (auto simp: linkChild_def Let_def split: if_splits)

lemma activeChildren_link:
  assumes "graphOk s" "map_of (gs_agents s) k = None \<or> map_of (gs_agents s) k = Some child"
  shows "activeChildren (s\<lparr>gs_agents := AList.update k child (gs_agents s),
           gs_edges := gs_edges s @ [\<lparr>ae_parent = p, ae_child = k, ae_created = now\<rparr>]\<rparr>) p
         \<le> activeChildren s p + 1"
proof -
  have "map_of (AList.update k child (gs_agents s)) (ae_child e) = map_of (gs_agents s) (ae_child e)"
    if "e \<in> set (gs_edges s)" for e
    using that assms by (auto simp: graphOk_def)
  then have same: "filter (\<lambda>e. ae_parent e = p \<and> (case map_of (AList.update k child (gs_agents s)) (ae_child e) of
        None \<Rightarrow> False | Some a \<Rightarrow> an_status a = AgentStatusRunning)) (gs_edges s) =
      filter (\<lambda>e. ae_parent e = p \<and> (case map_of (gs_agents s) (ae_child e) of
        None \<Rightarrow> False | Some a \<Rightarrow> an_status a = AgentStatusRunning)) (gs_edges s)"
    by (intro filter_cong refl) (simp only:)
  show ?thesis unfolding activeChildren_def using same by (simp del: map_of_update)
qed

section \<open>Descendants\<close>

text \<open>
  What the search has established when the queue holds \<open>queue\<close>: the seen nodes are the
  root and the agents listed so far, everything met descends from the root, and an edge out of
  a seen node leads to a seen or a queued one.
\<close>

definition searchOk ::
  "graph_state \<Rightarrow> string \<Rightarrow> string list \<Rightarrow> string list \<Rightarrow> agent_node list \<Rightarrow> bool" where
  "searchOk s p queue seen out \<longleftrightarrow>
     p \<in> set seen \<and> distinct (map an_id out) \<and> an_id ` set out = set seen - {p} \<and>
     (\<forall>a \<in> set out. map_of (gs_agents s) (an_id a) = Some a) \<and>
     (\<forall>q \<in> set queue \<union> set seen - {p}. (p, q) \<in> (edgeRel (gs_edges s))\<^sup>+) \<and>
     (\<forall>y z. y \<in> set seen \<longrightarrow> (y, z) \<in> edgeRel (gs_edges s) \<longrightarrow> z \<in> set seen \<or> z \<in> set queue)"

definition listsDescendants :: "graph_state \<Rightarrow> string \<Rightarrow> agent_node list \<Rightarrow> bool" where
  "listsDescendants s p out \<longleftrightarrow>
     distinct (map an_id out) \<and> (\<forall>a \<in> set out. map_of (gs_agents s) (an_id a) = Some a) \<and>
     an_id ` set out = {x. (p, x) \<in> (edgeRel (gs_edges s))\<^sup>+}"

lemma graphOk_reach_known:
  assumes "graphOk s" "(p, x) \<in> (edgeRel (gs_edges s))\<^sup>+"
  shows "\<exists>a. map_of (gs_agents s) x = Some a \<and> an_id a = x"
proof -
  from assms(2) obtain y where "(y, x) \<in> edgeRel (gs_edges s)" by (meson tranclD2)
  then obtain e where "e \<in> set (gs_edges s)" "ae_child e = x" by (auto simp: edgeRel_def)
  with assms(1) show ?thesis by (auto simp: graphOk_def)
qed

lemma searchOk_done:
  assumes "graphOk s" "searchOk s p [] seen out"
  shows "listsDescendants s p out"
proof -
  let ?E = "edgeRel (gs_edges s)"
  have "x \<in> set seen" if "(p, x) \<in> ?E\<^sup>*" for x
    using that assms(2) by (induction rule: rtrancl_induct) (auto simp: searchOk_def)
  moreover have "(p, p) \<notin> ?E\<^sup>+" using assms(1) by (simp add: graphOk_def acyclic_def)
  ultimately have "set seen - {p} = {x. (p, x) \<in> ?E\<^sup>+}"
    using assms(2) by (auto simp: searchOk_def intro: trancl_into_rtrancl)
  with assms(2) show ?thesis by (simp add: searchOk_def listsDescendants_def)
qed

lemma searchOk_skip: "searchOk s p (x # queue) seen out \<Longrightarrow> x \<in> set seen \<Longrightarrow> searchOk s p queue seen out"
  by (auto simp: searchOk_def)

lemma searchOk_visit:
  assumes "graphOk s" "searchOk s p (x # queue) seen out" "x \<notin> set seen"
    and "map_of (gs_agents s) x = Some a"
  shows "searchOk s p (queue @ childrenByParent (gs_edges s) x) (x # seen) (out @ [a])"
proof -
  let ?E = "edgeRel (gs_edges s)"
  have ids: "an_id a = x" "x \<noteq> p" using assms by (auto simp: graphOk_def searchOk_def)
  have px: "(p, x) \<in> ?E\<^sup>+" using assms(2) ids by (auto simp: searchOk_def)
  have "(p, c) \<in> ?E\<^sup>+" if "c \<in> set (childrenByParent (gs_edges s) x)" for c
    using px that by (auto simp: edgeRel_children [symmetric] intro: trancl_into_trancl)
  with px have below: "\<forall>q \<in> set (queue @ childrenByParent (gs_edges s) x) \<union> set (x # seen) - {p}.
      (p, q) \<in> ?E\<^sup>+"
    using assms(2) by (auto simp: searchOk_def)
  have closed: "z \<in> set (x # seen) \<or> z \<in> set (queue @ childrenByParent (gs_edges s) x)"
    if "y \<in> set (x # seen)" "(y, z) \<in> ?E" for y z
    using that assms(2) by (auto simp: searchOk_def edgeRel_children)
  have "an_id ` set out = set seen - {p}" using assms(2) by (simp add: searchOk_def)
  with assms(3) ids have fresh: "an_id a \<notin> an_id ` set out"
    and im: "an_id ` set (out @ [a]) = set (x # seen) - {p}" by auto
  from fresh assms(2) have "distinct (map an_id (out @ [a]))" by (simp add: searchOk_def)
  moreover have "\<forall>b \<in> set (out @ [a]). map_of (gs_agents s) (an_id b) = Some b"
    using assms(2,4) ids by (auto simp: searchOk_def)
  ultimately show ?thesis
    unfolding searchOk_def using im below closed assms(2) by (auto simp: searchOk_def)
qed

lemma descend_lists:
  assumes "graphOk s" "searchOk s p queue seen out"
  shows "\<exists>out'. descend s queue seen out = Inr out' \<and> listsDescendants s p out'"
  using assms
proof (induction s queue seen out rule: descend.induct)
  case (1 s seen out)
  then show ?case by (auto intro: searchOk_done)
next
  case (2 s x queue seen out)
  show ?case
  proof (cases "x \<in> set seen")
    case True
    with 2 show ?thesis using searchOk_skip by auto
  next
    case False
    with "2.prems" have "(p, x) \<in> (edgeRel (gs_edges s))\<^sup>+" by (auto simp: searchOk_def)
    then obtain a where "map_of (gs_agents s) x = Some a"
      using graphOk_reach_known [OF "2.prems"(1)] by blast
    with False "2.IH"(2) [OF False] "2.prems" show ?thesis using searchOk_visit by auto
  qed
qed

lemma descendantsBFS_lists:
  assumes "graphOk s" "map_of (gs_agents s) p = Some a"
  shows "\<exists>out. descendantsBFS p s = Inr out \<and> listsDescendants s p out"
proof -
  have "searchOk s p (childrenByParent (gs_edges s) p) [p] []"
    by (auto simp: searchOk_def edgeRel_children [symmetric])
  from descend_lists [OF assms(1) this] assms(2) show ?thesis by (simp add: descendantsBFS_def)
qed

section \<open>Properties\<close>


text \<open>
  \<open>hasAgentCycle\<close> decides reachability: the queue-based search answers true exactly when
  the child is the parent or a path of edges leads from the child back to the parent.
\<close>

theorem cycle_search_decides:
  "hasAgentCycle s p c \<longleftrightarrow> (c, p) \<in> (edgeRel (gs_edges s))\<^sup>*"
  by (rule hasAgentCycle_iff)

text \<open>
  On every stored graph \<open>DescendantsBFS\<close> fails only for an unknown root; otherwise it
  lists, each once, exactly the agents that a non-empty path of edges reaches from the root.
\<close>

theorem descendants_exact:
  "case descendantsBFS p (run graph_step newGraphState ops) of
     Inl e \<Rightarrow> e = ErrAgentNotFound \<and> map_of (gs_agents (run graph_step newGraphState ops)) p = None
   | Inr out \<Rightarrow> listsDescendants (run graph_step newGraphState ops) p out"
proof (cases "map_of (gs_agents (run graph_step newGraphState ops)) p")
  case None
  then show ?thesis by (simp add: descendantsBFS_def)
next
  case (Some a)
  from descendantsBFS_lists [OF graph_store.reachable_inv Some] show ?thesis by auto
qed

text \<open>
  An accepted new link respects the concurrency limit of its request: if the parent had fewer
  running children than a positive limit allows, it has at most the limit afterwards, and an
  accepted link that adds an edge never starts from a parent at its limit.
\<close>

theorem concurrency_limit_respected:
  assumes "graphOk s" and "addChild now req s = Inr (s', r)" and "0 < ac_max req"
    and "gs_edges s' \<noteq> gs_edges s"
  shows "int (activeChildren s (ac_parent req)) < ac_max req \<and>
         int (activeChildren s' (ac_parent req)) \<le> ac_max req \<and>
         (\<exists>e. gs_edges s' = gs_edges s @ [e] \<and> ae_parent e = ac_parent req \<and>
              ae_child e = an_id (ac_child req))"
proof -
  from addChild_edge [OF assms(1,2,4)] obtain child where
    c: "an_id child = an_id (ac_child req)"
       "map_of (gs_agents s) (an_id child) = None \<or> map_of (gs_agents s) (an_id child) = Some child"
       "linkChild now req child s = Inr (s', r)" by blast
  from linkChild_edge [OF c(3) assms(4)] assms(3)
  have lim: "int (activeChildren s (ac_parent req)) < ac_max req"
    and s': "s' = s\<lparr>gs_agents := AList.update (an_id child) child (gs_agents s),
                 gs_edges := gs_edges s @ [\<lparr>ae_parent = ac_parent req, ae_child = an_id child,
                                            ae_created = now\<rparr>]\<rparr>"
    by auto
  have "activeChildren s' (ac_parent req) \<le> activeChildren s (ac_parent req) + 1"
    unfolding s' by (rule activeChildren_link [OF assms(1) c(2)])
  with lim s' c(1) show ?thesis by auto
qed

text \<open>A root with one running child at limit 2: the second link is accepted.\<close>

definition exampleAgent :: "string \<Rightarrow> agent_node" where
  "exampleAgent k = \<lparr>an_id = k, an_name = [], an_type = ''worker'', an_status = AgentStatusUnset,
     an_created = 0, an_updated = 0, an_metadata = None\<rparr>"

definition exampleGraph :: graph_state where
  "exampleGraph = run graph_step newGraphState
     [(5, RegisterAgent (exampleAgent ''root'')),
      (6, AddChild \<lparr>ac_parent = ''root'', ac_child = exampleAgent ''a'', ac_max = 2\<rparr>)]"

theorem concurrency_limit_respected_witness:
  "int (activeChildren exampleGraph ''root'') < 2 \<and>
   (\<exists>s'. addChild 7 \<lparr>ac_parent = ''root'', ac_child = exampleAgent ''b'', ac_max = 2\<rparr> exampleGraph
           = Inr (s', ()) \<and> int (activeChildren s' ''root'') \<le> 2)"
proof -
  let ?req = "\<lparr>ac_parent = ''root'', ac_child = exampleAgent ''b'', ac_max = 2\<rparr>"
  have ok: "graphOk exampleGraph" unfolding exampleGraph_def by (rule graph_store.reachable_inv)
  have "\<not> failed (addChild 7 ?req exampleGraph)" by code_simp
  then obtain s' where s': "addChild 7 ?req exampleGraph = Inr (s', ())"
    by (cases "addChild 7 ?req exampleGraph") auto
  have "length (gs_edges (commit exampleGraph (addChild 7 ?req exampleGraph))) \<noteq>
      length (gs_edges exampleGraph)" by code_simp
  with s' have "gs_edges s' \<noteq> gs_edges exampleGraph" by auto
  from concurrency_limit_respected [OF ok s' _ this] s' show ?thesis by simp
qed

end
