(* ===== verification/TeamCoordinator.thy ===== *)
theory TeamCoordinator
  imports TaskStore TeamGraph
begin

text \<open>
  Model of \<open>pkg/team/coordinator.go\<close>: agents claim, release and cancel tasks of the task
  store, the leader approves the exit of a plan, and children are linked in the agent graph.
  The coordinator calls the two stores through their interfaces; \<open>guarded_store\<close> states
  what it relies on (an owner-guarded update changes one entry, and only when the guard names
  its owner) and is interpreted on \<open>UpdateTaskIfOwned\<close>.
\<close>

section \<open>Requests and errors\<close>

record claim_next_request =
  cn_plan :: string
  cn_agent :: string
  cn_stale :: int

record claim_task_request =
  ct_plan :: string
  ct_task :: string
  ct_agent :: string
  ct_stale :: int

record task_owner_request =
  to_plan :: string
  to_task :: string
  to_agent :: string

record plan_exit_approval =
  pe_plan :: string
  pe_actor :: string
  pe_approve :: bool
  pe_reason :: string

text \<open>\<open>co_graph\<close> says whether the coordinator was given a graph store.\<close>

record coordinator =
  co_leader :: string
  co_max :: int
  co_graph :: bool

datatype team_error =
    ContextDone | TeamInvalidAgent | LeaderApprovalRequired | TeamOwnerMismatch
  | TeamAgentNotFound | TaskError task_error | GraphError graph_error

definition map_error :: "('e \<Rightarrow> 'f) \<Rightarrow> ('e, 'a) result \<Rightarrow> ('f, 'a) result" where
  "map_error g r = (case r of Inl e \<Rightarrow> Inl (g e) | Inr a \<Rightarrow> Inr a)"

definition wrapOwnedTaskUpdateError :: "task_error \<Rightarrow> team_error" where
  "wrapOwnedTaskUpdateError e = (if e = ErrTaskOwnerMismatch then TeamOwnerMismatch else TaskError e)"

section \<open>Operations\<close>

text \<open>
  Every task operation first checks the context and then the agent; \<open>done\<close> is whether
  \<open>ctx.Err()\<close> is set when the operation starts.
\<close>

definition coClaimNext ::
  "io_env \<Rightarrow> bool \<Rightarrow> time \<Rightarrow> claim_next_request \<Rightarrow> task_file \<Rightarrow> task_file \<times> (team_error, task_node) result"
where
  "coClaimNext io ctx_done now req f =
     (if ctx_done then (f, Inl ContextDone)
      else if cn_agent req = [] then (f, Inl TeamInvalidAgent)
      else apsnd (map_error TaskError) (withFile io
        (claimNext now \<lparr>cr_plan = cn_plan req, cr_task = [], cr_owner = cn_agent req,
                        cr_stale = cn_stale req\<rparr>) f))"

definition coClaimTask ::
  "io_env \<Rightarrow> bool \<Rightarrow> time \<Rightarrow> claim_task_request \<Rightarrow> task_file \<Rightarrow> task_file \<times> (team_error, task_node) result"
where
  "coClaimTask io ctx_done now req f =
     (if ctx_done then (f, Inl ContextDone)
      else if ct_agent req = [] then (f, Inl TeamInvalidAgent)
      else apsnd (map_error TaskError) (withFile io
        (claimTaskById now \<lparr>cr_plan = ct_plan req, cr_task = ct_task req, cr_owner = ct_agent req,
                            cr_stale = ct_stale req\<rparr>) f))"

text \<open>The update that release and cancel send: only the status is set.\<close>

definition ownedStatusUpdate :: "task_owner_request \<Rightarrow> task_status \<Rightarrow> guarded_update" where
  "ownedStatusUpdate req st =
     \<lparr>gu_guard = \<lparr>og_plan = to_plan req, og_owner = to_agent req, og_status = StatusInProgress\<rparr>,
      gu_update = \<lparr>tu_id = to_task req, tu_title = [], tu_description = [], tu_status = st,
                   tu_blocked = None, tu_owner = [], tu_hint = [], tu_evidence = None\<rparr>\<rparr>"

definition coReleaseTask ::
  "io_env \<Rightarrow> bool \<Rightarrow> time \<Rightarrow> task_owner_request \<Rightarrow> task_file \<Rightarrow> task_file \<times> (team_error, task_node) result"
where
  "coReleaseTask io ctx_done now req f =
     (if ctx_done then (f, Inl ContextDone)
      else if to_agent req = [] then (f, Inl TeamInvalidAgent)
      else apsnd (map_error wrapOwnedTaskUpdateError)
        (withFile io (updateTaskIfOwned now (ownedStatusUpdate req StatusPending)) f))"

definition coCancelTask ::
  "io_env \<Rightarrow> bool \<Rightarrow> time \<Rightarrow> task_owner_request \<Rightarrow> task_file \<Rightarrow> task_file \<times> (team_error, task_node) result"
where
  "coCancelTask io ctx_done now req f =
     (if ctx_done then (f, Inl ContextDone)
      else if to_agent req = [] then (f, Inl TeamInvalidAgent)
      else apsnd (map_error wrapOwnedTaskUpdateError)
        (withFile io (updateTaskIfOwned now (ownedStatusUpdate req StatusCancelled)) f))"

definition coApprovePlanExit ::
  "coordinator \<Rightarrow> io_env \<Rightarrow> bool \<Rightarrow> time \<Rightarrow> plan_exit_approval \<Rightarrow> task_file
     \<Rightarrow> task_file \<times> (team_error, plan_ref) result"
where
  "coApprovePlanExit co io ctx_done now req f =
     (if ctx_done then (f, Inl ContextDone)
      else if co_leader co \<noteq> [] \<and> pe_actor req \<noteq> co_leader co then (f, Inl LeaderApprovalRequired)
      else apsnd (map_error TaskError) (withFile io
        (decidePlan now (pe_plan req)
           \<lparr>ad_state = (if pe_approve req then ApprovalApproved else ApprovalRejected),
            ad_actor = pe_actor req, ad_reason = pe_reason req, ad_decided = 0\<rparr>) f))"

definition coAddChild ::
  "coordinator \<Rightarrow> io_env \<Rightarrow> time \<Rightarrow> string \<Rightarrow> agent_node \<Rightarrow> graph_file
     \<Rightarrow> graph_file \<times> (team_error, unit) result"
where
  "coAddChild co io now parent child f =
     (if \<not> co_graph co then (f, Inl TeamAgentNotFound)
      else apsnd (map_error GraphError) (updateGraphFile io
        (addChild now \<lparr>ac_parent = parent, ac_child = child, ac_max = co_max co\<rparr>) f))"

definition coDescendantsBFS ::
  "coordinator \<Rightarrow> io_env \<Rightarrow> string \<Rightarrow> graph_file \<Rightarrow> (team_error, agent_node list) result" where
  "coDescendantsBFS co io parent f =
     (if \<not> co_graph co then Inl TeamAgentNotFound
      else map_error GraphError (and_then (readGraph io f) (descendantsBFS parent)))"

section \<open>Owner-guarded updates\<close>

text \<open>
  The part of the task store's interface the coordinator depends on. A guarded update succeeds
  only on an entry its guard names the owner of, and changes no other entry.
\<close>

locale guarded_store =
  fixes entry :: "'s \<Rightarrow> string \<Rightarrow> 't option"
    and owner :: "'t \<Rightarrow> string"
    and guarded :: "time \<Rightarrow> 'g \<Rightarrow> 's \<Rightarrow> ('e, 's \<times> 'r) result"
    and target :: "'g \<Rightarrow> string"
    and claimed_by :: "'g \<Rightarrow> string"
  assumes guarded_needs_owner:
      "guarded now g s = Inr (s', r) \<Longrightarrow> \<exists>t. entry s (target g) = Some t \<and> owner t = claimed_by g"
    and guarded_frame:
      "guarded now g s = Inr (s', r) \<Longrightarrow> k \<noteq> target g \<Longrightarrow> entry s' k = entry s k"
begin

lemma others_step:
  assumes "entry s k = Some t" "claimed_by g \<noteq> owner t"
  shows "entry (commit s (guarded now g s)) k = Some t"
proof (cases "guarded now g s")
  case (Inr p)
  then obtain s' r where ok: "guarded now g s = Inr (s', r)" by (cases p) auto
  from guarded_needs_owner [OF ok] assms have "k \<noteq> target g" by auto
  with guarded_frame [OF ok] assms(1) ok show ?thesis by simp
qed (use assms in simp)

lemma others_run:
  assumes "entry s k = Some t" "\<forall>(now, g) \<in> set gs. claimed_by g \<noteq> owner t"
  shows "entry (run (\<lambda>(now, g) s. commit s (guarded now g s)) s gs) k = Some t"
  using assms
proof (induction gs arbitrary: s)
  case (Cons x gs)
  obtain now g where x: "x = (now, g)" by fastforce
  with Cons others_step [of s k t g now] show ?case by simp
qed simp

end

lemma guard_names_owner:
  "validateTaskOwnerGuard t g = Inr () \<Longrightarrow> tn_owner t = og_owner g \<and> og_owner g \<noteq> []"
  by (auto simp: validateTaskOwnerGuard_def split: if_splits)

lemma updateTaskIfOwned_cases:
  assumes "updateTaskIfOwned now g s = Inr (s', r)"
  obtains t where "map_of (ts_tasks s) (tu_id (gu_update g)) = Some t"
    "validateTaskOwnerGuard t (gu_guard g) = Inr ()" "commitUpdate now (gu_update g) t s = Inr (s', r)"
  using assms by (auto simp: updateTaskIfOwned_def split: option.splits)

interpretation task_guard: guarded_store "\<lambda>s. map_of (ts_tasks s)" tn_owner updateTaskIfOwned
  "\<lambda>g. tu_id (gu_update g)" "\<lambda>g. og_owner (gu_guard g)"
proof
  fix now g s s' r
  assume ok: "updateTaskIfOwned now g s = Inr (s', r)"
  then show "\<exists>t. map_of (ts_tasks s) (tu_id (gu_update g)) = Some t \<and> tn_owner t = og_owner (gu_guard g)"
    by (cases rule: updateTaskIfOwned_cases) (auto dest: guard_names_owner)
  fix k
  assume "k \<noteq> tu_id (gu_update g)"
  with ok show "map_of (ts_tasks s') k = map_of (ts_tasks s) k"
    by (cases rule: updateTaskIfOwned_cases) (auto dest!: commitUpdate_cases(4) simp: putTask_def)
qed

section \<open>The coordinator's file operations on a valid store\<close>

lemma withFile_valid:
  assumes "storeOk s"
  shows "fst (withFile io mutate (DecodedFile s)) =
    (if io_read_fails io \<or> io_write_fails io then DecodedFile s else DecodedFile (commit s (mutate s)))"
proof -
  have "readState io (DecodedFile s) = (if io_read_fails io then Inl ErrReadTaskState else Inr s)"
    by (simp add: readState_def initState_id [OF assms] storeOk_validateState [OF assms])
  then show ?thesis
    by (cases "mutate s") (auto simp: withFile_def)
qed

text \<open>One call of the coordinator on the task store, with what the environment decided.\<close>

datatype coord_op =
    CoClaimNext claim_next_request
  | CoClaimTask claim_task_request
  | CoRelease task_owner_request
  | CoCancel task_owner_request
  | CoApprove plan_exit_approval

record coord_call =
  cc_io :: io_env
  cc_done :: bool
  cc_now :: time
  cc_op :: coord_op

definition coord_step :: "coordinator \<Rightarrow> coord_call \<Rightarrow> task_file \<Rightarrow> task_file" where
  "coord_step co c f =
     (case cc_op c of
        CoClaimNext r \<Rightarrow> fst (coClaimNext (cc_io c) (cc_done c) (cc_now c) r f)
      | CoClaimTask r \<Rightarrow> fst (coClaimTask (cc_io c) (cc_done c) (cc_now c) r f)
      | CoRelease r \<Rightarrow> fst (coReleaseTask (cc_io c) (cc_done c) (cc_now c) r f)
      | CoCancel r \<Rightarrow> fst (coCancelTask (cc_io c) (cc_done c) (cc_now c) r f)
      | CoApprove r \<Rightarrow> fst (coApprovePlanExit co (cc_io c) (cc_done c) (cc_now c) r f))"

text \<open>Calls of agents other than the owner, whose claims do not consider a claim of \<open>at\<close> stale.\<close>

definition considerate :: "string \<Rightarrow> time \<Rightarrow> coord_call \<Rightarrow> bool" where
  "considerate own at c =
     (case cc_op c of
        CoClaimNext r \<Rightarrow> time_sub (cc_now c) at \<le> cn_stale r
      | CoClaimTask r \<Rightarrow> time_sub (cc_now c) at \<le> ct_stale r
      | CoRelease r \<Rightarrow> to_agent r \<noteq> own
      | CoCancel r \<Rightarrow> to_agent r \<noteq> own
      | CoApprove r \<Rightarrow> True)"

definition held :: "string \<Rightarrow> task_node \<Rightarrow> time \<Rightarrow> task_state \<Rightarrow> bool" where
  "held k t at s \<longleftrightarrow>
     storeOk s \<and> map_of (ts_tasks s) k = Some t \<and> tn_status t = StatusInProgress \<and>
     tn_owner t \<noteq> [] \<and> tn_claimed t = Some at"

lemma claimTask_other:
  assumes "held k t at s" "map_of (ts_tasks s) (tn_id u) = Some u"
    "claimTask now u c s = Inr (s', r)" "time_sub now at \<le> cr_stale c"
  shows "held k t at s'"
proof -
  note c = claimTask_cases [OF assms(3)]
  have "\<not> ownerStale t c now" using assms by (auto simp: held_def ownerStale_def)
  then have "\<not> claimable s t c now" using assms(1) by (auto simp: held_def claimable_def)
  with c(2) have "u \<noteq> t" by auto
  then have "tn_id u \<noteq> k" using assms(1,2) by (auto simp: held_def)
  then have "map_of (ts_tasks s') k = map_of (ts_tasks s) k"
    unfolding c(4) by (simp add: putTask_def)
  moreover have "storeOk s'" using assms(1) by (intro claimTask_ok [OF _ assms(2,3)]) (simp add: held_def)
  ultimately show ?thesis using assms(1) by (simp add: held_def)
qed

lemma claimNext_other:
  assumes "held k t at s" "claimNext now c s = Inr (s', r)" "time_sub now at \<le> cr_stale c"
  shows "held k t at s'"
  using assms(2)
proof (cases rule: claimNext_cases)
  case (1 u)
  have "storeOk s" using assms(1) by (simp add: held_def)
  from claimTask_other [OF assms(1) planTasks_lookup [OF this 1(1)] 1(3)] assms(3) show ?thesis by simp
qed

lemma claimTaskById_other:
  assumes "held k t at s" "claimTaskById now c s = Inr (s', r)" "time_sub now at \<le> cr_stale c"
  shows "held k t at s'"
proof -
  have ok: "storeOk s" using assms(1) by (simp add: held_def)
  from ok assms(2) show ?thesis
  proof (cases rule: claimTaskById_cases)
    case (1 u)
    with claimTask_other [OF assms(1) _ 1(3) assms(3)] show ?thesis by simp
  qed
qed

lemma guarded_other:
  assumes "held k t at s" "updateTaskIfOwned now g s = Inr (s', r)" "og_owner (gu_guard g) \<noteq> tn_owner t"
  shows "held k t at s'"
proof -
  have "storeOk s'" using assms(1) updateTaskIfOwned_ok [OF _ assms(2)] by (simp add: held_def)
  moreover have "map_of (ts_tasks s') k = Some t"
    using task_guard.others_step [of s k t g now] assms by (simp add: held_def)
  ultimately show ?thesis using assms(1) by (simp add: held_def)
qed

lemma decidePlan_other:
  assumes "held k t at s" "decidePlan now p d s = Inr (s', r)"
  shows "held k t at s'"
proof -
  have "storeOk s'" using assms(1) decidePlan_ok [OF _ assms(2)] by (simp add: held_def)
  moreover have "ts_tasks s' = ts_tasks s"
    using assms(2) by (auto simp: decidePlan_def Let_def split: option.splits)
  ultimately show ?thesis using assms(1) by (simp add: held_def)
qed

lemma held_commit:
  assumes "held k t at s" "\<And>s' r. mutate s = Inr (s', r) \<Longrightarrow> held k t at s'"
  shows "\<exists>s'. fst (withFile io mutate (DecodedFile s)) = DecodedFile s' \<and> held k t at s'"
proof -
  have "storeOk s" using assms(1) by (simp add: held_def)
  moreover have "held k t at (commit s (mutate s))" by (rule commit_inv) (use assms in auto)
  ultimately show ?thesis using assms(1) by (simp add: withFile_valid)
qed

lemma coord_step_held:
  assumes "held k t at s" "considerate (tn_owner t) at c"
  shows "\<exists>s'. coord_step co c (DecodedFile s) = DecodedFile s' \<and> held k t at s'"
proof (cases "cc_op c")
  case (CoClaimNext r)
  have "\<exists>s'. fst (withFile (cc_io c) (claimNext (cc_now c) \<lparr>cr_plan = cn_plan r, cr_task = [],
      cr_owner = cn_agent r, cr_stale = cn_stale r\<rparr>) (DecodedFile s)) = DecodedFile s' \<and> held k t at s'"
    by (rule held_commit [OF assms(1)])
      (use assms CoClaimNext claimNext_other in \<open>fastforce simp: considerate_def\<close>)
  with assms(1) CoClaimNext show ?thesis by (auto simp: coClaimNext_def coord_step_def)
next
  case (CoClaimTask r)
  have "\<exists>s'. fst (withFile (cc_io c) (claimTaskById (cc_now c) \<lparr>cr_plan = ct_plan r, cr_task = ct_task r,
      cr_owner = ct_agent r, cr_stale = ct_stale r\<rparr>) (DecodedFile s)) = DecodedFile s' \<and> held k t at s'"
    by (rule held_commit [OF assms(1)])
      (use assms CoClaimTask claimTaskById_other in \<open>fastforce simp: considerate_def\<close>)
  with assms(1) CoClaimTask show ?thesis by (auto simp: coClaimTask_def coord_step_def)
next
  case (CoRelease r)
  have "\<exists>s'. fst (withFile (cc_io c) (updateTaskIfOwned (cc_now c) (ownedStatusUpdate r StatusPending))
      (DecodedFile s)) = DecodedFile s' \<and> held k t at s'"
    by (rule held_commit [OF assms(1)])
      (use assms CoRelease guarded_other in \<open>fastforce simp: considerate_def ownedStatusUpdate_def\<close>)
  with assms(1) CoRelease show ?thesis by (auto simp: coReleaseTask_def coord_step_def)
next
  case (CoCancel r)
  have "\<exists>s'. fst (withFile (cc_io c) (updateTaskIfOwned (cc_now c) (ownedStatusUpdate r StatusCancelled))
      (DecodedFile s)) = DecodedFile s' \<and> held k t at s'"
    by (rule held_commit [OF assms(1)])
      (use assms CoCancel guarded_other in \<open>fastforce simp: considerate_def ownedStatusUpdate_def\<close>)
  with assms(1) CoCancel show ?thesis by (auto simp: coCancelTask_def coord_step_def)
next
  case (CoApprove r)
  have "\<exists>s'. fst (withFile (cc_io c) (decidePlan (cc_now c) (pe_plan r)
      \<lparr>ad_state = (if pe_approve r then ApprovalApproved else ApprovalRejected),
       ad_actor = pe_actor r, ad_reason = pe_reason r, ad_decided = 0\<rparr>) (DecodedFile s)) = DecodedFile s' \<and>
      held k t at s'"
    by (rule held_commit [OF assms(1)]) (use assms decidePlan_other in blast)
  with assms(1) CoApprove show ?thesis by (auto simp: coApprovePlanExit_def coord_step_def)
qed

lemma coord_run_held:
  assumes "held k t at s" "\<forall>c \<in> set cs. considerate (tn_owner t) at c"
  shows "\<exists>s'. run (coord_step co) (DecodedFile s) cs = DecodedFile s' \<and> held k t at s'"
  using assms
proof (induction cs arbitrary: s)
  case (Cons c cs)
  then obtain s' where "coord_step co c (DecodedFile s) = DecodedFile s'" "held k t at s'"
    using coord_step_held [of k t at s c co] by auto
  with Cons show ?case by simp
qed auto

section \<open>Plans change only by approvals\<close>

lemma task_ops_keep_plans:
  "claimTask now t c s = Inr (s', r) \<Longrightarrow> ts_plans s' = ts_plans s"
  "claimTaskById now c s = Inr (s', r) \<Longrightarrow> ts_plans s' = ts_plans s"
  "claimNext now c s = Inr (s', r) \<Longrightarrow> ts_plans s' = ts_plans s"
  "updateTaskIfOwned now g s = Inr (s', r) \<Longrightarrow> ts_plans s' = ts_plans s"
proof -
  have claim: "claimTask now t c s = Inr (s', r) \<Longrightarrow> ts_plans s' = ts_plans s" for t c
    by (drule claimTask_cases(4)) (simp add: putTask_def)
  then show "claimTask now t c s = Inr (s', r) \<Longrightarrow> ts_plans s' = ts_plans s" .
  show "claimTaskById now c s = Inr (s', r) \<Longrightarrow> ts_plans s' = ts_plans s"
    by (auto simp: claimTaskById_def split: option.splits dest: claim)
  show "claimNext now c s = Inr (s', r) \<Longrightarrow> ts_plans s' = ts_plans s"
    by (auto simp: claimNext_def split: option.splits dest: claim)
  show "updateTaskIfOwned now g s = Inr (s', r) \<Longrightarrow> ts_plans s' = ts_plans s"
    by (erule updateTaskIfOwned_cases) (drule commitUpdate_cases(4), simp add: putTask_def)
qed

definition plansKept :: "(string \<times> plan_ref) list \<Rightarrow> task_file \<Rightarrow> bool" where
  "plansKept ps f \<longleftrightarrow> (\<exists>s. f = DecodedFile s \<and> storeOk s \<and> ts_plans s = ps)"

lemma plansKept_withFile:
  assumes "plansKept ps f"
    and "\<And>s s' r. storeOk s \<Longrightarrow> mutate s = Inr (s', r) \<Longrightarrow> storeOk s' \<and> ts_plans s' = ts_plans s"
  shows "plansKept ps (fst (withFile io mutate f))"
proof -
  from assms(1) obtain s where s: "f = DecodedFile s" "storeOk s" "ts_plans s = ps"
    by (auto simp: plansKept_def)
  have "storeOk (commit s (mutate s)) \<and> ts_plans (commit s (mutate s)) = ts_plans s"
    using commit_inv [of "\<lambda>x. storeOk x \<and> ts_plans x = ts_plans s" s "mutate s"] s(2) assms(2)
    by blast
  with s show ?thesis by (auto simp: plansKept_def withFile_valid)
qed

lemma coord_step_plans:
  assumes "co_leader co \<noteq> []" "\<forall>req. cc_op c = CoApprove req \<longrightarrow> pe_actor req \<noteq> co_leader co"
    "plansKept ps f"
  shows "plansKept ps (coord_step co c f)"
proof -
  have w: "plansKept ps (fst (withFile (cc_io c) (claimNext now cl) f))"
    "plansKept ps (fst (withFile (cc_io c) (claimTaskById now cl) f))"
    "plansKept ps (fst (withFile (cc_io c) (updateTaskIfOwned now g) f))" for now cl g
    by (rule plansKept_withFile [OF assms(3)];
        blast dest: claimNext_ok claimTaskById_ok updateTaskIfOwned_ok task_ops_keep_plans)+
  show ?thesis
  proof (cases "cc_op c")
    case (CoClaimNext r)
    with w(1) assms(3) show ?thesis by (simp add: coClaimNext_def coord_step_def)
  next
    case (CoClaimTask r)
    with w(2) assms(3) show ?thesis by (simp add: coClaimTask_def coord_step_def)
  next
    case (CoRelease r)
    with w(3) assms(3) show ?thesis by (simp add: coReleaseTask_def coord_step_def)
  next
    case (CoCancel r)
    with w(3) assms(3) show ?thesis by (simp add: coCancelTask_def coord_step_def)
  next
    case (CoApprove r)
    with assms show ?thesis by (simp add: coApprovePlanExit_def coord_step_def)
  qed
qed

lemma plans_kept_run:
  assumes "co_leader co \<noteq> []"
    "\<forall>c \<in> set cs. \<forall>req. cc_op c = CoApprove req \<longrightarrow> pe_actor req \<noteq> co_leader co" "storeOk s"
  shows "\<exists>s'. run (coord_step co) (DecodedFile s) cs = DecodedFile s' \<and> ts_plans s' = ts_plans s"
proof -
  have "plansKept ps (run (coord_step co) f cs)" if "plansKept ps f" for ps f
    using that assms(2) by (induction cs arbitrary: f) (auto intro: coord_step_plans [OF assms(1)])
  moreover have "plansKept (ts_plans s) (DecodedFile s)" using assms(3) by (simp add: plansKept_def)
  ultimately have "plansKept (ts_plans s) (run (coord_step co) (DecodedFile s) cs)" by blast
  then show ?thesis by (auto simp: plansKept_def)
qed

section \<open>Properties\<close>

text \<open>
  While an agent holds a task, no sequence of coordinator calls by others changes it: claims
  whose staleness bound the holder's claim has not exceeded, releases and cancels in another
  agent's name, and plan approvals, with any clock readings, cancelled contexts and failing
  reads or writes.
\<close>

theorem held_task_is_exclusive:
  assumes "storeOk s" and "map_of (ts_tasks s) k = Some t"
    and "tn_status t = StatusInProgress" and "tn_owner t \<noteq> []" and "tn_claimed t = Some at"
    and "\<forall>c \<in> set cs. considerate (tn_owner t) at c"
  shows "\<exists>s'. run (coord_step co) (DecodedFile s) cs = DecodedFile s' \<and>
              map_of (ts_tasks s') k = Some t \<and> storeOk s'"
  using coord_run_held [of k t at s cs co] assms by (auto simp: held_def)

theorem held_task_is_exclusive_witness:
  "\<exists>s'. run (coord_step \<lparr>co_leader = [], co_max = 0, co_graph = False\<rparr>) (DecodedFile claimedStore)
      [\<lparr>cc_io = io_ok, cc_done = False, cc_now = 60,
        cc_op = CoClaimTask \<lparr>ct_plan = ''p'', ct_task = ''a'', ct_agent = ''y'', ct_stale = 50\<rparr>\<rparr>,
       \<lparr>cc_io = io_ok, cc_done = False, cc_now = 61,
        cc_op = CoCancel \<lparr>to_plan = ''p'', to_task = ''a'', to_agent = ''y''\<rparr>\<rparr>]
      = DecodedFile s' \<and> map_of (ts_tasks s') ''a'' = Some claimedTask \<and> storeOk s'"
  by (rule held_task_is_exclusive [OF claimedStore_ok claimedStore_task, where at = 20])
    (simp_all add: claimedTask_simps considerate_def time_sub_def max_duration_def min_duration_def)

text \<open>
  An agent's release or cancel of a task succeeds only when that agent owns the in-progress
  task in the named plan; it then leaves the task without owner and claim in the requested
  status.
\<close>

theorem release_needs_ownership:
  assumes "storeOk s"
    and "coReleaseTask io_ok False now req (DecodedFile s) = (f', Inr r) \<and> st = StatusPending \<or>
         coCancelTask io_ok False now req (DecodedFile s) = (f', Inr r) \<and> st = StatusCancelled"
  shows "\<exists>t s'. map_of (ts_tasks s) (to_task req) = Some t \<and> tn_owner t = to_agent req \<and>
            to_agent req \<noteq> [] \<and> tn_status t = StatusInProgress \<and>
            (to_plan req = [] \<or> tn_plan t = to_plan req) \<and>
            f' = DecodedFile s' \<and> map_of (ts_tasks s') (to_task req) = Some r \<and>
            r = t\<lparr>tn_status := st, tn_owner := [], tn_claimed := None, tn_updated := now\<rparr>"
proof -
  from assms(2) obtain s' where st: "st = StatusPending \<or> st = StatusCancelled"
    and ok: "updateTaskIfOwned now (ownedStatusUpdate req st) s = Inr (s', r)" and f': "f' = DecodedFile s'"
    and agent: "to_agent req \<noteq> []"
    using readState_written [OF assms(1)]
    by (auto simp: coReleaseTask_def coCancelTask_def withFile_def map_error_def
        split: sum.splits prod.splits if_splits)
  from ok show ?thesis
  proof (cases rule: updateTaskIfOwned_cases)
    case (1 t)
    note c = commitUpdate_cases [OF 1(3)]
    have "r = t\<lparr>tn_status := st, tn_owner := [], tn_claimed := None, tn_updated := now\<rparr>"
      using st by (auto simp: c(3) applyUpdate_def ownedStatusUpdate_def)
    moreover have "map_of (ts_tasks s') (to_task req) = Some r"
      by (simp add: c(4) putTask_def ownedStatusUpdate_def)
    ultimately show ?thesis using 1 f' agent
      by (auto simp: validateTaskOwnerGuard_def ownedStatusUpdate_def split: if_splits)
  qed
qed

theorem release_needs_ownership_witness:
  "\<exists>f' r s'. coReleaseTask io_ok False 60 \<lparr>to_plan = ''p'', to_task = ''a'', to_agent = ''x''\<rparr>
       (DecodedFile claimedStore) = (f', Inr r) \<and> f' = DecodedFile s' \<and>
     map_of (ts_tasks s') ''a'' = Some r \<and> tn_owner r = [] \<and> tn_status r = StatusPending"
proof -
  let ?req = "\<lparr>to_plan = ''p'', to_task = ''a'', to_agent = ''x''\<rparr>"
  let ?x = "coReleaseTask io_ok False 60 ?req (DecodedFile claimedStore)"
  have "\<not> failed (snd ?x)" by code_simp
  then obtain f' r where ok: "?x = (f', Inr r)" by (cases ?x; cases "snd ?x") auto
  from release_needs_ownership [OF claimedStore_ok, of 60 ?req f' r StatusPending] ok
  show ?thesis by auto
qed

text \<open>
  With a leader configured, the plans and their approval states change through the
  coordinator only on the leader's own request: any sequence of calls without one leaves every
  plan of the store as it was, whatever it claims, releases and cancels.
\<close>

theorem only_leader_decides_plans:
  assumes "storeOk s" and "co_leader co \<noteq> []"
    and "\<forall>c \<in> set cs. \<forall>req. cc_op c = CoApprove req \<longrightarrow> pe_actor req \<noteq> co_leader co"
  shows "\<exists>s'. run (coord_step co) (DecodedFile s) cs = DecodedFile s' \<and> ts_plans s' = ts_plans s"
  using plans_kept_run [OF assms(2,3,1)] by blast

theorem only_leader_decides_plans_witness:
  "\<exists>s'. run (coord_step \<lparr>co_leader = ''lead'', co_max = 0, co_graph = True\<rparr>) (DecodedFile claimedStore)
      [\<lparr>cc_io = io_ok, cc_done = False, cc_now = 60,
        cc_op = CoApprove \<lparr>pe_plan = ''p'', pe_actor = ''x'', pe_approve = True, pe_reason = []\<rparr>\<rparr>]
      = DecodedFile s' \<and> ts_plans s' = ts_plans claimedStore"
  by (rule only_leader_decides_plans [OF claimedStore_ok]) auto

end
