(* ===== verification/Steering.thy ===== *)
theory Steering
  imports Machines
begin

text \<open>
  Model of \<open>pkg/steering/steering.go\<close>: the steering marker of a chat message, the lane keys,
  the inbox that parks messages for running turns, and the rendering of a parked message. The
  content parts of a message belong to the messaging specification, so reading and building a
  text part are parameters.
\<close>

section \<open>Messages\<close>

record message_address =
  ma_tenant :: string
  ma_user :: string
  ma_ownership :: string
  ma_workspace :: string
  ma_thread :: string
  ma_task :: string

datatype role = RoleSystem | RoleUser | RoleAssistant | RoleTool | RoleOther string

text \<open>\<open>cm_meta\<close> is the map of raw JSON values, \<open>None\<close> the nil map.\<close>

record 'p chat_message =
  cm_role :: role
  cm_addr :: message_address
  cm_content :: "'p list"
  cm_meta :: "(string \<times> string) list option"

definition MetaKey :: string where "MetaKey = ''steering''"
definition OpenTag :: string where "OpenTag = ''[user_steering]''"
definition CloseTag :: string where "CloseTag = ''[/user_steering]''"

definition metaLookup :: "'p chat_message \<Rightarrow> string \<Rightarrow> string option" where
  "metaLookup m k = (case cm_meta m of None \<Rightarrow> None | Some meta \<Rightarrow> map_of meta k)"

text \<open>
  \<open>json.Unmarshal\<close> of a raw value into a \<open>bool\<close>: only \<open>true\<close>, surrounded by JSON
  white space, sets it; \<open>false\<close> and \<open>null\<close> leave it false and everything else is an
  error, which the callers read as false.
\<close>

definition json_true :: "string \<Rightarrow> bool" where
  "json_true raw \<longleftrightarrow>
     rev (dropWhile json_space (rev (dropWhile json_space raw))) = ''true''"

definition markedBy :: "string \<Rightarrow> 'p chat_message \<Rightarrow> bool" where
  "markedBy key m = (case metaLookup m key of None \<Rightarrow> False | Some raw \<Rightarrow> json_true raw)"

definition markWith :: "string \<Rightarrow> 'p chat_message \<Rightarrow> 'p chat_message" where
  "markWith key m =
     (if markedBy key m then m
      else let meta = (case cm_meta m of None \<Rightarrow> [] | Some meta \<Rightarrow> meta)
           in m\<lparr>cm_meta := Some (AList.update key ''true'' meta)\<rparr>)"

definition isRequested :: "'p chat_message \<Rightarrow> bool" where
  "isRequested m = markedBy MetaKey m"

definition mark :: "'p chat_message \<Rightarrow> 'p chat_message" where
  "mark m = markWith MetaKey m"

definition unmark :: "'p chat_message \<Rightarrow> 'p chat_message" where
  "unmark m =
     (case cm_meta m of
        None \<Rightarrow> m
      | Some meta \<Rightarrow> m\<lparr>cm_meta := Some (filter (\<lambda>(k, v). k \<noteq> MetaKey) meta)\<rparr>)"

section \<open>Lane keys\<close>

definition laneKey :: "string \<Rightarrow> string \<Rightarrow> string" where
  "laneKey workspace thread = decimal (length workspace) @ '':'' @ workspace @ thread"

definition trim_prefix :: "string \<Rightarrow> string \<Rightarrow> string" where
  "trim_prefix p s = (if prefix p s then drop (length p) s else s)"

definition legacyAddress :: "message_address \<Rightarrow> bool" where
  "legacyAddress a \<longleftrightarrow> ma_tenant a = [] \<and> ma_user a = [] \<and> ma_ownership a = []"

definition addressKey :: "message_address \<Rightarrow> string" where
  "addressKey a =
     (if legacyAddress a then laneKey (ma_workspace a) (ma_thread a)
      else let ownership = (if ma_ownership a = [] then ''user'' else ma_ownership a)
           in laneKey (ma_tenant a) (laneKey (trim_prefix ''user:'' (ma_user a))
                (laneKey ownership (laneKey (ma_workspace a) (ma_thread a)))))"

definition conversationKey :: "message_address \<Rightarrow> string" where
  "conversationKey a =
     addressKey (if ma_ownership a = ''workspace'' then a\<lparr>ma_user := []\<rparr> else a)"

lemma decimal_value: "foldl (\<lambda>a c. 10 * a + (of_char c - 48)) 0 (decimal n) = (n :: nat)"
proof (induction n rule: decimal.induct)
  case (1 n)
  show ?case
  proof (cases "n < 10")
    case True
    then show ?thesis by (simp add: decimal.simps [of n])
  next
    case False
    with 1 show ?thesis by (subst decimal.simps) simp
  qed
qed

lemma decimal_inj: "decimal m = decimal n \<Longrightarrow> m = n"
  by (metis decimal_value)

lemma takeWhile_decimal: "takeWhile (\<lambda>c. c \<noteq> CHR '':'') (decimal n @ CHR '':'' # x) = decimal n"
  by (subst takeWhile_append2) (auto dest: decimal_digits)

text \<open>The length prefix makes the concatenation unambiguous.\<close>

lemma laneKey_inj: "laneKey w t = laneKey w' t' \<longleftrightarrow> w = w' \<and> t = t'"
proof
  assume eq: "laneKey w t = laneKey w' t'"
  then have "decimal (length w) = decimal (length w')"
    using takeWhile_decimal [of "length w" "w @ t"] takeWhile_decimal [of "length w'" "w' @ t'"]
    by (simp add: laneKey_def)
  moreover from this have "length w = length w'" by (rule decimal_inj)
  ultimately show "w = w' \<and> t = t'" using eq by (simp add: laneKey_def)
qed simp

section \<open>The inbox\<close>

text \<open>
  An entry of the Go map is a pointer, and the close function of a turn compares pointers. The
  heap of entries is a list; the address of an entry is its position, and \<open>Begin\<close> allocates.
\<close>

record 'm inbox =
  ib_active :: "(string \<times> nat) list"
  ib_parked :: "'m list list"

definition newInbox :: "'m inbox" where
  "newInbox = \<lparr>ib_active = [], ib_parked = []\<rparr>"

text \<open>The close function a turn got is the key and address it captured; \<open>None\<close> returns nothing.\<close>

type_synonym closer = "(string \<times> nat) option"

definition beginTurn :: "string \<Rightarrow> 'm inbox \<Rightarrow> 'm inbox \<times> closer" where
  "beginTurn k ib =
     (if k = [] then (ib, None)
      else let mine = length (ib_parked ib)
           in (ib\<lparr>ib_active := AList.update k mine (ib_active ib), ib_parked := ib_parked ib @ [[]]\<rparr>,
               Some (k, mine)))"

definition closeTurn :: "closer \<Rightarrow> 'm inbox \<Rightarrow> 'm inbox \<times> 'm list" where
  "closeTurn c ib =
     (case c of
        None \<Rightarrow> (ib, [])
      | Some (k, mine) \<Rightarrow>
          let ib1 = (if map_of (ib_active ib) k = Some mine
                     then ib\<lparr>ib_active := AList.delete k (ib_active ib)\<rparr> else ib)
          in (ib1\<lparr>ib_parked := (ib_parked ib1)[mine := []]\<rparr>, ib_parked ib1 ! mine))"

definition park :: "string \<Rightarrow> 'm \<Rightarrow> 'm inbox \<Rightarrow> 'm inbox \<times> bool" where
  "park k m ib =
     (if k = [] then (ib, False)
      else case map_of (ib_active ib) k of
        None \<Rightarrow> (ib, False)
      | Some n \<Rightarrow> (ib\<lparr>ib_parked := (ib_parked ib)[n := ib_parked ib ! n @ [m]]\<rparr>, True))"

definition drain :: "string \<Rightarrow> 'm inbox \<Rightarrow> 'm inbox \<times> 'm list" where
  "drain k ib =
     (if k = [] then (ib, [])
      else case map_of (ib_active ib) k of
        None \<Rightarrow> (ib, [])
      | Some n \<Rightarrow> (ib\<lparr>ib_parked := (ib_parked ib)[n := []]\<rparr>, ib_parked ib ! n))"

section \<open>Delivery\<close>

text \<open>The text parts joined by line breaks, and the other parts in order.\<close>

fun gatherText :: "('p \<Rightarrow> string option) \<Rightarrow> 'p list \<Rightarrow> string \<Rightarrow> 'p list \<Rightarrow> string \<times> 'p list" where
  "gatherText asText [] text extra = (text, extra)"
| "gatherText asText (p # ps) text extra =
     (case asText p of
        None \<Rightarrow> gatherText asText ps text (extra @ [p])
      | Some t \<Rightarrow> gatherText asText ps ((if text \<noteq> [] then text @ [CHR 0x0A] else text) @ t) extra)"

definition deliver ::
  "('p \<Rightarrow> string option) \<Rightarrow> (string \<Rightarrow> 'p) \<Rightarrow> message_address \<Rightarrow> 'p chat_message \<Rightarrow> 'p chat_message"
where
  "deliver asText newText addr m =
     (let (text, extra) = gatherText asText (cm_content m) [] [];
          block = newText (OpenTag @ [CHR 0x0A] @ text @ [CHR 0x0A] @ CloseTag)
      in unmark (m\<lparr>cm_role := RoleUser, cm_addr := addr, cm_content := block # extra\<rparr>))"

section \<open>Runs of the inbox\<close>

text \<open>
  Calls on one inbox in the order its mutex admits them. \<open>Close i\<close> calls the close function
  that the \<open>i\<close>-th successful \<open>Begin\<close> returned. Each call leaves an event: what was
  accepted for which entry, and what was handed back from which entry.
\<close>

datatype 'm inbox_op = Begin string | Close nat | Park string 'm | Drain string

datatype 'm inbox_event =
    Began nat
  | Accepted nat string 'm
  | Refused 'm
  | Delivered nat "'m list"
  | Closed nat "'m list"
  | Nothing

record 'm inbox_world =
  iw_inbox :: "'m inbox"
  iw_lanes :: "string list"
  iw_trace :: "'m inbox_event list"

definition newWorld :: "'m inbox_world" where
  "newWorld = \<lparr>iw_inbox = newInbox, iw_lanes = [], iw_trace = []\<rparr>"

fun inbox_step :: "'m inbox_op \<Rightarrow> 'm inbox_world \<Rightarrow> 'm inbox_world" where
  "inbox_step (Begin k) w =
     (case beginTurn k (iw_inbox w) of
        (ib, None) \<Rightarrow> w\<lparr>iw_inbox := ib, iw_trace := iw_trace w @ [Nothing]\<rparr>
      | (ib, Some (k', n)) \<Rightarrow> w\<lparr>iw_inbox := ib, iw_lanes := iw_lanes w @ [k'],
                               iw_trace := iw_trace w @ [Began n]\<rparr>)"
| "inbox_step (Close i) w =
     (if i < length (iw_lanes w)
      then case closeTurn (Some (iw_lanes w ! i, i)) (iw_inbox w) of
        (ib, ms) \<Rightarrow> w\<lparr>iw_inbox := ib, iw_trace := iw_trace w @ [Closed i ms]\<rparr>
      else w\<lparr>iw_trace := iw_trace w @ [Nothing]\<rparr>)"
| "inbox_step (Park k m) w =
     (case park k m (iw_inbox w) of
        (ib, ok) \<Rightarrow> w\<lparr>iw_inbox := ib, iw_trace := iw_trace w @
           [if ok then Accepted (the (map_of (ib_active (iw_inbox w)) k)) k m else Refused m]\<rparr>)"
| "inbox_step (Drain k) w =
     (case drain k (iw_inbox w) of
        (ib, ms) \<Rightarrow> w\<lparr>iw_inbox := ib, iw_trace := iw_trace w @
           [case map_of (ib_active (iw_inbox w)) k of
              None \<Rightarrow> Nothing | Some n \<Rightarrow> if k = [] then Nothing else Delivered n ms]\<rparr>)"

text \<open>What a trace says was accepted for an entry, and what was handed back from it.\<close>

fun accepted :: "nat \<Rightarrow> 'm inbox_event list \<Rightarrow> 'm list" where
  "accepted n [] = []"
| "accepted n (e # es) = (case e of Accepted n' k m \<Rightarrow> if n' = n then [m] else [] | _ \<Rightarrow> []) @ accepted n es"

fun handedBack :: "nat \<Rightarrow> 'm inbox_event list \<Rightarrow> 'm list" where
  "handedBack n [] = []"
| "handedBack n (e # es) =
     (case e of Delivered n' ms \<Rightarrow> if n' = n then ms else []
      | Closed n' ms \<Rightarrow> if n' = n then ms else [] | _ \<Rightarrow> []) @ handedBack n es"

definition wasClosed :: "nat \<Rightarrow> 'm inbox_event list \<Rightarrow> bool" where
  "wasClosed n tr = list_ex (\<lambda>e. case e of Closed n' ms \<Rightarrow> n' = n | _ \<Rightarrow> False) tr"

lemma accepted_append [simp]: "accepted n (xs @ ys) = accepted n xs @ accepted n ys"
  by (induction xs) auto

lemma handedBack_append [simp]: "handedBack n (xs @ ys) = handedBack n xs @ handedBack n ys"
  by (induction xs) auto

lemma wasClosed_append [simp]: "wasClosed n (xs @ ys) \<longleftrightarrow> wasClosed n xs \<or> wasClosed n ys"
  by (simp add: wasClosed_def)

lemma wasClosed_single [simp]:
  "wasClosed n [Closed i ms] \<longleftrightarrow> i = n" "\<not> wasClosed n [Began i]" "\<not> wasClosed n [Refused m]"
  "\<not> wasClosed n [Accepted i k m]" "\<not> wasClosed n [Delivered i ms]" "\<not> wasClosed n [Nothing]"
  by (auto simp: wasClosed_def)

text \<open>The messages waiting in an entry; an address that was never allocated holds none.\<close>

definition waiting :: "nat \<Rightarrow> 'm inbox \<Rightarrow> 'm list" where
  "waiting n ib = (if n < length (ib_parked ib) then ib_parked ib ! n else [])"

text \<open>
  Every accepted message was handed back or waits, in the order it was accepted; the lane map
  points to open turns of that lane; a closed turn holds nothing.
\<close>

definition worldOk :: "'m inbox_world \<Rightarrow> bool" where
  "worldOk w \<longleftrightarrow>
     length (iw_lanes w) = length (ib_parked (iw_inbox w)) \<and>
     distinct (map fst (ib_active (iw_inbox w))) \<and>
     (\<forall>k n. map_of (ib_active (iw_inbox w)) k = Some n \<longrightarrow>
        n < length (ib_parked (iw_inbox w)) \<and> iw_lanes w ! n = k \<and> k \<noteq> [] \<and> \<not> wasClosed n (iw_trace w)) \<and>
     (\<forall>n. accepted n (iw_trace w) = handedBack n (iw_trace w) @ waiting n (iw_inbox w)) \<and>
     (\<forall>n. wasClosed n (iw_trace w) \<longrightarrow> n < length (ib_parked (iw_inbox w)) \<and> waiting n (iw_inbox w) = []) \<and>
     (\<forall>n k m. Accepted n k m \<in> set (iw_trace w) \<longrightarrow> n < length (ib_parked (iw_inbox w)) \<and> iw_lanes w ! n = k)"

lemma worldOk_new: "worldOk newWorld"
  by (simp add: worldOk_def newWorld_def newInbox_def waiting_def wasClosed_def)

lemma worldOk_quiet:
  assumes "worldOk w" "e = Nothing \<or> e = Refused m"
  shows "worldOk (w\<lparr>iw_trace := iw_trace w @ [e]\<rparr>)"
  using assms by (elim disjE) (simp_all add: worldOk_def)

lemma waiting_update:
  "waiting j (ib\<lparr>ib_parked := (ib_parked ib)[n := ms]\<rparr>) =
     (if j = n \<and> n < length (ib_parked ib) then ms else waiting j ib)"
  by (simp add: waiting_def)

lemma waiting_active [simp]: "waiting j (ib\<lparr>ib_active := a\<rparr>) = waiting j ib"
  by (simp add: waiting_def)

lemma worldOk_begin: "worldOk w \<Longrightarrow> worldOk (inbox_step (Begin k) w)"
proof (cases "k = []")
  case True
  then show "worldOk w \<Longrightarrow> ?thesis" by (simp add: beginTurn_def worldOk_quiet)
next
  case False
  assume ok: "worldOk w"
  let ?n = "length (ib_parked (iw_inbox w))"
  have "waiting j (iw_inbox w\<lparr>ib_active := a, ib_parked := ib_parked (iw_inbox w) @ [[]]\<rparr>) =
      waiting j (iw_inbox w)" for j a
    by (auto simp: waiting_def nth_append)
  moreover have "\<not> wasClosed ?n (iw_trace w)" using ok by (auto simp: worldOk_def)
  moreover have "n < Suc ?n \<and> n \<noteq> ?n" if "Accepted n k' m \<in> set (iw_trace w)" for n k' m
    using ok that unfolding worldOk_def by (metis less_SucI nat_neq_iff)
  ultimately show ?thesis using ok False
    by (auto simp: worldOk_def beginTurn_def Let_def distinct_update nth_append intro: less_SucI)
qed

lemma worldOk_close:
  assumes ok: "worldOk w"
  shows "worldOk (inbox_step (Close i) w)"
proof (cases "i < length (iw_lanes w)")
  case True
  define act where "act = ib_active (iw_inbox w)"
  define a where "a = (if map_of act (iw_lanes w ! i) = Some i then AList.delete (iw_lanes w ! i) act else act)"
  have i: "i < length (ib_parked (iw_inbox w))" using True ok by (simp add: worldOk_def)
  have step: "inbox_step (Close i) w =
      w\<lparr>iw_inbox := iw_inbox w\<lparr>ib_active := a, ib_parked := (ib_parked (iw_inbox w))[i := []]\<rparr>,
        iw_trace := iw_trace w @ [Closed i (waiting i (iw_inbox w))]\<rparr>"
    using True i by (simp add: closeTurn_def waiting_def a_def act_def Let_def)
  have lane: "iw_lanes w ! n = k \<and> n < length (ib_parked (iw_inbox w)) \<and> k \<noteq> [] \<and>
      \<not> wasClosed n (iw_trace w)" if "map_of act k = Some n" for k n
    using that ok by (simp add: worldOk_def act_def)
  have sub: "map_of act k = Some n \<and> n \<noteq> i" if "map_of a k = Some n" for k n
  proof -
    from that have k: "map_of act k = Some n" by (auto simp: a_def split: if_splits)
    moreover have "n \<noteq> i"
    proof
      assume "n = i"
      with lane [OF k] have "iw_lanes w ! i = k" by simp
      with that k \<open>n = i\<close> show False by (simp add: a_def)
    qed
    ultimately show ?thesis ..
  qed
  have "distinct (map fst act)" using ok unfolding worldOk_def act_def by blast
  then have "distinct (map fst a)" by (simp add: distinct_delete a_def)
  moreover have "\<forall>k n. map_of a k = Some n \<longrightarrow> n < length (ib_parked (iw_inbox w)) \<and> iw_lanes w ! n = k \<and>
      k \<noteq> [] \<and> \<not> wasClosed n (iw_trace w @ [Closed i (waiting i (iw_inbox w))])"
    using sub lane by fastforce
  moreover have "waiting j (iw_inbox w\<lparr>ib_active := a, ib_parked := (ib_parked (iw_inbox w))[i := []]\<rparr>) =
      (if j = i then [] else waiting j (iw_inbox w))" for j
    using i by (simp add: waiting_def)
  ultimately show ?thesis unfolding step using ok i by (simp add: worldOk_def)
next
  case False
  with ok show ?thesis by (simp add: worldOk_quiet)
qed

lemma worldOk_park:
  assumes ok: "worldOk w"
  shows "worldOk (inbox_step (Park k m) w)"
proof (cases "map_of (ib_active (iw_inbox w)) k")
  case None
  with ok show ?thesis by (simp add: park_def worldOk_quiet)
next
  case (Some n)
  with ok have n: "n < length (ib_parked (iw_inbox w))" "iw_lanes w ! n = k" "k \<noteq> []"
    "\<not> wasClosed n (iw_trace w)" by (auto simp: worldOk_def)
  with Some have step: "inbox_step (Park k m) w =
      w\<lparr>iw_inbox := iw_inbox w\<lparr>ib_parked := (ib_parked (iw_inbox w))[n := waiting n (iw_inbox w) @ [m]]\<rparr>,
        iw_trace := iw_trace w @ [Accepted n k m]\<rparr>"
    by (simp add: park_def waiting_def)
  show ?thesis unfolding step using ok n
    by (auto simp: worldOk_def waiting_update)
qed

lemma worldOk_drain:
  assumes ok: "worldOk w"
  shows "worldOk (inbox_step (Drain k) w)"
proof (cases "map_of (ib_active (iw_inbox w)) k")
  case None
  with ok show ?thesis by (simp add: drain_def worldOk_quiet)
next
  case (Some n)
  with ok have n: "n < length (ib_parked (iw_inbox w))" "k \<noteq> []" "\<not> wasClosed n (iw_trace w)"
    by (auto simp: worldOk_def)
  with Some have step: "inbox_step (Drain k) w =
      w\<lparr>iw_inbox := iw_inbox w\<lparr>ib_parked := (ib_parked (iw_inbox w))[n := []]\<rparr>,
        iw_trace := iw_trace w @ [Delivered n (waiting n (iw_inbox w))]\<rparr>"
    by (simp add: drain_def waiting_def)
  show ?thesis unfolding step using ok n by (simp add: worldOk_def waiting_update)
qed

lemma worldOk_step: "worldOk w \<Longrightarrow> worldOk (inbox_step x w)"
  by (cases x) (simp_all only: worldOk_begin worldOk_close worldOk_park worldOk_drain)

interpretation inbox_store: store_machine newWorld inbox_step worldOk
  by unfold_locales (auto intro: worldOk_new worldOk_step)

section \<open>Lane identity and markers\<close>

text \<open>What an address's lane should depend on.\<close>

definition laneIdentity :: "message_address \<Rightarrow> string list" where
  "laneIdentity a =
     (if legacyAddress a then [ma_workspace a, ma_thread a]
      else [ma_tenant a, trim_prefix ''user:'' (ma_user a),
            (if ma_ownership a = [] then ''user'' else ma_ownership a), ma_workspace a, ma_thread a])"

lemma json_true_literal: "json_true ''true''"
  by (simp add: json_true_def json_space_def)

lemma markedBy_markWith: "markedBy k (markWith k m)"
  by (auto simp: markedBy_def markWith_def metaLookup_def Let_def json_true_literal split: option.split)

lemma map_of_filter_key: "map_of (filter (\<lambda>(k, v). k \<noteq> x) m) y = (if y = x then None else map_of m y)"
  by (induction m) auto

lemma isRequested_unmark: "\<not> isRequested (unmark m)"
  by (cases "cm_meta m")
    (auto simp: isRequested_def unmark_def markedBy_def metaLookup_def map_of_filter_key)

lemma unmark_simps [simp]:
  "cm_content (unmark m) = cm_content m" "cm_role (unmark m) = cm_role m" "cm_addr (unmark m) = cm_addr m"
  by (simp_all add: unmark_def split: option.split)

lemma gatherText_extra:
  "snd (gatherText asText ps body extra) = extra @ filter (\<lambda>p. asText p = None) ps"
  by (induction ps arbitrary: body extra) (auto split: option.split)

section \<open>Properties\<close>

text \<open>
  C37: no accepted steering message is lost, duplicated or reordered: in every sequence of calls,
  what \<open>Park\<close> accepted for a turn is exactly what \<open>Drain\<close> and the turn's close function
  handed back, in order, followed by what still waits; a turn whose close function ran holds
  nothing; and a message is accepted only for a turn of its own lane.
\<close>

theorem steering_conserves_messages:
  "let w = run inbox_step newWorld ops in
     accepted n (iw_trace w) = handedBack n (iw_trace w) @ waiting n (iw_inbox w) \<and>
     (wasClosed n (iw_trace w) \<longrightarrow> accepted n (iw_trace w) = handedBack n (iw_trace w)) \<and>
     (\<forall>k m. Accepted n k m \<in> set (iw_trace w) \<longrightarrow> iw_lanes w ! n = k)"
  using inbox_store.reachable_inv [of ops] by (auto simp: worldOk_def Let_def)

theorem steering_conserves_messages_witness:
  "let w = run inbox_step newWorld [Begin ''k'', Park ''k'' (1 :: nat), Drain ''k'', Park ''k'' 2, Close 0, Park ''k'' 3] in
     accepted 0 (iw_trace w) = handedBack 0 (iw_trace w) \<and> handedBack 0 (iw_trace w) = [1, 2]"
proof -
  let ?w = "run inbox_step newWorld [Begin ''k'', Park ''k'' (1 :: nat), Drain ''k'', Park ''k'' 2, Close 0, Park ''k'' 3]"
  have "wasClosed 0 (iw_trace ?w)" "handedBack 0 (iw_trace ?w) = [1, 2]" by code_simp+
  with steering_conserves_messages [of "[Begin ''k'', Park ''k'' (1 :: nat), Drain ''k'', Park ''k'' 2, Close 0, Park ''k'' 3]" 0]
  show ?thesis unfolding Let_def by blast
qed

text \<open>
  Two addresses of the same form (both without tenant, user and ownership, or both with some)
  share a steering lane exactly when they name the same tenant, the same user up to the
  \<open>user:\<close> prefix, the same ownership up to its default, the same workspace and the same
  thread: no choice of opaque ids merges two lanes.
\<close>

theorem lanes_are_separate:
  "legacyAddress a = legacyAddress b \<Longrightarrow> addressKey a = addressKey b \<longleftrightarrow> laneIdentity a = laneIdentity b"
  by (auto simp: addressKey_def laneIdentity_def Let_def laneKey_inj)

theorem lanes_are_separate_witness:
  "addressKey \<lparr>ma_tenant = [], ma_user = ''user:bob'', ma_ownership = [], ma_workspace = ''w'',
       ma_thread = ''t'', ma_task = []\<rparr> =
   addressKey \<lparr>ma_tenant = [], ma_user = ''bob'', ma_ownership = ''user'', ma_workspace = ''w'',
       ma_thread = ''t'', ma_task = ''x''\<rparr>"
  by (subst lanes_are_separate) (simp_all add: legacyAddress_def laneIdentity_def trim_prefix_def)

text \<open>
  A delivered message is a user message at the running turn's address whose first part is one
  text block wrapped whole in the steering tags, whose other parts are the non-text parts of the
  original in order, and which is no longer marked, so a replay cannot park it again; marking
  always marks and unmarking always unmarks.
\<close>

theorem deliver_wraps_and_unmarks:
  assumes "\<And>t. asText (newText t) = Some t"
  shows "(\<exists>text. cm_content (deliver asText newText addr m) =
            newText (OpenTag @ [CHR 0x0A] @ text @ [CHR 0x0A] @ CloseTag) #
              filter (\<lambda>p. asText p = None) (cm_content m)) \<and>
         filter (\<lambda>p. asText p = None) (cm_content (deliver asText newText addr m)) =
           filter (\<lambda>p. asText p = None) (cm_content m) \<and>
         cm_role (deliver asText newText addr m) = RoleUser \<and>
         cm_addr (deliver asText newText addr m) = addr \<and>
         \<not> isRequested (deliver asText newText addr m) \<and>
         isRequested (mark m) \<and> \<not> isRequested (unmark m)"
proof -
  obtain body extra where g: "gatherText asText (cm_content m) [] [] = (body, extra)" by fastforce
  have "extra = filter (\<lambda>p. asText p = None) (cm_content m)"
    using gatherText_extra [of asText "cm_content m" "[]" "[]"] g by simp
  then show ?thesis
    using g assms markedBy_markWith [of MetaKey m] isRequested_unmark
    by (auto simp: deliver_def Let_def isRequested_def mark_def)
qed

theorem deliver_wraps_and_unmarks_witness:
  "cm_content (deliver Some id \<lparr>ma_tenant = [], ma_user = [], ma_ownership = [], ma_workspace = ''w'',
       ma_thread = ''t'', ma_task = []\<rparr>
     \<lparr>cm_role = RoleTool, cm_addr = undefined, cm_content = [''stop''], cm_meta = None\<rparr>) \<noteq> [] \<and>
   \<not> isRequested (deliver Some id \<lparr>ma_tenant = [], ma_user = [], ma_ownership = [], ma_workspace = ''w'',
       ma_thread = ''t'', ma_task = []\<rparr>
     \<lparr>cm_role = RoleTool, cm_addr = undefined, cm_content = [''stop''], cm_meta = None\<rparr>)"
  using deliver_wraps_and_unmarks [of Some id "\<lparr>ma_tenant = [], ma_user = [], ma_ownership = [],
      ma_workspace = ''w'', ma_thread = ''t'', ma_task = []\<rparr>"
    "\<lparr>cm_role = RoleTool, cm_addr = undefined, cm_content = [''stop''], cm_meta = None\<rparr>"]
  by auto

text \<open>
  The legacy key and the full key are not kept apart: an address without tenant, user and
  ownership whose workspace is another caller's tenant id and whose thread spells out the rest of
  that caller's key has that caller's lane.
\<close>

theorem legacy_lane_can_collide:
  "addressKey \<lparr>ma_tenant = [], ma_user = [], ma_ownership = [], ma_workspace = ''acme'',
       ma_thread = laneKey ''bob'' (laneKey ''user'' (laneKey ''w'' ''t'')), ma_task = []\<rparr> =
   addressKey \<lparr>ma_tenant = ''acme'', ma_user = ''user:bob'', ma_ownership = [],
       ma_workspace = ''w'', ma_thread = ''t'', ma_task = []\<rparr>"
  by (simp add: addressKey_def legacyAddress_def trim_prefix_def)

end
