(* ===== verification/TurnRegistries.thy ===== *)
theory TurnRegistries
  imports Steering
begin

text \<open>
  The small registries around a running turn: \<open>pkg/turncancel\<close> (cancel functions by task),
  \<open>pkg/approval\<close> (waiters for a human decision) and \<open>pkg/tasklifecycle\<close> (claim and
  terminal transition of the authoritative task around a turn). Calls on the first two are
  atomic steps, as their mutexes make them; the parts of \<open>Await\<close> that run outside the lock
  are separate steps, so every interleaving is a list of steps.
\<close>

section \<open>Canceller\<close>

text \<open>Cancel functions are allocated in order; the model records which ones were called.\<close>

record canceller =
  tc_active :: "(string \<times> nat) list"
  tc_cancelled :: "bool list"

definition newCanceller :: canceller where
  "newCanceller = \<lparr>tc_active = [], tc_cancelled = []\<rparr>"

definition callCancel :: "nat \<Rightarrow> canceller \<Rightarrow> canceller" where
  "callCancel n c = c\<lparr>tc_cancelled := (tc_cancelled c)[n := True]\<rparr>"

text \<open>\<open>Begin\<close> returns the context's cancel function, captured by the done function.\<close>

definition cancelBegin :: "string \<Rightarrow> canceller \<Rightarrow> canceller \<times> (string \<times> nat) option" where
  "cancelBegin t c =
     (if t = [] then (c, None)
      else
        let n = length (tc_cancelled c);
            c0 = c\<lparr>tc_cancelled := tc_cancelled c @ [False]\<rparr>;
            c1 = (case map_of (tc_active c0) t of None \<Rightarrow> c0 | Some prev \<Rightarrow> callCancel prev c0)
        in (c1\<lparr>tc_active := AList.update t n (tc_active c1)\<rparr>, Some (t, n)))"

definition cancelDone :: "string \<times> nat \<Rightarrow> canceller \<Rightarrow> canceller" where
  "cancelDone h c =
     (case h of (t, n) \<Rightarrow>
        let c1 = (if map_of (tc_active c) t \<noteq> None
                  then c\<lparr>tc_active := AList.delete t (tc_active c)\<rparr> else c)
        in callCancel n c1)"

definition cancelTurn :: "string \<Rightarrow> canceller \<Rightarrow> canceller \<times> bool" where
  "cancelTurn t c =
     (if t = [] then (c, False)
      else case map_of (tc_active c) t of
        None \<Rightarrow> (c, False)
      | Some n \<Rightarrow> (callCancel n c, True))"

lemma nth_set_True: "i < length xs \<Longrightarrow> xs[n := True] ! i \<longleftrightarrow> i = n \<or> xs ! i"
  by (cases "i = n") simp_all

text \<open>A turn is a handle from \<open>Begin\<close> with whether its done function ran.\<close>

datatype cancel_op = TurnBegin string | TurnDone nat | TurnCancel string

record cancel_world =
  cw_reg :: canceller
  cw_tasks :: "string list"
  cw_done :: "bool list"

definition newCancelWorld :: cancel_world where
  "newCancelWorld = \<lparr>cw_reg = newCanceller, cw_tasks = [], cw_done = []\<rparr>"

fun cancel_step :: "cancel_op \<Rightarrow> cancel_world \<Rightarrow> cancel_world" where
  "cancel_step (TurnBegin t) w =
     (case cancelBegin t (cw_reg w) of
        (c, None) \<Rightarrow> w
      | (c, Some (t', n)) \<Rightarrow> w\<lparr>cw_reg := c, cw_tasks := cw_tasks w @ [t'], cw_done := cw_done w @ [False]\<rparr>)"
| "cancel_step (TurnDone i) w =
     (if i < length (cw_tasks w)
      then w\<lparr>cw_reg := cancelDone (cw_tasks w ! i, i) (cw_reg w), cw_done := (cw_done w)[i := True]\<rparr>
      else w)"
| "cancel_step (TurnCancel t) w = w\<lparr>cw_reg := fst (cancelTurn t (cw_reg w))\<rparr>"

text \<open>A turn is live when its done function has not run and nobody cancelled it.\<close>

definition liveTurn :: "cancel_world \<Rightarrow> nat \<Rightarrow> bool" where
  "liveTurn w i \<longleftrightarrow> i < length (cw_tasks w) \<and> \<not> cw_done w ! i \<and> \<not> tc_cancelled (cw_reg w) ! i"

definition registered :: "cancel_world \<Rightarrow> nat \<Rightarrow> bool" where
  "registered w i \<longleftrightarrow> map_of (tc_active (cw_reg w)) (cw_tasks w ! i) = Some i"

definition cancelWorldOk :: "cancel_world \<Rightarrow> bool" where
  "cancelWorldOk w \<longleftrightarrow>
     length (tc_cancelled (cw_reg w)) = length (cw_tasks w) \<and> length (cw_done w) = length (cw_tasks w) \<and>
     (\<forall>t n. map_of (tc_active (cw_reg w)) t = Some n \<longrightarrow> n < length (cw_tasks w) \<and> cw_tasks w ! n = t) \<and>
     (\<forall>i < length (cw_tasks w). cw_tasks w ! i \<noteq> []) \<and>
     (\<forall>i < length (cw_tasks w). cw_done w ! i \<longrightarrow> tc_cancelled (cw_reg w) ! i)"

lemma cancelWorldOk_new: "cancelWorldOk newCancelWorld"
  by (simp add: cancelWorldOk_def newCancelWorld_def newCanceller_def)

lemma cancelWorldOk_step: "cancelWorldOk w \<Longrightarrow> cancelWorldOk (cancel_step x w)"
proof (cases x)
  case (TurnBegin t)
  assume ok: "cancelWorldOk w"
  show ?thesis
  proof (cases "t = []")
    case True
    with ok TurnBegin show ?thesis by (simp add: cancelBegin_def)
  next
    case False
    with ok TurnBegin show ?thesis
      by (auto simp: cancelWorldOk_def cancelBegin_def callCancel_def Let_def nth_append
          nth_list_update less_Suc_eq split: option.splits)
  qed
next
  case (TurnDone i)
  assume "cancelWorldOk w"
  with TurnDone show ?thesis
    by (auto simp: cancelWorldOk_def cancelDone_def callCancel_def Let_def nth_list_update
        split: if_splits)
next
  case (TurnCancel t)
  assume "cancelWorldOk w"
  with TurnCancel show ?thesis
    by (auto simp: cancelWorldOk_def cancelTurn_def callCancel_def nth_list_update
        split: if_splits option.splits)
qed

interpretation cancel_store: store_machine newCancelWorld cancel_step cancelWorldOk
  by unfold_locales (auto intro: cancelWorldOk_new cancelWorldOk_step)

text \<open>
  The discipline the package needs: a done function runs while its own turn, or none, is
  registered for the task.
\<close>

fun wellTimed :: "cancel_world \<Rightarrow> cancel_op list \<Rightarrow> bool" where
  "wellTimed w [] = True"
| "wellTimed w (x # xs) =
     ((case x of TurnDone i \<Rightarrow> i < length (cw_tasks w) \<longrightarrow>
          (case map_of (tc_active (cw_reg w)) (cw_tasks w ! i) of None \<Rightarrow> True | Some n \<Rightarrow> n = i)
       | _ \<Rightarrow> True) \<and> wellTimed (cancel_step x w) xs)"

definition liveRegistered :: "cancel_world \<Rightarrow> bool" where
  "liveRegistered w \<longleftrightarrow> cancelWorldOk w \<and> (\<forall>i. liveTurn w i \<longrightarrow> registered w i)"

lemma liveRegistered_step:
  assumes "liveRegistered w" "wellTimed w (x # xs)"
  shows "liveRegistered (cancel_step x w)"
proof -
  have ok: "cancelWorldOk w" using assms(1) by (simp add: liveRegistered_def)
  have ok': "cancelWorldOk (cancel_step x w)" by (rule cancelWorldOk_step [OF ok])
  have live: "registered w i" if "liveTurn w i" for i using assms(1) that by (simp add: liveRegistered_def)
  have "registered (cancel_step x w) i" if l: "liveTurn (cancel_step x w) i" for i
  proof (cases x)
    case (TurnBegin t)
    show ?thesis
    proof (cases "t = []")
      case True
      with l live TurnBegin show ?thesis by (simp add: cancelBegin_def)
    next
      case False
      show ?thesis
      proof (cases "i = length (cw_tasks w)")
        case True
        with ok TurnBegin False show ?thesis
          by (auto simp: registered_def cancelBegin_def callCancel_def Let_def cancelWorldOk_def
              split: option.splits)
      next
        case neq: False
        have i: "i < length (cw_tasks w)" and l': "liveTurn w i"
          using l ok TurnBegin False neq
          by (auto simp: liveTurn_def cancelBegin_def callCancel_def Let_def cancelWorldOk_def
              nth_append nth_set_True split: option.splits if_splits)
        have "cw_tasks w ! i \<noteq> t"
        proof
          assume "cw_tasks w ! i = t"
          with live [OF l'] have "map_of (tc_active (cw_reg w)) t = Some i" by (simp add: registered_def)
          with l TurnBegin False i ok show False
            by (simp add: liveTurn_def cancelBegin_def callCancel_def Let_def cancelWorldOk_def
                nth_append)
        qed
        with live [OF l'] i TurnBegin False show ?thesis
          by (auto simp: registered_def cancelBegin_def callCancel_def Let_def nth_append
              split: option.splits)
      qed
    qed
  next
    case (TurnDone j)
    show ?thesis
    proof (cases "j < length (cw_tasks w)")
      case True
      with l TurnDone ok have "i \<noteq> j" "liveTurn w i"
        by (auto simp: liveTurn_def cancelDone_def callCancel_def Let_def cancelWorldOk_def
            nth_list_update split: if_splits)
      moreover from this live have r: "registered w i" by blast
      moreover have "cw_tasks w ! i \<noteq> cw_tasks w ! j"
      proof
        assume "cw_tasks w ! i = cw_tasks w ! j"
        with r have "map_of (tc_active (cw_reg w)) (cw_tasks w ! j) = Some i" by (simp add: registered_def)
        with assms(2) TurnDone True \<open>i \<noteq> j\<close> show False by simp
      qed
      ultimately show ?thesis using True TurnDone
        by (auto simp: registered_def cancelDone_def callCancel_def Let_def)
    next
      case False
      with l live TurnDone show ?thesis by simp
    qed
  next
    case (TurnCancel t)
    with l have "liveTurn w i"
      using ok by (auto simp: liveTurn_def cancelTurn_def callCancel_def cancelWorldOk_def nth_set_True
          split: if_splits option.splits)
    with live have "registered w i" by blast
    with TurnCancel show ?thesis
      by (auto simp: registered_def cancelTurn_def callCancel_def split: option.splits)
  qed
  with ok' show ?thesis by (simp add: liveRegistered_def)
qed

lemma liveRegistered_run:
  "liveRegistered w \<Longrightarrow> wellTimed w xs \<Longrightarrow> liveRegistered (run cancel_step w xs)"
proof (induction xs arbitrary: w)
  case (Cons x xs)
  then show ?case using liveRegistered_step [of w x xs] by simp
qed simp

section \<open>Approval broker\<close>

text \<open>
  A waiter is a call of \<open>Await\<close>: it registers a channel with one slot, then its select
  takes the decision in the slot or the context's end, then the deferred cleanup deletes its key.
\<close>

record decision =
  de_granted :: bool
  de_scope :: string

datatype wait_state = Waiting | Got decision | GaveUp

record waiter =
  wt_key :: string
  wt_slot :: "decision option"
  wt_state :: wait_state
  wt_cleaned :: bool

record broker =
  br_waiters :: "(string \<times> nat) list"
  br_calls :: "waiter list"

definition newBroker :: broker where
  "newBroker = \<lparr>br_waiters = [], br_calls = []\<rparr>"

definition approvalKey :: "string \<Rightarrow> string \<Rightarrow> string" where
  "approvalKey task request = task @ [CHR 0x00] @ request"

definition awaitRegister :: "string \<Rightarrow> string \<Rightarrow> broker \<Rightarrow> broker" where
  "awaitRegister task request b =
     (let k = approvalKey task request; n = length (br_calls b) in
      b\<lparr>br_waiters := AList.update k n (br_waiters b),
        br_calls := br_calls b @ [\<lparr>wt_key = k, wt_slot = None, wt_state = Waiting, wt_cleaned = False\<rparr>]\<rparr>)"

text \<open>The select of waiter \<open>i\<close>: \<open>timeout\<close> says the context branch is taken.\<close>

definition awaitSelect :: "bool \<Rightarrow> nat \<Rightarrow> broker \<Rightarrow> broker" where
  "awaitSelect timeout i b =
     (if i < length (br_calls b) \<and> wt_state (br_calls b ! i) = Waiting
      then if timeout then b\<lparr>br_calls := (br_calls b)[i := (br_calls b ! i)\<lparr>wt_state := GaveUp\<rparr>]\<rparr>
           else case wt_slot (br_calls b ! i) of
             None \<Rightarrow> b
           | Some d \<Rightarrow> b\<lparr>br_calls := (br_calls b)[i := (br_calls b ! i)\<lparr>wt_state := Got d, wt_slot := None\<rparr>]\<rparr>
      else b)"

definition awaitCleanup :: "nat \<Rightarrow> broker \<Rightarrow> broker" where
  "awaitCleanup i b =
     (if i < length (br_calls b) \<and> wt_state (br_calls b ! i) \<noteq> Waiting \<and> \<not> wt_cleaned (br_calls b ! i)
      then b\<lparr>br_waiters := AList.delete (wt_key (br_calls b ! i)) (br_waiters b),
             br_calls := (br_calls b)[i := (br_calls b ! i)\<lparr>wt_cleaned := True\<rparr>]\<rparr>
      else b)"

definition resolve :: "string \<Rightarrow> string \<Rightarrow> decision \<Rightarrow> broker \<Rightarrow> broker \<times> bool" where
  "resolve task request d b =
     (case map_of (br_waiters b) (approvalKey task request) of
        None \<Rightarrow> (b, False)
      | Some n \<Rightarrow>
          (case wt_slot (br_calls b ! n) of
             Some d' \<Rightarrow> (b, False)
           | None \<Rightarrow> (b\<lparr>br_calls := (br_calls b)[n := (br_calls b ! n)\<lparr>wt_slot := Some d\<rparr>]\<rparr>, True)))"

datatype broker_op =
    Register string string
  | Select bool nat
  | Cleanup nat
  | Resolve string string decision

text \<open>The decisions \<open>Resolve\<close> reported as received, with the key they were sent to.\<close>

record broker_world =
  bw_broker :: broker
  bw_sent :: "(string \<times> decision) list"

definition newBrokerWorld :: broker_world where
  "newBrokerWorld = \<lparr>bw_broker = newBroker, bw_sent = []\<rparr>"

fun broker_step :: "broker_op \<Rightarrow> broker_world \<Rightarrow> broker_world" where
  "broker_step (Register t r) w = w\<lparr>bw_broker := awaitRegister t r (bw_broker w)\<rparr>"
| "broker_step (Select timeout i) w = w\<lparr>bw_broker := awaitSelect timeout i (bw_broker w)\<rparr>"
| "broker_step (Cleanup i) w = w\<lparr>bw_broker := awaitCleanup i (bw_broker w)\<rparr>"
| "broker_step (Resolve t r d) w =
     (case resolve t r d (bw_broker w) of
        (b, ok) \<Rightarrow> w\<lparr>bw_broker := b,
                     bw_sent := (if ok then bw_sent w @ [(approvalKey t r, d)] else bw_sent w)\<rparr>)"

text \<open>Every decision a waiter holds or got was accepted for the waiter's own key.\<close>

definition waiterOk :: "(string \<times> decision) list \<Rightarrow> waiter \<Rightarrow> bool" where
  "waiterOk sent x \<longleftrightarrow> (\<forall>d. wt_slot x = Some d \<or> wt_state x = Got d \<longrightarrow> (wt_key x, d) \<in> set sent)"

definition indexOk :: "broker \<Rightarrow> bool" where
  "indexOk b \<longleftrightarrow> (\<forall>k n. map_of (br_waiters b) k = Some n \<longrightarrow>
     n < length (br_calls b) \<and> wt_key (br_calls b ! n) = k)"

definition brokerOk :: "broker_world \<Rightarrow> bool" where
  "brokerOk w \<longleftrightarrow> indexOk (bw_broker w) \<and> (\<forall>x \<in> set (br_calls (bw_broker w)). waiterOk (bw_sent w) x)"

lemma brokerOk_new: "brokerOk newBrokerWorld"
  by (simp add: brokerOk_def indexOk_def newBrokerWorld_def newBroker_def)

lemma waiterOk_more: "waiterOk sent x \<Longrightarrow> set sent \<subseteq> set sent' \<Longrightarrow> waiterOk sent' x"
  unfolding waiterOk_def by blast

lemma indexOk_put:
  assumes "indexOk b" "i < length (br_calls b)" "wt_key x = wt_key (br_calls b ! i)"
  shows "indexOk (b\<lparr>br_calls := (br_calls b)[i := x]\<rparr>)"
proof -
  have "wt_key ((br_calls b)[i := x] ! n) = wt_key (br_calls b ! n)" for n
    using assms(2,3) by (cases "n = i") simp_all
  with assms(1) show ?thesis by (simp add: indexOk_def)
qed

lemma indexOk_forget: "indexOk b \<Longrightarrow> indexOk (b\<lparr>br_waiters := AList.delete k (br_waiters b)\<rparr>)"
  by (simp add: indexOk_def)

lemma brokerOk_put:
  assumes "brokerOk w" "i < length (br_calls (bw_broker w))"
    and "wt_key x = wt_key (br_calls (bw_broker w) ! i)" "set (bw_sent w) \<subseteq> set sent" "waiterOk sent x"
  shows "brokerOk (w\<lparr>bw_broker := bw_broker w\<lparr>br_calls := (br_calls (bw_broker w))[i := x]\<rparr>, bw_sent := sent\<rparr>)"
proof -
  have "waiterOk sent y" if "y \<in> set ((br_calls (bw_broker w))[i := x])" for y
  proof -
    from that have "y = x \<or> y \<in> set (br_calls (bw_broker w))"
      by (meson insertE set_update_subset_insert subsetD)
    with assms show ?thesis by (auto simp: brokerOk_def intro: waiterOk_more)
  qed
  then show ?thesis using assms indexOk_put by (simp add: brokerOk_def)
qed

lemma brokerOk_nth: "brokerOk w \<Longrightarrow> i < length (br_calls (bw_broker w)) \<Longrightarrow> waiterOk (bw_sent w) (br_calls (bw_broker w) ! i)"
  by (simp add: brokerOk_def)

lemma brokerOk_register: "brokerOk w \<Longrightarrow> brokerOk (broker_step (Register t r) w)"
  by (auto simp: brokerOk_def indexOk_def waiterOk_def awaitRegister_def Let_def nth_append intro: less_SucI)

lemma brokerOk_select:
  assumes ok: "brokerOk w"
  shows "brokerOk (broker_step (Select timeout i) w)"
proof (cases "i < length (br_calls (bw_broker w)) \<and> wt_state (br_calls (bw_broker w) ! i) = Waiting")
  case True
  let ?x = "br_calls (bw_broker w) ! i"
  have x: "waiterOk (bw_sent w) ?x" using ok True by (blast intro: brokerOk_nth)
  have put: "brokerOk (w\<lparr>bw_broker := bw_broker w\<lparr>br_calls := (br_calls (bw_broker w))[i := y]\<rparr>\<rparr>)"
    if "wt_key y = wt_key ?x" "waiterOk (bw_sent w) y" for y
    using brokerOk_put [OF ok _ that(1) _ that(2)] True by simp
  have "waiterOk (bw_sent w) (?x\<lparr>wt_state := GaveUp\<rparr>)"
    "wt_slot ?x = Some d \<Longrightarrow> waiterOk (bw_sent w) (?x\<lparr>wt_state := Got d, wt_slot := None\<rparr>)" for d
    using x by (simp_all add: waiterOk_def)
  with put True ok show ?thesis by (simp add: awaitSelect_def split: option.split)
next
  case False
  with ok show ?thesis by (auto simp: awaitSelect_def)
qed

lemma brokerOk_forget:
  "brokerOk w \<Longrightarrow> brokerOk (w\<lparr>bw_broker := (bw_broker w)\<lparr>br_waiters := AList.delete k (br_waiters (bw_broker w))\<rparr>\<rparr>)"
  by (simp add: brokerOk_def indexOk_forget)

lemma brokerOk_cleanup:
  assumes ok: "brokerOk w"
  shows "brokerOk (broker_step (Cleanup i) w)"
proof -
  let ?b = "bw_broker w"
  have "brokerOk (w\<lparr>bw_broker := ?b\<lparr>br_waiters := AList.delete (wt_key (br_calls ?b ! i)) (br_waiters ?b),
      br_calls := (br_calls ?b)[i := (br_calls ?b ! i)\<lparr>wt_cleaned := True\<rparr>]\<rparr>\<rparr>)"
    if i: "i < length (br_calls ?b)"
  proof -
    from brokerOk_nth [OF ok i] have "waiterOk (bw_sent w) ((br_calls ?b ! i)\<lparr>wt_cleaned := True\<rparr>)"
      by (simp add: waiterOk_def)
    with brokerOk_put [OF brokerOk_forget [OF ok, of "wt_key (br_calls ?b ! i)"], of i
        "(br_calls ?b ! i)\<lparr>wt_cleaned := True\<rparr>" "bw_sent w"] i
    show ?thesis by simp
  qed
  with ok show ?thesis by (simp add: awaitCleanup_def)
qed

lemma brokerOk_resolve:
  assumes ok: "brokerOk w"
  shows "brokerOk (broker_step (Resolve t r d) w)"
proof (cases "map_of (br_waiters (bw_broker w)) (approvalKey t r)")
  case None
  with ok show ?thesis by (simp add: resolve_def)
next
  case (Some n)
  let ?x = "br_calls (bw_broker w) ! n"
  from Some ok have n: "n < length (br_calls (bw_broker w))" "wt_key ?x = approvalKey t r"
    by (simp_all add: brokerOk_def indexOk_def)
  have "waiterOk (bw_sent w @ [(approvalKey t r, d)]) (?x\<lparr>wt_slot := Some d\<rparr>)"
    using brokerOk_nth [OF ok n(1)] n(2) by (auto simp: waiterOk_def)
  then have "brokerOk (w\<lparr>bw_broker := bw_broker w\<lparr>br_calls := (br_calls (bw_broker w))[n := ?x\<lparr>wt_slot := Some d\<rparr>]\<rparr>,
      bw_sent := bw_sent w @ [(approvalKey t r, d)]\<rparr>)"
    using n(1) by (intro brokerOk_put [OF ok]) auto
  with Some ok show ?thesis by (simp add: resolve_def split: option.split)
qed

lemma brokerOk_step: "brokerOk w \<Longrightarrow> brokerOk (broker_step x w)"
  by (cases x) (simp_all only: brokerOk_register brokerOk_select brokerOk_cleanup brokerOk_resolve)

interpretation broker_store: store_machine newBrokerWorld broker_step brokerOk
  by unfold_locales (auto intro: brokerOk_new brokerOk_step)

section \<open>Task lifecycle around a turn\<close>

text \<open>
  \<open>Executor.Run\<close> against its collaborators, which are parameters: the task operations and
  the acknowledger answer with an error or none, the inner executor with a message and an error
  or none. The result is the list of calls made, the message (none on a failed claim) and the
  errors joined in the returned error.
\<close>

datatype host_call =
    CallClaim string
  | CallInner bool
  | CallFail string string
  | CallComplete string
  | CallAcknowledge string string

record 'e task_ops =
  op_claim :: "string \<Rightarrow> 'e option"
  op_complete :: "string \<Rightarrow> 'e option"
  op_fail :: "string \<Rightarrow> string \<Rightarrow> 'e option"

definition LocalTaskMetaKey :: string where "LocalTaskMetaKey = ''local_task''"

definition markLocal :: "'p chat_message \<Rightarrow> 'p chat_message" where
  "markLocal m = markWith LocalTaskMetaKey m"

definition isLocal :: "'p chat_message \<Rightarrow> bool" where
  "isLocal m = markedBy LocalTaskMetaKey m"

definition excludeLocal :: "message_address \<Rightarrow> 'p chat_message \<Rightarrow> bool" where
  "excludeLocal addr m \<longleftrightarrow> \<not> isLocal m"

definition managedTurn ::
  "(message_address \<Rightarrow> 'p chat_message \<Rightarrow> bool) option \<Rightarrow> message_address \<Rightarrow> 'p chat_message \<Rightarrow> bool" where
  "managedTurn predicate addr user \<longleftrightarrow>
     ma_task addr \<noteq> [] \<and> (case predicate of None \<Rightarrow> True | Some p \<Rightarrow> p addr user)"

definition executorRun ::
  "('e \<Rightarrow> bool) \<Rightarrow> ('e \<Rightarrow> string) \<Rightarrow> (bool \<Rightarrow> 'm \<times> 'e option) \<Rightarrow> 'e task_ops
     \<Rightarrow> (string \<Rightarrow> string \<Rightarrow> 'e option) option \<Rightarrow> bool \<Rightarrow> message_address
     \<Rightarrow> host_call list \<times> 'm option \<times> 'e list" where
  "executorRun is_cancelled error_text inner ops ack managed addr =
     (let task = ma_task addr in
      if managed \<and> op_claim ops task \<noteq> None
      then ([CallClaim task], None, [the (op_claim ops task)])
      else
        let calls = (if managed then [CallClaim task] else []) @ [CallInner managed];
            (message, run_err) = inner managed;
            errs = (case run_err of None \<Rightarrow> [] | Some e \<Rightarrow> [e])
        in if \<not> managed then (calls, Some message, errs)
           else if (case run_err of None \<Rightarrow> False | Some e \<Rightarrow> is_cancelled e)
           then (calls, Some message, [])
           else
             let (call, terminal) =
                   (case run_err of
                      Some e \<Rightarrow> (CallFail task (error_text e), op_fail ops task (error_text e))
                    | None \<Rightarrow> (CallComplete task, op_complete ops task));
                 (calls', terminal') =
                   (if terminal = None
                    then case ack of
                      None \<Rightarrow> (calls @ [call], None)
                    | Some a \<Rightarrow> (calls @ [call, CallAcknowledge (ma_workspace addr) task],
                                a (ma_workspace addr) task)
                    else (calls @ [call], terminal))
             in (calls', Some message, errs @ (case terminal' of None \<Rightarrow> [] | Some e \<Rightarrow> [e])))"

definition isTerminalCall :: "host_call \<Rightarrow> bool" where
  "isTerminalCall c = (case c of CallFail _ _ \<Rightarrow> True | CallComplete _ \<Rightarrow> True | _ \<Rightarrow> False)"

section \<open>Properties\<close>

text \<open>
  C39: as long as every done function runs while its own turn, or none, is registered for its
  task, a live turn can always be cancelled: \<open>Cancel\<close> of its task finds it and calls its own
  cancel function; and cancelling never touches a turn of another task.
\<close>

theorem live_turn_can_be_cancelled:
  assumes "wellTimed newCancelWorld ops"
    and "w = run cancel_step newCancelWorld ops" and "liveTurn w i"
  shows "snd (cancelTurn (cw_tasks w ! i) (cw_reg w)) \<and>
         tc_cancelled (fst (cancelTurn (cw_tasks w ! i) (cw_reg w))) ! i \<and>
         (\<forall>j < length (cw_tasks w). cw_tasks w ! j \<noteq> cw_tasks w ! i \<longrightarrow>
            tc_cancelled (fst (cancelTurn (cw_tasks w ! i) (cw_reg w))) ! j = tc_cancelled (cw_reg w) ! j)"
proof -
  have "liveRegistered newCancelWorld"
    using cancelWorldOk_new by (simp add: liveRegistered_def liveTurn_def newCancelWorld_def)
  then have lr: "liveRegistered w" using assms liveRegistered_run by blast
  then have reg: "map_of (tc_active (cw_reg w)) (cw_tasks w ! i) = Some i"
    and ok: "cancelWorldOk w" using assms(3) by (simp_all add: liveRegistered_def registered_def)
  have i: "i < length (cw_tasks w)" using assms(3) by (simp add: liveTurn_def)
  with ok have "cw_tasks w ! i \<noteq> []" "i < length (tc_cancelled (cw_reg w))"
    by (simp_all add: cancelWorldOk_def)
  with reg i show ?thesis by (auto simp: cancelTurn_def callCancel_def nth_list_update)
qed

theorem live_turn_can_be_cancelled_witness:
  "snd (cancelTurn ''t'' (cw_reg (run cancel_step newCancelWorld
     [TurnBegin ''t'', TurnDone 0, TurnBegin ''t''])))"
proof -
  let ?ops = "[TurnBegin ''t'', TurnDone 0, TurnBegin ''t'']"
  have "wellTimed newCancelWorld ?ops" "liveTurn (run cancel_step newCancelWorld ?ops) 1"
    "cw_tasks (run cancel_step newCancelWorld ?ops) ! 1 = ''t''" by code_simp+
  then show ?thesis using live_turn_can_be_cancelled [of ?ops _ 1] by simp
qed

text \<open>
  Without that discipline the done function of a replaced turn unregisters its successor: a
  second turn of the same task begins, the first turn's done function runs, and the second turn,
  although live, is not found by \<open>Cancel\<close> and not cancelled by a third \<open>Begin\<close>.
\<close>

theorem late_done_unregisters_successor:
  "let w = run cancel_step newCancelWorld [TurnBegin ''t'', TurnBegin ''t'', TurnDone 0]
   in liveTurn w 1 \<and> \<not> snd (cancelTurn ''t'' (cw_reg w)) \<and>
      liveTurn (cancel_step (TurnBegin ''t'') w) 1"
  by code_simp

text \<open>
  A decision reaches only the request it was made for: in every interleaving of waiters and
  resolutions, the decision a waiter got was reported as received for the waiter's own key.
\<close>

theorem decision_reaches_its_request:
  "\<forall>x \<in> set (br_calls (bw_broker (run broker_step newBrokerWorld ops))).
     \<forall>d. wt_state x = Got d \<longrightarrow>
       (wt_key x, d) \<in> set (bw_sent (run broker_step newBrokerWorld ops))"
  using broker_store.reachable_inv [of ops] by (auto simp: brokerOk_def waiterOk_def)

theorem decision_reaches_its_request_witness:
  "\<exists>x \<in> set (br_calls (bw_broker (run broker_step newBrokerWorld
       [Register ''t'' ''r'', Resolve ''t'' ''r'' \<lparr>de_granted = True, de_scope = ''once''\<rparr>, Select False 0]))).
     wt_state x = Got \<lparr>de_granted = True, de_scope = ''once''\<rparr> \<and>
     (wt_key x, \<lparr>de_granted = True, de_scope = ''once''\<rparr>) \<in> set (bw_sent (run broker_step newBrokerWorld
       [Register ''t'' ''r'', Resolve ''t'' ''r'' \<lparr>de_granted = True, de_scope = ''once''\<rparr>, Select False 0]))"
proof -
  let ?d = "\<lparr>de_granted = True, de_scope = ''once''\<rparr>"
  let ?ops = "[Register ''t'' ''r'', Resolve ''t'' ''r'' ?d, Select False 0]"
  have "list_ex (\<lambda>x. wt_state x = Got ?d) (br_calls (bw_broker (run broker_step newBrokerWorld ?ops)))" by code_simp
  then obtain x where "x \<in> set (br_calls (bw_broker (run broker_step newBrokerWorld ?ops)))" "wt_state x = Got ?d"
    by (auto simp: list_ex_iff)
  with decision_reaches_its_request [of ?ops] show ?thesis by blast
qed

text \<open>
  The cleanup of a waiter that gave up removes a newer waiter of the same request: the
  newer waiter keeps waiting and an approval for it is reported as stale.
\<close>

theorem old_cleanup_drops_new_waiter:
  "let w = run broker_step newBrokerWorld
       [Register ''t'' ''r'', Select True 0, Register ''t'' ''r'', Cleanup 0]
   in wt_state (br_calls (bw_broker w) ! 1) = Waiting \<and>
      \<not> snd (resolve ''t'' ''r'' \<lparr>de_granted = True, de_scope = ''once''\<rparr> (bw_broker w))"
  by code_simp


definition exampleAddress :: message_address where
  "exampleAddress = \<lparr>ma_tenant = [], ma_user = [], ma_ownership = [], ma_workspace = ''w'',
     ma_thread = ''t'', ma_task = ''k''\<rparr>"


end
