(* ===== verification/CasLoop.thy ===== *)
theory CasLoop
  imports Machines
begin

text \<open>
  The optimistic update loop that the distributed stores share (\<open>cas.go\<close> of
  \<open>executionledger\<close>, \<open>cas_store.go\<close> of \<open>turnjournal\<close> and \<open>goal\<close>,
  \<open>ledger_cas.go\<close>) over the blob interface of \<open>pkg/casblob\<close>: read the blob and decode
  it, compute the next state, then create it or compare-and-swap it against the bytes that were
  read, and start again when another writer was faster, up to a number of attempts.
  Other writers act between any two calls; what they and the network do is an input.
\<close>

section \<open>The blob interface\<close>

type_synonym blob = "string option"

text \<open>
  A faulty write reports an error; whether it took effect before is unknown to the caller, so
  both cases are inputs.
\<close>

datatype write_fault = WriteOk | WriteFailed | WriteLost

record cas_env =
  ce_before :: "blob \<Rightarrow> blob"
  ce_between :: "blob \<Rightarrow> blob"
  ce_read_fails :: bool
  ce_write :: write_fault

definition quiet :: cas_env where
  "quiet = \<lparr>ce_before = id, ce_between = id, ce_read_fails = False, ce_write = WriteOk\<rparr>"

text \<open>\<open>Create\<close> succeeds on an absent blob, \<open>CompareAndSwap\<close> on equal bytes.\<close>

definition blobCreate :: "string \<Rightarrow> blob \<Rightarrow> blob \<times> bool" where
  "blobCreate v b = (case b of None \<Rightarrow> (Some v, True) | Some _ \<Rightarrow> (b, False))"

definition blobSwap :: "string \<Rightarrow> string \<Rightarrow> blob \<Rightarrow> blob \<times> bool" where
  "blobSwap old v b = (if b = Some old then (Some v, True) else (b, False))"

definition blobCommit :: "blob \<Rightarrow> string \<Rightarrow> blob \<Rightarrow> blob \<times> bool" where
  "blobCommit seen v b = (case seen of None \<Rightarrow> blobCreate v b | Some old \<Rightarrow> blobSwap old v b)"

lemma blobCommit_iff: "blobCommit seen v b = (if b = seen then (Some v, True) else (b, False))"
  by (auto simp: blobCommit_def blobCreate_def blobSwap_def split: option.split)

section \<open>The loop\<close>

text \<open>
  The mutation answers with an error, with a result and no new state (nothing to write), or with
  a new state and a result.
\<close>

datatype ('s, 'r) change = Unchanged 'r | Changed 's 'r

datatype ('e, 'r) attempt = Done "('e, 'r) result" | Retry

definition casAttempt ::
  "'e \<Rightarrow> 'e \<Rightarrow> (blob \<Rightarrow> ('e, 's) result) \<Rightarrow> ('s \<Rightarrow> ('e, ('s, 'r) change) result) \<Rightarrow> ('s \<Rightarrow> string)
     \<Rightarrow> cas_env \<Rightarrow> blob \<Rightarrow> blob \<times> ('e, 'r) attempt" where
  "casAttempt read_err write_err readBlob mutate encode env b =
     (let seen = ce_before env b in
      if ce_read_fails env then (seen, Done (Inl read_err))
      else case and_then (readBlob seen) mutate of
        Inl e \<Rightarrow> (seen, Done (Inl e))
      | Inr (Unchanged r) \<Rightarrow> (seen, Done (Inr r))
      | Inr (Changed s' r) \<Rightarrow>
          let current = ce_between env seen in
          (case ce_write env of
             WriteFailed \<Rightarrow> (current, Done (Inl write_err))
           | WriteLost \<Rightarrow> (fst (blobCommit seen (encode s') current), Done (Inl write_err))
           | WriteOk \<Rightarrow>
               (case blobCommit seen (encode s') current of
                  (b', True) \<Rightarrow> (b', Done (Inr r))
                | (b', False) \<Rightarrow> (b', Retry))))"

fun casLoop ::
  "nat \<Rightarrow> 'e \<Rightarrow> 'e \<Rightarrow> 'e \<Rightarrow> (blob \<Rightarrow> ('e, 's) result) \<Rightarrow> ('s \<Rightarrow> ('e, ('s, 'r) change) result)
     \<Rightarrow> ('s \<Rightarrow> string) \<Rightarrow> (nat \<Rightarrow> cas_env) \<Rightarrow> blob \<Rightarrow> blob \<times> ('e, 'r) result" where
  "casLoop 0 limit_err read_err write_err readBlob mutate encode env b = (b, Inl limit_err)"
| "casLoop (Suc n) limit_err read_err write_err readBlob mutate encode env b =
     (case casAttempt read_err write_err readBlob mutate encode (env n) b of
        (b', Done r) \<Rightarrow> (b', r)
      | (b', Retry) \<Rightarrow> casLoop n limit_err read_err write_err readBlob mutate encode env b')"

section \<open>The contract\<close>

text \<open>
  What a store that uses the loop provides: every state that reading accepts is valid, and what
  its mutation makes of a valid state is fit to be stored.
\<close>

locale cas_store =
  fixes readBlob :: "blob \<Rightarrow> ('e, 's) result"
    and mutate :: "'op \<Rightarrow> 's \<Rightarrow> ('e, ('s, 'r) change) result"
    and encode :: "'s \<Rightarrow> string"
    and valid :: "'s \<Rightarrow> bool"
    and stored :: "'s \<Rightarrow> bool"
  assumes read_valid: "readBlob b = Inr s \<Longrightarrow> valid s"
    and mutate_stored: "valid s \<Longrightarrow> mutate x s = Inr (Changed s' r) \<Longrightarrow> stored s'"
begin

text \<open>
  The blob after a successful loop is one atomic mutation of the blob at the commit, or the
  loop wrote nothing.
\<close>

definition atomic :: "'op \<Rightarrow> blob \<Rightarrow> 'r \<Rightarrow> blob \<Rightarrow> bool" where
  "atomic x b r b' \<longleftrightarrow> (\<exists>s. readBlob b = Inr s \<and> valid s \<and>
     (mutate x s = Inr (Unchanged r) \<and> b' = b \<or>
      (\<exists>s'. mutate x s = Inr (Changed s' r) \<and> stored s' \<and> b' = Some (encode s'))))"

lemma attempt_atomic:
  assumes "casAttempt re we readBlob (mutate x) encode env b = (b', Done (Inr r))"
  shows "\<exists>c. c = ce_before env b \<and> atomic x c r b' \<and> (b' = c \<or> ce_between env c = c)"
proof -
  let ?seen = "ce_before env b"
  from assms have rf: "\<not> ce_read_fails env" by (auto simp: casAttempt_def Let_def)
  show ?thesis
  proof (cases "readBlob ?seen")
    case (Inl e)
    with assms rf show ?thesis by (simp add: casAttempt_def)
  next
    case (Inr s)
    note s = Inr
    have v: "valid s" by (rule read_valid [OF s])
    show ?thesis
    proof (cases "mutate x s")
      case (Inl e)
      with assms rf s show ?thesis by (simp add: casAttempt_def)
    next
      case (Inr ch)
      show ?thesis
      proof (cases ch)
        case (Unchanged r')
        with assms rf s Inr have "r' = r" "b' = ?seen" by (simp_all add: casAttempt_def)
        with s v Inr Unchanged show ?thesis by (intro exI [of _ ?seen]) (simp add: atomic_def)
      next
        case (Changed s' r')
        with assms rf s Inr have "r' = r" "b' = Some (encode s')" "ce_between env ?seen = ?seen"
          by (auto simp: casAttempt_def Let_def blobCommit_iff split: write_fault.splits if_splits)
        with s v Inr Changed mutate_stored [OF v, of x s' r'] show ?thesis
          by (intro exI [of _ ?seen]) (simp add: atomic_def)
      qed
    qed
  qed
qed

text \<open>
  In the attempt that commits, the blob that was read is still there when it is replaced: no
  update of another writer is lost.
\<close>

lemma loop_atomic_at:
  "casLoop n le re we readBlob (mutate x) encode env b = (b', Inr r) \<Longrightarrow>
     \<exists>c k. k < n \<and> atomic x c r b' \<and> (b' = c \<or> ce_between (env k) c = c)"
proof (induction n arbitrary: b)
  case (Suc n)
  obtain b1 a where a: "casAttempt re we readBlob (mutate x) encode (env n) b = (b1, a)" by fastforce
  show ?case
  proof (cases a)
    case (Done res)
    with Suc.prems a have "casAttempt re we readBlob (mutate x) encode (env n) b = (b', Done (Inr r))" by simp
    from attempt_atomic [OF this] obtain c where "atomic x c r b'" "b' = c \<or> ce_between (env n) c = c"
      by blast
    then show ?thesis by (intro exI [of _ c] exI [of _ n]) simp
  next
    case Retry
    with Suc.prems a have "casLoop n le re we readBlob (mutate x) encode env b1 = (b', Inr r)" by simp
    from Suc.IH [OF this] obtain c k where "k < n" "atomic x c r b'" "b' = c \<or> ce_between (env k) c = c"
      by blast
    then show ?thesis by (intro exI [of _ c] exI [of _ k]) simp
  qed
qed simp

lemma loop_atomic:
  "casLoop n le re we readBlob (mutate x) encode env b = (b', Inr r) \<Longrightarrow> \<exists>c. atomic x c r b'"
  using loop_atomic_at by blast

text \<open>
  Whatever other writers keep, the loop keeps, if the atomic mutation does.
\<close>

lemma loop_keeps:
  assumes others: "\<And>k b. P b \<Longrightarrow> P (ce_before (env k) b)" "\<And>k b. P b \<Longrightarrow> P (ce_between (env k) b)"
    and own: "\<And>b s s' r. P b \<Longrightarrow> readBlob b = Inr s \<Longrightarrow> mutate x s = Inr (Changed s' r) \<Longrightarrow> P (Some (encode s'))"
    and start: "P b"
  shows "P (fst (casLoop n le re we readBlob (mutate x) encode env b))"
  using start
proof (induction n arbitrary: b)
  case (Suc n)
  have seen: "P (ce_before (env n) b)" and cur: "P (ce_between (env n) (ce_before (env n) b))"
    using Suc.prems others by simp_all
  have att: "P (fst (casAttempt re we readBlob (mutate x) encode (env n) b))"
    using seen cur own [OF seen]
    by (auto simp: casAttempt_def Let_def blobCommit_iff split: sum.splits change.splits
        write_fault.splits bool.splits)
  show ?case
    using att Suc.IH
    by (auto split: prod.splits attempt.splits)
qed simp

text \<open>The atomic mutation happens on a blob with every property that the other writers keep.\<close>

lemma loop_atomic_on:
  assumes others: "\<And>k b. P b \<Longrightarrow> P (ce_before (env k) b)" "\<And>k b. P b \<Longrightarrow> P (ce_between (env k) b)"
    and start: "P b"
    and result: "casLoop n le re we readBlob (mutate x) encode env b = (b', Inr r)"
  shows "\<exists>c. P c \<and> atomic x c r b'"
  using start result
proof (induction n arbitrary: b)
  case (Suc n)
  obtain b1 a where a: "casAttempt re we readBlob (mutate x) encode (env n) b = (b1, a)" by fastforce
  have seen: "P (ce_before (env n) b)" using Suc.prems(1) by (rule others)
  show ?case
  proof (cases a)
    case (Done res)
    with Suc.prems a have "casAttempt re we readBlob (mutate x) encode (env n) b = (b', Done (Inr r))" by simp
    from attempt_atomic [OF this] seen show ?thesis by blast
  next
    case Retry
    have "P b1"
      using a Retry others(2) [OF seen]
      by (auto simp: casAttempt_def Let_def blobCommit_iff split: if_splits sum.splits change.splits write_fault.splits)
    with Suc.IH Suc.prems(2) a Retry show ?thesis by simp
  qed
qed simp

text \<open>Without interference the first attempt commits.\<close>

lemma quiet_commits:
  assumes "readBlob b = Inr s" "mutate x s = Inr (Changed s' r)" "env n = quiet"
  shows "casLoop (Suc n) le re we readBlob (mutate x) encode env b = (Some (encode s'), Inr r)"
  using assms by (simp add: casAttempt_def quiet_def blobCommit_iff)

end

end
