(* ===== verification/LedgerState.thy ===== *)
theory LedgerState
  imports CasLoop
begin

text \<open>
  Model of the execution ledger's core, \<open>pkg/executionledger/ledger.go\<close> and
  \<open>cursor.go\<close>: requests, events, the session state, the checks on them, the append
  \<open>prepareAppend\<close> that all three stores share, and the newest-first query.
  Sequence numbers are 64-bit words. SHA-256 and the JSON encodings it is applied to are
  parameters (a \<open>codec\<close>); a page token is the cursor it encodes or a text that does not
  decode.
\<close>

section \<open>Types\<close>

datatype event_type =
    EventTurnStarted | EventUserPromptSubmitted | EventModelCallStarted | EventModelCallFinished
  | EventContextCompacted | EventModelPinned | EventGoalReferenced | EventRefinementReferenced
  | EventSkillReferenced | EventRecoveryMarker | EventTurnFinished | EventTypeOther string

fun eventTypeName :: "event_type \<Rightarrow> string" where
  "eventTypeName EventTurnStarted = ''turn_started''"
| "eventTypeName EventUserPromptSubmitted = ''user_prompt_submitted''"
| "eventTypeName EventModelCallStarted = ''model_call_started''"
| "eventTypeName EventModelCallFinished = ''model_call_finished''"
| "eventTypeName EventContextCompacted = ''context_compacted''"
| "eventTypeName EventModelPinned = ''model_pinned''"
| "eventTypeName EventGoalReferenced = ''goal_referenced''"
| "eventTypeName EventRefinementReferenced = ''refinement_referenced''"
| "eventTypeName EventSkillReferenced = ''skill_referenced''"
| "eventTypeName EventRecoveryMarker = ''recovery_marker''"
| "eventTypeName EventTurnFinished = ''turn_finished''"
| "eventTypeName (EventTypeOther s) = s"

record session_ref =
  sr_workspace :: string
  sr_session :: string

record reference =
  rf_system :: string
  rf_kind :: string
  rf_id :: string

record append_request =
  aq_type :: event_type
  aq_branch :: string
  aq_parent :: string
  aq_task :: string
  aq_message :: string
  aq_iteration :: int
  aq_model :: string
  aq_outcome :: string
  aq_error :: string
  aq_reference :: "reference option"

record ledger_event =
  ev_schema :: int
  ev_id :: string
  ev_seq :: "64 word"
  ev_workspace :: string
  ev_session :: string
  ev_request :: append_request
  ev_created :: stamp

record append_result =
  rs_event :: ledger_event
  rs_replayed :: bool

record ledger_entry =
  en_operation :: string
  en_hash :: string
  en_event :: ledger_event

record ledger_state =
  ls_schema :: int
  ls_workspace :: string
  ls_session :: string
  ls_next :: "64 word"
  ls_entries :: "ledger_entry list"
  ls_heads :: "(string \<times> string) list"
  ls_terminal :: string
  ls_pinned :: string

datatype ledger_error =
    LedgerInvalid | LedgerConflict | LedgerCorrupt | LedgerContext | LedgerNewID | LedgerRead
  | LedgerWrite | LedgerRetryLimit

definition SchemaVersion :: int where "SchemaVersion = 1"
definition DefaultMaxEvents :: nat where "DefaultMaxEvents = 512"
definition DefaultQueryLimit :: int where "DefaultQueryLimit = 20"
definition MaxQueryLimit :: int where "MaxQueryLimit = 100"
definition MaxCursorBytes :: nat where "MaxCursorBytes = 8192"
definition maxIdentityBytes :: nat where "maxIdentityBytes = 512"
definition maxErrorBytes :: nat where "maxErrorBytes = 2048"
definition maxBranches :: nat where "maxBranches = 1024"

definition newLedger :: "session_ref \<Rightarrow> ledger_state" where
  "newLedger r =
     \<lparr>ls_schema = SchemaVersion, ls_workspace = sr_workspace r, ls_session = sr_session r,
      ls_next = 1, ls_entries = [], ls_heads = [], ls_terminal = [], ls_pinned = []\<rparr>"

section \<open>Checks\<close>

definition validateIdentity :: "string \<Rightarrow> (ledger_error, unit) result" where
  "validateIdentity v =
     (let v' = trim_space v in
      if v' = [] \<or> length v' > maxIdentityBytes then Inl LedgerInvalid
      else if has_control v' then Inl LedgerInvalid else Inr ())"

definition validateRef :: "session_ref \<Rightarrow> (ledger_error, unit) result" where
  "validateRef r = and_then (validateIdentity (sr_workspace r)) (\<lambda>_. validateIdentity (sr_session r))"

definition validEventType :: "event_type \<Rightarrow> bool" where
  "validEventType k = (case k of EventTypeOther _ \<Rightarrow> False | _ \<Rightarrow> True)"

text \<open>
  The Go map iterations over the named fields fail alike whichever field they meet first, so
  their order does not matter.
\<close>

definition trimRequest :: "append_request \<Rightarrow> append_request" where
  "trimRequest q =
     q\<lparr>aq_branch := trim_space (aq_branch q), aq_parent := trim_space (aq_parent q),
       aq_task := trim_space (aq_task q), aq_message := trim_space (aq_message q),
       aq_model := trim_space (aq_model q), aq_outcome := trim_space (aq_outcome q),
       aq_error := trim_space (aq_error q)\<rparr>"

definition trimReference :: "reference \<Rightarrow> reference" where
  "trimReference r = \<lparr>rf_system = trim_space (rf_system r), rf_kind = trim_space (rf_kind r),
                      rf_id = trim_space (rf_id r)\<rparr>"

definition optionalIdentity :: "string \<Rightarrow> bool" where
  "optionalIdentity v \<longleftrightarrow> v = [] \<or> validateIdentity v = Inr ()"

definition requiredIdentity :: "string \<Rightarrow> bool" where
  "requiredIdentity v \<longleftrightarrow> validateIdentity v = Inr ()"

definition normalizeReference :: "append_request \<Rightarrow> (ledger_error, append_request) result" where
  "normalizeReference q =
     (case aq_reference q of
        None \<Rightarrow> Inr q
      | Some r \<Rightarrow>
          let r' = trimReference r in
          if list_all requiredIdentity [rf_system r', rf_kind r', rf_id r']
          then Inr (q\<lparr>aq_reference := Some r'\<rparr>) else Inl LedgerInvalid)"

definition normalizeRequest :: "append_request \<Rightarrow> (ledger_error, append_request) result" where
  "normalizeRequest q =
     (let q1 = trimRequest q in
      if \<not> list_all optionalIdentity
           [aq_branch q1, aq_parent q1, aq_task q1, aq_message q1, aq_model q1, aq_outcome q1]
      then Inl LedgerInvalid
      else if aq_branch q1 = [] then Inl LedgerInvalid
      else if aq_iteration q1 < 0 then Inl LedgerInvalid
      else
        let q2 = (if length (aq_error q1) > maxErrorBytes
                  then q1\<lparr>aq_error := take maxErrorBytes (aq_error q1)\<rparr> else q1) in
        if \<not> validEventType (aq_type q2) then Inl LedgerInvalid
        else and_then (normalizeReference q2) (\<lambda>q3.
          if aq_type q3 \<in> {EventModelPinned, EventModelCallStarted, EventModelCallFinished} \<and>
             aq_model q3 = [] then Inl LedgerInvalid
          else if aq_type q3 \<in> {EventGoalReferenced, EventRefinementReferenced,
                                EventSkillReferenced, EventRecoveryMarker} \<and>
                  aq_reference q3 = None then Inl LedgerInvalid
          else Inr q3))"

definition validateEvent :: "ledger_event \<Rightarrow> session_ref \<Rightarrow> (ledger_error, unit) result" where
  "validateEvent e r =
     (if ev_schema e \<noteq> SchemaVersion \<or> ev_id e = [] \<or> ev_seq e = 0 \<or>
         ev_workspace e \<noteq> sr_workspace r \<or> ev_session e \<noteq> sr_session r then Inl LedgerCorrupt
      else if validateIdentity (ev_id e) \<noteq> Inr () then Inl LedgerCorrupt
      else if parse_stamp (ev_created e) = None then Inl LedgerCorrupt
      else if failed (normalizeRequest (ev_request e)) then Inl LedgerCorrupt
      else Inr ())"

definition hexDigit :: "char \<Rightarrow> bool" where
  "hexDigit c \<longleftrightarrow> c \<in> set ''0123456789abcdefABCDEF''"

text \<open>The loop over the retained entries: what was seen, and the last sequence number.\<close>

fun validateEntries ::
  "session_ref \<Rightarrow> ledger_entry list \<Rightarrow> 64 word \<Rightarrow> string list \<Rightarrow> string list \<Rightarrow> (ledger_error, 64 word) result"
where
  "validateEntries r [] prev ops ids = Inr prev"
| "validateEntries r (x # xs) prev ops ids =
     (if en_operation x \<in> set ops \<or> en_operation x = [] \<or> en_hash x = [] then Inl LedgerCorrupt
      else if ev_id (en_event x) \<in> set ids then Inl LedgerCorrupt
      else if validateIdentity (en_operation x) \<noteq> Inr () then Inl LedgerCorrupt
      else case validateEvent (en_event x) r of
        Inl e \<Rightarrow> Inl e
      | Inr _ \<Rightarrow>
          if length (en_hash x) \<noteq> 64 then Inl LedgerCorrupt
          else if \<not> list_all hexDigit (en_hash x) then Inl LedgerCorrupt
          else if prev \<noteq> 0 \<and> ev_seq (en_event x) \<noteq> prev + 1 then Inl LedgerCorrupt
          else validateEntries r xs (ev_seq (en_event x)) (en_operation x # ops) (ev_id (en_event x) # ids))"

definition validateLedger :: "ledger_state \<Rightarrow> session_ref \<Rightarrow> nat \<Rightarrow> (ledger_error, unit) result" where
  "validateLedger s r maxEvents =
     (if ls_schema s \<noteq> SchemaVersion \<or> ls_workspace s \<noteq> sr_workspace r \<or>
         ls_session s \<noteq> sr_session r \<or> ls_next s = 0 then Inl LedgerCorrupt
      else if length (ls_entries s) > maxEvents \<or> length (ls_heads s) > maxBranches then Inl LedgerCorrupt
      else if ls_terminal s \<noteq> [] \<and> validateIdentity (ls_terminal s) \<noteq> Inr () then Inl LedgerCorrupt
      else if ls_pinned s \<noteq> [] \<and> validateIdentity (ls_pinned s) \<noteq> Inr () then Inl LedgerCorrupt
      else if list_ex (\<lambda>(b, h). validateIdentity b \<noteq> Inr () \<or> validateIdentity h \<noteq> Inr ()) (ls_heads s)
      then Inl LedgerCorrupt
      else and_then (validateEntries r (ls_entries s) 0 [] []) (\<lambda>prev.
             if prev \<noteq> 0 \<and> ls_next s \<noteq> prev + 1 then Inl LedgerCorrupt else Inr ()))"

section \<open>Append\<close>

text \<open>
  \<open>cx_sha\<close> is the hexadecimal SHA-256 of a text, \<open>cx_request\<close> the JSON of a request and
  \<open>cx_query\<close> the JSON of a session and a query.
\<close>

record codec =
  cx_sha :: "string \<Rightarrow> string"
  cx_request :: "append_request \<Rightarrow> string"
  cx_query :: "session_ref \<Rightarrow> event_type list \<times> string \<times> string \<times> string \<Rightarrow> string"

definition requestHash :: "codec \<Rightarrow> append_request \<Rightarrow> string" where
  "requestHash cx q = cx_sha cx (cx_request cx q)"

definition isDigest :: "string \<Rightarrow> bool" where
  "isDigest h \<longleftrightarrow> length h = 64 \<and> list_all hexDigit h"

definition headOf :: "ledger_state \<Rightarrow> string \<Rightarrow> string" where
  "headOf s b = (case map_of (ls_heads s) b of None \<Rightarrow> [] | Some h \<Rightarrow> h)"

text \<open>The parent of a new event: the request's own, the branch's head, or the last finished turn.\<close>

definition resolveParent :: "ledger_state \<Rightarrow> append_request \<Rightarrow> (ledger_error, append_request) result" where
  "resolveParent s q =
     and_then
       (if aq_type q = EventTurnStarted
        then if headOf s (aq_branch q) \<noteq> [] then Inl LedgerConflict else Inr q
        else if aq_parent q = [] then Inr (q\<lparr>aq_parent := headOf s (aq_branch q)\<rparr>)
        else Inr q)
       (\<lambda>q1. Inr (if aq_parent q1 = [] then q1\<lparr>aq_parent := ls_terminal s\<rparr> else q1))"

definition checkEventID :: "ledger_state \<Rightarrow> append_request \<Rightarrow> string \<Rightarrow> (ledger_error, unit) result" where
  "checkEventID s q k =
     (if k = [] then Inl LedgerInvalid
      else if aq_parent q = k then Inl LedgerInvalid
      else if list_ex (\<lambda>x. ev_id (en_event x) = k) (ls_entries s) then Inl LedgerConflict
      else if k = ls_terminal s then Inl LedgerConflict
      else if list_ex (\<lambda>(b, h). k = h) (ls_heads s) then Inl LedgerConflict
      else Inr ())"

definition lastN :: "nat \<Rightarrow> 'a list \<Rightarrow> 'a list" where
  "lastN n xs = drop (length xs - n) xs"

definition recordEvent :: "ledger_state \<Rightarrow> string \<Rightarrow> string \<Rightarrow> ledger_event \<Rightarrow> nat \<Rightarrow> ledger_state" where
  "recordEvent s op h e maxEvents =
     (let q = ev_request e;
          entries = ls_entries s @ [\<lparr>en_operation = op, en_hash = h, en_event = e\<rparr>];
          heads = AList.update (aq_branch q) (ev_id e) (ls_heads s);
          s1 = s\<lparr>ls_next := ev_seq e + 1,
                 ls_entries := (if length entries > maxEvents then lastN maxEvents entries else entries),
                 ls_heads := heads\<rparr>;
          s2 = (if aq_type q = EventTurnFinished
                then s1\<lparr>ls_terminal := ev_id e, ls_heads := AList.delete (aq_branch q) heads\<rparr> else s1)
      in if aq_type q = EventModelPinned then s2\<lparr>ls_pinned := aq_model q\<rparr> else s2)"

definition prepareAppend ::
  "codec \<Rightarrow> session_ref \<Rightarrow> string \<Rightarrow> append_request \<Rightarrow> string \<Rightarrow> time \<Rightarrow> nat \<Rightarrow> ledger_state
     \<Rightarrow> (ledger_error, ledger_state \<times> append_result) result" where
  "prepareAppend cx r operation request eventID now maxEvents s =
     and_then (validateRef r) (\<lambda>_.
       let op = trim_space operation in
       and_then (validateIdentity op) (\<lambda>_.
       and_then (normalizeRequest request) (\<lambda>q.
         let h = requestHash cx q in
         case find (\<lambda>x. en_operation x = op) (ls_entries s) of
           Some x \<Rightarrow>
             if en_hash x \<noteq> h then Inl LedgerConflict
             else Inr (s, \<lparr>rs_event = en_event x, rs_replayed = True\<rparr>)
         | None \<Rightarrow>
             and_then (resolveParent s q) (\<lambda>q1.
               let k = trim_space eventID in
               and_then (checkEventID s q1 k) (\<lambda>_.
                 let limit = (if maxEvents = 0 then DefaultMaxEvents else maxEvents);
                     seq = (if ls_next s = 0 then 1 else ls_next s);
                     e = \<lparr>ev_schema = SchemaVersion, ev_id = k, ev_seq = seq,
                          ev_workspace = sr_workspace r, ev_session = sr_session r,
                          ev_request = q1, ev_created = format_stamp now\<rparr> in
                 and_then (validateEvent e r) (\<lambda>_.
                   let s' = recordEvent s op h e limit in
                   if length (ls_heads s') > maxBranches then Inl LedgerConflict
                   else Inr (s', \<lparr>rs_event = e, rs_replayed = False\<rparr>)))))))"

section \<open>Queries\<close>

record cursor =
  cu_scope :: string
  cu_after :: string

datatype page_token = NoToken | Token cursor | BadToken string

record query =
  qy_types :: "event_type list"
  qy_branch :: string
  qy_task :: string
  qy_reference :: string
  qy_limit :: int
  qy_token :: page_token

record page =
  pg_events :: "ledger_event list"
  pg_next :: page_token
  pg_scanned :: nat

text \<open>
  A token that \<open>encodeCursor\<close> made is unpadded base64 of ids of at most 512 bytes, so it
  passes the length and character checks; an undecodable one may not.
\<close>

definition badTokenText :: "string \<Rightarrow> bool" where
  "badTokenText t \<longleftrightarrow> length t > MaxCursorBytes \<or> has_control t \<or>
     list_ex (\<lambda>i. front_code space_encodings (drop i t) \<noteq> None) [0..<length t]"

definition normalizeQuery :: "query \<Rightarrow> (ledger_error, query) result" where
  "normalizeQuery q =
     (let q1 = (if qy_limit q = 0 then q\<lparr>qy_limit := DefaultQueryLimit\<rparr> else q) in
      if qy_limit q1 < 1 \<or> qy_limit q1 > MaxQueryLimit then Inl LedgerInvalid
      else
        let q2 = q1\<lparr>qy_branch := trim_space (qy_branch q1), qy_task := trim_space (qy_task q1),
                   qy_reference := trim_space (qy_reference q1)\<rparr> in
        if \<not> list_all optionalIdentity [qy_branch q2, qy_task q2, qy_reference q2] then Inl LedgerInvalid
        else if length (qy_types q2) > 16 then Inl LedgerInvalid
        else if \<not> list_all validEventType (qy_types q2) then Inl LedgerInvalid
        else if (case qy_token q2 of BadToken t \<Rightarrow> badTokenText t | _ \<Rightarrow> False) then Inl LedgerInvalid
        else Inr (q2\<lparr>qy_types := sort_key eventTypeName (remdups (qy_types q2))\<rparr>))"

definition matches :: "ledger_event \<Rightarrow> query \<Rightarrow> bool" where
  "matches e q \<longleftrightarrow>
     (qy_types q = [] \<or> aq_type (ev_request e) \<in> set (qy_types q)) \<and>
     (qy_branch q = [] \<or> aq_branch (ev_request e) = qy_branch q) \<and>
     (qy_task q = [] \<or> aq_task (ev_request e) = qy_task q) \<and>
     (qy_reference q = [] \<or>
        (case aq_reference (ev_request e) of None \<Rightarrow> False | Some r \<Rightarrow> rf_id r = qy_reference q))"

definition queryScope :: "codec \<Rightarrow> session_ref \<Rightarrow> query \<Rightarrow> string" where
  "queryScope cx r q = cx_sha cx (cx_query cx r (qy_types q, qy_branch q, qy_task q, qy_reference q))"

definition decodeCursor :: "page_token \<Rightarrow> string \<Rightarrow> (ledger_error, cursor) result" where
  "decodeCursor t scope =
     (case t of
        Token c \<Rightarrow> if cu_scope c \<noteq> scope \<or> cu_after c = [] then Inl LedgerInvalid else Inr c
      | _ \<Rightarrow> Inl LedgerInvalid)"

text \<open>
  The scan loop over events newest first: the matches, how many were inspected, the id of the
  last one, and what was left.
\<close>

fun scanEvents ::
  "query \<Rightarrow> ledger_event list \<Rightarrow> nat \<Rightarrow> string \<Rightarrow> ledger_event list
     \<Rightarrow> ledger_event list \<times> nat \<times> string \<times> ledger_event list" where
  "scanEvents q out scanned anchor [] = (out, scanned, anchor, [])"
| "scanEvents q out scanned anchor (e # es) =
     (if matches e q
      then let out' = out @ [e] in
           if int (length out') = qy_limit q then (out', scanned + 1, ev_id e, es)
           else scanEvents q out' (scanned + 1) (ev_id e) es
      else scanEvents q out (scanned + 1) (ev_id e) es)"

text \<open>The events after (older than) the anchor of a cursor, newest first.\<close>

fun afterAnchor :: "string \<Rightarrow> ledger_event list \<Rightarrow> ledger_event list option" where
  "afterAnchor k [] = None"
| "afterAnchor k (e # es) = (if ev_id e = k then Some es else afterAnchor k es)"

definition queryLedger :: "codec \<Rightarrow> session_ref \<Rightarrow> query \<Rightarrow> ledger_state \<Rightarrow> (ledger_error, page) result" where
  "queryLedger cx r query s =
     and_then (normalizeQuery query) (\<lambda>q.
       let newest = rev (map en_event (ls_entries s)); scope = queryScope cx r q in
       and_then
         (if qy_token q = NoToken then Inr newest
          else and_then (decodeCursor (qy_token q) scope) (\<lambda>c.
                 case afterAnchor (cu_after c) newest of None \<Rightarrow> Inl LedgerInvalid | Some es \<Rightarrow> Inr es))
         (\<lambda>es.
           case scanEvents q [] 0 [] es of
             (out, scanned, anchor, rest) \<Rightarrow>
               Inr \<lparr>pg_events = out,
                    pg_next = (if rest \<noteq> [] then Token \<lparr>cu_scope = scope, cu_after = anchor\<rparr> else NoToken),
                    pg_scanned = scanned\<rparr>))"

end
