(* ===== verification/Paths.thy ===== *)
theory Paths
  imports Prelude
begin

text \<open>
  Model of \<open>PathSegment\<close> of \<open>pkg/workspace/path.go\<close>, which names the per-workspace and
  per-session files: unpadded URL-safe base64 of the id, a fixed name for the empty id and a
  digest for ids whose encoding is longer than 160 characters. Base64 is modelled; SHA-256 is a
  parameter. The lemmas show that short ids have distinct segments and that a segment never
  contains a path separator or a dot.
\<close>

section \<open>Base64\<close>

definition alphabet :: string where
  "alphabet = ''ABCDEFGHIJKLMNOPQRSTUVWXYZabcdefghijklmnopqrstuvwxyz0123456789-_''"

abbreviation sextet :: "nat \<Rightarrow> char" where "sextet n \<equiv> alphabet ! n"

fun encodeBytes :: "nat list \<Rightarrow> string" where
  "encodeBytes [] = []"
| "encodeBytes [a] = [sextet (a div 4), sextet (a mod 4 * 16)]"
| "encodeBytes [a, b] = [sextet (a div 4), sextet (a mod 4 * 16 + b div 16), sextet (b mod 16 * 4)]"
| "encodeBytes (a # b # c # rest) =
     sextet (a div 4) # sextet (a mod 4 * 16 + b div 16) # sextet (b mod 16 * 4 + c div 64) #
     sextet (c mod 64) # encodeBytes rest"

definition base64 :: "string \<Rightarrow> string" where
  "base64 s = encodeBytes (map of_char s)"

definition pathSegment :: "(string \<Rightarrow> string) \<Rightarrow> string \<Rightarrow> string" where
  "pathSegment sha k =
     (let encoded = base64 k in
      if encoded = [] then ''empty''
      else if length encoded \<le> 160 then encoded
      else ''sha256-'' @ sha k)"

section \<open>Decoding\<close>

lemma alphabet_distinct: "distinct alphabet" and alphabet_length: "length alphabet = 64"
  by (simp_all add: alphabet_def)

lemma sextet_inj: "m < 64 \<Longrightarrow> n < 64 \<Longrightarrow> sextet m = sextet n \<longleftrightarrow> m = n"
  using nth_eq_iff_index_eq [OF alphabet_distinct] by (simp add: alphabet_length)

lemma byte_split: "a div 4 = a' div 4 \<Longrightarrow> a mod 4 = a' mod 4 \<Longrightarrow> a = (a' :: nat)"
  "b div 16 = b' div 16 \<Longrightarrow> b mod 16 = b' mod 16 \<Longrightarrow> b = (b' :: nat)"
  "c div 64 = c' div 64 \<Longrightarrow> c mod 64 = c' mod 64 \<Longrightarrow> c = (c' :: nat)"
  by (metis mod_mult_div_eq)+

lemma mixed_digits:
  fixes k :: nat
  assumes "x * k + y = x' * k + y'" "y < k" "y' < k"
  shows "x = x' \<and> y = y'"
proof -
  from assms(1) have "(x * k + y) div k = (x' * k + y') div k" "(x * k + y) mod k = (x' * k + y') mod k"
    by simp_all
  with assms(2,3) show ?thesis by simp
qed

lemma sextet_parts:
  assumes "a < 256" "b < 256" "c < 256" "a' < 256" "b' < 256" "c' < (256 :: nat)"
  shows "sextet (a div 4) = sextet (a' div 4) \<longleftrightarrow> a div 4 = a' div 4"
    and "sextet (a mod 4 * 16) = sextet (a' mod 4 * 16) \<longleftrightarrow> a mod 4 = a' mod 4"
    and "sextet (a mod 4 * 16 + b div 16) = sextet (a' mod 4 * 16 + b' div 16) \<longleftrightarrow>
           a mod 4 = a' mod 4 \<and> b div 16 = b' div 16"
    and "sextet (b mod 16 * 4) = sextet (b' mod 16 * 4) \<longleftrightarrow> b mod 16 = b' mod 16"
    and "sextet (b mod 16 * 4 + c div 64) = sextet (b' mod 16 * 4 + c' div 64) \<longleftrightarrow>
           b mod 16 = b' mod 16 \<and> c div 64 = c' div 64"
    and "sextet (c mod 64) = sextet (c' mod 64) \<longleftrightarrow> c mod 64 = c' mod 64"
proof -
  have bounds: "x div 4 < 64" "x mod 4 * 16 < 64" "x mod 4 * 16 + y div 16 < 64" "x div 16 < 16"
    "x mod 16 * 4 < 64" "x mod 16 * 4 + y div 64 < 64" "x div 64 < 4" "x mod 64 < 64"
    if "x < 256" "y < (256 :: nat)" for x y
    using that by linarith+
  note si = sextet_inj
  show "sextet (a div 4) = sextet (a' div 4) \<longleftrightarrow> a div 4 = a' div 4"
    using assms by (simp add: si bounds(1) [OF _ assms(1)])
  show "sextet (a mod 4 * 16) = sextet (a' mod 4 * 16) \<longleftrightarrow> a mod 4 = a' mod 4"
    by (simp add: si bounds(2) [OF assms(1,1)] bounds(2) [OF assms(4,4)])
  show "sextet (b mod 16 * 4) = sextet (b' mod 16 * 4) \<longleftrightarrow> b mod 16 = b' mod 16"
    by (simp add: si bounds(5) [OF assms(2,2)] bounds(5) [OF assms(5,5)])
  show "sextet (c mod 64) = sextet (c' mod 64) \<longleftrightarrow> c mod 64 = c' mod 64"
    by (simp add: si)
  show "sextet (a mod 4 * 16 + b div 16) = sextet (a' mod 4 * 16 + b' div 16) \<longleftrightarrow>
      a mod 4 = a' mod 4 \<and> b div 16 = b' div 16"
    using mixed_digits [of "a mod 4" 16 "b div 16" "a' mod 4" "b' div 16"]
      bounds(4) [OF assms(2,2)] bounds(4) [OF assms(5,5)]
    by (auto simp: si bounds(3) [OF assms(1,2)] bounds(3) [OF assms(4,5)])
  show "sextet (b mod 16 * 4 + c div 64) = sextet (b' mod 16 * 4 + c' div 64) \<longleftrightarrow>
      b mod 16 = b' mod 16 \<and> c div 64 = c' div 64"
    using mixed_digits [of "b mod 16" 4 "c div 64" "b' mod 16" "c' div 64"]
      bounds(7) [OF assms(3,3)] bounds(7) [OF assms(6,6)]
    by (auto simp: si bounds(6) [OF assms(2,3)] bounds(6) [OF assms(5,6)])
qed

lemma length_encodeBytes: "length (encodeBytes xs) = (4 * length xs + 2) div 3"
proof (induction xs rule: encodeBytes.induct)
  case (4 a b c rest)
  have "(4 * (n + 3) + 2) div 3 = 4 + (4 * n + 2) div (3 :: nat)" for n
    by presburger
  from this [of "length rest"] 4 show ?case by simp
qed simp_all

lemma encodeBytes_inj:
  "length xs = length ys \<Longrightarrow> \<forall>x \<in> set xs. x < 256 \<Longrightarrow> \<forall>y \<in> set ys. y < 256 \<Longrightarrow>
     encodeBytes xs = encodeBytes ys \<Longrightarrow> xs = ys"
proof (induction xs arbitrary: ys rule: encodeBytes.induct)
  case 1
  then show ?case by simp
next
  case (2 a)
  then obtain a' where ys: "ys = [a']" by (cases ys) auto
  with 2 sextet_parts [of a 0 0 a' 0 0] show ?case by (auto intro: byte_split)
next
  case (3 a b)
  then obtain a' b' where ys: "ys = [a', b']" by (cases ys; cases "tl ys") auto
  with 3 sextet_parts [of a b 0 a' b' 0] show ?case by (auto intro: byte_split)
next
  case (4 a b c rest)
  then obtain a' b' c' rest' where ys: "ys = a' # b' # c' # rest'"
    by (cases ys; cases "tl ys"; cases "tl (tl ys)") auto
  with 4 have "rest = rest'" by simp
  with 4 ys sextet_parts [of a b c a' b' c'] show ?case by (auto intro: byte_split)
qed

lemma base64_length: "length (base64 s) = (4 * length s + 2) div 3"
  by (simp add: base64_def length_encodeBytes)

lemma base64_inj: "base64 s = base64 t \<Longrightarrow> s = t"
proof -
  assume eq: "base64 s = base64 t"
  then have "(4 * length s + 2) div 3 = (4 * length t + 2) div 3"
    using base64_length [of s] base64_length [of t] by simp
  then have len: "length s = length t" by linarith
  have "map of_char s = (map of_char t :: nat list)"
    by (rule encodeBytes_inj) (use eq len in \<open>auto simp: base64_def\<close>)
  then show "s = t" by (metis (no_types, lifting) inj_map_eq_map inj_on_def of_char_eq_iff)
qed

lemma sextet_in: "n < 64 \<Longrightarrow> sextet n \<in> set alphabet"
  by (simp add: alphabet_length)

lemma encodeBytes_alphabet: "\<forall>x \<in> set xs. x < 256 \<Longrightarrow> set (encodeBytes xs) \<subseteq> set alphabet"
proof (induction xs rule: encodeBytes.induct)
  case (2 a)
  then have "a div 4 < 64" "a mod 4 * 16 < 64" by auto
  then show ?case by (simp add: sextet_in)
next
  case (3 a b)
  then have "a div 4 < 64" "a mod 4 * 16 + b div 16 < 64" "b mod 16 * 4 < 64" by auto
  then show ?case by (simp add: sextet_in)
next
  case (4 a b c rest)
  then have "a div 4 < 64" "a mod 4 * 16 + b div 16 < 64" "b mod 16 * 4 + c div 64 < 64" "c mod 64 < 64" by auto
  with 4 show ?case by (simp add: sextet_in)
qed simp

section \<open>Properties\<close>

text \<open>
  Workspaces and sessions with ids of at most 120 bytes never share a file: their path
  segments are equal only when the ids are.
\<close>

theorem short_ids_have_own_segment:
  assumes "length s \<le> 120" and "length t \<le> 120"
  shows "pathSegment sha s = pathSegment sha t \<longleftrightarrow> s = t"
proof
  assume eq: "pathSegment sha s = pathSegment sha t"
  have len: "length (base64 u) \<le> 160" if "length u \<le> 120" for u
  proof -
    have "(4 * length u + 2) div 3 \<le> 160" using that by linarith
    then show ?thesis by (simp add: base64_length)
  qed
  have seg: "pathSegment sha u = (if base64 u = [] then ''empty'' else base64 u)" if "length u \<le> 120" for u
    using len [OF that] by (simp add: pathSegment_def Let_def)
  have five: "length (base64 u) \<noteq> 5" for u by (simp add: base64_length) presburger
  have "base64 s = base64 t"
  proof (cases "base64 s = [] \<longleftrightarrow> base64 t = []")
    case True
    with eq assms show ?thesis by (auto simp: seg split: if_splits)
  next
    case False
    then have "length (base64 s) = 5 \<or> length (base64 t) = 5" 
      using arg_cong [OF eq, of length] assms by (auto simp: seg split: if_splits)
    with five show ?thesis by blast
  qed
  then show "s = t" by (rule base64_inj)
qed simp

theorem short_ids_have_own_segment_witness:
  "pathSegment id ''a/b'' \<noteq> pathSegment id ''a_b''"
  by (subst short_ids_have_own_segment) simp_all

text \<open>
  No id, however hostile, escapes its directory: a path segment is not empty and has only
  letters, digits, hyphens and underscores, so neither a separator nor a dot.
\<close>

theorem segments_stay_in_directory:
  assumes "\<And>u. set (sha u) \<subseteq> set ''0123456789abcdef''"
  shows "pathSegment sha k \<noteq> [] \<and> set (pathSegment sha k) \<subseteq> set alphabet \<and>
         CHR ''/'' \<notin> set (pathSegment sha k) \<and> CHR ''.'' \<notin> set (pathSegment sha k)"
proof -
  have "set (base64 k) \<subseteq> set alphabet" by (auto simp: base64_def intro!: encodeBytes_alphabet [THEN subsetD])
  moreover have "set ''0123456789abcdef'' \<subseteq> set alphabet" "set ''sha256-'' \<subseteq> set alphabet"
    "set ''empty'' \<subseteq> set alphabet" by (simp_all add: alphabet_def)
  ultimately have "set (pathSegment sha k) \<subseteq> set alphabet"
    using assms [of k] by (auto simp: pathSegment_def Let_def)
  moreover have "CHR ''/'' \<notin> set alphabet" "CHR ''.'' \<notin> set alphabet" by (simp_all add: alphabet_def)
  moreover have "pathSegment sha k \<noteq> []" by (simp add: pathSegment_def Let_def)
  ultimately show ?thesis by blast
qed

theorem segments_stay_in_directory_witness:
  "CHR ''/'' \<notin> set (pathSegment (\<lambda>_. replicate 64 (CHR ''0'')) ''../etc'')"
  using segments_stay_in_directory [of "\<lambda>_. replicate 64 (CHR ''0'')" "''../etc''"] by simp

end
