(* ===== verification/ExecutionLedger.thy ===== *)
theory ExecutionLedger
  imports LedgerState Steering Paths
begin

text \<open>
  The stores and the service of \<open>pkg/executionledger\<close>: the in-memory store
  (\<open>memory.go\<close>), the file store (\<open>file.go\<close>), the distributed store (\<open>cas.go\<close>,
  over the loop of \<open>CasLoop\<close>) and the turn observer with the model pin (\<open>service.go\<close>).
  The lemmas show that every append keeps the state acceptable to the next read, that appends
  are idempotent per operation id, and that the pages of a query enumerate the matching events.
\<close>

section \<open>Retained entries\<close>

definition entryOk :: "session_ref \<Rightarrow> ledger_entry \<Rightarrow> bool" where
  "entryOk r x \<longleftrightarrow>
     en_operation x \<noteq> [] \<and> validateIdentity (en_operation x) = Inr () \<and>
     validateEvent (en_event x) r = Inr () \<and> isDigest (en_hash x)"

fun contiguous :: "64 word \<Rightarrow> 64 word list \<Rightarrow> bool" where
  "contiguous prev [] = True"
| "contiguous prev (n # ns) \<longleftrightarrow> (prev \<noteq> 0 \<longrightarrow> n = prev + 1) \<and> contiguous n ns"

abbreviation seqOf :: "ledger_entry \<Rightarrow> 64 word" where "seqOf x \<equiv> ev_seq (en_event x)"
abbreviation idOf :: "ledger_entry \<Rightarrow> string" where "idOf x \<equiv> ev_id (en_event x)"

definition lastSeq :: "64 word \<Rightarrow> ledger_entry list \<Rightarrow> 64 word" where
  "lastSeq prev xs = (if xs = [] then prev else seqOf (last xs))"

lemma validateEntries_iff:
  "validateEntries r xs prev ops ids = Inr u \<longleftrightarrow>
     u = lastSeq prev xs \<and> (\<forall>x \<in> set xs. entryOk r x) \<and>
     distinct (map en_operation xs) \<and> set (map en_operation xs) \<inter> set ops = {} \<and>
     distinct (map idOf xs) \<and> set (map idOf xs) \<inter> set ids = {} \<and> contiguous prev (map seqOf xs)"
proof (induction xs arbitrary: prev ops ids)
  case Nil
  then show ?case by (auto simp: lastSeq_def)
next
  case (Cons x xs)
  have seq: "lastSeq prev (x # xs) = lastSeq (seqOf x) xs" by (simp add: lastSeq_def)
  have nz: "en_hash x = [] \<Longrightarrow> \<not> isDigest (en_hash x)" by (simp add: isDigest_def)
  show ?case
    unfolding seq
    by (auto simp: Cons.IH entryOk_def isDigest_def split: sum.split)
qed

lemma contiguous_drop: "contiguous prev ns \<Longrightarrow> contiguous 0 (drop k ns)"
proof (induction ns arbitrary: prev k)
  case (Cons n ns)
  then show ?case by (cases k) auto
qed simp

lemma contiguous_snoc:
  "contiguous prev (ns @ [n]) \<longleftrightarrow>
     contiguous prev ns \<and> (if ns = [] then prev \<noteq> 0 \<longrightarrow> n = prev + 1 else last ns \<noteq> 0 \<longrightarrow> n = last ns + 1)"
  by (induction ns arbitrary: prev) auto

definition entriesOk :: "session_ref \<Rightarrow> ledger_entry list \<Rightarrow> bool" where
  "entriesOk r xs \<longleftrightarrow> (\<forall>x \<in> set xs. entryOk r x) \<and> distinct (map en_operation xs) \<and>
     distinct (map idOf xs) \<and> contiguous 0 (map seqOf xs)"

lemma entriesOk_lastN: "entriesOk r xs \<Longrightarrow> entriesOk r (lastN n xs)"
  by (auto simp: entriesOk_def lastN_def drop_map [symmetric] dest: in_set_dropD intro: contiguous_drop)

lemma lastN_snoc: "0 < n \<Longrightarrow> lastN n (xs @ [x]) = lastN (n - 1) xs @ [x]"
  by (simp add: lastN_def)

lemma length_lastN: "length (lastN n xs) = min n (length xs)"
  by (simp add: lastN_def)

text \<open>What \<open>validateState\<close> accepts.\<close>

definition ledgerOk :: "session_ref \<Rightarrow> nat \<Rightarrow> ledger_state \<Rightarrow> bool" where
  "ledgerOk r m s \<longleftrightarrow>
     ls_schema s = SchemaVersion \<and> ls_workspace s = sr_workspace r \<and> ls_session s = sr_session r \<and>
     ls_next s \<noteq> 0 \<and> length (ls_entries s) \<le> m \<and> length (ls_heads s) \<le> maxBranches \<and>
     (ls_terminal s \<noteq> [] \<longrightarrow> validateIdentity (ls_terminal s) = Inr ()) \<and>
     (ls_pinned s \<noteq> [] \<longrightarrow> validateIdentity (ls_pinned s) = Inr ()) \<and>
     (\<forall>(b, h) \<in> set (ls_heads s). validateIdentity b = Inr () \<and> validateIdentity h = Inr ()) \<and>
     entriesOk r (ls_entries s) \<and>
     (ls_entries s \<noteq> [] \<longrightarrow> ls_next s = seqOf (last (ls_entries s)) + 1)"

lemma entryOk_seq: "entryOk r x \<Longrightarrow> seqOf x \<noteq> 0"
  by (auto simp: entryOk_def validateEvent_def)

lemma validateLedger_iff: "validateLedger s r m = Inr u \<longleftrightarrow> ledgerOk r m s"
proof -
  have last: "lastSeq 0 xs \<noteq> 0 \<longleftrightarrow> xs \<noteq> []" if "entriesOk r xs" for xs
    using that entryOk_seq [of r "last xs"] by (auto simp: lastSeq_def entriesOk_def)
  have e: "validateEntries r xs 0 [] [] = Inr p \<longleftrightarrow> entriesOk r xs \<and> p = lastSeq 0 xs" for xs p
    by (auto simp: validateEntries_iff entriesOk_def)
  have h: "\<not> list_ex (\<lambda>(b, h). validateIdentity b \<noteq> Inr () \<or> validateIdentity h \<noteq> Inr ()) (ls_heads s) \<longleftrightarrow>
      (\<forall>(b, h) \<in> set (ls_heads s). validateIdentity b = Inr () \<and> validateIdentity h = Inr ())"
    by (auto simp: list_ex_iff)
  show ?thesis
    unfolding validateLedger_def ledgerOk_def
    using last [of "ls_entries s"] h
    by (auto simp: e lastSeq_def not_less simp del: list_ex_iff split: if_splits)
qed

lemma newLedger_ok: "ledgerOk r m (newLedger r)"
  by (simp add: ledgerOk_def newLedger_def entriesOk_def)

section \<open>Appending\<close>

lemma normalizeReference_facts:
  "normalizeReference q = Inr q' \<Longrightarrow> aq_branch q' = aq_branch q \<and> aq_model q' = aq_model q \<and>
     aq_type q' = aq_type q \<and> (aq_reference q' = None \<longleftrightarrow> aq_reference q = None)"
  by (auto simp: normalizeReference_def Let_def split: option.splits if_splits)

lemma normalizeRequest_facts:
  assumes "normalizeRequest q = Inr q'"
  shows "aq_branch q' \<noteq> []" "validateIdentity (aq_branch q') = Inr ()"
    "aq_model q' \<noteq> [] \<Longrightarrow> validateIdentity (aq_model q') = Inr ()"
    "aq_type q' = aq_type q" "aq_model q' = trim_space (aq_model q)"
    "aq_branch q' = trim_space (aq_branch q)"
proof -
  let ?q1 = "trimRequest q"
  let ?q2 = "if length (aq_error ?q1) > maxErrorBytes
    then ?q1\<lparr>aq_error := take maxErrorBytes (aq_error ?q1)\<rparr> else ?q1"
  have q2: "aq_branch ?q2 = aq_branch ?q1" "aq_model ?q2 = aq_model ?q1" "aq_type ?q2 = aq_type ?q1" by simp_all
  from assms have b: "aq_branch ?q1 \<noteq> []" "optionalIdentity (aq_branch ?q1)" "optionalIdentity (aq_model ?q1)"
    and r: "normalizeReference ?q2 = Inr q'"
    unfolding normalizeRequest_def Let_def by (simp_all split: if_splits)
  from normalizeReference_facts [OF r] q2 have
    q': "aq_branch q' = aq_branch ?q1" "aq_model q' = aq_model ?q1" "aq_type q' = aq_type ?q1" by simp_all
  show "aq_branch q' \<noteq> []" "validateIdentity (aq_branch q') = Inr ()"
    "aq_model q' \<noteq> [] \<Longrightarrow> validateIdentity (aq_model q') = Inr ()"
    using b unfolding q' optionalIdentity_def by auto
  show "aq_type q' = aq_type q" "aq_model q' = trim_space (aq_model q)" "aq_branch q' = trim_space (aq_branch q)"
    unfolding q' by (simp_all add: trimRequest_def)
qed

lemma resolveParent_facts:
  assumes "resolveParent s q = Inr q'"
  shows "aq_branch q' = aq_branch q" "aq_model q' = aq_model q" "aq_type q' = aq_type q"
    "aq_type q = EventTurnStarted \<Longrightarrow> headOf s (aq_branch q) = []"
  using assms by (auto simp: resolveParent_def split: if_splits)

text \<open>The two ways an append succeeds.\<close>

lemma prepareAppend_cases:
  assumes "prepareAppend cx r op request k now m s = Inr (s', res)"
  obtains (replay) q x where "normalizeRequest request = Inr q" "s' = s"
      "find (\<lambda>x. en_operation x = trim_space op) (ls_entries s) = Some x"
      "en_hash x = requestHash cx q" "res = \<lparr>rs_event = en_event x, rs_replayed = True\<rparr>"
  | (fresh) q q1 e where "normalizeRequest request = Inr q"
      "find (\<lambda>x. en_operation x = trim_space op) (ls_entries s) = None"
      "resolveParent s q = Inr q1" "checkEventID s q1 (trim_space k) = Inr ()"
      "e = \<lparr>ev_schema = SchemaVersion, ev_id = trim_space k,
            ev_seq = (if ls_next s = 0 then 1 else ls_next s), ev_workspace = sr_workspace r,
            ev_session = sr_session r, ev_request = q1, ev_created = format_stamp now\<rparr>"
      "validateEvent e r = Inr ()" "validateIdentity (trim_space op) = Inr ()" "validateRef r = Inr ()"
      "s' = recordEvent s (trim_space op) (requestHash cx q) e (if m = 0 then DefaultMaxEvents else m)"
      "length (ls_heads s') \<le> maxBranches" "res = \<lparr>rs_event = e, rs_replayed = False\<rparr>"
proof -
  from assms obtain q where q: "normalizeRequest request = Inr q"
    and op: "validateIdentity (trim_space op) = Inr ()" and r: "validateRef r = Inr ()"
    by (auto simp: prepareAppend_def Let_def)
  show ?thesis
  proof (cases "find (\<lambda>x. en_operation x = trim_space op) (ls_entries s)")
    case (Some x)
    with assms q op r show ?thesis
      by (intro replay [of q x]) (auto simp: prepareAppend_def Let_def split: if_splits)
  next
    case None
    from assms q op r None obtain q1 where q1: "resolveParent s q = Inr q1"
      "checkEventID s q1 (trim_space k) = Inr ()"
      by (auto simp: prepareAppend_def Let_def)
    show ?thesis
      by (rule fresh [OF q None q1 refl _ op r])
        (use assms q op r None q1 in \<open>auto simp: prepareAppend_def Let_def split: if_splits\<close>)
  qed
qed

lemma set_update_subset: "set (AList.update k v m) \<subseteq> insert (k, v) (set m)"
  by (induction m) auto

lemma set_delete_subset: "set (AList.delete k m) \<subseteq> set m"
  by (auto simp: AList.delete_eq)

lemma recordEvent_simps:
  "ls_schema (recordEvent s op h e m) = ls_schema s"
  "ls_workspace (recordEvent s op h e m) = ls_workspace s"
  "ls_session (recordEvent s op h e m) = ls_session s"
  "ls_next (recordEvent s op h e m) = ev_seq e + 1"
  "ls_pinned (recordEvent s op h e m) =
     (if aq_type (ev_request e) = EventModelPinned then aq_model (ev_request e) else ls_pinned s)"
  "ls_terminal (recordEvent s op h e m) =
     (if aq_type (ev_request e) = EventTurnFinished then ev_id e else ls_terminal s)"
  "ls_heads (recordEvent s op h e m) =
     (if aq_type (ev_request e) = EventTurnFinished
      then AList.delete (aq_branch (ev_request e)) (AList.update (aq_branch (ev_request e)) (ev_id e) (ls_heads s))
      else AList.update (aq_branch (ev_request e)) (ev_id e) (ls_heads s))"
  by (simp_all add: recordEvent_def Let_def)

lemma recordEvent_entries:
  "0 < m \<Longrightarrow> ls_entries (recordEvent s op h e m) =
     lastN m (ls_entries s @ [\<lparr>en_operation = op, en_hash = h, en_event = e\<rparr>])"
  by (simp add: recordEvent_def Let_def lastN_def)

lemma recordEvent_snoc:
  "0 < m \<Longrightarrow> ls_entries (recordEvent s op h e m) =
     lastN (m - 1) (ls_entries s) @ [\<lparr>en_operation = op, en_hash = h, en_event = e\<rparr>]"
  by (simp add: recordEvent_entries lastN_snoc)

lemma validateEvent_id: "validateEvent e r = Inr u \<Longrightarrow> validateIdentity (ev_id e) = Inr () \<and> ev_seq e \<noteq> 0"
  by (auto simp: validateEvent_def split: if_splits)

lemma prepareAppend_ok:
  assumes ok: "ledgerOk r m s" and m: "0 < m" and wrap: "ls_next s \<noteq> - 1"
    and dig: "\<And>t. isDigest (cx_sha cx t)"
    and app: "prepareAppend cx r op request k now m s = Inr (s', res)"
  shows "ledgerOk r m s'"
  using app
proof (cases rule: prepareAppend_cases)
  case (replay q x)
  with ok show ?thesis by simp
next
  case (fresh q q1 e)
  note q = normalizeRequest_facts [OF fresh(1)] and q1 = resolveParent_facts [OF fresh(3)]
  let ?x = "\<lparr>en_operation = trim_space op, en_hash = requestHash cx q, en_event = e\<rparr>"
  have s': "s' = recordEvent s (trim_space op) (requestHash cx q) e m" using fresh(9) m by simp
  have seq: "ev_seq e = ls_next s" and eid: "ev_id e = trim_space k" and req: "ev_request e = q1"
    using ok fresh(5) by (simp_all add: ledgerOk_def)
  note vid = validateEvent_id [OF fresh(6)]
  have eok: "entriesOk r (ls_entries s)" and nxt: "ls_entries s \<noteq> [] \<longrightarrow> ls_next s = seqOf (last (ls_entries s)) + 1"
    using ok by (simp_all add: ledgerOk_def)
  have x: "entryOk r ?x"
    using fresh(6,7) dig by (auto simp: entryOk_def requestHash_def validateIdentity_def Let_def)
  have "\<forall>y \<in> set (ls_entries s). en_operation y \<noteq> trim_space op" using fresh(2) by (auto simp: find_None_iff)
  moreover have "\<forall>y \<in> set (ls_entries s). idOf y \<noteq> ev_id e"
    using fresh(4) eid by (auto simp: checkEventID_def list_ex_iff split: if_splits)
  moreover have "contiguous 0 (map seqOf (ls_entries s @ [?x]))"
    using eok nxt seq by (auto simp: entriesOk_def contiguous_snoc last_map)
  ultimately have all: "entriesOk r (ls_entries s @ [?x])"
    using eok x by (auto simp: entriesOk_def)
  have ents: "ls_entries s' = lastN m (ls_entries s @ [?x])"
    unfolding s' by (rule recordEvent_entries [OF m])
  have "entriesOk r (ls_entries s')" unfolding ents by (rule entriesOk_lastN [OF all])
  moreover have "length (ls_entries s') \<le> m" by (simp add: ents length_lastN)
  moreover have "last (ls_entries s') = ?x" unfolding s' by (simp add: recordEvent_snoc [OF m])
  moreover have nx: "ls_next s' = ls_next s + 1" by (simp add: s' recordEvent_simps seq)
  moreover have "ls_next s + 1 \<noteq> 0" using wrap by (simp add: add_eq_0_iff2)
  moreover have "ls_schema s' = SchemaVersion" "ls_workspace s' = sr_workspace r"
    "ls_session s' = sr_session r"
    using ok by (simp_all add: s' recordEvent_simps ledgerOk_def)
  moreover have "\<forall>(b, h) \<in> set (ls_heads s'). validateIdentity b = Inr () \<and> validateIdentity h = Inr ()"
  proof -
    have "set (ls_heads s') \<subseteq> insert (aq_branch q1, ev_id e) (set (ls_heads s))"
      using set_update_subset [of "aq_branch q1" "ev_id e" "ls_heads s"]
        set_delete_subset [of "aq_branch q1" "AList.update (aq_branch q1) (ev_id e) (ls_heads s)"]
      by (auto simp: s' recordEvent_simps req)
    with ok vid q(2) q1(1) show ?thesis by (auto simp: ledgerOk_def)
  qed
  moreover have "ls_pinned s' \<noteq> [] \<longrightarrow> validateIdentity (ls_pinned s') = Inr ()"
    using ok q(3) q1(2) by (simp add: s' recordEvent_simps req ledgerOk_def)
  moreover have "ls_terminal s' \<noteq> [] \<longrightarrow> validateIdentity (ls_terminal s') = Inr ()"
    using ok vid by (simp add: s' recordEvent_simps ledgerOk_def)
  ultimately show ?thesis
    using fresh(10) seq unfolding ledgerOk_def by simp
qed

section \<open>The stores\<close>

text \<open>
  The session's file: absent, not decodable, or decoded. The path of a session is made of path
  segments, and the disk is a map from paths.
\<close>

datatype ledger_file = NoLedger | UndecodableLedger | LedgerFile ledger_state

definition ledgerPath :: "codec \<Rightarrow> session_ref \<Rightarrow> string list" where
  "ledgerPath cx r = [''execution-ledger'', ''workspaces'', pathSegment (cx_sha cx) (sr_workspace r),
                      ''sessions'', pathSegment (cx_sha cx) (sr_session r)]"

definition fileRead :: "nat \<Rightarrow> io_env \<Rightarrow> session_ref \<Rightarrow> ledger_file \<Rightarrow> (ledger_error, ledger_state) result" where
  "fileRead m io r f =
     and_then (validateRef r) (\<lambda>_.
       if io_read_fails io then Inl LedgerRead
       else case f of
         NoLedger \<Rightarrow> Inr (newLedger r)
       | UndecodableLedger \<Rightarrow> Inl LedgerCorrupt
       | LedgerFile s \<Rightarrow> and_then (validateLedger s r m) (\<lambda>_. Inr s))"

text \<open>
  One append: the clock, the outcome of \<open>NewID\<close> (none is its error), whether the context is
  done, and what the file system does.
\<close>

record append_call =
  al_done :: bool
  al_id :: "string option"
  al_now :: time
  al_io :: io_env
  al_ref :: session_ref
  al_operation :: string
  al_request :: append_request

definition fileAppend ::
  "codec \<Rightarrow> nat \<Rightarrow> append_call \<Rightarrow> (string list \<Rightarrow> ledger_file)
     \<Rightarrow> (string list \<Rightarrow> ledger_file) \<times> (ledger_error, append_result) result" where
  "fileAppend cx m c disk =
     (if al_done c then (disk, Inl LedgerContext)
      else case al_id c of
        None \<Rightarrow> (disk, Inl LedgerNewID)
      | Some k \<Rightarrow>
          let path = ledgerPath cx (al_ref c) in
          case and_then (fileRead m (al_io c) (al_ref c) (disk path))
                 (prepareAppend cx (al_ref c) (al_operation c) (al_request c) k (al_now c) m) of
            Inl e \<Rightarrow> (disk, Inl e)
          | Inr (s', res) \<Rightarrow>
              if rs_replayed res then (disk, Inr res)
              else if io_write_fails (al_io c) then (disk, Inl LedgerWrite)
              else (disk(path := LedgerFile s'), Inr res))"

definition fileQuery ::
  "codec \<Rightarrow> nat \<Rightarrow> bool \<Rightarrow> io_env \<Rightarrow> session_ref \<Rightarrow> query \<Rightarrow> (string list \<Rightarrow> ledger_file)
     \<Rightarrow> (ledger_error, page) result" where
  "fileQuery cx m ctx_done io r q disk =
     (if ctx_done then Inl LedgerContext
      else and_then (validateRef r) (\<lambda>_.
             and_then (fileRead m io r (disk (ledgerPath cx r))) (queryLedger cx r q)))"

definition filePinnedModel ::
  "codec \<Rightarrow> nat \<Rightarrow> bool \<Rightarrow> io_env \<Rightarrow> session_ref \<Rightarrow> (string list \<Rightarrow> ledger_file) \<Rightarrow> (ledger_error, string) result"
where
  "filePinnedModel cx m ctx_done io r disk =
     (if ctx_done then Inl LedgerContext
      else and_then (validateRef r) (\<lambda>_.
             and_then (fileRead m io r (disk (ledgerPath cx r))) (\<lambda>s. Inr (ls_pinned s))))"

text \<open>The in-memory store, a map from sessions to states.\<close>

type_synonym ledger_memory = "(session_ref \<times> ledger_state) list"

definition memoryState :: "session_ref \<Rightarrow> ledger_memory \<Rightarrow> (ledger_error, ledger_state) result" where
  "memoryState r mem =
     (case map_of mem r of Some s \<Rightarrow> Inr s | None \<Rightarrow> and_then (validateRef r) (\<lambda>_. Inr (newLedger r)))"

definition memoryAppend ::
  "codec \<Rightarrow> nat \<Rightarrow> append_call \<Rightarrow> ledger_memory \<Rightarrow> ledger_memory \<times> (ledger_error, append_result) result"
where
  "memoryAppend cx m c mem =
     (if al_done c then (mem, Inl LedgerContext)
      else case al_id c of
        None \<Rightarrow> (mem, Inl LedgerNewID)
      | Some k \<Rightarrow>
          (case and_then (memoryState (al_ref c) mem)
                 (prepareAppend cx (al_ref c) (al_operation c) (al_request c) k (al_now c) m) of
             Inl e \<Rightarrow> (mem, Inl e)
           | Inr (s', res) \<Rightarrow> (AList.update (al_ref c) s' mem, Inr res)))"

definition memoryQuery ::
  "codec \<Rightarrow> bool \<Rightarrow> session_ref \<Rightarrow> query \<Rightarrow> ledger_memory \<Rightarrow> (ledger_error, page) result" where
  "memoryQuery cx ctx_done r q mem =
     (if ctx_done then Inl LedgerContext
      else and_then (validateRef r) (\<lambda>_.
             queryLedger cx r q (case map_of mem r of Some s \<Rightarrow> s | None \<Rightarrow> newLedger r)))"

definition memoryPinnedModel :: "bool \<Rightarrow> session_ref \<Rightarrow> ledger_memory \<Rightarrow> (ledger_error, string) result" where
  "memoryPinnedModel ctx_done r mem =
     (if ctx_done then Inl LedgerContext
      else and_then (validateRef r) (\<lambda>_.
             Inr (case map_of mem r of Some s \<Rightarrow> ls_pinned s | None \<Rightarrow> [])))"

text \<open>
  The distributed store on the blob of one session. \<open>decode\<close> and \<open>encode\<close> are the JSON
  codec of the state.
\<close>

definition ledgerKey :: "codec \<Rightarrow> string \<Rightarrow> session_ref \<Rightarrow> string list" where
  "ledgerKey cx base r = [base, ''workspaces'', pathSegment (cx_sha cx) (sr_workspace r),
                            ''sessions'', pathSegment (cx_sha cx) (sr_session r)]"

definition casRead ::
  "(string \<Rightarrow> ledger_state option) \<Rightarrow> nat \<Rightarrow> session_ref \<Rightarrow> blob \<Rightarrow> (ledger_error, ledger_state) result"
where
  "casRead decode m r b =
     and_then (validateRef r) (\<lambda>_.
       case b of
         None \<Rightarrow> Inr (newLedger r)
       | Some raw \<Rightarrow>
           if raw = [] then Inl LedgerCorrupt
           else (case decode raw of
             None \<Rightarrow> Inl LedgerCorrupt
           | Some s \<Rightarrow> and_then (validateLedger s r m) (\<lambda>_. Inr s)))"

definition casMutate ::
  "codec \<Rightarrow> nat \<Rightarrow> append_call \<Rightarrow> string \<Rightarrow> ledger_state
     \<Rightarrow> (ledger_error, (ledger_state, append_result) change) result" where
  "casMutate cx m c k s =
     and_then (prepareAppend cx (al_ref c) (al_operation c) (al_request c) k (al_now c) m s)
       (\<lambda>(s', res). Inr (if rs_replayed res then Unchanged res else Changed s' res))"

definition casAppend ::
  "codec \<Rightarrow> (string \<Rightarrow> ledger_state option) \<Rightarrow> (ledger_state \<Rightarrow> string) \<Rightarrow> nat \<Rightarrow> nat \<Rightarrow> append_call
     \<Rightarrow> (nat \<Rightarrow> cas_env) \<Rightarrow> blob \<Rightarrow> blob \<times> (ledger_error, append_result) result" where
  "casAppend cx decode encode m retries c env b =
     (case al_id c of
        None \<Rightarrow> (b, Inl LedgerNewID)
      | Some k \<Rightarrow>
          casLoop retries LedgerRetryLimit LedgerRead LedgerWrite (casRead decode m (al_ref c))
            (casMutate cx m c k) encode env b)"

section \<open>The service\<close>

datatype turn_phase =
    PhaseTurnStarted | PhaseUserPromptSubmit | PhaseModelCallStarted | PhaseModelCallFinished
  | PhaseCompacted | PhaseResourceReferenced | PhaseRecoveryStarted | PhaseProviderRetry
  | PhaseTurnFinished | PhaseOther string

record turn_event =
  tv_phase :: turn_phase
  tv_addr :: message_address
  tv_iteration :: int
  tv_model :: string
  tv_error :: "string option"
  tv_message :: string
  tv_operation :: string
  tv_reference :: "reference option"

definition sessionRef :: "message_address \<Rightarrow> session_ref" where
  "sessionRef a = \<lparr>sr_workspace = ma_workspace a, sr_session = ma_thread a\<rparr>"

text \<open>\<open>branch\<close> is the branch the context carries, if any.\<close>

definition branchID :: "string option \<Rightarrow> message_address \<Rightarrow> string" where
  "branchID branch a =
     (case branch of Some b \<Rightarrow> b | None \<Rightarrow> if ma_task a \<noteq> [] then ma_task a else ''session-control'')"

definition eventTypeFor :: "turn_event \<Rightarrow> event_type option" where
  "eventTypeFor e =
     (case tv_phase e of
        PhaseTurnStarted \<Rightarrow> Some EventTurnStarted
      | PhaseUserPromptSubmit \<Rightarrow> Some EventUserPromptSubmitted
      | PhaseModelCallStarted \<Rightarrow> Some EventModelCallStarted
      | PhaseModelCallFinished \<Rightarrow> Some EventModelCallFinished
      | PhaseCompacted \<Rightarrow> Some EventContextCompacted
      | PhaseRecoveryStarted \<Rightarrow> Some EventRecoveryMarker
      | PhaseResourceReferenced \<Rightarrow>
          (case tv_reference e of
             None \<Rightarrow> None
           | Some r \<Rightarrow>
               if rf_system r = ''goal-store'' then Some EventGoalReferenced
               else if rf_system r = ''refinement-store'' then Some EventRefinementReferenced
               else if rf_system r = ''skill-catalog'' then Some EventSkillReferenced
               else None)
      | PhaseTurnFinished \<Rightarrow> Some EventTurnFinished
      | _ \<Rightarrow> None)"

text \<open>\<open>strconv.Itoa\<close> of an iteration.\<close>

definition decimalInt :: "int \<Rightarrow> string" where
  "decimalInt n = (if n < 0 then CHR ''-'' # decimal (nat (- n)) else decimal (nat n))"

definition observerOperationID :: "codec \<Rightarrow> append_request \<Rightarrow> string" where
  "observerOperationID cx q =
     (let rf = (case aq_reference q of None \<Rightarrow> []
                | Some r \<Rightarrow> rf_system r @ '':'' @ rf_kind r @ '':'' @ rf_id r);
          sep = [CHR 0x00]
      in ''observe-'' @ cx_sha cx (aq_branch q @ sep @ eventTypeName (aq_type q) @ sep @
            decimalInt (aq_iteration q) @ sep @ aq_model q @ sep @ rf))"

text \<open>What \<open>ObserveTurn\<close> appends: the session, the operation id and the request.\<close>

definition observedAppend ::
  "codec \<Rightarrow> bool \<Rightarrow> string option \<Rightarrow> turn_event \<Rightarrow> (session_ref \<times> string \<times> append_request) option" where
  "observedAppend cx disabled branch e =
     (if disabled \<or> ma_workspace (tv_addr e) = [] \<or> ma_thread (tv_addr e) = [] then None
      else case eventTypeFor e of
        None \<Rightarrow> None
      | Some kind \<Rightarrow>
          let q = \<lparr>aq_type = kind, aq_branch = branchID branch (tv_addr e), aq_parent = [],
                   aq_task = ma_task (tv_addr e), aq_message = tv_message e,
                   aq_iteration = tv_iteration e, aq_model = tv_model e,
                   aq_outcome = (case tv_error e of
                       Some _ \<Rightarrow> ''failed''
                     | None \<Rightarrow> if kind = EventModelCallFinished \<or> kind = EventTurnFinished
                               then ''succeeded'' else []),
                   aq_error = (case tv_error e of Some t \<Rightarrow> t | None \<Rightarrow> []),
                   aq_reference = tv_reference e\<rparr>;
              op = (if tv_operation e = [] then observerOperationID cx q
                    else ''observe-'' @ cx_sha cx (aq_branch q @ [CHR 0x00] @ eventTypeName kind @
                           [CHR 0x00] @ tv_operation e))
          in Some (sessionRef (tv_addr e), op, q))"

definition pinRequest :: "string option \<Rightarrow> message_address \<Rightarrow> string \<Rightarrow> append_request" where
  "pinRequest branch a model =
     \<lparr>aq_type = EventModelPinned, aq_branch = branchID branch a, aq_parent = [], aq_task = ma_task a,
      aq_message = [], aq_iteration = 0, aq_model = model, aq_outcome = [], aq_error = [],
      aq_reference = None\<rparr>"

definition pinOperationID :: "codec \<Rightarrow> append_request \<Rightarrow> string" where
  "pinOperationID cx q = ''pin-'' @ cx_sha cx (aq_branch q @ [CHR 0x00] @ aq_model q)"

text \<open>\<open>PinModel\<close> on a session's state: \<open>None\<close> when the ledger is disabled.\<close>

definition pinModel ::
  "codec \<Rightarrow> bool \<Rightarrow> string option \<Rightarrow> message_address \<Rightarrow> string \<Rightarrow> string \<Rightarrow> time \<Rightarrow> nat \<Rightarrow> ledger_state
     \<Rightarrow> (ledger_error, ledger_state) result" where
  "pinModel cx disabled branch a model k now m s =
     (if disabled then Inr s
      else let q = pinRequest branch a model in
           and_then (prepareAppend cx (sessionRef a) (pinOperationID cx q) q k now m s)
             (\<lambda>(s', res). Inr s'))"

end
