(* ===== verification/LedgerProofs.thy ===== *)
theory LedgerProofs
  imports ExecutionLedger
begin

text \<open>
  What the execution ledger promises: appends are idempotent per operation id, turns of a branch
  alternate between started and finished, the file store stays readable, the distributed store
  commits atomically, and the pages of a query enumerate the matching events newest first.
\<close>

section \<open>Idempotence\<close>

lemma find_append: "find P (xs @ ys) = (case find P xs of None \<Rightarrow> find P ys | Some x \<Rightarrow> Some x)"
  by (induction xs) auto

lemma find_lastN_None: "find P xs = None \<Longrightarrow> find P (lastN n xs) = None"
  by (auto simp: find_None_iff lastN_def dest: in_set_dropD)

lemma prepareAppend_again:
  assumes "prepareAppend cx r op request k now m s = Inr (s', res)"
  shows "\<exists>q x. normalizeRequest request = Inr q \<and> validateIdentity (trim_space op) = Inr () \<and>
    validateRef r = Inr () \<and> find (\<lambda>x. en_operation x = trim_space op) (ls_entries s') = Some x \<and>
    en_hash x = requestHash cx q \<and> en_event x = rs_event res"
proof -
  from assms have v: "validateIdentity (trim_space op) = Inr ()" "validateRef r = Inr ()"
    by (auto simp: prepareAppend_def Let_def)
  from assms show ?thesis
  proof (cases rule: prepareAppend_cases)
    case (replay q x)
    with v show ?thesis by auto
  next
    case (fresh q q1 e)
    let ?m = "if m = 0 then DefaultMaxEvents else m"
    have m: "0 < ?m" by (simp add: DefaultMaxEvents_def)
    have "find (\<lambda>x. en_operation x = trim_space op) (ls_entries s') =
        Some \<lparr>en_operation = trim_space op, en_hash = requestHash cx q, en_event = e\<rparr>"
      unfolding fresh(9) recordEvent_snoc [OF m] find_append
      by (simp add: find_lastN_None [OF fresh(2)])
    with fresh v show ?thesis by auto
  qed
qed

section \<open>Turns of a branch alternate\<close>

text \<open>
  Read the retained entries oldest first: a branch is open after any of its events except
  \<open>turn_finished\<close>, and \<open>turn_started\<close> must find it closed. Nothing is known of
  what was evicted, so the reading starts closed, which accepts the most.
\<close>

fun turnsAlternate :: "string \<Rightarrow> bool \<Rightarrow> ledger_entry list \<Rightarrow> bool" where
  "turnsAlternate b opened [] = True"
| "turnsAlternate b opened (x # xs) =
     (let q = ev_request (en_event x) in
      if aq_branch q \<noteq> b then turnsAlternate b opened xs
      else (aq_type q = EventTurnStarted \<longrightarrow> \<not> opened) \<and>
           turnsAlternate b (aq_type q \<noteq> EventTurnFinished) xs)"

fun openedBy :: "string \<Rightarrow> bool \<Rightarrow> ledger_entry list \<Rightarrow> bool" where
  "openedBy b opened [] = opened"
| "openedBy b opened (x # xs) =
     (let q = ev_request (en_event x) in
      if aq_branch q \<noteq> b then openedBy b opened xs
      else openedBy b (aq_type q \<noteq> EventTurnFinished) xs)"

lemma turnsAlternate_closed: "turnsAlternate b opened xs \<Longrightarrow> turnsAlternate b False xs"
  by (induction b opened xs rule: turnsAlternate.induct) (auto simp: Let_def split: if_splits)

lemma openedBy_mono: "openedBy b False xs \<Longrightarrow> openedBy b True xs"
  by (induction xs) (auto simp: Let_def split: if_splits)

lemma turnsAlternate_tail: "turnsAlternate b opened (x # xs) \<Longrightarrow> turnsAlternate b False xs"
  by (auto simp: Let_def split: if_splits intro: turnsAlternate_closed)

lemma openedBy_tail: "openedBy b False xs \<Longrightarrow> openedBy b opened (x # xs)"
proof -
  assume o: "openedBy b False xs"
  then have "openedBy b y xs" for y by (cases y) (auto intro: openedBy_mono)
  then show ?thesis by (simp add: Let_def)
qed

lemma turnsAlternate_drop: "turnsAlternate b False xs \<Longrightarrow> turnsAlternate b False (drop n xs)"
proof (induction xs arbitrary: n)
  case (Cons x xs)
  then show ?case by (cases n) (auto dest: turnsAlternate_tail simp del: turnsAlternate.simps)
qed simp

lemma openedBy_drop: "openedBy b False (drop n xs) \<Longrightarrow> openedBy b False xs"
proof (induction xs arbitrary: n)
  case (Cons x xs)
  then show ?case by (cases n) (auto intro: openedBy_tail simp del: openedBy.simps)
qed simp

lemma turnsAlternate_snoc:
  "turnsAlternate b opened (xs @ [x]) \<longleftrightarrow> turnsAlternate b opened xs \<and>
     (aq_branch (ev_request (en_event x)) = b \<and> aq_type (ev_request (en_event x)) = EventTurnStarted
        \<longrightarrow> \<not> openedBy b opened xs)"
  by (induction b opened xs rule: turnsAlternate.induct) (auto simp: Let_def)

lemma openedBy_snoc:
  "openedBy b opened (xs @ [x]) \<longleftrightarrow>
     (if aq_branch (ev_request (en_event x)) \<noteq> b then openedBy b opened xs
      else aq_type (ev_request (en_event x)) \<noteq> EventTurnFinished)"
  by (induction b opened xs rule: openedBy.induct) (auto simp: Let_def)

text \<open>An open branch has a head.\<close>

definition branchesOk :: "ledger_state \<Rightarrow> bool" where
  "branchesOk s \<longleftrightarrow> (\<forall>b. turnsAlternate b False (ls_entries s) \<and>
     (openedBy b False (ls_entries s) \<longrightarrow> headOf s b \<noteq> []))"

lemma headOf_recordEvent:
  "headOf (recordEvent s op h e m) b =
     (if b \<noteq> aq_branch (ev_request e) then headOf s b
      else if aq_type (ev_request e) = EventTurnFinished then [] else ev_id e)"
  by (simp add: headOf_def recordEvent_simps)

lemma branchesOk_append:
  assumes ok: "branchesOk s" and app: "prepareAppend cx r op request k now m s = Inr (s', res)"
  shows "branchesOk s'"
  using app
proof (cases rule: prepareAppend_cases)
  case (replay q x)
  with ok show ?thesis by simp
next
  case (fresh q q1 e)
  let ?m = "if m = 0 then DefaultMaxEvents else m"
  let ?x = "\<lparr>en_operation = trim_space op, en_hash = requestHash cx q, en_event = e\<rparr>"
  let ?all = "ls_entries s @ [?x]"
  have m: "0 < ?m" by (simp add: DefaultMaxEvents_def)
  have req: "ev_request e = q1" "ev_id e \<noteq> []"
    using fresh(5,6) by (auto simp: validateEvent_def split: if_splits)
  note q1 = resolveParent_facts [OF fresh(3)]
  have ents: "ls_entries s' = drop (length ?all - ?m) ?all"
    unfolding fresh(9) recordEvent_entries [OF m] lastN_def ..
  have "turnsAlternate b False ?all" for b
    using ok q1 by (auto simp: turnsAlternate_snoc branchesOk_def req)
  moreover have "openedBy b False ?all \<longrightarrow> headOf s' b \<noteq> []" for b
    using ok req by (auto simp: openedBy_snoc branchesOk_def fresh(9) headOf_recordEvent)
  ultimately show ?thesis
    unfolding branchesOk_def ents by (blast intro: turnsAlternate_drop dest: openedBy_drop)
qed

text \<open>One session in memory, driven by append calls.\<close>

definition ledger_step ::
  "codec \<Rightarrow> session_ref \<Rightarrow> nat \<Rightarrow> string \<times> append_request \<times> string \<times> time \<Rightarrow> ledger_state \<Rightarrow> ledger_state" where
  "ledger_step cx r m c s =
     (case c of (op, request, k, now) \<Rightarrow> commit s (prepareAppend cx r op request k now m s))"

lemma ledger_step_inv:
  assumes "I s" "\<And>op request k now s' res. prepareAppend cx r op request k now m s = Inr (s', res) \<Longrightarrow> I s'"
  shows "I (ledger_step cx r m c s)"
proof -
  obtain op request k now where c: "c = (op, request, k, now)" by (cases c) auto
  show ?thesis unfolding c ledger_step_def prod.case by (rule commit_inv [of I]) (use assms in auto)
qed

lemma branchesOk_new: "branchesOk (newLedger r)"
  by (simp add: branchesOk_def newLedger_def)

interpretation ledger_branches: store_machine "newLedger r" "ledger_step cx r m" branchesOk for cx r m
  by unfold_locales (auto intro: branchesOk_new ledger_step_inv dest: branchesOk_append)

section \<open>The file store stays readable\<close>

text \<open>
  Every file is one that its session reads back, unless the 64-bit sequence number has been used
  up, after which reading it fails for ever.
\<close>

definition diskOk :: "codec \<Rightarrow> nat \<Rightarrow> (string list \<Rightarrow> ledger_file) \<Rightarrow> bool" where
  "diskOk cx m disk \<longleftrightarrow> (\<forall>path. disk path = NoLedger \<or>
     (\<exists>r s. path = ledgerPath cx r \<and> disk path = LedgerFile s \<and> (ledgerOk r m s \<or> ls_next s = 0)))"

lemma fileRead_Inr:
  "fileRead m io r f = Inr s \<Longrightarrow> ledgerOk r m s \<and> validateRef r = Inr () \<and> \<not> io_read_fails io"
  by (auto simp: fileRead_def validateLedger_iff newLedger_ok split: if_splits ledger_file.splits)

lemma prepareAppend_next:
  "prepareAppend cx r op request k now m s = Inr (s', res) \<Longrightarrow> ls_next s \<noteq> 0 \<Longrightarrow>
     ls_next s' = ls_next s \<or> ls_next s' = ls_next s + 1"
  by (erule prepareAppend_cases) (simp_all add: recordEvent_simps)

lemma prepareAppend_ok_or_wrapped:
  assumes "ledgerOk r m s" "0 < m" "\<And>t. isDigest (cx_sha cx t)"
    "prepareAppend cx r op request k now m s = Inr (s', res)"
  shows "ledgerOk r m s' \<or> ls_next s' = 0"
proof (cases "ls_next s = - 1")
  case True
  have "ls_next s \<noteq> 0" using assms(1) by (simp add: ledgerOk_def)
  from prepareAppend_next [OF assms(4) this] True
  consider "ls_next s' = 0" | "ls_next s' = ls_next s" by auto
  then show ?thesis
  proof cases
    case 2
    from assms(4) show ?thesis
    proof (cases rule: prepareAppend_cases)
      case (replay q x)
      with assms(1) show ?thesis by simp
    next
      case (fresh q q1 e)
      with True show ?thesis by (simp add: recordEvent_simps)
    qed
  qed simp
next
  case False
  with prepareAppend_ok [OF assms(1,2) _ assms(3,4)] show ?thesis by blast
qed

lemma fileAppend_diskOk:
  assumes "0 < m" "\<And>t. isDigest (cx_sha cx t)" "diskOk cx m disk"
  shows "diskOk cx m (fst (fileAppend cx m c disk))"
proof (cases "fst (fileAppend cx m c disk) = disk")
  case True
  with assms(3) show ?thesis by simp
next
  case False
  let ?path = "ledgerPath cx (al_ref c)"
  from False obtain k s s' res where k: "al_id c = Some k"
    and s: "fileRead m (al_io c) (al_ref c) (disk ?path) = Inr s"
    and app: "prepareAppend cx (al_ref c) (al_operation c) (al_request c) k (al_now c) m s = Inr (s', res)"
    and disk: "fst (fileAppend cx m c disk) = disk(?path := LedgerFile s')"
    by (auto simp: fileAppend_def Let_def split: if_splits option.splits sum.splits)
  from fileRead_Inr [OF s] have "ledgerOk (al_ref c) m s" by simp
  from prepareAppend_ok_or_wrapped [OF this assms(1,2) app] assms(3)
  show ?thesis unfolding disk diskOk_def by auto
qed

lemma ledger_files_machine:
  assumes "0 < m" "\<And>t. isDigest (cx_sha cx t)"
  shows "store_machine (\<lambda>_. NoLedger) (\<lambda>c disk. fst (fileAppend cx m c disk)) (diskOk cx m)"
proof unfold_locales
  show "diskOk cx m (\<lambda>_. NoLedger)" by (simp add: diskOk_def)
  show "diskOk cx m disk \<Longrightarrow> diskOk cx m (fst (fileAppend cx m c disk))" for disk c
    using assms by (intro fileAppend_diskOk) auto
qed

section \<open>The distributed store\<close>

text \<open>Fit to be stored: readable again, given real digests and an unexhausted sequence.\<close>

definition storedLedger :: "codec \<Rightarrow> session_ref \<Rightarrow> nat \<Rightarrow> ledger_state \<Rightarrow> bool" where
  "storedLedger cx r m s \<longleftrightarrow>
     (0 < m \<and> (\<forall>t. isDigest (cx_sha cx t)) \<and> ls_next s \<noteq> 0 \<longrightarrow> ledgerOk r m s)"

lemma casRead_ok: "casRead decode m r b = Inr s \<Longrightarrow> ledgerOk r m s"
  by (auto simp: casRead_def validateLedger_iff newLedger_ok split: option.splits if_splits)

lemma casMutate_cases:
  "casMutate cx m c k s = Inr (Changed s' r) \<longleftrightarrow>
     prepareAppend cx (al_ref c) (al_operation c) (al_request c) k (al_now c) m s = Inr (s', r) \<and> \<not> rs_replayed r"
  by (auto simp: casMutate_def split: if_splits)

text \<open>The operation is the event id; the other inputs of a call are fixed for its loop.\<close>

interpretation ledger_cas: cas_store "casRead decode m (al_ref c)" "casMutate cx m c" encode
  "ledgerOk (al_ref c) m" "storedLedger cx (al_ref c) m" for decode m c cx encode
proof unfold_locales
  show "casRead decode m (al_ref c) b = Inr s \<Longrightarrow> ledgerOk (al_ref c) m s" for b s
    by (rule casRead_ok)
  show "ledgerOk (al_ref c) m s \<Longrightarrow> casMutate cx m c k s = Inr (Changed s' r) \<Longrightarrow>
      storedLedger cx (al_ref c) m s'" for s k s' r
    unfolding casMutate_cases storedLedger_def
    using prepareAppend_ok_or_wrapped [of "al_ref c" m s cx] by blast
qed

section \<open>Paging\<close>

lemma scanEvents_split:
  assumes "scanEvents q out n a es = (out', n', a', rest)" "int (length out) < qy_limit q"
  shows "\<exists>seen. es = seen @ rest \<and> out' = out @ filter (\<lambda>e. matches e q) seen \<and> n' = n + length seen \<and>
    (rest \<noteq> [] \<longrightarrow> seen \<noteq> [] \<and> a' = ev_id (last seen)) \<and> int (length out') \<le> qy_limit q"
  using assms
proof (induction q out n a es rule: scanEvents.induct)
  case (1 q out n a)
  then show ?case by simp
next
  case (2 q out n a e es)
  consider (stop) "matches e q" "int (length (out @ [e])) = qy_limit q"
    | (more) "matches e q" "int (length (out @ [e])) \<noteq> qy_limit q" | (skip) "\<not> matches e q" by blast
  then show ?case
  proof cases
    case stop
    with "2.prems" show ?thesis by (intro exI [of _ "[e]"]) auto
  next
    case more
    with "2.prems" have "scanEvents q (out @ [e]) (n + 1) (ev_id e) es = (out', n', a', rest)"
      "int (length (out @ [e])) < qy_limit q" by (auto simp: Let_def)
    from "2.IH"(1) [OF more(1) refl more(2) this] obtain seen where
      s: "es = seen @ rest" "out' = (out @ [e]) @ filter (\<lambda>e. matches e q) seen" "n' = n + 1 + length seen"
      "rest \<noteq> [] \<longrightarrow> seen \<noteq> [] \<and> a' = ev_id (last seen)" "int (length out') \<le> qy_limit q" by blast
    with more(1) show ?thesis by (intro exI [of _ "e # seen"]) auto
  next
    case skip
    with "2.prems" have "scanEvents q out (n + 1) (ev_id e) es = (out', n', a', rest)" by simp
    from "2.IH"(2) [OF skip this "2.prems"(2)] obtain seen where
      s: "es = seen @ rest" "out' = out @ filter (\<lambda>e. matches e q) seen" "n' = n + 1 + length seen"
      "rest \<noteq> [] \<longrightarrow> seen \<noteq> [] \<and> a' = ev_id (last seen)" "int (length out') \<le> qy_limit q" by blast
    with skip show ?thesis by (intro exI [of _ "e # seen"]) auto
  qed
qed

text \<open>
  Following the page tokens from a first query; \<open>None\<close> when the fuel runs out.
\<close>

fun walkPages ::
  "nat \<Rightarrow> codec \<Rightarrow> session_ref \<Rightarrow> query \<Rightarrow> ledger_state \<Rightarrow> (ledger_error, ledger_event list) result option" where
  "walkPages 0 cx r q s = None"
| "walkPages (Suc n) cx r q s =
     (case queryLedger cx r q s of
        Inl e \<Rightarrow> Some (Inl e)
      | Inr pg \<Rightarrow>
          if pg_next pg = NoToken then Some (Inr (pg_events pg))
          else case walkPages n cx r (q\<lparr>qy_token := pg_next pg\<rparr>) s of
            None \<Rightarrow> None
          | Some (Inl e) \<Rightarrow> Some (Inl e)
          | Some (Inr es) \<Rightarrow> Some (Inr (pg_events pg @ es)))"

lemma normalizeQuery_token:
  assumes "normalizeQuery q = Inr q'" "t = NoToken \<or> t = Token c"
  shows "normalizeQuery (q\<lparr>qy_token := t\<rparr>) = Inr (q'\<lparr>qy_token := t\<rparr>)"
  using assms by (auto simp: normalizeQuery_def Let_def split: if_splits)

lemma normalizeQuery_limit: "normalizeQuery q = Inr q' \<Longrightarrow> 1 \<le> qy_limit q' \<and> qy_limit q' \<le> MaxQueryLimit"
  by (auto simp: normalizeQuery_def Let_def split: if_splits)

lemma normalizeQuery_keeps_token: "normalizeQuery q = Inr q' \<Longrightarrow> qy_token q' = qy_token q"
  by (auto simp: normalizeQuery_def Let_def split: if_splits)

lemma afterAnchor_split:
  "distinct (map ev_id (pre @ es)) \<Longrightarrow> pre \<noteq> [] \<Longrightarrow> afterAnchor (ev_id (last pre)) (pre @ es) = Some es"
  by (induction pre) (auto split: if_splits simp: image_iff)

lemma matches_token [simp]: "matches e (q\<lparr>qy_token := t\<rparr>) = matches e q"
  by (simp add: matches_def split: option.split)

lemma queryScope_token [simp]: "queryScope cx r (q\<lparr>qy_token := t\<rparr>) = queryScope cx r q"
  by (simp add: queryScope_def)

lemma queryLedger_page:
  assumes norm: "normalizeQuery q = Inr q'" and new: "rev (map en_event (ls_entries s)) = pre @ es"
    and dist: "distinct (map ev_id (pre @ es))" and ids: "\<forall>e \<in> set (pre @ es). ev_id e \<noteq> []"
    and tok: "if pre = [] then qy_token q = NoToken
      else qy_token q = Token \<lparr>cu_scope = queryScope cx r q', cu_after = ev_id (last pre)\<rparr>"
  shows "\<exists>seen rest. es = seen @ rest \<and> queryLedger cx r q s = Inr \<lparr>pg_events = filter (\<lambda>e. matches e q') seen,
     pg_next = (if rest \<noteq> [] then Token \<lparr>cu_scope = queryScope cx r q', cu_after = ev_id (last seen)\<rparr> else NoToken),
     pg_scanned = length seen\<rparr> \<and> (rest \<noteq> [] \<longrightarrow> seen \<noteq> []) \<and> length (filter (\<lambda>e. matches e q') seen) \<le> nat (qy_limit q')"
proof -
  obtain out n a rest where sc: "scanEvents q' [] 0 [] es = (out, n, a, rest)" by (metis prod_cases4)
  have lim: "int (length ([] :: ledger_event list)) < qy_limit q'" using normalizeQuery_limit [OF norm] by simp
  from scanEvents_split [OF sc lim] obtain seen where s: "es = seen @ rest" "out = filter (\<lambda>e. matches e q') seen"
    "n = length seen" "rest \<noteq> [] \<longrightarrow> seen \<noteq> [] \<and> a = ev_id (last seen)" "int (length out) \<le> qy_limit q'" by auto
  have start: "(if qy_token q' = NoToken then Inr (rev (map en_event (ls_entries s)))
      else and_then (decodeCursor (qy_token q') (queryScope cx r q')) (\<lambda>c.
        case afterAnchor (cu_after c) (rev (map en_event (ls_entries s))) of
          None \<Rightarrow> Inl LedgerInvalid | Some es \<Rightarrow> Inr es)) = Inr es"
  proof (cases "pre = []")
    case True
    with tok new normalizeQuery_keeps_token [OF norm] show ?thesis by simp
  next
    case False
    then have "ev_id (last pre) \<noteq> []" using ids by simp
    with False tok new normalizeQuery_keeps_token [OF norm] afterAnchor_split [OF dist False]
    show ?thesis by (simp add: decodeCursor_def)
  qed
  show ?thesis
    using s sc start norm by (intro exI [of _ seen] exI [of _ rest]) (auto simp: queryLedger_def Let_def)
qed

lemma walkPages_all:
  assumes "normalizeQuery q = Inr q'" "rev (map en_event (ls_entries s)) = pre @ es"
    and "distinct (map ev_id (pre @ es))" "\<forall>e \<in> set (pre @ es). ev_id e \<noteq> []"
    and "if pre = [] then qy_token q = NoToken
      else qy_token q = Token \<lparr>cu_scope = queryScope cx r q', cu_after = ev_id (last pre)\<rparr>"
    and "length es < n"
  shows "walkPages n cx r q s = Some (Inr (filter (\<lambda>e. matches e q') es))"
  using assms
proof (induction n arbitrary: q q' pre es)
  case (Suc n)
  from queryLedger_page [OF Suc.prems(1-5)] obtain seen rest where
    es: "es = seen @ rest" and pg: "queryLedger cx r q s = Inr \<lparr>pg_events = filter (\<lambda>e. matches e q') seen,
     pg_next = (if rest \<noteq> [] then Token \<lparr>cu_scope = queryScope cx r q', cu_after = ev_id (last seen)\<rparr> else NoToken),
     pg_scanned = length seen\<rparr>" and ne: "rest \<noteq> [] \<longrightarrow> seen \<noteq> []" by blast
  show ?case
  proof (cases "rest = []")
    case True
    with es pg show ?thesis by simp
  next
    case False
    let ?t = "Token \<lparr>cu_scope = queryScope cx r q', cu_after = ev_id (last seen)\<rparr>"
    have shorter: "length rest < n" using ne False es Suc.prems(6) by (cases seen) auto
    have "walkPages n cx r (q\<lparr>qy_token := ?t\<rparr>) s =
        Some (Inr (filter (\<lambda>e. matches e (q'\<lparr>qy_token := ?t\<rparr>)) rest))"
      by (rule Suc.IH [where pre = "pre @ seen"])
        (use Suc.prems es ne False shorter normalizeQuery_token [OF Suc.prems(1)] in auto)
    with pg es False show ?thesis by simp
  qed
qed simp

section \<open>A concrete session\<close>

definition exampleCodec :: codec where
  "exampleCodec =
     \<lparr>cx_sha = (\<lambda>t. replicate 63 (CHR ''0'') @ [if suffix ''large'' t then CHR ''1'' else CHR ''0'']),
      cx_request = (\<lambda>q. aq_model q), cx_query = (\<lambda>r q. [])\<rparr>"

lemma exampleCodec_digest: "isDigest (cx_sha exampleCodec t)"
  by (simp add: exampleCodec_def isDigest_def hexDigit_def list_all_iff)

definition exampleRef :: session_ref where
  "exampleRef = \<lparr>sr_workspace = ''w'', sr_session = ''t''\<rparr>"

definition exampleStart :: append_request where
  "exampleStart = \<lparr>aq_type = EventTurnStarted, aq_branch = ''b'', aq_parent = [], aq_task = [],
     aq_message = [], aq_iteration = 0, aq_model = [], aq_outcome = [], aq_error = [], aq_reference = None\<rparr>"

text \<open>The session after its first turn started.\<close>

definition exampleLedger :: ledger_state where
  "exampleLedger =
     \<lparr>ls_schema = 1, ls_workspace = ''w'', ls_session = ''t'', ls_next = 2,
      ls_entries = [\<lparr>en_operation = ''op1'', en_hash = replicate 64 (CHR ''0''),
         en_event = \<lparr>ev_schema = 1, ev_id = ''e1'', ev_seq = 1, ev_workspace = ''w'', ev_session = ''t'',
           ev_request = exampleStart, ev_created = Stamp 5\<rparr>\<rparr>],
      ls_heads = [(''b'', ''e1'')], ls_terminal = [], ls_pinned = []\<rparr>"

definition exampleAddr :: message_address where
  "exampleAddr = \<lparr>ma_tenant = [], ma_user = [], ma_ownership = [], ma_workspace = ''w'',
     ma_thread = ''t'', ma_task = []\<rparr>"

text \<open>The session after one pin.\<close>

definition pinnedOnce :: ledger_state where
  "pinnedOnce =
     \<lparr>ls_schema = 1, ls_workspace = ''w'', ls_session = ''t'', ls_next = 2,
      ls_entries = [\<lparr>en_operation = ''pin-'' @ replicate 64 (CHR ''0''), en_hash = replicate 64 (CHR ''0''),
         en_event = \<lparr>ev_schema = 1, ev_id = ''e1'', ev_seq = 1, ev_workspace = ''w'', ev_session = ''t'',
           ev_request = \<lparr>aq_type = EventModelPinned, aq_branch = ''session-control'', aq_parent = [],
             aq_task = [], aq_message = [], aq_iteration = 0, aq_model = ''small'', aq_outcome = [],
             aq_error = [], aq_reference = None\<rparr>,
           ev_created = Stamp 5\<rparr>\<rparr>],
      ls_heads = [(''session-control'', ''e1'')], ls_terminal = [], ls_pinned = ''small''\<rparr>"

lemma exampleLedger_ok: "ledgerOk exampleRef 8 exampleLedger"
proof -
  have "validateLedger exampleLedger exampleRef 8 = Inr ()" by code_simp
  then show ?thesis by (simp add: validateLedger_iff)
qed

section \<open>Properties\<close>

text \<open>
  C7: an append is idempotent for its operation id: repeating it, with any new event id and clock,
  changes nothing and returns the recorded event as a replay, and using the operation id for a
  request with another digest is a conflict.
\<close>

theorem append_is_idempotent:
  assumes "prepareAppend cx r op request k now m s = Inr (s', res)"
  shows "prepareAppend cx r op request k' now' m s' = Inr (s', \<lparr>rs_event = rs_event res, rs_replayed = True\<rparr>) \<and>
         (\<forall>other q q'. normalizeRequest request = Inr q \<and> normalizeRequest other = Inr q' \<and>
            requestHash cx q' \<noteq> requestHash cx q \<longrightarrow>
            prepareAppend cx r op other k' now' m s' = Inl LedgerConflict)"
proof -
  from prepareAppend_again [OF assms] obtain q x where a: "normalizeRequest request = Inr q"
    "validateIdentity (trim_space op) = Inr ()" "validateRef r = Inr ()"
    "find (\<lambda>x. en_operation x = trim_space op) (ls_entries s') = Some x"
    "en_hash x = requestHash cx q" "en_event x = rs_event res" by blast
  then show ?thesis by (auto simp: prepareAppend_def Let_def)
qed

theorem append_is_idempotent_witness:
  "\<exists>s' res. prepareAppend exampleCodec exampleRef ''op1'' exampleStart ''e1'' 5 8 (newLedger exampleRef) = Inr (s', res) \<and>
     prepareAppend exampleCodec exampleRef ''op1'' exampleStart ''e2'' 9 8 s' =
       Inr (s', \<lparr>rs_event = rs_event res, rs_replayed = True\<rparr>)"
proof -
  let ?r = "prepareAppend exampleCodec exampleRef ''op1'' exampleStart ''e1'' 5 8 (newLedger exampleRef)"
  have "\<not> failed ?r" by code_simp
  then obtain s' res where "?r = Inr (s', res)" by (cases ?r) auto
  with append_is_idempotent [OF this] show ?thesis by blast
qed

text \<open>
  C6: \<open>prepareAppend\<close> keeps everything \<open>validateState\<close> checks: from a valid state within
  its bounds and an unexhausted sequence counter it produces a valid state, with at most
  \<open>maxEvents\<close> contiguous retained events and the new event last.
\<close>

theorem append_keeps_state_valid:
  assumes "validateLedger s r m = Inr ()" and "0 < m" and "ls_next s \<noteq> - 1"
    and "\<And>t. isDigest (cx_sha cx t)"
    and "prepareAppend cx r op request k now m s = Inr (s', res)"
  shows "validateLedger s' r m = Inr () \<and>
         (\<not> rs_replayed res \<longrightarrow> en_event (last (ls_entries s')) = rs_event res \<and>
            ev_seq (rs_event res) = ls_next s \<and> ls_next s' = ls_next s + 1 \<and>
            length (ls_entries s') = min m (length (ls_entries s) + 1))"
proof -
  have ok: "ledgerOk r m s" using assms(1) by (simp add: validateLedger_iff)
  from prepareAppend_ok [OF ok assms(2-5)] have "validateLedger s' r m = Inr ()"
    by (simp add: validateLedger_iff)
  moreover have "\<not> rs_replayed res \<longrightarrow> en_event (last (ls_entries s')) = rs_event res \<and>
      ev_seq (rs_event res) = ls_next s \<and> ls_next s' = ls_next s + 1 \<and>
      length (ls_entries s') = min m (length (ls_entries s) + 1)"
    using assms(5)
  proof (cases rule: prepareAppend_cases)
    case (fresh q q1 e)
    with assms(2) ok have "s' = recordEvent s (trim_space op) (requestHash cx q) e m" "ev_seq e = ls_next s"
      by (simp_all add: ledgerOk_def)
    then show ?thesis
      using fresh(11) assms(2)
      by (simp add: recordEvent_snoc recordEvent_simps(4) length_lastN)
  qed simp
  ultimately show ?thesis by blast
qed

theorem append_keeps_state_valid_witness:
  "\<exists>s' res. prepareAppend exampleCodec exampleRef ''op2'' (exampleStart\<lparr>aq_type := EventTurnFinished\<rparr>) ''e2'' 9 8
       exampleLedger = Inr (s', res) \<and> validateLedger s' exampleRef 8 = Inr ()"
proof -
  let ?r = "prepareAppend exampleCodec exampleRef ''op2'' (exampleStart\<lparr>aq_type := EventTurnFinished\<rparr>) ''e2'' 9 8 exampleLedger"
  have "\<not> failed ?r" by code_simp
  then obtain s' res where r: "?r = Inr (s', res)" by (cases ?r) auto
  have "validateLedger exampleLedger exampleRef 8 = Inr ()" using exampleLedger_ok by (simp add: validateLedger_iff)
  moreover have "ls_next exampleLedger \<noteq> - 1" by code_simp
  ultimately show ?thesis using append_keeps_state_valid [OF _ _ _ exampleCodec_digest r] r by auto
qed

text \<open>
  In every session built by appends, whatever was evicted, the retained events of each branch
  alternate: between two \<open>turn_started\<close> events of a branch there is a
  \<open>turn_finished\<close>, and a branch with an unfinished turn has a head.
\<close>

theorem turns_of_a_branch_alternate:
  "turnsAlternate b False (ls_entries (run (ledger_step cx r m) (newLedger r) calls)) \<and>
   (openedBy b False (ls_entries (run (ledger_step cx r m) (newLedger r) calls)) \<longrightarrow>
      headOf (run (ledger_step cx r m) (newLedger r) calls) b \<noteq> [])"
  using ledger_branches.reachable_inv [of cx r m calls] by (simp add: branchesOk_def)

theorem turns_of_a_branch_alternate_witness:
  "headOf (run (ledger_step exampleCodec exampleRef 8) (newLedger exampleRef) [(''op1'', exampleStart, ''e1'', 5)]) ''b'' \<noteq> []"
proof -
  have "openedBy ''b'' False (ls_entries (run (ledger_step exampleCodec exampleRef 8) (newLedger exampleRef)
      [(''op1'', exampleStart, ''e1'', 5)]))" by code_simp
  then show ?thesis using turns_of_a_branch_alternate by blast
qed

text \<open>
  Whatever sessions, operations and faults the file store meets, every ledger file is one that
  \<open>read\<close> accepts for its session, unless that session's 64-bit sequence counter has wrapped
  to zero.
\<close>

theorem ledger_files_stay_readable:
  assumes "0 < m" and "\<And>t. isDigest (cx_sha cx t)"
    and "disk = run (\<lambda>c disk. fst (fileAppend cx m c disk)) (\<lambda>_. NoLedger) calls"
  shows "disk path = NoLedger \<or>
         (\<exists>r s. path = ledgerPath cx r \<and> disk path = LedgerFile s \<and>
            (validateLedger s r m = Inr () \<or> ls_next s = 0))"
  using store_machine.reachable_inv [OF ledger_files_machine [of m cx], of calls] assms
  by (simp add: diskOk_def validateLedger_iff)

theorem ledger_files_stay_readable_witness:
  "let disk = run (\<lambda>c disk. fst (fileAppend exampleCodec 8 c disk)) (\<lambda>_. NoLedger)
       [\<lparr>al_done = False, al_id = Some ''e1'', al_now = 5, al_io = io_ok, al_ref = exampleRef,
         al_operation = ''op1'', al_request = exampleStart\<rparr>]
   in disk [] = NoLedger \<or> (\<exists>r s. [] = ledgerPath exampleCodec r \<and> disk [] = LedgerFile s \<and>
        (validateLedger s r 8 = Inr () \<or> ls_next s = 0))"
  unfolding Let_def by (rule ledger_files_stay_readable [OF _ exampleCodec_digest refl]) simp

text \<open>
  C8: a successful append of the distributed store is one atomic append: however often it retried
  and whatever other writers did in between, the blob it leaves is \<open>prepareAppend\<close> applied to a
  valid state that the store held when it was replaced, so no other append is lost, or the blob is
  untouched because the operation had been recorded before.
\<close>

theorem distributed_append_is_atomic:
  assumes "casAppend cx decode encode m retries c env b = (b', Inr res)"
  shows "\<exists>k seen s. al_id c = Some k \<and> casRead decode m (al_ref c) seen = Inr s \<and>
           validateLedger s (al_ref c) m = Inr () \<and>
           (\<exists>s'. prepareAppend cx (al_ref c) (al_operation c) (al_request c) k (al_now c) m s = Inr (s', res) \<and>
              b' = (if rs_replayed res then seen else Some (encode s'))) \<and>
           (b' = seen \<or> (\<exists>i < retries. ce_between (env i) seen = seen))"
proof -
  from assms obtain k where k: "al_id c = Some k" and loop: "casLoop retries LedgerRetryLimit LedgerRead LedgerWrite
      (casRead decode m (al_ref c)) (casMutate cx m c k) encode env b = (b', Inr res)"
    by (auto simp: casAppend_def split: option.splits)
  from ledger_cas.loop_atomic_at [OF loop] obtain seen where
    at_commit: "b' = seen \<or> (\<exists>i < retries. ce_between (env i) seen = seen)"
    and "ledger_cas.atomic decode m c cx encode k seen res b'" by blast
  then obtain s where s: "casRead decode m (al_ref c) seen = Inr s" "ledgerOk (al_ref c) m s"
    "casMutate cx m c k s = Inr (Unchanged res) \<and> b' = seen \<or>
     (\<exists>s'. casMutate cx m c k s = Inr (Changed s' res) \<and> b' = Some (encode s'))"
    unfolding ledger_cas.atomic_def by blast
  from s(3) have "\<exists>s'. prepareAppend cx (al_ref c) (al_operation c) (al_request c) k (al_now c) m s = Inr (s', res) \<and>
      b' = (if rs_replayed res then seen else Some (encode s'))"
    by (auto simp: casMutate_def split: if_splits)
  with k s(1,2) at_commit show ?thesis unfolding validateLedger_iff by blast
qed

theorem distributed_append_is_atomic_witness:
  "\<exists>b' res seen s. casAppend exampleCodec (\<lambda>_. Some (newLedger exampleRef)) (\<lambda>_. ''x'') 8 2
       \<lparr>al_done = False, al_id = Some ''e1'', al_now = 5, al_io = io_ok, al_ref = exampleRef,
        al_operation = ''op1'', al_request = exampleStart\<rparr> (\<lambda>_. quiet) None = (b', Inr res) \<and>
     casRead (\<lambda>_. Some (newLedger exampleRef)) 8 exampleRef seen = Inr s"
proof -
  let ?c = "\<lparr>al_done = False, al_id = Some ''e1'', al_now = 5, al_io = io_ok, al_ref = exampleRef,
        al_operation = ''op1'', al_request = exampleStart\<rparr>"
  let ?read = "casRead (\<lambda>_. Some (newLedger exampleRef)) 8 exampleRef"
  have read: "?read None = Inr (newLedger exampleRef)" by code_simp
  let ?p = "prepareAppend exampleCodec exampleRef ''op1'' exampleStart ''e1'' 5 8 (newLedger exampleRef)"
  have "\<not> failed ?p" by code_simp
  then obtain s' res where p: "?p = Inr (s', res)" by (cases ?p) auto
  then have "\<not> rs_replayed res" by (cases rule: prepareAppend_cases) (simp_all add: newLedger_def)
  with p have "casMutate exampleCodec 8 ?c ''e1'' (newLedger exampleRef) = Inr (Changed s' res)"
    by (simp add: casMutate_def)
  then have r: "casAppend exampleCodec (\<lambda>_. Some (newLedger exampleRef)) (\<lambda>_. ''x'') 8 2 ?c (\<lambda>_. quiet) None =
      (Some ''x'', Inr res)"
    using read by (simp add: casAppend_def casAttempt_def quiet_def blobCommit_iff numeral_2_eq_2)
  from distributed_append_is_atomic [OF r] r show ?thesis by auto
qed

text \<open>
  C9: the pages of a query enumerate its answer: on an unchanged session, following the page tokens
  from a valid query ends and yields exactly the retained events that match, newest first, each
  once.
\<close>

theorem pages_enumerate_matches:
  assumes "validateLedger s r m = Inr ()" and "normalizeQuery q = Inr q'" and "qy_token q = NoToken"
  shows "walkPages (length (ls_entries s) + 1) cx r q s =
           Some (Inr (filter (\<lambda>e. matches e q') (rev (map en_event (ls_entries s)))))"
proof -
  have "entriesOk r (ls_entries s)" using assms(1) by (simp add: validateLedger_iff ledgerOk_def)
  then have "distinct (map ev_id (map en_event (ls_entries s)))" "\<forall>x \<in> set (ls_entries s). idOf x \<noteq> []"
    by (auto simp: entriesOk_def entryOk_def validateEvent_def comp_def split: if_splits)
  then show ?thesis
    using assms(2,3) by (intro walkPages_all [where pre = "[]"]) (auto simp: rev_map [symmetric])
qed

theorem pages_enumerate_matches_witness:
  "walkPages (length (ls_entries exampleLedger) + 1) exampleCodec exampleRef
     \<lparr>qy_types = [], qy_branch = ''b'', qy_task = [], qy_reference = [], qy_limit = 0, qy_token = NoToken\<rparr> exampleLedger \<noteq> None"
proof -
  let ?q = "\<lparr>qy_types = [], qy_branch = ''b'', qy_task = [], qy_reference = [], qy_limit = 0, qy_token = NoToken\<rparr>"
  have "\<not> failed (normalizeQuery ?q)" by code_simp
  then obtain q' where q': "normalizeQuery ?q = Inr q'" by (cases "normalizeQuery ?q") auto
  have "validateLedger exampleLedger exampleRef 8 = Inr ()" using exampleLedger_ok by (simp add: validateLedger_iff)
  from pages_enumerate_matches [OF this q'] show ?thesis by simp
qed

text \<open>
  Pinning a model again is lost: the operation id of a pin is derived from the branch and the
  model alone, so after pins of models A and B on a branch a new pin of A is taken for a replay of
  the first one, succeeds, and leaves B pinned.
\<close>

theorem repinning_is_lost:
  assumes "pinModel cx False branch a A k1 t1 m (newLedger (sessionRef a)) = Inr s1"
    and "pinModel cx False branch a B k2 t2 m s1 = Inr s2" and "2 \<le> m"
    and "trim_space (pinOperationID cx (pinRequest branch a A)) \<noteq> trim_space (pinOperationID cx (pinRequest branch a B))"
  shows "pinModel cx False branch a A k3 t3 m s2 = Inr s2 \<and> ls_pinned s2 = trim_space B"
proof -
  let ?A = "pinRequest branch a A" and ?B = "pinRequest branch a B" and ?r = "sessionRef a"
  from assms(1) obtain ra where A: "prepareAppend cx ?r (pinOperationID cx ?A) ?A k1 t1 m (newLedger ?r) = Inr (s1, ra)"
    by (auto simp: pinModel_def Let_def)
  from assms(2) obtain rb where B: "prepareAppend cx ?r (pinOperationID cx ?B) ?B k2 t2 m s1 = Inr (s2, rb)"
    by (auto simp: pinModel_def Let_def)
  have m: "0 < m" "m - 1 \<noteq> 0" using assms(3) by auto
  from prepareAppend_again [OF A] obtain qa x where x: "normalizeRequest ?A = Inr qa"
    "find (\<lambda>x. en_operation x = trim_space (pinOperationID cx ?A)) (ls_entries s1) = Some x"
    "en_hash x = requestHash cx qa" "validateIdentity (trim_space (pinOperationID cx ?A)) = Inr ()"
    "validateRef ?r = Inr ()" by blast
  have one: "ls_entries s1 = [x]"
    using A
  proof (cases rule: prepareAppend_cases)
    case (replay q y)
    then show ?thesis by (simp add: newLedger_def)
  next
    case (fresh q q1 e)
    then have "ls_entries s1 = [\<lparr>en_operation = trim_space (pinOperationID cx ?A), en_hash = requestHash cx q, en_event = e\<rparr>]"
      using m by (simp add: recordEvent_snoc newLedger_def lastN_def)
    with x(2) show ?thesis by simp
  qed
  have op: "en_operation x = trim_space (pinOperationID cx ?A)" using x(2) by (auto simp: find_Some_iff)
  from B show ?thesis
  proof (cases rule: prepareAppend_cases)
    case (replay q y)
    with one op assms(4) show ?thesis by (simp split: if_splits)
  next
    case (fresh q q1 e)
    then have s2: "s2 = recordEvent s1 (trim_space (pinOperationID cx ?B)) (requestHash cx q) e m" using m by simp
    have "aq_type q1 = EventModelPinned" "aq_model q1 = trim_space B"
      using resolveParent_facts [OF fresh(3)] normalizeRequest_facts [OF fresh(1)] by (simp_all add: pinRequest_def)
    then have "ls_pinned s2 = trim_space B" using fresh(5) by (simp add: s2 recordEvent_simps(5))
    moreover have "find (\<lambda>x. en_operation x = trim_space (pinOperationID cx ?A)) (ls_entries s2) = Some x"
      using m op by (simp add: s2 recordEvent_snoc one lastN_def)
    ultimately show ?thesis using x by (simp add: pinModel_def prepareAppend_def Let_def)
  qed
qed

theorem repinning_is_lost_witness:
  "\<exists>s1 s2. pinModel exampleCodec False None exampleAddr ''small'' ''e1'' 5 8 (newLedger (sessionRef exampleAddr)) = Inr s1 \<and>
     pinModel exampleCodec False None exampleAddr ''large'' ''e2'' 6 8 s1 = Inr s2 \<and>
     pinModel exampleCodec False None exampleAddr ''small'' ''e3'' 7 8 s2 = Inr s2 \<and> ls_pinned s2 = ''large''"
proof -
  let ?p1 = "pinModel exampleCodec False None exampleAddr ''small'' ''e1'' 5 8 (newLedger (sessionRef exampleAddr))"
  let ?p2 = "pinModel exampleCodec False None exampleAddr ''large'' ''e2'' 6 8 pinnedOnce"
  have s1: "?p1 = Inr pinnedOnce" by code_simp
  have "\<not> failed ?p2" by code_simp
  then obtain s2 where s2: "?p2 = Inr s2" by (cases ?p2) auto
  note s = s1 s2
  have "trim_space (pinOperationID exampleCodec (pinRequest None exampleAddr ''small'')) \<noteq>
      trim_space (pinOperationID exampleCodec (pinRequest None exampleAddr ''large''))" by code_simp
  moreover have "trim_space ''large'' = ''large''" by code_simp
  ultimately show ?thesis using repinning_is_lost [OF s] s by auto
qed

end
