(* ===== verification/TurnJournal.thy ===== *)
theory TurnJournal
  imports CasLoop Paths
begin

text \<open>
  Model of \<open>pkg/turnjournal/journal.go\<close>: the checkpoint record of one parent turn, its
  validation and the transitions an update may make. Revisions and iterations are words of their
  width. An external child's descriptor is raw JSON: \<open>json.Compact\<close> and the escaping of
  \<open>json.Marshal\<close> are modelled on its bytes, \<open>json.Valid\<close> and SHA-256 are parameters.
  Instants are UTC: a decoded timestamp with another zone counts as an undecodable record.
\<close>

section \<open>Types\<close>

datatype phase =
    PhaseUnset | PhasePrepared | PhaseProviderPending | PhaseToolPending
  | PhaseWaitingExternalChild | PhaseChildResolved | PhaseCompleting | PhaseFailing
  | PhaseInterrupting | PhaseCompleted | PhaseFailed | PhaseInterrupted | PhaseUnknown string

datatype tool_outcome =
    OutcomeRequested | OutcomeAdmitted | OutcomeConfirmed | OutcomeUncertain | OutcomeOther string

record history_ref =
  hr_workspace :: string
  hr_session :: string
  hr_message :: string
  hr_digest :: string

record external_ref =
  xr_task :: string
  xr_execution :: string
  xr_child :: string
  xr_descriptor :: string
  xr_digest :: string

record tool_checkpoint =
  tk_invocation :: string
  tk_name :: string
  tk_args :: string
  tk_outcome :: tool_outcome
  tk_external :: "external_ref option"
  tk_result :: "history_ref option"

record tool_batch =
  tb_assistant :: history_ref
  tb_calls :: "tool_checkpoint list"

record turn_record =
  tr_schema_revision :: "32 word"
  tr_schema :: string
  tr_revision :: "64 word"
  tr_workspace :: string
  tr_session :: string
  tr_task :: string
  tr_owner :: string
  tr_phase :: phase
  tr_input :: history_ref
  tr_iteration :: "32 word"
  tr_last :: string
  tr_batch :: "tool_batch option"
  tr_reason :: string
  tr_created :: time
  tr_updated :: time
  tr_completed :: "time option"

datatype journal_error =
    JournalNotFound | JournalAlreadyExists | JournalConflict | JournalInvalidRecord
  | JournalInvalidTransition | JournalCorrupt | JournalContext | JournalRead | JournalWrite
  | JournalRetryLimit

definition Schema :: string where "Schema = ''agent-harness.turn.execution''"
definition SchemaRevision :: "32 word" where "SchemaRevision = 3"
definition maxExternalDescriptorBytes :: nat where "maxExternalDescriptorBytes = 262144"

section \<open>JSON text\<close>

record journal_codec =
  jc_sha :: "string \<Rightarrow> string"
  jc_valid :: "string \<Rightarrow> bool"

text \<open>\<open>json.Compact\<close> of a valid text: white space outside strings goes.\<close>

fun compactFrom :: "bool \<Rightarrow> string \<Rightarrow> string" where
  "compactFrom in_string [] = []"
| "compactFrom False (c # cs) =
     (if json_space c then compactFrom False cs else c # compactFrom (c = CHR 0x22) cs)"
| "compactFrom True (c # cs) =
     (if c = CHR 0x5C then (case cs of [] \<Rightarrow> [c] | d # ds \<Rightarrow> c # d # compactFrom True ds)
      else c # compactFrom (c \<noteq> CHR 0x22) cs)"

definition compactJSON :: "journal_codec \<Rightarrow> string \<Rightarrow> string option" where
  "compactJSON jc v = (if jc_valid jc v then Some (compactFrom False v) else None)"

definition equalJSON :: "journal_codec \<Rightarrow> string \<Rightarrow> string \<Rightarrow> bool" where
  "equalJSON jc l r = (compactJSON jc l \<noteq> None \<and> compactJSON jc l = compactJSON jc r)"

text \<open>
  \<open>json.Marshal\<close> writes a raw message compacted and with the characters escaped that are
  special in HTML.
\<close>

fun htmlEscape :: "string \<Rightarrow> string" where
  "htmlEscape [] = []"
| "htmlEscape (c # cs) =
     (if c = CHR ''<'' then CHR 0x5C # ''u003c'' @ htmlEscape cs
      else if c = CHR ''>'' then CHR 0x5C # ''u003e'' @ htmlEscape cs
      else if c = CHR ''&'' then CHR 0x5C # ''u0026'' @ htmlEscape cs
      else if c = CHR 0xE2 \<and> take 2 cs = [CHR 0x80, CHR 0xA8]
      then CHR 0x5C # ''u2028'' @ htmlEscape (drop 2 cs)
      else if c = CHR 0xE2 \<and> take 2 cs = [CHR 0x80, CHR 0xA9]
      then CHR 0x5C # ''u2029'' @ htmlEscape (drop 2 cs)
      else c # htmlEscape cs)"

definition marshalRaw :: "string \<Rightarrow> string" where
  "marshalRaw v = htmlEscape (compactFrom False v)"

section \<open>Validation\<close>

definition lowerHex :: "char \<Rightarrow> bool" where
  "lowerHex c \<longleftrightarrow> c \<in> set ''0123456789abcdef''"

definition validDigest :: "string \<Rightarrow> bool" where
  "validDigest v \<longleftrightarrow> length v = 64 \<and> list_all lowerHex v"

definition validateIdentifier :: "string \<Rightarrow> (journal_error, unit) result" where
  "validateIdentifier v =
     (if v \<noteq> trim_space v \<or> trim_space v = [] \<or> length v > 1024 \<or> CHR 0x00 \<in> set v
      then Inl JournalInvalidRecord else Inr ())"

definition validateLookup :: "string \<Rightarrow> string \<Rightarrow> (journal_error, unit) result" where
  "validateLookup w t = and_then (validateIdentifier w) (\<lambda>_. validateIdentifier t)"

definition validateHistoryRef :: "history_ref \<Rightarrow> string \<Rightarrow> string \<Rightarrow> (journal_error, unit) result" where
  "validateHistoryRef h w s =
     (if hr_workspace h \<noteq> w \<or> hr_session h \<noteq> s then Inl JournalInvalidRecord
      else and_then (validateIdentifier (hr_message h)) (\<lambda>_.
             if \<not> validDigest (hr_digest h) then Inl JournalInvalidRecord else Inr ()))"

definition validateExternalChildRef :: "journal_codec \<Rightarrow> external_ref \<Rightarrow> (journal_error, unit) result" where
  "validateExternalChildRef jc x =
     and_then (first_error (map validateIdentifier [xr_task x, xr_execution x, xr_child x])) (\<lambda>_.
       if xr_descriptor x = [] \<or> length (xr_descriptor x) > maxExternalDescriptorBytes \<or>
          \<not> jc_valid jc (xr_descriptor x) then Inl JournalInvalidRecord
       else case compactJSON jc (xr_descriptor x) of
         None \<Rightarrow> Inl JournalInvalidRecord
       | Some n \<Rightarrow>
           if \<not> validDigest (xr_digest x) \<or> xr_digest x \<noteq> jc_sha jc n then Inl JournalInvalidRecord
           else Inr ())"

definition newExternalChildRef ::
  "journal_codec \<Rightarrow> string \<Rightarrow> string \<Rightarrow> string \<Rightarrow> string \<Rightarrow> (journal_error, external_ref) result" where
  "newExternalChildRef jc task execution child descriptor =
     (case compactJSON jc descriptor of
        None \<Rightarrow> Inl JournalInvalidRecord
      | Some n \<Rightarrow>
          let x = \<lparr>xr_task = task, xr_execution = execution, xr_child = child, xr_descriptor = n,
                   xr_digest = jc_sha jc n\<rparr>
          in and_then (validateExternalChildRef jc x) (\<lambda>_. Inr x))"

definition validPhase :: "phase \<Rightarrow> bool" where
  "validPhase p = (case p of PhaseUnset \<Rightarrow> False | PhaseUnknown _ \<Rightarrow> False | _ \<Rightarrow> True)"

definition terminalPhase :: "phase \<Rightarrow> bool" where
  "terminalPhase p \<longleftrightarrow> p \<in> {PhaseCompleted, PhaseFailed, PhaseInterrupted}"

definition pendingTerminal :: "phase \<Rightarrow> bool" where
  "pendingTerminal p \<longleftrightarrow> p \<in> {PhaseCompleting, PhaseFailing, PhaseInterrupting}"

definition acknowledgedPhase :: "phase \<Rightarrow> phase option" where
  "acknowledgedPhase p =
     (case p of
        PhaseCompleting \<Rightarrow> Some PhaseCompleted
      | PhaseFailing \<Rightarrow> Some PhaseFailed
      | PhaseInterrupting \<Rightarrow> Some PhaseInterrupted
      | _ \<Rightarrow> None)"

definition validateTerminal :: "turn_record \<Rightarrow> (journal_error, unit) result" where
  "validateTerminal r =
     (if terminalPhase (tr_phase r) then
        (case tr_completed r of
           None \<Rightarrow> Inl JournalInvalidRecord
         | Some at_time \<Rightarrow>
             if at_time = 0 \<or> at_time < tr_created r \<or> tr_updated r < at_time then Inl JournalInvalidRecord
             else if (tr_phase r = PhaseFailed \<or> tr_phase r = PhaseInterrupted) \<and>
                     trim_space (tr_reason r) = [] then Inl JournalInvalidRecord
             else Inr ())
      else if tr_completed r \<noteq> None then Inl JournalInvalidRecord
      else if tr_phase r = PhaseFailing \<or> tr_phase r = PhaseInterrupting then
        (if trim_space (tr_reason r) = [] then Inl JournalInvalidRecord else Inr ())
      else if tr_reason r \<noteq> [] then Inl JournalInvalidRecord
      else Inr ())"

text \<open>The loop over the calls counts the outcomes: requested, admitted, confirmed, uncertain.\<close>

type_synonym outcome_counts = "nat \<times> nat \<times> nat \<times> nat"

definition checkCall ::
  "journal_codec \<Rightarrow> turn_record \<Rightarrow> tool_checkpoint \<Rightarrow> outcome_counts \<Rightarrow> (journal_error, outcome_counts) result"
where
  "checkCall jc r c counts =
     (case counts of (q, a, k, u) \<Rightarrow>
        and_then
          (case tk_outcome c of
             OutcomeRequested \<Rightarrow>
               if tk_external c \<noteq> None \<or> tk_result c \<noteq> None then Inl JournalInvalidRecord
               else Inr (q + 1, a, k, u)
           | OutcomeAdmitted \<Rightarrow>
               if tk_external c = None \<or> tk_result c \<noteq> None then Inl JournalInvalidRecord
               else Inr (q, a + 1, k, u)
           | OutcomeConfirmed \<Rightarrow>
               (case tk_result c of
                  None \<Rightarrow> Inl JournalInvalidRecord
                | Some h \<Rightarrow> and_then (validateHistoryRef h (tr_workspace r) (tr_session r))
                              (\<lambda>_. Inr (q, a, k + 1, u)))
           | OutcomeUncertain \<Rightarrow>
               if tk_external c \<noteq> None \<or> tk_result c \<noteq> None then Inl JournalInvalidRecord
               else Inr (q, a, k, u + 1)
           | OutcomeOther _ \<Rightarrow> Inl JournalInvalidRecord)
          (\<lambda>counts'.
             case tk_external c of
               None \<Rightarrow> Inr counts'
             | Some x \<Rightarrow> and_then (validateExternalChildRef jc x) (\<lambda>_. Inr counts')))"

fun checkCalls ::
  "journal_codec \<Rightarrow> turn_record \<Rightarrow> tool_checkpoint list \<Rightarrow> string list \<Rightarrow> outcome_counts
     \<Rightarrow> (journal_error, outcome_counts) result" where
  "checkCalls jc r [] seen counts = Inr counts"
| "checkCalls jc r (c # cs) seen counts =
     and_then (validateIdentifier (tk_invocation c)) (\<lambda>_.
       if tk_invocation c \<in> set seen then Inl JournalInvalidRecord
       else and_then (validateIdentifier (tk_name c)) (\<lambda>_.
         if \<not> validDigest (tk_args c) then Inl JournalInvalidRecord
         else and_then (checkCall jc r c counts) (\<lambda>counts'.
           checkCalls jc r cs (tk_invocation c # seen) counts')))"

definition checkCounts :: "turn_record \<Rightarrow> tool_batch \<Rightarrow> outcome_counts \<Rightarrow> (journal_error, unit) result" where
  "checkCounts r b counts =
     (case counts of (requested, admitted, confirmed, uncertain) \<Rightarrow>
        (case tr_phase r of
           PhaseToolPending \<Rightarrow>
             guard (\<not> (requested = 0 \<or> admitted \<noteq> 0 \<or> uncertain \<noteq> 0)) JournalInvalidRecord
         | PhaseWaitingExternalChild \<Rightarrow>
             guard (\<not> (length (tb_calls b) \<noteq> 1 \<or> admitted \<noteq> 1)) JournalInvalidRecord
         | PhaseChildResolved \<Rightarrow>
             guard (\<not> (length (tb_calls b) \<noteq> 1 \<or> confirmed \<noteq> 1 \<or> tk_external (hd (tb_calls b)) = None))
               JournalInvalidRecord
         | PhasePrepared \<Rightarrow> Inl JournalInvalidRecord
         | PhaseProviderPending \<Rightarrow> guard (confirmed = length (tb_calls b)) JournalInvalidRecord
         | PhaseCompleted \<Rightarrow> guard (confirmed = length (tb_calls b)) JournalInvalidRecord
         | PhaseCompleting \<Rightarrow> guard (confirmed = length (tb_calls b)) JournalInvalidRecord
         | PhaseFailed \<Rightarrow> guard (requested = 0 \<and> uncertain = 0) JournalInvalidRecord
         | PhaseFailing \<Rightarrow> guard (requested = 0 \<and> uncertain = 0) JournalInvalidRecord
         | PhaseInterrupted \<Rightarrow> guard (requested = 0) JournalInvalidRecord
         | PhaseInterrupting \<Rightarrow> guard (requested = 0) JournalInvalidRecord
         | _ \<Rightarrow> Inr ()))"

definition validateToolBatchForPhase :: "journal_codec \<Rightarrow> turn_record \<Rightarrow> (journal_error, unit) result" where
  "validateToolBatchForPhase jc r =
     (case tr_batch r of
        None \<Rightarrow>
          if tr_phase r \<in> {PhaseToolPending, PhaseWaitingExternalChild, PhaseChildResolved}
          then Inl JournalInvalidRecord else Inr ()
      | Some b \<Rightarrow>
          if tb_calls b = [] \<or> length (tb_calls b) > 1024 then Inl JournalInvalidRecord
          else and_then (validateHistoryRef (tb_assistant b) (tr_workspace r) (tr_session r)) (\<lambda>_.
                 and_then (checkCalls jc r (tb_calls b) [] (0, 0, 0, 0)) (checkCounts r b)))"

definition validateRecord :: "journal_codec \<Rightarrow> turn_record \<Rightarrow> (journal_error, unit) result" where
  "validateRecord jc r =
     (if tr_schema r \<noteq> Schema \<or> tr_schema_revision r \<noteq> SchemaRevision \<or> tr_revision r = 0
      then Inl JournalInvalidRecord
      else and_then (first_error (map validateIdentifier
             [tr_workspace r, tr_session r, tr_task r, tr_owner r])) (\<lambda>_.
        if \<not> validPhase (tr_phase r) then Inl JournalInvalidRecord
        else and_then (validateHistoryRef (tr_input r) (tr_workspace r) (tr_session r)) (\<lambda>_.
          and_then (if tr_last r \<noteq> [] then validateIdentifier (tr_last r) else Inr ()) (\<lambda>_.
            if tr_created r = 0 \<or> tr_updated r = 0 \<or> tr_updated r < tr_created r
            then Inl JournalInvalidRecord
            else and_then (validateTerminal r) (\<lambda>_. validateToolBatchForPhase jc r)))))"

section \<open>Transitions\<close>

definition sameToolBatchIdentity :: "tool_batch \<Rightarrow> tool_batch \<Rightarrow> bool" where
  "sameToolBatchIdentity l r \<longleftrightarrow>
     tb_assistant l = tb_assistant r \<and> length (tb_calls l) = length (tb_calls r) \<and>
     list_all2 (\<lambda>a b. tk_invocation a = tk_invocation b \<and> tk_name a = tk_name b \<and> tk_args a = tk_args b)
       (tb_calls l) (tb_calls r)"

definition toolBatchAll :: "tool_batch \<Rightarrow> tool_outcome \<Rightarrow> bool" where
  "toolBatchAll b oc \<longleftrightarrow> tb_calls b \<noteq> [] \<and> list_all (\<lambda>c. tk_outcome c = oc) (tb_calls b)"

definition allowedToolOutcomeTransition :: "tool_outcome \<Rightarrow> tool_outcome \<Rightarrow> bool" where
  "allowedToolOutcomeTransition a b =
     (if a = b then True
      else case a of
        OutcomeRequested \<Rightarrow> b = OutcomeAdmitted \<or> b = OutcomeConfirmed \<or> b = OutcomeUncertain
      | OutcomeAdmitted \<Rightarrow> b = OutcomeConfirmed
      | _ \<Rightarrow> False)"

definition sameExternalChild :: "journal_codec \<Rightarrow> external_ref \<Rightarrow> external_ref \<Rightarrow> bool" where
  "sameExternalChild jc l r \<longleftrightarrow>
     xr_task l = xr_task r \<and> xr_execution l = xr_execution r \<and> xr_child l = xr_child r \<and>
     xr_digest l = xr_digest r \<and> equalJSON jc (xr_descriptor l) (xr_descriptor r)"

definition allowedPhaseTransition :: "phase \<Rightarrow> phase \<Rightarrow> bool" where
  "allowedPhaseTransition a b =
     (if a = b then True
      else case a of
        PhaseCompleting \<Rightarrow> b = PhaseCompleted \<or> b = PhaseInterrupted
      | PhaseFailing \<Rightarrow> b = PhaseFailed \<or> b = PhaseInterrupted
      | PhaseInterrupting \<Rightarrow> b = PhaseInterrupted
      | _ \<Rightarrow>
          if b \<in> {PhaseFailed, PhaseInterrupted, PhaseCompleting, PhaseFailing, PhaseInterrupting} then True
          else (case a of
            PhasePrepared \<Rightarrow> b = PhaseProviderPending
          | PhaseProviderPending \<Rightarrow> b = PhaseToolPending \<or> b = PhaseCompleted
          | PhaseToolPending \<Rightarrow> b = PhaseWaitingExternalChild \<or> b = PhaseProviderPending
          | PhaseWaitingExternalChild \<Rightarrow> b = PhaseChildResolved
          | PhaseChildResolved \<Rightarrow> b = PhaseProviderPending \<or> b = PhaseCompleted
          | _ \<Rightarrow> False))"

definition checkCallChange :: "journal_codec \<Rightarrow> tool_checkpoint \<Rightarrow> tool_checkpoint \<Rightarrow> bool" where
  "checkCallChange jc before after \<longleftrightarrow>
     allowedToolOutcomeTransition (tk_outcome before) (tk_outcome after) \<and>
     (case tk_external before of
        None \<Rightarrow> True
      | Some x \<Rightarrow> (case tk_external after of None \<Rightarrow> False | Some y \<Rightarrow> sameExternalChild jc x y)) \<and>
     (case tk_result before of None \<Rightarrow> True | Some h \<Rightarrow> tk_result after = Some h)"

definition replacingConfirmed :: "turn_record \<Rightarrow> tool_batch \<Rightarrow> turn_record \<Rightarrow> tool_batch \<Rightarrow> bool" where
  "replacingConfirmed previous b next_record b' \<longleftrightarrow>
     (tr_phase previous = PhaseProviderPending \<or> tr_phase previous = PhaseChildResolved) \<and>
     toolBatchAll b OutcomeConfirmed \<and> tr_phase next_record = PhaseToolPending \<and>
     toolBatchAll b' OutcomeRequested"

definition validateBatchChange ::
  "journal_codec \<Rightarrow> turn_record \<Rightarrow> turn_record \<Rightarrow> (journal_error, unit) result" where
  "validateBatchChange jc p n =
     (case (tr_batch p, tr_batch n) of
        (Some b, Some b') \<Rightarrow>
          if replacingConfirmed p b n b' then Inr ()
          else if \<not> sameToolBatchIdentity b b' then Inl JournalInvalidTransition
          else if \<not> list_all2 (checkCallChange jc) (tb_calls b) (tb_calls b') then Inl JournalInvalidTransition
          else Inr ()
      | (Some b, None) \<Rightarrow>
          if \<not> toolBatchAll b OutcomeConfirmed \<or>
             tr_phase p \<noteq> PhaseChildResolved \<and> tr_phase p \<noteq> PhaseProviderPending
          then Inl JournalInvalidTransition else Inr ()
      | (None, _) \<Rightarrow> Inr ())"

definition validateTransition :: "journal_codec \<Rightarrow> turn_record \<Rightarrow> turn_record \<Rightarrow> (journal_error, unit) result" where
  "validateTransition jc p n =
     (if terminalPhase (tr_phase p) then Inl JournalInvalidTransition
      else if tr_schema p \<noteq> tr_schema n \<or> tr_schema_revision p \<noteq> tr_schema_revision n \<or>
              tr_workspace p \<noteq> tr_workspace n \<or> tr_session p \<noteq> tr_session n \<or> tr_task p \<noteq> tr_task n \<or>
              tr_owner p \<noteq> tr_owner n \<or> tr_input p \<noteq> tr_input n \<or> tr_created p \<noteq> tr_created n
      then Inl JournalInvalidTransition
      else if tr_iteration n < tr_iteration p then Inl JournalInvalidTransition
      else if \<not> allowedPhaseTransition (tr_phase p) (tr_phase n) then Inl JournalInvalidTransition
      else validateBatchChange jc p n)"

section \<open>The records that create and update build\<close>

definition createdRecord :: "time \<Rightarrow> turn_record \<Rightarrow> turn_record" where
  "createdRecord now r =
     r\<lparr>tr_schema := Schema, tr_schema_revision := SchemaRevision, tr_revision := 1,
       tr_created := now, tr_updated := now, tr_completed := None, tr_reason := [],
       tr_phase := (if tr_phase r = PhaseUnset then PhasePrepared else tr_phase r)\<rparr>"

definition updatedRecord :: "time \<Rightarrow> 64 word \<Rightarrow> turn_record \<Rightarrow> turn_record \<Rightarrow> turn_record" where
  "updatedRecord now expected current r =
     (let updated = (if now < tr_updated current then tr_updated current else now);
          n = r\<lparr>tr_schema := Schema, tr_schema_revision := SchemaRevision, tr_revision := expected + 1,
                tr_created := tr_created current, tr_updated := updated\<rparr>
      in if terminalPhase (tr_phase n) then n\<lparr>tr_completed := Some updated\<rparr>
         else n\<lparr>tr_completed := None,
                tr_reason := (if tr_phase n \<noteq> PhaseFailing \<and> tr_phase n \<noteq> PhaseInterrupting
                              then [] else tr_reason n)\<rparr>)"

text \<open>What both stores do between reading the current record and writing the next one.\<close>

definition nextRecord ::
  "journal_codec \<Rightarrow> time \<Rightarrow> 64 word \<Rightarrow> turn_record \<Rightarrow> turn_record \<Rightarrow> (journal_error, turn_record) result" where
  "nextRecord jc now expected r current =
     (if tr_revision current \<noteq> expected then Inl JournalConflict
      else let n = updatedRecord now expected current r in
           and_then (validateTransition jc current n) (\<lambda>_.
             and_then (validateRecord jc n) (\<lambda>_. Inr n)))"

text \<open>
  What reading a written record gives: the JSON of a record keeps every field except the bytes of
  the descriptors. A record with an instant outside the years 0 to 9999 is not written.
\<close>

definition storedExternal :: "external_ref \<Rightarrow> external_ref" where
  "storedExternal x = x\<lparr>xr_descriptor := marshalRaw (xr_descriptor x)\<rparr>"

definition storedCall :: "tool_checkpoint \<Rightarrow> tool_checkpoint" where
  "storedCall c = c\<lparr>tk_external := map_option storedExternal (tk_external c)\<rparr>"

definition storedRecord :: "turn_record \<Rightarrow> turn_record" where
  "storedRecord r =
     r\<lparr>tr_batch := map_option (\<lambda>b. b\<lparr>tb_calls := map storedCall (tb_calls b)\<rparr>) (tr_batch r)\<rparr>"

definition encodable :: "turn_record \<Rightarrow> bool" where
  "encodable r \<longleftrightarrow> four_digit_year (tr_created r) \<and> four_digit_year (tr_updated r) \<and>
     (case tr_completed r of None \<Rightarrow> True | Some t \<Rightarrow> four_digit_year t)"

end
