(* ===== verification/JournalStore.thy ===== *)
theory JournalStore
  imports TurnJournal
begin

text \<open>
  The two stores of \<open>pkg/turnjournal\<close>: one file per task (\<open>file_store.go\<close>) and one
  blob per task with a shared index (\<open>cas_store.go\<close>). The lemmas show what every update
  keeps: identity, growing revisions, immutable terminal records, and tool calls that are never
  forgotten before they are confirmed; and that the index of the distributed store lists every
  record.
\<close>

section \<open>The file store\<close>

text \<open>A file is not decodable or holds the decoded record; the disk maps paths to files.\<close>

datatype journal_file = UndecodableJournal | JournalFile turn_record

type_synonym journal_disk = "(string list \<times> journal_file) list"

definition journalPath :: "journal_codec \<Rightarrow> string \<Rightarrow> string \<Rightarrow> string list" where
  "journalPath jc w t =
     [''turn-executions'', ''workspaces'', pathSegment (jc_sha jc) w, ''tasks'',
      pathSegment (jc_sha jc) t @ ''.json'']"

definition decodeJournal :: "journal_codec \<Rightarrow> journal_file \<Rightarrow> (journal_error, turn_record) result" where
  "decodeJournal jc f =
     (case f of
        UndecodableJournal \<Rightarrow> Inl JournalCorrupt
      | JournalFile r \<Rightarrow> if validateRecord jc r = Inr () then Inr r else Inl JournalCorrupt)"

definition loadRecord ::
  "journal_codec \<Rightarrow> io_env \<Rightarrow> string \<Rightarrow> string \<Rightarrow> journal_disk \<Rightarrow> (journal_error, turn_record) result" where
  "loadRecord jc io w t disk =
     (if io_read_fails io then Inl JournalRead
      else case map_of disk (journalPath jc w t) of
        None \<Rightarrow> Inl JournalNotFound
      | Some f \<Rightarrow>
          and_then (decodeJournal jc f) (\<lambda>r.
            if tr_workspace r \<noteq> w \<or> tr_task r \<noteq> t then Inl JournalCorrupt else Inr r))"

definition persistRecord ::
  "journal_codec \<Rightarrow> io_env \<Rightarrow> turn_record \<Rightarrow> journal_disk \<Rightarrow> journal_disk \<times> (journal_error, turn_record) result"
where
  "persistRecord jc io r disk =
     (if io_write_fails io \<or> \<not> encodable r then (disk, Inl JournalWrite)
      else (AList.update (journalPath jc (tr_workspace r) (tr_task r)) (JournalFile (storedRecord r)) disk, Inr r))"

definition fileCreate ::
  "journal_codec \<Rightarrow> bool \<Rightarrow> io_env \<Rightarrow> time \<Rightarrow> turn_record \<Rightarrow> journal_disk
     \<Rightarrow> journal_disk \<times> (journal_error, turn_record) result" where
  "fileCreate jc ctx_done io now r disk =
     (if ctx_done then (disk, Inl JournalContext)
      else if tr_revision r \<noteq> 0 then (disk, Inl JournalInvalidRecord)
      else if io_read_fails io then (disk, Inl JournalRead)
      else if map_of disk (journalPath jc (tr_workspace r) (tr_task r)) \<noteq> None
      then (disk, Inl JournalAlreadyExists)
      else
        let n = createdRecord now r in
        case validateRecord jc n of
          Inl e \<Rightarrow> (disk, Inl e)
        | Inr _ \<Rightarrow> persistRecord jc io n disk)"

definition fileGet ::
  "journal_codec \<Rightarrow> bool \<Rightarrow> io_env \<Rightarrow> string \<Rightarrow> string \<Rightarrow> journal_disk \<Rightarrow> (journal_error, turn_record) result"
where
  "fileGet jc ctx_done io w t disk =
     (if ctx_done then Inl JournalContext
      else and_then (validateLookup w t) (\<lambda>_. loadRecord jc io w t disk))"

definition fileUpdate ::
  "journal_codec \<Rightarrow> bool \<Rightarrow> io_env \<Rightarrow> time \<Rightarrow> 64 word \<Rightarrow> turn_record \<Rightarrow> journal_disk
     \<Rightarrow> journal_disk \<times> (journal_error, turn_record) result" where
  "fileUpdate jc ctx_done io now expected r disk =
     (if ctx_done then (disk, Inl JournalContext)
      else if expected = 0 \<or> tr_revision r \<noteq> expected then (disk, Inl JournalConflict)
      else case and_then (loadRecord jc io (tr_workspace r) (tr_task r) disk) (nextRecord jc now expected r) of
        Inl e \<Rightarrow> (disk, Inl e)
      | Inr n \<Rightarrow> persistRecord jc io n disk)"

text \<open>The order of the recovery scan's result.\<close>

definition recordKey :: "turn_record \<Rightarrow> string \<times> string \<times> string" where
  "recordKey r = (tr_workspace r, tr_session r, tr_task r)"

definition activeFor :: "string \<Rightarrow> turn_record \<Rightarrow> bool" where
  "activeFor owner r \<longleftrightarrow> tr_owner r = owner \<and> \<not> terminalPhase (tr_phase r)"

fun scanFiles :: "journal_codec \<Rightarrow> journal_disk \<Rightarrow> (journal_error, turn_record list) result" where
  "scanFiles jc [] = Inr []"
| "scanFiles jc ((path, f) # fs) =
     and_then (decodeJournal jc f) (\<lambda>r.
       if path \<noteq> journalPath jc (tr_workspace r) (tr_task r) then Inl JournalCorrupt
       else and_then (scanFiles jc fs) (\<lambda>rs. Inr (r # rs)))"

definition fileListActive ::
  "journal_codec \<Rightarrow> bool \<Rightarrow> io_env \<Rightarrow> string \<Rightarrow> journal_disk \<Rightarrow> (journal_error, turn_record list) result" where
  "fileListActive jc ctx_done io owner disk =
     (if ctx_done then Inl JournalContext
      else and_then (validateIdentifier owner) (\<lambda>_.
        if io_read_fails io then Inl JournalRead
        else and_then (scanFiles jc disk) (\<lambda>rs. Inr (sort_key recordKey (filter (activeFor owner) rs)))))"

section \<open>The distributed store\<close>

record exec_ref =
  xe_workspace :: string
  xe_task :: string
  xe_owner :: string

record exec_index =
  xi_version :: "32 word"
  xi_refs :: "exec_ref list"

definition casIndexVersion :: "32 word" where "casIndexVersion = 1"

definition refKey :: "exec_ref \<Rightarrow> string \<times> string" where
  "refKey x = (xe_workspace x, xe_task x)"

text \<open>The loop over the references, with the previous one.\<close>

fun checkRefs :: "exec_ref option \<Rightarrow> exec_ref list \<Rightarrow> (journal_error, unit) result" where
  "checkRefs prev [] = Inr ()"
| "checkRefs prev (x # xs) =
     (if validateLookup (xe_workspace x) (xe_task x) \<noteq> Inr () then Inl JournalCorrupt
      else if validateIdentifier (xe_owner x) \<noteq> Inr () then Inl JournalCorrupt
      else if (case prev of None \<Rightarrow> False | Some p \<Rightarrow> \<not> refKey p < refKey x) then Inl JournalCorrupt
      else checkRefs (Some x) xs)"

definition validateExecutionIndex :: "exec_index \<Rightarrow> (journal_error, unit) result" where
  "validateExecutionIndex i =
     (if xi_version i \<noteq> casIndexVersion then Inl JournalCorrupt else checkRefs None (xi_refs i))"

definition readIndex :: "(string \<Rightarrow> exec_index option) \<Rightarrow> blob \<Rightarrow> (journal_error, exec_index) result" where
  "readIndex decode b =
     (case b of
        None \<Rightarrow> Inr \<lparr>xi_version = casIndexVersion, xi_refs = []\<rparr>
      | Some raw \<Rightarrow>
          if raw = [] then Inl JournalCorrupt
          else case decode raw of
            None \<Rightarrow> Inl JournalCorrupt
          | Some i \<Rightarrow> and_then (validateExecutionIndex i) (\<lambda>_. Inr i))"

text \<open>
  The insertion of \<open>ensureIndexed\<close> at the position of the binary search: behind the smaller
  references, which on a sorted list is the first position not below the new one.
\<close>

definition insertRef :: "exec_ref \<Rightarrow> exec_ref list \<Rightarrow> exec_ref list" where
  "insertRef x refs = takeWhile (\<lambda>y. refKey y < refKey x) refs @ x # dropWhile (\<lambda>y. refKey y < refKey x) refs"

definition indexMutate :: "exec_ref \<Rightarrow> exec_index \<Rightarrow> (journal_error, (exec_index, unit) change) result" where
  "indexMutate x i =
     (case dropWhile (\<lambda>y. refKey y < refKey x) (xi_refs i) of
        y # ys \<Rightarrow>
          if refKey y = refKey x
          then if xe_owner y \<noteq> xe_owner x then Inl JournalConflict else Inr (Unchanged ())
          else Inr (Changed (i\<lparr>xi_refs := insertRef x (xi_refs i)\<rparr>) ())
      | [] \<Rightarrow> Inr (Changed (i\<lparr>xi_refs := insertRef x (xi_refs i)\<rparr>) ()))"

definition ensureIndexed ::
  "(string \<Rightarrow> exec_index option) \<Rightarrow> (exec_index \<Rightarrow> string) \<Rightarrow> nat \<Rightarrow> exec_ref \<Rightarrow> (nat \<Rightarrow> cas_env) \<Rightarrow> blob
     \<Rightarrow> blob \<times> (journal_error, unit) result" where
  "ensureIndexed decode encode retries x env b =
     casLoop retries JournalRetryLimit JournalRead JournalWrite (readIndex decode) (indexMutate x) encode env b"

definition readRecordBlob ::
  "journal_codec \<Rightarrow> (string \<Rightarrow> turn_record option) \<Rightarrow> string \<Rightarrow> string \<Rightarrow> blob \<Rightarrow> (journal_error, turn_record) result"
where
  "readRecordBlob jc decode w t b =
     and_then (validateLookup w t) (\<lambda>_.
       case b of
         None \<Rightarrow> Inl JournalNotFound
       | Some raw \<Rightarrow>
           if raw = [] then Inl JournalCorrupt
           else case decode raw of
             None \<Rightarrow> Inl JournalCorrupt
           | Some r \<Rightarrow>
               if validateRecord jc r \<noteq> Inr () then Inl JournalCorrupt
               else if tr_workspace r \<noteq> w \<or> tr_task r \<noteq> t then Inl JournalCorrupt
               else Inr r)"

text \<open>
  One update: a single attempt of the loop, whose lost race is a conflict.
\<close>

definition recordMutate ::
  "journal_codec \<Rightarrow> time \<Rightarrow> 64 word \<Rightarrow> turn_record \<Rightarrow> turn_record
     \<Rightarrow> (journal_error, (turn_record, turn_record) change) result" where
  "recordMutate jc now expected r current =
     and_then (nextRecord jc now expected r current) (\<lambda>n. Inr (Changed n n))"

definition distUpdate ::
  "journal_codec \<Rightarrow> (string \<Rightarrow> turn_record option) \<Rightarrow> (turn_record \<Rightarrow> string) \<Rightarrow> bool \<Rightarrow> time \<Rightarrow> 64 word
     \<Rightarrow> turn_record \<Rightarrow> cas_env \<Rightarrow> blob \<Rightarrow> blob \<times> (journal_error, turn_record) result" where
  "distUpdate jc decode encode ctx_done now expected r env b =
     (if ctx_done then (b, Inl JournalContext)
      else if expected = 0 \<or> tr_revision r \<noteq> expected then (b, Inl JournalConflict)
      else casLoop 1 JournalConflict JournalRead JournalWrite
             (readRecordBlob jc decode (tr_workspace r) (tr_task r)) (recordMutate jc now expected r)
             encode (\<lambda>_. env) b)"

text \<open>
  Create: the index first, then the record's blob; \<open>env\<close> is the environment of the index loop,
  \<open>cenv\<close> that of the final \<open>Create\<close>.
\<close>

definition distCreate ::
  "journal_codec \<Rightarrow> (string \<Rightarrow> exec_index option) \<Rightarrow> (exec_index \<Rightarrow> string) \<Rightarrow> (turn_record \<Rightarrow> string) \<Rightarrow> nat
     \<Rightarrow> bool \<Rightarrow> time \<Rightarrow> turn_record \<Rightarrow> (nat \<Rightarrow> cas_env) \<Rightarrow> cas_env \<Rightarrow> blob \<times> blob
     \<Rightarrow> (blob \<times> blob) \<times> (journal_error, turn_record) result" where
  "distCreate jc decodeIx encodeIx encode retries ctx_done now r env cenv bs =
     (case bs of (ix, b) \<Rightarrow>
        if ctx_done then (bs, Inl JournalContext)
        else if tr_revision r \<noteq> 0 then (bs, Inl JournalInvalidRecord)
        else
          let n = createdRecord now r in
          case validateRecord jc n of
            Inl e \<Rightarrow> (bs, Inl e)
          | Inr _ \<Rightarrow>
              (case ensureIndexed decodeIx encodeIx retries
                 \<lparr>xe_workspace = tr_workspace n, xe_task = tr_task n, xe_owner = tr_owner n\<rparr> env ix of
                 (ix', Inl e) \<Rightarrow> ((ix', b), Inl e)
               | (ix', Inr _) \<Rightarrow>
                   let current = ce_before cenv b in
                   (case ce_write cenv of
                      WriteFailed \<Rightarrow> ((ix', current), Inl JournalWrite)
                    | WriteLost \<Rightarrow> ((ix', fst (blobCreate (encode n) current)), Inl JournalWrite)
                    | WriteOk \<Rightarrow>
                        (case blobCreate (encode n) current of
                           (b', True) \<Rightarrow> ((ix', b'), Inr n)
                         | (b', False) \<Rightarrow> ((ix', b'), Inl JournalAlreadyExists)))))"

fun collectActive ::
  "journal_codec \<Rightarrow> (string \<Rightarrow> turn_record option) \<Rightarrow> (string \<times> string \<Rightarrow> blob) \<Rightarrow> string \<Rightarrow> exec_ref list
     \<Rightarrow> (journal_error, turn_record list) result" where
  "collectActive jc decode blobs owner [] = Inr []"
| "collectActive jc decode blobs owner (x # xs) =
     (case readRecordBlob jc decode (xe_workspace x) (xe_task x) (blobs (refKey x)) of
        Inl e \<Rightarrow> if e = JournalNotFound then collectActive jc decode blobs owner xs else Inl e
      | Inr r \<Rightarrow>
          if tr_owner r \<noteq> xe_owner x then Inl JournalCorrupt
          else and_then (collectActive jc decode blobs owner xs) (\<lambda>rs.
                 Inr (if xe_owner x = owner \<and> \<not> terminalPhase (tr_phase r) then r # rs else rs)))"

definition distListActive ::
  "journal_codec \<Rightarrow> (string \<Rightarrow> exec_index option) \<Rightarrow> (string \<Rightarrow> turn_record option)
     \<Rightarrow> (string \<times> string \<Rightarrow> blob) \<Rightarrow> blob \<Rightarrow> string \<Rightarrow> (journal_error, turn_record list) result" where
  "distListActive jc decodeIx decode blobs ix owner =
     and_then (validateIdentifier owner) (\<lambda>_.
       and_then (readIndex decodeIx ix) (\<lambda>i.
         and_then (collectActive jc decode blobs owner (xi_refs i)) (\<lambda>rs. Inr (sort_key recordKey rs))))"

section \<open>One update\<close>

text \<open>
  What a transition keeps of the tool calls: either the batch stays, with the same calls in the
  same order, outcomes that only advance, children and confirmed results unchanged; or every
  call of it was confirmed.
\<close>

definition callAdvances :: "tool_checkpoint \<Rightarrow> tool_checkpoint \<Rightarrow> bool" where
  "callAdvances c d \<longleftrightarrow>
     tk_invocation c = tk_invocation d \<and> tk_name c = tk_name d \<and> tk_args c = tk_args d \<and>
     allowedToolOutcomeTransition (tk_outcome c) (tk_outcome d) \<and>
     (tk_result c \<noteq> None \<longrightarrow> tk_result d = tk_result c) \<and>
     (tk_external c \<noteq> None \<longrightarrow> tk_external d \<noteq> None)"

definition batchKept :: "turn_record \<Rightarrow> turn_record \<Rightarrow> bool" where
  "batchKept p n \<longleftrightarrow>
     (case tr_batch p of
        None \<Rightarrow> True
      | Some b \<Rightarrow>
          (\<exists>b'. tr_batch n = Some b' \<and> list_all2 callAdvances (tb_calls b) (tb_calls b')) \<or>
          toolBatchAll b OutcomeConfirmed)"

lemma checkCallChange_advances:
  "checkCallChange jc c d \<Longrightarrow> tk_invocation c = tk_invocation d \<and> tk_name c = tk_name d \<and> tk_args c = tk_args d \<Longrightarrow>
     callAdvances c d"
  by (auto simp: checkCallChange_def callAdvances_def split: option.splits)

lemma validateTransition_facts:
  assumes "validateTransition jc p n = Inr u"
  shows "\<not> terminalPhase (tr_phase p)" "tr_workspace n = tr_workspace p" "tr_session n = tr_session p"
    "tr_task n = tr_task p" "tr_owner n = tr_owner p" "tr_input n = tr_input p" "tr_created n = tr_created p"
    "tr_iteration p \<le> tr_iteration n" "allowedPhaseTransition (tr_phase p) (tr_phase n)"
    "batchKept p n"
proof -
  from assms have b: "validateBatchChange jc p n = Inr u"
    and basic: "\<not> terminalPhase (tr_phase p) \<and> tr_workspace n = tr_workspace p \<and> tr_session n = tr_session p \<and>
      tr_task n = tr_task p \<and> tr_owner n = tr_owner p \<and> tr_input n = tr_input p \<and>
      tr_created n = tr_created p \<and> tr_iteration p \<le> tr_iteration n \<and>
      allowedPhaseTransition (tr_phase p) (tr_phase n)"
    by (auto simp: validateTransition_def split: if_splits)
  show "\<not> terminalPhase (tr_phase p)" "tr_workspace n = tr_workspace p" "tr_session n = tr_session p"
    "tr_task n = tr_task p" "tr_owner n = tr_owner p" "tr_input n = tr_input p" "tr_created n = tr_created p"
    "tr_iteration p \<le> tr_iteration n" "allowedPhaseTransition (tr_phase p) (tr_phase n)"
    using basic by auto
  show "batchKept p n"
  proof (cases "tr_batch p")
    case None
    then show ?thesis by (simp add: batchKept_def)
  next
    case (Some b)
    note p = Some
    show ?thesis
    proof (cases "tr_batch n")
      case None
      with b p show ?thesis by (auto simp: batchKept_def validateBatchChange_def split: if_splits)
    next
      case (Some b')
      show ?thesis
      proof (cases "replacingConfirmed p b n b'")
        case True
        with p show ?thesis by (simp add: batchKept_def replacingConfirmed_def)
      next
        case False
        with b p Some have "sameToolBatchIdentity b b'" "list_all2 (checkCallChange jc) (tb_calls b) (tb_calls b')"
          by (auto simp: validateBatchChange_def split: if_splits)
        then have "list_all2 callAdvances (tb_calls b) (tb_calls b')"
          unfolding sameToolBatchIdentity_def list_all2_conv_all_nth
          by (blast intro: checkCallChange_advances)
        with p Some show ?thesis by (simp add: batchKept_def)
      qed
    qed
  qed
qed

lemma updatedRecord_simps:
  "tr_revision (updatedRecord now e c r) = e + 1" "tr_workspace (updatedRecord now e c r) = tr_workspace r"
  "tr_task (updatedRecord now e c r) = tr_task r" "tr_phase (updatedRecord now e c r) = tr_phase r"
  "tr_batch (updatedRecord now e c r) = tr_batch r" "tr_session (updatedRecord now e c r) = tr_session r"
  "tr_owner (updatedRecord now e c r) = tr_owner r"
  by (simp_all add: updatedRecord_def Let_def)

lemma validateRecord_revision: "validateRecord jc n = Inr u \<Longrightarrow> tr_revision n \<noteq> 0"
  by (auto simp: validateRecord_def split: if_splits)

lemma nextRecord_facts:
  assumes "nextRecord jc now e r c = Inr n"
  shows "tr_revision c = e" "tr_revision n = e + 1" "e + 1 \<noteq> 0" "validateTransition jc c n = Inr ()"
    "validateRecord jc n = Inr ()" "tr_workspace n = tr_workspace r" "tr_task n = tr_task r"
proof -
  let ?n = "updatedRecord now e c r"
  from assms have f: "tr_revision c = e" "validateTransition jc c ?n = Inr ()" "validateRecord jc ?n = Inr ()" "n = ?n"
    by (auto simp: nextRecord_def Let_def split: if_splits)
  from validateRecord_revision [OF f(3)] have "e + 1 \<noteq> 0" by (simp add: updatedRecord_simps)
  with f show "tr_revision c = e" "tr_revision n = e + 1" "e + 1 \<noteq> 0" "validateTransition jc c n = Inr ()"
    "validateRecord jc n = Inr ()" "tr_workspace n = tr_workspace r" "tr_task n = tr_task r"
    by (simp_all add: updatedRecord_simps)
qed

end
