(* ===== verification/JournalProofs.thy ===== *)
theory JournalProofs
  imports JournalStore
begin

text \<open>
  What the turn journal promises: later states of a store keep every record's identity, its
  terminal state and its uncertain calls; of two writers with the same revision one loses; a
  written record is read back, unless a descriptor contains characters that the JSON encoder
  escapes; and recovery from the distributed index finds every active record.
\<close>

section \<open>Later disks\<close>

definition uncertainCalls :: "turn_record \<Rightarrow> (string \<times> string \<times> string) set" where
  "uncertainCalls r =
     (case tr_batch r of
        None \<Rightarrow> {}
      | Some b \<Rightarrow> (\<lambda>c. (tk_invocation c, tk_name c, tk_args c)) `
          set (filter (\<lambda>c. tk_outcome c = OutcomeUncertain) (tb_calls b)))"

lemma storedRecord_simps [simp]:
  "tr_workspace (storedRecord r) = tr_workspace r" "tr_session (storedRecord r) = tr_session r"
  "tr_task (storedRecord r) = tr_task r" "tr_owner (storedRecord r) = tr_owner r"
  "tr_input (storedRecord r) = tr_input r" "tr_created (storedRecord r) = tr_created r"
  "tr_revision (storedRecord r) = tr_revision r" "tr_iteration (storedRecord r) = tr_iteration r"
  "tr_phase (storedRecord r) = tr_phase r" "tr_schema (storedRecord r) = tr_schema r"
  "tr_schema_revision (storedRecord r) = tr_schema_revision r" "tr_last (storedRecord r) = tr_last r"
  "tr_reason (storedRecord r) = tr_reason r" "tr_updated (storedRecord r) = tr_updated r"
  "tr_completed (storedRecord r) = tr_completed r"
  "tr_batch (storedRecord r) = map_option (\<lambda>b. b\<lparr>tb_calls := map storedCall (tb_calls b)\<rparr>) (tr_batch r)"
  by (simp_all add: storedRecord_def)

lemma storedCall_simps [simp]:
  "tk_invocation (storedCall c) = tk_invocation c" "tk_name (storedCall c) = tk_name c"
  "tk_args (storedCall c) = tk_args c" "tk_outcome (storedCall c) = tk_outcome c"
  "tk_result (storedCall c) = tk_result c"
  "tk_external (storedCall c) = map_option storedExternal (tk_external c)"
  by (simp_all add: storedCall_def)

lemma uncertainCalls_stored [simp]: "uncertainCalls (storedRecord r) = uncertainCalls r"
  by (cases "tr_batch r") (simp_all add: uncertainCalls_def filter_map comp_def image_image)

lemma uncertainCalls_kept:
  assumes "batchKept p n"
  shows "uncertainCalls p \<subseteq> uncertainCalls n"
proof (cases "tr_batch p")
  case None
  then show ?thesis by (simp add: uncertainCalls_def)
next
  case (Some b)
  from assms Some consider (kept) b' where "tr_batch n = Some b'" "list_all2 callAdvances (tb_calls b) (tb_calls b')"
    | (confirmed) "toolBatchAll b OutcomeConfirmed"
    by (auto simp: batchKept_def)
  then show ?thesis
  proof cases
    case kept
    show ?thesis
    proof
      fix u
      assume "u \<in> uncertainCalls p"
      with Some obtain i where i: "i < length (tb_calls b)" "tk_outcome (tb_calls b ! i) = OutcomeUncertain"
        "u = (tk_invocation (tb_calls b ! i), tk_name (tb_calls b ! i), tk_args (tb_calls b ! i))"
        by (auto simp: uncertainCalls_def in_set_conv_nth)
      with kept(2) have "callAdvances (tb_calls b ! i) (tb_calls b' ! i)" "i < length (tb_calls b')"
        by (auto simp: list_all2_conv_all_nth)
      with i show "u \<in> uncertainCalls n"
        by (auto simp: uncertainCalls_def kept(1) callAdvances_def allowedToolOutcomeTransition_def
            in_set_conv_nth split: if_splits intro!: exI [of _ "tb_calls b' ! i"])
    qed
  next
    case confirmed
    with Some show ?thesis by (auto simp: uncertainCalls_def toolBatchAll_def list_all_iff)
  qed
qed

text \<open>What any later record of the same task keeps.\<close>

definition recordKept :: "turn_record \<Rightarrow> turn_record \<Rightarrow> bool" where
  "recordKept p n \<longleftrightarrow>
     tr_workspace n = tr_workspace p \<and> tr_session n = tr_session p \<and> tr_task n = tr_task p \<and>
     tr_owner n = tr_owner p \<and> tr_input n = tr_input p \<and> tr_created n = tr_created p \<and>
     tr_revision p \<le> tr_revision n \<and> tr_iteration p \<le> tr_iteration n \<and>
     (terminalPhase (tr_phase p) \<longrightarrow> n = p) \<and> uncertainCalls p \<subseteq> uncertainCalls n"

lemma recordKept_refl: "recordKept p p"
  by (simp add: recordKept_def)

lemma recordKept_trans: "recordKept p n \<Longrightarrow> recordKept n m \<Longrightarrow> recordKept p m"
  by (auto simp: recordKept_def)

lemma word_next: "a + 1 \<noteq> (0 :: 'a :: len word) \<Longrightarrow> a \<le> a + 1"
  using measure_unat [of "a + 1"] by (simp add: word_le_nat_alt)

lemma nextRecord_kept:
  assumes "nextRecord jc now e r c = Inr n"
  shows "recordKept c (storedRecord n)"
proof -
  note f = nextRecord_facts [OF assms]
  note t = validateTransition_facts [OF f(4)]
  have "tr_revision c \<le> tr_revision n" using f(1-3) word_next [of e] by simp
  with t uncertainCalls_kept [OF t(10)] show ?thesis by (simp add: recordKept_def)
qed

definition diskKept :: "journal_disk \<Rightarrow> journal_disk \<Rightarrow> bool" where
  "diskKept d d' \<longleftrightarrow> (\<forall>path r. map_of d path = Some (JournalFile r) \<longrightarrow>
     (\<exists>r'. map_of d' path = Some (JournalFile r') \<and> recordKept r r'))"

text \<open>Every file was written by the store, under the path of its task.\<close>

definition journalOk :: "journal_codec \<Rightarrow> journal_disk \<Rightarrow> bool" where
  "journalOk jc d \<longleftrightarrow> distinct (map fst d) \<and>
     (\<forall>path f. map_of d path = Some f \<longrightarrow> (\<exists>n. f = JournalFile (storedRecord n) \<and>
        validateRecord jc n = Inr () \<and> path = journalPath jc (tr_workspace n) (tr_task n)))"

datatype journal_op =
    JCreate bool io_env time turn_record
  | JUpdate bool io_env time "64 word" turn_record

fun journal_step :: "journal_codec \<Rightarrow> journal_op \<Rightarrow> journal_disk \<Rightarrow> journal_disk" where
  "journal_step jc (JCreate ctx io now r) d = fst (fileCreate jc ctx io now r d)"
| "journal_step jc (JUpdate ctx io now e r) d = fst (fileUpdate jc ctx io now e r d)"

lemma fileCreate_cases:
  assumes "fileCreate jc ctx io now r d = (d', res)"
  shows "d' = d \<or> (validateRecord jc (createdRecord now r) = Inr () \<and>
     map_of d (journalPath jc (tr_workspace r) (tr_task r)) = None \<and>
     d' = AList.update (journalPath jc (tr_workspace r) (tr_task r))
       (JournalFile (storedRecord (createdRecord now r))) d)"
  using assms
  by (auto simp: fileCreate_def persistRecord_def createdRecord_def Let_def split: if_splits sum.splits)

lemma fileUpdate_cases:
  assumes "fileUpdate jc ctx io now e r d = (d', res)"
  shows "d' = d \<or> (\<exists>c n. loadRecord jc io (tr_workspace r) (tr_task r) d = Inr c \<and>
     nextRecord jc now e r c = Inr n \<and> res = Inr n \<and>
     d' = AList.update (journalPath jc (tr_workspace r) (tr_task r)) (JournalFile (storedRecord n)) d)"
proof (cases "d' = d")
  case False
  with assms obtain c n where "loadRecord jc io (tr_workspace r) (tr_task r) d = Inr c" "nextRecord jc now e r c = Inr n"
    "(d', res) = persistRecord jc io n d"
    by (auto simp: fileUpdate_def split: if_splits sum.splits)
  with False nextRecord_facts(6,7) show ?thesis
    by (auto simp: persistRecord_def split: if_splits intro!: exI [of _ c] exI [of _ n])
qed simp

lemma loadRecord_facts:
  assumes "loadRecord jc io w t d = Inr c"
  shows "map_of d (journalPath jc w t) = Some (JournalFile c)" "tr_workspace c = w" "tr_task c = t"
    "validateRecord jc c = Inr ()"
  using assms by (auto simp: loadRecord_def decodeJournal_def split: if_splits option.splits journal_file.splits)

lemma journalOk_put:
  assumes "journalOk jc d" "validateRecord jc n = Inr ()" "path = journalPath jc (tr_workspace n) (tr_task n)"
  shows "journalOk jc (AList.update path (JournalFile (storedRecord n)) d)"
  using assms by (auto simp: journalOk_def distinct_update)

lemma journal_step_ok: "journalOk jc d \<Longrightarrow> journalOk jc (journal_step jc x d)"
proof (cases x)
  case (JCreate ctx io now r)
  assume ok: "journalOk jc d"
  obtain d' res where f: "fileCreate jc ctx io now r d = (d', res)" by fastforce
  from fileCreate_cases [OF f] ok have "journalOk jc d'"
    by (auto intro!: journalOk_put simp: createdRecord_def)
  with f JCreate show ?thesis by simp
next
  case (JUpdate ctx io now e r)
  assume ok: "journalOk jc d"
  obtain d' res where f: "fileUpdate jc ctx io now e r d = (d', res)" by fastforce
  from fileUpdate_cases [OF f] ok have "journalOk jc d'"
    by (auto intro!: journalOk_put simp: nextRecord_facts(5-7))
  with f JUpdate show ?thesis by simp
qed

lemma diskKept_refl: "diskKept d d"
  by (auto simp: diskKept_def recordKept_refl)

lemma diskKept_trans: "diskKept c d \<Longrightarrow> diskKept d e \<Longrightarrow> diskKept c e"
  unfolding diskKept_def by (meson recordKept_trans)

lemma diskKept_put:
  assumes "\<And>r. map_of d path = Some (JournalFile r) \<Longrightarrow> recordKept r n"
  shows "diskKept d (AList.update path (JournalFile n) d)"
  using assms by (auto simp: diskKept_def recordKept_refl)

lemma journal_step_kept: "diskKept d (journal_step jc x d)"
proof (cases x)
  case (JCreate ctx io now r)
  obtain d' res where f: "fileCreate jc ctx io now r d = (d', res)" by fastforce
  from fileCreate_cases [OF f] have "diskKept d d'" by (auto intro: diskKept_refl diskKept_put)
  with f JCreate show ?thesis by simp
next
  case (JUpdate ctx io now e r)
  obtain d' res where f: "fileUpdate jc ctx io now e r d = (d', res)" by fastforce
  have "diskKept d d'"
    using fileUpdate_cases [OF f]
  proof (elim disjE exE conjE)
    fix c n
    assume l: "loadRecord jc io (tr_workspace r) (tr_task r) d = Inr c" and n: "nextRecord jc now e r c = Inr n"
      and d': "d' = AList.update (journalPath jc (tr_workspace r) (tr_task r)) (JournalFile (storedRecord n)) d"
    show "diskKept d d'"
      unfolding d' using loadRecord_facts(1) [OF l] nextRecord_kept [OF n] by (intro diskKept_put) simp
  qed (simp add: diskKept_refl)
  with f JUpdate show ?thesis by simp
qed

interpretation journal_history: monotone_machine "[]" "journal_step jc" "journalOk jc" diskKept for jc
proof unfold_locales
  show "journalOk jc []" by (simp add: journalOk_def)
  show "journalOk jc s \<Longrightarrow> journalOk jc (journal_step jc x s)" for s x by (rule journal_step_ok)
  show "diskKept s s" for s by (rule diskKept_refl)
  show "diskKept s t \<Longrightarrow> diskKept t u \<Longrightarrow> diskKept s u" for s t u by (rule diskKept_trans)
  show "journalOk jc s \<Longrightarrow> diskKept s (journal_step jc x s)" for s x by (rule journal_step_kept)
qed

section \<open>Reading back\<close>

text \<open>What \<open>json.Valid\<close> promises: compacting keeps validity and leaves something.\<close>

definition jsonOk :: "journal_codec \<Rightarrow> bool" where
  "jsonOk jc \<longleftrightarrow> (\<forall>d. jc_valid jc d \<longrightarrow> jc_valid jc (compactFrom False d) \<and> compactFrom False d \<noteq> [])"

lemma compactFrom_idem: "compactFrom b (compactFrom b s) = compactFrom b s"
  by (induction b s rule: compactFrom.induct) (auto split: list.split)

lemma compactFrom_length: "length (compactFrom b s) \<le> length s"
  by (induction b s rule: compactFrom.induct) (auto split: list.split)

text \<open>Texts the encoder does not change beyond compacting.\<close>

definition plainJSON :: "string \<Rightarrow> bool" where
  "plainJSON d \<longleftrightarrow> htmlEscape (compactFrom False d) = compactFrom False d"

definition plainRecord :: "turn_record \<Rightarrow> bool" where
  "plainRecord r = (case tr_batch r of
      None \<Rightarrow> True
    | Some b \<Rightarrow> list_all (\<lambda>c. case tk_external c of None \<Rightarrow> True | Some x \<Rightarrow> plainJSON (xr_descriptor x)) (tb_calls b))"

lemma storedExternal_valid:
  assumes "jsonOk jc" "validateExternalChildRef jc x = Inr u" "plainJSON (xr_descriptor x)"
  shows "validateExternalChildRef jc (storedExternal x) = Inr ()"
proof -
  let ?d = "xr_descriptor x"
  have m: "marshalRaw ?d = compactFrom False ?d" using assms(3) by (simp add: marshalRaw_def plainJSON_def)
  from assms(2) have v: "jc_valid jc ?d" "length ?d \<le> maxExternalDescriptorBytes"
    "validDigest (xr_digest x)" "xr_digest x = jc_sha jc (compactFrom False ?d)"
    "first_error (map validateIdentifier [xr_task x, xr_execution x, xr_child x]) = Inr ()"
    unfolding validateExternalChildRef_def compactJSON_def
    by (auto simp: and_then_Inr_iff split: if_splits option.splits)
  from assms(1) v(1) have c: "jc_valid jc (compactFrom False ?d)" "compactFrom False ?d \<noteq> []"
    by (auto simp: jsonOk_def)
  from compactFrom_length [of False ?d] v(2) have "length (compactFrom False ?d) \<le> maxExternalDescriptorBytes" by simp
  moreover have "validDigest (jc_sha jc (compactFrom False ?d))" using v(3) unfolding v(4) .
  ultimately show ?thesis using v c m
    by (simp add: validateExternalChildRef_def storedExternal_def compactJSON_def compactFrom_idem)
qed

lemma checkCall_external:
  "checkCall jc r c k = Inr k' \<Longrightarrow> tk_external c = Some x \<Longrightarrow> validateExternalChildRef jc x = Inr ()"
  by (auto simp: checkCall_def split: prod.splits)

lemma checkCalls_external:
  "checkCalls jc r cs seen k = Inr k' \<Longrightarrow> c \<in> set cs \<Longrightarrow> tk_external c = Some x \<Longrightarrow>
     validateExternalChildRef jc x = Inr ()"
  by (induction cs arbitrary: seen k) (auto split: if_splits dest: checkCall_external)

lemma checkCall_stored:
  assumes "tr_workspace r' = tr_workspace r" "tr_session r' = tr_session r"
    "\<And>x. tk_external c = Some x \<Longrightarrow> validateExternalChildRef jc (storedExternal x) = Inr ()"
    "checkCall jc r c k = Inr k'"
  shows "checkCall jc r' (storedCall c) k = Inr k'"
  using assms
  by (cases "tk_outcome c"; cases "tk_external c") (auto simp: checkCall_def split: prod.splits option.splits if_splits)

lemma checkCalls_stored:
  assumes "tr_workspace r' = tr_workspace r" "tr_session r' = tr_session r"
    and "\<And>c x. c \<in> set cs \<Longrightarrow> tk_external c = Some x \<Longrightarrow> validateExternalChildRef jc (storedExternal x) = Inr ()"
    and "checkCalls jc r cs seen k = Inr k'"
  shows "checkCalls jc r' (map storedCall cs) seen k = Inr k'"
  using assms(3,4)
proof (induction cs arbitrary: seen k)
  case (Cons c cs)
  then obtain k1 where k1: "checkCall jc r c k = Inr k1" "checkCalls jc r cs (tk_invocation c # seen) k1 = Inr k'"
    by (auto split: if_splits)
  have "checkCall jc r' (storedCall c) k = Inr k1"
    using Cons.prems(1) k1(1) by (intro checkCall_stored [OF assms(1,2)]) auto
  moreover have "checkCalls jc r' (map storedCall cs) (tk_invocation c # seen) k1 = Inr k'"
    using Cons.prems(1) k1(2) by (intro Cons.IH) auto
  ultimately show ?case using Cons.prems(2) by (auto split: if_splits)
qed simp

lemma checkCounts_stored:
  "tr_phase r' = tr_phase r \<Longrightarrow> checkCounts r b k = Inr u \<Longrightarrow> tb_calls b \<noteq> [] \<Longrightarrow>
     checkCounts r' (b\<lparr>tb_calls := map storedCall (tb_calls b)\<rparr>) k = Inr ()"
  by (cases "tb_calls b"; cases "tr_phase r") (auto simp: checkCounts_def guard_def split: prod.splits if_splits)

lemma validateBatch_stored:
  assumes "jsonOk jc" "plainRecord r" "validateToolBatchForPhase jc r = Inr u"
  shows "validateToolBatchForPhase jc (storedRecord r) = Inr ()"
proof (cases "tr_batch r")
  case None
  with assms show ?thesis by (simp add: validateToolBatchForPhase_def)
next
  case (Some b)
  with assms(3) obtain k where b: "tb_calls b \<noteq> []" "length (tb_calls b) \<le> 1024"
    "validateHistoryRef (tb_assistant b) (tr_workspace r) (tr_session r) = Inr ()"
    "checkCalls jc r (tb_calls b) [] (0, 0, 0, 0) = Inr k" "checkCounts r b k = Inr u"
    by (auto simp: validateToolBatchForPhase_def split: if_splits)
  have "validateExternalChildRef jc (storedExternal x) = Inr ()" if "c \<in> set (tb_calls b)" "tk_external c = Some x" for c x
    using that checkCalls_external [OF b(4) that] assms(1,2) Some
    by (intro storedExternal_valid) (auto simp: plainRecord_def list_all_iff)
  then have "checkCalls jc (storedRecord r) (map storedCall (tb_calls b)) [] (0, 0, 0, 0) = Inr k"
    using b(4) by (intro checkCalls_stored [where r = r]) auto
  moreover have "checkCounts (storedRecord r) (b\<lparr>tb_calls := map storedCall (tb_calls b)\<rparr>) k = Inr ()"
    using b(1,5) by (intro checkCounts_stored [where r = r]) auto
  ultimately show ?thesis using Some b by (simp add: validateToolBatchForPhase_def)
qed

lemma validateRecord_stored:
  assumes "jsonOk jc" "plainRecord r" "validateRecord jc r = Inr u"
  shows "validateRecord jc (storedRecord r) = Inr ()"
proof -
  have "validateToolBatchForPhase jc r = Inr ()" using assms(3) by (auto simp: validateRecord_def split: if_splits)
  from validateBatch_stored [OF assms(1,2) this]
  have "validateToolBatchForPhase jc (storedRecord r) = Inr ()" .
  moreover have "validateTerminal (storedRecord r) = validateTerminal r"
    unfolding validateTerminal_def storedRecord_simps ..
  ultimately show ?thesis using assms(3)
    unfolding validateRecord_def storedRecord_simps by (simp only: and_then_Inr_iff split: if_splits) auto
qed

lemma validateRecord_external:
  assumes "validateRecord jc r = Inr u" "tr_batch r = Some b" "c \<in> set (tb_calls b)" "tk_external c = Some x"
  shows "validateExternalChildRef jc x = Inr ()"
proof -
  have "validateToolBatchForPhase jc r = Inr ()" using assms(1) by (auto simp: validateRecord_def split: if_splits)
  with assms(2) obtain k where "checkCalls jc r (tb_calls b) [] (0, 0, 0, 0) = Inr k"
    by (auto simp: validateToolBatchForPhase_def split: if_splits)
  from checkCalls_external [OF this assms(3,4)] show ?thesis .
qed

section \<open>The distributed store\<close>

interpretation journal_cas: cas_store "readRecordBlob jc decode w t" "\<lambda>(now, e, r). recordMutate jc now e r" encode
  "\<lambda>r. validateRecord jc r = Inr () \<and> tr_workspace r = w \<and> tr_task r = t" "\<lambda>r. validateRecord jc r = Inr ()"
  for jc decode w t encode
proof unfold_locales
  show "readRecordBlob jc decode w t b = Inr s \<Longrightarrow> validateRecord jc s = Inr () \<and> tr_workspace s = w \<and> tr_task s = t" for b s
    by (auto simp: readRecordBlob_def split: option.splits if_splits)
  show "(case x of (now, e, r) \<Rightarrow> recordMutate jc now e r) s = Inr (Changed s' r) \<Longrightarrow> validateRecord jc s' = Inr ()" for x s s' r
    by (cases x) (auto simp: recordMutate_def dest: nextRecord_facts(5))
qed

definition refOk :: "exec_ref \<Rightarrow> bool" where
  "refOk x \<longleftrightarrow> validateLookup (xe_workspace x) (xe_task x) = Inr () \<and> validateIdentifier (xe_owner x) = Inr ()"

definition sortedRefs :: "exec_ref list \<Rightarrow> bool" where
  "sortedRefs xs \<longleftrightarrow> sorted_wrt (\<lambda>x y. refKey x < refKey y) xs"

lemma checkRefs_iff:
  "checkRefs prev xs = Inr u \<longleftrightarrow> (\<forall>x \<in> set xs. refOk x) \<and>
     sortedRefs (case prev of None \<Rightarrow> xs | Some p \<Rightarrow> p # xs)"
proof (induction xs arbitrary: prev)
  case Nil
  then show ?case by (simp add: sortedRefs_def split: option.split)
next
  case (Cons x xs)
  have tail: "sortedRefs (p # x # xs) \<longleftrightarrow> refKey p < refKey x \<and> sortedRefs (x # xs)" for p
    by (auto simp: sortedRefs_def intro: less_trans)
  have head: "validateLookup (xe_workspace x) (xe_task x) = Inr () \<and> validateIdentifier (xe_owner x) = Inr () \<longleftrightarrow> refOk x"
    by (simp add: refOk_def)
  show ?case
  proof (cases prev)
    case None
    with Cons.IH [of "Some x"] head show ?thesis by auto
  next
    case (Some p)
    with Cons.IH [of "Some x"] head tail show ?thesis by auto
  qed
qed

lemma validateExecutionIndex_iff:
  "validateExecutionIndex i = Inr u \<longleftrightarrow> xi_version i = casIndexVersion \<and> (\<forall>x \<in> set (xi_refs i). refOk x) \<and>
     sortedRefs (xi_refs i)"
  by (simp add: validateExecutionIndex_def checkRefs_iff)

lemma set_insertRef: "set (insertRef x refs) = insert x (set refs)"
proof -
  have "set refs = set (takeWhile (\<lambda>y. refKey y < refKey x) refs @ dropWhile (\<lambda>y. refKey y < refKey x) refs)" by simp
  then show ?thesis unfolding insertRef_def set_append by auto
qed

lemma dropWhile_keys:
  "sortedRefs refs \<Longrightarrow> \<forall>y \<in> set (dropWhile (\<lambda>y. refKey y < refKey x) refs). refKey x \<le> refKey y"
  by (induction refs) (auto simp: sortedRefs_def not_less intro: order_trans less_imp_le)

lemma sortedRefs_insert:
  assumes "sortedRefs refs" "refKey x \<notin> refKey ` set refs"
  shows "sortedRefs (insertRef x refs)"
proof -
  let ?P = "\<lambda>y. refKey y < refKey x"
  have "sortedRefs (takeWhile ?P refs @ dropWhile ?P refs)" using assms(1) by simp
  then have parts: "sortedRefs (takeWhile ?P refs)" "sortedRefs (dropWhile ?P refs)"
    "\<forall>a \<in> set (takeWhile ?P refs). \<forall>b \<in> set (dropWhile ?P refs). refKey a < refKey b"
    unfolding sortedRefs_def sorted_wrt_append by auto
  have below: "\<forall>a \<in> set (takeWhile ?P refs). refKey a < refKey x" by (auto dest: set_takeWhileD)
  have "refKey x < refKey b" if "b \<in> set (dropWhile ?P refs)" for b
  proof -
    have "refKey x \<le> refKey b" using dropWhile_keys [OF assms(1)] that by blast
    moreover have "b \<in> set refs" using that by (rule set_dropWhileD)
    ultimately show ?thesis using assms(2) by (metis image_eqI order_le_less)
  qed
  then have above: "\<forall>b \<in> set (dropWhile ?P refs). refKey x < refKey b" by blast
  have "\<forall>a \<in> set (takeWhile ?P refs). \<forall>b \<in> set (x # dropWhile ?P refs). refKey a < refKey b"
    using below parts(3) unfolding list.set by blast
  with above parts(1,2) show ?thesis
    unfolding insertRef_def sortedRefs_def sorted_wrt_append sorted_wrt.simps by blast
qed

text \<open>The outcome of one index update on a sorted index.\<close>

lemma indexMutate_cases:
  assumes "sortedRefs (xi_refs i)" "indexMutate x i = Inr ch"
  shows "(\<exists>y \<in> set (xi_refs i). refKey y = refKey x \<and> xe_owner y = xe_owner x \<and> ch = Unchanged ()) \<or>
    (refKey x \<notin> refKey ` set (xi_refs i) \<and> ch = Changed (i\<lparr>xi_refs := insertRef x (xi_refs i)\<rparr>) ())"
proof -
  let ?P = "\<lambda>y. refKey y < refKey x"
  show ?thesis
  proof (cases "\<exists>y ys. dropWhile ?P (xi_refs i) = y # ys \<and> refKey y = refKey x")
    case True
    then obtain y ys where y: "dropWhile ?P (xi_refs i) = y # ys" "refKey y = refKey x" by blast
    then have "y \<in> set (xi_refs i)" by (metis list.set_intros(1) set_dropWhileD)
    with y assms(2) show ?thesis by (auto simp: indexMutate_def split: if_splits)
  next
    case False
    have no: "refKey x \<notin> refKey ` set (xi_refs i)"
    proof
      assume "refKey x \<in> refKey ` set (xi_refs i)"
      then obtain z where z: "z \<in> set (xi_refs i)" "refKey z = refKey x" by auto
      then have "z \<in> set (dropWhile ?P (xi_refs i))"
        by (metis (no_types, lifting) Un_iff less_irrefl set_append set_takeWhileD takeWhile_dropWhile_id)
      then obtain y ys where y: "dropWhile ?P (xi_refs i) = y # ys" by (cases "dropWhile ?P (xi_refs i)") auto
      have "sortedRefs (takeWhile ?P (xi_refs i) @ dropWhile ?P (xi_refs i))" using assms(1) by simp
      then have "sortedRefs (y # ys)" unfolding y sortedRefs_def sorted_wrt_append by blast
      with z \<open>z \<in> set (dropWhile ?P (xi_refs i))\<close> y have "refKey y \<le> refKey x"
        by (auto simp: sortedRefs_def intro: less_imp_le)
      moreover have "\<not> refKey y < refKey x" using y by (metis hd_dropWhile list.discI list.sel(1))
      ultimately have "refKey y = refKey x" by simp
      with False y show False by blast
    qed
    from False assms(2) have "ch = Changed (i\<lparr>xi_refs := insertRef x (xi_refs i)\<rparr>) ()"
      by (auto simp: indexMutate_def split: list.splits)
    with no show ?thesis by blast
  qed
qed

interpretation index_cas: cas_store "readIndex decode" indexMutate encode
  "\<lambda>i. validateExecutionIndex i = Inr ()" "\<lambda>i. xi_version i = casIndexVersion \<and> sortedRefs (xi_refs i)"
  for decode encode
proof unfold_locales
  show "readIndex decode b = Inr s \<Longrightarrow> validateExecutionIndex s = Inr ()" for b s
    by (auto simp: readIndex_def validateExecutionIndex_iff sortedRefs_def split: option.splits if_splits)
  show "validateExecutionIndex s = Inr () \<Longrightarrow> indexMutate x s = Inr (Changed s' r) \<Longrightarrow>
      xi_version s' = casIndexVersion \<and> sortedRefs (xi_refs s')" for s x s' r
    using indexMutate_cases [of s x "Changed s' r"] sortedRefs_insert [of "xi_refs s" x]
    by (auto simp: validateExecutionIndex_iff)
qed

section \<open>Recovery\<close>

text \<open>
  The index and the decoded records of the distributed store, driven by atomic updates (which the
  loop provides). A creation updates the index first and may crash before it publishes the
  record.
\<close>

record dist_world =
  dw_index :: exec_index
  dw_records :: "((string \<times> string) \<times> turn_record) list"

definition newDist :: dist_world where
  "newDist = \<lparr>dw_index = \<lparr>xi_version = casIndexVersion, xi_refs = []\<rparr>, dw_records = []\<rparr>"

definition recordRef :: "turn_record \<Rightarrow> exec_ref" where
  "recordRef n = \<lparr>xe_workspace = tr_workspace n, xe_task = tr_task n, xe_owner = tr_owner n\<rparr>"

definition turnKey :: "turn_record \<Rightarrow> string \<times> string" where
  "turnKey r = (tr_workspace r, tr_task r)"

datatype dist_op =
    DCreate time turn_record bool
  | DUpdate time "64 word" turn_record

definition putRecord :: "turn_record \<Rightarrow> dist_world \<Rightarrow> dist_world" where
  "putRecord n w = w\<lparr>dw_records := AList.update (turnKey n) (storedRecord n) (dw_records w)\<rparr>"

definition putIndex :: "(exec_index, unit) change \<Rightarrow> dist_world \<Rightarrow> dist_world" where
  "putIndex ch w = (case ch of Unchanged _ \<Rightarrow> w | Changed i _ \<Rightarrow> w\<lparr>dw_index := i\<rparr>)"

fun dist_step :: "journal_codec \<Rightarrow> dist_op \<Rightarrow> dist_world \<Rightarrow> dist_world" where
  "dist_step jc (DCreate now r crashed) w =
     (let n = createdRecord now r in
      if tr_revision r \<noteq> 0 \<or> validateRecord jc n \<noteq> Inr () then w
      else case indexMutate (recordRef n) (dw_index w) of
        Inl e \<Rightarrow> w
      | Inr ch \<Rightarrow>
          if crashed \<or> map_of (dw_records w) (turnKey n) \<noteq> None then putIndex ch w
          else putRecord n (putIndex ch w))"
| "dist_step jc (DUpdate now e r) w =
     (case map_of (dw_records w) (turnKey r) of
        None \<Rightarrow> w
      | Some c \<Rightarrow>
          if validateRecord jc c \<noteq> Inr () then w
          else (case nextRecord jc now e r c of Inl _ \<Rightarrow> w | Inr n \<Rightarrow> putRecord n w))"

definition execIndexOk :: "exec_index \<Rightarrow> bool" where
  "execIndexOk i \<longleftrightarrow> xi_version i = casIndexVersion \<and> sortedRefs (xi_refs i) \<and> (\<forall>x \<in> set (xi_refs i). refOk x)"

definition listedIn :: "exec_index \<Rightarrow> ((string \<times> string) \<times> turn_record) list \<Rightarrow> bool" where
  "listedIn i recs \<longleftrightarrow> (\<forall>k r. map_of recs k = Some r \<longrightarrow> k = turnKey r \<and> recordRef r \<in> set (xi_refs i))"

definition distOk :: "dist_world \<Rightarrow> bool" where
  "distOk w \<longleftrightarrow> execIndexOk (dw_index w) \<and> listedIn (dw_index w) (dw_records w)"

lemma validateRecord_ids: "validateRecord jc r = Inr u \<Longrightarrow> refOk (recordRef r)"
  by (auto simp: validateRecord_def refOk_def recordRef_def validateLookup_def split: if_splits sum.splits)

lemma recordRef_stored [simp]: "recordRef (storedRecord n) = recordRef n" "turnKey (storedRecord n) = turnKey n"
  by (simp_all add: recordRef_def turnKey_def)

lemma refKey_recordRef: "refKey (recordRef r) = turnKey r"
  by (simp add: refKey_def recordRef_def turnKey_def)

lemma listedIn_put: "listedIn i recs \<Longrightarrow> recordRef n \<in> set (xi_refs i) \<Longrightarrow>
    listedIn i (AList.update (turnKey n) (storedRecord n) recs)"
  by (simp add: listedIn_def)

lemma distOk_index:
  assumes "distOk w" "refOk x" "indexMutate x (dw_index w) = Inr ch"
  shows "distOk (putIndex ch w) \<and> x \<in> set (xi_refs (dw_index (putIndex ch w)))"
proof -
  have s: "sortedRefs (xi_refs (dw_index w))" using assms(1) by (simp add: distOk_def execIndexOk_def)
  from indexMutate_cases [OF s assms(3)] show ?thesis
  proof (elim disjE bexE conjE)
    fix y
    assume y: "y \<in> set (xi_refs (dw_index w))" "refKey y = refKey x" "xe_owner y = xe_owner x" "ch = Unchanged ()"
    then have "y = x" by (simp add: refKey_def)
    with assms(1) y show ?thesis by (simp add: putIndex_def)
  next
    assume new: "refKey x \<notin> refKey ` set (xi_refs (dw_index w))"
      and ch: "ch = Changed (dw_index w\<lparr>xi_refs := insertRef x (xi_refs (dw_index w))\<rparr>) ()"
    from sortedRefs_insert [OF s new] assms(1,2) show ?thesis
      by (simp add: ch putIndex_def distOk_def execIndexOk_def listedIn_def set_insertRef)
  qed
qed

lemma distOk_put: "distOk w \<Longrightarrow> recordRef n \<in> set (xi_refs (dw_index w)) \<Longrightarrow> distOk (putRecord n w)"
  by (simp add: distOk_def putRecord_def listedIn_put)

lemma distOk_step: "distOk w \<Longrightarrow> distOk (dist_step jc x w)"
proof (cases x)
  case (DCreate now r crashed)
  assume ok: "distOk w"
  let ?n = "createdRecord now r"
  have "distOk (putIndex ch w)" "distOk (putRecord ?n (putIndex ch w))"
    if "indexMutate (recordRef ?n) (dw_index w) = Inr ch" "validateRecord jc ?n = Inr ()" for ch
    using distOk_index [OF ok validateRecord_ids [OF that(2)] that(1)] distOk_put by blast+
  with ok DCreate show ?thesis
    by (cases "indexMutate (recordRef ?n) (dw_index w)") (simp_all add: Let_def)
next
  case (DUpdate now e r)
  assume ok: "distOk w"
  have "distOk (putRecord n w)"
    if c: "map_of (dw_records w) (turnKey r) = Some c" and n: "nextRecord jc now e r c = Inr n" for c n
  proof -
    note t = validateTransition_facts [OF nextRecord_facts(4) [OF n]]
    have "recordRef n = recordRef c" using t by (simp add: recordRef_def)
    moreover have "recordRef c \<in> set (xi_refs (dw_index w))" using ok c unfolding distOk_def listedIn_def by blast
    ultimately show ?thesis using ok by (simp add: distOk_put)
  qed
  with ok DUpdate show ?thesis by (auto split: option.split sum.split)
qed

interpretation dist_store: store_machine newDist "dist_step jc" distOk for jc
proof unfold_locales
  show "distOk newDist" by (simp add: distOk_def newDist_def sortedRefs_def execIndexOk_def listedIn_def)
  show "distOk s \<Longrightarrow> distOk (dist_step jc x s)" for s x by (rule distOk_step)
qed

text \<open>What the scan over the index returns.\<close>

definition recordsOf :: "((string \<times> string) \<times> turn_record) list \<Rightarrow> exec_ref list \<Rightarrow> turn_record list" where
  "recordsOf recs xs = List.map_filter (\<lambda>x. map_of recs (refKey x)) xs"

lemma recordsOf_simps:
  "recordsOf recs [] = []"
  "recordsOf recs (x # xs) = (case map_of recs (refKey x) of None \<Rightarrow> recordsOf recs xs | Some r \<Rightarrow> r # recordsOf recs xs)"
  by (simp_all add: recordsOf_def map_filter_def split: option.split)

lemma recordsOf_set: "set (recordsOf recs xs) = {r. \<exists>x \<in> set xs. map_of recs (refKey x) = Some r}"
  by (induction xs) (auto simp: recordsOf_simps split: option.splits)

definition blobsOf :: "(turn_record \<Rightarrow> string) \<Rightarrow> ((string \<times> string) \<times> turn_record) list \<Rightarrow> string \<times> string \<Rightarrow> blob" where
  "blobsOf encode recs k = map_option encode (map_of recs k)"

lemma readRecordBlob_none:
  "refOk x \<Longrightarrow> readRecordBlob jc decode (xe_workspace x) (xe_task x) None = Inl JournalNotFound"
  by (simp add: readRecordBlob_def refOk_def)

lemma readRecordBlob_some:
  "refOk x \<Longrightarrow> decode raw = Some r \<Longrightarrow> raw \<noteq> [] \<Longrightarrow> refKey x = turnKey r \<Longrightarrow>
     readRecordBlob jc decode (xe_workspace x) (xe_task x) (Some raw) =
     (if validateRecord jc r = Inr () then Inr r else Inl JournalCorrupt)"
  by (simp add: readRecordBlob_def refOk_def refKey_def turnKey_def)

lemma collectActive_all:
  assumes "\<And>k r. map_of recs k = Some r \<Longrightarrow> decode (encode r) = Some r \<and> encode r \<noteq> []"
    and "\<forall>x \<in> set xs. refOk x \<and> (\<forall>r. map_of recs (refKey x) = Some r \<longrightarrow> refKey x = turnKey r \<and> tr_owner r = xe_owner x)"
  shows "collectActive jc decode (blobsOf encode recs) owner xs =
    (if \<forall>r \<in> set (recordsOf recs xs). validateRecord jc r = Inr ()
     then Inr (filter (activeFor owner) (recordsOf recs xs)) else Inl JournalCorrupt)"
  using assms(2)
proof (induction xs)
  case Nil
  then show ?case by (simp add: recordsOf_simps)
next
  case (Cons x xs)
  then have IH: "collectActive jc decode (blobsOf encode recs) owner xs =
    (if \<forall>r \<in> set (recordsOf recs xs). validateRecord jc r = Inr ()
     then Inr (filter (activeFor owner) (recordsOf recs xs)) else Inl JournalCorrupt)" by simp
  have x: "refOk x" using Cons.prems by simp
  show ?case
  proof (cases "map_of recs (refKey x)")
    case None
    then have "blobsOf encode recs (refKey x) = None" by (simp add: blobsOf_def)
    with IH None readRecordBlob_none [OF x] show ?thesis by (simp add: recordsOf_simps)
  next
    case (Some r)
    with Cons.prems have r: "refKey x = turnKey r" "tr_owner r = xe_owner x" by auto
    from assms(1) [OF Some] have enc: "decode (encode r) = Some r" "encode r \<noteq> []" by simp_all
    have b: "blobsOf encode recs (refKey x) = Some (encode r)" using Some by (simp add: blobsOf_def)
    have a: "activeFor owner r \<longleftrightarrow> xe_owner x = owner \<and> \<not> terminalPhase (tr_phase r)"
      using r(2) by (simp add: activeFor_def)
    note rd = readRecordBlob_some [of x decode "encode r" r jc, OF x enc r(1)]
    have rec: "recordsOf recs (x # xs) = r # recordsOf recs xs" using Some by (simp add: recordsOf_simps)
    show ?thesis
      unfolding collectActive.simps b rd rec IH
      using a r(2) by auto
  qed
qed

end
