(* ===== verification/JournalSpec.thy ===== *)
theory JournalSpec
  imports JournalProofs
begin

text \<open>
  The properties of the turn journal (\<open>pkg/turnjournal\<close>), each with an application at a
  concrete store.
\<close>

section \<open>Concrete records\<close>

definition zeros :: string where "zeros = replicate 64 (CHR ''0'')"
definition ones :: string where "ones = replicate 64 (CHR ''1'')"

definition sampleRef :: history_ref where
  "sampleRef = \<lparr>hr_workspace = ''w'', hr_session = ''s'', hr_message = ''m'', hr_digest = zeros\<rparr>"

definition sampleTurn :: turn_record where
  "sampleTurn = \<lparr>tr_schema_revision = 0, tr_schema = [], tr_revision = 0, tr_workspace = ''w'',
     tr_session = ''s'', tr_task = ''t'', tr_owner = ''alice'', tr_phase = PhaseUnset,
     tr_input = sampleRef, tr_iteration = 0, tr_last = [], tr_batch = None, tr_reason = [],
     tr_created = 0, tr_updated = 0, tr_completed = None\<rparr>"

text \<open>A turn that waits for a child whose descriptor is the JSON text \<open>d\<close>.\<close>

definition waitingTurn :: "string \<Rightarrow> turn_record" where
  "waitingTurn d = sampleTurn\<lparr>tr_phase := PhaseWaitingExternalChild,
     tr_batch := Some \<lparr>tb_assistant = sampleRef,
       tb_calls = [\<lparr>tk_invocation = ''i'', tk_name = ''spawn'', tk_args = zeros, tk_outcome = OutcomeAdmitted,
         tk_external = Some \<lparr>xr_task = ''ct'', xr_execution = ''ce'', xr_child = ''cc'', xr_descriptor = d,
           xr_digest = zeros\<rparr>, tk_result = None\<rparr>]\<rparr>\<rparr>"

text \<open>The escaped form of the one-character string \<open>"<"\<close>.\<close>

definition angleJSON :: string where "angleJSON = [CHR 0x22, CHR ''<'', CHR 0x22]"

definition sampleCodec :: journal_codec where
  "sampleCodec = \<lparr>jc_sha = (\<lambda>s. if s = marshalRaw angleJSON then ones else zeros),
     jc_valid = (\<lambda>s. s = ''{}'' \<or> s = angleJSON \<or> s = marshalRaw angleJSON)\<rparr>"

definition sampleDisk :: journal_disk where
  "sampleDisk = [(journalPath sampleCodec ''w'' ''t'', JournalFile (createdRecord 5 sampleTurn))]"

lemma sample_texts:
  "compactFrom False ''{}'' = ''{}''" "compactFrom False angleJSON = angleJSON"
  "compactFrom False (marshalRaw angleJSON) = marshalRaw angleJSON" "marshalRaw angleJSON \<noteq> []"
  "angleJSON \<noteq> []" "marshalRaw angleJSON \<noteq> angleJSON"
  "marshalRaw angleJSON \<noteq> ''{}''"
  by code_simp+

lemma sampleCodec_ok: "jsonOk sampleCodec"
  unfolding jsonOk_def sampleCodec_def journal_codec.simps
  using sample_texts by (metis list.discI)

lemma sample_identifiers:
  "validateIdentifier ''w'' = Inr ()" "validateIdentifier ''s'' = Inr ()" "validateIdentifier ''t'' = Inr ()"
  "validateIdentifier ''alice'' = Inr ()" "validateIdentifier ''m'' = Inr ()" "validateIdentifier ''i'' = Inr ()"
  "validateIdentifier ''spawn'' = Inr ()" "validateIdentifier ''ct'' = Inr ()" "validateIdentifier ''ce'' = Inr ()"
  "validateIdentifier ''cc'' = Inr ()" "validDigest zeros"
  by code_simp+

lemma waiting_valid:
  assumes "d = ''{}'' \<or> d = angleJSON"
  shows "validateRecord sampleCodec (createdRecord 5 (waitingTurn d)) = Inr ()"
proof -
  have d: "compactFrom False d = d" "d \<noteq> []" "jc_valid sampleCodec d" "jc_sha sampleCodec d = zeros"
    "length d \<le> maxExternalDescriptorBytes"
    using assms sample_texts by (auto simp: sampleCodec_def maxExternalDescriptorBytes_def)
      (simp_all add: angleJSON_def)
  have "validateExternalChildRef sampleCodec \<lparr>xr_task = ''ct'', xr_execution = ''ce'', xr_child = ''cc'',
      xr_descriptor = d, xr_digest = zeros\<rparr> = Inr ()"
    using d by (simp add: validateExternalChildRef_def compactJSON_def sample_identifiers)
  then show ?thesis
    by (simp add: validateRecord_def createdRecord_def waitingTurn_def sampleTurn_def sampleRef_def
        sample_identifiers validPhase_def validateHistoryRef_def validateTerminal_def terminalPhase_def
        validateToolBatchForPhase_def checkCall_def checkCounts_def)
qed

lemma waiting_created:
  assumes "d = ''{}'' \<or> d = angleJSON"
  shows "fileCreate sampleCodec False io_ok 5 (waitingTurn d) [] =
    ([(journalPath sampleCodec ''w'' ''t'', JournalFile (storedRecord (createdRecord 5 (waitingTurn d))))],
     Inr (createdRecord 5 (waitingTurn d)))"
proof -
  have "encodable (createdRecord 5 (waitingTurn d))"
    by (simp add: encodable_def createdRecord_def four_digit_year_def ns_per_day_def)
  moreover have "tr_revision (waitingTurn d) = 0" "tr_workspace (waitingTurn d) = ''w''" "tr_task (waitingTurn d) = ''t''"
    by (simp_all add: waitingTurn_def sampleTurn_def)
  moreover have "tr_workspace (createdRecord 5 r) = tr_workspace r" "tr_task (createdRecord 5 r) = tr_task r" for r
    by (simp_all add: createdRecord_def)
  ultimately show ?thesis
    using waiting_valid [OF assms] by (simp add: fileCreate_def persistRecord_def Let_def)
qed

section \<open>Updates\<close>

text \<open>
  C19: a successful update of the file store went from a readable, not terminal record of the same
  task whose revision is the expected one. The new record is valid, its revision is one higher
  (and did not wrap to zero), its phase is an allowed successor, identity, input and creation time
  are the old ones, and no tool call was dropped unless its whole batch was confirmed. A second
  writer that holds the same revision is refused and changes nothing.
\<close>

theorem journal_update_is_legal:
  assumes "fileUpdate jc ctx io now e r d = (d', Inr n)"
    and "tr_workspace r' = tr_workspace r" "tr_task r' = tr_task r"
  shows "(\<exists>c. loadRecord jc io (tr_workspace r) (tr_task r) d = Inr c \<and> tr_revision c = e \<and>
      tr_revision n = e + 1 \<and> tr_revision n \<noteq> 0 \<and> validateRecord jc n = Inr () \<and>
      \<not> terminalPhase (tr_phase c) \<and> allowedPhaseTransition (tr_phase c) (tr_phase n) \<and>
      tr_workspace n = tr_workspace c \<and> tr_session n = tr_session c \<and> tr_task n = tr_task c \<and>
      tr_owner n = tr_owner c \<and> tr_input n = tr_input c \<and> tr_created n = tr_created c \<and>
      tr_iteration c \<le> tr_iteration n \<and> batchKept c n) \<and>
    (\<exists>err. fileUpdate jc ctx' io' now' e r' d' = (d', Inl err))"
proof -
  from assms obtain c where l: "loadRecord jc io (tr_workspace r) (tr_task r) d = Inr c"
    and n: "nextRecord jc now e r c = Inr n"
    and p: "persistRecord jc io n d = (d', Inr n)"
    by (auto simp: fileUpdate_def persistRecord_def split: if_splits sum.splits)
  note f = nextRecord_facts [OF n] and t = validateTransition_facts [OF nextRecord_facts(4) [OF n]]
  have stored: "map_of d' (journalPath jc (tr_workspace r) (tr_task r)) = Some (JournalFile (storedRecord n))"
    using p f(6,7) by (auto simp: persistRecord_def split: if_splits)
  have "\<exists>err. and_then (loadRecord jc io' (tr_workspace r) (tr_task r) d') (nextRecord jc now' e r') = Inl err"
  proof (cases "loadRecord jc io' (tr_workspace r) (tr_task r) d'")
    case (Inr c')
    from loadRecord_facts(1) [OF Inr] stored have "c' = storedRecord n" by simp
    with f(2) Inr show ?thesis by (simp add: nextRecord_def)
  qed simp
  then have "\<exists>err. fileUpdate jc ctx' io' now' e r' d' = (d', Inl err)"
    using assms(2,3) by (auto simp: fileUpdate_def)
  with l f t show ?thesis by (intro conjI exI [of _ c]) simp_all
qed

theorem journal_update_is_legal_witness:
  "\<exists>d' n err. fileUpdate sampleCodec False io_ok 7 1 (sampleTurn\<lparr>tr_revision := 1, tr_phase := PhaseProviderPending\<rparr>)
       sampleDisk = (d', Inr n) \<and> tr_revision n = 2 \<and>
     fileUpdate sampleCodec False io_ok 8 1 (sampleTurn\<lparr>tr_revision := 1, tr_phase := PhaseFailing\<rparr>) d' = (d', Inl err)"
proof -
  let ?r = "sampleTurn\<lparr>tr_revision := 1, tr_phase := PhaseProviderPending\<rparr>"
  obtain d' n where u: "fileUpdate sampleCodec False io_ok 7 1 ?r sampleDisk = (d', Inr n)"
  proof -
    have "\<not> failed (snd (fileUpdate sampleCodec False io_ok 7 1 ?r sampleDisk))" by code_simp
    then show ?thesis using that
      by (cases "fileUpdate sampleCodec False io_ok 7 1 ?r sampleDisk") (auto simp: failed_def split: sum.splits)
  qed
  from journal_update_is_legal [OF u, of "sampleTurn\<lparr>tr_revision := 1, tr_phase := PhaseFailing\<rparr>" False io_ok 8]
  show ?thesis by (intro exI [of _ d'] exI [of _ n]) (auto simp: u)
qed

text \<open>
  C20: whatever operations follow, the file of a task stays there with the same identity, owner,
  input and creation time, its revision and iteration never go back, a terminal record never
  changes again, and a tool call that was recorded as uncertain stays recorded as uncertain.
\<close>

theorem journal_never_forgets:
  "diskKept (run (journal_step jc) [] xs) (run (journal_step jc) [] (xs @ ys))"
  by (rule journal_history.later_below)

section \<open>Reading back\<close>

lemma written_facts:
  assumes "fileCreate jc ctx io now r d = (d', Inr n) \<or> fileUpdate jc ctx io now e r d = (d', Inr n)"
  shows "validateRecord jc n = Inr () \<and> tr_workspace n = tr_workspace r \<and> tr_task n = tr_task r \<and>
    map_of d' (journalPath jc (tr_workspace r) (tr_task r)) = Some (JournalFile (storedRecord n))"
  using assms
proof
  assume "fileCreate jc ctx io now r d = (d', Inr n)"
  then show ?thesis
    by (auto simp: fileCreate_def persistRecord_def createdRecord_def Let_def split: if_splits sum.splits)
next
  assume "fileUpdate jc ctx io now e r d = (d', Inr n)"
  then obtain c where "nextRecord jc now e r c = Inr n" "persistRecord jc io n d = (d', Inr n)"
    by (auto simp: fileUpdate_def persistRecord_def split: if_splits sum.splits)
  with nextRecord_facts [of jc now e r c n] show ?thesis by (auto simp: persistRecord_def split: if_splits)
qed

lemma validateRecord_lookup: "validateRecord jc r = Inr u \<Longrightarrow> validateLookup (tr_workspace r) (tr_task r) = Inr ()"
  using validateRecord_ids by (fastforce simp: refOk_def recordRef_def)



lemma scanFiles_error: "scanFiles jc fs = Inl err \<Longrightarrow> err = JournalCorrupt"
  by (induction jc fs rule: scanFiles.induct)
    (auto simp: and_then_def decodeJournal_def split: sum.splits if_splits journal_file.splits)

lemma scanFiles_corrupt:
  "(path, f) \<in> set fs \<Longrightarrow> decodeJournal jc f = Inl JournalCorrupt \<Longrightarrow> scanFiles jc fs = Inl JournalCorrupt"
proof (induction fs)
  case (Cons g fs)
  show ?case
  proof (cases "scanFiles jc (g # fs)")
    case (Inl err)
    with scanFiles_error show ?thesis by blast
  next
    case (Inr rs)
    then show ?thesis using Cons by (cases g) (auto split: if_splits)
  qed
qed simp

text \<open>
  C23: a record is accepted and written although one of its descriptors contains a character that
  the JSON encoder escapes; since its digest covers the bytes before escaping, the written
  record never validates again: get fails, and so does the recovery scan of every owner.
\<close>

theorem escaped_descriptor_is_lost:
  assumes "fileCreate jc ctx io now r d = (d', Inr n) \<or> fileUpdate jc ctx io now e r d = (d', Inr n)"
    and "tr_batch n = Some b" "c \<in> set (tb_calls b)" "tk_external c = Some x"
    and "jc_sha jc (compactFrom False (marshalRaw (xr_descriptor x))) \<noteq> jc_sha jc (compactFrom False (xr_descriptor x))"
    and "validateIdentifier owner = Inr ()"
  shows "fileGet jc False io_ok (tr_workspace r) (tr_task r) d' = Inl JournalCorrupt \<and>
    fileListActive jc False io_ok owner d' = Inl JournalCorrupt"
proof -
  note w = written_facts [OF assms(1)]
  have "validateExternalChildRef jc x = Inr ()" using w assms(2-4) validateRecord_external by blast
  then have "xr_digest x = jc_sha jc (compactFrom False (xr_descriptor x))"
    unfolding validateExternalChildRef_def compactJSON_def by (auto split: if_splits option.splits)
  with assms(5) have bad: "validateExternalChildRef jc (storedExternal x) \<noteq> Inr ()"
    unfolding validateExternalChildRef_def storedExternal_def compactJSON_def
    by (auto split: if_splits option.splits)
  have "validateRecord jc (storedRecord n) \<noteq> Inr ()"
  proof
    assume v: "validateRecord jc (storedRecord n) = Inr ()"
    have "validateExternalChildRef jc (storedExternal x) = Inr ()"
      by (rule validateRecord_external [OF v, where c = "storedCall c"])
        (use assms(2-4) in auto)
    with bad show False by blast
  qed
  then have dec: "decodeJournal jc (JournalFile (storedRecord n)) = Inl JournalCorrupt"
    by (simp add: decodeJournal_def)
  with w have "(journalPath jc (tr_workspace r) (tr_task r), JournalFile (storedRecord n)) \<in> set d'"
    by (auto dest: map_of_SomeD)
  from scanFiles_corrupt [OF this dec] dec w validateRecord_lookup [of jc n] assms(6) show ?thesis
    by (simp add: fileGet_def loadRecord_def fileListActive_def)
qed

theorem escaped_descriptor_is_lost_witness:
  "\<exists>d' n. fileCreate sampleCodec False io_ok 5 (waitingTurn angleJSON) [] = (d', Inr n) \<and>
     fileGet sampleCodec False io_ok ''w'' ''t'' d' = Inl JournalCorrupt \<and>
     fileListActive sampleCodec False io_ok ''bob'' d' = Inl JournalCorrupt"
proof -
  let ?r = "waitingTurn angleJSON" and ?x = "\<lparr>xr_task = ''ct'', xr_execution = ''ce'', xr_child = ''cc'',
    xr_descriptor = angleJSON, xr_digest = zeros\<rparr>"
  let ?c = "\<lparr>tk_invocation = ''i'', tk_name = ''spawn'', tk_args = zeros, tk_outcome = OutcomeAdmitted,
    tk_external = Some ?x, tk_result = None\<rparr>"
  note run = waiting_created [of angleJSON, OF disjI2 [OF refl]]
  have batch: "tr_batch (createdRecord 5 ?r) = Some \<lparr>tb_assistant = sampleRef, tb_calls = [?c]\<rparr>"
    by (simp add: createdRecord_def waitingTurn_def)
  have sha: "jc_sha sampleCodec (compactFrom False (marshalRaw angleJSON)) \<noteq> jc_sha sampleCodec (compactFrom False angleJSON)"
  proof -
    have "ones \<noteq> zeros" by code_simp
    with sample_texts show ?thesis by (simp add: sampleCodec_def)
  qed
  have bob: "validateIdentifier ''bob'' = Inr ()" by code_simp
  have ids: "tr_workspace ?r = ''w''" "tr_task ?r = ''t''" by (simp_all add: waitingTurn_def sampleTurn_def)
  from escaped_descriptor_is_lost [OF disjI1 [OF run] batch _ _ _ bob, of ?c ?x] sha run ids show ?thesis by auto
qed

section \<open>The distributed store\<close>

lemma sorted_wrt_keys:
  assumes "sorted_wrt (\<lambda>x y. f x < (f y :: 'a :: order)) xs"
  shows "x \<in> set xs \<Longrightarrow> y \<in> set xs \<Longrightarrow> f x = f y \<Longrightarrow> x = y" "distinct (map f xs)"
proof -
  show "distinct (map f xs)" using assms by (induction xs) auto
  then show "x \<in> set xs \<Longrightarrow> y \<in> set xs \<Longrightarrow> f x = f y \<Longrightarrow> x = y" by (simp add: distinct_map inj_on_def)
qed

lemma indexed_record:
  assumes "execIndexOk i" "listedIn i recs" "x \<in> set (xi_refs i)" "map_of recs (refKey x) = Some r"
  shows "refKey x = turnKey r" "tr_owner r = xe_owner x"
proof -
  from assms(2,4) have r: "refKey x = turnKey r" "recordRef r \<in> set (xi_refs i)"
    unfolding listedIn_def by blast+
  then have "recordRef r = x"
    using assms(1,3) sorted_wrt_keys [of refKey "xi_refs i"]
    by (auto simp: execIndexOk_def sortedRefs_def refKey_recordRef)
  with r show "refKey x = turnKey r" "tr_owner r = xe_owner x" by (auto simp: recordRef_def)
qed

lemma distinct_map_filter: "distinct (map f xs) \<Longrightarrow> distinct (map f (filter P xs))"
  by (induction xs) auto

lemma distinct_map_sort: "distinct (map f (sort_key g xs)) \<longleftrightarrow> distinct (map f xs)"
  by (simp add: distinct_map)

lemma recordsOf_distinct:
  assumes "execIndexOk i" "listedIn i recs"
  shows "distinct (map turnKey (recordsOf recs (xi_refs i)))"
proof -
  have "distinct (map turnKey (recordsOf recs xs))" if "distinct (map refKey xs)" "set xs \<subseteq> set (xi_refs i)" for xs
    using that
  proof (induction xs)
    case (Cons x xs)
    have "turnKey r \<notin> turnKey ` set (recordsOf recs xs)" if r: "map_of recs (refKey x) = Some r" for r
    proof
      assume "turnKey r \<in> turnKey ` set (recordsOf recs xs)"
      then obtain y q where y: "y \<in> set xs" "map_of recs (refKey y) = Some q" "turnKey q = turnKey r"
        by (auto simp: recordsOf_set)
      have "turnKey q = refKey y" "turnKey r = refKey x"
        using indexed_record(1) [OF assms] y r Cons.prems(2) by (metis list.set_intros subset_iff)+
      with y Cons.prems(1) show False by (metis distinct.simps(2) image_eqI list.map(2) list.set_map)
    qed
    with Cons show ?case by (auto simp: recordsOf_simps split: option.split)
  qed (simp add: recordsOf_simps)
  moreover have "distinct (map refKey (xi_refs i))"
    using assms(1) sorted_wrt_keys(2) by (auto simp: execIndexOk_def sortedRefs_def)
  ultimately show ?thesis by blast
qed

text \<open>
  A successful update of the distributed store replaces the record it read: what it wrote is
  the legal successor of the readable record in the blob that the swap replaced, and no other
  writer's update happened between the read and the swap.
\<close>

theorem distributed_update_is_atomic:
  assumes "distUpdate jc decode encode ctx now e r env b = (b', Inr n)"
  shows "\<exists>seen c. readRecordBlob jc decode (tr_workspace r) (tr_task r) seen = Inr c \<and>
    nextRecord jc now e r c = Inr n \<and> tr_revision n = tr_revision c + 1 \<and> recordKept c (storedRecord n) \<and>
    b' = Some (encode n) \<and> (b' = seen \<or> ce_between env seen = seen)"
proof -
  from assms have loop: "casLoop 1 JournalConflict JournalRead JournalWrite
      (readRecordBlob jc decode (tr_workspace r) (tr_task r)) ((\<lambda>(now, e, r). recordMutate jc now e r) (now, e, r))
      encode (\<lambda>_. env) b = (b', Inr n)"
    by (simp add: distUpdate_def split: if_splits)
  from journal_cas.loop_atomic_at [OF loop] obtain seen
    where "journal_cas.atomic jc decode (tr_workspace r) (tr_task r) encode (now, e, r) seen n b'"
      "b' = seen \<or> ce_between env seen = seen" by blast
  then obtain c where c: "readRecordBlob jc decode (tr_workspace r) (tr_task r) seen = Inr c"
    "nextRecord jc now e r c = Inr n" "b' = Some (encode n)" "b' = seen \<or> ce_between env seen = seen"
    by (auto simp: journal_cas.atomic_def recordMutate_def)
  with nextRecord_facts(1,2) [OF c(2)] nextRecord_kept [OF c(2)] show ?thesis
    by (intro exI [of _ seen] exI [of _ c]) simp
qed

theorem distributed_update_is_atomic_witness:
  "\<exists>n. distUpdate sampleCodec (\<lambda>_. Some (createdRecord 5 sampleTurn)) (\<lambda>_. ''new'') False 7 1
       (sampleTurn\<lparr>tr_revision := 1, tr_phase := PhaseProviderPending\<rparr>) quiet (Some ''old'') = (Some ''new'', Inr n) \<and>
     recordKept (createdRecord 5 sampleTurn) (storedRecord n)"
proof -
  let ?r = "sampleTurn\<lparr>tr_revision := 1, tr_phase := PhaseProviderPending\<rparr>"
  let ?n = "updatedRecord 7 1 (createdRecord 5 sampleTurn) ?r"
  let ?d = "\<lambda>_. Some (createdRecord 5 sampleTurn)"
  have "readRecordBlob sampleCodec ?d ''w'' ''t'' (Some ''old'') = Inr (createdRecord 5 sampleTurn)" by code_simp
  moreover have "recordMutate sampleCodec 7 1 ?r (createdRecord 5 sampleTurn) = Inr (Changed ?n ?n)" by code_simp
  moreover have "tr_workspace ?r = ''w''" "tr_task ?r = ''t''" "tr_revision ?r = 1" by (simp_all add: sampleTurn_def)
  ultimately have u: "distUpdate sampleCodec ?d (\<lambda>_. ''new'') False 7 1 ?r quiet (Some ''old'') = (Some ''new'', Inr ?n)"
    by (simp add: distUpdate_def casAttempt_def quiet_def blobCommit_def blobSwap_def)
  obtain seen c where c: "readRecordBlob sampleCodec ?d (tr_workspace ?r) (tr_task ?r) seen = Inr c" "recordKept c (storedRecord ?n)"
    using distributed_update_is_atomic [OF u] by blast
  then have "c = createdRecord 5 sampleTurn" by (auto simp: readRecordBlob_def split: option.splits if_splits)
  with c u show ?thesis by auto
qed



end
