(* ===== verification/SortedRecords.thy ===== *)
theory SortedRecords
  imports Prelude
begin

text \<open>
  Records kept in a list sorted by a key, as several stores keep them: the binary search of the
  standard library finds the position, an existing record is merged, a new one is inserted.
\<close>

section \<open>Binary search\<close>

text \<open>\<open>sort.Search\<close> of the standard library: its loop over the bounds.\<close>

function searchFrom :: "(nat \<Rightarrow> bool) \<Rightarrow> nat \<Rightarrow> nat \<Rightarrow> nat" where
  "searchFrom f i j =
     (if i < j
      then let h = (i + j) div 2 in if \<not> f h then searchFrom f (h + 1) j else searchFrom f i h
      else i)"
  by pat_completeness auto

termination searchFrom
  by (relation "measure (\<lambda>(f, i, j). j - i)") auto

declare searchFrom.simps [simp del]

definition sortSearch :: "nat \<Rightarrow> (nat \<Rightarrow> bool) \<Rightarrow> nat" where
  "sortSearch n f = searchFrom f 0 n"

text \<open>For a predicate that is monotone below the length it returns the least index that satisfies it, or the length.\<close>

lemma searchFrom_least:
  assumes mono: "\<And>a b. a \<le> b \<Longrightarrow> b < n \<Longrightarrow> f a \<Longrightarrow> f b"
  shows "i \<le> j \<Longrightarrow> (\<forall>k < i. \<not> f k) \<Longrightarrow> (\<forall>k. j \<le> k \<and> k < n \<longrightarrow> f k) \<Longrightarrow> j \<le> n \<Longrightarrow>
    searchFrom f i j \<le> n \<and> (\<forall>k < searchFrom f i j. \<not> f k) \<and> (\<forall>k. searchFrom f i j \<le> k \<and> k < n \<longrightarrow> f k)"
proof (induction "j - i" arbitrary: i j rule: less_induct)
  case less
  show ?case
  proof (cases "i < j")
    case False
    then have "searchFrom f i j = i" by (simp add: searchFrom.simps [of f i j])
    moreover from False less.prems have "i = j" by simp
    ultimately show ?thesis using less.prems by simp
  next
    case True
    define h where "h = (i + j) div 2"
    have h: "i \<le> h" "h < j" using True by (auto simp: h_def)
    have eq: "searchFrom f i j = (if \<not> f h then searchFrom f (h + 1) j else searchFrom f i h)"
      using True by (subst searchFrom.simps) (simp only: h_def Let_def if_True)
    show ?thesis
    proof (cases "f h")
      case True
      have "\<forall>k. h \<le> k \<and> k < n \<longrightarrow> f k" using mono True by blast
      moreover have "h - i < j - i" "h \<le> n" using h less.prems(4) by arith+
      moreover have "searchFrom f i j = searchFrom f i h" using eq True by (simp only: if_False not_not simp_thms)
      ultimately show ?thesis using less.hyps [of h i] less.prems(2) h(1) by metis
    next
      case False
      have "\<forall>k < h + 1. \<not> f k"
      proof (intro allI impI)
        fix k assume "k < h + 1"
        then have "k \<le> h" by simp
        moreover have "h < n" using h(2) less.prems(4) by arith
        ultimately show "\<not> f k" using False mono by blast
      qed
      moreover have "j - (h + 1) < j - i" "h + 1 \<le> j" using h by arith+
      moreover have "searchFrom f i j = searchFrom f (h + 1) j" using eq False by (simp only: if_True simp_thms)
      ultimately show ?thesis using less.hyps [of j "h + 1"] less.prems(3,4) by metis
    qed
  qed
qed

section \<open>Sorted records\<close>

definition sortedBy :: "('r \<Rightarrow> 'k::linorder) \<Rightarrow> 'r list \<Rightarrow> bool" where
  "sortedBy key rs \<longleftrightarrow> sorted_wrt (<) (map key rs)"

lemma sortedBy_distinct: "sortedBy key rs \<Longrightarrow> distinct (map key rs)"
  unfolding sortedBy_def by (induction rs) auto

lemma sortedBy_nth_mono: "sortedBy key rs \<Longrightarrow> a \<le> b \<Longrightarrow> b < length rs \<Longrightarrow> key (rs ! a) \<le> key (rs ! b)"
  unfolding sortedBy_def by (cases "a = b") (auto simp: sorted_wrt_iff_nth_less order_le_less)

text \<open>The binary search finds the position: smaller ids before it, the others from it on.\<close>

lemma search_position:
  fixes key :: "'r \<Rightarrow> 'k::linorder" and k :: 'k
  assumes "sortedBy key rs"
  defines "i \<equiv> sortSearch (length rs) (\<lambda>i. k \<le> key (rs ! i))"
  shows "i \<le> length rs" "\<And>x. x \<in> set (take i rs) \<Longrightarrow> key x < k" "\<And>x. x \<in> set (drop i rs) \<Longrightarrow> k \<le> key x"
proof -
  have "searchFrom (\<lambda>i. k \<le> key (rs ! i)) 0 (length rs) \<le> length rs \<and>
      (\<forall>j < searchFrom (\<lambda>i. k \<le> key (rs ! i)) 0 (length rs). \<not> k \<le> key (rs ! j)) \<and>
      (\<forall>j. searchFrom (\<lambda>i. k \<le> key (rs ! i)) 0 (length rs) \<le> j \<and> j < length rs \<longrightarrow> k \<le> key (rs ! j))"
  proof (rule searchFrom_least)
    show "k \<le> key (rs ! b)" if "a \<le> b" "b < length rs" "k \<le> key (rs ! a)" for a b
      using sortedBy_nth_mono [OF assms(1) that(1,2)] that(3) by simp
  qed auto
  then have i: "i \<le> length rs" "\<forall>j < i. \<not> k \<le> key (rs ! j)" "\<forall>j. i \<le> j \<and> j < length rs \<longrightarrow> k \<le> key (rs ! j)"
    unfolding i_def sortSearch_def by blast+
  show "i \<le> length rs" by (rule i(1))
  show "key x < k" if "x \<in> set (take i rs)" for x
  proof -
    from that obtain j where "j < i" "j < length rs" "x = rs ! j" by (auto simp: in_set_conv_nth)
    with i(2) show ?thesis by (simp add: not_le)
  qed
  show "k \<le> key x" if "x \<in> set (drop i rs)" for x
  proof -
    from that obtain j where "j < length (drop i rs)" "drop i rs ! j = x" unfolding in_set_conv_nth by blast
    then have "i + j < length rs" "x = rs ! (i + j)" using i(1) by simp_all
    with i(3) show ?thesis by simp
  qed
qed

text \<open>
  Put a record: merge it with the one that has its key, or insert it at its position.
\<close>

definition putSorted :: "('r \<Rightarrow> 'k::linorder) \<Rightarrow> ('r \<Rightarrow> 'r \<Rightarrow> 'r) \<Rightarrow> 'r \<Rightarrow> 'r list \<Rightarrow> 'r list" where
  "putSorted key merge r rs =
     (let i = sortSearch (length rs) (\<lambda>i. key r \<le> key (rs ! i)) in
      if i < length rs \<and> key (rs ! i) = key r then rs[i := merge (rs ! i) r]
      else take i rs @ r # drop i rs)"

definition lookupBy :: "('r \<Rightarrow> 'k) \<Rightarrow> 'r list \<Rightarrow> 'k \<Rightarrow> 'r option" where
  "lookupBy key rs k = find (\<lambda>r. key r = k) rs"

lemma lookupBy_iff: "distinct (map key rs) \<Longrightarrow> lookupBy key rs k = Some r \<longleftrightarrow> r \<in> set rs \<and> key r = k"
  unfolding lookupBy_def by (induction rs) (auto split: if_splits)

lemma lookupBy_None: "lookupBy key rs k = None \<longleftrightarrow> k \<notin> key ` set rs"
  by (auto simp: lookupBy_def find_None_iff)

text \<open>
  The position holds the record with the key, if there is one; that splits the list around it.
\<close>

lemma putSorted_cases:
  assumes "sortedBy key rs" "\<And>old. key (merge old r) = key r"
  obtains (merged) ys old zs where "rs = ys @ old # zs" "key old = key r" "putSorted key merge r rs = ys @ merge old r # zs"
    | (new) ys zs where "rs = ys @ zs" "key r \<notin> key ` set rs" "putSorted key merge r rs = ys @ r # zs"
      "\<forall>x \<in> set ys. key x < key r" "\<forall>x \<in> set zs. key r < key x"
proof -
  let ?i = "sortSearch (length rs) (\<lambda>i. key r \<le> key (rs ! i))"
  note pos = search_position [OF assms(1), where k = "key r"]
  show thesis
  proof (cases "?i < length rs \<and> key (rs ! ?i) = key r")
    case True
    then have "putSorted key merge r rs = take ?i rs @ merge (rs ! ?i) r # drop (Suc ?i) rs"
      by (simp add: putSorted_def Let_def upd_conv_take_nth_drop)
    moreover have "rs = take ?i rs @ rs ! ?i # drop (Suc ?i) rs" using True id_take_nth_drop by blast
    ultimately show thesis using True merged by blast
  next
    case False
    have ne: "key x \<noteq> key r" if x: "x \<in> set (drop ?i rs)" for x
    proof
      assume eq: "key x = key r"
      from x have len: "?i < length rs" by (cases "?i < length rs") auto
      then have "drop ?i rs = rs ! ?i # drop (Suc ?i) rs" by (simp add: Cons_nth_drop_Suc)
      with False len eq x have tail: "x \<in> set (drop (Suc ?i) rs)" by auto
      have "sortedBy key (drop ?i rs)"
        using assms(1) unfolding sortedBy_def by (simp add: drop_map [symmetric] sorted_wrt_drop)
      then have "key (rs ! ?i) < key x"
        using tail \<open>drop ?i rs = rs ! ?i # drop (Suc ?i) rs\<close> by (simp add: sortedBy_def)
      moreover have "key r \<le> key (rs ! ?i)" using pos(3) [of "rs ! ?i"] \<open>drop ?i rs = _\<close> by simp
      ultimately show False using eq by simp
    qed
    then have gt: "\<forall>x \<in> set (drop ?i rs). key r < key x" using pos(3) by (metis order_le_less)
    have "key r \<notin> key ` set rs"
    proof
      assume "key r \<in> key ` set rs"
      then obtain x where "x \<in> set rs" "key x = key r" by auto
      moreover have "set rs = set (take ?i rs) \<union> set (drop ?i rs)" by (metis append_take_drop_id set_append)
      ultimately show False using ne pos(2) by fastforce
    qed
    moreover have "putSorted key merge r rs = take ?i rs @ r # drop ?i rs"
      unfolding putSorted_def Let_def by (rule if_not_P [OF False])
    ultimately show thesis using new [of "take ?i rs" "drop ?i rs"] pos(2) gt by simp
  qed
qed

lemma putSorted_sorted:
  assumes "sortedBy key rs" "\<And>old. key (merge old r) = key r"
  shows "sortedBy key (putSorted key merge r rs)"
  using assms
proof (cases rule: putSorted_cases [where r = r and merge = merge])
  case (merged ys old zs)
  with assms show ?thesis by (simp add: sortedBy_def)
next
  case (new ys zs)
  with assms(1) show ?thesis by (fastforce simp: sortedBy_def sorted_wrt_append)
qed

lemma find_app: "find P (as @ bs) = (case find P as of None \<Rightarrow> find P bs | Some x \<Rightarrow> Some x)"
  by (induction as) auto

lemma putSorted_lookup:
  assumes "sortedBy key rs" "\<And>old. key (merge old r) = key r"
  shows "lookupBy key (putSorted key merge r rs) k =
    (if k = key r then Some (case lookupBy key rs k of None \<Rightarrow> r | Some old \<Rightarrow> merge old r) else lookupBy key rs k)"
  using assms
proof (cases rule: putSorted_cases [where r = r and merge = merge])
  case (merged ys old zs)
  have "distinct (map key rs)" using assms(1) by (rule sortedBy_distinct)
  then have "key r \<notin> key ` set ys" using merged(1,2) by auto
  then have "find (\<lambda>x. key x = key r) ys = None" by (auto simp: find_None_iff image_iff)
  show ?thesis
    unfolding merged(3) unfolding merged(1) lookupBy_def find_app
    using merged(2) assms(2) \<open>find (\<lambda>x. key x = key r) ys = None\<close> by (auto split: option.splits)
next
  case (new ys zs)
  have "distinct (map key rs)" using assms(1) by (rule sortedBy_distinct)
  have "find (\<lambda>x. key x = key r) ys = None" "find (\<lambda>x. key x = key r) zs = None"
    using new(2) unfolding new(1) lookupBy_None [unfolded lookupBy_def] by (simp_all add: image_Un)
  then show ?thesis
    unfolding new(3) unfolding new(1) lookupBy_def find_app by (auto split: option.splits)
qed

end
