(* ===== verification/GoalStore.thy ===== *)
theory GoalStore
  imports CasLoop Paths SortedRecords
begin

text \<open>
  Model of the durable goals of \<open>pkg/goal\<close>: the lifecycle store (\<open>store.go\<close> and
  \<open>cas_store.go\<close>) and the service on top of it (\<open>service.go\<close>). The record type and
  its validation belong to another module (\<open>ecosystem-messaging-spec\<close>): the fields the
  package uses are modelled, \<open>Validate\<close>, the schema revision and the JSON-safe maximum are
  parameters. Timestamps are the stamps of the prelude.
\<close>

section \<open>Types\<close>

datatype goal_status = GoalPending | GoalActive | GoalBlocked | GoalCompleted | GoalCancelled
  | GoalStatusUnset | GoalStatusOther string

record goal_record =
  go_id :: string
  go_objective :: string
  go_status :: goal_status
  go_created :: stamp
  go_updated :: stamp
  go_completed :: stamp
  go_budget :: "64 word option"
  go_usage :: "64 word"
  go_evidence :: "string list"
  go_blocked :: string

record goals_state =
  gs_revision :: "32 word"
  gs_records :: "goal_record list"

record goal_file_state =
  gf_version :: "32 word"
  gf_workspace :: string
  gf_session :: string
  gf_state :: goals_state
  gf_accounted :: "(string \<times> string list) list"

text \<open>The other module: \<open>SessionGoalsState.Validate\<close> and its two constants.\<close>

record goal_spec =
  sp_valid :: "goals_state \<Rightarrow> bool"
  sp_revision :: "32 word"
  sp_max :: "64 word"

datatype goal_error =
    ErrNoGoal | ErrGoalExists | ErrOpenGoalExists | ErrMultipleOpenGoals | ErrGoalTransition
  | GoalCorrupt | GoalInvalidInput | GoalInvalidState | GoalMessageLimit | GoalTokenRange
  | GoalContext | GoalRead | GoalWrite | GoalNewID | GoalRetryLimit

definition fileStoreSchemaVersion :: "32 word" where "fileStoreSchemaVersion = 1"
definition maxObjectiveRunes :: nat where "maxObjectiveRunes = 4000"
definition maxAccountedMessageRefs :: nat where "maxAccountedMessageRefs = 4096"
definition verifierEvidencePrefix :: string where "verifierEvidencePrefix = ''verifier:''"

section \<open>The lifecycle state\<close>

definition newGoalState :: "goal_spec \<Rightarrow> string \<Rightarrow> string \<Rightarrow> goal_file_state" where
  "newGoalState sp w s =
     \<lparr>gf_version = fileStoreSchemaVersion, gf_workspace = w, gf_session = s,
      gf_state = \<lparr>gs_revision = sp_revision sp, gs_records = []\<rparr>, gf_accounted = []\<rparr>"

text \<open>
  \<open>putGoalState\<close>: the binary search compares ids, replaces in place or shifts the tail.
\<close>

definition putGoalState :: "goal_spec \<Rightarrow> goal_record \<Rightarrow> goals_state \<Rightarrow> (goal_error, goals_state) result" where
  "putGoalState sp r st =
     (let rs = gs_records st;
          i = sortSearch (length rs) (\<lambda>i. go_id r \<le> go_id (rs ! i));
          rs' = (if i < length rs \<and> go_id (rs ! i) = go_id r
                 then rs[i := (if go_created (rs ! i) \<noteq> NoStamp
                               then r\<lparr>go_created := go_created (rs ! i)\<rparr> else r)]
                 else take i rs @ r # drop i rs);
          st' = st\<lparr>gs_records := rs'\<rparr>
      in if sp_valid sp st' then Inr st' else Inl GoalInvalidState)"

definition validAccounted :: "string list \<Rightarrow> string \<times> string list \<Rightarrow> bool" where
  "validAccounted known e =
     (fst e \<in> set known \<and> length (snd e) \<le> maxAccountedMessageRefs \<and> [] \<notin> set (snd e) \<and> distinct (snd e))"

definition validateAccountedMessages :: "goal_file_state \<Rightarrow> (goal_error, unit) result" where
  "validateAccountedMessages st =
     guard (list_all (validAccounted (map go_id (gs_records (gf_state st)))) (gf_accounted st)) GoalCorrupt"

text \<open>The messages already charged to a goal.\<close>

definition refsOf :: "goal_file_state \<Rightarrow> string \<Rightarrow> string list" where
  "refsOf st g = (case map_of (gf_accounted st) g of None \<Rightarrow> [] | Some refs \<Rightarrow> refs)"

text \<open>
  \<open>accountGoalUsageState\<close> charges the first record with the id. The result says whether the
  message was charged now.
\<close>

fun chargeFirst :: "string \<Rightarrow> 64 word \<Rightarrow> stamp \<Rightarrow> goal_record list \<Rightarrow> goal_record list" where
  "chargeFirst g d now [] = []"
| "chargeFirst g d now (r # rs) =
     (if go_id r = g then r\<lparr>go_usage := go_usage r + d, go_updated := now\<rparr> # rs
      else r # chargeFirst g d now rs)"

definition accountGoalUsageState ::
  "goal_spec \<Rightarrow> string \<Rightarrow> string \<Rightarrow> 64 word \<Rightarrow> stamp \<Rightarrow> goal_file_state
     \<Rightarrow> (goal_error, goal_file_state \<times> goal_record \<times> bool) result" where
  "accountGoalUsageState sp g msg d now st =
     (case find (\<lambda>r. go_id r = g) (gs_records (gf_state st)) of
        None \<Rightarrow> Inl ErrNoGoal
      | Some r \<Rightarrow>
          if msg \<in> set (refsOf st g) then Inr (st, r, False)
          else if length (refsOf st g) \<ge> maxAccountedMessageRefs then Inl GoalMessageLimit
          else if d > sp_max sp - go_usage r then Inl GoalTokenRange
          else
            let gs = (gf_state st)\<lparr>gs_records := chargeFirst g d now (gs_records (gf_state st))\<rparr>;
                st' = st\<lparr>gf_state := gs, gf_accounted := AList.update g (refsOf st g @ [msg]) (gf_accounted st)\<rparr>
            in if sp_valid sp gs then Inr (st', r\<lparr>go_usage := go_usage r + d, go_updated := now\<rparr>, True)
               else Inl GoalInvalidState)"

section \<open>The file store\<close>

datatype goal_file = NoGoalFile | UndecodableGoals | GoalFile goal_file_state

definition goalPath :: "(string \<Rightarrow> string) \<Rightarrow> string \<Rightarrow> string \<Rightarrow> string list" where
  "goalPath sha w s =
     [''session-state'', ''workspaces'', pathSegment sha w, ''goals'', pathSegment sha s @ ''.json'']"

definition checkGoalState :: "goal_spec \<Rightarrow> string \<Rightarrow> string \<Rightarrow> goal_file_state \<Rightarrow> (goal_error, goal_file_state) result" where
  "checkGoalState sp w s st =
     (if gf_version st \<noteq> fileStoreSchemaVersion \<or> gf_workspace st \<noteq> w \<or> gf_session st \<noteq> s then Inl GoalCorrupt
      else if \<not> sp_valid sp (gf_state st) then Inl GoalCorrupt
      else and_then (validateAccountedMessages st) (\<lambda>_. Inr st))"

definition loadGoals :: "goal_spec \<Rightarrow> io_env \<Rightarrow> string \<Rightarrow> string \<Rightarrow> goal_file \<Rightarrow> (goal_error, goal_file_state) result" where
  "loadGoals sp io w s f =
     (if io_read_fails io then Inl GoalRead
      else case f of
        NoGoalFile \<Rightarrow> Inr (newGoalState sp w s)
      | UndecodableGoals \<Rightarrow> Inl GoalCorrupt
      | GoalFile st \<Rightarrow> checkGoalState sp w s st)"

definition persistGoals :: "io_env \<Rightarrow> goal_file_state \<Rightarrow> 'r \<Rightarrow> goal_file \<Rightarrow> goal_file \<times> (goal_error, 'r) result" where
  "persistGoals io st r f = (if io_write_fails io then (f, Inl GoalWrite) else (GoalFile st, Inr r))"

definition mutateGoals ::
  "goal_spec \<Rightarrow> bool \<Rightarrow> io_env \<Rightarrow> string \<Rightarrow> string \<Rightarrow> (goals_state \<Rightarrow> (goal_error, goals_state \<times> 'r) result)
     \<Rightarrow> goal_file \<Rightarrow> goal_file \<times> (goal_error, 'r) result" where
  "mutateGoals sp ctx_done io w s mutate f =
     (if ctx_done then (f, Inl GoalContext)
      else if w = [] \<or> s = [] then (f, Inl GoalInvalidInput)
      else case loadGoals sp io w s f of
        Inl e \<Rightarrow> (f, Inl e)
      | Inr st \<Rightarrow>
          (case mutate (gf_state st) of
             Inl e \<Rightarrow> (f, Inl e)
           | Inr (gs, r) \<Rightarrow>
               if \<not> sp_valid sp gs then (f, Inl GoalInvalidState)
               else persistGoals io (st\<lparr>gf_state := gs\<rparr>) r f))"

definition putGoal ::
  "goal_spec \<Rightarrow> bool \<Rightarrow> io_env \<Rightarrow> string \<Rightarrow> string \<Rightarrow> goal_record \<Rightarrow> goal_file \<Rightarrow> goal_file \<times> (goal_error, unit) result"
where
  "putGoal sp ctx_done io w s r f =
     mutateGoals sp ctx_done io w s (\<lambda>gs. and_then (putGoalState sp r gs) (\<lambda>gs'. Inr (gs', ()))) f"

definition accountGoalUsage ::
  "goal_spec \<Rightarrow> bool \<Rightarrow> io_env \<Rightarrow> string \<Rightarrow> string \<Rightarrow> string \<Rightarrow> string \<Rightarrow> 64 word \<Rightarrow> stamp \<Rightarrow> goal_file
     \<Rightarrow> goal_file \<times> (goal_error, goal_record \<times> bool) result" where
  "accountGoalUsage sp ctx_done io w s g msg d now f =
     (if ctx_done then (f, Inl GoalContext)
      else if w = [] \<or> s = [] then (f, Inl GoalInvalidInput)
      else case and_then (loadGoals sp io w s f) (accountGoalUsageState sp g msg d now) of
        Inl e \<Rightarrow> (f, Inl e)
      | Inr (st', r, charged) \<Rightarrow>
          if charged then persistGoals io st' (r, True) f else (f, Inr (r, False)))"

definition fileListGoals ::
  "goal_spec \<Rightarrow> bool \<Rightarrow> io_env \<Rightarrow> string \<Rightarrow> string \<Rightarrow> goal_file \<Rightarrow> (goal_error, goal_record list) result" where
  "fileListGoals sp ctx_done io w s f =
     (if ctx_done then Inl GoalContext
      else if w = [] \<or> s = [] then Inl GoalInvalidInput
      else and_then (loadGoals sp io w s f) (\<lambda>st. Inr (gs_records (gf_state st))))"

section \<open>The distributed store\<close>

definition casGoalRead ::
  "goal_spec \<Rightarrow> (string \<Rightarrow> goal_file_state option) \<Rightarrow> string \<Rightarrow> string \<Rightarrow> blob \<Rightarrow> (goal_error, goal_file_state) result"
where
  "casGoalRead sp decode w s b =
     (if w = [] \<or> s = [] then Inl GoalInvalidInput
      else case b of
        None \<Rightarrow> Inr (newGoalState sp w s)
      | Some raw \<Rightarrow>
          if raw = [] then Inl GoalCorrupt
          else case decode raw of
            None \<Rightarrow> Inl GoalCorrupt
          | Some st \<Rightarrow> checkGoalState sp w s st)"

definition goalChange ::
  "goal_spec \<Rightarrow> (goals_state \<Rightarrow> (goal_error, goals_state \<times> 'r) result) \<Rightarrow> goal_file_state
     \<Rightarrow> (goal_error, (goal_file_state, 'r) change) result" where
  "goalChange sp mutate st =
     and_then (mutate (gf_state st)) (\<lambda>(gs, r).
       if \<not> sp_valid sp gs then Inl GoalInvalidState else Inr (Changed (st\<lparr>gf_state := gs\<rparr>) r))"

definition casMutateGoals ::
  "goal_spec \<Rightarrow> (string \<Rightarrow> goal_file_state option) \<Rightarrow> (goal_file_state \<Rightarrow> string) \<Rightarrow> nat \<Rightarrow> string \<Rightarrow> string
     \<Rightarrow> (goals_state \<Rightarrow> (goal_error, goals_state \<times> 'r) result) \<Rightarrow> (nat \<Rightarrow> cas_env) \<Rightarrow> blob
     \<Rightarrow> blob \<times> (goal_error, 'r) result" where
  "casMutateGoals sp decode encode retries w s mutate env b =
     casLoop retries GoalRetryLimit GoalRead GoalWrite (casGoalRead sp decode w s) (goalChange sp mutate) encode env b"

definition usageChange ::
  "goal_spec \<Rightarrow> string \<Rightarrow> string \<Rightarrow> 64 word \<Rightarrow> stamp \<Rightarrow> goal_file_state
     \<Rightarrow> (goal_error, (goal_file_state, goal_record \<times> bool) change) result" where
  "usageChange sp g msg d now st =
     and_then (accountGoalUsageState sp g msg d now st) (\<lambda>(st', r, charged).
       Inr (if charged then Changed st' (r, True) else Unchanged (r, False)))"

definition casAccountGoalUsage ::
  "goal_spec \<Rightarrow> (string \<Rightarrow> goal_file_state option) \<Rightarrow> (goal_file_state \<Rightarrow> string) \<Rightarrow> nat \<Rightarrow> string \<Rightarrow> string
     \<Rightarrow> string \<Rightarrow> string \<Rightarrow> 64 word \<Rightarrow> stamp \<Rightarrow> (nat \<Rightarrow> cas_env) \<Rightarrow> blob
     \<Rightarrow> blob \<times> (goal_error, goal_record \<times> bool) result" where
  "casAccountGoalUsage sp decode encode retries w s g msg d now env b =
     casLoop retries GoalRetryLimit GoalRead GoalWrite (casGoalRead sp decode w s) (usageChange sp g msg d now)
       encode env b"

section \<open>The service\<close>

text \<open>
  \<open>utf8.RuneCountInString\<close>: a valid encoding counts once, any other byte counts on its own.
\<close>

definition inRange :: "nat \<Rightarrow> nat \<Rightarrow> string \<Rightarrow> nat \<Rightarrow> bool" where
  "inRange lo hi cs i \<longleftrightarrow> i < length cs \<and> lo \<le> of_char (cs ! i) \<and> of_char (cs ! i) \<le> hi"

definition runeWidth :: "char \<Rightarrow> string \<Rightarrow> nat" where
  "runeWidth c cs =
     (let b = of_char c :: nat; tail = inRange 0x80 0xBF cs in
      if 0xC2 \<le> b \<and> b \<le> 0xDF \<and> tail 0 then 2
      else if (if b = 0xE0 then inRange 0xA0 0xBF cs 0 else if b = 0xED then inRange 0x80 0x9F cs 0
               else 0xE1 \<le> b \<and> b \<le> 0xEF \<and> tail 0) \<and> tail 1 then 3
      else if (if b = 0xF0 then inRange 0x90 0xBF cs 0 else if b = 0xF4 then inRange 0x80 0x8F cs 0
               else 0xF1 \<le> b \<and> b \<le> 0xF3 \<and> tail 0) \<and> tail 1 \<and> tail 2 then 4
      else 1)"

function runeCount :: "string \<Rightarrow> nat" where
  "runeCount [] = 0"
| "runeCount (c # cs) = 1 + runeCount (drop (runeWidth c cs - 1) cs)"
  by pat_completeness auto

termination runeCount
  by (relation "measure length") auto

definition isTerminal :: "goal_status \<Rightarrow> bool" where
  "isTerminal st \<longleftrightarrow> st = GoalCompleted \<or> st = GoalCancelled"

definition hasOpenGoal :: "goal_record list \<Rightarrow> bool" where
  "hasOpenGoal rs = list_ex (\<lambda>r. \<not> isTerminal (go_status r)) rs"

text \<open>The loop of \<open>openGoal\<close> with the goal found so far.\<close>

fun openGoalFrom :: "goal_record option \<Rightarrow> goal_record list \<Rightarrow> (goal_error, goal_record option) result" where
  "openGoalFrom current [] = Inr current"
| "openGoalFrom current (r # rs) =
     (if isTerminal (go_status r) then openGoalFrom current rs
      else if current \<noteq> None then Inl ErrMultipleOpenGoals
      else openGoalFrom (Some r) rs)"

definition openGoal :: "goal_record list \<Rightarrow> (goal_error, goal_record option) result" where
  "openGoal rs = openGoalFrom None rs"

definition validGoalTransition :: "goal_status \<Rightarrow> goal_status \<Rightarrow> bool" where
  "validGoalTransition a b =
     (if a = b then True
      else case a of
        GoalPending \<Rightarrow> b = GoalActive \<or> b = GoalBlocked \<or> b = GoalCancelled
      | GoalActive \<Rightarrow> b = GoalCompleted \<or> b = GoalBlocked \<or> b = GoalCancelled
      | GoalBlocked \<Rightarrow> b = GoalActive \<or> b = GoalCancelled
      | _ \<Rightarrow> False)"

fun mergeEvidence :: "string list \<Rightarrow> string list \<Rightarrow> string list" where
  "mergeEvidence out [] = out"
| "mergeEvidence out (e # es) =
     mergeEvidence (if trim_space e \<noteq> [] \<and> trim_space e \<notin> set out then out @ [trim_space e] else out) es"

record create_input =
  ci_objective :: string
  ci_budget :: "64 word option"

definition newGoalRecord :: "string \<Rightarrow> time \<Rightarrow> create_input \<Rightarrow> goal_record" where
  "newGoalRecord k now i =
     \<lparr>go_id = k, go_objective = trim_space (ci_objective i), go_status = GoalActive,
      go_created = format_stamp now, go_updated = format_stamp now, go_completed = NoStamp,
      go_budget = ci_budget i, go_usage = 0, go_evidence = [], go_blocked = []\<rparr>"

definition createMutation :: "goal_spec \<Rightarrow> goal_record \<Rightarrow> goals_state \<Rightarrow> (goal_error, goals_state \<times> goal_record) result"
where
  "createMutation sp r gs =
     (if list_ex (\<lambda>x. go_id x = go_id r) (gs_records gs) then Inl ErrGoalExists
      else and_then (openGoal (gs_records gs)) (\<lambda>_.
        if hasOpenGoal (gs_records gs) then Inl ErrOpenGoalExists
        else and_then (putGoalState sp r gs) (\<lambda>gs'. Inr (gs', r))))"

definition checkCreateInput :: "goal_spec \<Rightarrow> create_input \<Rightarrow> (goal_error, unit) result" where
  "checkCreateInput sp i =
     (let objective = trim_space (ci_objective i) in
      if objective = [] then Inl GoalInvalidInput
      else if runeCount objective > maxObjectiveRunes then Inl GoalInvalidInput
      else case ci_budget i of
        None \<Rightarrow> Inr ()
      | Some n \<Rightarrow> if n = 0 \<or> n > sp_max sp then Inl GoalInvalidInput else Inr ())"

definition createGoal ::
  "goal_spec \<Rightarrow> bool \<Rightarrow> io_env \<Rightarrow> string \<Rightarrow> string \<Rightarrow> time \<Rightarrow> string option \<Rightarrow> create_input \<Rightarrow> goal_file
     \<Rightarrow> goal_file \<times> (goal_error, goal_record) result" where
  "createGoal sp ctx_done io w s now new_id i f =
     (case checkCreateInput sp i of
        Inl e \<Rightarrow> (f, Inl e)
      | Inr _ \<Rightarrow>
          (case new_id of
             None \<Rightarrow> (f, Inl GoalNewID)
           | Some k \<Rightarrow> mutateGoals sp ctx_done io w s (createMutation sp (newGoalRecord k now i)) f))"

definition goalById ::
  "goal_spec \<Rightarrow> bool \<Rightarrow> io_env \<Rightarrow> string \<Rightarrow> string \<Rightarrow> string \<Rightarrow> goal_file \<Rightarrow> (goal_error, goal_record) result" where
  "goalById sp ctx_done io w s g f =
     and_then (fileListGoals sp ctx_done io w s f) (\<lambda>rs.
       case find (\<lambda>r. go_id r = g) rs of None \<Rightarrow> Inl ErrNoGoal | Some r \<Rightarrow> Inr r)"

text \<open>The loop of \<open>CurrentGoal\<close> over the finished goals: the latest update, ties by id.\<close>

fun latestGoal :: "(goal_record \<times> time) option \<Rightarrow> goal_record list \<Rightarrow> (goal_error, goal_record option) result" where
  "latestGoal best [] = Inr (map_option fst best)"
| "latestGoal best (r # rs) =
     (case parse_stamp (go_updated r) of
        None \<Rightarrow> Inl GoalInvalidState
      | Some t \<Rightarrow>
          latestGoal (case best of
              None \<Rightarrow> Some (r, t)
            | Some (b, bt) \<Rightarrow> if t > bt \<or> (t = bt \<and> go_id r > go_id b) then Some (r, t) else Some (b, bt)) rs)"

definition currentGoal ::
  "goal_spec \<Rightarrow> bool \<Rightarrow> io_env \<Rightarrow> string \<Rightarrow> string \<Rightarrow> goal_file \<Rightarrow> (goal_error, goal_record option) result" where
  "currentGoal sp ctx_done io w s f =
     and_then (fileListGoals sp ctx_done io w s f) (\<lambda>rs.
       and_then (openGoal rs) (\<lambda>c. if c \<noteq> None then Inr c else latestGoal None rs))"

definition readOpenGoal ::
  "goal_spec \<Rightarrow> bool \<Rightarrow> io_env \<Rightarrow> string \<Rightarrow> string \<Rightarrow> goal_file \<Rightarrow> (goal_error, goal_record option) result" where
  "readOpenGoal sp ctx_done io w s f = and_then (fileListGoals sp ctx_done io w s f) openGoal"

record update_input =
  ui_id :: string
  ui_status :: goal_status
  ui_evidence :: "string list"
  ui_blocked :: string

definition updateRecord :: "time \<Rightarrow> update_input \<Rightarrow> goal_record \<Rightarrow> (goal_error, goal_record) result" where
  "updateRecord now i r =
     (let status = (if ui_status i = GoalStatusUnset then go_status r else ui_status i);
          at_time = format_stamp now;
          r1 = r\<lparr>go_status := status, go_evidence := mergeEvidence (go_evidence r) (ui_evidence i),
                 go_updated := at_time\<rparr>
      in if \<not> validGoalTransition (go_status r) status then Inl ErrGoalTransition
         else if status = GoalBlocked \<and> trim_space (ui_blocked i) = [] then Inl GoalInvalidInput
         else Inr (if isTerminal status then r1\<lparr>go_completed := at_time, go_blocked := []\<rparr>
                   else if status = GoalBlocked
                   then r1\<lparr>go_completed := NoStamp, go_blocked := trim_space (ui_blocked i)\<rparr>
                   else r1\<lparr>go_completed := NoStamp, go_blocked := []\<rparr>))"

text \<open>\<open>mutateGoal\<close>: the first record with the id is updated in place.\<close>

fun mutateFirst ::
  "string \<Rightarrow> (goal_record \<Rightarrow> (goal_error, goal_record) result) \<Rightarrow> goal_record list
     \<Rightarrow> (goal_error, goal_record list \<times> goal_record) result" where
  "mutateFirst g m [] = Inl ErrNoGoal"
| "mutateFirst g m (r # rs) =
     (if go_id r = g then and_then (m r) (\<lambda>r'. Inr (r' # rs, r'))
      else and_then (mutateFirst g m rs) (\<lambda>(rs', x). Inr (r # rs', x)))"

definition updateMutation ::
  "time \<Rightarrow> string \<Rightarrow> update_input \<Rightarrow> goals_state \<Rightarrow> (goal_error, goals_state \<times> goal_record) result" where
  "updateMutation now g i gs =
     and_then (mutateFirst g (updateRecord now i) (gs_records gs)) (\<lambda>(rs, r). Inr (gs\<lparr>gs_records := rs\<rparr>, r))"

text \<open>
  \<open>UpdateGoal\<close> resolves an empty id to the open goal by a read of its own (\<open>lio\<close>), then
  mutates (\<open>io\<close>).
\<close>

definition updateTarget ::
  "goal_spec \<Rightarrow> bool \<Rightarrow> io_env \<Rightarrow> string \<Rightarrow> string \<Rightarrow> update_input \<Rightarrow> goal_file \<Rightarrow> (goal_error, string) result" where
  "updateTarget sp ctx_done lio w s i f =
     (if trim_space (ui_id i) \<noteq> [] then Inr (trim_space (ui_id i))
      else and_then (readOpenGoal sp ctx_done lio w s f) (\<lambda>c.
        case c of None \<Rightarrow> Inl ErrNoGoal | Some r \<Rightarrow> Inr (go_id r)))"

definition updateGoal ::
  "goal_spec \<Rightarrow> bool \<Rightarrow> io_env \<Rightarrow> io_env \<Rightarrow> string \<Rightarrow> string \<Rightarrow> time \<Rightarrow> update_input \<Rightarrow> goal_file
     \<Rightarrow> goal_file \<times> (goal_error, goal_record) result" where
  "updateGoal sp ctx_done lio io w s now i f =
     (case updateTarget sp ctx_done lio w s i f of
        Inl e \<Rightarrow> (f, Inl e)
      | Inr g \<Rightarrow> mutateGoals sp ctx_done io w s (updateMutation now g i) f)"

definition accountUsage ::
  "goal_spec \<Rightarrow> bool \<Rightarrow> io_env \<Rightarrow> string \<Rightarrow> string \<Rightarrow> time \<Rightarrow> string \<Rightarrow> string \<Rightarrow> 64 word \<Rightarrow> goal_file
     \<Rightarrow> goal_file \<times> (goal_error, goal_record \<times> bool) result" where
  "accountUsage sp ctx_done io w s now g msg d f =
     (if trim_space msg = [] then (f, Inl GoalInvalidInput)
      else accountGoalUsage sp ctx_done io w s g msg d (format_stamp now) f)"

end
