(* ===== verification/Inbound.thy ===== *)
theory Inbound
  imports Steering
begin

text \<open>
  What enters the harness: the inbound envelope of \<open>pkg/channel/channel.go\<close> and the
  authority handoff of \<open>pkg/authhandoff\<close>, which stores a delegated authority under a
  single-use token and stamps only the token on the message.
\<close>

section \<open>Messages with their ids\<close>

record request_address = message_address +
  ma_request :: string

text \<open>A content part is the text of its JSON value.\<close>

record inbound_message =
  im_id :: string
  im_role :: role
  im_addr :: request_address
  im_content :: "string list"
  im_meta :: "(string \<times> string) list option"

record inbound =
  in_addr :: request_address
  in_message :: inbound_message
  in_meta :: string

definition messageMeta :: "inbound_message \<Rightarrow> string \<Rightarrow> string" where
  "messageMeta m k = (case im_meta m of None \<Rightarrow> [] | Some meta \<Rightarrow> (case map_of meta k of None \<Rightarrow> [] | Some raw \<Rightarrow> raw))"

text \<open>
  What the packages use of \<open>encoding/json\<close>: an object as a map of raw values, a text, and
  the field \<open>authority_handoff\<close> of an object (\<open>None\<close> is a decoding error, an absent field is
  the empty text).
\<close>

record json_codec =
  js_object :: "string \<Rightarrow> (string \<times> string) list option"
  js_encode :: "(string \<times> string) list \<Rightarrow> string"
  js_text :: "string \<Rightarrow> string"
  js_handoff :: "string \<Rightarrow> string option"

section \<open>Authority handoff\<close>

record memory_authority =
  au_grant :: string
  au_subject_type :: string
  au_subject :: string

definition noAuthority :: memory_authority where
  "noAuthority = \<lparr>au_grant = [], au_subject_type = [], au_subject = []\<rparr>"

text \<open>\<open>None\<close> is a nil store. The token of \<open>putAuthority\<close> is the random one it draws.\<close>

type_synonym handoff_store = "(string \<times> memory_authority) list option"

definition putAuthority :: "string \<Rightarrow> memory_authority \<Rightarrow> handoff_store \<Rightarrow> handoff_store \<times> string" where
  "putAuthority tok a s =
     (case s of
        None \<Rightarrow> (s, [])
      | Some m \<Rightarrow> if a = noAuthority then (s, []) else (Some (AList.update tok a m), tok))"

definition resolveToken :: "string \<Rightarrow> handoff_store \<Rightarrow> handoff_store \<times> memory_authority option" where
  "resolveToken tok s =
     (case s of
        None \<Rightarrow> (s, None)
      | Some m \<Rightarrow>
          if tok = [] then (s, None)
          else case map_of m tok of
            None \<Rightarrow> (s, None)
          | Some a \<Rightarrow> (Some (AList.delete tok m), Some a))"

definition handoffToken :: "json_codec \<Rightarrow> inbound_message \<Rightarrow> string" where
  "handoffToken js m =
     (let raw = messageMeta m ''scitrera'' in
      if raw = [] then [] else case js_handoff js raw of None \<Rightarrow> [] | Some tok \<Rightarrow> tok)"

definition resolveMessage :: "json_codec \<Rightarrow> inbound_message \<Rightarrow> handoff_store \<Rightarrow> handoff_store \<times> memory_authority option" where
  "resolveMessage js m s = resolveToken (handoffToken js m) s"

definition stampMessage :: "json_codec \<Rightarrow> inbound_message \<Rightarrow> string \<Rightarrow> inbound_message" where
  "stampMessage js m tok =
     (if tok = [] then m
      else
        let meta = (case im_meta m of None \<Rightarrow> [] | Some meta \<Rightarrow> meta);
            m' = m\<lparr>im_meta := Some meta\<rparr>;
            existing = messageMeta m' ''scitrera''
        in case (if existing = [] then Some [] else js_object js existing) of
             None \<Rightarrow> m'
           | Some envelope \<Rightarrow>
               m'\<lparr>im_meta := Some (AList.update ''scitrera''
                     (js_encode js (AList.update ''authority_handoff'' (js_text js tok) envelope)) meta)\<rparr>)"

text \<open>
  What \<open>encoding/json\<close> promises about the field, when the rest of the object is any object.
\<close>

definition handoffCodec :: "json_codec \<Rightarrow> bool" where
  "handoffCodec js \<longleftrightarrow>
     (\<forall>obj tok. js_handoff js (js_encode js (AList.update ''authority_handoff'' (js_text js tok) obj)) = Some tok \<and>
        js_encode js (AList.update ''authority_handoff'' (js_text js tok) obj) \<noteq> [])"

lemma stamped_token:
  assumes "handoffCodec js" "tok \<noteq> []" "messageMeta m ''scitrera'' = [] \<or> js_object js (messageMeta m ''scitrera'') \<noteq> None"
  shows "handoffToken js (stampMessage js m tok) = tok"
proof -
  let ?meta = "case im_meta m of None \<Rightarrow> [] | Some meta \<Rightarrow> meta"
  have same: "messageMeta (m\<lparr>im_meta := Some ?meta\<rparr>) ''scitrera'' = messageMeta m ''scitrera''"
    by (simp add: messageMeta_def split: option.split)
  from assms(3) obtain obj where
    "(if messageMeta m ''scitrera'' = [] then Some [] else js_object js (messageMeta m ''scitrera'')) = Some obj"
    by (cases "messageMeta m ''scitrera'' = []") auto
  with assms(2) have "stampMessage js m tok = m\<lparr>im_meta := Some (AList.update ''scitrera''
      (js_encode js (AList.update ''authority_handoff'' (js_text js tok) obj)) ?meta)\<rparr>"
    unfolding stampMessage_def Let_def same by simp
  with assms(1) show ?thesis by (simp add: handoffToken_def messageMeta_def handoffCodec_def)
qed

text \<open>Runs of the store: tokens put and resolved by any callers.\<close>

datatype handoff_op = HandPut string memory_authority | HandResolve string

text \<open>The tokens that were handed out and the successful resolutions.\<close>

record handoff_world =
  hw_store :: handoff_store
  hw_put :: "(string \<times> memory_authority) list"
  hw_resolved :: "(string \<times> memory_authority) list"

definition newHandoff :: handoff_world where
  "newHandoff = \<lparr>hw_store = Some [], hw_put = [], hw_resolved = []\<rparr>"

text \<open>
  A fresh random token has not been drawn before: a drawn token that was already handed out is
  the collision the random source excludes, and the step ignores it.
\<close>

fun handoff_step :: "handoff_op \<Rightarrow> handoff_world \<Rightarrow> handoff_world" where
  "handoff_step (HandPut tok a) x =
     (if tok = [] \<or> tok \<in> fst ` set (hw_put x) then x
      else case putAuthority tok a (hw_store x) of
        (s, t) \<Rightarrow> if t = [] then x\<lparr>hw_store := s\<rparr> else x\<lparr>hw_store := s, hw_put := hw_put x @ [(t, a)]\<rparr>)"
| "handoff_step (HandResolve tok) x =
     (case resolveToken tok (hw_store x) of
        (s, None) \<Rightarrow> x\<lparr>hw_store := s\<rparr>
      | (s, Some a) \<Rightarrow> x\<lparr>hw_store := s, hw_resolved := hw_resolved x @ [(tok, a)]\<rparr>)"

definition handoffOk :: "handoff_world \<Rightarrow> bool" where
  "handoffOk x \<longleftrightarrow>
     (\<exists>m. hw_store x = Some m \<and> distinct (map fst m) \<and> distinct (map fst (hw_put x)) \<and>
        distinct (map fst (hw_resolved x)) \<and> set (hw_resolved x) \<subseteq> set (hw_put x) \<and>
        (\<forall>tok a. map_of m tok = Some a \<longleftrightarrow> (tok, a) \<in> set (hw_put x) \<and> tok \<notin> fst ` set (hw_resolved x)))"

lemma handoff_step_ok:
  assumes "handoffOk x"
  shows "handoffOk (handoff_step op x)"
proof -
  from assms obtain m where m: "hw_store x = Some m" "distinct (map fst m)" "distinct (map fst (hw_put x))"
    "distinct (map fst (hw_resolved x))" "set (hw_resolved x) \<subseteq> set (hw_put x)"
    "\<And>tok a. map_of m tok = Some a \<longleftrightarrow> (tok, a) \<in> set (hw_put x) \<and> tok \<notin> fst ` set (hw_resolved x)"
    unfolding handoffOk_def by blast
  have same: "x\<lparr>hw_store := Some m\<rparr> = x" unfolding m(1) [symmetric] by simp
  show ?thesis
  proof (cases op)
    case (HandPut tok a)
    show ?thesis
    proof (cases "tok = [] \<or> tok \<in> fst ` set (hw_put x) \<or> a = noAuthority")
      case True
      from this HandPut assms m(1) show ?thesis by (elim disjE) (simp_all add: putAuthority_def same)
    next
      case False
      then have fresh: "tok \<notin> fst ` set (hw_resolved x)" using m(5) by auto
      let ?y = "x\<lparr>hw_store := Some (AList.update tok a m), hw_put := hw_put x @ [(tok, a)]\<rparr>"
      have step: "handoff_step op x = ?y"
        using False HandPut m(1) by (simp add: putAuthority_def)
      have "map_of (AList.update tok a m) t = Some b \<longleftrightarrow>
          (t, b) \<in> set (hw_put x @ [(tok, a)]) \<and> t \<notin> fst ` set (hw_resolved x)" for t b
        using False fresh m(6) [of t b] by (auto simp: image_iff)
      moreover have "distinct (map fst (AList.update tok a m))" using m(2) by (rule distinct_update)
      moreover have "distinct (map fst (hw_put x @ [(tok, a)]))" using m(3) False by simp
      ultimately have "handoffOk ?y"
        unfolding handoffOk_def using m(4,5) by (intro exI [of _ "AList.update tok a m"]) auto
      with step show ?thesis by simp
    qed
  next
    case (HandResolve tok)
    show ?thesis
    proof (cases "tok = [] \<or> map_of m tok = None")
      case True
      from this HandResolve assms m(1) show ?thesis by (elim disjE) (simp_all add: resolveToken_def same)
    next
      case False
      then obtain a where a: "map_of m tok = Some a" by auto
      let ?y = "x\<lparr>hw_store := Some (AList.delete tok m), hw_resolved := hw_resolved x @ [(tok, a)]\<rparr>"
      have step: "handoff_step op x = ?y"
        using False a HandResolve m(1) by (simp add: resolveToken_def)
      have new: "(tok, a) \<in> set (hw_put x)" "tok \<notin> fst ` set (hw_resolved x)" using m(6) a by blast+
      have "map_of (AList.delete tok m) t = Some b \<longleftrightarrow>
          (t, b) \<in> set (hw_put x) \<and> t \<notin> fst ` set (hw_resolved x @ [(tok, a)])" for t b
        using m(6) [of t b] by auto
      moreover have "distinct (map fst (AList.delete tok m))" using m(2) by (rule distinct_delete)
      ultimately have "handoffOk ?y"
        unfolding handoffOk_def using m(3,4,5) new by (intro exI [of _ "AList.delete tok m"]) auto
      with step show ?thesis by simp
    qed
  qed
qed

interpretation handoff: store_machine newHandoff handoff_step handoffOk
proof unfold_locales
  show "handoffOk newHandoff" by (simp add: handoffOk_def newHandoff_def)
  show "handoffOk x \<Longrightarrow> handoffOk (handoff_step op x)" for op x by (rule handoff_step_ok)
qed

end
