(* ===== verification/GoalLedger.thy ===== *)
theory GoalLedger
  imports GoalStore Inbound
begin

text \<open>
  Model of the continuation ledger of \<open>pkg/goal\<close>: the continuation envelope
  (\<open>continuation.go\<close>), the decision records and the file ledger (\<open>ledger.go\<close>), and the
  distributed ledger over compare-and-swap blobs (\<open>ledger_cas.go\<close>).
\<close>

section \<open>Envelopes\<close>

datatype ledger_error =
    LedgerCorrupt | LedgerContext | LedgerIdentity | LedgerInvalidDecision | LedgerEnvelope
  | LedgerRead | LedgerWrite | LedgerRetryLimit

definition ContinuationEnvelopeSchema :: string where
  "ContinuationEnvelopeSchema = ''agent-harness.goal-continuation.v1''"

record admission =
  ad_workspace :: string
  ad_session :: string
  ad_goal :: string
  ad_parent_task :: string
  ad_parent_message :: string
  ad_attempt :: "32 word"
  ad_inbound :: inbound

text \<open>The envelope is the admission without its authority, under a schema name.\<close>

record envelope = admission +
  en_schema :: string

record receipt =
  rc_backend :: string
  rc_task :: string

definition noReceipt :: receipt where "noReceipt = \<lparr>rc_backend = [], rc_task = []\<rparr>"

definition validReceipt :: "receipt \<Rightarrow> bool" where
  "validReceipt r \<longleftrightarrow> trim_space (rc_backend r) \<noteq> [] \<and> trim_space (rc_task r) \<noteq> []"

definition validateContinuationIdentity ::
  "json_codec \<Rightarrow> string \<Rightarrow> string \<Rightarrow> string \<Rightarrow> string \<Rightarrow> 32 word \<Rightarrow> inbound \<Rightarrow> (ledger_error, unit) result" where
  "validateContinuationIdentity js w s g p attempt i =
     (let m = in_message i; raw = messageMeta m ''scitrera'' in
      first_error
       [guard (trim_space w \<noteq> []) LedgerEnvelope,
        guard (trim_space s \<noteq> []) LedgerEnvelope,
        guard (trim_space g \<noteq> []) LedgerEnvelope,
        guard (trim_space p \<noteq> []) LedgerEnvelope,
        guard (attempt \<noteq> 0) LedgerEnvelope,
        guard (trim_space (im_id m) \<noteq> []) LedgerEnvelope,
        guard (im_role m = RoleUser) LedgerEnvelope,
        guard (ma_workspace (in_addr i) = w \<and> ma_workspace (im_addr m) = w) LedgerEnvelope,
        guard (ma_thread (in_addr i) = s \<and> ma_thread (im_addr m) = s) LedgerEnvelope,
        guard (trim_space (ma_request (in_addr i)) \<noteq> [] \<and> ma_request (im_addr m) = ma_request (in_addr i)) LedgerEnvelope,
        guard (ma_task (im_addr m) = ma_task (in_addr i)) LedgerEnvelope,
        guard (im_content m \<noteq> []) LedgerEnvelope,
        guard (raw = [] \<or> js_handoff js raw = Some []) LedgerEnvelope])"

definition validateAdmission :: "json_codec \<Rightarrow> 'a admission_scheme \<Rightarrow> (ledger_error, unit) result" where
  "validateAdmission js a =
     validateContinuationIdentity js (ad_workspace a) (ad_session a) (ad_goal a) (ad_parent_message a)
       (ad_attempt a) (ad_inbound a)"

definition validateEnvelope :: "json_codec \<Rightarrow> envelope \<Rightarrow> (ledger_error, unit) result" where
  "validateEnvelope js e =
     (if en_schema e \<noteq> ContinuationEnvelopeSchema then Inl LedgerEnvelope else validateAdmission js e)"

definition newContinuationEnvelope :: "json_codec \<Rightarrow> admission \<Rightarrow> (ledger_error, envelope) result" where
  "newContinuationEnvelope js a =
     and_then (validateAdmission js a) (\<lambda>_.
       Inr \<lparr>ad_workspace = ad_workspace a, ad_session = ad_session a, ad_goal = ad_goal a,
            ad_parent_task = ad_parent_task a, ad_parent_message = ad_parent_message a,
            ad_attempt = ad_attempt a, ad_inbound = ad_inbound a, en_schema = ContinuationEnvelopeSchema\<rparr>)"

text \<open>
  Parsing reads one JSON value (\<open>None\<close> is an error, unknown fields included) and what follows it,
  which has to be empty.
\<close>

definition parseContinuationEnvelope ::
  "json_codec \<Rightarrow> (string \<Rightarrow> (envelope \<times> string) option) \<Rightarrow> string \<Rightarrow> (ledger_error, envelope) result" where
  "parseContinuationEnvelope js decode payload =
     (case decode payload of
        None \<Rightarrow> Inl LedgerEnvelope
      | Some (e, rest) \<Rightarrow>
          if dropWhile json_space rest \<noteq> [] then Inl LedgerEnvelope
          else and_then (validateEnvelope js e) (\<lambda>_. Inr e))"

definition marshalContinuationEnvelope ::
  "json_codec \<Rightarrow> (envelope \<Rightarrow> string) \<Rightarrow> admission \<Rightarrow> (ledger_error, string) result" where
  "marshalContinuationEnvelope js encode a = and_then (newContinuationEnvelope js a) (\<lambda>e. Inr (encode e))"

section \<open>Decisions\<close>

datatype decision_action =
    ContinuationPlanned | ContinuationAdmitted | ContinuationEnqueued | DecisionStopped | DecisionCompleted
  | OtherAction string

datatype decision_reason =
    ReasonActiveGoal | ReasonVerifierRevision | ReasonVerifierSatisfied | ReasonVerifierFailed
  | ReasonTokenBudget | ReasonTokenBudgetWrapUp | ReasonMaxContinuations | ReasonGoalTerminal
  | ReasonEnqueueUnavailable | ReasonEnqueueFailed | ReasonAdmissionFailed | OtherReason string

record decision_record =
  de_version :: "32 word"
  de_sequence :: "64 word"
  de_workspace :: string
  de_session :: string
  de_goal :: string
  de_turn :: string
  de_action :: decision_action
  de_reason :: decision_reason
  de_detail :: string
  de_created :: stamp
  de_usage :: "64 word"
  de_budget :: "64 word option"
  de_used :: "32 word"
  de_evidence :: "string list"
  de_message :: string
  de_request :: string
  de_backend :: string
  de_task :: string
  de_continuation :: "envelope option"

record decision_log =
  dl_version :: "32 word"
  dl_workspace :: string
  dl_session :: string
  dl_next :: "64 word"
  dl_records :: "decision_record list"

definition continuationLedgerSchemaVersion :: "32 word" where "continuationLedgerSchemaVersion = 1"

definition newLedgerState :: "string \<Rightarrow> string \<Rightarrow> decision_log" where
  "newLedgerState w s =
     \<lparr>dl_version = continuationLedgerSchemaVersion, dl_workspace = w, dl_session = s, dl_next = 1, dl_records = []\<rparr>"

definition knownAction :: "decision_action \<Rightarrow> bool" where
  "knownAction a = (case a of OtherAction _ \<Rightarrow> False | _ \<Rightarrow> True)"

definition knownReason :: "decision_reason \<Rightarrow> bool" where
  "knownReason r = (case r of OtherReason _ \<Rightarrow> False | _ \<Rightarrow> True)"

definition validateContinuation :: "json_codec \<Rightarrow> decision_record \<Rightarrow> (ledger_error, unit) result" where
  "validateContinuation js r =
     (case de_continuation r of
        None \<Rightarrow> Inr ()
      | Some e \<Rightarrow>
          if de_action r \<noteq> ContinuationPlanned then Inl LedgerInvalidDecision
          else and_then (validateEnvelope js e) (\<lambda>_.
            guard (ad_workspace e = de_workspace r \<and> ad_session e = de_session r \<and> ad_goal e = de_goal r \<and>
              ad_parent_message e = de_turn r \<and> im_id (in_message (ad_inbound e)) = de_message r \<and>
              ma_request (in_addr (ad_inbound e)) = de_request r) LedgerInvalidDecision))"

definition validateDecisionRecord :: "json_codec \<Rightarrow> decision_record \<Rightarrow> (ledger_error, unit) result" where
  "validateDecisionRecord js r =
     first_error
       [guard (de_version r = continuationLedgerSchemaVersion \<and> de_sequence r \<noteq> 0) LedgerInvalidDecision,
        guard (de_workspace r \<noteq> [] \<and> de_session r \<noteq> [] \<and> de_goal r \<noteq> [] \<and> de_turn r \<noteq> []) LedgerInvalidDecision,
        guard (knownAction (de_action r)) LedgerInvalidDecision,
        guard (knownReason (de_reason r)) LedgerInvalidDecision,
        guard (parse_stamp (de_created r) \<noteq> None) LedgerInvalidDecision,
        validateContinuation js r]"

definition prepareDecisionRecord :: "decision_record \<Rightarrow> 64 word \<Rightarrow> string \<Rightarrow> string \<Rightarrow> time \<Rightarrow> decision_record" where
  "prepareDecisionRecord r n w s now =
     r\<lparr>de_version := continuationLedgerSchemaVersion, de_sequence := n, de_workspace := w, de_session := s,
       de_created := (if de_created r = NoStamp then format_stamp now else de_created r)\<rparr>"

text \<open>The loop of \<open>validateLedgerState\<close> with the expected sequence number; every failure is corruption.\<close>

fun validateRecordsFrom ::
  "json_codec \<Rightarrow> string \<Rightarrow> string \<Rightarrow> 64 word \<Rightarrow> decision_record list \<Rightarrow> (ledger_error, 64 word) result" where
  "validateRecordsFrom js w s want [] = Inr want"
| "validateRecordsFrom js w s want (r # rs) =
     (if de_sequence r \<noteq> want \<or> de_workspace r \<noteq> w \<or> de_session r \<noteq> s then Inl LedgerCorrupt
      else if validateDecisionRecord js r \<noteq> Inr () then Inl LedgerCorrupt
      else validateRecordsFrom js w s (want + 1) rs)"

definition validateLedgerState :: "json_codec \<Rightarrow> string \<Rightarrow> string \<Rightarrow> decision_log \<Rightarrow> (ledger_error, unit) result" where
  "validateLedgerState js w s st =
     (if dl_version st \<noteq> continuationLedgerSchemaVersion \<or> dl_workspace st \<noteq> w \<or> dl_session st \<noteq> s then Inl LedgerCorrupt
      else and_then (validateRecordsFrom js w s 1 (dl_records st)) (\<lambda>want. guard (dl_next st = want) LedgerCorrupt))"

definition firstDecisionForTurn :: "decision_record list \<Rightarrow> string \<Rightarrow> string \<Rightarrow> decision_record option" where
  "firstDecisionForTurn rs g t = find (\<lambda>r. de_goal r = g \<and> de_turn r = t) rs"

definition validateLedgerIdentity :: "bool \<Rightarrow> string \<Rightarrow> string \<Rightarrow> (ledger_error, unit) result" where
  "validateLedgerIdentity ctx_done w s =
     (if ctx_done then Inl LedgerContext else guard (w \<noteq> [] \<and> s \<noteq> []) LedgerIdentity)"

text \<open>The step shared by both ledgers: prepare the record, validate it and append it.\<close>

definition appendDecision ::
  "json_codec \<Rightarrow> string \<Rightarrow> string \<Rightarrow> time \<Rightarrow> decision_record \<Rightarrow> decision_log
     \<Rightarrow> (ledger_error, decision_log \<times> decision_record) result" where
  "appendDecision js w s now r st =
     (let p = prepareDecisionRecord r (dl_next st) w s now in
      and_then (validateDecisionRecord js p) (\<lambda>_.
        Inr (st\<lparr>dl_records := dl_records st @ [p], dl_next := dl_next st + 1\<rparr>, p)))"

section \<open>The file ledger\<close>

datatype decision_file = NoDecisions | UndecodableDecisions | DecisionFile decision_log

definition loadDecisions ::
  "json_codec \<Rightarrow> io_env \<Rightarrow> string \<Rightarrow> string \<Rightarrow> decision_file \<Rightarrow> (ledger_error, decision_log) result" where
  "loadDecisions js io w s f =
     (case f of
        NoDecisions \<Rightarrow> if io_read_fails io then Inl LedgerRead else Inr (newLedgerState w s)
      | UndecodableDecisions \<Rightarrow> if io_read_fails io then Inl LedgerRead else Inl LedgerCorrupt
      | DecisionFile st \<Rightarrow>
          if io_read_fails io then Inl LedgerRead
          else and_then (validateLedgerState js w s st) (\<lambda>_. Inr st))"

definition appendLocked ::
  "json_codec \<Rightarrow> io_env \<Rightarrow> string \<Rightarrow> string \<Rightarrow> time \<Rightarrow> decision_record \<Rightarrow> decision_log \<Rightarrow> decision_file
     \<Rightarrow> decision_file \<times> (ledger_error, decision_record) result" where
  "appendLocked js io w s now r st f =
     (case appendDecision js w s now r st of
        Inl e \<Rightarrow> (f, Inl e)
      | Inr (st', p) \<Rightarrow> if io_write_fails io then (f, Inl LedgerWrite) else (DecisionFile st', Inr p))"

definition fileAppendDecision ::
  "json_codec \<Rightarrow> bool \<Rightarrow> io_env \<Rightarrow> string \<Rightarrow> string \<Rightarrow> time \<Rightarrow> decision_record \<Rightarrow> decision_file
     \<Rightarrow> decision_file \<times> (ledger_error, decision_record) result" where
  "fileAppendDecision js ctx_done io w s now r f =
     (case and_then (validateLedgerIdentity ctx_done w s) (\<lambda>_. loadDecisions js io w s f) of
        Inl e \<Rightarrow> (f, Inl e)
      | Inr st \<Rightarrow> appendLocked js io w s now r st f)"

definition fileAppendFirstDecision ::
  "json_codec \<Rightarrow> bool \<Rightarrow> io_env \<Rightarrow> string \<Rightarrow> string \<Rightarrow> time \<Rightarrow> decision_record \<Rightarrow> decision_file
     \<Rightarrow> decision_file \<times> (ledger_error, decision_record \<times> bool) result" where
  "fileAppendFirstDecision js ctx_done io w s now r f =
     (case and_then (validateLedgerIdentity ctx_done w s) (\<lambda>_. loadDecisions js io w s f) of
        Inl e \<Rightarrow> (f, Inl e)
      | Inr st \<Rightarrow>
          (case firstDecisionForTurn (dl_records st) (de_goal r) (de_turn r) of
             Some d \<Rightarrow> (f, Inr (d, False))
           | None \<Rightarrow>
               (case appendLocked js io w s now r st f of
                  (f', Inl e) \<Rightarrow> (f', Inl e)
                | (f', Inr p) \<Rightarrow> (f', Inr (p, True)))))"

definition fileListDecisions ::
  "json_codec \<Rightarrow> bool \<Rightarrow> io_env \<Rightarrow> string \<Rightarrow> string \<Rightarrow> decision_file \<Rightarrow> (ledger_error, decision_record list) result" where
  "fileListDecisions js ctx_done io w s f =
     and_then (validateLedgerIdentity ctx_done w s) (\<lambda>_.
       and_then (loadDecisions js io w s f) (\<lambda>st. Inr (dl_records st)))"

section \<open>The distributed ledger\<close>

definition casLedgerRead ::
  "json_codec \<Rightarrow> (string \<Rightarrow> decision_log option) \<Rightarrow> string \<Rightarrow> string \<Rightarrow> blob \<Rightarrow> (ledger_error, decision_log) result"
where
  "casLedgerRead js decode w s b =
     (case b of
        None \<Rightarrow> Inr (newLedgerState w s)
      | Some raw \<Rightarrow>
          if raw = [] then Inl LedgerCorrupt
          else case decode raw of
            None \<Rightarrow> Inl LedgerCorrupt
          | Some st \<Rightarrow> and_then (validateLedgerState js w s st) (\<lambda>_. Inr st))"

definition decisionChange ::
  "json_codec \<Rightarrow> string \<Rightarrow> string \<Rightarrow> time \<Rightarrow> bool \<times> decision_record \<Rightarrow> decision_log
     \<Rightarrow> (ledger_error, (decision_log, decision_record \<times> bool) change) result" where
  "decisionChange js w s now = (\<lambda>(first_only, r) st.
     case (if first_only then firstDecisionForTurn (dl_records st) (de_goal r) (de_turn r) else None) of
       Some d \<Rightarrow> Inr (Unchanged (d, False))
     | None \<Rightarrow> and_then (appendDecision js w s now r st) (\<lambda>(st', p). Inr (Changed st' (p, True))))"

definition casAppendDecision ::
  "json_codec \<Rightarrow> (string \<Rightarrow> decision_log option) \<Rightarrow> (decision_log \<Rightarrow> string) \<Rightarrow> nat \<Rightarrow> bool \<Rightarrow> string \<Rightarrow> string \<Rightarrow> time
     \<Rightarrow> bool \<Rightarrow> decision_record \<Rightarrow> (nat \<Rightarrow> cas_env) \<Rightarrow> blob
     \<Rightarrow> blob \<times> (ledger_error, decision_record \<times> bool) result" where
  "casAppendDecision js decode encode retries ctx_done w s now first_only r env b =
     (if retries = 0 then (b, Inl LedgerRetryLimit)
      else case validateLedgerIdentity ctx_done w s of
        Inl e \<Rightarrow> (b, Inl e)
      | Inr _ \<Rightarrow>
          casLoop retries LedgerRetryLimit LedgerRead LedgerWrite (casLedgerRead js decode w s)
            (decisionChange js w s now (first_only, r)) encode env b)"

definition casListDecisions ::
  "json_codec \<Rightarrow> (string \<Rightarrow> decision_log option) \<Rightarrow> bool \<Rightarrow> string \<Rightarrow> string \<Rightarrow> blob \<Rightarrow> (ledger_error, decision_record list) result"
where
  "casListDecisions js decode ctx_done w s b =
     and_then (validateLedgerIdentity ctx_done w s) (\<lambda>_.
       and_then (casLedgerRead js decode w s b) (\<lambda>st. Inr (dl_records st)))"

end
