(* ===== verification/GoalRuntime.thy ===== *)
theory GoalRuntime
  imports GoalPolicy
begin

text \<open>
  Model of the goal runtime (\<open>pkg/goal/runtime.go\<close>): \<open>BeginTurn\<close> and \<open>AfterTurn\<close> over the file
  stores of one session, with the verifier, the delivery backend, the queue and every fault of the
  environment as inputs.
\<close>

section \<open>Configuration, environment and state\<close>

record runtime_config =
  rt_policy :: "policy_input \<Rightarrow> policy_decision"
  rt_spec :: goal_spec
  rt_json :: json_codec
  rt_streak :: "32 word"
  rt_default_workspace :: string
  rt_backend :: bool
  rt_enqueuer :: bool
  rt_usage :: "string \<Rightarrow> 64 word option"
  rt_meta :: "string \<Rightarrow> 32 word \<Rightarrow> string \<Rightarrow> string"
  rt_text_part :: "string \<Rightarrow> string"
  rt_status_text :: "goal_status \<Rightarrow> string"

definition DefaultVerifierFailureStreak :: "32 word" where "DefaultVerifierFailureStreak = 3"

text \<open>\<open>NewRuntime\<close> replaces a zero streak and an empty workspace by the defaults.\<close>

definition newRuntime :: "runtime_config \<Rightarrow> runtime_config" where
  "newRuntime c =
     c\<lparr>rt_default_workspace :=
         (if trim_space (rt_default_workspace c) = [] then ''default'' else trim_space (rt_default_workspace c)),
       rt_streak := (if rt_streak c = 0 then DefaultVerifierFailureStreak else rt_streak c)\<rparr>"

text \<open>
  One call of a store: whether its context is done, its faults, and the time its clock shows.
\<close>

record call_env =
  ca_ctx :: bool
  ca_io :: io_env
  ca_now :: time

text \<open>
  What happens during one turn: the calls of the stores in order, the verdict (\<open>None\<close> without a
  verifier), the ids that could be drawn, the authority of the context, a random token, and what
  the backend and the queue answer.
\<close>

record turn_env =
  te_begin :: call_env
  te_list :: call_env
  te_account :: call_env
  te_update :: call_env
  te_decide :: call_env
  te_followup :: call_env
  te_verdict :: "(string + verification) option"
  te_message_id :: "string option"
  te_task_id :: "string option"
  te_request_id :: "string option"
  te_authority :: "memory_authority option"
  te_token :: string
  te_admit :: "string option \<times> receipt"
  te_enqueue :: "string option"

record turn_goal =
  tg_workspace :: string
  tg_session :: string
  tg_goal :: string

text \<open>
  The durable state of one session, the handoff store, and the deliveries that were asked for.
\<close>

record goal_session =
  gn_goals :: goal_file
  gn_ledger :: decision_file
  gn_handoff :: handoff_store
  gn_sent :: "inbound list"

datatype runtime_error =
    RtLedger ledger_error | RtGoal goal_error | RtVerify string | RtNoSession | RtNoMessageID | RtUsage
  | RtNewID | RtNoHandoff | RtAdmit string | RtEnqueue string

text \<open>The result of a turn: whether it was associated with a goal, and the joined errors.\<close>

type_synonym turn_result = "goal_session \<times> bool \<times> runtime_error list"

section \<open>Beginning a turn\<close>

definition turnWorkspace :: "runtime_config \<Rightarrow> request_address \<Rightarrow> string" where
  "turnWorkspace c a =
     (if trim_space (ma_workspace a) = [] then rt_default_workspace c else trim_space (ma_workspace a))"

definition beginTurn ::
  "runtime_config \<Rightarrow> call_env \<Rightarrow> request_address \<Rightarrow> goal_file \<Rightarrow> (runtime_error, turn_goal) result" where
  "beginTurn c ce a f =
     (let w = turnWorkspace c a; s = ma_thread a in
      if s = [] then Inl RtNoSession
      else case readOpenGoal (rt_spec c) (ca_ctx ce) (ca_io ce) w s f of
        Inl e \<Rightarrow> Inl (RtGoal e)
      | Inr current \<Rightarrow>
          Inr \<lparr>tg_workspace = w, tg_session = s,
               tg_goal = (case current of Some g \<Rightarrow> if go_status g = GoalActive then go_id g else [] | None \<Rightarrow> [])\<rparr>)"

definition trackTurnGoal :: "string \<Rightarrow> turn_goal option \<Rightarrow> turn_goal option" where
  "trackTurnGoal g ts = (if trim_space g = [] then ts else map_option (\<lambda>t. t\<lparr>tg_goal := g\<rparr>) ts)"

definition turnGoalIdentity :: "turn_goal option \<Rightarrow> string \<Rightarrow> string \<Rightarrow> string \<times> string" where
  "turnGoalIdentity ts w s = (case ts of None \<Rightarrow> (w, s) | Some t \<Rightarrow> (tg_workspace t, tg_session t))"

section \<open>Records and messages\<close>

definition decisionRecord ::
  "goal_record \<Rightarrow> string \<Rightarrow> decision_action \<Rightarrow> decision_reason \<Rightarrow> string \<Rightarrow> 32 word \<Rightarrow> string list \<Rightarrow> decision_record"
where
  "decisionRecord g turn a r detail used evidence =
     \<lparr>de_version = 0, de_sequence = 0, de_workspace = [], de_session = [], de_goal = go_id g, de_turn = turn,
      de_action = a, de_reason = r, de_detail = trim_space detail, de_created = NoStamp, de_usage = go_usage g,
      de_budget = go_budget g, de_used = used, de_evidence = evidence, de_message = [], de_request = [],
      de_backend = [], de_task = [], de_continuation = None\<rparr>"

definition withContinuationIdentity :: "decision_record \<Rightarrow> inbound \<Rightarrow> receipt \<Rightarrow> decision_record" where
  "withContinuationIdentity r i rc =
     r\<lparr>de_message := im_id (in_message i), de_request := ma_request (in_addr i), de_backend := rc_backend rc,
       de_task := (if rc_task rc = [] then ma_task (in_addr i) else rc_task rc)\<rparr>"

definition verificationEvidence :: "verification option \<Rightarrow> string list" where
  "verificationEvidence v = (case v of None \<Rightarrow> [] | Some v \<Rightarrow> vr_evidence v)"

definition assistantTokenUsage :: "runtime_config \<Rightarrow> inbound_message \<Rightarrow> (runtime_error, 64 word) result" where
  "assistantTokenUsage c m =
     (let raw = messageMeta m ''scitrera_usage'' in
      if raw = [] then Inr 0 else case rt_usage c raw of None \<Rightarrow> Inl RtUsage | Some n \<Rightarrow> Inr n)"

text \<open>
  \<open>continuationInbound\<close> draws the ids, builds the user message and, for a local delivery, hands
  the authority of the turn over under a token.
\<close>

definition continuationMessage ::
  "runtime_config \<Rightarrow> string \<Rightarrow> request_address \<Rightarrow> goal_record \<Rightarrow> string \<Rightarrow> 32 word \<Rightarrow> decision_reason
     \<Rightarrow> verification option \<Rightarrow> inbound_message" where
  "continuationMessage c k a g prior attempt r v =
     \<lparr>im_id = k, im_role = RoleUser, im_addr = a,
      im_content = [rt_text_part c (continuationPrompt (rt_status_text c) g attempt r v)],
      im_meta = Some [(''goal_continuation'', rt_meta c (go_id g) attempt prior)]\<rparr>"

definition handAuthority ::
  "runtime_config \<Rightarrow> turn_env \<Rightarrow> bool \<Rightarrow> inbound_message \<Rightarrow> handoff_store
     \<Rightarrow> handoff_store \<times> (runtime_error, inbound_message) result" where
  "handAuthority c env local m hs =
     (case te_authority env of
        None \<Rightarrow> (hs, Inr m)
      | Some a \<Rightarrow>
          if \<not> local \<or> a = noAuthority then (hs, Inr m)
          else if hs = None then (hs, Inl RtNoHandoff)
          else case putAuthority (te_token env) a hs of
            (hs', tok) \<Rightarrow> if tok = [] then (hs', Inl RtNoHandoff) else (hs', Inr (stampMessage (rt_json c) m tok)))"

definition continuationInbound ::
  "runtime_config \<Rightarrow> turn_env \<Rightarrow> request_address \<Rightarrow> goal_record \<Rightarrow> string \<Rightarrow> 32 word \<Rightarrow> decision_reason
     \<Rightarrow> verification option \<Rightarrow> bool \<Rightarrow> handoff_store \<Rightarrow> handoff_store \<times> (runtime_error, inbound) result" where
  "continuationInbound c env a g prior attempt r v local hs =
     (case (te_message_id env, if local then te_task_id env else Some [], te_request_id env) of
        (Some k, Some task, Some req) \<Rightarrow>
          (let a' = a\<lparr>ma_task := task, ma_request := req\<rparr> in
           case handAuthority c env local (continuationMessage c k a' g prior attempt r v) hs of
             (hs', Inl e) \<Rightarrow> (hs', Inl e)
           | (hs', Inr m) \<Rightarrow> (hs', Inr \<lparr>in_addr = a', in_message = m, in_meta = []\<rparr>))
      | _ \<Rightarrow> (hs, Inl RtNewID))"

section \<open>Recording decisions\<close>

text \<open>
  The pattern of every deciding branch: append the first decision of the turn; when another
  process decided before, the turn ends without an error, otherwise with the given ones.
\<close>

definition decideFirst ::
  "runtime_config \<Rightarrow> turn_env \<Rightarrow> string \<Rightarrow> string \<Rightarrow> decision_record \<Rightarrow> runtime_error list \<Rightarrow> goal_session \<Rightarrow> turn_result"
where
  "decideFirst c env w s r errs x =
     (case fileAppendFirstDecision (rt_json c) (ca_ctx (te_decide env)) (ca_io (te_decide env)) w s
             (ca_now (te_decide env)) r (gn_ledger x) of
        (f, Inl e) \<Rightarrow> (x\<lparr>gn_ledger := f\<rparr>, True, errs @ [RtLedger e])
      | (f, Inr (d, admitted)) \<Rightarrow> (x\<lparr>gn_ledger := f\<rparr>, True, if admitted then errs else []))"

text \<open>The audit record after a delivery; its context is not cancelled with the turn.\<close>

definition appendAudit ::
  "runtime_config \<Rightarrow> turn_env \<Rightarrow> string \<Rightarrow> string \<Rightarrow> decision_record \<Rightarrow> runtime_error list \<Rightarrow> goal_session \<Rightarrow> turn_result"
where
  "appendAudit c env w s r errs x =
     (case fileAppendDecision (rt_json c) False (ca_io (te_followup env)) w s (ca_now (te_followup env)) r (gn_ledger x) of
        (f, Inl e) \<Rightarrow> (x\<lparr>gn_ledger := f\<rparr>, True, errs @ [RtLedger e])
      | (f, Inr _) \<Rightarrow> (x\<lparr>gn_ledger := f\<rparr>, True, errs))"

definition updateStatus ::
  "runtime_config \<Rightarrow> turn_env \<Rightarrow> string \<Rightarrow> string \<Rightarrow> update_input \<Rightarrow> goal_session
     \<Rightarrow> goal_session \<times> (goal_error, goal_record) result" where
  "updateStatus c env w s i x =
     (let ce = te_update env in
      case updateGoal (rt_spec c) (ca_ctx ce) (ca_io ce) (ca_io ce) w s (ca_now ce) i (gn_goals x) of
        (f, res) \<Rightarrow> (x\<lparr>gn_goals := f\<rparr>, res))"

definition blockInput :: "string \<Rightarrow> string \<Rightarrow> update_input" where
  "blockInput g detail = \<lparr>ui_id = g, ui_status = GoalBlocked, ui_evidence = [], ui_blocked = detail\<rparr>"

section \<open>After a turn\<close>

text \<open>The backend's answer is an error when it says so or when its receipt is incomplete.\<close>

definition admitError :: "string option \<times> receipt \<Rightarrow> string option" where
  "admitError a =
     (if fst a = None \<and> \<not> validReceipt (snd a) then Some ''goal: continuation receipt requires backend and task id''
      else fst a)"

text \<open>
  The delivery of an admitted plan: to the backend when there is one, otherwise to the queue, and
  the audit record about it.
\<close>

definition deliver_continuation ::
  "runtime_config \<Rightarrow> turn_env \<Rightarrow> string \<Rightarrow> string \<Rightarrow> goal_record \<Rightarrow> string \<Rightarrow> decision_reason \<Rightarrow> verification option
     \<Rightarrow> 32 word \<Rightarrow> inbound \<Rightarrow> goal_session \<Rightarrow> turn_result" where
  "deliver_continuation c env w s g turn r v attempt i x =
     (let sent = x\<lparr>gn_sent := gn_sent x @ [i]\<rparr> in
      if rt_backend c then
        (let rc = snd (te_admit env) in
         case admitError (te_admit env) of
           Some e \<Rightarrow>
             appendAudit c env w s (withContinuationIdentity
               (decisionRecord g turn DecisionStopped ReasonAdmissionFailed e attempt []) i rc) [RtAdmit e] sent
         | None \<Rightarrow>
             appendAudit c env w s (withContinuationIdentity
               (decisionRecord g turn ContinuationAdmitted r ''continuation admitted to durable backend'' attempt
                  (verificationEvidence v)) i rc) [] sent)
      else
        (case te_enqueue env of
           Some e \<Rightarrow>
             appendAudit c env w s (withContinuationIdentity
               (decisionRecord g turn DecisionStopped ReasonEnqueueFailed e attempt []) i noReceipt) [RtEnqueue e] sent
         | None \<Rightarrow>
             appendAudit c env w s (withContinuationIdentity
               (decisionRecord g turn ContinuationEnqueued r ''continuation admitted to host ingress'' attempt
                  (verificationEvidence v)) i noReceipt) [] sent))"

text \<open>Planning: the inbound message, the plan as the first decision of the turn, then the delivery.\<close>

definition planContinuation ::
  "runtime_config \<Rightarrow> turn_env \<Rightarrow> string \<Rightarrow> string \<Rightarrow> request_address \<Rightarrow> goal_record \<Rightarrow> string \<Rightarrow> policy_decision
     \<Rightarrow> verification option \<Rightarrow> 32 word \<Rightarrow> goal_session \<Rightarrow> turn_result" where
  "planContinuation c env w s a g turn d v attempt x =
     (case continuationInbound c env a g turn attempt (pd_reason d) v (\<not> rt_backend c) (gn_handoff x) of
        (hs, Inl e) \<Rightarrow> (x\<lparr>gn_handoff := hs\<rparr>, True, [e])
      | (hs, Inr i) \<Rightarrow>
          (let x1 = x\<lparr>gn_handoff := hs\<rparr>;
               planned = withContinuationIdentity
                 (decisionRecord g turn ContinuationPlanned (pd_reason d) (pd_detail d) attempt (verificationEvidence v))
                 i noReceipt;
               adm = \<lparr>ad_workspace = w, ad_session = s, ad_goal = go_id g, ad_parent_task = ma_task a,
                      ad_parent_message = turn, ad_attempt = attempt, ad_inbound = i\<rparr>
           in case (if rt_backend c
                    then and_then (newContinuationEnvelope (rt_json c) adm) (\<lambda>e. Inr (planned\<lparr>de_continuation := Some e\<rparr>))
                    else Inr planned) of
                Inl e \<Rightarrow> (x1, True, [RtLedger e])
              | Inr p \<Rightarrow>
                  (case fileAppendFirstDecision (rt_json c) (ca_ctx (te_decide env)) (ca_io (te_decide env)) w s
                          (ca_now (te_decide env)) p (gn_ledger x1) of
                     (f, Inl e) \<Rightarrow> (x1\<lparr>gn_ledger := f\<rparr>, True, [RtLedger e])
                   | (f, Inr (q, admitted)) \<Rightarrow>
                       if admitted
                       then deliver_continuation c env w s g turn (pd_reason d) v attempt i (x1\<lparr>gn_ledger := f\<rparr>)
                       else (x1\<lparr>gn_ledger := f\<rparr>, True, []))))"

text \<open>What the decision of the policy leads to.\<close>

definition followDecision ::
  "runtime_config \<Rightarrow> turn_env \<Rightarrow> string \<Rightarrow> string \<Rightarrow> request_address \<Rightarrow> goal_record \<Rightarrow> string \<Rightarrow> policy_decision
     \<Rightarrow> verification option \<Rightarrow> 32 word \<Rightarrow> goal_session \<Rightarrow> turn_result" where
  "followDecision c env w s a g turn d v used x =
     (if pd_block d then
        (case updateStatus c env w s (blockInput (go_id g) (pd_detail d)) x of
           (x', Inl e) \<Rightarrow> (x', True, [RtGoal e])
         | (x', Inr b) \<Rightarrow>
             decideFirst c env w s (decisionRecord b turn DecisionStopped (pd_reason d) (pd_detail d) used []) [] x')
      else if \<not> pd_continue d then
        decideFirst c env w s
          (decisionRecord g turn (if go_status g = GoalCompleted then DecisionCompleted else DecisionStopped)
             (pd_reason d) (pd_detail d) used []) [] x
      else if \<not> rt_backend c \<and> \<not> rt_enqueuer c then
        decideFirst c env w s
          (decisionRecord g turn DecisionStopped ReasonEnqueueUnavailable
             ''host has no continuation ingress queue'' used []) [] x
      else planContinuation c env w s a g turn d v (used + 1) x)"

text \<open>
  The policy decides with the verification and the history; a tolerated verifier failure replaces
  the reason and the detail when the turn goes on.
\<close>

definition policyPhase ::
  "runtime_config \<Rightarrow> turn_env \<Rightarrow> string \<Rightarrow> string \<Rightarrow> request_address \<Rightarrow> decision_record list \<Rightarrow> goal_record \<Rightarrow> string
     \<Rightarrow> verification option \<Rightarrow> string \<Rightarrow> goal_session \<Rightarrow> turn_result" where
  "policyPhase c env w s a rs g turn v failure x =
     (let used = countPlannedContinuations rs (go_id g);
          d0 = rt_policy c \<lparr>pi_goal = g, pi_used = used, pi_verification = v,
                            pi_wrap_up = wrapUpAlreadyPlanned rs (go_id g)\<rparr>;
          d = (if failure \<noteq> [] \<and> pd_continue d0
               then d0\<lparr>pd_reason := ReasonVerifierFailed, pd_detail := failure\<rparr> else d0)
      in followDecision c env w s a g turn d v used x)"

definition failureDetail :: "string \<Rightarrow> string" where
  "failureDetail e = ''goal verifier failed: '' @ e"

text \<open>The verifier, when the goal is active and there is one.\<close>

definition verifyPhase ::
  "runtime_config \<Rightarrow> turn_env \<Rightarrow> string \<Rightarrow> string \<Rightarrow> request_address \<Rightarrow> decision_record list \<Rightarrow> goal_record \<Rightarrow> string
     \<Rightarrow> goal_session \<Rightarrow> turn_result" where
  "verifyPhase c env w s a rs g turn x =
     (let used = countPlannedContinuations rs (go_id g) in
      case (if go_status g = GoalActive then te_verdict env else None) of
        None \<Rightarrow> policyPhase c env w s a rs g turn None [] x
      | Some (Inl e) \<Rightarrow>
          (let streak = consecutiveVerifierFailures rs (go_id g) + 1 in
           if rt_streak c \<le> streak then
             (case updateStatus c env w s (blockInput (go_id g) (failureDetail e)) x of
                (x', Inl u) \<Rightarrow> (x', True, [RtVerify e, RtGoal u])
              | (x', Inr b) \<Rightarrow>
                  decideFirst c env w s
                    (decisionRecord b turn DecisionStopped ReasonVerifierFailed (failureDetail e) used [])
                    [RtVerify e] x')
           else policyPhase c env w s a rs g turn None
                  (failureDetail e @ '' ('' @ natText streak @ '' of '' @ natText (rt_streak c) @
                   '' consecutive failures before the goal blocks)'') x)
      | Some (Inr v) \<Rightarrow>
          if vr_satisfied v then
            (case updateStatus c env w s
                    \<lparr>ui_id = go_id g, ui_status = GoalCompleted,
                     ui_evidence = vr_evidence v @ [verifierEvidencePrefix @ ''satisfied''], ui_blocked = []\<rparr> x of
               (x', Inl u) \<Rightarrow> (x', True, [RtGoal u])
             | (x', Inr b) \<Rightarrow>
                 decideFirst c env w s
                   (decisionRecord b turn DecisionCompleted ReasonVerifierSatisfied (trim_space (vr_feedback v)) used
                      (vr_evidence v)) [] x')
          else policyPhase c env w s a rs g turn (Some v) [] x)"

text \<open>The charge of the message; the record it returns is the goal of the rest of the turn.\<close>

definition accountPhase ::
  "runtime_config \<Rightarrow> turn_env \<Rightarrow> string \<Rightarrow> string \<Rightarrow> string \<Rightarrow> request_address \<Rightarrow> decision_record list \<Rightarrow> inbound_message
     \<Rightarrow> goal_session \<Rightarrow> turn_result" where
  "accountPhase c env w s g a rs m x =
     (case assistantTokenUsage c m of
        Inl e \<Rightarrow> (x, True, [e])
      | Inr usage \<Rightarrow>
          (let ce = te_account env in
           case accountUsage (rt_spec c) (ca_ctx ce) (ca_io ce) w s (ca_now ce) g (im_id m) usage (gn_goals x) of
             (f, Inl e) \<Rightarrow> (x\<lparr>gn_goals := f\<rparr>, True, [RtGoal e])
           | (f, Inr (r, charged)) \<Rightarrow> verifyPhase c env w s a rs r (im_id m) (x\<lparr>gn_goals := f\<rparr>)))"

text \<open>\<open>AfterTurn\<close>; without a state from \<open>BeginTurn\<close> it begins the turn itself.\<close>

definition afterTurnAt ::
  "runtime_config \<Rightarrow> turn_env \<Rightarrow> turn_goal \<Rightarrow> request_address \<Rightarrow> inbound_message \<Rightarrow> goal_session \<Rightarrow> turn_result" where
  "afterTurnAt c env t a m x =
     (if tg_goal t = [] then (x, False, [])
      else if im_id m = [] then (x, True, [RtNoMessageID])
      else case fileListDecisions (rt_json c) (ca_ctx (te_list env)) (ca_io (te_list env)) (tg_workspace t) (tg_session t)
                  (gn_ledger x) of
        Inl e \<Rightarrow> (x, True, [RtLedger e])
      | Inr rs \<Rightarrow>
          if decisionExistsForTurn rs (tg_goal t) (im_id m) then (x, True, [])
          else accountPhase c env (tg_workspace t) (tg_session t) (tg_goal t) a rs m x)"

definition afterTurn ::
  "runtime_config \<Rightarrow> turn_env \<Rightarrow> turn_goal option \<Rightarrow> request_address \<Rightarrow> inbound_message \<Rightarrow> goal_session \<Rightarrow> turn_result" where
  "afterTurn c env ts a m x =
     (case ts of
        Some t \<Rightarrow> afterTurnAt c env t a m x
      | None \<Rightarrow>
          (case beginTurn c (te_begin env) a (gn_goals x) of
             Inl e \<Rightarrow> (x, False, [e])
           | Inr t \<Rightarrow> afterTurnAt c env t a m x))"

end
