(* ===== verification/GoalProofs.thy ===== *)
theory GoalProofs
  imports GoalStore
begin

text \<open>
  The goal store and its service as a transition system: one session has at most one open goal,
  finished goals stay finished, and the usage of a goal is the sum of the messages that were
  charged to it, each of them once.
\<close>

section \<open>Sorted records\<close>

definition sortedGoals :: "goal_record list \<Rightarrow> bool" where
  "sortedGoals rs \<longleftrightarrow> sorted_wrt (<) (map go_id rs)"

lemma sortedGoals_sortedBy: "sortedGoals rs = sortedBy go_id rs"
  by (simp add: sortedGoals_def sortedBy_def)

lemma sortedGoals_distinct: "sortedGoals rs \<Longrightarrow> distinct (map go_id rs)"
  unfolding sortedGoals_def by (induction rs) auto

text \<open>A record with a new id goes to its place; the others stay.\<close>

lemma putGoalState_new:
  assumes "sortedGoals (gs_records st)" "\<forall>x \<in> set (gs_records st). go_id x \<noteq> go_id r" "putGoalState sp r st = Inr st'"
  shows "sp_valid sp st'" "sortedGoals (gs_records st')" "set (gs_records st') = insert r (set (gs_records st))"
    "length (filter P (gs_records st')) = length (filter P (gs_records st)) + (if P r then 1 else 0)"
proof -
  let ?rs = "gs_records st"
  let ?i = "sortSearch (length ?rs) (\<lambda>i. go_id r \<le> go_id (?rs ! i))"
  note pos = search_position [OF assms(1) [unfolded sortedGoals_sortedBy], where k = "go_id r"]
  have "\<not> (?i < length ?rs \<and> go_id (?rs ! ?i) = go_id r)" using assms(2) by auto
  with assms(3) have st': "st' = st\<lparr>gs_records := take ?i ?rs @ r # drop ?i ?rs\<rparr>" "sp_valid sp st'"
    by (auto simp: putGoalState_def Let_def split: if_splits)
  show "sp_valid sp st'" by (rule st'(2))
  have split: "?rs = take ?i ?rs @ drop ?i ?rs" by simp
  have "\<forall>x \<in> set (drop ?i ?rs). go_id r < go_id x"
    using pos(3) assms(2) by (metis in_set_dropD order_le_less)
  moreover have "sorted_wrt (<) (map go_id (take ?i ?rs @ drop ?i ?rs))" using assms(1) by (simp add: sortedGoals_def)
  ultimately have "sorted_wrt (<) (map go_id (take ?i ?rs @ r # drop ?i ?rs))"
    using pos(2) unfolding map_append list.map sorted_wrt_append sorted_wrt.simps by fastforce
  then show "sortedGoals (gs_records st')" by (simp add: st'(1) sortedGoals_def)
  have "set ?rs = set (take ?i ?rs) \<union> set (drop ?i ?rs)" by (metis set_append append_take_drop_id)
  then show "set (gs_records st') = insert r (set ?rs)" by (auto simp: st'(1))
  have "length (filter P ?rs) = length (filter P (take ?i ?rs)) + length (filter P (drop ?i ?rs))"
    by (metis filter_append length_append append_take_drop_id)
  then show "length (filter P (gs_records st')) = length (filter P ?rs) + (if P r then 1 else 0)"
    by (simp add: st'(1))
qed

section \<open>Replacing one record\<close>

definition openCount :: "goal_record list \<Rightarrow> nat" where
  "openCount rs = length (filter (\<lambda>r. \<not> isTerminal (go_status r)) rs)"

definition goalsOk :: "goal_spec \<Rightarrow> goal_record list \<Rightarrow> bool" where
  "goalsOk sp rs \<longleftrightarrow> sortedGoals rs \<and> openCount rs \<le> 1 \<and> (\<forall>r \<in> set rs. go_usage r \<le> sp_max sp)"

lemma goalsOk_replace:
  assumes "goalsOk sp (ys @ r # zs)" "go_id x = go_id r" "isTerminal (go_status r) \<Longrightarrow> isTerminal (go_status x)"
    "go_usage x \<le> sp_max sp"
  shows "goalsOk sp (ys @ x # zs)"
  using assms by (auto simp: goalsOk_def sortedGoals_def openCount_def split: if_splits)

lemma mutateFirst_split:
  "mutateFirst g m rs = Inr (rs', x) \<Longrightarrow>
     \<exists>ys r zs. rs = ys @ r # zs \<and> go_id r = g \<and> m r = Inr x \<and> rs' = ys @ x # zs"
proof (induction rs arbitrary: rs')
  case (Cons r rs)
  show ?case
  proof (cases "go_id r = g")
    case True
    with Cons.prems show ?thesis by (intro exI [of _ "[]"] exI [of _ r] exI [of _ rs]) auto
  next
    case False
    with Cons.prems obtain rs1 where "mutateFirst g m rs = Inr (rs1, x)" "rs' = r # rs1" by auto
    with Cons.IH obtain ys q zs where "rs = ys @ q # zs" "go_id q = g" "m q = Inr x" "rs' = (r # ys) @ x # zs"
      by force
    then show ?thesis by (intro exI [of _ "r # ys"] exI [of _ q] exI [of _ zs]) simp
  qed
qed simp

lemma chargeFirst_split:
  "find (\<lambda>r. go_id r = g) rs = Some r \<Longrightarrow>
     \<exists>ys zs. rs = ys @ r # zs \<and> go_id r = g \<and>
       chargeFirst g d now rs = ys @ r\<lparr>go_usage := go_usage r + d, go_updated := now\<rparr> # zs"
proof (induction rs)
  case (Cons q rs)
  show ?case
  proof (cases "go_id q = g")
    case True
    with Cons.prems show ?thesis by (intro exI [of _ "[]"] exI [of _ rs]) auto
  next
    case False
    with Cons obtain ys zs where "rs = ys @ r # zs" "go_id r = g"
      "chargeFirst g d now rs = ys @ r\<lparr>go_usage := go_usage r + d, go_updated := now\<rparr> # zs" by auto
    with False show ?thesis by (intro exI [of _ "q # ys"] exI [of _ zs]) simp
  qed
qed simp

lemma mergeEvidence_prefix: "prefix out (mergeEvidence out es)"
proof (induction out es rule: mergeEvidence.induct)
  case (2 out e es)
  let ?o = "if trim_space e \<noteq> [] \<and> trim_space e \<notin> set out then out @ [trim_space e] else out"
  have "prefix out ?o" by simp
  also have "prefix ?o (mergeEvidence ?o es)" by (rule 2)
  finally show ?case by simp
qed simp

lemma validGoalTransition_terminal: "validGoalTransition a b \<Longrightarrow> isTerminal a \<Longrightarrow> b = a"
  by (auto simp: validGoalTransition_def isTerminal_def split: if_splits)

interpretation goal_lifecycle: lifecycle isTerminal validGoalTransition
  by unfold_locales (rule validGoalTransition_terminal)

text \<open>What an update keeps of its record.\<close>

lemma updateRecord_facts:
  assumes "updateRecord now i r = Inr x"
  shows "go_id x = go_id r" "go_objective x = go_objective r" "go_created x = go_created r"
    "go_budget x = go_budget r" "go_usage x = go_usage r" "prefix (go_evidence r) (go_evidence x)"
    "validGoalTransition (go_status r) (go_status x)"
    "go_status x = GoalBlocked \<longleftrightarrow> go_blocked x \<noteq> []"
    "isTerminal (go_status x) \<longleftrightarrow> go_completed x \<noteq> NoStamp"
  using assms mergeEvidence_prefix
  by (auto simp: updateRecord_def Let_def isTerminal_def split: if_splits)

text \<open>The largest charge fits: no wrap-around.\<close>

lemma charge_fits:
  fixes u d m :: "64 word"
  assumes "u \<le> m" "d \<le> m - u"
  shows "u + d \<le> m" "unat (u + d) = unat u + unat d" "u \<le> u + d"
proof -
  have "unat u + unat d \<le> unat m"
    using assms by (simp add: word_le_nat_alt unat_sub)
  moreover have "unat m < 2 ^ 64" using unsigned_less [of m] by simp
  ultimately show un: "unat (u + d) = unat u + unat d"
    by (simp add: unat_word_ariths)
  show "u + d \<le> m" "u \<le> u + d"
    using un \<open>unat u + unat d \<le> unat m\<close> by (simp_all add: word_le_nat_alt)
qed

section \<open>The store as a transition system\<close>

datatype goal_op =
    GCreate bool io_env time "string option" create_input
  | GUpdate bool io_env time string update_input
  | GCharge bool io_env time string string "64 word"

record goal_world =
  gw_file :: goal_file
  gw_charges :: "(string \<times> string \<times> 64 word) list"

definition newGoalWorld :: goal_world where
  "newGoalWorld = \<lparr>gw_file = NoGoalFile, gw_charges = []\<rparr>"

fun goal_step :: "goal_spec \<Rightarrow> string \<Rightarrow> string \<Rightarrow> goal_op \<Rightarrow> goal_world \<Rightarrow> goal_world" where
  "goal_step sp w s (GCreate ctx io now k i) x = x\<lparr>gw_file := fst (createGoal sp ctx io w s now k i (gw_file x))\<rparr>"
| "goal_step sp w s (GUpdate ctx io now g i) x =
     x\<lparr>gw_file := fst (mutateGoals sp ctx io w s (updateMutation now g i) (gw_file x))\<rparr>"
| "goal_step sp w s (GCharge ctx io now g msg d) x =
     (case accountUsage sp ctx io w s now g msg d (gw_file x) of
        (f, Inr (r, True)) \<Rightarrow> x\<lparr>gw_file := f, gw_charges := gw_charges x @ [(g, msg, d)]\<rparr>
      | (f, _) \<Rightarrow> x\<lparr>gw_file := f\<rparr>)"

text \<open>The charges of one goal: the messages in order, and their sum.\<close>

definition chargedMessages :: "string \<Rightarrow> (string \<times> string \<times> 64 word) list \<Rightarrow> string list" where
  "chargedMessages g cs = map (\<lambda>c. fst (snd c)) (filter (\<lambda>c. fst c = g) cs)"

definition chargedTokens :: "string \<Rightarrow> (string \<times> string \<times> 64 word) list \<Rightarrow> nat" where
  "chargedTokens g cs = (\<Sum>c \<leftarrow> filter (\<lambda>c. fst c = g) cs. unat (snd (snd c)))"

lemma charged_simps [simp]:
  "chargedMessages g [] = []" "chargedTokens g [] = 0"
  "chargedMessages g (cs @ [(h, m, d)]) = chargedMessages g cs @ (if h = g then [m] else [])"
  "chargedTokens g (cs @ [(h, m, d)]) = chargedTokens g cs + (if h = g then unat d else 0)"
  by (simp_all add: chargedMessages_def chargedTokens_def)

lemma charged_none: "chargedMessages g cs = [] \<Longrightarrow> chargedTokens g cs = 0"
  by (auto simp: chargedMessages_def chargedTokens_def)

definition goalStateOk ::
  "goal_spec \<Rightarrow> string \<Rightarrow> string \<Rightarrow> (string \<times> string \<times> 64 word) list \<Rightarrow> goal_file_state \<Rightarrow> bool" where
  "goalStateOk sp w s cs st \<longleftrightarrow>
     gf_version st = fileStoreSchemaVersion \<and> gf_workspace st = w \<and> gf_session st = s \<and>
     goalsOk sp (gs_records (gf_state st)) \<and>
     distinct (map fst (gf_accounted st)) \<and> validateAccountedMessages st = Inr () \<and>
     (\<forall>g. refsOf st g = chargedMessages g cs) \<and>
     (\<forall>r \<in> set (gs_records (gf_state st)). unat (go_usage r) = chargedTokens (go_id r) cs)"

definition goalWorldOk :: "goal_spec \<Rightarrow> string \<Rightarrow> string \<Rightarrow> goal_world \<Rightarrow> bool" where
  "goalWorldOk sp w s x \<longleftrightarrow>
     (case gw_file x of
        NoGoalFile \<Rightarrow> gw_charges x = []
      | UndecodableGoals \<Rightarrow> False
      | GoalFile st \<Rightarrow> goalStateOk sp w s (gw_charges x) st \<and> sp_valid sp (gf_state st))"

section \<open>Preservation\<close>

lemma validateAccounted_iff:
  "validateAccountedMessages st = Inr u \<longleftrightarrow>
     (\<forall>e \<in> set (gf_accounted st). validAccounted (map go_id (gs_records (gf_state st))) e)"
  by (simp add: validateAccountedMessages_def list_all_iff)

lemma refsOf_unknown:
  assumes "validateAccountedMessages st = Inr u" "g \<notin> go_id ` set (gs_records (gf_state st))"
  shows "refsOf st g = []"
proof (cases "map_of (gf_accounted st) g")
  case (Some refs)
  with assms(1) have "validAccounted (map go_id (gs_records (gf_state st))) (g, refs)"
    unfolding validateAccounted_iff by (auto dest: map_of_SomeD)
  with assms(2) show ?thesis by (simp add: validAccounted_def)
qed (simp add: refsOf_def)

lemma newGoalState_ok: "goalStateOk sp w s [] (newGoalState sp w s)"
  by (simp add: goalStateOk_def newGoalState_def goalsOk_def sortedGoals_def openCount_def
      validateAccountedMessages_def refsOf_def)

lemma loadGoals_ok:
  "goalWorldOk sp w s x \<Longrightarrow> loadGoals sp io w s (gw_file x) = Inr st \<Longrightarrow> goalStateOk sp w s (gw_charges x) st"
  by (auto simp: goalWorldOk_def loadGoals_def checkGoalState_def newGoalState_ok split: goal_file.splits if_splits)

text \<open>New records in the place of the old ones, with the same charges.\<close>

lemma goalStateOk_records:
  assumes "goalStateOk sp w s cs st" "goalsOk sp (gs_records gs)"
    "go_id ` set (gs_records (gf_state st)) \<subseteq> go_id ` set (gs_records gs)"
    "\<forall>r \<in> set (gs_records gs). unat (go_usage r) = chargedTokens (go_id r) cs"
  shows "goalStateOk sp w s cs (st\<lparr>gf_state := gs\<rparr>)"
proof -
  have "validateAccountedMessages (st\<lparr>gf_state := gs\<rparr>) = Inr ()"
    using assms(1,3) unfolding goalStateOk_def validateAccounted_iff by (fastforce simp: validAccounted_def)
  moreover have "refsOf (st\<lparr>gf_state := gs\<rparr>) g = refsOf st g" for g by (simp add: refsOf_def)
  ultimately show ?thesis using assms unfolding goalStateOk_def by simp
qed

lemma goalStateOk_parts:
  assumes "goalStateOk sp w s cs st"
  shows "goalsOk sp (gs_records (gf_state st))" "validateAccountedMessages st = Inr ()"
    "refsOf st g = chargedMessages g cs"
    "r \<in> set (gs_records (gf_state st)) \<Longrightarrow> unat (go_usage r) = chargedTokens (go_id r) cs"
  using assms unfolding goalStateOk_def by blast+

lemma openGoal_none: "\<not> hasOpenGoal rs \<Longrightarrow> openCount rs = 0"
  by (auto simp: hasOpenGoal_def openCount_def list_ex_iff filter_empty_conv)

lemma createMutation_ok:
  assumes "goalStateOk sp w s cs st" "createMutation sp (newGoalRecord k now i) (gf_state st) = Inr (gs, r)"
  shows "goalStateOk sp w s cs (st\<lparr>gf_state := gs\<rparr>)"
    "set (gs_records gs) = insert r (set (gs_records (gf_state st)))" "\<not> hasOpenGoal (gs_records (gf_state st))"
    "r = newGoalRecord k now i" "go_id r \<notin> go_id ` set (gs_records (gf_state st))"
proof -
  let ?rs = "gs_records (gf_state st)" and ?r = "newGoalRecord k now i"
  from assms(2) have new: "\<forall>x \<in> set ?rs. go_id x \<noteq> go_id ?r" "\<not> hasOpenGoal ?rs"
    "putGoalState sp ?r (gf_state st) = Inr gs" "r = ?r"
    by (auto simp: createMutation_def list_ex_iff split: if_splits)
  note ok = goalStateOk_parts [OF assms(1)]
  have sorted: "sortedGoals ?rs" using ok(1) by (simp add: goalsOk_def)
  note put = putGoalState_new [OF sorted new(1) new(3)]
  show "set (gs_records gs) = insert r (set ?rs)" "\<not> hasOpenGoal ?rs" "r = ?r" using put(3) new(2,4) by simp_all
  show fresh: "go_id r \<notin> go_id ` set ?rs" using new(1,4) by auto
  have "openCount (gs_records gs) \<le> openCount ?rs + 1" unfolding openCount_def put(4) by simp
  then have "goalsOk sp (gs_records gs)"
    using ok(1) put(2,3) openGoal_none [OF new(2)] by (auto simp: goalsOk_def newGoalRecord_def)
  moreover have "chargedTokens (go_id ?r) cs = 0"
    using refsOf_unknown [OF ok(2) fresh] new(4) ok(3) charged_none by metis
  then have "\<forall>x \<in> set (gs_records gs). unat (go_usage x) = chargedTokens (go_id x) cs"
    using put(3) ok(4) by (auto simp: newGoalRecord_def)
  ultimately show "goalStateOk sp w s cs (st\<lparr>gf_state := gs\<rparr>)"
    using put(3) by (intro goalStateOk_records [OF assms(1)]) auto
qed

lemma updateMutation_split:
  assumes "updateMutation now g i gs = Inr (gs', x)"
  shows "\<exists>ys r zs. gs_records gs = ys @ r # zs \<and> go_id r = g \<and> updateRecord now i r = Inr x \<and>
    gs' = gs\<lparr>gs_records := ys @ x # zs\<rparr>"
  using assms mutateFirst_split by (fastforce simp: updateMutation_def)

lemma updateMutation_ok:
  assumes "goalStateOk sp w s cs st" "updateMutation now g i (gf_state st) = Inr (gs, x)"
  shows "goalStateOk sp w s cs (st\<lparr>gf_state := gs\<rparr>)"
proof -
  note ok = goalStateOk_parts [OF assms(1)]
  from updateMutation_split [OF assms(2)] obtain ys r zs where
    rs: "gs_records (gf_state st) = ys @ r # zs" "gs_records gs = ys @ x # zs" and u: "updateRecord now i r = Inr x"
    by auto
  note f = updateRecord_facts [OF u]
  have "goalsOk sp (gs_records gs)"
    unfolding rs(2)
  proof (rule goalsOk_replace)
    show "goalsOk sp (ys @ r # zs)" using ok(1) rs(1) by simp
    show "isTerminal (go_status r) \<Longrightarrow> isTerminal (go_status x)" using validGoalTransition_terminal [OF f(7)] by metis
    show "go_usage x \<le> sp_max sp" using ok(1) rs(1) f(5) by (simp add: goalsOk_def)
  qed (rule f(1))
  moreover have "\<forall>q \<in> set (gs_records gs). unat (go_usage q) = chargedTokens (go_id q) cs"
    using ok(4) rs f(1,5) by auto
  ultimately show ?thesis
    using rs f(1) by (intro goalStateOk_records [OF assms(1)]) auto
qed

lemma accountGoalUsageState_cases:
  assumes "accountGoalUsageState sp g msg d now st = Inr (st', r, charged)"
  obtains (known) ys q zs where "gs_records (gf_state st) = ys @ q # zs" "go_id q = g" "\<not> charged" "st' = st" "r = q"
      "msg \<in> set (refsOf st g)"
    | (charge) ys q zs where "gs_records (gf_state st) = ys @ q # zs" "go_id q = g" "charged"
      "msg \<notin> set (refsOf st g)" "length (refsOf st g) < maxAccountedMessageRefs"
      "d \<le> sp_max sp - go_usage q" "r = q\<lparr>go_usage := go_usage q + d, go_updated := now\<rparr>"
      "st' = st\<lparr>gf_state := (gf_state st)\<lparr>gs_records := ys @ r # zs\<rparr>,
         gf_accounted := AList.update g (refsOf st g @ [msg]) (gf_accounted st)\<rparr>"
      "sp_valid sp (gf_state st')"
proof -
  from assms obtain q where q: "find (\<lambda>r. go_id r = g) (gs_records (gf_state st)) = Some q"
    by (cases "find (\<lambda>r. go_id r = g) (gs_records (gf_state st))") (simp_all add: accountGoalUsageState_def)
  let ?r = "q\<lparr>go_usage := go_usage q + d, go_updated := now\<rparr>"
  from chargeFirst_split [OF q] obtain ys zs where
    rs: "gs_records (gf_state st) = ys @ q # zs" "go_id q = g"
      "chargeFirst g d now (gs_records (gf_state st)) = ys @ ?r # zs"
    by blast
  note def = assms [unfolded accountGoalUsageState_def q option.case Let_def rs(3)]
  show thesis
  proof (cases "msg \<in> set (refsOf st g)")
    case True
    with def have "\<not> charged" "st' = st" "r = q" by simp_all
    with rs(1,2) True known show thesis by blast
  next
    case False
    have len: "length (refsOf st g) < maxAccountedMessageRefs"
      by (rule ccontr) (use def False in simp)
    have fit: "d \<le> sp_max sp - go_usage q"
      by (rule ccontr) (use def False len in \<open>simp add: not_le\<close>)
    have "sp_valid sp ((gf_state st)\<lparr>gs_records := ys @ ?r # zs\<rparr>)"
      by (rule ccontr) (use def False len fit in \<open>simp add: not_less [symmetric]\<close>)
    moreover from this def False len fit have "charged" "r = ?r"
      "st' = st\<lparr>gf_state := (gf_state st)\<lparr>gs_records := ys @ ?r # zs\<rparr>,
         gf_accounted := AList.update g (refsOf st g @ [msg]) (gf_accounted st)\<rparr>"
      by (auto simp: not_less [symmetric])
    ultimately show thesis using rs(1,2) False len fit charge [of ys q zs] by simp
  qed
qed

lemma accountGoalUsageState_ok:
  assumes "goalStateOk sp w s cs st" "accountGoalUsageState sp g msg d now st = Inr (st', r, True)" "msg \<noteq> []"
  shows "goalStateOk sp w s (cs @ [(g, msg, d)]) st'"
proof -
  note ok = goalStateOk_parts [OF assms(1)]
  show ?thesis
    using assms(2)
  proof (cases rule: accountGoalUsageState_cases)
    case known
    then show ?thesis by simp
  next
    case (charge ys q zs)
    note rs = charge(1,2) and c = charge(4,5,6,7) and st' = charge(8)
    have "go_usage q \<le> sp_max sp" using ok(1) rs(1) by (simp add: goalsOk_def)
    note fits = charge_fits [OF this c(3)]
    have rq: "go_usage r = go_usage q + d" "go_id r = go_id q" "go_status r = go_status q"
      by (simp_all add: c(4))
    have goals: "goalsOk sp (ys @ r # zs)"
    proof (rule goalsOk_replace [where r = q])
      show "goalsOk sp (ys @ q # zs)" using ok(1) unfolding rs(1) .
      show "go_usage r \<le> sp_max sp" unfolding rq(1) by (rule fits(1))
    qed (simp_all only: rq)
    have distinct_refs: "distinct (refsOf st g) \<and> [] \<notin> set (refsOf st g)"
    proof (cases "map_of (gf_accounted st) g")
      case (Some refs)
      with ok(2) have "validAccounted (map go_id (gs_records (gf_state st))) (g, refs)"
        unfolding validateAccounted_iff by (auto dest: map_of_SomeD)
      with Some show ?thesis by (simp add: refsOf_def validAccounted_def)
    qed (simp add: refsOf_def)
    have dk: "distinct (map fst (gf_accounted st))" using assms(1) by (simp add: goalStateOk_def)
    have acc: "validateAccountedMessages st' = Inr ()"
      unfolding validateAccounted_iff
    proof
      fix e
      assume "e \<in> set (gf_accounted st')"
      then have "e = (g, refsOf st g @ [msg]) \<or> e \<in> set (gf_accounted st)"
        using update_entry_cases [OF dk, of "fst e" "snd e" g "refsOf st g @ [msg]"] by (auto simp: st' prod_eq_iff)
      then show "validAccounted (map go_id (gs_records (gf_state st'))) e"
      proof
        assume "e = (g, refsOf st g @ [msg])"
        then show ?thesis using c distinct_refs assms(3) rs by (auto simp: validAccounted_def st')
      next
        assume "e \<in> set (gf_accounted st)"
        with ok(2) rs c(4) show ?thesis unfolding validateAccounted_iff by (fastforce simp: validAccounted_def st')
      qed
    qed
    have refs: "refsOf st' h = chargedMessages h (cs @ [(g, msg, d)])" for h
      using ok(3) [of h] ok(3) [of g] by (simp add: refsOf_def st')
    have "distinct (map go_id (ys @ q # zs))"
      using ok(1) sortedGoals_distinct unfolding rs(1) goalsOk_def by blast
    then have "g \<notin> go_id ` set ys" "g \<notin> go_id ` set zs" using rs(2) by simp_all
    then have uniq: "\<forall>x \<in> set ys \<union> set zs. go_id x \<noteq> g" by blast
    have "unat (go_usage x) = chargedTokens (go_id x) (cs @ [(g, msg, d)])" if "x \<in> set (ys @ r # zs)" for x
    proof (cases "x = r")
      case True
      then show ?thesis using ok(4) [of q] rs fits(2) by (simp add: c(4))
    next
      case False
      with that have "x \<in> set ys \<union> set zs" by auto
      then show ?thesis using uniq ok(4) [of x] rs(1) by auto
    qed
    with goals acc refs dk assms(1) show ?thesis
      unfolding goalStateOk_def by (simp add: st' distinct_update)
  qed
qed

section \<open>Every run\<close>

lemma mutateGoals_cases:
  assumes "mutateGoals sp ctx io w s m f = (f', res)"
  obtains (same) "f' = f"
    | (written) st gs r where "loadGoals sp io w s f = Inr st" "m (gf_state st) = Inr (gs, r)" "sp_valid sp gs"
      "f' = GoalFile (st\<lparr>gf_state := gs\<rparr>)" "res = Inr r"
proof (cases "f' = f")
  case False
  with assms obtain st gs r where "loadGoals sp io w s f = Inr st" "m (gf_state st) = Inr (gs, r)" "sp_valid sp gs"
    "(f', res) = persistGoals io (st\<lparr>gf_state := gs\<rparr>) r f"
    by (auto simp: mutateGoals_def split: if_splits sum.splits prod.splits)
  with False written show thesis by (auto simp: persistGoals_def split: if_splits)
qed (rule same)

lemma accountUsage_cases:
  assumes "accountUsage sp ctx io w s now g msg d f = (f', res)"
  obtains (same) "f' = f" "\<And>r. res \<noteq> Inr (r, True)"
    | (charged) st st' r where "loadGoals sp io w s f = Inr st"
      "accountGoalUsageState sp g msg d (format_stamp now) st = Inr (st', r, True)" "msg \<noteq> []"
      "f' = GoalFile st'" "res = Inr (r, True)"
proof (cases "\<exists>st st' r. loadGoals sp io w s f = Inr st \<and> msg \<noteq> [] \<and> f' = GoalFile st' \<and> res = Inr (r, True) \<and>
    accountGoalUsageState sp g msg d (format_stamp now) st = Inr (st', r, True)")
  case True
  then show thesis by (elim exE conjE) (rule charged)
next
  case False
  have m: "trim_space msg \<noteq> [] \<Longrightarrow> msg \<noteq> []" by auto
  show thesis
  proof (rule same)
    show "f' = f" and "res \<noteq> Inr (r, True)" for r
      using assms False m
      by (simp_all add: accountUsage_def accountGoalUsage_def persistGoals_def split: if_splits sum.splits prod.splits)
        (auto split: if_splits sum.splits prod.splits)
  qed
qed

definition goalsOf :: "goal_world \<Rightarrow> goal_record list" where
  "goalsOf x = (case gw_file x of GoalFile st \<Rightarrow> gs_records (gf_state st) | _ \<Rightarrow> [])"

text \<open>What later states keep of a goal.\<close>

definition goalKept :: "goal_record \<Rightarrow> goal_record \<Rightarrow> bool" where
  "goalKept r r' \<longleftrightarrow>
     go_id r' = go_id r \<and> go_objective r' = go_objective r \<and> go_created r' = go_created r \<and>
     go_budget r' = go_budget r \<and> (isTerminal (go_status r) \<longrightarrow> go_status r' = go_status r) \<and>
     go_usage r \<le> go_usage r' \<and> prefix (go_evidence r) (go_evidence r')"

definition goalWorldKept :: "goal_world \<Rightarrow> goal_world \<Rightarrow> bool" where
  "goalWorldKept x x' \<longleftrightarrow> (\<forall>r \<in> set (goalsOf x). \<exists>r' \<in> set (goalsOf x'). goalKept r r') \<and>
     prefix (gw_charges x) (gw_charges x')"

lemma goalKept_refl [simp]: "goalKept r r"
  by (simp add: goalKept_def)

lemma goalKept_trans: "goalKept r q \<Longrightarrow> goalKept q p \<Longrightarrow> goalKept r p"
  unfolding goalKept_def by (metis order_trans prefix_order.trans)

lemma goalKept_replaced:
  "goalKept q r \<Longrightarrow> p \<in> set (ys @ q # zs) \<Longrightarrow> \<exists>r' \<in> set (ys @ r # zs). goalKept p r'"
  unfolding set_append set_simps by (blast intro: goalKept_refl)

lemma goalWorldKept_refl: "goalWorldKept x x"
  unfolding goalWorldKept_def using goalKept_refl by blast

lemma goalWorldKept_trans: "goalWorldKept x y \<Longrightarrow> goalWorldKept y z \<Longrightarrow> goalWorldKept x z"
  unfolding goalWorldKept_def by (meson goalKept_trans prefix_order.trans)

lemma loaded_records:
  "goalWorldOk sp w s x \<Longrightarrow> loadGoals sp io w s (gw_file x) = Inr st \<Longrightarrow> gs_records (gf_state st) = goalsOf x"
  by (auto simp: goalWorldOk_def loadGoals_def checkGoalState_def newGoalState_def goalsOf_def
      split: goal_file.splits if_splits)

lemma goalWorld_written:
  assumes "goalStateOk sp w s cs st" "sp_valid sp (gf_state st)"
    "\<And>r. r \<in> set (goalsOf x) \<Longrightarrow> \<exists>r' \<in> set (gs_records (gf_state st)). goalKept r r'" "prefix (gw_charges x) cs"
    "y = x\<lparr>gw_file := GoalFile st, gw_charges := cs\<rparr>"
  shows "goalWorldOk sp w s y \<and> goalWorldKept x y"
  using assms by (simp add: goalWorldOk_def goalWorldKept_def goalsOf_def)

lemma goal_step_ok:
  assumes ok: "goalWorldOk sp w s x"
  shows "goalWorldOk sp w s (goal_step sp w s a x) \<and> goalWorldKept x (goal_step sp w s a x)"
proof (cases a)
  case (GCreate ctx io now k i)
  have still: "goalWorldOk sp w s (x\<lparr>gw_file := gw_file x\<rparr>) \<and> goalWorldKept x (x\<lparr>gw_file := gw_file x\<rparr>)"
    using ok goalWorldKept_refl by simp
  obtain f' res where c: "createGoal sp ctx io w s now k i (gw_file x) = (f', res)" by fastforce
  have "goalWorldOk sp w s (x\<lparr>gw_file := f'\<rparr>) \<and> goalWorldKept x (x\<lparr>gw_file := f'\<rparr>)"
  proof (cases "f' = gw_file x")
    case False
    with c obtain g where "mutateGoals sp ctx io w s (createMutation sp (newGoalRecord g now i)) (gw_file x) = (f', res)"
      by (auto simp: createGoal_def split: sum.splits option.splits)
    then show ?thesis
    proof (cases rule: mutateGoals_cases)
      case same
      with False show ?thesis by simp
    next
      case (written st gs r)
      note new = createMutation_ok [OF loadGoals_ok [OF ok written(1)] written(2)]
      have "\<exists>r' \<in> set (gs_records gs). goalKept p r'" if "p \<in> set (goalsOf x)" for p
        using that new(2) loaded_records [OF ok written(1)] by (intro bexI [of _ p]) simp_all
      with written(3,4) show ?thesis
        by (intro goalWorld_written [OF new(1)]) auto
    qed
  qed (use still in simp)
  with c GCreate show ?thesis by simp
next
  case (GUpdate ctx io now g i)
  obtain f' res where c: "mutateGoals sp ctx io w s (updateMutation now g i) (gw_file x) = (f', res)" by fastforce
  then have "goalWorldOk sp w s (x\<lparr>gw_file := f'\<rparr>) \<and> goalWorldKept x (x\<lparr>gw_file := f'\<rparr>)"
  proof (cases rule: mutateGoals_cases)
    case same
    with ok goalWorldKept_refl show ?thesis by simp
  next
    case (written st gs r)
    from updateMutation_split [OF written(2)] obtain ys q zs where
      rs: "gs_records (gf_state st) = ys @ q # zs" "gs_records gs = ys @ r # zs" and u: "updateRecord now i q = Inr r"
      by auto
    have "goalKept q r"
      using updateRecord_facts [OF u] validGoalTransition_terminal by (simp add: goalKept_def)
    then have "\<exists>r' \<in> set (gs_records gs). goalKept p r'" if "p \<in> set (goalsOf x)" for p
      using that unfolding loaded_records [OF ok written(1), symmetric] rs by (rule goalKept_replaced)
    with written(3,4) show ?thesis
      by (intro goalWorld_written [OF updateMutation_ok [OF loadGoals_ok [OF ok written(1)] written(2)]]) auto
  qed
  with c GUpdate show ?thesis by simp
next
  case (GCharge ctx io now g msg d)
  obtain f' res where c: "accountUsage sp ctx io w s now g msg d (gw_file x) = (f', res)" by fastforce
  then show ?thesis
  proof (cases rule: accountUsage_cases)
    case same
    with c GCharge ok goalWorldKept_refl show ?thesis by (auto split: sum.splits prod.splits bool.splits)
  next
    case (charged st st' r)
    have st: "goalStateOk sp w s (gw_charges x) st" by (rule loadGoals_ok [OF ok charged(1)])
    have "sp_valid sp (gf_state st') \<and> (\<forall>p \<in> set (goalsOf x). \<exists>r' \<in> set (gs_records (gf_state st')). goalKept p r')"
      using charged(2)
    proof (cases rule: accountGoalUsageState_cases)
      case (charge ys q zs)
      have "go_usage q \<le> sp_max sp"
        using goalStateOk_parts(1) [OF st] unfolding charge(1) goalsOk_def by simp
      then have "go_usage q \<le> go_usage q + d" by (rule charge_fits(3) [OF _ charge(6)])
      then have kept: "goalKept q r" unfolding goalKept_def charge(7) by simp
      have "gs_records (gf_state st') = ys @ r # zs" unfolding charge(8) by simp
      with goalKept_replaced [OF kept, of _ ys zs] show ?thesis
        using charge(1,9) loaded_records [OF ok charged(1)] by (simp only:) blast
    qed simp
    then have "goalWorldOk sp w s (x\<lparr>gw_file := f', gw_charges := gw_charges x @ [(g, msg, d)]\<rparr>) \<and>
        goalWorldKept x (x\<lparr>gw_file := f', gw_charges := gw_charges x @ [(g, msg, d)]\<rparr>)"
      using charged(4) by (intro goalWorld_written [OF accountGoalUsageState_ok [OF st charged(2,3)]]) auto
    with c charged(5) GCharge show ?thesis by simp
  qed
qed

interpretation goal_history: monotone_machine newGoalWorld "goal_step sp w s" "goalWorldOk sp w s" goalWorldKept
  for sp w s
proof unfold_locales
  show "goalWorldOk sp w s newGoalWorld" by (simp add: goalWorldOk_def newGoalWorld_def)
  show "goalWorldOk sp w s x \<Longrightarrow> goalWorldOk sp w s (goal_step sp w s a x)" for x a using goal_step_ok by blast
  show "goalWorldOk sp w s x \<Longrightarrow> goalWorldKept x (goal_step sp w s a x)" for x a using goal_step_ok by blast
  show "goalWorldKept x x" for x by (rule goalWorldKept_refl)
  show "goalWorldKept x y \<Longrightarrow> goalWorldKept y z \<Longrightarrow> goalWorldKept x z" for x y z by (rule goalWorldKept_trans)
qed

end
