(* ===== verification/GoalLedgerProofs.thy ===== *)
theory GoalLedgerProofs
  imports GoalLedger
begin

text \<open>
  The continuation ledger keeps what it recorded, numbers its records without gaps, and lets
  exactly one caller decide a turn of a goal, in the file ledger and across replicas.
\<close>

section \<open>One append\<close>

lemma validateRecordsFrom_append:
  "validateRecordsFrom js w s want (rs @ rs') =
     and_then (validateRecordsFrom js w s want rs) (\<lambda>n. validateRecordsFrom js w s n rs')"
  by (induction js w s want rs rule: validateRecordsFrom.induct) auto

lemma prepareDecisionRecord_facts [simp]:
  "de_sequence (prepareDecisionRecord r n w s now) = n" "de_workspace (prepareDecisionRecord r n w s now) = w"
  "de_session (prepareDecisionRecord r n w s now) = s" "de_goal (prepareDecisionRecord r n w s now) = de_goal r"
  "de_turn (prepareDecisionRecord r n w s now) = de_turn r" "de_action (prepareDecisionRecord r n w s now) = de_action r"
  "de_reason (prepareDecisionRecord r n w s now) = de_reason r" "de_message (prepareDecisionRecord r n w s now) = de_message r"
  "de_request (prepareDecisionRecord r n w s now) = de_request r"
  by (simp_all add: prepareDecisionRecord_def)

text \<open>A state that validates: the header fits and the loop arrives at the next sequence number.\<close>

lemma validateLedgerState_iff:
  "validateLedgerState js w s st = Inr () \<longleftrightarrow>
     dl_version st = continuationLedgerSchemaVersion \<and> dl_workspace st = w \<and> dl_session st = s \<and>
     validateRecordsFrom js w s 1 (dl_records st) = Inr (dl_next st)"
  by (auto simp: validateLedgerState_def)

lemma newLedgerState_valid: "validateLedgerState js w s (newLedgerState w s) = Inr ()"
  by (simp add: validateLedgerState_iff newLedgerState_def)

lemma appendDecision_ok:
  assumes "validateLedgerState js w s st = Inr ()" "appendDecision js w s now r st = Inr (st', p)"
  shows "validateLedgerState js w s st' = Inr ()" "dl_records st' = dl_records st @ [p]"
    "p = prepareDecisionRecord r (dl_next st) w s now"
proof -
  have p: "p = prepareDecisionRecord r (dl_next st) w s now" "validateDecisionRecord js p = Inr ()"
    "st' = st\<lparr>dl_records := dl_records st @ [p], dl_next := dl_next st + 1\<rparr>"
    using assms(2) by (auto simp: appendDecision_def Let_def)
  show "p = prepareDecisionRecord r (dl_next st) w s now" by (rule p(1))
  show "dl_records st' = dl_records st @ [p]" by (simp add: p(3))
  have "de_sequence p = dl_next st" "de_workspace p = w" "de_session p = s" by (simp_all add: p(1))
  then show "validateLedgerState js w s st' = Inr ()"
    using assms(1) p(2) by (simp add: validateLedgerState_iff p(3) validateRecordsFrom_append)
qed

text \<open>The sequence numbers of a valid state count from one and do not wrap around.\<close>

lemma validateRecordsFrom_sequence:
  "validateRecordsFrom js w s want rs = Inr n \<Longrightarrow> i < length rs \<Longrightarrow>
     de_sequence (rs ! i) = want + of_nat i \<and> de_sequence (rs ! i) \<noteq> 0 \<and> de_workspace (rs ! i) = w \<and>
     de_session (rs ! i) = s \<and> validateDecisionRecord js (rs ! i) = Inr ()"
proof (induction js w s want rs arbitrary: i rule: validateRecordsFrom.induct)
  case (2 js w s want r rs)
  from "2.prems"(1) have r: "de_sequence r = want" "de_workspace r = w" "de_session r = s"
    "validateDecisionRecord js r = Inr ()" "validateRecordsFrom js w s (want + 1) rs = Inr n"
    by (auto split: if_splits)
  then have "de_sequence r \<noteq> 0" by (auto simp: validateDecisionRecord_def first_error_ok_iff)
  show ?case
  proof (cases i)
    case 0
    with r \<open>de_sequence r \<noteq> 0\<close> show ?thesis by simp
  next
    case (Suc k)
    then have k: "k < length rs" using "2.prems"(2) by simp
    have "(r # rs) ! i = rs ! k" "want + of_nat i = want + 1 + of_nat k" using Suc by simp_all
    then show ?thesis using "2.IH" r k by (simp only:) blast
  qed
qed simp

lemma ledger_sequences:
  assumes "validateLedgerState js w s st = Inr ()" "i < length (dl_records st)"
  shows "unat (de_sequence (dl_records st ! i)) = i + 1"
proof -
  have seq: "de_sequence (dl_records st ! j) = of_nat (j + 1) \<and> de_sequence (dl_records st ! j) \<noteq> 0"
    if "j < length (dl_records st)" for j
  proof -
    have "validateRecordsFrom js w s 1 (dl_records st) = Inr (dl_next st)"
      using assms(1) by (simp add: validateLedgerState_iff)
    note f = validateRecordsFrom_sequence [OF this that]
    have "1 + of_nat j = (of_nat (j + 1) :: 64 word)" by simp
    then show ?thesis using f by metis
  qed
  have small: "length (dl_records st) < 2 ^ 64"
  proof (rule ccontr)
    assume "\<not> length (dl_records st) < 2 ^ 64"
    then have "2 ^ 64 - 1 < length (dl_records st)" by simp
    from seq [OF this] have "(of_nat (2 ^ 64 - 1 + 1) :: 64 word) \<noteq> 0" by metis
    moreover have "(of_nat (2 ^ 64 - 1 + 1) :: 64 word) = 0" unfolding word_of_nat_eq_0_iff by simp
    ultimately show False by contradiction
  qed
  have "unat (of_nat (i + 1) :: 64 word) = i + 1"
    unfolding unat_of_nat using assms(2) small by simp
  with seq [OF assms(2)] show ?thesis by simp
qed

section \<open>Runs of the file ledger\<close>

datatype ledger_op =
    LedgerAppend bool io_env time decision_record
  | LedgerFirst bool io_env time decision_record

text \<open>\<open>lw_admitted\<close> lists the turns whose first decision was reported as admitted.\<close>

record ledger_world =
  lw_file :: decision_file
  lw_admitted :: "(string \<times> string) list"

definition newLedgerWorld :: ledger_world where
  "newLedgerWorld = \<lparr>lw_file = NoDecisions, lw_admitted = []\<rparr>"

fun ledger_step :: "json_codec \<Rightarrow> string \<Rightarrow> string \<Rightarrow> ledger_op \<Rightarrow> ledger_world \<Rightarrow> ledger_world" where
  "ledger_step js w s (LedgerAppend ctx io now r) x =
     x\<lparr>lw_file := fst (fileAppendDecision js ctx io w s now r (lw_file x))\<rparr>"
| "ledger_step js w s (LedgerFirst ctx io now r) x =
     (case fileAppendFirstDecision js ctx io w s now r (lw_file x) of
        (f, Inr (d, True)) \<Rightarrow> x\<lparr>lw_file := f, lw_admitted := lw_admitted x @ [(de_goal r, de_turn r)]\<rparr>
      | (f, _) \<Rightarrow> x\<lparr>lw_file := f\<rparr>)"

definition decisionsOf :: "decision_file \<Rightarrow> decision_record list" where
  "decisionsOf f = (case f of DecisionFile st \<Rightarrow> dl_records st | _ \<Rightarrow> [])"

definition decisionTurn :: "decision_record \<Rightarrow> string \<times> string" where
  "decisionTurn r = (de_goal r, de_turn r)"

definition decisionFileOk :: "json_codec \<Rightarrow> string \<Rightarrow> string \<Rightarrow> decision_file \<Rightarrow> bool" where
  "decisionFileOk js w s f \<longleftrightarrow>
     (case f of NoDecisions \<Rightarrow> True | UndecodableDecisions \<Rightarrow> False | DecisionFile st \<Rightarrow> validateLedgerState js w s st = Inr ())"

lemma loadDecisions_ok:
  "decisionFileOk js w s f \<Longrightarrow> loadDecisions js io w s f = Inr st \<Longrightarrow>
     validateLedgerState js w s st = Inr () \<and> dl_records st = decisionsOf f"
  using newLedgerState_valid [of js w s]
  by (auto simp: decisionFileOk_def loadDecisions_def decisionsOf_def split: decision_file.splits if_splits)
    (simp add: newLedgerState_def)

lemma firstDecision_None:
  "firstDecisionForTurn rs g t = None \<longleftrightarrow> (g, t) \<notin> decisionTurn ` set rs"
  by (auto simp: firstDecisionForTurn_def find_None_iff decisionTurn_def image_iff)

lemma firstDecision_append:
  "firstDecisionForTurn rs g t = Some d \<Longrightarrow> firstDecisionForTurn (rs @ rs') g t = Some d"
  unfolding firstDecisionForTurn_def by (induction rs) auto

lemma firstDecision_new:
  "firstDecisionForTurn rs g t = None \<Longrightarrow>
     firstDecisionForTurn (rs @ [d]) g t = (if de_goal d = g \<and> de_turn d = t then Some d else None)"
  unfolding firstDecisionForTurn_def by (induction rs) (auto split: if_splits)

text \<open>What one append does to the file.\<close>

lemma appendLocked_cases:
  assumes "decisionFileOk js w s f" "loadDecisions js io w s f = Inr st" "appendLocked js io' w s now r st f = (f', res)"
  obtains (failed) e where "f' = f" "res = Inl e"
    | (appended) p where "res = Inr p" "decisionFileOk js w s f'" "decisionsOf f' = decisionsOf f @ [p]"
      "p = prepareDecisionRecord r (dl_next st) w s now"
proof (cases "appendDecision js w s now r st")
  case (Inl e)
  with assms(3) have "f' = f" "res = Inl e" by (simp_all add: appendLocked_def)
  then show thesis by (rule failed)
next
  case (Inr sp)
  obtain st' p where sp: "sp = (st', p)" by fastforce
  note load = loadDecisions_ok [OF assms(1,2)]
  note ok = appendDecision_ok [OF conjunct1 [OF load] Inr [unfolded sp]]
  show thesis
  proof (cases "io_write_fails io'")
    case True
    with assms(3) Inr sp have "f' = f" "res = Inl LedgerWrite" by (simp_all add: appendLocked_def)
    then show thesis by (rule failed)
  next
    case False
    with assms(3) Inr sp have "f' = DecisionFile st'" "res = Inr p" by (simp_all add: appendLocked_def)
    with ok load appended show thesis by (simp add: decisionFileOk_def decisionsOf_def)
  qed
qed

lemma fileAppendDecision_cases:
  assumes "decisionFileOk js w s f" "fileAppendDecision js ctx io w s now r f = (f', res)"
  obtains (failed) e where "f' = f" "res = Inl e"
    | (appended) p n where "res = Inr p" "decisionFileOk js w s f'" "decisionsOf f' = decisionsOf f @ [p]"
      "p = prepareDecisionRecord r n w s now"
proof (cases "and_then (validateLedgerIdentity ctx w s) (\<lambda>_. loadDecisions js io w s f)")
  case (Inl e)
  with assms(2) have "f' = f" "res = Inl e" by (simp_all add: fileAppendDecision_def)
  then show thesis by (rule failed)
next
  case (Inr st)
  with assms(2) have "loadDecisions js io w s f = Inr st" "appendLocked js io w s now r st f = (f', res)"
    by (auto simp: fileAppendDecision_def)
  from appendLocked_cases [OF assms(1) this] failed appended show thesis by metis
qed

lemma fileAppendFirstDecision_cases:
  assumes "decisionFileOk js w s f" "fileAppendFirstDecision js ctx io w s now r f = (f', res)"
  obtains (failed) e where "f' = f" "res = Inl e"
    | (known) d where "f' = f" "res = Inr (d, False)" "firstDecisionForTurn (decisionsOf f) (de_goal r) (de_turn r) = Some d"
    | (admitted) p n where "res = Inr (p, True)" "decisionFileOk js w s f'" "decisionsOf f' = decisionsOf f @ [p]"
      "p = prepareDecisionRecord r n w s now" "firstDecisionForTurn (decisionsOf f) (de_goal r) (de_turn r) = None"
proof (cases "and_then (validateLedgerIdentity ctx w s) (\<lambda>_. loadDecisions js io w s f)")
  case (Inl e)
  with assms(2) have "f' = f" "res = Inl e" by (simp_all add: fileAppendFirstDecision_def)
  then show thesis by (rule failed)
next
  case (Inr st)
  then have st: "loadDecisions js io w s f = Inr st" by simp
  note load = loadDecisions_ok [OF assms(1) st]
  obtain f1 res1 where a: "appendLocked js io w s now r st f = (f1, res1)" by fastforce
  show thesis
  proof (cases "firstDecisionForTurn (dl_records st) (de_goal r) (de_turn r)")
    case (Some d)
    with assms(2) Inr have "f' = f" "res = Inr (d, False)" by (simp_all add: fileAppendFirstDecision_def)
    with Some load known show thesis by simp
  next
    case None
    note none = this
    from assms(1) st a show thesis
    proof (cases rule: appendLocked_cases)
      case (failed e)
      with assms(2) Inr None a have "f' = f" "res = Inl e" by (simp_all add: fileAppendFirstDecision_def)
      then show thesis by (rule that(1))
    next
      case (appended p)
      with assms(2) Inr None a have "f' = f1" "res = Inr (p, True)" by (simp_all add: fileAppendFirstDecision_def)
      with appended none load show thesis by (intro that(3)) simp_all
    qed
  qed
qed

definition ledgerWorldOk :: "json_codec \<Rightarrow> string \<Rightarrow> string \<Rightarrow> ledger_world \<Rightarrow> bool" where
  "ledgerWorldOk js w s x \<longleftrightarrow> decisionFileOk js w s (lw_file x) \<and> distinct (lw_admitted x) \<and>
     set (lw_admitted x) \<subseteq> decisionTurn ` set (decisionsOf (lw_file x))"

definition ledgerKept :: "ledger_world \<Rightarrow> ledger_world \<Rightarrow> bool" where
  "ledgerKept x y \<longleftrightarrow> prefix (decisionsOf (lw_file x)) (decisionsOf (lw_file y)) \<and> prefix (lw_admitted x) (lw_admitted y)"

lemma ledger_step_ok:
  assumes "ledgerWorldOk js w s x"
  shows "ledgerWorldOk js w s (ledger_step js w s op x) \<and> ledgerKept x (ledger_step js w s op x)"
proof -
  have good: "decisionFileOk js w s (lw_file x)" using assms by (simp add: ledgerWorldOk_def)
  have same: "ledgerWorldOk js w s (x\<lparr>lw_file := lw_file x\<rparr>) \<and> ledgerKept x (x\<lparr>lw_file := lw_file x\<rparr>)"
    using assms by (simp add: ledgerKept_def)
  show ?thesis
  proof (cases op)
    case (LedgerAppend ctx io now r)
    obtain f' res where a: "fileAppendDecision js ctx io w s now r (lw_file x) = (f', res)" by fastforce
    from good a have "ledgerWorldOk js w s (x\<lparr>lw_file := f'\<rparr>) \<and> ledgerKept x (x\<lparr>lw_file := f'\<rparr>)"
    proof (cases rule: fileAppendDecision_cases)
      case (appended p n)
      with assms show ?thesis by (auto simp: ledgerWorldOk_def ledgerKept_def)
    qed (use same in simp)
    with LedgerAppend a show ?thesis by simp
  next
    case (LedgerFirst ctx io now r)
    obtain f' res where a: "fileAppendFirstDecision js ctx io w s now r (lw_file x) = (f', res)" by fastforce
    from good a show ?thesis
    proof (cases rule: fileAppendFirstDecision_cases)
      case (failed e)
      with LedgerFirst a same show ?thesis by simp
    next
      case (known d)
      with LedgerFirst a same show ?thesis by simp
    next
      case (admitted p n)
      have "(de_goal r, de_turn r) \<notin> set (lw_admitted x)"
        using assms admitted(5) unfolding firstDecision_None ledgerWorldOk_def by blast
      moreover have "decisionTurn p = (de_goal r, de_turn r)" by (simp add: admitted(4) decisionTurn_def)
      ultimately show ?thesis
        using LedgerFirst a admitted(1,2,3) assms by (auto simp: ledgerWorldOk_def ledgerKept_def)
    qed
  qed
qed

interpretation goal_ledger: monotone_machine newLedgerWorld "ledger_step js w s" "ledgerWorldOk js w s" ledgerKept
  for js w s
proof unfold_locales
  show "ledgerWorldOk js w s newLedgerWorld" by (simp add: ledgerWorldOk_def newLedgerWorld_def decisionFileOk_def)
  show "ledgerWorldOk js w s x \<Longrightarrow> ledgerWorldOk js w s (ledger_step js w s op x)" for op x
    using ledger_step_ok by blast
  show "ledgerKept x x" for x by (simp add: ledgerKept_def)
  show "ledgerKept x y \<Longrightarrow> ledgerKept y z \<Longrightarrow> ledgerKept x z" for x y z
    unfolding ledgerKept_def by (meson prefix_order.trans)
  show "ledgerWorldOk js w s x \<Longrightarrow> ledgerKept x (ledger_step js w s op x)" for op x using ledger_step_ok by blast
qed

section \<open>The distributed ledger\<close>

interpretation ledger_cas: cas_store "casLedgerRead js decode w s" "decisionChange js w s now" encode
  "\<lambda>st. validateLedgerState js w s st = Inr ()" "\<lambda>st. validateLedgerState js w s st = Inr ()"
  for js decode w s now encode
proof unfold_locales
  show "casLedgerRead js decode w s b = Inr st \<Longrightarrow> validateLedgerState js w s st = Inr ()" for b st
    by (auto simp: casLedgerRead_def newLedgerState_valid split: option.splits if_splits)
  show "validateLedgerState js w s st = Inr () \<Longrightarrow> decisionChange js w s now x st = Inr (Changed st' r) \<Longrightarrow>
      validateLedgerState js w s st' = Inr ()" for x st st' r
    by (auto simp: decisionChange_def dest: appendDecision_ok(1) split: prod.splits option.splits)
qed

lemma decisionChange_cases:
  assumes "decisionChange js w s now (True, r) st = Inr ch"
  obtains (known) d where "ch = Unchanged (d, False)" "firstDecisionForTurn (dl_records st) (de_goal r) (de_turn r) = Some d"
    | (admitted) st' p where "ch = Changed st' (p, True)" "appendDecision js w s now r st = Inr (st', p)"
      "firstDecisionForTurn (dl_records st) (de_goal r) (de_turn r) = None"
proof (cases "firstDecisionForTurn (dl_records st) (de_goal r) (de_turn r)")
  case None
  with assms admitted show thesis by (auto simp: decisionChange_def)
next
  case (Some d)
  with assms have "ch = Unchanged (d, False)" by (auto simp: decisionChange_def)
  then show thesis using Some by (rule known)
qed

text \<open>The blob holds a readable ledger whose first decision on a turn is the given one.\<close>

definition decidedAs ::
  "json_codec \<Rightarrow> (string \<Rightarrow> decision_log option) \<Rightarrow> string \<Rightarrow> string \<Rightarrow> string \<Rightarrow> string \<Rightarrow> decision_record \<Rightarrow> blob \<Rightarrow> bool" where
  "decidedAs js decode w s g t d b =
     (case casLedgerRead js decode w s b of
        Inl _ \<Rightarrow> False
      | Inr st \<Rightarrow> firstDecisionForTurn (dl_records st) g t = Some d)"

lemma casAppendDecision_loop:
  assumes "casAppendDecision js decode encode n ctx w s now first r env b = (b', Inr x)"
  shows "casLoop n LedgerRetryLimit LedgerRead LedgerWrite (casLedgerRead js decode w s)
      (decisionChange js w s now (first, r)) encode env b = (b', Inr x)"
  using assms by (auto simp: casAppendDecision_def split: if_splits sum.splits)

section \<open>Samples\<close>

definition sampleJs :: json_codec where
  "sampleJs = \<lparr>js_object = (\<lambda>_. Some []), js_encode = (\<lambda>_. ''{}''), js_text = id, js_handoff = (\<lambda>_. Some [])\<rparr>"

definition sampleDecision :: decision_record where
  "sampleDecision =
     \<lparr>de_version = 0, de_sequence = 0, de_workspace = [], de_session = [], de_goal = ''g'', de_turn = ''t'',
      de_action = ContinuationPlanned, de_reason = ReasonActiveGoal, de_detail = [], de_created = NoStamp,
      de_usage = 5, de_budget = None, de_used = 1, de_evidence = [], de_message = ''m'', de_request = ''r'',
      de_backend = [], de_task = [], de_continuation = None\<rparr>"

definition sampleLedgerOps :: "ledger_op list" where
  "sampleLedgerOps =
     [LedgerFirst False io_ok 5 sampleDecision, LedgerFirst False io_ok 6 sampleDecision,
      LedgerAppend False io_ok 7 (sampleDecision\<lparr>de_action := ContinuationEnqueued\<rparr>)]"

definition samplePlanned :: decision_record where
  "samplePlanned = prepareDecisionRecord sampleDecision 1 ''w'' ''s'' 5"

lemma sample_ledger:
  "decisionsOf (lw_file (run (ledger_step sampleJs ''w'' ''s'') newLedgerWorld sampleLedgerOps)) =
     [samplePlanned, prepareDecisionRecord (sampleDecision\<lparr>de_action := ContinuationEnqueued\<rparr>) 2 ''w'' ''s'' 7]"
  "lw_admitted (run (ledger_step sampleJs ''w'' ''s'') newLedgerWorld sampleLedgerOps) = [(''g'', ''t'')]"
  by code_simp+

section \<open>Properties\<close>

text \<open>
  The ledger of a session is append-only and readable: after any calls and faults it lists its
  records, whose sequence numbers count from one without gaps or wrap-around, and every later
  state extends that list.
\<close>

theorem ledger_only_grows:
  assumes "w \<noteq> []" "s \<noteq> []" "x = run (ledger_step js w s) newLedgerWorld xs"
    "y = run (ledger_step js w s) newLedgerWorld (xs @ ys)"
  shows "fileListDecisions js False io_ok w s (lw_file x) = Inr (decisionsOf (lw_file x)) \<and>
    map (\<lambda>r. unat (de_sequence r)) (decisionsOf (lw_file x)) = [1..<Suc (length (decisionsOf (lw_file x)))] \<and>
    prefix (decisionsOf (lw_file x)) (decisionsOf (lw_file y))"
proof -
  have ok: "decisionFileOk js w s (lw_file x)"
    using goal_ledger.reachable_inv [of js w s xs] by (simp add: ledgerWorldOk_def assms(3))
  then obtain st where st: "loadDecisions js io_ok w s (lw_file x) = Inr st"
    by (auto simp: decisionFileOk_def loadDecisions_def split: decision_file.splits)
  note load = loadDecisions_ok [OF ok st]
  have "map (\<lambda>r. unat (de_sequence r)) (dl_records st) = map Suc [0..<length (dl_records st)]"
    using ledger_sequences [OF conjunct1 [OF load]] by (intro nth_equalityI) simp_all
  then have "map (\<lambda>r. unat (de_sequence r)) (dl_records st) = [1..<Suc (length (dl_records st))]"
    unfolding map_Suc_upt by (simp only: One_nat_def)
  moreover have "prefix (decisionsOf (lw_file x)) (decisionsOf (lw_file y))"
    using goal_ledger.later_below [of js w s xs ys] by (simp add: ledgerKept_def assms(3,4))
  ultimately show ?thesis
    using assms(1,2) st load by (simp add: fileListDecisions_def validateLedgerIdentity_def)
qed

theorem ledger_only_grows_witness:
  "fileListDecisions sampleJs False io_ok ''w'' ''s''
     (lw_file (run (ledger_step sampleJs ''w'' ''s'') newLedgerWorld sampleLedgerOps)) =
   Inr [samplePlanned, prepareDecisionRecord (sampleDecision\<lparr>de_action := ContinuationEnqueued\<rparr>) 2 ''w'' ''s'' 7]"
  using ledger_only_grows [of "''w''" "''s''" _ sampleJs sampleLedgerOps _ "[]", OF _ _ refl refl]
  unfolding sample_ledger by simp

text \<open>
  C26: a turn of a goal is decided once. However first decisions, audit records and faults
  interleave, no turn is admitted twice, and every further first decision for an admitted turn
  returns the recorded one and changes nothing.
\<close>

theorem turn_is_decided_once:
  assumes "w \<noteq> []" "s \<noteq> []" "x = run (ledger_step js w s) newLedgerWorld ops"
    "(de_goal r, de_turn r) \<in> set (lw_admitted x)" "\<not> io_read_fails io"
  shows "distinct (lw_admitted x) \<and>
    (\<exists>d. firstDecisionForTurn (decisionsOf (lw_file x)) (de_goal r) (de_turn r) = Some d \<and>
       fileAppendFirstDecision js False io w s now r (lw_file x) = (lw_file x, Inr (d, False)))"
proof -
  have ok: "ledgerWorldOk js w s x" unfolding assms(3) by (rule goal_ledger.reachable_inv)
  then have good: "decisionFileOk js w s (lw_file x)" by (simp add: ledgerWorldOk_def)
  with assms(5) obtain st where st: "loadDecisions js io w s (lw_file x) = Inr st"
    by (auto simp: decisionFileOk_def loadDecisions_def split: decision_file.splits)
  note load = loadDecisions_ok [OF good st]
  have "firstDecisionForTurn (decisionsOf (lw_file x)) (de_goal r) (de_turn r) \<noteq> None"
    using ok assms(4) unfolding firstDecision_None ledgerWorldOk_def by blast
  then obtain d where d: "firstDecisionForTurn (decisionsOf (lw_file x)) (de_goal r) (de_turn r) = Some d" by blast
  then have "fileAppendFirstDecision js False io w s now r (lw_file x) = (lw_file x, Inr (d, False))"
    using assms(1,2) st load by (simp add: fileAppendFirstDecision_def validateLedgerIdentity_def)
  with d ok show ?thesis by (simp add: ledgerWorldOk_def)
qed

theorem turn_is_decided_once_witness:
  "\<exists>d. firstDecisionForTurn [samplePlanned, prepareDecisionRecord (sampleDecision\<lparr>de_action := ContinuationEnqueued\<rparr>) 2 ''w'' ''s'' 7]
      ''g'' ''t'' = Some d \<and>
    snd (fileAppendFirstDecision sampleJs False io_ok ''w'' ''s'' 9 sampleDecision
      (lw_file (run (ledger_step sampleJs ''w'' ''s'') newLedgerWorld sampleLedgerOps))) = Inr (d, False)"
proof -
  have t: "de_goal sampleDecision = ''g''" "de_turn sampleDecision = ''t''" by (simp_all add: sampleDecision_def)
  show ?thesis
    using turn_is_decided_once [of "''w''" "''s''" _ sampleJs sampleLedgerOps sampleDecision io_ok 9, OF _ _ refl]
    unfolding sample_ledger t by auto
qed


definition sampleLog :: decision_log where
  "sampleLog = (newLedgerState ''w'' ''s'')\<lparr>dl_records := [samplePlanned], dl_next := 2\<rparr>"

definition sampleLogEncode :: "decision_log \<Rightarrow> string" where
  "sampleLogEncode st = (if st = sampleLog then ''x'' else ''y'')"

definition sampleLogDecode :: "string \<Rightarrow> decision_log option" where
  "sampleLogDecode raw = (if raw = ''x'' then Some sampleLog else None)"

lemma sample_distributed:
  "casAppendDecision sampleJs sampleLogDecode sampleLogEncode 3 False ''w'' ''s'' 5 True sampleDecision (\<lambda>_. quiet) None =
     (Some ''x'', Inr (samplePlanned, True))"
  "casAppendDecision sampleJs sampleLogDecode sampleLogEncode 3 False ''w'' ''s'' 8 True sampleDecision (\<lambda>_. quiet) (Some ''x'') =
     (Some ''x'', Inr (samplePlanned, False))"
  by code_simp+


end
