(* ===== verification/GoalRuntimeProofs.thy ===== *)
theory GoalRuntimeProofs
  imports GoalRuntime GoalProofs GoalLedgerProofs
begin

text \<open>
  What a turn does to the stores of its session: the goal file keeps its invariant, the ledger is
  extended by at most a decision and its audit record, and exactly the plans are delivered.
\<close>

section \<open>The goal file\<close>

definition storedGoals :: "goal_file \<Rightarrow> goal_record list" where
  "storedGoals f = (case f of GoalFile st \<Rightarrow> gs_records (gf_state st) | _ \<Rightarrow> [])"

definition goalFileOk :: "goal_spec \<Rightarrow> string \<Rightarrow> string \<Rightarrow> goal_file \<Rightarrow> bool" where
  "goalFileOk sp w s f \<longleftrightarrow> (\<exists>cs. goalWorldOk sp w s \<lparr>gw_file = f, gw_charges = cs\<rparr>)"

definition goalFileKept :: "goal_file \<Rightarrow> goal_file \<Rightarrow> bool" where
  "goalFileKept f f' \<longleftrightarrow> (\<forall>r \<in> set (storedGoals f). \<exists>r' \<in> set (storedGoals f'). goalKept r r')"

lemma goalFileKept_refl [simp]: "goalFileKept f f"
  unfolding goalFileKept_def using goalKept_refl by blast

lemma goalFileKept_trans: "goalFileKept f g \<Longrightarrow> goalFileKept g h \<Longrightarrow> goalFileKept f h"
  unfolding goalFileKept_def by (meson goalKept_trans)

lemma goal_step_file:
  assumes "goalFileOk sp w s f"
  shows "\<exists>cs. goalFileOk sp w s (gw_file (goal_step sp w s op \<lparr>gw_file = f, gw_charges = cs\<rparr>)) \<and>
    goalFileKept f (gw_file (goal_step sp w s op \<lparr>gw_file = f, gw_charges = cs\<rparr>))"
proof -
  from assms obtain cs where ok: "goalWorldOk sp w s \<lparr>gw_file = f, gw_charges = cs\<rparr>" by (auto simp: goalFileOk_def)
  let ?y = "goal_step sp w s op \<lparr>gw_file = f, gw_charges = cs\<rparr>"
  have "y = \<lparr>gw_file = gw_file y, gw_charges = gw_charges y\<rparr>" for y :: goal_world by (cases y) simp
  then have "goalWorldOk sp w s \<lparr>gw_file = gw_file ?y, gw_charges = gw_charges ?y\<rparr>"
    using goal_step_ok [OF ok, of op] by metis
  moreover have "goalFileKept f (gw_file ?y)"
    using goal_step_ok [OF ok, of op] by (simp add: goalWorldKept_def goalFileKept_def storedGoals_def goalsOf_def)
  ultimately show ?thesis unfolding goalFileOk_def by blast
qed

text \<open>The stored goals have different ids.\<close>

lemma goalFileOk_unique:
  assumes "goalFileOk sp w s f" "r \<in> set (storedGoals f)" "q \<in> set (storedGoals f)" "go_id r = go_id q"
  shows "r = q"
proof -
  from assms(1) have "goalsOk sp (storedGoals f)"
    by (auto simp: goalFileOk_def goalWorldOk_def storedGoals_def goalStateOk_def goalsOk_def sortedGoals_def openCount_def
        split: goal_file.splits)
  then have "distinct (map go_id (storedGoals f))" using sortedGoals_distinct by (auto simp: goalsOk_def)
  with assms(2-4) show ?thesis by (metis distinct_map inj_onD)
qed

lemma accountUsage_file:
  assumes "goalFileOk sp w s f" "accountUsage sp ctx io w s now g msg d f = (f', res)"
  shows "goalFileOk sp w s f'" "goalFileKept f f'"
    "res = Inr (r, charged) \<Longrightarrow> r \<in> set (storedGoals f') \<and> go_id r = g"
proof -
  obtain cs where st: "goalFileOk sp w s (gw_file (goal_step sp w s (GCharge ctx io now g msg d) \<lparr>gw_file = f, gw_charges = cs\<rparr>))"
    "goalFileKept f (gw_file (goal_step sp w s (GCharge ctx io now g msg d) \<lparr>gw_file = f, gw_charges = cs\<rparr>))"
    using goal_step_file [OF assms(1), of "GCharge ctx io now g msg d"] by blast
  have "gw_file (goal_step sp w s (GCharge ctx io now g msg d) \<lparr>gw_file = f, gw_charges = cs\<rparr>) = f'"
    using assms(2) by (auto split: sum.splits prod.splits bool.splits)
  with st show "goalFileOk sp w s f'" "goalFileKept f f'" by simp_all
  assume res: "res = Inr (r, charged)"
  then obtain st st' where ld: "loadGoals sp io w s f = Inr st"
      "accountGoalUsageState sp g msg d (format_stamp now) st = Inr (st', r, charged)"
      "f' = (if charged then GoalFile st' else f)"
    using assms(2)
    by (auto simp: accountUsage_def accountGoalUsage_def persistGoals_def split: if_splits sum.splits prod.splits)
  obtain cs where "goalWorldOk sp w s \<lparr>gw_file = f, gw_charges = cs\<rparr>" using assms(1) by (auto simp: goalFileOk_def)
  from loaded_records [OF this, of io st] ld(1) have rs: "gs_records (gf_state st) = storedGoals f"
    by (simp add: goalsOf_def storedGoals_def)
  from ld(2) show "r \<in> set (storedGoals f') \<and> go_id r = g"
  proof (cases rule: accountGoalUsageState_cases)
    case (known ys q zs)
    then have "f' = f" "r \<in> set (gs_records (gf_state st))" "go_id r = g" using ld(3) by simp_all
    then show ?thesis unfolding rs by simp
  next
    case (charge ys q zs)
    have "f' = GoalFile st'" using ld(3) charge(3) by simp
    moreover have "gs_records (gf_state st') = ys @ r # zs" unfolding charge(8) by simp
    moreover have "go_id r = g" unfolding charge(7) using charge(2) by simp
    ultimately show ?thesis by (simp add: storedGoals_def)
  qed
qed

lemma updateGoal_file:
  assumes "goalFileOk sp w s f" "updateGoal sp ctx lio io w s now i f = (f', res)"
  shows "goalFileOk sp w s f'" "goalFileKept f f'"
    "res = Inr r \<Longrightarrow> trim_space (ui_id i) \<noteq> [] \<Longrightarrow> go_id r = trim_space (ui_id i)"
proof -
  have "goalFileOk sp w s f' \<and> goalFileKept f f'"
  proof (cases "updateTarget sp ctx lio w s i f")
    case (Inl e)
    with assms show ?thesis by (simp add: updateGoal_def)
  next
    case (Inr g)
    have "\<exists>cs. gw_file (goal_step sp w s (GUpdate ctx io now g i) \<lparr>gw_file = f, gw_charges = cs\<rparr>) = f'"
      using assms(2) Inr by (simp add: updateGoal_def)
    moreover have "gw_file (goal_step sp w s (GUpdate ctx io now g i) \<lparr>gw_file = f, gw_charges = cs\<rparr>) =
        gw_file (goal_step sp w s (GUpdate ctx io now g i) \<lparr>gw_file = f, gw_charges = cs'\<rparr>)" for cs cs'
      by simp
    ultimately show ?thesis using goal_step_file [OF assms(1), of "GUpdate ctx io now g i"] by metis
  qed
  then show "goalFileOk sp w s f'" "goalFileKept f f'" by simp_all
  assume res: "res = Inr r" and id: "trim_space (ui_id i) \<noteq> []"
  then obtain gs gs' where "updateMutation now (trim_space (ui_id i)) i gs = Inr (gs', r)"
    using assms(2) by (auto simp: updateGoal_def updateTarget_def mutateGoals_def persistGoals_def split: if_splits sum.splits)
  from updateMutation_split [OF this] show "go_id r = trim_space (ui_id i)" using updateRecord_facts(1) by metis
qed

section \<open>What a phase adds\<close>

text \<open>
  The deciding part of a turn adds records \<open>L\<close> to the ledger and deliveries \<open>S\<close>: either at most
  one record that is no plan and nothing is sent, or a plan, its delivery, and at most one audit
  record.
\<close>

definition planKey :: "decision_record \<Rightarrow> string \<times> string" where
  "planKey r = (de_message r, de_request r)"

definition sentKey :: "inbound \<Rightarrow> string \<times> string" where
  "sentKey i = (im_id (in_message i), ma_request (in_addr i))"

definition outcomeReasons :: "decision_reason set" where
  "outcomeReasons = {ReasonEnqueueUnavailable, ReasonEnqueueFailed, ReasonAdmissionFailed, ReasonVerifierFailed,
     ReasonVerifierSatisfied}"

definition decided :: "decision_reason \<Rightarrow> decision_record list \<Rightarrow> inbound list \<Rightarrow> bool" where
  "decided r L S \<longleftrightarrow> S = [] \<and> length L \<le> 1 \<and>
     (\<forall>d \<in> set L. de_action d \<noteq> ContinuationPlanned \<and> de_reason d \<in> insert r outcomeReasons)"

definition planned :: "string \<Rightarrow> string \<Rightarrow> decision_reason \<Rightarrow> decision_record list \<Rightarrow> inbound list \<Rightarrow> bool" where
  "planned g t r L S \<longleftrightarrow>
     (\<exists>p A i. L = p # A \<and> S = [i] \<and> de_action p = ContinuationPlanned \<and> de_goal p = g \<and> de_turn p = t \<and> de_reason p = r \<and>
        planKey p = sentKey i \<and> length A \<le> 1 \<and>
        (\<forall>d \<in> set A. de_action d \<noteq> ContinuationPlanned \<and> de_goal d = g \<and> de_turn d = t \<and>
           de_reason d \<in> insert r outcomeReasons))"

definition extends ::
  "json_codec \<Rightarrow> string \<Rightarrow> string \<Rightarrow> decision_record list \<Rightarrow> inbound list \<Rightarrow> goal_session \<Rightarrow> goal_session \<Rightarrow> bool" where
  "extends js w s L S x x' \<longleftrightarrow>
     decisionFileOk js w s (gn_ledger x') \<and> decisionsOf (gn_ledger x') = decisionsOf (gn_ledger x) @ L \<and>
     gn_sent x' = gn_sent x @ S"

lemma decideFirst_effect:
  assumes "decisionFileOk (rt_json c) w s (gn_ledger x)" "decideFirst c env w s r errs x = (x', h, e)"
    "de_action r \<noteq> ContinuationPlanned" "de_reason r \<in> insert k outcomeReasons"
  shows "h \<and> gn_goals x' = gn_goals x \<and> (\<exists>L. extends (rt_json c) w s L [] x x' \<and> decided k L [] \<and>
    (e = [] \<longrightarrow> (de_goal r, de_turn r) \<in> decisionTurn ` set (decisionsOf (gn_ledger x'))))"
proof -
  obtain f res where a: "fileAppendFirstDecision (rt_json c) (ca_ctx (te_decide env)) (ca_io (te_decide env)) w s
      (ca_now (te_decide env)) r (gn_ledger x) = (f, res)" by fastforce
  from assms(1) a show ?thesis
  proof (cases rule: fileAppendFirstDecision_cases)
    case (failed e')
    with assms a show ?thesis
      by (intro conjI exI [of _ "[]"]) (auto simp: decideFirst_def extends_def decided_def)
  next
    case (known d)
    then have "(de_goal r, de_turn r) \<in> decisionTurn ` set (decisionsOf (gn_ledger x))"
      by (metis firstDecision_None option.distinct(1))
    with known assms a show ?thesis
      by (intro conjI exI [of _ "[]"]) (auto simp: decideFirst_def extends_def decided_def)
  next
    case (admitted p n)
    then have "decisionTurn p = (de_goal r, de_turn r)" "de_action p = de_action r" "de_reason p = de_reason r"
      by (simp_all add: decisionTurn_def)
    with admitted(1-3) assms a show ?thesis
      by (intro conjI exI [of _ "[p]"]) (auto simp: decideFirst_def extends_def decided_def)
  qed
qed

lemma appendAudit_effect:
  assumes "decisionFileOk (rt_json c) w s (gn_ledger x)" "appendAudit c env w s r errs x = (x', h, e)"
  shows "h \<and> gn_goals x' = gn_goals x \<and> (\<exists>A. extends (rt_json c) w s A [] x x' \<and> length A \<le> 1 \<and>
    (\<forall>d \<in> set A. de_action d = de_action r \<and> de_goal d = de_goal r \<and> de_turn d = de_turn r \<and> de_reason d = de_reason r))"
proof -
  obtain f res where a: "fileAppendDecision (rt_json c) False (ca_io (te_followup env)) w s
      (ca_now (te_followup env)) r (gn_ledger x) = (f, res)" by fastforce
  from assms(1) a show ?thesis
  proof (cases rule: fileAppendDecision_cases)
    case (failed e')
    with assms a show ?thesis by (intro conjI exI [of _ "[]"]) (auto simp: appendAudit_def extends_def)
  next
    case (appended p n)
    with assms a show ?thesis by (intro conjI exI [of _ "[p]"]) (auto simp: appendAudit_def extends_def)
  qed
qed

lemma decisionRecord_facts [simp]:
  "de_goal (decisionRecord g t a r d u ev) = go_id g" "de_turn (decisionRecord g t a r d u ev) = t"
  "de_action (decisionRecord g t a r d u ev) = a" "de_reason (decisionRecord g t a r d u ev) = r"
  by (simp_all add: decisionRecord_def)

lemma withContinuationIdentity_facts [simp]:
  "de_goal (withContinuationIdentity r i rc) = de_goal r" "de_turn (withContinuationIdentity r i rc) = de_turn r"
  "de_action (withContinuationIdentity r i rc) = de_action r" "de_reason (withContinuationIdentity r i rc) = de_reason r"
  "planKey (withContinuationIdentity r i rc) = sentKey i"
  by (simp_all add: withContinuationIdentity_def planKey_def sentKey_def)

lemma deliver_effect:
  assumes "decisionFileOk (rt_json c) w s (gn_ledger x)"
    "deliver_continuation c env w s g t r v attempt i x = (x', h, e)"
  shows "h \<and> gn_goals x' = gn_goals x \<and> (\<exists>A. extends (rt_json c) w s A [i] x x' \<and> length A \<le> 1 \<and>
    (\<forall>d \<in> set A. de_action d \<noteq> ContinuationPlanned \<and> de_goal d = go_id g \<and> de_turn d = t \<and>
       de_reason d \<in> insert r outcomeReasons))"
proof -
  obtain q errs where q: "deliver_continuation c env w s g t r v attempt i x =
      appendAudit c env w s q errs (x\<lparr>gn_sent := gn_sent x @ [i]\<rparr>)"
    "de_action q \<noteq> ContinuationPlanned" "de_goal q = go_id g" "de_turn q = t" "de_reason q \<in> insert r outcomeReasons"
  proof (cases "rt_backend c")
    case True
    then show thesis
      by (cases "admitError (te_admit env)") (auto intro!: that simp: deliver_continuation_def Let_def outcomeReasons_def)
  next
    case False
    then show thesis
      by (cases "te_enqueue env") (auto intro!: that simp: deliver_continuation_def Let_def outcomeReasons_def)
  qed
  have "decisionFileOk (rt_json c) w s (gn_ledger (x\<lparr>gn_sent := gn_sent x @ [i]\<rparr>))" using assms(1) by simp
  from appendAudit_effect [OF this assms(2) [unfolded q(1)]] show ?thesis
    using q(2-5) by (fastforce simp: extends_def)
qed

lemma planContinuation_effect:
  assumes "decisionFileOk (rt_json c) w s (gn_ledger x)"
    "planContinuation c env w s a g t d v attempt x = (x', h, e)"
  shows "h \<and> gn_goals x' = gn_goals x \<and> (\<exists>L S. extends (rt_json c) w s L S x x' \<and>
    (L = [] \<and> S = [] \<or> planned (go_id g) t (pd_reason d) L S \<and> (go_id g, t) \<notin> decisionTurn ` set (decisionsOf (gn_ledger x))) \<and>
    (e = [] \<longrightarrow> (go_id g, t) \<in> decisionTurn ` set (decisionsOf (gn_ledger x'))))"
proof -
  obtain hs res where ci: "continuationInbound c env a g t attempt (pd_reason d) v (\<not> rt_backend c) (gn_handoff x) = (hs, res)"
    by fastforce
  show ?thesis
  proof (cases res)
    case (Inl e')
    with ci assms show ?thesis
      by (intro conjI exI [of _ "[]"]) (auto simp: planContinuation_def extends_def)
  next
    case (Inr i)
    let ?x1 = "x\<lparr>gn_handoff := hs\<rparr>"
    let ?planned = "withContinuationIdentity
       (decisionRecord g t ContinuationPlanned (pd_reason d) (pd_detail d) attempt (verificationEvidence v)) i noReceipt"
    let ?adm = "\<lparr>ad_workspace = w, ad_session = s, ad_goal = go_id g, ad_parent_task = ma_task a,
        ad_parent_message = t, ad_attempt = attempt, ad_inbound = i\<rparr>"
    obtain pl where pl: "(if rt_backend c
        then and_then (newContinuationEnvelope (rt_json c) ?adm) (\<lambda>e. Inr (?planned\<lparr>de_continuation := Some e\<rparr>))
        else Inr ?planned) = pl" by blast
    note eqn = assms(2) [unfolded planContinuation_def ci prod.case Inr sum.case Let_def pl]
    show ?thesis
    proof (cases pl)
      case (Inl e')
      with eqn assms(1) show ?thesis by (intro conjI exI [of _ "[]"]) (auto simp: extends_def)
    next
      case (Inr p)
      then have p: "de_action p = ContinuationPlanned" "de_goal p = go_id g" "de_turn p = t" "de_reason p = pd_reason d"
          "planKey p = sentKey i"
        using pl by (auto simp: planKey_def sentKey_def withContinuationIdentity_def split: if_splits)
      obtain f res' where a: "fileAppendFirstDecision (rt_json c) (ca_ctx (te_decide env)) (ca_io (te_decide env)) w s
          (ca_now (te_decide env)) p (gn_ledger x) = (f, res')" by fastforce
      from assms(1) a show ?thesis
      proof (cases rule: fileAppendFirstDecision_cases)
        case (failed e')
        with eqn Inr a assms(1) show ?thesis by (intro conjI exI [of _ "[]"]) (auto simp: extends_def)
      next
        case (known q)
        then have "(go_id g, t) \<in> decisionTurn ` set (decisionsOf (gn_ledger x))"
          unfolding p by (metis firstDecision_None option.distinct(1))
        with known eqn Inr a assms(1) show ?thesis by (intro conjI exI [of _ "[]"]) (auto simp: extends_def)
      next
        case (admitted q n)
        have q: "de_action q = ContinuationPlanned" "de_goal q = go_id g" "de_turn q = t" "de_reason q = pd_reason d"
          "planKey q = sentKey i"
          using p by (simp_all add: admitted(4) planKey_def)
        let ?x2 = "?x1\<lparr>gn_ledger := f\<rparr>"
        have "deliver_continuation c env w s g t (pd_reason d) v attempt i ?x2 = (x', h, e)"
          using eqn Inr a admitted(1) by simp
        from deliver_effect [OF _ this] admitted(2) obtain A where A: "h" "gn_goals x' = gn_goals x"
          "extends (rt_json c) w s A [i] ?x2 x'" "length A \<le> 1"
          "\<forall>d' \<in> set A. de_action d' \<noteq> ContinuationPlanned \<and> de_goal d' = go_id g \<and> de_turn d' = t \<and>
             de_reason d' \<in> insert (pd_reason d) outcomeReasons"
          by auto
        have "extends (rt_json c) w s (q # A) [i] x x'" using A(3) admitted(3) by (simp add: extends_def)
        moreover have "planned (go_id g) t (pd_reason d) (q # A) [i]" using q A(4,5) by (simp add: planned_def)
        moreover have "(go_id g, t) \<notin> decisionTurn ` set (decisionsOf (gn_ledger x))"
          using admitted(5) p unfolding firstDecision_None by simp
        moreover have "(go_id g, t) \<in> decisionTurn ` set (decisionsOf (gn_ledger x'))"
          using A(3) admitted(3) q by (auto simp: extends_def decisionTurn_def image_iff)
        ultimately show ?thesis using A(1,2) by blast
      qed
    qed
  qed
qed

section \<open>The phases together\<close>

lemma updateStatus_effect:
  assumes "goalFileOk (rt_spec c) w s (gn_goals x)" "updateStatus c env w s i x = (x', res)"
  shows "goalFileOk (rt_spec c) w s (gn_goals x')" "goalFileKept (gn_goals x) (gn_goals x')"
    "gn_ledger x' = gn_ledger x" "gn_sent x' = gn_sent x"
    "res = Inr r \<Longrightarrow> trim_space (ui_id i) \<noteq> [] \<Longrightarrow> go_id r = trim_space (ui_id i)"
proof -
  obtain f res' where u: "updateGoal (rt_spec c) (ca_ctx (te_update env)) (ca_io (te_update env)) (ca_io (te_update env)) w s
      (ca_now (te_update env)) i (gn_goals x) = (f, res')" by fastforce
  then have x': "x' = x\<lparr>gn_goals := f\<rparr>" "res = res'" using assms(2) by (simp_all add: updateStatus_def)
  note kept = updateGoal_file [OF assms(1) u]
  show "goalFileOk (rt_spec c) w s (gn_goals x')" "goalFileKept (gn_goals x) (gn_goals x')"
    "gn_ledger x' = gn_ledger x" "gn_sent x' = gn_sent x"
    "res = Inr r \<Longrightarrow> trim_space (ui_id i) \<noteq> [] \<Longrightarrow> go_id r = trim_space (ui_id i)"
    using kept by (simp_all add: x')
qed

text \<open>
  The outcome of the deciding part for a goal \<open>g\<close> and a turn \<open>t\<close>: when the policy went on
  (\<open>goes\<close>) a plan under the reason \<open>r\<close> may have been made; a decision without a plan has the
  reason of a policy that did not go on, or one of the runtime's own.
\<close>

definition outcome ::
  "runtime_config \<Rightarrow> string \<Rightarrow> string \<Rightarrow> string \<Rightarrow> string \<Rightarrow> decision_reason \<Rightarrow> bool \<Rightarrow> goal_session \<Rightarrow> goal_session
     \<Rightarrow> runtime_error list \<Rightarrow> bool" where
  "outcome c w s g t r goes x x' e \<longleftrightarrow>
     goalFileOk (rt_spec c) w s (gn_goals x') \<and> goalFileKept (gn_goals x) (gn_goals x') \<and>
     (\<exists>L S k. extends (rt_json c) w s L S x x' \<and>
        (decided k L S \<and> (k \<in> outcomeReasons \<or> k = r \<and> \<not> goes) \<or>
         planned g t r L S \<and> goes \<and> gn_goals x' = gn_goals x \<and> (g, t) \<notin> decisionTurn ` set (decisionsOf (gn_ledger x)))) \<and>
     (e = [] \<longrightarrow> trim_space g = g \<longrightarrow> g \<noteq> [] \<longrightarrow> (g, t) \<in> decisionTurn ` set (decisionsOf (gn_ledger x')))"

lemma outcome_none:
  assumes "goalFileOk (rt_spec c) w s (gn_goals x')" "goalFileKept (gn_goals x) (gn_goals x')"
    "decisionFileOk (rt_json c) w s (gn_ledger x)" "gn_ledger x' = gn_ledger x" "gn_sent x' = gn_sent x" "e \<noteq> []"
  shows "outcome c w s g t r goes x x' e"
proof -
  have "extends (rt_json c) w s [] [] x x'" "decided ReasonVerifierFailed [] []" "ReasonVerifierFailed \<in> outcomeReasons"
    using assms by (simp_all add: extends_def decided_def outcomeReasons_def)
  with assms show ?thesis unfolding outcome_def by blast
qed

text \<open>A first decision that is no plan, after the goal file went from the one of \<open>x\<close> to that of \<open>y\<close>.\<close>

lemma outcome_decided:
  assumes "goalFileOk (rt_spec c) w s (gn_goals y)" "goalFileKept (gn_goals x) (gn_goals y)"
    "decisionFileOk (rt_json c) w s (gn_ledger x)" "gn_ledger y = gn_ledger x" "gn_sent y = gn_sent x"
    and d: "decideFirst c env w s q errs y = (x', h, e)" "de_action q \<noteq> ContinuationPlanned" "de_turn q = t"
      "de_reason q \<in> outcomeReasons \<or> de_reason q = r \<and> \<not> goes"
      "trim_space g = g \<Longrightarrow> g \<noteq> [] \<Longrightarrow> de_goal q = g"
  shows "h \<and> outcome c w s g t r goes x x' e"
proof -
  have "decisionFileOk (rt_json c) w s (gn_ledger y)" using assms(3,4) by simp
  from decideFirst_effect [OF this d(1,2), of "de_reason q"] obtain L where L: "h" "gn_goals x' = gn_goals y"
    "extends (rt_json c) w s L [] y x'" "decided (de_reason q) L []"
    "e = [] \<longrightarrow> (de_goal q, de_turn q) \<in> decisionTurn ` set (decisionsOf (gn_ledger x'))" by auto
  have "extends (rt_json c) w s L [] x x'" using L(3) assms(4,5) by (simp add: extends_def)
  with L d assms(1,2) show ?thesis unfolding outcome_def by (metis (no_types, lifting))
qed

lemma followDecision_effect:
  assumes "goalFileOk (rt_spec c) w s (gn_goals x)" "decisionFileOk (rt_json c) w s (gn_ledger x)"
    "followDecision c env w s a g t d v used x = (x', h, e)"
  shows "h \<and> outcome c w s (go_id g) t (pd_reason d) (pd_continue d \<and> \<not> pd_block d) x x' e"
proof (cases "pd_block d")
  case True
  obtain y res where u: "updateStatus c env w s (blockInput (go_id g) (pd_detail d)) x = (y, res)" by fastforce
  note y = updateStatus_effect [OF assms(1) u]
  show ?thesis
  proof (cases res)
    case (Inl e')
    with True u assms(3) have "x' = y" "h" "e = [RtGoal e']" by (simp_all add: followDecision_def)
    with y assms(2) show ?thesis by (auto intro: outcome_none)
  next
    case (Inr b)
    with True u assms(3) have d: "decideFirst c env w s
        (decisionRecord b t DecisionStopped (pd_reason d) (pd_detail d) used []) [] y = (x', h, e)"
      by (simp add: followDecision_def)
    have "trim_space (go_id g) = go_id g \<Longrightarrow> go_id g \<noteq> [] \<Longrightarrow> go_id b = go_id g"
      using y(5) [of b] Inr by (simp add: blockInput_def)
    with y assms(2) True show ?thesis by (intro outcome_decided [OF _ _ _ _ _ d]) simp_all
  qed
next
  case False
  note stop = outcome_decided [OF assms(1) goalFileKept_refl assms(2) refl refl]
  consider (stays) "\<not> pd_continue d" | (nowhere) "pd_continue d" "\<not> rt_backend c" "\<not> rt_enqueuer c"
    | (plan) "pd_continue d" "rt_backend c \<or> rt_enqueuer c" by blast
  then show ?thesis
  proof cases
    case stays
    with False assms(3) show ?thesis by (intro stop) (auto simp: followDecision_def split: if_splits)
  next
    case nowhere
    with False assms(3) show ?thesis by (intro stop) (auto simp: followDecision_def outcomeReasons_def)
  next
    case plan
    with False assms(3) have "planContinuation c env w s a g t d v (used + 1) x = (x', h, e)"
      by (auto simp: followDecision_def)
    from planContinuation_effect [OF assms(2) this] obtain L S where L: "h" "gn_goals x' = gn_goals x"
      "extends (rt_json c) w s L S x x'"
      "L = [] \<and> S = [] \<or> planned (go_id g) t (pd_reason d) L S \<and> (go_id g, t) \<notin> decisionTurn ` set (decisionsOf (gn_ledger x))"
      "e = [] \<longrightarrow> (go_id g, t) \<in> decisionTurn ` set (decisionsOf (gn_ledger x'))" by auto
    have "decided ReasonVerifierFailed [] []" "ReasonVerifierFailed \<in> outcomeReasons"
      by (simp_all add: decided_def outcomeReasons_def)
    with L False plan assms(1) show ?thesis unfolding outcome_def using goalFileKept_refl by (metis (no_types, lifting))
  qed
qed

definition policyAnswer :: "runtime_config \<Rightarrow> decision_record list \<Rightarrow> goal_record \<Rightarrow> verification option \<Rightarrow> policy_decision" where
  "policyAnswer c rs g v =
     rt_policy c \<lparr>pi_goal = g, pi_used = countPlannedContinuations rs (go_id g), pi_verification = v,
                  pi_wrap_up = wrapUpAlreadyPlanned rs (go_id g)\<rparr>"

definition wentOn :: "policy_decision \<Rightarrow> bool" where
  "wentOn d \<longleftrightarrow> pd_continue d \<and> \<not> pd_block d"

definition verifierFailedIn :: "turn_env \<Rightarrow> bool" where
  "verifierFailedIn env \<longleftrightarrow> (\<exists>e. te_verdict env = Some (Inl e))"

lemma policyPhase_effect:
  assumes "goalFileOk (rt_spec c) w s (gn_goals x)" "decisionFileOk (rt_json c) w s (gn_ledger x)"
    "policyPhase c env w s a rs g t v failure x = (x', h, e)" "failure \<noteq> [] \<Longrightarrow> verifierFailedIn env"
  shows "\<exists>r. h \<and> outcome c w s (go_id g) t r (wentOn (policyAnswer c rs g v)) x x' e \<and>
    (r = pd_reason (policyAnswer c rs g v) \<or> r = ReasonVerifierFailed \<and> verifierFailedIn env)"
proof -
  let ?d0 = "policyAnswer c rs g v"
  let ?d = "if failure \<noteq> [] \<and> pd_continue ?d0 then ?d0\<lparr>pd_reason := ReasonVerifierFailed, pd_detail := failure\<rparr> else ?d0"
  have "followDecision c env w s a g t ?d v (countPlannedContinuations rs (go_id g)) x = (x', h, e)"
    using assms(3) unfolding policyPhase_def policyAnswer_def Let_def .
  from followDecision_effect [OF assms(1,2) this] have "h \<and> outcome c w s (go_id g) t (pd_reason ?d) (wentOn ?d0) x x' e"
    by (auto simp: wentOn_def split: if_splits)
  then show ?thesis
    using assms(4) by (intro exI [of _ "pd_reason ?d"]) (auto simp: wentOn_def split: if_splits)
qed

lemma verifyPhase_effect:
  assumes "goalFileOk (rt_spec c) w s (gn_goals x)" "decisionFileOk (rt_json c) w s (gn_ledger x)"
    "verifyPhase c env w s a rs g t x = (x', h, e)"
  shows "\<exists>v r. h \<and> outcome c w s (go_id g) t r (wentOn (policyAnswer c rs g v)) x x' e \<and>
    (r = pd_reason (policyAnswer c rs g v) \<or> r = ReasonVerifierFailed \<and> verifierFailedIn env)"
proof -
  note policy = policyPhase_effect [OF assms(1,2)]
  let ?r = "pd_reason (policyAnswer c rs g None)" and ?goes = "wentOn (policyAnswer c rs g None)"
  \<comment> \<open>an update of the goal, then a decision under a reason of the runtime\<close>
  have updated: "h \<and> outcome c w s (go_id g) t ?r ?goes x x' e"
    if "(case updateStatus c env w s i x of
          (y, Inl u) \<Rightarrow> (y, True, us u)
        | (y, Inr b) \<Rightarrow> decideFirst c env w s (q b) errs y) = (x', h, e)"
      "ui_id i = go_id g" "\<And>b. de_action (q b) \<noteq> ContinuationPlanned \<and> de_turn (q b) = t \<and> de_goal (q b) = go_id b"
      "\<And>b. de_reason (q b) \<in> outcomeReasons" "\<And>u. us u \<noteq> []" for i us q errs
  proof -
    obtain y res where u: "updateStatus c env w s i x = (y, res)" by fastforce
    note y = updateStatus_effect [OF assms(1) u]
    show ?thesis
    proof (cases res)
      case (Inl u')
      with that(1,5) u have "x' = y" "h" "e \<noteq> []" by auto
      with y assms(2) show ?thesis by (auto intro: outcome_none)
    next
      case (Inr b)
      with that(1) u have d: "decideFirst c env w s (q b) errs y = (x', h, e)" by simp
      show ?thesis
        using y assms(2) that(2,3,4) Inr by (intro outcome_decided [OF _ _ _ _ _ d]) simp_all
    qed
  qed
  show ?thesis
  proof (cases "if go_status g = GoalActive then te_verdict env else None")
    case None
    with assms(3) have "policyPhase c env w s a rs g t None [] x = (x', h, e)"
      unfolding verifyPhase_def Let_def by simp
    from policy [OF this] show ?thesis by blast
  next
    case (Some verdict)
    then have verdict: "te_verdict env = Some verdict" by (simp split: if_splits)
    note eqn = assms(3) [unfolded verifyPhase_def Let_def Some option.case]
    show ?thesis
    proof (cases verdict)
      case (Inl err)
      then have failed: "verifierFailedIn env" using verdict by (simp add: verifierFailedIn_def)
      show ?thesis
      proof (cases "rt_streak c \<le> consecutiveVerifierFailures rs (go_id g) + 1")
        case True
        from eqn have "(case updateStatus c env w s (blockInput (go_id g) (failureDetail err)) x of
            (y, Inl u) \<Rightarrow> (y, True, [RtVerify err, RtGoal u])
          | (y, Inr b) \<Rightarrow> decideFirst c env w s (decisionRecord b t DecisionStopped ReasonVerifierFailed
              (failureDetail err) (countPlannedContinuations rs (go_id g)) []) [RtVerify err] y) = (x', h, e)"
          unfolding Inl sum.case if_P [OF True] .
        from updated [OF this] show ?thesis by (auto simp: blockInput_def outcomeReasons_def)
      next
        case False
        with eqn Inl have "policyPhase c env w s a rs g t None
            (failureDetail err @ '' ('' @ natText (consecutiveVerifierFailures rs (go_id g) + 1) @ '' of '' @
             natText (rt_streak c) @ '' consecutive failures before the goal blocks)'') x = (x', h, e)" by simp
        from policy [OF this failed] show ?thesis by blast
      qed
    next
      case (Inr v)
      show ?thesis
      proof (cases "vr_satisfied v")
        case True
        from eqn have "(case updateStatus c env w s
              \<lparr>ui_id = go_id g, ui_status = GoalCompleted,
               ui_evidence = vr_evidence v @ [verifierEvidencePrefix @ ''satisfied''], ui_blocked = []\<rparr> x of
            (y, Inl u) \<Rightarrow> (y, True, [RtGoal u])
          | (y, Inr b) \<Rightarrow> decideFirst c env w s (decisionRecord b t DecisionCompleted ReasonVerifierSatisfied
              (trim_space (vr_feedback v)) (countPlannedContinuations rs (go_id g)) (vr_evidence v)) [] y) = (x', h, e)"
          unfolding Inr sum.case if_P [OF True] .
        from updated [OF this] show ?thesis by (auto simp: outcomeReasons_def)
      next
        case False
        with eqn Inr have "policyPhase c env w s a rs g t (Some v) [] x = (x', h, e)" by simp
        from policy [OF this] show ?thesis by blast
      qed
    qed
  qed
qed

section \<open>A turn\<close>

text \<open>
  What a turn of the goal \<open>g\<close> with the message \<open>t\<close> does: a plan was made only when the policy
  went on for the stored goal and the history the turn began with.
\<close>

definition turnOutcome ::
  "runtime_config \<Rightarrow> turn_env \<Rightarrow> string \<Rightarrow> string \<Rightarrow> string \<Rightarrow> string \<Rightarrow> goal_session \<Rightarrow> goal_session \<Rightarrow> bool" where
  "turnOutcome c env w s g t x x' \<longleftrightarrow>
     goalFileOk (rt_spec c) w s (gn_goals x') \<and> goalFileKept (gn_goals x) (gn_goals x') \<and>
     (\<exists>L S. extends (rt_json c) w s L S x x' \<and>
        ((\<exists>k q v. decided k L S \<and> (k \<in> outcomeReasons \<or>
            k = pd_reason (policyAnswer c (decisionsOf (gn_ledger x)) q v) \<and>
            \<not> wentOn (policyAnswer c (decisionsOf (gn_ledger x)) q v))) \<or>
         (\<exists>q v r. planned g t r L S \<and> wentOn (policyAnswer c (decisionsOf (gn_ledger x)) q v) \<and>
            q \<in> set (storedGoals (gn_goals x')) \<and> go_id q = g \<and> (g, t) \<notin> decisionTurn ` set (decisionsOf (gn_ledger x)) \<and>
            (r = pd_reason (policyAnswer c (decisionsOf (gn_ledger x)) q v) \<or>
             r = ReasonVerifierFailed \<and> verifierFailedIn env))))"

lemma turnOutcome_none:
  assumes "goalFileOk (rt_spec c) w s (gn_goals x')" "goalFileKept (gn_goals x) (gn_goals x')"
    "decisionFileOk (rt_json c) w s (gn_ledger x)" "gn_ledger x' = gn_ledger x" "gn_sent x' = gn_sent x"
  shows "turnOutcome c env w s g t x x'"
proof -
  have "extends (rt_json c) w s [] [] x x'" "decided ReasonVerifierFailed [] []" "ReasonVerifierFailed \<in> outcomeReasons"
    using assms by (simp_all add: extends_def decided_def outcomeReasons_def)
  with assms(1,2) show ?thesis unfolding turnOutcome_def by blast
qed

lemma accountPhase_effect:
  assumes ok: "goalFileOk (rt_spec c) w s (gn_goals x)" "decisionFileOk (rt_json c) w s (gn_ledger x)"
    and run: "accountPhase c env w s g a (decisionsOf (gn_ledger x)) m x = (x', h, e)"
  shows "h \<and> turnOutcome c env w s g (im_id m) x x' \<and>
    (e = [] \<longrightarrow> trim_space g = g \<longrightarrow> g \<noteq> [] \<longrightarrow> (g, im_id m) \<in> decisionTurn ` set (decisionsOf (gn_ledger x')))"
proof (cases "assistantTokenUsage c m")
  case (Inl e')
  with run have "x' = x" "h" "e \<noteq> []" by (auto simp: accountPhase_def)
  with ok show ?thesis by (auto intro: turnOutcome_none)
next
  case (Inr usage)
  obtain f res where u: "accountUsage (rt_spec c) (ca_ctx (te_account env)) (ca_io (te_account env)) w s
      (ca_now (te_account env)) g (im_id m) usage (gn_goals x) = (f, res)" by fastforce
  note stored = accountUsage_file [OF ok(1) u]
  let ?y = "x\<lparr>gn_goals := f\<rparr>"
  show ?thesis
  proof (cases res)
    case (Inl e')
    with Inr run u have "x' = ?y" "h" "e \<noteq> []" by (auto simp: accountPhase_def)
    with ok stored show ?thesis by (auto intro: turnOutcome_none)
  next
    case (Inr rc)
    obtain r charged where rc: "rc = (r, charged)" by fastforce
    with \<open>assistantTokenUsage c m = Inr usage\<close> Inr run u
    have v: "verifyPhase c env w s a (decisionsOf (gn_ledger x)) r (im_id m) ?y = (x', h, e)"
      by (simp add: accountPhase_def)
    have r: "r \<in> set (storedGoals f)" "go_id r = g" using stored(3) Inr rc by simp_all
    have "goalFileOk (rt_spec c) w s (gn_goals ?y)" "decisionFileOk (rt_json c) w s (gn_ledger ?y)"
      using stored(1) ok(2) by simp_all
    from verifyPhase_effect [OF this v] obtain v' k where o: "h"
      "outcome c w s g (im_id m) k (wentOn (policyAnswer c (decisionsOf (gn_ledger x)) r v')) ?y x' e"
      "k = pd_reason (policyAnswer c (decisionsOf (gn_ledger x)) r v') \<or> k = ReasonVerifierFailed \<and> verifierFailedIn env"
      unfolding r(2) by blast
    from o(2) obtain L S k' where ls: "goalFileOk (rt_spec c) w s (gn_goals x')" "goalFileKept f (gn_goals x')"
      "extends (rt_json c) w s L S ?y x'"
      "decided k' L S \<and> (k' \<in> outcomeReasons \<or> k' = k \<and> \<not> wentOn (policyAnswer c (decisionsOf (gn_ledger x)) r v')) \<or>
       planned g (im_id m) k L S \<and> wentOn (policyAnswer c (decisionsOf (gn_ledger x)) r v') \<and> gn_goals x' = f \<and>
         (g, im_id m) \<notin> decisionTurn ` set (decisionsOf (gn_ledger x))"
      "e = [] \<longrightarrow> trim_space g = g \<longrightarrow> g \<noteq> [] \<longrightarrow> (g, im_id m) \<in> decisionTurn ` set (decisionsOf (gn_ledger x'))"
      unfolding outcome_def by auto
    have ext: "extends (rt_json c) w s L S x x'" using ls(3) by (simp add: extends_def)
    have kept: "goalFileKept (gn_goals x) (gn_goals x')" using stored(2) ls(2) by (rule goalFileKept_trans)
    have runtime: "ReasonVerifierFailed \<in> outcomeReasons" by (simp add: outcomeReasons_def)
    have "turnOutcome c env w s g (im_id m) x x'"
      using ls(4)
    proof
      assume d: "decided k' L S \<and> (k' \<in> outcomeReasons \<or> k' = k \<and> \<not> wentOn (policyAnswer c (decisionsOf (gn_ledger x)) r v'))"
      then have "k' \<in> outcomeReasons \<or> k' = pd_reason (policyAnswer c (decisionsOf (gn_ledger x)) r v') \<and>
          \<not> wentOn (policyAnswer c (decisionsOf (gn_ledger x)) r v')" using o(3) runtime by auto
      with d ls(1) kept ext show ?thesis unfolding turnOutcome_def by blast
    next
      assume "planned g (im_id m) k L S \<and> wentOn (policyAnswer c (decisionsOf (gn_ledger x)) r v') \<and> gn_goals x' = f \<and>
         (g, im_id m) \<notin> decisionTurn ` set (decisionsOf (gn_ledger x))"
      with r o(3) ls(1) kept ext show ?thesis unfolding turnOutcome_def by blast
    qed
    with o(1) ls(5) show ?thesis by blast
  qed
qed

lemma decisionExists_iff: "decisionExistsForTurn rs g t \<longleftrightarrow> (g, t) \<in> decisionTurn ` set rs"
  by (auto simp: decisionExistsForTurn_def list_ex_iff decisionTurn_def image_iff)

lemma afterTurnAt_effect:
  assumes ok: "goalFileOk (rt_spec c) (tg_workspace t) (tg_session t) (gn_goals x)"
      "decisionFileOk (rt_json c) (tg_workspace t) (tg_session t) (gn_ledger x)"
    and run: "afterTurnAt c env t a m x = (x', h, e)"
  shows "turnOutcome c env (tg_workspace t) (tg_session t) (tg_goal t) (im_id m) x x' \<and>
    (h \<longrightarrow> e = [] \<longrightarrow> trim_space (tg_goal t) = tg_goal t \<longrightarrow>
       (tg_goal t, im_id m) \<in> decisionTurn ` set (decisionsOf (gn_ledger x')))"
proof -
  have none: "turnOutcome c env (tg_workspace t) (tg_session t) (tg_goal t) (im_id m) x x"
    using ok by (intro turnOutcome_none) simp_all
  show ?thesis
  proof (cases "tg_goal t = [] \<or> im_id m = []")
    case True
    with run none show ?thesis by (auto simp: afterTurnAt_def split: if_splits)
  next
    case False
    show ?thesis
    proof (cases "fileListDecisions (rt_json c) (ca_ctx (te_list env)) (ca_io (te_list env)) (tg_workspace t) (tg_session t)
        (gn_ledger x)")
      case (Inl e')
      with False run none show ?thesis by (auto simp: afterTurnAt_def)
    next
      case (Inr rs)
      then obtain st where "loadDecisions (rt_json c) (ca_io (te_list env)) (tg_workspace t) (tg_session t) (gn_ledger x) = Inr st"
        "rs = dl_records st" by (auto simp: fileListDecisions_def)
      with loadDecisions_ok [OF ok(2)] have rs: "rs = decisionsOf (gn_ledger x)" by auto
      show ?thesis
      proof (cases "decisionExistsForTurn rs (tg_goal t) (im_id m)")
        case True
        with False Inr run none rs show ?thesis by (auto simp: afterTurnAt_def decisionExists_iff)
      next
        case notyet: False
        with False Inr run rs have "accountPhase c env (tg_workspace t) (tg_session t) (tg_goal t) a (decisionsOf (gn_ledger x)) m x
            = (x', h, e)" by (simp add: afterTurnAt_def)
        from accountPhase_effect [OF ok this] False show ?thesis by blast
      qed
    qed
  qed
qed

end
