(* ===== verification/GoalSpec.thy ===== *)
theory GoalSpec
  imports GoalProofs
begin

text \<open>
  The properties of the goal store and its service.
\<close>

section \<open>Reading the store\<close>

lemma goalWorld_records:
  assumes "goalWorldOk sp w s x" "w \<noteq> []" "s \<noteq> []"
  shows "fileListGoals sp False io_ok w s (gw_file x) = Inr (goalsOf x)" "goalsOk sp (goalsOf x)"
    "r \<in> set (goalsOf x) \<Longrightarrow> unat (go_usage r) = chargedTokens (go_id r) (gw_charges x)"
    "distinct (chargedMessages g (gw_charges x))"
proof -
  have load: "\<exists>st. loadGoals sp io_ok w s (gw_file x) = Inr st"
    using assms(1)
    by (auto simp: goalWorldOk_def goalStateOk_def loadGoals_def checkGoalState_def split: goal_file.splits)
  then obtain st where st: "loadGoals sp io_ok w s (gw_file x) = Inr st" by blast
  note rs = loaded_records [OF assms(1) st]
  note ok = loadGoals_ok [OF assms(1) st]
  note parts = goalStateOk_parts [OF ok]
  show "fileListGoals sp False io_ok w s (gw_file x) = Inr (goalsOf x)"
    using assms(2,3) st rs by (simp add: fileListGoals_def)
  show "goalsOk sp (goalsOf x)" using parts(1) unfolding rs .
  show "r \<in> set (goalsOf x) \<Longrightarrow> unat (go_usage r) = chargedTokens (go_id r) (gw_charges x)"
    using parts(4) unfolding rs .
  show "distinct (chargedMessages g (gw_charges x))"
  proof (cases "map_of (gf_accounted st) g")
    case (Some refs)
    then have "(g, refs) \<in> set (gf_accounted st)" by (rule map_of_SomeD)
    with parts(2) have "distinct refs" unfolding validateAccounted_iff by (auto simp: validAccounted_def)
    with Some parts(3) [of g] show ?thesis by (simp add: refsOf_def)
  next
    case None
    with parts(3) [of g] show ?thesis by (simp add: refsOf_def)
  qed
qed

text \<open>The loop over the records finds the only open one.\<close>

lemma openGoalFrom_one:
  "openCount rs + (if c = None then 0 else 1) \<le> 1 \<Longrightarrow>
     openGoalFrom c rs = Inr (if c = None then find (\<lambda>r. \<not> isTerminal (go_status r)) rs else c)"
proof (induction rs arbitrary: c)
  case (Cons r rs)
  show ?case
  proof (cases "isTerminal (go_status r)")
    case True
    with Cons show ?thesis by (simp add: openCount_def)
  next
    case False
    with Cons.prems have "c = None" "openCount rs = 0" by (auto simp: openCount_def split: if_splits)
    with False Cons.IH [of "Some r"] show ?thesis by simp
  qed
qed simp

section \<open>A sample session\<close>

text \<open>
  A goal is created, charged twice for one message, completed; the second goal is created, the
  third one refused.
\<close>

definition sampleGoalSpec :: goal_spec where
  "sampleGoalSpec =
     \<lparr>sp_valid = (\<lambda>gs. distinct (map go_id (gs_records gs))), sp_revision = 1, sp_max = 9007199254740991\<rparr>"

definition sampleGoal :: create_input where
  "sampleGoal = \<lparr>ci_objective = ''ship'', ci_budget = None\<rparr>"

definition sampleGoalOps :: "goal_op list" where
  "sampleGoalOps =
     [GCreate False io_ok 5 (Some ''g'') sampleGoal, GCharge False io_ok 6 ''g'' ''m'' 70,
      GCharge False io_ok 7 ''g'' ''m'' 70,
      GUpdate False io_ok 8 ''g'' \<lparr>ui_id = [], ui_status = GoalCompleted, ui_evidence = [''tests''], ui_blocked = []\<rparr>,
      GCreate False io_ok 9 (Some ''a'') sampleGoal, GCreate False io_ok 10 (Some ''b'') sampleGoal]"

definition sampleGoalG :: goal_record where
  "sampleGoalG = (newGoalRecord ''g'' 5 sampleGoal)
     \<lparr>go_usage := 70, go_status := GoalCompleted, go_updated := Stamp 8, go_completed := Stamp 8, go_evidence := [''tests'']\<rparr>"

lemma sample_goals:
  "goalsOf (run (goal_step sampleGoalSpec ''w'' ''s'') newGoalWorld sampleGoalOps) =
     [newGoalRecord ''a'' 9 sampleGoal, sampleGoalG]"
  "gw_charges (run (goal_step sampleGoalSpec ''w'' ''s'') newGoalWorld sampleGoalOps) = [(''g'', ''m'', 70)]"
  by code_simp+

section \<open>Properties\<close>

text \<open>
  C28: whatever is created, updated and charged, with whatever faults, the file of a session stays
  readable and holds at most one unfinished goal; reading the open goal returns it, and the
  answer \<open>ErrMultipleOpenGoals\<close> never occurs.
\<close>

theorem one_open_goal:
  assumes "w \<noteq> []" "s \<noteq> []" "x = run (goal_step sp w s) newGoalWorld ops"
  shows "readOpenGoal sp False io_ok w s (gw_file x) = Inr (find (\<lambda>r. \<not> isTerminal (go_status r)) (goalsOf x)) \<and>
    length (filter (\<lambda>r. \<not> isTerminal (go_status r)) (goalsOf x)) \<le> 1 \<and> sorted_wrt (<) (map go_id (goalsOf x))"
proof -
  note ok = goalWorld_records [OF goal_history.reachable_inv [of sp w s ops] assms(1,2), folded assms(3)]
  show ?thesis
    using ok(1,2) openGoalFrom_one [of _ None]
    by (simp add: readOpenGoal_def openGoal_def goalsOk_def openCount_def sortedGoals_def)
qed

theorem one_open_goal_witness:
  "readOpenGoal sampleGoalSpec False io_ok ''w'' ''s''
     (gw_file (run (goal_step sampleGoalSpec ''w'' ''s'') newGoalWorld sampleGoalOps)) =
   Inr (Some (newGoalRecord ''a'' 9 sampleGoal))"
proof -
  have "find (\<lambda>r. \<not> isTerminal (go_status r)) [newGoalRecord ''a'' 9 sampleGoal, sampleGoalG] =
      Some (newGoalRecord ''a'' 9 sampleGoal)" by code_simp
  then show ?thesis
    using one_open_goal [of "''w''" "''s''" _ sampleGoalSpec sampleGoalOps, OF _ _ refl] unfolding sample_goals by simp
qed

text \<open>
  Goals only make progress: every goal of an earlier state is still there later with its
  objective, creation time and budget, its evidence only extended, its usage not lower, and its
  status unchanged once it is completed or cancelled.
\<close>

theorem goals_only_progress:
  "goalWorldKept (run (goal_step sp w s) newGoalWorld xs) (run (goal_step sp w s) newGoalWorld (xs @ ys))"
  by (rule goal_history.later_below)

text \<open>
  C29: the usage recorded on a goal is exactly the sum of the deltas of the messages that were
  charged to it, no message was charged twice, and the sum stays within the largest JSON-safe
  integer: it never wraps around.
\<close>

theorem usage_is_charged_once:
  assumes "w \<noteq> []" "s \<noteq> []" "r \<in> set (goalsOf (run (goal_step sp w s) newGoalWorld ops))"
  shows "unat (go_usage r) = chargedTokens (go_id r) (gw_charges (run (goal_step sp w s) newGoalWorld ops)) \<and>
    distinct (chargedMessages (go_id r) (gw_charges (run (goal_step sp w s) newGoalWorld ops))) \<and>
    go_usage r \<le> sp_max sp"
proof -
  note ok = goalWorld_records [OF goal_history.reachable_inv assms(1,2)]
  show ?thesis using ok(2) ok(3) [OF assms(3)] ok(4) assms(3) by (simp add: goalsOk_def)
qed

theorem usage_is_charged_once_witness:
  "unat (go_usage sampleGoalG) = chargedTokens ''g'' [(''g'', ''m'', 70)] \<and>
    distinct (chargedMessages ''g'' [(''g'', ''m'', 70)]) \<and> go_usage sampleGoalG \<le> 9007199254740991"
  using usage_is_charged_once [of "''w''" "''s''" sampleGoalG sampleGoalSpec sampleGoalOps] unfolding sample_goals
  by (simp add: sampleGoalG_def newGoalRecord_def sampleGoalSpec_def)

end
