(* ===== verification/GoalRuntimeSpec.thy ===== *)
theory GoalRuntimeSpec
  imports GoalRuntimeProofs GoalSpec
begin

text \<open>
  The runtime of one session as a transition system: turns with any faults and answers, between
  them any calls of the goal service.
\<close>

section \<open>The session\<close>

datatype session_op =
    SessionTurn turn_env "string option" request_address inbound_message
  | SessionGoal goal_op

definition newSession :: goal_session where
  "newSession = \<lparr>gn_goals = NoGoalFile, gn_ledger = NoDecisions, gn_handoff = Some [], gn_sent = []\<rparr>"

text \<open>A turn that is addressed to another session works on other files.\<close>

definition turnOf :: "runtime_config \<Rightarrow> turn_env \<Rightarrow> string \<Rightarrow> string \<Rightarrow> string option \<Rightarrow> request_address \<Rightarrow> inbound_message
  \<Rightarrow> goal_session \<Rightarrow> turn_result" where
  "turnOf c env w s g a m x =
     (if g = None \<and> (turnWorkspace c a \<noteq> w \<or> ma_thread a \<noteq> s) then (x, False, [])
      else afterTurn c env (map_option (\<lambda>g. \<lparr>tg_workspace = w, tg_session = s, tg_goal = g\<rparr>) g) a m x)"

fun session_step :: "runtime_config \<Rightarrow> string \<Rightarrow> string \<Rightarrow> session_op \<Rightarrow> goal_session \<Rightarrow> goal_session" where
  "session_step c w s (SessionTurn env g a m) x = fst (turnOf c env w s g a m x)"
| "session_step c w s (SessionGoal op) x =
     x\<lparr>gn_goals := gw_file (goal_step (rt_spec c) w s op \<lparr>gw_file = gn_goals x, gw_charges = []\<rparr>)\<rparr>"

definition plans :: "decision_record list \<Rightarrow> decision_record list" where
  "plans rs = filter (\<lambda>r. de_action r = ContinuationPlanned) rs"

definition sessionOk :: "runtime_config \<Rightarrow> string \<Rightarrow> string \<Rightarrow> goal_session \<Rightarrow> bool" where
  "sessionOk c w s x \<longleftrightarrow>
     goalFileOk (rt_spec c) w s (gn_goals x) \<and> decisionFileOk (rt_json c) w s (gn_ledger x) \<and>
     map sentKey (gn_sent x) = map planKey (plans (decisionsOf (gn_ledger x))) \<and>
     distinct (map decisionTurn (plans (decisionsOf (gn_ledger x))))"

definition sessionKept :: "goal_session \<Rightarrow> goal_session \<Rightarrow> bool" where
  "sessionKept x y \<longleftrightarrow>
     goalFileKept (gn_goals x) (gn_goals y) \<and> prefix (decisionsOf (gn_ledger x)) (decisionsOf (gn_ledger y)) \<and>
     prefix (gn_sent x) (gn_sent y)"

lemma goal_step_charges:
  "gw_file (goal_step sp w s op \<lparr>gw_file = f, gw_charges = cs\<rparr>) = gw_file (goal_step sp w s op \<lparr>gw_file = f, gw_charges = cs'\<rparr>)"
  by (cases op) (auto split: sum.splits prod.splits bool.splits)

text \<open>A turn of the session either does nothing or is the turn of some goal.\<close>

lemma turnOf_cases:
  assumes "turnOf c env w s g a m x = (x', h, e)"
  obtains (nothing) "x' = x"
    | (turn) k where "afterTurnAt c env \<lparr>tg_workspace = w, tg_session = s, tg_goal = k\<rparr> a m x = (x', h, e)"
proof (cases g)
  case (Some k)
  with assms turn show thesis by (simp add: turnOf_def afterTurn_def)
next
  case None
  show thesis
  proof (cases "turnWorkspace c a \<noteq> w \<or> ma_thread a \<noteq> s")
    case True
    with None assms have "x' = x" by (auto simp: turnOf_def)
    then show thesis by (rule nothing)
  next
    case here: False
    show thesis
    proof (cases "beginTurn c (te_begin env) a (gn_goals x)")
      case (Inl e')
      with None here assms have "x' = x" by (auto simp: turnOf_def afterTurn_def)
      then show thesis by (rule nothing)
    next
      case (Inr t)
      then have "tg_workspace t = w" "tg_session t = s"
        using here by (auto simp: beginTurn_def Let_def split: if_splits sum.splits)
      then have "t = \<lparr>tg_workspace = w, tg_session = s, tg_goal = tg_goal t\<rparr>" by (cases t) simp
      moreover have "afterTurnAt c env t a m x = (x', h, e)"
        using None here Inr assms by (simp add: turnOf_def afterTurn_def)
      ultimately show thesis using turn by metis
    qed
  qed
qed

lemma plans_append [simp]: "plans (rs @ rs') = plans rs @ plans rs'"
  by (simp add: plans_def)

lemma plans_none: "\<forall>d \<in> set L. de_action d \<noteq> ContinuationPlanned \<Longrightarrow> plans L = []"
  by (simp add: plans_def filter_empty_conv)

text \<open>What a turn adds in terms of plans and deliveries.\<close>

lemma turnOutcome_plans:
  assumes "turnOutcome c env w s g t x x'"
  obtains L S where "extends (rt_json c) w s L S x x'" "map sentKey S = map planKey (plans L)"
    "plans L = [] \<or> (\<exists>p. plans L = [p] \<and> decisionTurn p = (g, t) \<and> (g, t) \<notin> decisionTurn ` set (decisionsOf (gn_ledger x)))"
    "goalFileOk (rt_spec c) w s (gn_goals x')" "goalFileKept (gn_goals x) (gn_goals x')"
proof -
  from assms obtain L S where L: "extends (rt_json c) w s L S x x'"
    "(\<exists>k. decided k L S) \<or> (\<exists>r. planned g t r L S) \<and> (g, t) \<notin> decisionTurn ` set (decisionsOf (gn_ledger x))"
    "goalFileOk (rt_spec c) w s (gn_goals x')" "goalFileKept (gn_goals x) (gn_goals x')"
    unfolding turnOutcome_def by blast
  from L(2) have "map sentKey S = map planKey (plans L) \<and> (plans L = [] \<or> (\<exists>p. plans L = [p] \<and> decisionTurn p = (g, t) \<and>
      (g, t) \<notin> decisionTurn ` set (decisionsOf (gn_ledger x))))"
  proof
    assume "\<exists>k. decided k L S"
    then have "S = []" "plans L = []" using plans_none by (auto simp: decided_def)
    then show ?thesis by simp
  next
    assume pl: "(\<exists>r. planned g t r L S) \<and> (g, t) \<notin> decisionTurn ` set (decisionsOf (gn_ledger x))"
    then obtain p A i where p: "L = p # A" "S = [i]" "de_action p = ContinuationPlanned" "de_goal p = g" "de_turn p = t"
      "planKey p = sentKey i" "\<forall>d \<in> set A. de_action d \<noteq> ContinuationPlanned" by (auto simp: planned_def)
    then have "plans L = [p]" using plans_none [of A] by (simp add: plans_def)
    with p pl show ?thesis by (simp add: decisionTurn_def)
  qed
  with L that show thesis by blast
qed

lemma session_step_ok:
  assumes ok: "sessionOk c w s x"
  shows "sessionOk c w s (session_step c w s op x) \<and> sessionKept x (session_step c w s op x)"
proof (cases op)
  case (SessionGoal gop)
  let ?f = "gw_file (goal_step (rt_spec c) w s gop \<lparr>gw_file = gn_goals x, gw_charges = []\<rparr>)"
  have "goalFileOk (rt_spec c) w s (gn_goals x)" using ok by (simp add: sessionOk_def)
  from goal_step_file [OF this, of gop] have "goalFileOk (rt_spec c) w s ?f" "goalFileKept (gn_goals x) ?f"
    using goal_step_charges by metis+
  with SessionGoal ok show ?thesis by (simp add: sessionOk_def sessionKept_def)
next
  case (SessionTurn env g a m)
  have okx: "goalFileOk (rt_spec c) w s (gn_goals x)" "decisionFileOk (rt_json c) w s (gn_ledger x)"
    using ok by (simp_all add: sessionOk_def)
  obtain x' h e where t: "turnOf c env w s g a m x = (x', h, e)" using prod_cases3 by blast
  then have "sessionOk c w s x' \<and> sessionKept x x'"
  proof (cases rule: turnOf_cases)
    case nothing
    with ok show ?thesis by (simp add: sessionKept_def)
  next
    case (turn k)
    from afterTurnAt_effect [OF _ _ turn] okx have "turnOutcome c env w s k (im_id m) x x'" by simp
    then obtain L S where L: "extends (rt_json c) w s L S x x'" "map sentKey S = map planKey (plans L)"
      "plans L = [] \<or> (\<exists>p. plans L = [p] \<and> decisionTurn p = (k, im_id m) \<and>
         (k, im_id m) \<notin> decisionTurn ` set (decisionsOf (gn_ledger x)))"
      "goalFileOk (rt_spec c) w s (gn_goals x')" "goalFileKept (gn_goals x) (gn_goals x')"
      by (rule turnOutcome_plans)
    have "set (plans (decisionsOf (gn_ledger x))) \<subseteq> set (decisionsOf (gn_ledger x))" by (auto simp: plans_def)
    with L ok show ?thesis by (auto simp: sessionOk_def sessionKept_def extends_def)
  qed
  with SessionTurn t show ?thesis by simp
qed

interpretation goal_session: monotone_machine newSession "session_step c w s" "sessionOk c w s" sessionKept for c w s
proof unfold_locales
  show "sessionOk c w s newSession"
    by (simp add: sessionOk_def newSession_def goalFileOk_def goalWorldOk_def decisionFileOk_def decisionsOf_def plans_def)
  show "sessionOk c w s x \<Longrightarrow> sessionOk c w s (session_step c w s op x)" for op x using session_step_ok by blast
  show "sessionKept x x" for x by (simp add: sessionKept_def)
  show "sessionKept x y \<Longrightarrow> sessionKept y z \<Longrightarrow> sessionKept x z" for x y z
    unfolding sessionKept_def by (meson goalFileKept_trans prefix_order.trans)
  show "sessionOk c w s x \<Longrightarrow> sessionKept x (session_step c w s op x)" for op x using session_step_ok by blast
qed

section \<open>The bound on continuations\<close>

definition reliable :: "session_op \<Rightarrow> bool" where
  "reliable op = (case op of SessionTurn env _ _ _ \<Rightarrow> \<not> verifierFailedIn env | SessionGoal _ \<Rightarrow> True)"

definition budgetSpent :: "string \<Rightarrow> goal_session \<Rightarrow> bool" where
  "budgetSpent g x \<longleftrightarrow> (\<exists>r \<in> set (storedGoals (gn_goals x)). go_id r = g \<and> budgetReached r)"

definition withinCap :: "32 word \<Rightarrow> string \<Rightarrow> goal_session \<Rightarrow> bool" where
  "withinCap m g x \<longleftrightarrow>
     (let n = length (plannedFor g (decisionsOf (gn_ledger x))); wrap = wrapUpAlreadyPlanned (decisionsOf (gn_ledger x)) g
      in n \<le> unat m + (if wrap then 1 else 0) \<and> (wrap \<longrightarrow> budgetSpent g x) \<and> (m = 0 \<longrightarrow> n = 0))"

lemma budgetSpent_kept: "goalFileKept (gn_goals x) (gn_goals y) \<Longrightarrow> budgetSpent g x \<Longrightarrow> budgetSpent g y"
proof -
  have "goalKept r r' \<Longrightarrow> go_id r' = go_id r \<and> (budgetReached r \<longrightarrow> budgetReached r')" for r r'
    unfolding goalKept_def budgetReached_def by (auto split: option.splits)
  then show "goalFileKept (gn_goals x) (gn_goals y) \<Longrightarrow> budgetSpent g x \<Longrightarrow> budgetSpent g y"
    unfolding goalFileKept_def budgetSpent_def by blast
qed

lemma wrapUp_append: "wrapUpAlreadyPlanned (rs @ rs') g = (wrapUpAlreadyPlanned rs g \<or> wrapUpAlreadyPlanned rs' g)"
  by (simp add: wrapUpAlreadyPlanned_def)

lemma plannedFor_append: "plannedFor g (rs @ rs') = plannedFor g rs @ plannedFor g rs'"
  by (simp add: plannedFor_def)

lemma outcomeReasons_wrapUp: "ReasonTokenBudgetWrapUp \<notin> outcomeReasons"
  by (simp add: outcomeReasons_def)

text \<open>A policy that did not go on never names the wrap-up round.\<close>

lemma boundedDecide_stays:
  "\<not> wentOn (boundedDecide m i) \<Longrightarrow> pd_reason (boundedDecide m i) \<noteq> ReasonTokenBudgetWrapUp"
  by (auto simp: wentOn_def boundedDecide_def withinBounds_def policy_decisions Let_def
      split: goal_status.splits option.splits if_splits)

lemma withinCap_turn:
  assumes "rt_policy c = boundedDecide m" "\<not> verifierFailedIn env" "turnOutcome c env w s k t x x'" "withinCap m g x"
  shows "withinCap m g x'"
proof -
  let ?rs = "decisionsOf (gn_ledger x)"
  note cap = assms(4) [unfolded withinCap_def Let_def]
  from assms(3) obtain L S where ext: "extends (rt_json c) w s L S x x'" and stored: "goalFileOk (rt_spec c) w s (gn_goals x')"
    and kept: "goalFileKept (gn_goals x) (gn_goals x')"
    and out: "(\<exists>n q v. decided n L S \<and> (n \<in> outcomeReasons \<or> n = pd_reason (policyAnswer c ?rs q v) \<and> \<not> wentOn (policyAnswer c ?rs q v))) \<or>
      (\<exists>q v. planned k t (pd_reason (policyAnswer c ?rs q v)) L S \<and> wentOn (policyAnswer c ?rs q v) \<and>
         q \<in> set (storedGoals (gn_goals x')) \<and> go_id q = k)"
    using assms(2) unfolding turnOutcome_def by blast
  have rs: "decisionsOf (gn_ledger x') = ?rs @ L" using ext by (simp add: extends_def)
  have spent: "budgetSpent g x \<Longrightarrow> budgetSpent g x'" by (rule budgetSpent_kept [OF kept])
  have wrapless: "withinCap m g x'" if "plannedFor g L = []" "\<not> wrapUpAlreadyPlanned L g"
    using cap that spent by (simp add: withinCap_def rs wrapUp_append plannedFor_append)
  from out show ?thesis
  proof
    assume "\<exists>n q v. decided n L S \<and> (n \<in> outcomeReasons \<or> n = pd_reason (policyAnswer c ?rs q v) \<and> \<not> wentOn (policyAnswer c ?rs q v))"
    then obtain n where n: "decided n L S" "n \<noteq> ReasonTokenBudgetWrapUp"
      using outcomeReasons_wrapUp boundedDecide_stays unfolding policyAnswer_def assms(1) by metis
    then have "plannedFor g L = []" "\<not> wrapUpAlreadyPlanned L g"
      using outcomeReasons_wrapUp by (auto simp: decided_def plannedFor_def filter_empty_conv wrapUpAlreadyPlanned_def list_ex_iff)
    then show ?thesis by (rule wrapless)
  next
    assume "\<exists>q v. planned k t (pd_reason (policyAnswer c ?rs q v)) L S \<and> wentOn (policyAnswer c ?rs q v) \<and>
         q \<in> set (storedGoals (gn_goals x')) \<and> go_id q = k"
    then obtain q v where q: "planned k t (pd_reason (policyAnswer c ?rs q v)) L S" "wentOn (policyAnswer c ?rs q v)"
      "q \<in> set (storedGoals (gn_goals x'))" "go_id q = k" by blast
    let ?i = "\<lparr>pi_goal = q, pi_used = countPlannedContinuations ?rs k, pi_verification = v, pi_wrap_up = wrapUpAlreadyPlanned ?rs k\<rparr>"
    have answer: "policyAnswer c ?rs q v = boundedDecide m ?i" by (simp add: policyAnswer_def assms(1) q(4))
    have go: "pd_continue (boundedDecide m ?i)" using q(2) answer by (simp add: wentOn_def)
    note policy = boundedDecide_goes_on [OF go]
    from q(1) obtain p A where L: "L = p # A" "de_action p = ContinuationPlanned" "de_goal p = k"
      "de_reason p = pd_reason (boundedDecide m ?i)"
      "\<forall>d \<in> set A. de_action d \<noteq> ContinuationPlanned \<and> de_goal d = k \<and> de_reason d \<in> insert (pd_reason (boundedDecide m ?i)) outcomeReasons"
      unfolding answer by (auto simp: planned_def)
    show ?thesis
    proof (cases "g = k")
      case False
      with L have "plannedFor g L = []" "\<not> wrapUpAlreadyPlanned L g"
        by (auto simp: plannedFor_def filter_empty_conv wrapUpAlreadyPlanned_def list_ex_iff)
      then show ?thesis by (rule wrapless)
    next
      case True
      have one: "plannedFor g L = [p]" using L True by (auto simp: plannedFor_def filter_empty_conv)
      show ?thesis
      proof (cases "budgetReached q")
        case reached: True
        have fresh: "\<not> wrapUpAlreadyPlanned ?rs k" "de_reason p = ReasonTokenBudgetWrapUp"
          using policy(4) reached unfolding L(4) policy_input.select_convs by blast+
        then have "wrapUpAlreadyPlanned L g" using L True by (simp add: wrapUpAlreadyPlanned_def)
        moreover have "budgetSpent g x'" using reached q(3,4) True unfolding budgetSpent_def by blast
        ultimately show ?thesis
          using cap one fresh(1) True policy(2) by (simp add: withinCap_def rs wrapUp_append plannedFor_append word_gt_0)
      next
        case within: False
        have bound: "countPlannedContinuations ?rs k < m" "de_reason p \<noteq> ReasonTokenBudgetWrapUp"
          using policy(5) within unfolding L(4) policy_input.select_convs by blast+
        have "\<not> budgetSpent k x'"
          using within q(3,4) goalFileOk_unique [OF stored] unfolding budgetSpent_def by metis
        then have nowrap: "\<not> wrapUpAlreadyPlanned ?rs k" using cap spent True by metis
        have "\<not> wrapUpAlreadyPlanned L g"
          using L bound(2) outcomeReasons_wrapUp by (auto simp: wrapUpAlreadyPlanned_def list_ex_iff)
        moreover have "length (plannedFor k ?rs) < unat m"
        proof -
          have "length (plannedFor k ?rs) \<le> unat m" using cap nowrap True by simp
          moreover have "unat m < 2 ^ 32" using unsigned_less [of m] by simp
          ultimately have "unat (countPlannedContinuations ?rs k) = length (plannedFor k ?rs)"
            unfolding countPlanned_eq unat_of_nat by simp
          with bound(1) show ?thesis by (simp add: word_less_nat_alt)
        qed
        ultimately show ?thesis
          using one nowrap True policy(2) by (simp add: withinCap_def rs wrapUp_append plannedFor_append word_gt_0)
      qed
    qed
  qed
qed

lemma withinCap_step:
  assumes "rt_policy c = boundedDecide m" "sessionOk c w s x" "reliable op" "withinCap m g x"
  shows "withinCap m g (session_step c w s op x)"
proof (cases op)
  case (SessionGoal gop)
  have "goalFileKept (gn_goals x) (gn_goals (session_step c w s op x))"
    using session_step_ok [OF assms(2)] by (simp add: sessionKept_def)
  moreover have "gn_ledger (session_step c w s op x) = gn_ledger x" using SessionGoal by simp
  ultimately show ?thesis using assms(4) budgetSpent_kept by (auto simp: withinCap_def Let_def)
next
  case (SessionTurn env k a msg)
  obtain x' h e where t: "turnOf c env w s k a msg x = (x', h, e)" using prod_cases3 by blast
  then have "withinCap m g x'"
  proof (cases rule: turnOf_cases)
    case nothing
    with assms(4) show ?thesis by simp
  next
    case (turn j)
    have "turnOutcome c env w s j (im_id msg) x x'"
      using afterTurnAt_effect [OF _ _ turn] assms(2) by (simp add: sessionOk_def)
    with assms(3) SessionTurn show ?thesis
      by (intro withinCap_turn [OF assms(1) _ _ assms(4)]) (simp_all add: reliable_def)
  qed
  with SessionTurn t show ?thesis by simp
qed

lemma withinCap_run:
  assumes "rt_policy c = boundedDecide m"
  shows "sessionOk c w s x \<Longrightarrow> withinCap m g x \<Longrightarrow> \<forall>op \<in> set ops. reliable op \<Longrightarrow> withinCap m g (run (session_step c w s) x ops)"
proof (induction ops arbitrary: x)
  case (Cons op ops)
  then show ?case using withinCap_step [OF assms] goal_session.step_inv by simp
qed simp

section \<open>A sample session\<close>

definition sampleConfig :: "32 word \<Rightarrow> runtime_config" where
  "sampleConfig m =
     \<lparr>rt_policy = boundedDecide m, rt_spec = sampleGoalSpec, rt_json = sampleJs, rt_streak = 3,
      rt_default_workspace = ''w'', rt_backend = False, rt_enqueuer = True,
      rt_usage = (\<lambda>raw. if raw = ''10'' then Some 10 else Some 1), rt_meta = (\<lambda>_ _ _. []),
      rt_text_part = (\<lambda>_. ''part''), rt_status_text = (\<lambda>_. ''active'')\<rparr>"

definition sampleCall :: call_env where
  "sampleCall = \<lparr>ca_ctx = False, ca_io = io_ok, ca_now = 5\<rparr>"

definition sampleEnv :: "(string + verification) option \<Rightarrow> turn_env" where
  "sampleEnv v =
     \<lparr>te_begin = sampleCall, te_list = sampleCall, te_account = sampleCall, te_update = sampleCall,
      te_decide = sampleCall, te_followup = sampleCall, te_verdict = v, te_message_id = Some ''cont'',
      te_task_id = Some ''task'', te_request_id = Some ''req'', te_authority = None, te_token = [],
      te_admit = (None, noReceipt), te_enqueue = None\<rparr>"

definition sampleAddr :: request_address where
  "sampleAddr =
     \<lparr>ma_tenant = [], ma_user = [], ma_ownership = [], ma_workspace = ''w'', ma_thread = ''s'', ma_task = [], ma_request = []\<rparr>"

definition sampleReply :: "string \<Rightarrow> string \<Rightarrow> inbound_message" where
  "sampleReply k n =
     \<lparr>im_id = k, im_role = RoleAssistant, im_addr = sampleAddr, im_content = [''x''],
      im_meta = Some [(''scitrera_usage'', n)]\<rparr>"

definition sampleBudget :: session_op where
  "sampleBudget = SessionGoal (GCreate False io_ok 5 (Some ''g'') \<lparr>ci_objective = ''ship'', ci_budget = Some 10\<rparr>)"

definition sampleTurn :: "(string + verification) option \<Rightarrow> string \<Rightarrow> string \<Rightarrow> session_op" where
  "sampleTurn v k n = SessionTurn (sampleEnv v) None sampleAddr (sampleReply k n)"

definition openVerdict :: verification where
  "openVerdict = \<lparr>vr_satisfied = False, vr_feedback = [], vr_criteria = [], vr_evidence = []\<rparr>"

section \<open>Properties\<close>

text \<open>
  C24: under the bounded policy and a verifier that does not fail, a goal never gets more than
  \<open>MaxContinuations\<close> planned follow-ups and one wrap-up round (and none when the maximum is zero),
  whatever the stores, the queue, the backend and the callers of the goal service do; the 32-bit
  counter does not wrap around.
\<close>

theorem continuations_are_bounded:
  assumes "rt_policy c = boundedDecide m" "\<forall>op \<in> set ops. reliable op" "x = run (session_step c w s) newSession ops"
  shows "length (plannedFor g (decisionsOf (gn_ledger x))) \<le> (if m = 0 then 0 else unat m + 1)"
proof -
  have "withinCap m g newSession"
    by (simp add: withinCap_def newSession_def decisionsOf_def plannedFor_def wrapUpAlreadyPlanned_def)
  from withinCap_run [OF assms(1) goal_session.init_inv this assms(2)] have "withinCap m g x" unfolding assms(3) .
  then show ?thesis by (cases "wrapUpAlreadyPlanned (decisionsOf (gn_ledger x)) g") (auto simp: withinCap_def Let_def)
qed

text \<open>The bound is reached: with a maximum of one, two follow-ups.\<close>

theorem continuations_are_bounded_witness:
  "length (plannedFor ''g'' (decisionsOf (gn_ledger (run (session_step (sampleConfig 1) ''w'' ''s'') newSession
      [sampleBudget, sampleTurn None ''1'' ''1'', sampleTurn None ''2'' ''10'', sampleTurn None ''3'' ''1''])))) \<le> 2 \<and>
   map de_reason (decisionsOf (gn_ledger (run (session_step (sampleConfig 1) ''w'' ''s'') newSession
      [sampleBudget, sampleTurn None ''1'' ''1'', sampleTurn None ''2'' ''10'', sampleTurn None ''3'' ''1'']))) =
     [ReasonActiveGoal, ReasonActiveGoal, ReasonTokenBudgetWrapUp, ReasonTokenBudgetWrapUp, ReasonTokenBudget]"
proof -
  let ?ops = "[sampleBudget, sampleTurn None ''1'' ''1'', sampleTurn None ''2'' ''10'', sampleTurn None ''3'' ''1'']"
  have "rt_policy (sampleConfig 1) = boundedDecide 1" by (simp add: sampleConfig_def)
  moreover have "\<forall>op \<in> set ?ops. reliable op"
    by (simp add: reliable_def sampleBudget_def sampleTurn_def verifierFailedIn_def sampleEnv_def)
  moreover have "map de_reason (decisionsOf (gn_ledger (run (session_step (sampleConfig 1) ''w'' ''s'') newSession ?ops))) =
     [ReasonActiveGoal, ReasonActiveGoal, ReasonTokenBudgetWrapUp, ReasonTokenBudgetWrapUp, ReasonTokenBudget]"
    by code_simp
  ultimately show ?thesis
    using continuations_are_bounded [of "sampleConfig 1" 1 ?ops _ "''w''" "''s''" "''g''", OF _ _ refl] by simp
qed

text \<open>
  C25: plans and deliveries correspond. In every run the deliveries that were asked for, in order,
  are exactly those of the recorded plans (same message id and request id), and no turn of a goal
  has two plans: a continuation is neither sent without a durable plan nor sent twice.
\<close>

theorem each_plan_is_delivered_once:
  "let x = run (session_step c w s) newSession ops in
     map sentKey (gn_sent x) = map planKey (plans (decisionsOf (gn_ledger x))) \<and>
     distinct (map decisionTurn (plans (decisionsOf (gn_ledger x))))"
  using goal_session.reachable_inv [of c w s ops] unfolding sessionOk_def Let_def by blast

text \<open>
  A decided turn is not decided again. When \<open>AfterTurn\<close> returned for a goal without an error,
  then after any later turns and goal updates another \<open>AfterTurn\<close> for the same assistant message
  changes nothing: no charge, no verifier, no decision, no delivery.
\<close>

theorem decided_turn_is_not_repeated:
  assumes "x = run (session_step c w s) newSession ops"
    and "turnOf c env w s (Some g) a m x = (y, True, [])" "trim_space g = g" "w \<noteq> []" "s \<noteq> []"
    and "\<not> ca_ctx (te_list env')" "\<not> io_read_fails (ca_io (te_list env'))" "im_id m' = im_id m"
  shows "turnOf c env' w s (Some g) a' m' (run (session_step c w s) y later) =
    (run (session_step c w s) y later, True, [])"
proof -
  let ?t = "\<lparr>tg_workspace = w, tg_session = s, tg_goal = g\<rparr>" and ?z = "run (session_step c w s) y later"
  have okx: "sessionOk c w s x" unfolding assms(1) by (rule goal_session.reachable_inv)
  have at_t: "afterTurnAt c env ?t a m x = (y, True, [])"
    using assms(2) by (simp add: turnOf_def afterTurn_def)
  then have "g \<noteq> []" "im_id m \<noteq> []" by (auto simp: afterTurnAt_def split: if_splits)
  have decided: "(g, im_id m) \<in> decisionTurn ` set (decisionsOf (gn_ledger y))"
    using afterTurnAt_effect [OF _ _ at_t] okx assms(3) by (simp add: sessionOk_def)
  have "session_step c w s (SessionTurn env (Some g) a m) x = y" using assms(2) by simp
  with goal_session.step_inv [OF okx] have oky: "sessionOk c w s y" by metis
  then have okz: "sessionOk c w s ?z" by (rule goal_session.run_inv)
  have "prefix (decisionsOf (gn_ledger y)) (decisionsOf (gn_ledger ?z))"
    using goal_session.run_below [OF oky] by (simp add: sessionKept_def)
  then have exists: "decisionExistsForTurn (decisionsOf (gn_ledger ?z)) g (im_id m)"
    using decided set_mono_prefix unfolding decisionExists_iff by blast
  obtain st where st: "loadDecisions (rt_json c) (ca_io (te_list env')) w s (gn_ledger ?z) = Inr st"
    using okz assms(7) by (auto simp: sessionOk_def decisionFileOk_def loadDecisions_def split: decision_file.splits)
  then have "dl_records st = decisionsOf (gn_ledger ?z)"
    using loadDecisions_ok okz by (auto simp: sessionOk_def)
  with st have "fileListDecisions (rt_json c) (ca_ctx (te_list env')) (ca_io (te_list env')) w s (gn_ledger ?z) =
      Inr (decisionsOf (gn_ledger ?z))"
    using assms(4-6) by (simp add: fileListDecisions_def validateLedgerIdentity_def)
  then show ?thesis
    using exists \<open>g \<noteq> []\<close> \<open>im_id m \<noteq> []\<close> assms(8) by (simp add: turnOf_def afterTurn_def afterTurnAt_def)
qed

theorem decided_turn_is_not_repeated_witness:
  "\<exists>y. turnOf (sampleConfig 1) (sampleEnv None) ''w'' ''s'' (Some ''g'') sampleAddr (sampleReply ''1'' ''1'')
        (run (session_step (sampleConfig 1) ''w'' ''s'') newSession [sampleBudget]) = (y, True, []) \<and>
      turnOf (sampleConfig 1) (sampleEnv None) ''w'' ''s'' (Some ''g'') sampleAddr (sampleReply ''1'' ''10'') y = (y, True, [])"
proof -
  let ?x = "run (session_step (sampleConfig 1) ''w'' ''s'') newSession [sampleBudget]"
  let ?t = "turnOf (sampleConfig 1) (sampleEnv None) ''w'' ''s'' (Some ''g'') sampleAddr (sampleReply ''1'' ''1'') ?x"
  have "snd ?t = (True, [])" by code_simp
  then have first: "?t = (fst ?t, True, [])" by (metis prod.collapse)
  have "trim_space ''g'' = ''g''" by code_simp
  moreover have "\<not> ca_ctx (te_list (sampleEnv None))" "\<not> io_read_fails (ca_io (te_list (sampleEnv None)))"
      "im_id (sampleReply ''1'' ''10'') = im_id (sampleReply ''1'' ''1'')"
    by (simp_all add: sampleEnv_def sampleCall_def sampleReply_def)
  ultimately have "turnOf (sampleConfig 1) (sampleEnv None) ''w'' ''s'' (Some ''g'') sampleAddr (sampleReply ''1'' ''10'')
      (run (session_step (sampleConfig 1) ''w'' ''s'') (fst ?t) []) =
      (run (session_step (sampleConfig 1) ''w'' ''s'') (fst ?t) [], True, [])"
    by (intro decided_turn_is_not_repeated [OF refl first]) auto
  then have "turnOf (sampleConfig 1) (sampleEnv None) ''w'' ''s'' (Some ''g'') sampleAddr (sampleReply ''1'' ''10'') (fst ?t) =
      (fst ?t, True, [])" unfolding run.simps(1) .
  with first show ?thesis by blast
qed

text \<open>
  The objective stays data: the prompt holds it once between its tags with every ampersand and
  angle bracket escaped, so it contains no bracket and cannot close the tag, and it can be read
  back.
\<close>

theorem objective_stays_in_its_tags:
  "\<exists>before after. continuationPrompt st g n r v =
      before @ ''<goal_objective>'' @ newline @ escapeGoalText (go_objective g) @ newline @ ''</goal_objective>'' @ after \<and>
    CHR ''<'' \<notin> set (escapeGoalText (go_objective g)) \<and> CHR ''>'' \<notin> set (escapeGoalText (go_objective g)) \<and>
    {o'. escapeGoalText o' = escapeGoalText (go_objective g)} = {go_objective g}"
  using escaped_no_brackets escapeGoalText_inj unfolding continuationPrompt_def by blast

text \<open>
  A tolerated verifier failure hides the wrap-up round. The budget of the goal is spent in the
  first turn and the maximum is one; while the verifier fails, each turn gets another follow-up
  under the reason \<open>verifier_failed\<close>, which is not counted as the one wrap-up round, so that three
  follow-ups are planned after the budget was reached.
\<close>

theorem tolerated_failure_hides_wrap_up:
  "map (\<lambda>r. (de_reason r, de_used r, de_usage r)) (plannedFor ''g'' (decisionsOf (gn_ledger
     (run (session_step (sampleConfig 1) ''w'' ''s'') newSession
        [sampleBudget, sampleTurn (Some (Inl ''down'')) ''1'' ''10'', sampleTurn (Some (Inl ''down'')) ''2'' ''1'',
         sampleTurn (Some (Inr openVerdict)) ''3'' ''1'', sampleTurn (Some (Inr openVerdict)) ''4'' ''1''])))) =
   [(ReasonVerifierFailed, 1, 10), (ReasonVerifierFailed, 2, 11), (ReasonTokenBudgetWrapUp, 3, 12)]"
  by code_simp

end
