(* ===== verification/SubagentRegistry.thy ===== *)
theory SubagentRegistry
  imports CasLoop Paths SortedRecords
begin

text \<open>
  Model of the lifecycle registries of \<open>pkg/subagent\<close>: the file registry with its interruption
  recovery (\<open>file_registry.go\<close>) and the distributed registry with its identity index and
  task-aware recovery (\<open>cas_registry.go\<close>). The record type and its validation belong to the
  messaging specification module: the fields the package uses are modelled, \<open>Validate\<close> and the
  schema revision are parameters.
\<close>

section \<open>Types\<close>

datatype sub_status =
    SubAdmitted | SubRunning | SubCompleted | SubFailed | SubCancelled | SubInterrupted | SubDeleted
  | SubOther string

type_synonym raw_map = "(string \<times> string) list option"

record sub_record =
  sr_id :: string
  sr_parent :: string
  sr_task :: string
  sr_name :: string
  sr_kind :: string
  sr_model :: string
  sr_status :: sub_status
  sr_created :: stamp
  sr_updated :: stamp
  sr_completed :: stamp
  sr_deleted :: stamp
  sr_parent_usage :: raw_map
  sr_child_usage :: raw_map

record registry_state =
  rs_version :: "32 word"
  rs_workspace :: string
  rs_parent :: string
  rs_revision :: "32 word"
  rs_records :: "sub_record list"

text \<open>The other module: \<open>SessionSubagentsState.Validate\<close> for a parent, and the schema revision.\<close>

record sub_spec =
  ss_valid :: "string \<Rightarrow> 32 word \<Rightarrow> sub_record list \<Rightarrow> bool"
  ss_revision :: "32 word"

datatype registry_error =
    ErrCorruptRegistry | ErrDeletedLifecycle | RegistryContext | RegistryInput | RegistryRead | RegistryWrite
  | RegistryTransition | RegistryRecover | RegistryTask | RegistryRetryLimit

definition fileRegistrySchemaVersion :: "32 word" where "fileRegistrySchemaVersion = 1"

record lifecycle_event =
  lv_workspace :: string
  lv_record :: sub_record

definition newRegistryState :: "sub_spec \<Rightarrow> string \<Rightarrow> string \<Rightarrow> registry_state" where
  "newRegistryState sp w p =
     \<lparr>rs_version = fileRegistrySchemaVersion, rs_workspace = w, rs_parent = p, rs_revision = ss_revision sp, rs_records = []\<rparr>"

definition validState :: "sub_spec \<Rightarrow> string \<Rightarrow> registry_state \<Rightarrow> bool" where
  "validState sp p st = ss_valid sp p (rs_revision st) (rs_records st)"

section \<open>One transition\<close>

definition unfinished :: "sub_status \<Rightarrow> bool" where
  "unfinished s \<longleftrightarrow> s = SubAdmitted \<or> s = SubRunning"

definition mergeSubagentRecord :: "sub_record \<Rightarrow> sub_record \<Rightarrow> sub_record" where
  "mergeSubagentRecord old new =
     (let r = new\<lparr>sr_created := (if sr_created old \<noteq> NoStamp then sr_created old else sr_created new),
                 sr_task := (if sr_task new = [] then sr_task old else sr_task new),
                 sr_name := (if sr_name new = [] then sr_name old else sr_name new),
                 sr_kind := (if sr_kind new = [] then sr_kind old else sr_kind new),
                 sr_model := (if sr_model new = [] then sr_model old else sr_model new),
                 sr_parent_usage := (if sr_parent_usage new = None then sr_parent_usage old else sr_parent_usage new),
                 sr_child_usage := (if sr_child_usage new = None then sr_child_usage old else sr_child_usage new)\<rparr>
      in if unfinished (sr_status new) then r\<lparr>sr_completed := NoStamp, sr_deleted := NoStamp\<rparr> else r)"

text \<open>
  \<open>putSubagentState\<close>: a deleted record takes no other status; otherwise the record is merged
  with the one that has its id, or inserted, and the state has to validate.
\<close>

definition putSubagentState :: "sub_spec \<Rightarrow> sub_record \<Rightarrow> registry_state \<Rightarrow> (registry_error, registry_state) result" where
  "putSubagentState sp r st =
     (let rs = rs_records st;
          i = sortSearch (length rs) (\<lambda>i. sr_id r \<le> sr_id (rs ! i));
          st' = st\<lparr>rs_records := putSorted sr_id mergeSubagentRecord r rs\<rparr>
      in if i < length rs \<and> sr_id (rs ! i) = sr_id r \<and> sr_status (rs ! i) = SubDeleted \<and> sr_status r \<noteq> SubDeleted
         then Inl ErrDeletedLifecycle
         else if validState sp (sr_parent r) st' then Inr st' else Inl RegistryTransition)"

section \<open>The file registry\<close>

datatype registry_file = UndecodableRegistry | RegistryFile registry_state

text \<open>The registry files by their path, in the order of the directory walk.\<close>

type_synonym registry_disk = "(string list \<times> registry_file) list"

definition registryPath :: "(string \<Rightarrow> string) \<Rightarrow> string \<Rightarrow> string \<Rightarrow> string list" where
  "registryPath sha w p =
     [''session-state'', ''workspaces'', pathSegment sha w, ''subagents'', pathSegment sha p @ ''.json'']"

definition checkRegistry :: "sub_spec \<Rightarrow> string \<Rightarrow> string \<Rightarrow> registry_state \<Rightarrow> (registry_error, registry_state) result" where
  "checkRegistry sp w p st =
     (if rs_version st \<noteq> fileRegistrySchemaVersion \<or> rs_workspace st \<noteq> w \<or> rs_parent st \<noteq> p then Inl ErrCorruptRegistry
      else if validState sp p st then Inr st else Inl ErrCorruptRegistry)"

definition loadRegistry ::
  "sub_spec \<Rightarrow> (string \<Rightarrow> string) \<Rightarrow> io_env \<Rightarrow> string \<Rightarrow> string \<Rightarrow> registry_disk \<Rightarrow> (registry_error, registry_state) result"
where
  "loadRegistry sp sha io w p d =
     (if io_read_fails io then Inl RegistryRead
      else case map_of d (registryPath sha w p) of
        None \<Rightarrow> Inr (newRegistryState sp w p)
      | Some UndecodableRegistry \<Rightarrow> Inl ErrCorruptRegistry
      | Some (RegistryFile st) \<Rightarrow> checkRegistry sp w p st)"

definition persistRegistry ::
  "(string \<Rightarrow> string) \<Rightarrow> io_env \<Rightarrow> registry_state \<Rightarrow> registry_disk \<Rightarrow> registry_disk \<times> (registry_error, unit) result" where
  "persistRegistry sha io st d =
     (if io_write_fails io then (d, Inl RegistryWrite)
      else (AList.update (registryPath sha (rs_workspace st) (rs_parent st)) (RegistryFile st) d, Inr ()))"

definition fileObserve ::
  "sub_spec \<Rightarrow> (string \<Rightarrow> string) \<Rightarrow> bool \<Rightarrow> io_env \<Rightarrow> lifecycle_event \<Rightarrow> registry_disk
     \<Rightarrow> registry_disk \<times> (registry_error, unit) result" where
  "fileObserve sp sha ctx_done io ev d =
     (let r = lv_record ev in
      if ctx_done then (d, Inl RegistryContext)
      else if lv_workspace ev = [] \<or> sr_parent r = [] then (d, Inl RegistryInput)
      else case and_then (loadRegistry sp sha io (lv_workspace ev) (sr_parent r) d) (putSubagentState sp r) of
        Inl e \<Rightarrow> (d, Inl e)
      | Inr st \<Rightarrow> persistRegistry sha io st d)"

definition fileListSubagents ::
  "sub_spec \<Rightarrow> (string \<Rightarrow> string) \<Rightarrow> bool \<Rightarrow> io_env \<Rightarrow> string \<Rightarrow> string \<Rightarrow> registry_disk \<Rightarrow> (registry_error, sub_record list) result"
where
  "fileListSubagents sp sha ctx_done io w p d =
     (if ctx_done then Inl RegistryContext
      else if w = [] \<or> p = [] then Inl RegistryInput
      else and_then (loadRegistry sp sha io w p d) (\<lambda>st. Inr (rs_records st)))"

text \<open>Recovery reads and checks every registry before it writes the first one.\<close>

definition interruptRecord :: "stamp \<Rightarrow> sub_record \<Rightarrow> sub_record" where
  "interruptRecord ts r =
     (if unfinished (sr_status r) then r\<lparr>sr_status := SubInterrupted, sr_updated := ts, sr_completed := ts\<rparr> else r)"

definition checkFound ::
  "sub_spec \<Rightarrow> (string \<Rightarrow> string) \<Rightarrow> bool \<Rightarrow> string list \<times> registry_file \<Rightarrow> (registry_error, registry_state) result" where
  "checkFound sp sha read_fails e =
     (if read_fails then Inl RegistryRead
      else case snd e of
        UndecodableRegistry \<Rightarrow> Inl ErrCorruptRegistry
      | RegistryFile st \<Rightarrow>
          if rs_version st \<noteq> fileRegistrySchemaVersion \<or> rs_workspace st = [] \<or> rs_parent st = [] \<or>
             fst e \<noteq> registryPath sha (rs_workspace st) (rs_parent st) then Inl ErrCorruptRegistry
          else if validState sp (rs_parent st) st then Inr st else Inl ErrCorruptRegistry)"

fun checkAll ::
  "sub_spec \<Rightarrow> (string \<Rightarrow> string) \<Rightarrow> (string list \<Rightarrow> bool) \<Rightarrow> registry_disk \<Rightarrow> (registry_error, registry_state list) result"
where
  "checkAll sp sha unreadable [] = Inr []"
| "checkAll sp sha unreadable (e # es) =
     and_then (checkFound sp sha (unreadable (fst e)) e) (\<lambda>st.
       and_then (checkAll sp sha unreadable es) (\<lambda>sts. Inr (st # sts)))"

fun recoverLoaded ::
  "sub_spec \<Rightarrow> (string \<Rightarrow> string) \<Rightarrow> (registry_state \<Rightarrow> io_env) \<Rightarrow> stamp \<Rightarrow> registry_state list \<Rightarrow> registry_disk
     \<Rightarrow> registry_disk \<times> (registry_error, unit) result" where
  "recoverLoaded sp sha io ts [] d = (d, Inr ())"
| "recoverLoaded sp sha io ts (st # sts) d =
     (if list_ex (\<lambda>r. unfinished (sr_status r)) (rs_records st) then
        (let st' = st\<lparr>rs_records := map (interruptRecord ts) (rs_records st)\<rparr> in
         if \<not> validState sp (rs_parent st') st' then (d, Inl RegistryRecover)
         else case persistRegistry sha (io st) st' d of
           (d', Inl e) \<Rightarrow> (d', Inl e)
         | (d', Inr _) \<Rightarrow> recoverLoaded sp sha io ts sts d')
      else recoverLoaded sp sha io ts sts d)"

definition fileRecover ::
  "sub_spec \<Rightarrow> (string \<Rightarrow> string) \<Rightarrow> bool \<Rightarrow> (string list \<Rightarrow> bool) \<Rightarrow> (registry_state \<Rightarrow> io_env) \<Rightarrow> time \<Rightarrow> registry_disk
     \<Rightarrow> registry_disk \<times> (registry_error, unit) result" where
  "fileRecover sp sha ctx_done unreadable io at_time d =
     (if ctx_done then (d, Inl RegistryContext)
      else if at_time = 0 then (d, Inl RegistryInput)
      else case checkAll sp sha unreadable d of
        Inl e \<Rightarrow> (d, Inl e)
      | Inr sts \<Rightarrow> recoverLoaded sp sha io (format_stamp at_time) sts d)"

section \<open>The distributed registry\<close>

type_synonym registry_ref = "string \<times> string"

record registry_index =
  ri_version :: "32 word"
  ri_refs :: "registry_ref list"

definition casRegistryIndexVersion :: "32 word" where "casRegistryIndexVersion = 1"

definition readRegistry ::
  "sub_spec \<Rightarrow> (string \<Rightarrow> registry_state option) \<Rightarrow> string \<Rightarrow> string \<Rightarrow> blob \<Rightarrow> (registry_error, registry_state) result" where
  "readRegistry sp decode w p b =
     (if w = [] \<or> p = [] then Inl RegistryInput
      else case b of
        None \<Rightarrow> Inr (newRegistryState sp w p)
      | Some raw \<Rightarrow>
          if raw = [] then Inl ErrCorruptRegistry
          else case decode raw of None \<Rightarrow> Inl ErrCorruptRegistry | Some st \<Rightarrow> checkRegistry sp w p st)"

fun strictlySorted :: "registry_ref list \<Rightarrow> bool" where
  "strictlySorted (x # y # xs) = (x < y \<and> strictlySorted (y # xs))"
| "strictlySorted _ = True"

definition validateRegistryIndex :: "registry_index \<Rightarrow> bool" where
  "validateRegistryIndex i \<longleftrightarrow> ri_version i = casRegistryIndexVersion \<and>
     list_all (\<lambda>r. fst r \<noteq> [] \<and> snd r \<noteq> []) (ri_refs i) \<and> strictlySorted (ri_refs i)"

definition readRegistryIndex :: "(string \<Rightarrow> registry_index option) \<Rightarrow> blob \<Rightarrow> (registry_error, registry_index) result" where
  "readRegistryIndex decode b =
     (case b of
        None \<Rightarrow> Inr \<lparr>ri_version = casRegistryIndexVersion, ri_refs = []\<rparr>
      | Some raw \<Rightarrow>
          if raw = [] then Inl ErrCorruptRegistry
          else case decode raw of
            None \<Rightarrow> Inl ErrCorruptRegistry
          | Some i \<Rightarrow> if validateRegistryIndex i then Inr i else Inl ErrCorruptRegistry)"

definition registryIndexChange :: "registry_ref \<Rightarrow> registry_index \<Rightarrow> (registry_error, (registry_index, unit) change) result" where
  "registryIndexChange x i =
     (let refs = ri_refs i; k = sortSearch (length refs) (\<lambda>j. x \<le> refs ! j) in
      if k < length refs \<and> refs ! k = x then Inr (Unchanged ())
      else Inr (Changed (i\<lparr>ri_refs := take k refs @ x # drop k refs\<rparr>) ()))"

definition registryEnsureIndexed ::
  "(string \<Rightarrow> registry_index option) \<Rightarrow> (registry_index \<Rightarrow> string) \<Rightarrow> nat \<Rightarrow> registry_ref \<Rightarrow> (nat \<Rightarrow> cas_env) \<Rightarrow> blob
     \<Rightarrow> blob \<times> (registry_error, unit) result" where
  "registryEnsureIndexed decode encode retries x env b =
     casLoop retries RegistryRetryLimit RegistryRead RegistryWrite (readRegistryIndex decode) (registryIndexChange x) encode env b"

definition observeChange :: "sub_spec \<Rightarrow> sub_record \<Rightarrow> registry_state \<Rightarrow> (registry_error, (registry_state, unit) change) result"
where
  "observeChange sp r st = and_then (putSubagentState sp r st) (\<lambda>st'. Inr (Changed st' ()))"

text \<open>What the task backend says of an unfinished child; \<open>Inl\<close> is its error or an unknown answer.\<close>

datatype task_recovery =
    RecoveryAdmitted | RecoveryRunning | RecoveryCompleted | RecoveryFailed | RecoveryCancelled | RecoveryInterrupted
  | RecoveryOther string

definition recoveredStatus :: "task_recovery \<Rightarrow> (registry_error, sub_status) result" where
  "recoveredStatus a =
     (case a of
        RecoveryAdmitted \<Rightarrow> Inr SubAdmitted
      | RecoveryRunning \<Rightarrow> Inr SubRunning
      | RecoveryCompleted \<Rightarrow> Inr SubCompleted
      | RecoveryFailed \<Rightarrow> Inr SubFailed
      | RecoveryCancelled \<Rightarrow> Inr SubCancelled
      | RecoveryInterrupted \<Rightarrow> Inr SubInterrupted
      | RecoveryOther _ \<Rightarrow> Inl RegistryTask)"

text \<open>
  One record of \<open>recoverRef\<close>: \<open>None\<close> when it stays as it is. An admitted answer keeps both
  unfinished statuses, a running answer keeps a running child.
\<close>

definition recoverRecord ::
  "(string \<Rightarrow> (unit, task_recovery) result) option \<Rightarrow> stamp \<Rightarrow> sub_record \<Rightarrow> (registry_error, sub_record option) result" where
  "recoverRecord tasks ts r =
     (if \<not> unfinished (sr_status r) then Inr None
      else
        let set_status = (\<lambda>s. Inr (Some (r\<lparr>sr_status := s, sr_updated := ts,
                                       sr_completed := (if unfinished s then NoStamp else ts)\<rparr>)))
        in case tasks of
          None \<Rightarrow> set_status SubInterrupted
        | Some ask \<Rightarrow>
            if sr_task r = [] then set_status SubInterrupted
            else case ask (sr_task r) of
              Inl _ \<Rightarrow> Inl RegistryTask
            | Inr a \<Rightarrow>
                if a = RecoveryAdmitted \<or> a = RecoveryRunning \<and> sr_status r = SubRunning then Inr None
                else and_then (recoveredStatus a) set_status)"

fun recoverRecords ::
  "(string \<Rightarrow> (unit, task_recovery) result) option \<Rightarrow> stamp \<Rightarrow> sub_record list
     \<Rightarrow> (registry_error, sub_record list \<times> bool) result" where
  "recoverRecords tasks ts [] = Inr ([], False)"
| "recoverRecords tasks ts (r # rs) =
     and_then (recoverRecord tasks ts r) (\<lambda>c.
       and_then (recoverRecords tasks ts rs) (\<lambda>(rs', changed).
         Inr (case c of None \<Rightarrow> (r # rs', changed) | Some r' \<Rightarrow> (r' # rs', True))))"

definition recoverChange ::
  "sub_spec \<Rightarrow> (string \<Rightarrow> (unit, task_recovery) result) option \<Rightarrow> stamp \<Rightarrow> registry_state
     \<Rightarrow> (registry_error, (registry_state, unit) change) result" where
  "recoverChange sp tasks ts st =
     and_then (recoverRecords tasks ts (rs_records st)) (\<lambda>(rs, changed).
       if \<not> changed then Inr (Unchanged ())
       else if validState sp (rs_parent st) (st\<lparr>rs_records := rs\<rparr>) then Inr (Changed (st\<lparr>rs_records := rs\<rparr>) ())
       else Inl RegistryRecover)"

definition recoverRef ::
  "sub_spec \<Rightarrow> (string \<Rightarrow> registry_state option) \<Rightarrow> (registry_state \<Rightarrow> string) \<Rightarrow> nat
     \<Rightarrow> (string \<Rightarrow> (unit, task_recovery) result) option \<Rightarrow> stamp \<Rightarrow> registry_ref \<Rightarrow> (nat \<Rightarrow> cas_env) \<Rightarrow> blob
     \<Rightarrow> blob \<times> (registry_error, unit) result" where
  "recoverRef sp decode encode retries tasks ts x env b =
     casLoop retries RegistryRetryLimit RegistryRead RegistryWrite (readRegistry sp decode (fst x) (snd x))
       (recoverChange sp tasks ts) encode env b"

text \<open>
  \<open>recoverAll\<close> over the blobs of the states: one \<open>recoverRef\<close> per reference of the index, the
  first failure ends it.
\<close>

fun recoverRefs ::
  "(registry_ref \<Rightarrow> blob \<Rightarrow> blob \<times> (registry_error, unit) result) \<Rightarrow> registry_ref list \<Rightarrow> (registry_ref \<Rightarrow> blob)
     \<Rightarrow> (registry_ref \<Rightarrow> blob) \<times> (registry_error, unit) result" where
  "recoverRefs rec [] bs = (bs, Inr ())"
| "recoverRefs rec (x # xs) bs =
     (case rec x (bs x) of
        (b, Inl e) \<Rightarrow> (bs(x := b), Inl e)
      | (b, Inr _) \<Rightarrow> recoverRefs rec xs (bs(x := b)))"

definition recoverAll ::
  "sub_spec \<Rightarrow> (string \<Rightarrow> registry_index option) \<Rightarrow> (string \<Rightarrow> registry_state option) \<Rightarrow> (registry_state \<Rightarrow> string) \<Rightarrow> nat
     \<Rightarrow> (string \<Rightarrow> (unit, task_recovery) result) option \<Rightarrow> time \<Rightarrow> (registry_ref \<Rightarrow> nat \<Rightarrow> cas_env) \<Rightarrow> blob
     \<Rightarrow> (registry_ref \<Rightarrow> blob) \<Rightarrow> (registry_ref \<Rightarrow> blob) \<times> (registry_error, unit) result" where
  "recoverAll sp decodeIx decode encode retries tasks at_time env index bs =
     (case readRegistryIndex decodeIx index of
        Inl e \<Rightarrow> (bs, Inl e)
      | Inr i \<Rightarrow>
          recoverRefs (\<lambda>x. recoverRef sp decode encode retries tasks (format_stamp at_time) x (env x)) (ri_refs i) bs)"

text \<open>
  The registry with its deferred recovery: what is pending, the index blob and the state blobs.
\<close>

record cas_registry =
  cr_pending :: "(time \<times> (string \<Rightarrow> (unit, task_recovery) result) option) option"
  cr_index :: blob
  cr_states :: "registry_ref \<Rightarrow> blob"

text \<open>The codec, the retries, and the environment of the calls of one operation.\<close>

record registry_codec =
  rg_spec :: sub_spec
  rg_decode_index :: "string \<Rightarrow> registry_index option"
  rg_encode_index :: "registry_index \<Rightarrow> string"
  rg_decode :: "string \<Rightarrow> registry_state option"
  rg_encode :: "registry_state \<Rightarrow> string"
  rg_retries :: nat
  rg_defer :: bool

record registry_env =
  re_recover :: "registry_ref \<Rightarrow> nat \<Rightarrow> cas_env"
  re_index :: "nat \<Rightarrow> cas_env"
  re_state :: "nat \<Rightarrow> cas_env"

definition runRecovery ::
  "registry_codec \<Rightarrow> registry_env \<Rightarrow> time \<Rightarrow> (string \<Rightarrow> (unit, task_recovery) result) option \<Rightarrow> cas_registry
     \<Rightarrow> cas_registry \<times> (registry_error, unit) result" where
  "runRecovery g env at_time tasks x =
     (case recoverAll (rg_spec g) (rg_decode_index g) (rg_decode g) (rg_encode g) (rg_retries g) tasks at_time
             (re_recover env) (cr_index x) (cr_states x) of
        (bs, res) \<Rightarrow> (x\<lparr>cr_states := bs\<rparr>, res))"

definition recoverInterrupted ::
  "registry_codec \<Rightarrow> bool \<Rightarrow> registry_env \<Rightarrow> time \<Rightarrow> (string \<Rightarrow> (unit, task_recovery) result) option \<Rightarrow> cas_registry
     \<Rightarrow> cas_registry \<times> (registry_error, unit) result" where
  "recoverInterrupted g ctx_done env at_time tasks x =
     (if ctx_done then (x, Inl RegistryContext)
      else if at_time = 0 then (x, Inl RegistryInput)
      else if rg_defer g then (x\<lparr>cr_pending := Some (at_time, tasks)\<rparr>, Inr ())
      else runRecovery g env at_time tasks x)"

definition ensureDeferredRecovery ::
  "registry_codec \<Rightarrow> registry_env \<Rightarrow> cas_registry \<Rightarrow> cas_registry \<times> (registry_error, unit) result" where
  "ensureDeferredRecovery g env x =
     (case cr_pending x of
        None \<Rightarrow> (x, Inr ())
      | Some (at_time, tasks) \<Rightarrow>
          (case runRecovery g env at_time tasks x of
             (x', Inl e) \<Rightarrow> (x', Inl e)
           | (x', Inr _) \<Rightarrow> (x'\<lparr>cr_pending := None\<rparr>, Inr ())))"

text \<open>
  \<open>ObserveSubagent\<close>: the event is checked on an empty state, a pending recovery runs first, then
  the reference is indexed, then the state is updated.
\<close>

definition casObserve ::
  "registry_codec \<Rightarrow> bool \<Rightarrow> registry_env \<Rightarrow> lifecycle_event \<Rightarrow> cas_registry \<Rightarrow> cas_registry \<times> (registry_error, unit) result"
where
  "casObserve g ctx_done env ev x =
     (let r = lv_record ev; w = lv_workspace ev; p = sr_parent r in
      if ctx_done then (x, Inl RegistryContext)
      else if w = [] \<or> p = [] then (x, Inl RegistryInput)
      else case putSubagentState (rg_spec g) r (newRegistryState (rg_spec g) w p) of
        Inl e \<Rightarrow> (x, Inl e)
      | Inr _ \<Rightarrow>
          (case ensureDeferredRecovery g env x of
             (x1, Inl e) \<Rightarrow> (x1, Inl e)
           | (x1, Inr _) \<Rightarrow>
               (case registryEnsureIndexed (rg_decode_index g) (rg_encode_index g) (rg_retries g) (w, p) (re_index env) (cr_index x1) of
                  (i, Inl e) \<Rightarrow> (x1\<lparr>cr_index := i\<rparr>, Inl e)
                | (i, Inr _) \<Rightarrow>
                    (case casLoop (rg_retries g) RegistryRetryLimit RegistryRead RegistryWrite
                            (readRegistry (rg_spec g) (rg_decode g) w p) (observeChange (rg_spec g) r) (rg_encode g)
                            (re_state env) (cr_states x1 (w, p)) of
                       (b, res) \<Rightarrow> (x1\<lparr>cr_index := i, cr_states := (cr_states x1)((w, p) := b)\<rparr>, res)))))"

definition casListSubagents ::
  "registry_codec \<Rightarrow> bool \<Rightarrow> bool \<Rightarrow> registry_env \<Rightarrow> string \<Rightarrow> string \<Rightarrow> cas_registry
     \<Rightarrow> cas_registry \<times> (registry_error, sub_record list) result" where
  "casListSubagents g ctx_done read_fails env w p x =
     (case ensureDeferredRecovery g env x of
        (x1, Inl e) \<Rightarrow> (x1, Inl e)
      | (x1, Inr _) \<Rightarrow>
          (x1, if ctx_done then Inl RegistryContext
               else if w = [] \<or> p = [] then Inl RegistryInput
               else if read_fails then Inl RegistryRead
               else and_then (readRegistry (rg_spec g) (rg_decode g) w p (cr_states x1 (w, p))) (\<lambda>st. Inr (rs_records st))))"

end
