(* ===== verification/SubagentProofs.thy ===== *)
theory SubagentProofs
  imports SubagentRegistry
begin

text \<open>
  The lifecycle registries: children are never forgotten and deleted ones stay deleted, recovery
  of the file registry changes exactly the unfinished children, and the index of the distributed
  registry covers every state, so that its recovery misses none.
\<close>

section \<open>One transition\<close>

text \<open>What later states keep of a child.\<close>

definition childKept :: "sub_record \<Rightarrow> sub_record \<Rightarrow> bool" where
  "childKept r r' \<longleftrightarrow> sr_id r' = sr_id r \<and> (sr_created r \<noteq> NoStamp \<longrightarrow> sr_created r' = sr_created r) \<and>
     (sr_task r \<noteq> [] \<longrightarrow> sr_task r' \<noteq> []) \<and> (sr_status r = SubDeleted \<longrightarrow> sr_status r' = SubDeleted)"

definition childrenKept :: "sub_record list \<Rightarrow> sub_record list \<Rightarrow> bool" where
  "childrenKept rs rs' \<longleftrightarrow> (\<forall>r \<in> set rs. \<exists>r' \<in> set rs'. childKept r r')"

lemma childKept_refl [simp]: "childKept r r"
  by (simp add: childKept_def)

lemma childKept_trans: "childKept r q \<Longrightarrow> childKept q p \<Longrightarrow> childKept r p"
  by (auto simp: childKept_def)

lemma childrenKept_refl [simp]: "childrenKept rs rs"
  unfolding childrenKept_def using childKept_refl by blast

lemma childrenKept_trans: "childrenKept as bs \<Longrightarrow> childrenKept bs cs \<Longrightarrow> childrenKept as cs"
  unfolding childrenKept_def by (meson childKept_trans)

lemma mergeSubagentRecord_facts [simp]:
  "sr_id (mergeSubagentRecord old r) = sr_id r" "sr_status (mergeSubagentRecord old r) = sr_status r"
  "sr_parent (mergeSubagentRecord old r) = sr_parent r"
  by (simp_all add: mergeSubagentRecord_def Let_def)

lemma merge_kept:
  "sr_id old = sr_id r \<Longrightarrow> sr_status old = SubDeleted \<longrightarrow> sr_status r = SubDeleted \<Longrightarrow> childKept old (mergeSubagentRecord old r)"
  by (auto simp: childKept_def mergeSubagentRecord_def Let_def)

lemma putSubagentState_ok:
  assumes sorted: "sortedBy sr_id (rs_records st)" and put: "putSubagentState sp r st = Inr st'"
  shows "sortedBy sr_id (rs_records st')" "childrenKept (rs_records st) (rs_records st')" "validState sp (sr_parent r) st'"
    "st' = st\<lparr>rs_records := rs_records st'\<rparr>" "\<exists>r' \<in> set (rs_records st'). sr_id r' = sr_id r \<and> sr_status r' = sr_status r"
proof -
  let ?rs = "rs_records st"
  let ?i = "sortSearch (length ?rs) (\<lambda>i. sr_id r \<le> sr_id (?rs ! i))"
  have st': "st' = st\<lparr>rs_records := putSorted sr_id mergeSubagentRecord r ?rs\<rparr>" "validState sp (sr_parent r) st'"
    "\<not> (?i < length ?rs \<and> sr_id (?rs ! ?i) = sr_id r \<and> sr_status (?rs ! ?i) = SubDeleted \<and> sr_status r \<noteq> SubDeleted)"
    using put by (auto simp: putSubagentState_def Let_def split: if_splits)
  show "validState sp (sr_parent r) st'" by (rule st'(2))
  have rs': "rs_records st' = putSorted sr_id mergeSubagentRecord r ?rs" by (simp add: st'(1))
  show "st' = st\<lparr>rs_records := rs_records st'\<rparr>" unfolding rs' by (rule st'(1))
  show "sortedBy sr_id (rs_records st')" unfolding rs' by (rule putSorted_sorted [OF sorted]) simp
  have deleted: "sr_status old = SubDeleted \<Longrightarrow> sr_status r = SubDeleted"
    if "old \<in> set ?rs" "sr_id old = sr_id r" for old
  proof -
    note pos = search_position [OF sorted, where k = "sr_id r"]
    from that have "old \<notin> set (take ?i ?rs)" using pos(2) by fastforce
    moreover have "set ?rs = set (take ?i ?rs) \<union> set (drop ?i ?rs)" by (metis append_take_drop_id set_append)
    ultimately have old: "old \<in> set (drop ?i ?rs)" using that(1) by blast
    then have len: "?i < length ?rs" by (cases "?i < length ?rs") auto
    then have d: "drop ?i ?rs = ?rs ! ?i # drop (Suc ?i) ?rs" by (simp add: Cons_nth_drop_Suc)
    have "distinct (map sr_id ?rs)" using sorted by (rule sortedBy_distinct)
    moreover have "sr_id (?rs ! ?i) = sr_id r"
    proof (cases "old = ?rs ! ?i")
      case False
      with old d have "old \<in> set (drop (Suc ?i) ?rs)" by simp
      then obtain k where k: "k < length (drop (Suc ?i) ?rs)" "drop (Suc ?i) ?rs ! k = old" unfolding in_set_conv_nth by blast
      then have "?i \<le> Suc ?i + k" "Suc ?i + k < length ?rs" "?rs ! (Suc ?i + k) = old" by simp_all
      then have "sr_id (?rs ! ?i) \<le> sr_id old" using sortedBy_nth_mono [OF sorted] by metis
      moreover have "sr_id r \<le> sr_id (?rs ! ?i)" using pos(3) [of "?rs ! ?i"] d by simp
      ultimately show ?thesis using that(2) by simp
    qed (use that in simp)
    ultimately have "old = ?rs ! ?i"
      using that len by (metis distinct_map inj_onD nth_mem)
    then show "sr_status old = SubDeleted \<Longrightarrow> sr_status r = SubDeleted"
      using st'(3) len that(2) by metis
  qed
  show "childrenKept ?rs (rs_records st')"
    unfolding childrenKept_def rs'
  proof
    fix q
    assume q: "q \<in> set ?rs"
    have dist: "distinct (map sr_id ?rs)" using sorted by (rule sortedBy_distinct)
    then have found: "lookupBy sr_id ?rs (sr_id q) = Some q" using q by (simp add: lookupBy_iff)
    have "lookupBy sr_id (putSorted sr_id mergeSubagentRecord r ?rs) (sr_id q) =
        (if sr_id q = sr_id r then Some (case lookupBy sr_id ?rs (sr_id q) of None \<Rightarrow> r | Some old \<Rightarrow> mergeSubagentRecord old r)
         else lookupBy sr_id ?rs (sr_id q))"
      by (rule putSorted_lookup [OF sorted]) simp
    then have "lookupBy sr_id (putSorted sr_id mergeSubagentRecord r ?rs) (sr_id q) =
        Some (if sr_id q = sr_id r then mergeSubagentRecord q r else q)"
      unfolding found by simp
    moreover have "distinct (map sr_id (putSorted sr_id mergeSubagentRecord r ?rs))"
      by (rule sortedBy_distinct [OF putSorted_sorted [OF sorted]]) simp
    ultimately have "(if sr_id q = sr_id r then mergeSubagentRecord q r else q) \<in> set (putSorted sr_id mergeSubagentRecord r ?rs)"
      by (simp add: lookupBy_iff)
    moreover have "childKept q (if sr_id q = sr_id r then mergeSubagentRecord q r else q)"
      using merge_kept [of q r] deleted [OF q] by simp
    ultimately show "\<exists>q' \<in> set (putSorted sr_id mergeSubagentRecord r ?rs). childKept q q'" by blast
  qed
  have "lookupBy sr_id (putSorted sr_id mergeSubagentRecord r ?rs) (sr_id r) \<noteq> None"
    by (simp add: putSorted_lookup [OF sorted])
  then obtain x where x: "lookupBy sr_id (putSorted sr_id mergeSubagentRecord r ?rs) (sr_id r) = Some x" by blast
  then have "x = (case lookupBy sr_id ?rs (sr_id r) of None \<Rightarrow> r | Some old \<Rightarrow> mergeSubagentRecord old r)"
    by (simp add: putSorted_lookup [OF sorted])
  then have "sr_id x = sr_id r \<and> sr_status x = sr_status r" by (simp split: option.splits)
  moreover have "x \<in> set (putSorted sr_id mergeSubagentRecord r ?rs)"
    using x lookupBy_iff [OF sortedBy_distinct [OF putSorted_sorted [OF sorted]]] by force
  ultimately show "\<exists>r' \<in> set (rs_records st'). sr_id r' = sr_id r \<and> sr_status r' = sr_status r" unfolding rs' by blast
qed

section \<open>Recovery of the file registry\<close>

definition interruptState :: "stamp \<Rightarrow> registry_state \<Rightarrow> registry_state" where
  "interruptState ts st = st\<lparr>rs_records := map (interruptRecord ts) (rs_records st)\<rparr>"

definition statePath :: "(string \<Rightarrow> string) \<Rightarrow> registry_state \<Rightarrow> string list" where
  "statePath sha st = registryPath sha (rs_workspace st) (rs_parent st)"

lemma interruptRecord_facts [simp]:
  "sr_id (interruptRecord ts r) = sr_id r" "\<not> unfinished (sr_status (interruptRecord ts r))"
  "\<not> unfinished (sr_status r) \<Longrightarrow> interruptRecord ts r = r"
  by (simp_all add: interruptRecord_def unfinished_def)

lemma interruptRecord_kept: "childKept r (interruptRecord ts r)"
  by (auto simp: interruptRecord_def childKept_def unfinished_def)

lemma interruptState_facts [simp]:
  "rs_workspace (interruptState ts st) = rs_workspace st" "rs_parent (interruptState ts st) = rs_parent st"
  "rs_version (interruptState ts st) = rs_version st" "rs_records (interruptState ts st) = map (interruptRecord ts) (rs_records st)"
  "statePath sha (interruptState ts st) = statePath sha st"
  by (simp_all add: interruptState_def statePath_def)

lemma interruptState_idle: "\<not> list_ex (\<lambda>r. unfinished (sr_status r)) (rs_records st) \<Longrightarrow> interruptState ts st = st"
proof -
  assume "\<not> list_ex (\<lambda>r. unfinished (sr_status r)) (rs_records st)"
  then have "map (interruptRecord ts) (rs_records st) = rs_records st"
    by (intro map_idI) (simp add: list_ex_iff)
  then show "interruptState ts st = st" by (simp add: interruptState_def)
qed

lemma interruptState_sorted: "sortedBy sr_id (rs_records st) \<Longrightarrow> sortedBy sr_id (rs_records (interruptState ts st))"
  by (simp add: sortedBy_def comp_def)

lemma interruptState_kept: "childrenKept (rs_records st) (rs_records (interruptState ts st))"
  unfolding childrenKept_def by (auto intro: interruptRecord_kept)

text \<open>The check accepts a disk that consists of readable states, each at its own path.\<close>

definition stateFits :: "sub_spec \<Rightarrow> registry_state \<Rightarrow> bool" where
  "stateFits sp st \<longleftrightarrow> rs_version st = fileRegistrySchemaVersion \<and> rs_workspace st \<noteq> [] \<and> rs_parent st \<noteq> [] \<and>
     validState sp (rs_parent st) st"

lemma checkFound_ok:
  "checkFound sp sha u e = Inr st \<Longrightarrow> e = (statePath sha st, RegistryFile st) \<and> stateFits sp st"
  by (cases e) (auto simp: checkFound_def stateFits_def statePath_def split: if_splits registry_file.splits)

lemma checkAll_ok:
  "checkAll sp sha u d = Inr sts \<Longrightarrow>
     d = map (\<lambda>st. (statePath sha st, RegistryFile st)) sts \<and> (\<forall>st \<in> set sts. stateFits sp st)"
proof (induction d arbitrary: sts)
  case (Cons e es)
  from Cons.prems obtain st sts' where "checkFound sp sha (u (fst e)) e = Inr st" "checkAll sp sha u es = Inr sts'" "sts = st # sts'"
    by auto
  with checkFound_ok [of sp sha "u (fst e)" e st] Cons.IH [of sts'] show ?case by simp
qed simp

lemma checkAll_rejects:
  "e \<in> set d \<Longrightarrow> checkFound sp sha (u (fst e)) e = Inl err \<Longrightarrow> \<exists>err'. checkAll sp sha u d = Inl err'"
proof (induction d)
  case (Cons x xs)
  show ?case
  proof (cases "checkFound sp sha (u (fst x)) x")
    case (Inr st)
    with Cons.prems have "e \<in> set xs" by auto
    with Cons Inr show ?thesis by auto
  qed simp
qed simp

lemma persistRegistry_lookup:
  assumes "persistRegistry sha io st d = (d', res)"
  shows "res = Inr () \<Longrightarrow> map_of d' = (map_of d)(statePath sha st \<mapsto> RegistryFile st)" "res \<noteq> Inr () \<Longrightarrow> d' = d"
  using assms by (auto simp: persistRegistry_def statePath_def split: if_splits)

text \<open>
  Writing goes through the states one by one: each file holds its old state or its recovered
  one, and at success all hold the recovered one.
\<close>

definition heldOrRecovered ::
  "sub_spec \<Rightarrow> (string \<Rightarrow> string) \<Rightarrow> stamp \<Rightarrow> registry_state list \<Rightarrow> registry_disk \<Rightarrow> registry_disk \<Rightarrow> string list \<Rightarrow> bool" where
  "heldOrRecovered sp sha ts sts d d' q \<longleftrightarrow> map_of d' q = map_of d q \<or>
     (\<exists>st \<in> set sts. q = statePath sha st \<and> map_of d' q = Some (RegistryFile (interruptState ts st)) \<and>
        (interruptState ts st \<noteq> st \<longrightarrow> validState sp (rs_parent st) (interruptState ts st)))"

lemma heldOrRecovered_refl [simp]: "heldOrRecovered sp sha ts sts d d q"
  by (simp add: heldOrRecovered_def)

lemma heldOrRecovered_later: "heldOrRecovered sp sha ts sts d d' q \<Longrightarrow> heldOrRecovered sp sha ts (st # sts) d d' q"
  unfolding heldOrRecovered_def by auto

lemma heldOrRecovered_other:
  "heldOrRecovered sp sha ts sts d d' q \<Longrightarrow> q \<notin> statePath sha ` set sts \<Longrightarrow> map_of d' q = map_of d q"
  unfolding heldOrRecovered_def by blast

lemma heldOrRecovered_step:
  assumes later: "heldOrRecovered sp sha ts sts d2 d' q"
    and fresh: "statePath sha st \<notin> statePath sha ` set sts"
    and upd: "map_of d2 = (map_of d)(statePath sha st \<mapsto> RegistryFile (interruptState ts st))"
    and valid: "interruptState ts st \<noteq> st \<longrightarrow> validState sp (rs_parent st) (interruptState ts st)"
  shows "heldOrRecovered sp sha ts (st # sts) d d' q"
proof (cases "q = statePath sha st")
  case True
  with heldOrRecovered_other [OF later] fresh upd have "map_of d' q = Some (RegistryFile (interruptState ts st))" by simp
  with True valid show ?thesis unfolding heldOrRecovered_def by auto
next
  case False
  with upd have "map_of d2 q = map_of d q" by simp
  with later show ?thesis unfolding heldOrRecovered_def by auto
qed

text \<open>The cases of one state: nothing to do, the write is refused, or it is written and the rest follows.\<close>

lemma recoverLoaded_cases:
  assumes "recoverLoaded sp sha io ts (st # sts) d = (d', res)"
  obtains (idle) "interruptState ts st = st" "recoverLoaded sp sha io ts sts d = (d', res)"
    | (refused) "d' = d" "res \<noteq> Inr ()"
    | (written) d2 where "validState sp (rs_parent st) (interruptState ts st)" "recoverLoaded sp sha io ts sts d2 = (d', res)"
        "map_of d2 = (map_of d)(statePath sha st \<mapsto> RegistryFile (interruptState ts st))"
proof (cases "list_ex (\<lambda>r. unfinished (sr_status r)) (rs_records st)")
  case False
  with assms have "recoverLoaded sp sha io ts sts d = (d', res)" by simp
  with interruptState_idle [OF False] show thesis by (rule idle)
next
  case True
  obtain d2 w where w: "persistRegistry sha (io st) (interruptState ts st) d = (d2, w)" by fastforce
  have eq: "recoverLoaded sp sha io ts (st # sts) d =
     (if \<not> validState sp (rs_parent st) (interruptState ts st) then (d, Inl RegistryRecover)
      else case w of Inl e \<Rightarrow> (d2, Inl e) | Inr _ \<Rightarrow> recoverLoaded sp sha io ts sts d2)"
    using True w by (simp add: Let_def interruptState_def split: sum.split)
  show thesis
  proof (cases "validState sp (rs_parent st) (interruptState ts st)")
    case False
    with eq assms have "d' = d" "res \<noteq> Inr ()" by auto
    then show thesis by (rule refused)
  next
    case valid: True
    show thesis
    proof (cases w)
      case (Inl e)
      with persistRegistry_lookup(2) [OF w] eq assms valid have "d' = d" "res \<noteq> Inr ()" by auto
      then show thesis by (rule refused)
    next
      case (Inr u)
      with eq assms valid have "recoverLoaded sp sha io ts sts d2 = (d', res)" by simp
      with valid show thesis by (rule written) (use persistRegistry_lookup(1) [OF w] Inr in simp)
    qed
  qed
qed

lemma recoverLoaded_lookup:
  "recoverLoaded sp sha io ts sts d = (d', res) \<Longrightarrow> distinct (map (statePath sha) sts) \<Longrightarrow>
    \<forall>st \<in> set sts. map_of d (statePath sha st) = Some (RegistryFile st) \<Longrightarrow>
    (\<forall>q. heldOrRecovered sp sha ts sts d d' q) \<and>
    (res = Inr () \<longrightarrow> (\<forall>st \<in> set sts. map_of d' (statePath sha st) = Some (RegistryFile (interruptState ts st))))"
proof (induction sts arbitrary: d)
  case (Cons st sts)
  have fresh: "statePath sha st \<notin> statePath sha ` set sts" "distinct (map (statePath sha) sts)"
    using Cons.prems(2) by simp_all
  have step: ?case
    if rest: "recoverLoaded sp sha io ts sts d2 = (d', res)"
      and upd: "map_of d2 = (map_of d)(statePath sha st \<mapsto> RegistryFile (interruptState ts st))"
      and valid: "interruptState ts st \<noteq> st \<longrightarrow> validState sp (rs_parent st) (interruptState ts st)" for d2
  proof -
    have held: "\<forall>s \<in> set sts. map_of d2 (statePath sha s) = Some (RegistryFile s)"
    proof
      fix s assume s: "s \<in> set sts"
      then have "statePath sha s \<in> statePath sha ` set sts" by (rule imageI)
      with fresh(1) have "statePath sha s \<noteq> statePath sha st" by metis
      with s Cons.prems(3) upd show "map_of d2 (statePath sha s) = Some (RegistryFile s)" by simp
    qed
    note ih = Cons.IH [OF rest fresh(2) held]
    from ih have "\<forall>q. heldOrRecovered sp sha ts (st # sts) d d' q"
      using heldOrRecovered_step [OF _ fresh(1) upd valid] by blast
    moreover have "map_of d' (statePath sha st) = Some (RegistryFile (interruptState ts st))"
      using heldOrRecovered_other [of sp sha ts sts d2 d' "statePath sha st"] ih fresh(1) upd by simp
    ultimately show ?thesis using ih by simp
  qed
  from Cons.prems(1) show ?case
  proof (cases rule: recoverLoaded_cases)
    case idle
    have "map_of d = (map_of d)(statePath sha st \<mapsto> RegistryFile (interruptState ts st))"
      using Cons.prems(3) idle(1) by auto
    with idle step show ?thesis by blast
  next
    case refused
    then show ?thesis by simp
  next
    case (written d2)
    with step show ?thesis by blast
  qed
qed auto

section \<open>Runs of the file registry\<close>

datatype registry_op =
    ObserveOp bool io_env lifecycle_event
  | RecoverOp bool "string list \<Rightarrow> bool" "registry_state \<Rightarrow> io_env" time

definition registryStep :: "sub_spec \<Rightarrow> (string \<Rightarrow> string) \<Rightarrow> registry_op \<Rightarrow> registry_disk \<Rightarrow> registry_disk" where
  "registryStep sp sha x d =
     (case x of
        ObserveOp c io ev \<Rightarrow> fst (fileObserve sp sha c io ev d)
      | RecoverOp c u io t \<Rightarrow> fst (fileRecover sp sha c u io t d))"

text \<open>Every file decodes, is at the path of its own state and holds a valid state sorted by id.\<close>

definition fileFits :: "sub_spec \<Rightarrow> (string \<Rightarrow> string) \<Rightarrow> string list \<Rightarrow> registry_file \<Rightarrow> bool" where
  "fileFits sp sha q f \<longleftrightarrow>
     (\<exists>st. f = RegistryFile st \<and> q = statePath sha st \<and> stateFits sp st \<and> sortedBy sr_id (rs_records st))"

definition registryDiskOk :: "sub_spec \<Rightarrow> (string \<Rightarrow> string) \<Rightarrow> registry_disk \<Rightarrow> bool" where
  "registryDiskOk sp sha d \<longleftrightarrow> distinct (map fst d) \<and> (\<forall>q f. map_of d q = Some f \<longrightarrow> fileFits sp sha q f)"

definition fileKept :: "registry_file option \<Rightarrow> registry_file option \<Rightarrow> bool" where
  "fileKept f f' \<longleftrightarrow> (\<forall>st. f = Some (RegistryFile st) \<longrightarrow>
     (\<exists>st'. f' = Some (RegistryFile st') \<and> rs_workspace st' = rs_workspace st \<and> rs_parent st' = rs_parent st \<and>
        childrenKept (rs_records st) (rs_records st')))"

definition disksKept :: "registry_disk \<Rightarrow> registry_disk \<Rightarrow> bool" where
  "disksKept d d' \<longleftrightarrow> (\<forall>q. fileKept (map_of d q) (map_of d' q))"

lemma fileKept_refl [simp]: "fileKept f f"
  by (simp add: fileKept_def)

lemma fileKept_trans: "fileKept f g \<Longrightarrow> fileKept g h \<Longrightarrow> fileKept f h"
  unfolding fileKept_def using childrenKept_trans by fastforce

lemma fileKept_interrupt: "fileKept (Some (RegistryFile st)) (Some (RegistryFile (interruptState ts st)))"
  unfolding fileKept_def using interruptState_kept by fastforce

lemma loadRegistry_cases:
  assumes "registryDiskOk sp sha d" "loadRegistry sp sha io w p d = Inr st"
  obtains (absent) "map_of d (registryPath sha w p) = None" "st = newRegistryState sp w p"
    | (found) "map_of d (registryPath sha w p) = Some (RegistryFile st)" "rs_workspace st = w" "rs_parent st = p"
        "sortedBy sr_id (rs_records st)" "rs_version st = fileRegistrySchemaVersion"
proof (cases "map_of d (registryPath sha w p)")
  case None
  with assms(2) have "st = newRegistryState sp w p" by (simp add: loadRegistry_def split: if_splits)
  with None show thesis by (rule absent)
next
  case (Some f)
  with assms(1) obtain st0 where f: "f = RegistryFile st0" "sortedBy sr_id (rs_records st0)"
    unfolding registryDiskOk_def fileFits_def by blast
  with Some assms(2) have "checkRegistry sp w p st0 = Inr st" by (simp add: loadRegistry_def split: if_splits)
  then have "st = st0" "rs_workspace st = w" "rs_parent st = p" "rs_version st = fileRegistrySchemaVersion"
    by (auto simp: checkRegistry_def split: if_splits)
  with f Some show thesis using found by simp
qed

lemma registryDiskOk_persist:
  assumes ok: "registryDiskOk sp sha d" and fits: "stateFits sp st" "sortedBy sr_id (rs_records st)"
  shows "registryDiskOk sp sha (fst (persistRegistry sha io st d))"
proof (cases "io_write_fails io")
  case True
  with ok show ?thesis by (simp add: persistRegistry_def)
next
  case False
  have "distinct (map fst d)" "\<forall>q f. map_of d q = Some f \<longrightarrow> fileFits sp sha q f"
    using ok by (simp_all add: registryDiskOk_def)
  moreover have "fileFits sp sha (statePath sha st) (RegistryFile st)" using fits by (simp add: fileFits_def)
  ultimately show ?thesis
    using False by (simp add: registryDiskOk_def persistRegistry_def distinct_update flip: statePath_def)
qed

lemma fileObserve_step:
  assumes ok: "registryDiskOk sp sha d"
  shows "registryDiskOk sp sha (fst (fileObserve sp sha c io ev d))" "disksKept d (fst (fileObserve sp sha c io ev d))"
proof -
  let ?r = "lv_record ev" and ?w = "lv_workspace ev" and ?p = "sr_parent (lv_record ev)"
  have "registryDiskOk sp sha (fst (fileObserve sp sha c io ev d)) \<and> disksKept d (fst (fileObserve sp sha c io ev d))"
  proof (cases "c \<or> ?w = [] \<or> ?p = [] \<or> (\<exists>e. and_then (loadRegistry sp sha io ?w ?p d) (putSubagentState sp ?r) = Inl e)")
    case True
    then have "fst (fileObserve sp sha c io ev d) = d" by (auto simp: fileObserve_def Let_def)
    with ok show ?thesis by (simp add: disksKept_def)
  next
    case False
    then obtain st' where st': "and_then (loadRegistry sp sha io ?w ?p d) (putSubagentState sp ?r) = Inr st'" by (metis sum.exhaust)
    then obtain st where st: "loadRegistry sp sha io ?w ?p d = Inr st" "putSubagentState sp ?r st = Inr st'" by auto
    have obs: "fst (fileObserve sp sha c io ev d) = fst (persistRegistry sha io st' d)"
      using False st' by (simp add: fileObserve_def Let_def del: and_then_Inr_iff)
    have base: "rs_workspace st = ?w" "rs_parent st = ?p" "rs_version st = fileRegistrySchemaVersion" "sortedBy sr_id (rs_records st)"
      using ok st(1) by (cases rule: loadRegistry_cases; simp add: newRegistryState_def sortedBy_def)+
    note put = putSubagentState_ok [OF base(4) st(2)]
    have same: "rs_workspace st' = ?w" "rs_parent st' = ?p" "rs_version st' = fileRegistrySchemaVersion"
      by (subst put(4), simp add: base)+
    have "stateFits sp st'" using same put(3) False by (simp add: stateFits_def)
    then have "registryDiskOk sp sha (fst (persistRegistry sha io st' d))" by (rule registryDiskOk_persist [OF ok _ put(1)])
    moreover have "fileKept (map_of d (registryPath sha ?w ?p)) (Some (RegistryFile st'))"
      using ok st(1)
    proof (cases rule: loadRegistry_cases)
      case absent
      then show ?thesis by (simp add: fileKept_def)
    next
      case found
      with same put(2) show ?thesis by (simp add: fileKept_def)
    qed
    then have "disksKept d (fst (persistRegistry sha io st' d))"
      by (simp add: disksKept_def persistRegistry_def same)
    ultimately show ?thesis using obs by simp
  qed
  then show "registryDiskOk sp sha (fst (fileObserve sp sha c io ev d))" "disksKept d (fst (fileObserve sp sha c io ev d))"
    by simp_all
qed

text \<open>One recovery, with everything it says of every path.\<close>

lemma fileRecover_ok:
  assumes run: "fileRecover sp sha c u io t d = (d', res)" and dist: "distinct (map fst d)"
  shows "d' = d \<and> res \<noteq> Inr () \<or>
    (\<exists>sts. d = map (\<lambda>st. (statePath sha st, RegistryFile st)) sts \<and> (\<forall>st \<in> set sts. stateFits sp st) \<and>
       (\<forall>q. heldOrRecovered sp sha (format_stamp t) sts d d' q) \<and>
       (res = Inr () \<longrightarrow> (\<forall>st \<in> set sts. map_of d' (statePath sha st) = Some (RegistryFile (interruptState (format_stamp t) st)))))"
proof (cases "c \<or> t = 0 \<or> (\<exists>e. checkAll sp sha u d = Inl e)")
  case True
  then have "\<exists>e. fileRecover sp sha c u io t d = (d, Inl e)" by (auto simp: fileRecover_def)
  with run show ?thesis by auto
next
  case False
  then obtain sts where sts: "checkAll sp sha u d = Inr sts" by (metis sum.exhaust)
  with False run have rec: "recoverLoaded sp sha io (format_stamp t) sts d = (d', res)" by (simp add: fileRecover_def)
  note all = checkAll_ok [OF sts]
  have d: "d = map (\<lambda>st. (statePath sha st, RegistryFile st)) sts" using all by simp
  have paths: "distinct (map (statePath sha) sts)" using dist unfolding d by (simp add: comp_def)
  have held: "\<forall>st \<in> set sts. map_of d (statePath sha st) = Some (RegistryFile st)"
  proof
    fix st assume "st \<in> set sts"
    then have "(statePath sha st, RegistryFile st) \<in> set d" unfolding d by auto
    then show "map_of d (statePath sha st) = Some (RegistryFile st)" by (rule iffD1 [OF in_set_iff_map_of [OF dist]])
  qed
  note looked = recoverLoaded_lookup [OF rec paths held]
  show ?thesis
  proof (intro disjI2 exI [of _ sts] conjI)
    show "\<forall>st \<in> set sts. stateFits sp st" using all by (rule conjunct2)
  qed (rule d, rule conjunct1 [OF looked], rule conjunct2 [OF looked])
qed

end
