(* ===== verification/SubagentSpec.thy ===== *)
theory SubagentSpec
  imports SubagentProofs "HOL-Library.Countable"
begin

text \<open>
  The properties of the lifecycle registries: what the file registry never forgets and what its
  recovery does, and why the recovery of the distributed registry misses no child.
\<close>

section \<open>Samples\<close>

definition sampleSubSpec :: sub_spec where
  "sampleSubSpec = \<lparr>ss_valid = (\<lambda>p rev rs. list_all (\<lambda>r. sr_id r \<noteq> [] \<and> sr_parent r = p) rs), ss_revision = 1\<rparr>"

definition sampleChild :: "sub_status \<Rightarrow> sub_record" where
  "sampleChild s = \<lparr>sr_id = ''c'', sr_parent = ''p'', sr_task = ''t'', sr_name = ''n'', sr_kind = [], sr_model = [], sr_status = s,
     sr_created = Stamp 3, sr_updated = Stamp 4, sr_completed = NoStamp, sr_deleted = NoStamp,
     sr_parent_usage = None, sr_child_usage = None\<rparr>"

definition sampleState :: "sub_status \<Rightarrow> registry_state" where
  "sampleState s = \<lparr>rs_version = 1, rs_workspace = ''w'', rs_parent = ''p'', rs_revision = 1, rs_records = [sampleChild s]\<rparr>"

definition sampleEvent :: "sub_status \<Rightarrow> lifecycle_event" where
  "sampleEvent s = \<lparr>lv_workspace = ''w'', lv_record = sampleChild s\<rparr>"

definition sampleSha :: "string \<Rightarrow> string" where
  "sampleSha s = replicate 64 CHR ''0''"

section \<open>The file registry as a machine\<close>

lemma recoverLoaded_distinct:
  "recoverLoaded sp sha io ts sts d = (d', res) \<Longrightarrow> distinct (map fst d) \<Longrightarrow> distinct (map fst d')"
proof (induction sts arbitrary: d)
  case (Cons st sts)
  then show ?case
    by (auto simp: Let_def persistRegistry_def distinct_update split: if_splits)
qed simp

lemma fileRecover_distinct:
  "fileRecover sp sha c u io t d = (d', res) \<Longrightarrow> distinct (map fst d) \<Longrightarrow> distinct (map fst d')"
  by (auto simp: fileRecover_def intro: recoverLoaded_distinct split: if_splits sum.splits)

lemma fileRecover_step:
  assumes ok: "registryDiskOk sp sha d"
  shows "registryDiskOk sp sha (fst (fileRecover sp sha c u io t d))" "disksKept d (fst (fileRecover sp sha c u io t d))"
proof -
  obtain d' res where run: "fileRecover sp sha c u io t d = (d', res)" by fastforce
  have dist: "distinct (map fst d)" using ok by (simp add: registryDiskOk_def)
  have "registryDiskOk sp sha d' \<and> disksKept d d'"
    using fileRecover_ok [OF run dist]
  proof (elim disjE conjE exE)
    assume "d' = d"
    with ok show ?thesis by (simp add: disksKept_def)
  next
    fix sts
    assume d: "d = map (\<lambda>st. (statePath sha st, RegistryFile st)) sts" and fits: "\<forall>st \<in> set sts. stateFits sp st"
      and held: "\<forall>q. heldOrRecovered sp sha (format_stamp t) sts d d' q"
    have own: "map_of d (statePath sha st) = Some (RegistryFile st)" if "st \<in> set sts" for st
    proof -
      from that have "(statePath sha st, RegistryFile st) \<in> set d" unfolding d by auto
      then show ?thesis by (rule iffD1 [OF in_set_iff_map_of [OF dist]])
    qed
    have entry: "fileFits sp sha q f" if "map_of d' q = Some f" for q f
    proof (cases "map_of d' q = map_of d q")
      case True
      with ok that show ?thesis by (simp add: registryDiskOk_def)
    next
      case False
      with held obtain st where st: "st \<in> set sts" "q = statePath sha st" "map_of d' q = Some (RegistryFile (interruptState (format_stamp t) st))"
        "interruptState (format_stamp t) st \<noteq> st \<longrightarrow> validState sp (rs_parent st) (interruptState (format_stamp t) st)"
        unfolding heldOrRecovered_def by blast
      have changed: "interruptState (format_stamp t) st \<noteq> st" using False own [OF st(1)] st(2,3) by metis
      have "fileFits sp sha (statePath sha st) (RegistryFile st)"
        using ok own [OF st(1)] by (simp add: registryDiskOk_def)
      then have "sortedBy sr_id (rs_records st)" by (simp add: fileFits_def)
      then have "sortedBy sr_id (rs_records (interruptState (format_stamp t) st))" by (rule interruptState_sorted)
      moreover have "stateFits sp (interruptState (format_stamp t) st)"
        using fits st(1,4) changed by (simp add: stateFits_def)
      ultimately have "fileFits sp sha q (RegistryFile (interruptState (format_stamp t) st))"
        using st(2) by (auto simp: fileFits_def)
      with that st(3) show ?thesis by simp
    qed
    have "fileKept (map_of d q) (map_of d' q)" for q
    proof (cases "map_of d' q = map_of d q")
      case False
      with held obtain st where "st \<in> set sts" "q = statePath sha st" "map_of d' q = Some (RegistryFile (interruptState (format_stamp t) st))"
        unfolding heldOrRecovered_def by blast
      with own show ?thesis by (simp add: fileKept_interrupt)
    qed simp
    moreover have "distinct (map fst d')" using run dist by (rule fileRecover_distinct)
    ultimately show ?thesis using entry by (simp add: registryDiskOk_def disksKept_def)
  qed
  with run show "registryDiskOk sp sha (fst (fileRecover sp sha c u io t d))" "disksKept d (fst (fileRecover sp sha c u io t d))"
    by simp_all
qed

interpretation subagent_files: monotone_machine "[]" "registryStep sp sha" "registryDiskOk sp sha" disksKept
  for sp sha
proof
  show "registryDiskOk sp sha []" by (simp add: registryDiskOk_def)
  show "registryDiskOk sp sha s \<Longrightarrow> registryDiskOk sp sha (registryStep sp sha x s)" for s x
    unfolding registryStep_def by (cases x) (simp_all add: fileObserve_step fileRecover_step)
  show "registryDiskOk sp sha s \<Longrightarrow> disksKept s (registryStep sp sha x s)" for s x
    unfolding registryStep_def by (cases x) (simp_all add: fileObserve_step fileRecover_step)
  show "disksKept s s" for s by (simp add: disksKept_def)
  show "disksKept s t \<Longrightarrow> disksKept t u \<Longrightarrow> disksKept s u" for s t u
    unfolding disksKept_def using fileKept_trans by blast
qed

lemma fileList_cases:
  assumes ok: "registryDiskOk sp sha d" and list: "fileListSubagents sp sha c io w p d = Inr rs"
  obtains (absent) "map_of d (registryPath sha w p) = None" "rs = []"
    | (found) st where "map_of d (registryPath sha w p) = Some (RegistryFile st)" "rs = rs_records st"
        "rs_workspace st = w" "rs_parent st = p"
proof -
  from list obtain st where st: "loadRegistry sp sha io w p d = Inr st" "rs = rs_records st"
    by (auto simp: fileListSubagents_def split: if_splits)
  from ok st(1) show thesis
  proof (cases rule: loadRegistry_cases)
    case absent
    with st(2) that(1) show thesis by (simp add: newRegistryState_def)
  next
    case found
    with st(2) that(2) show thesis by blast
  qed
qed

section \<open>Properties of the file registry\<close>

text \<open>
  C33: no history of observed events and recoveries, with whatever failures, forgets a child of the
  file registry: a record that a listing returned is in every later listing that succeeds, under
  its id, with the creation time it had, and once deleted it stays deleted.
\<close>

theorem subagents_are_never_forgotten:
  assumes "fileListSubagents sp sha c io w p (run (registryStep sp sha) [] xs) = Inr rs" "r \<in> set rs"
    "fileListSubagents sp sha c' io' w p (run (registryStep sp sha) [] (xs @ ys)) = Inr rs'"
  shows "\<exists>r' \<in> set rs'. sr_id r' = sr_id r \<and> (sr_created r \<noteq> NoStamp \<longrightarrow> sr_created r' = sr_created r) \<and>
    (sr_status r = SubDeleted \<longrightarrow> sr_status r' = SubDeleted)"
proof -
  let ?d = "run (registryStep sp sha) [] xs" and ?d' = "run (registryStep sp sha) [] (xs @ ys)"
  have ok: "registryDiskOk sp sha ?d" "registryDiskOk sp sha ?d'" by (rule subagent_files.reachable_inv)+
  have kept: "fileKept (map_of ?d (registryPath sha w p)) (map_of ?d' (registryPath sha w p))"
    using subagent_files.later_below [of sp sha xs ys] by (simp add: disksKept_def)
  obtain st where st: "map_of ?d (registryPath sha w p) = Some (RegistryFile st)" "rs = rs_records st"
    using ok(1) assms(1,2) by (cases rule: fileList_cases) auto
  with kept obtain st' where st': "map_of ?d' (registryPath sha w p) = Some (RegistryFile st')"
    "childrenKept (rs_records st) (rs_records st')" unfolding fileKept_def by blast
  have "rs' = rs_records st'" using ok(2) assms(3) st'(1) by (cases rule: fileList_cases) auto
  with st'(2) st(2) assms(2) show ?thesis unfolding childrenKept_def childKept_def by blast
qed

theorem subagents_are_never_forgotten_witness:
  "fileListSubagents sampleSubSpec sampleSha False io_ok ''w'' ''p''
     (run (registryStep sampleSubSpec sampleSha) []
        ([ObserveOp False io_ok (sampleEvent SubDeleted)] @
         [ObserveOp False io_ok (sampleEvent SubRunning), RecoverOp False (\<lambda>_. False) (\<lambda>_. io_ok) 9])) = Inr [sampleChild SubDeleted] \<and>
   (\<exists>r' \<in> set [sampleChild SubDeleted]. sr_status r' = SubDeleted)"
proof -
  have early: "fileListSubagents sampleSubSpec sampleSha False io_ok ''w'' ''p''
     (run (registryStep sampleSubSpec sampleSha) [] [ObserveOp False io_ok (sampleEvent SubDeleted)]) = Inr [sampleChild SubDeleted]"
    by code_simp
  have late: "fileListSubagents sampleSubSpec sampleSha False io_ok ''w'' ''p''
     (run (registryStep sampleSubSpec sampleSha) []
        ([ObserveOp False io_ok (sampleEvent SubDeleted)] @
         [ObserveOp False io_ok (sampleEvent SubRunning), RecoverOp False (\<lambda>_. False) (\<lambda>_. io_ok) 9])) = Inr [sampleChild SubDeleted]"
    by code_simp
  have "sampleChild SubDeleted \<in> set [sampleChild SubDeleted]" "sr_status (sampleChild SubDeleted) = SubDeleted"
    by (simp_all add: sampleChild_def)
  with subagents_are_never_forgotten [OF early this(1) late] late show ?thesis by blast
qed

definition recoveredFile :: "stamp \<Rightarrow> registry_file \<Rightarrow> registry_file" where
  "recoveredFile ts f =
     (case f of UndecodableRegistry \<Rightarrow> UndecodableRegistry | RegistryFile st \<Rightarrow> RegistryFile (interruptState ts st))"

text \<open>
  C34: the recovery of the file registry after a restart is careful. A registry file that cannot be
  read or does not check leaves every file as it is; a failing write leaves each file either
  untouched or recovered; and at success every child that was admitted or running is interrupted
  at the given time while every other record and every other file is unchanged.
\<close>

theorem file_recovery_is_exact:
  assumes "fileRecover sp sha c u io t d = (d', res)" "distinct (map fst d)"
  shows "((\<exists>e \<in> set d. failed (checkFound sp sha (u (fst e)) e)) \<longrightarrow> d' = d \<and> res \<noteq> Inr ()) \<and>
    (\<forall>q. map_of d' q = map_of d q \<or> map_of d' q = map_option (recoveredFile (format_stamp t)) (map_of d q)) \<and>
    (res = Inr () \<longrightarrow> (\<forall>q. map_of d' q = map_option (recoveredFile (format_stamp t)) (map_of d q)))"
proof (intro conjI impI)
  assume "\<exists>e \<in> set d. failed (checkFound sp sha (u (fst e)) e)"
  then obtain e where e: "e \<in> set d" "failed (checkFound sp sha (u (fst e)) e)" by blast
  then obtain err where "checkFound sp sha (u (fst e)) e = Inl err" by (cases "checkFound sp sha (u (fst e)) e") simp_all
  with e(1) have "\<exists>err'. checkAll sp sha u d = Inl err'" by (rule checkAll_rejects)
  then obtain err' where "checkAll sp sha u d = Inl err'" by blast
  then have "\<exists>err. fileRecover sp sha c u io t d = (d, Inl err)" by (simp add: fileRecover_def)
  with assms(1) show "d' = d" "res \<noteq> Inr ()" by auto
next
  have held: "(\<forall>q. map_of d' q = map_of d q \<or> map_of d' q = map_option (recoveredFile (format_stamp t)) (map_of d q)) \<and>
    (res = Inr () \<longrightarrow> (\<forall>q. map_of d' q = map_option (recoveredFile (format_stamp t)) (map_of d q)))"
    using fileRecover_ok [OF assms]
  proof (elim disjE conjE exE)
    fix sts
    assume d: "d = map (\<lambda>st. (statePath sha st, RegistryFile st)) sts"
      and held: "\<forall>q. heldOrRecovered sp sha (format_stamp t) sts d d' q"
      and all: "res = Inr () \<longrightarrow> (\<forall>st \<in> set sts. map_of d' (statePath sha st) = Some (RegistryFile (interruptState (format_stamp t) st)))"
    have own: "map_of d (statePath sha st) = Some (RegistryFile st)" if "st \<in> set sts" for st
    proof -
      from that have "(statePath sha st, RegistryFile st) \<in> set d" unfolding d by auto
      then show ?thesis by (rule iffD1 [OF in_set_iff_map_of [OF assms(2)]])
    qed
    have either: "map_of d' q = map_of d q \<or> map_of d' q = map_option (recoveredFile (format_stamp t)) (map_of d q)" for q
      using held own unfolding heldOrRecovered_def by (force simp: recoveredFile_def)
    moreover have "map_of d' q = map_option (recoveredFile (format_stamp t)) (map_of d q)" if "res = Inr ()" for q
    proof (cases "map_of d q")
      case None
      with either [of q] show ?thesis by simp
    next
      case (Some f)
      then have "(q, f) \<in> set d" by (rule map_of_SomeD)
      then obtain st where "st \<in> set sts" "q = statePath sha st" "f = RegistryFile st" unfolding d by auto
      with all that Some show ?thesis by (simp add: recoveredFile_def)
    qed
    ultimately show ?thesis by blast
  qed simp
  then show "\<forall>q. map_of d' q = map_of d q \<or> map_of d' q = map_option (recoveredFile (format_stamp t)) (map_of d q)"
    "res = Inr () \<Longrightarrow> \<forall>q. map_of d' q = map_option (recoveredFile (format_stamp t)) (map_of d q)" by blast+
qed

theorem file_recovery_is_exact_witness:
  "fileRecover sampleSubSpec sampleSha False (\<lambda>_. False) (\<lambda>_. io_ok) 9
     [(registryPath sampleSha ''w'' ''p'', RegistryFile (sampleState SubRunning))] =
     ([(registryPath sampleSha ''w'' ''p'', RegistryFile (interruptState (Stamp 9) (sampleState SubRunning)))], Inr ()) \<and>
   (\<forall>q. map_of [(registryPath sampleSha ''w'' ''p'', RegistryFile (interruptState (Stamp 9) (sampleState SubRunning)))] q =
      map_option (recoveredFile (format_stamp 9)) (map_of [(registryPath sampleSha ''w'' ''p'', RegistryFile (sampleState SubRunning))] q))"
proof -
  have run: "fileRecover sampleSubSpec sampleSha False (\<lambda>_. False) (\<lambda>_. io_ok) 9
     [(registryPath sampleSha ''w'' ''p'', RegistryFile (sampleState SubRunning))] =
     ([(registryPath sampleSha ''w'' ''p'', RegistryFile (interruptState (Stamp 9) (sampleState SubRunning)))], Inr ())"
    by code_simp
  from file_recovery_is_exact [OF run] run show ?thesis by simp
qed

section \<open>The distributed registry\<close>

definition stateOf :: "string \<Rightarrow> string \<Rightarrow> registry_state \<Rightarrow> bool" where
  "stateOf w p st \<longleftrightarrow> rs_version st = fileRegistrySchemaVersion \<and> rs_workspace st = w \<and> rs_parent st = p"

datatype registry_mutation =
    ObserveMutation sub_record
  | RecoverMutation "(string \<Rightarrow> (unit, task_recovery) result) option" stamp

definition mutateRegistry :: "sub_spec \<Rightarrow> registry_mutation \<Rightarrow> registry_state \<Rightarrow> (registry_error, (registry_state, unit) change) result"
where
  "mutateRegistry sp m =
     (case m of ObserveMutation r \<Rightarrow> observeChange sp r | RecoverMutation tasks ts \<Rightarrow> recoverChange sp tasks ts)"

lemma recoverChange_cases:
  assumes "recoverChange sp tasks ts st = Inr ch"
  obtains rs where "recoverRecords tasks ts (rs_records st) = Inr (rs, False)" "ch = Unchanged ()"
    | rs where "recoverRecords tasks ts (rs_records st) = Inr (rs, True)" "ch = Changed (st\<lparr>rs_records := rs\<rparr>) ()"
        "validState sp (rs_parent st) (st\<lparr>rs_records := rs\<rparr>)"
  using assms by (auto simp: recoverChange_def split: if_splits)

lemma mutateRegistry_stateOf: "stateOf w p st \<Longrightarrow> mutateRegistry sp m st = Inr (Changed st' u) \<Longrightarrow> stateOf w p st'"
proof (cases m)
  case (ObserveMutation r)
  assume "stateOf w p st" "mutateRegistry sp m st = Inr (Changed st' u)"
  with ObserveMutation have "putSubagentState sp r st = Inr st'" by (auto simp: mutateRegistry_def observeChange_def)
  with \<open>stateOf w p st\<close> show ?thesis by (auto simp: putSubagentState_def Let_def stateOf_def split: if_splits)
next
  case (RecoverMutation tasks ts)
  assume "stateOf w p st" "mutateRegistry sp m st = Inr (Changed st' u)"
  with RecoverMutation have "recoverChange sp tasks ts st = Inr (Changed st' u)" by (simp add: mutateRegistry_def)
  then show ?thesis using \<open>stateOf w p st\<close> by (cases rule: recoverChange_cases) (auto simp: stateOf_def)
qed

interpretation registry_states: cas_store "readRegistry sp decode w p" "mutateRegistry sp" encode "stateOf w p" "stateOf w p"
  for sp decode encode w p
proof
  show "readRegistry sp decode w p b = Inr s \<Longrightarrow> stateOf w p s" for b s
    by (auto simp: readRegistry_def newRegistryState_def checkRegistry_def stateOf_def split: option.splits if_splits)
qed (rule mutateRegistry_stateOf)

text \<open>The index: a search in the sorted references, a new one at its position.\<close>

lemma strictlySorted_iff: "strictlySorted xs \<longleftrightarrow> sortedBy (\<lambda>x. x) xs"
proof (induction xs rule: strictlySorted.induct)
  case (1 x y xs)
  then show ?case by (auto simp: sortedBy_def intro: less_trans)
qed (simp_all add: sortedBy_def)

lemma registryIndexChange_put:
  assumes "strictlySorted (ri_refs i)" "registryIndexChange x i = Inr ch"
  obtains "ch = Unchanged ()" "x \<in> set (ri_refs i)"
    | "ch = Changed (i\<lparr>ri_refs := putSorted (\<lambda>x. x) (\<lambda>_ x. x) x (ri_refs i)\<rparr>) ()"
proof (cases "sortSearch (length (ri_refs i)) (\<lambda>j. x \<le> ri_refs i ! j) < length (ri_refs i) \<and>
    ri_refs i ! sortSearch (length (ri_refs i)) (\<lambda>j. x \<le> ri_refs i ! j) = x")
  case True
  with assms(2) have "ch = Unchanged ()" by (simp add: registryIndexChange_def Let_def)
  moreover have "x \<in> set (ri_refs i)" using True by (metis nth_mem)
  ultimately show thesis by (rule that(1))
next
  case False
  with assms(2) have "ch = Changed (i\<lparr>ri_refs := putSorted (\<lambda>x. x) (\<lambda>_ x. x) x (ri_refs i)\<rparr>) ()"
    by (auto simp: registryIndexChange_def putSorted_def Let_def)
  then show thesis by (rule that(2))
qed

lemma putSorted_id:
  assumes "strictlySorted refs"
  shows "strictlySorted (putSorted (\<lambda>x. x) (\<lambda>_ x. x) x refs)" "set (putSorted (\<lambda>x. x) (\<lambda>_ x. x) x refs) = insert x (set refs)"
proof -
  have sorted: "sortedBy (\<lambda>x. x) refs" using assms by (simp add: strictlySorted_iff)
  then show "strictlySorted (putSorted (\<lambda>x. x) (\<lambda>_ x. x) x refs)"
    unfolding strictlySorted_iff by (rule putSorted_sorted) simp
  show "set (putSorted (\<lambda>x. x) (\<lambda>_ x. x) x refs) = insert x (set refs)"
    using sorted by (cases rule: putSorted_cases [where r = x and merge = "\<lambda>_ x. x"]) auto
qed

definition indexFits :: "registry_index \<Rightarrow> bool" where
  "indexFits i \<longleftrightarrow> ri_version i = casRegistryIndexVersion \<and> strictlySorted (ri_refs i)"

interpretation registry_indexes: cas_store "readRegistryIndex decode" registryIndexChange encode indexFits indexFits
  for decode encode
proof
  show "readRegistryIndex decode b = Inr i \<Longrightarrow> indexFits i" for b i
    by (auto simp: readRegistryIndex_def validateRegistryIndex_def indexFits_def split: option.splits if_splits)
  show "indexFits i \<Longrightarrow> registryIndexChange x i = Inr (Changed i' u) \<Longrightarrow> indexFits i'" for x i i' u
  proof -
    assume i: "indexFits i" and ch: "registryIndexChange x i = Inr (Changed i' u)"
    then have sorted: "strictlySorted (ri_refs i)" by (simp add: indexFits_def)
    from sorted ch show "indexFits i'"
      by (cases rule: registryIndexChange_put) (use i putSorted_id(1) [OF sorted] in \<open>auto simp: indexFits_def\<close>)
  qed
qed

text \<open>That a reference is in the index, which has to be readable for that.\<close>

definition indexHas :: "(string \<Rightarrow> registry_index option) \<Rightarrow> registry_ref \<Rightarrow> blob \<Rightarrow> bool" where
  "indexHas decode x b \<longleftrightarrow> (case readRegistryIndex decode b of Inl _ \<Rightarrow> False | Inr i \<Rightarrow> x \<in> set (ri_refs i))"

definition codecKeeps :: "('a \<Rightarrow> string) \<Rightarrow> (string \<Rightarrow> 'a option) \<Rightarrow> bool" where
  "codecKeeps encode decode \<longleftrightarrow> (\<forall>a. decode (encode a) = Some a \<and> encode a \<noteq> [])"

definition peersKeepIndex :: "(string \<Rightarrow> registry_index option) \<Rightarrow> (nat \<Rightarrow> cas_env) \<Rightarrow> bool" where
  "peersKeepIndex decode env \<longleftrightarrow> (\<forall>k x b. indexHas decode x b \<longrightarrow>
     indexHas decode x (ce_before (env k) b) \<and> indexHas decode x (ce_between (env k) b))"

lemma indexChange_has:
  assumes codec: "codecKeeps encode decode" and x: "fst x \<noteq> []" "snd x \<noteq> []"
    and read: "readRegistryIndex decode b = Inr i" and ch: "registryIndexChange x i = Inr (Changed i' u)"
  shows "indexHas decode y (Some (encode i')) \<longleftrightarrow> y = x \<or> indexHas decode y b"
proof -
  have valid: "validateRegistryIndex i" using read
    by (auto simp: readRegistryIndex_def validateRegistryIndex_def split: option.splits if_splits)
  then have sorted: "strictlySorted (ri_refs i)" by (simp add: validateRegistryIndex_def)
  from sorted ch have i': "i' = i\<lparr>ri_refs := putSorted (\<lambda>x. x) (\<lambda>_ x. x) x (ri_refs i)\<rparr>"
    by (cases rule: registryIndexChange_put) auto
  have "validateRegistryIndex i'"
    using valid x putSorted_id [OF sorted, of x] by (auto simp: i' validateRegistryIndex_def list_all_iff)
  with codec have "readRegistryIndex decode (Some (encode i')) = Inr i'"
    by (simp add: readRegistryIndex_def codecKeeps_def)
  with read show ?thesis using putSorted_id(2) [OF sorted, of x] by (simp add: indexHas_def i')
qed

text \<open>Indexing loses no reference, whatever it answers, and at success the reference is there.\<close>

lemma ensureIndexed_keeps:
  assumes codec: "codecKeeps encode decode" and peers: "peersKeepIndex decode env" and x: "fst x \<noteq> []" "snd x \<noteq> []"
    and start: "indexHas decode y b"
  shows "indexHas decode y (fst (registryEnsureIndexed decode encode n x env b))"
  unfolding registryEnsureIndexed_def
proof (rule registry_indexes.loop_keeps [where P = "indexHas decode y"])
  show "indexHas decode y c \<Longrightarrow> indexHas decode y (ce_before (env k) c)" for k c
    using peers unfolding peersKeepIndex_def by blast
  show "indexHas decode y c \<Longrightarrow> indexHas decode y (ce_between (env k) c)" for k c
    using peers unfolding peersKeepIndex_def by blast
  show "indexHas decode y (Some (encode i'))"
    if "indexHas decode y c" "readRegistryIndex decode c = Inr i" "registryIndexChange x i = Inr (Changed i' u)" for c i i' u
    using indexChange_has [OF codec x that(2,3)] that(1) by simp
qed (rule start)

lemma ensureIndexed_has:
  assumes codec: "codecKeeps encode decode" and x: "fst x \<noteq> []" "snd x \<noteq> []"
    and ok: "registryEnsureIndexed decode encode n x env b = (b', Inr u)"
  shows "indexHas decode x b'"
proof -
  obtain c where "registry_indexes.atomic decode encode x c u b'"
    using registry_indexes.loop_atomic [OF ok [unfolded registryEnsureIndexed_def]] by blast
  then obtain i where read: "readRegistryIndex decode c = Inr i" "indexFits i"
    and how: "registryIndexChange x i = Inr (Unchanged u) \<and> b' = c \<or>
      (\<exists>i'. registryIndexChange x i = Inr (Changed i' u) \<and> indexFits i' \<and> b' = Some (encode i'))"
    unfolding registry_indexes.atomic_def by blast
  from how show ?thesis
  proof (elim disjE conjE exE)
    assume un: "registryIndexChange x i = Inr (Unchanged u)" and b': "b' = c"
    have "strictlySorted (ri_refs i)" using read(2) by (simp add: indexFits_def)
    from this un have "x \<in> set (ri_refs i)" by (cases rule: registryIndexChange_put) auto
    with read b' show ?thesis by (simp add: indexHas_def)
  next
    fix i'
    assume "registryIndexChange x i = Inr (Changed i' u)" "b' = Some (encode i')"
    with indexChange_has [OF codec x read(1)] show ?thesis by simp
  qed
qed

section \<open>Coverage\<close>

definition covered :: "registry_codec \<Rightarrow> cas_registry \<Rightarrow> bool" where
  "covered g x \<longleftrightarrow> (\<forall>r. cr_states x r \<noteq> None \<longrightarrow> indexHas (rg_decode_index g) r (cr_index x))"

datatype cas_registry_op =
    CasObserveOp bool registry_env lifecycle_event
  | CasRecoverOp bool registry_env time "(string \<Rightarrow> (unit, task_recovery) result) option"
  | CasListOp bool bool registry_env string string

definition casRegistryStep :: "registry_codec \<Rightarrow> cas_registry_op \<Rightarrow> cas_registry \<Rightarrow> cas_registry" where
  "casRegistryStep g y x =
     (case y of
        CasObserveOp c env ev \<Rightarrow> fst (casObserve g c env ev x)
      | CasRecoverOp c env t tasks \<Rightarrow> fst (recoverInterrupted g c env t tasks x)
      | CasListOp c f env w p \<Rightarrow> fst (casListSubagents g c f env w p x))"

definition newCasRegistry :: cas_registry where
  "newCasRegistry = \<lparr>cr_pending = None, cr_index = None, cr_states = (\<lambda>_. None)\<rparr>"

fun opPeers :: "(string \<Rightarrow> registry_index option) \<Rightarrow> cas_registry_op \<Rightarrow> bool" where
  "opPeers decode (CasObserveOp c env ev) \<longleftrightarrow> peersKeepIndex decode (re_index env)"
| "opPeers decode _ \<longleftrightarrow> True"

lemma recoverRefs_other: "x \<notin> set xs \<Longrightarrow> fst (recoverRefs rec xs bs) x = bs x"
  by (induction xs arbitrary: bs) (auto split: prod.splits sum.splits)

lemma recoverRefs_ok:
  "recoverRefs rec xs bs = (bs', Inr u) \<Longrightarrow> distinct xs \<Longrightarrow> x \<in> set xs \<Longrightarrow> \<exists>v. rec x (bs x) = (bs' x, Inr v)"
proof (induction xs arbitrary: bs)
  case (Cons y ys)
  obtain b r where step: "rec y (bs y) = (b, r)" by fastforce
  with Cons.prems(1) obtain v where r: "r = Inr v" by (cases r) auto
  have rest: "recoverRefs rec ys (bs(y := b)) = (bs', Inr u)" using Cons.prems(1) step r by simp
  show ?case
  proof (cases "x = y")
    case True
    have "bs' x = b"
      using recoverRefs_other [of x ys rec "bs(y := b)"] rest True Cons.prems(2) by simp
    with True step r show ?thesis by blast
  next
    case False
    with Cons.prems have "distinct ys" "x \<in> set ys" by simp_all
    from Cons.IH [OF rest this] False show ?thesis by simp
  qed
qed simp

lemma covered_states:
  assumes "covered g x" "\<And>r. \<not> indexHas (rg_decode_index g) r (cr_index x) \<Longrightarrow> bs r = cr_states x r"
  shows "covered g (x\<lparr>cr_states := bs\<rparr>)"
  using assms unfolding covered_def by (simp, metis)

lemma runRecovery_covered:
  assumes cov: "covered g x"
  shows "covered g (fst (runRecovery g env t tasks x))" "cr_index (fst (runRecovery g env t tasks x)) = cr_index x"
proof -
  show "covered g (fst (runRecovery g env t tasks x))"
  proof (cases "readRegistryIndex (rg_decode_index g) (cr_index x)")
    case (Inl e)
    with cov show ?thesis by (simp add: runRecovery_def recoverAll_def)
  next
    case (Inr i)
    let ?rec = "\<lambda>r. recoverRef (rg_spec g) (rg_decode g) (rg_encode g) (rg_retries g) tasks (format_stamp t) r (re_recover env r)"
    have "fst (runRecovery g env t tasks x) = x\<lparr>cr_states := fst (recoverRefs ?rec (ri_refs i) (cr_states x))\<rparr>"
      using Inr by (simp add: runRecovery_def recoverAll_def split: prod.split)
    moreover have "fst (recoverRefs ?rec (ri_refs i) (cr_states x)) r = cr_states x r"
      if "\<not> indexHas (rg_decode_index g) r (cr_index x)" for r
      using that Inr by (intro recoverRefs_other) (simp add: indexHas_def)
    ultimately show ?thesis using covered_states [OF cov] by simp
  qed
  show "cr_index (fst (runRecovery g env t tasks x)) = cr_index x"
    by (simp add: runRecovery_def split: prod.split)
qed

lemma covered_pending [simp]: "covered g (x\<lparr>cr_pending := q\<rparr>) = covered g x"
  by (simp add: covered_def)

lemma ensureDeferred_covered:
  assumes "covered g x"
  shows "covered g (fst (ensureDeferredRecovery g env x))"
proof (cases "cr_pending x")
  case None
  with assms show ?thesis by (simp add: ensureDeferredRecovery_def)
next
  case (Some q)
  obtain t tasks where q: "q = (t, tasks)" by fastforce
  obtain x1 res where run: "runRecovery g env t tasks x = (x1, res)" by fastforce
  with runRecovery_covered(1) [OF assms, of env t tasks] have "covered g x1" by simp
  with Some q run show ?thesis by (cases res) (simp_all add: ensureDeferredRecovery_def)
qed

lemma casObserve_covered:
  assumes codec: "codecKeeps (rg_encode_index g) (rg_decode_index g)" and peers: "peersKeepIndex (rg_decode_index g) (re_index env)"
    and cov: "covered g x"
  shows "covered g (fst (casObserve g c env ev x))"
proof (cases "c \<or> lv_workspace ev = [] \<or> sr_parent (lv_record ev) = [] \<or>
    failed (putSubagentState (rg_spec g) (lv_record ev) (newRegistryState (rg_spec g) (lv_workspace ev) (sr_parent (lv_record ev))))")
  case True
  then have "fst (casObserve g c env ev x) = x"
    by (auto simp: casObserve_def Let_def failed_def split: sum.splits)
  with cov show ?thesis by simp
next
  case False
  let ?w = "lv_workspace ev" and ?p = "sr_parent (lv_record ev)"
  obtain st where put: "putSubagentState (rg_spec g) (lv_record ev) (newRegistryState (rg_spec g) ?w ?p) = Inr st"
    using False by (auto simp: failed_def split: sum.splits)
  obtain x1 d where pend: "ensureDeferredRecovery g env x = (x1, d)" by fastforce
  have cov1: "covered g x1" using ensureDeferred_covered [OF cov, of env] pend by simp
  obtain i n where ix: "registryEnsureIndexed (rg_decode_index g) (rg_encode_index g) (rg_retries g) (?w, ?p) (re_index env) (cr_index x1) = (i, n)"
    by fastforce
  have keeps: "indexHas (rg_decode_index g) r i" if "indexHas (rg_decode_index g) r (cr_index x1)" for r
    using ensureIndexed_keeps [OF codec peers _ _ that, of "(?w, ?p)" "rg_retries g"] False ix by simp
  have has: "indexHas (rg_decode_index g) (?w, ?p) i" if "n = Inr u" for u
    using ensureIndexed_has [OF codec _ _ ix [unfolded that]] False by simp
  obtain b s where state: "casLoop (rg_retries g) RegistryRetryLimit RegistryRead RegistryWrite
      (readRegistry (rg_spec g) (rg_decode g) ?w ?p) (observeChange (rg_spec g) (lv_record ev)) (rg_encode g)
      (re_state env) (cr_states x1 (?w, ?p)) = (b, s)" by fastforce
  have "fst (casObserve g c env ev x) =
     (case d of Inl _ \<Rightarrow> x1 | Inr _ \<Rightarrow> case n of Inl _ \<Rightarrow> x1\<lparr>cr_index := i\<rparr>
        | Inr _ \<Rightarrow> x1\<lparr>cr_index := i, cr_states := (cr_states x1)((?w, ?p) := b)\<rparr>)"
    using False put pend ix state by (simp add: casObserve_def Let_def split: sum.split)
  moreover have "covered g (x1\<lparr>cr_index := i\<rparr>)" using cov1 keeps by (auto simp: covered_def)
  moreover have "covered g (x1\<lparr>cr_index := i, cr_states := (cr_states x1)((?w, ?p) := b)\<rparr>)" if "n = Inr u" for u
    using cov1 keeps has [OF that] by (auto simp: covered_def)
  ultimately show ?thesis using cov1 by (auto split: sum.split)
qed

lemma casRegistryStep_covered:
  assumes "codecKeeps (rg_encode_index g) (rg_decode_index g)" "opPeers (rg_decode_index g) y" "covered g x"
  shows "covered g (casRegistryStep g y x)"
proof (cases y)
  case (CasObserveOp c env ev)
  with assms casObserve_covered show ?thesis by (simp add: casRegistryStep_def)
next
  case (CasRecoverOp c env t tasks)
  with assms(3) runRecovery_covered(1) show ?thesis by (simp add: casRegistryStep_def recoverInterrupted_def)
next
  case (CasListOp c f env w p)
  with ensureDeferred_covered [OF assms(3), of env] show ?thesis
    by (auto simp: casRegistryStep_def casListSubagents_def split: prod.split sum.split)
qed

lemma covered_run:
  "codecKeeps (rg_encode_index g) (rg_decode_index g) \<Longrightarrow> list_all (opPeers (rg_decode_index g)) ops \<Longrightarrow> covered g x
     \<Longrightarrow> covered g (run (casRegistryStep g) x ops)"
  by (induction ops arbitrary: x) (simp_all add: casRegistryStep_covered)

lemma recoverRecords_interrupt:
  "recoverRecords None ts rs = Inr (map (interruptRecord ts) rs, list_ex (\<lambda>r. unfinished (sr_status r)) rs)"
proof (induction rs)
  case (Cons r rs)
  have "\<not> unfinished SubInterrupted" by (simp add: unfinished_def)
  with Cons show ?case by (simp add: recoverRecord_def interruptRecord_def)
qed simp

lemma recoverRef_result:
  assumes "recoverRef sp decode encode n tasks ts x env b = (b', Inr u)"
  obtains c st rs where "readRegistry sp decode (fst x) (snd x) c = Inr st" "recoverRecords tasks ts (rs_records st) = Inr (rs, False)" "b' = c"
    | c st rs where "readRegistry sp decode (fst x) (snd x) c = Inr st" "recoverRecords tasks ts (rs_records st) = Inr (rs, True)"
        "b' = Some (encode (st\<lparr>rs_records := rs\<rparr>))"
proof -
  have loop: "casLoop n RegistryRetryLimit RegistryRead RegistryWrite (readRegistry sp decode (fst x) (snd x))
      (mutateRegistry sp (RecoverMutation tasks ts)) encode env b = (b', Inr u)"
    using assms by (simp add: recoverRef_def mutateRegistry_def)
  obtain c where "registry_states.atomic sp decode (fst x) (snd x) encode (RecoverMutation tasks ts) c u b'"
    using registry_states.loop_atomic [OF loop] by blast
  then obtain st where read: "readRegistry sp decode (fst x) (snd x) c = Inr st"
    and how: "recoverChange sp tasks ts st = Inr (Unchanged u) \<and> b' = c \<or>
      (\<exists>st'. recoverChange sp tasks ts st = Inr (Changed st' u) \<and> b' = Some (encode st'))"
    unfolding registry_states.atomic_def mutateRegistry_def by auto
  from how show thesis
  proof (elim disjE conjE exE)
    assume "recoverChange sp tasks ts st = Inr (Unchanged u)" "b' = c"
    then show thesis by (cases rule: recoverChange_cases) (use read that(1) in auto)
  next
    fix st'
    assume ch: "recoverChange sp tasks ts st = Inr (Changed st' u)" and b': "b' = Some (encode st')"
    from ch show thesis
      by (cases rule: recoverChange_cases) (use read b' that(2) in auto)
  qed
qed

text \<open>
  C35: the recovery of the distributed registry misses no child. After any history of observed
  events, recoveries and listings, with failing and lost writes and with other replicas that keep
  the index, a recovery that reports success has gone through every state there is: the blob of
  each is the one it was recovered from, when its records needed no change, or the encoding of the
  recovered records, as the task backend or, without one, the interruption gives them.
\<close>

theorem distributed_recovery_misses_none:
  assumes "codecKeeps (rg_encode_index g) (rg_decode_index g)" "list_all (opPeers (rg_decode_index g)) ops"
    and "x = run (casRegistryStep g) newCasRegistry ops" "runRecovery g env t tasks x = (x', Inr u)" "cr_states x r \<noteq> None"
  shows "\<exists>b st rs changed. readRegistry (rg_spec g) (rg_decode g) (fst r) (snd r) b = Inr st \<and>
      recoverRecords tasks (format_stamp t) (rs_records st) = Inr (rs, changed) \<and>
      cr_states x' r = (if changed then Some (rg_encode g (st\<lparr>rs_records := rs\<rparr>)) else b) \<and>
      (tasks = None \<longrightarrow> rs = map (interruptRecord (format_stamp t)) (rs_records st))"
proof -
  have "covered g newCasRegistry" by (simp add: covered_def newCasRegistry_def)
  then have "covered g x" unfolding assms(3) by (rule covered_run [OF assms(1,2)])
  with assms(5) have has: "indexHas (rg_decode_index g) r (cr_index x)" unfolding covered_def by blast
  then obtain i where i: "readRegistryIndex (rg_decode_index g) (cr_index x) = Inr i" "r \<in> set (ri_refs i)"
    by (auto simp: indexHas_def split: sum.splits)
  let ?rec = "\<lambda>r. recoverRef (rg_spec g) (rg_decode g) (rg_encode g) (rg_retries g) tasks (format_stamp t) r (re_recover env r)"
  obtain bs v where rec: "recoverRefs ?rec (ri_refs i) (cr_states x) = (bs, v)" by fastforce
  have bs: "recoverRefs ?rec (ri_refs i) (cr_states x) = (cr_states x', Inr ())"
    using assms(4) i(1) rec by (auto simp: runRecovery_def recoverAll_def)
  have "sortedBy (\<lambda>x. x) (ri_refs i)"
    using registry_indexes.read_valid [OF i(1)] by (simp add: indexFits_def strictlySorted_iff)
  from sortedBy_distinct [OF this] have "distinct (ri_refs i)" by simp
  from recoverRefs_ok [OF bs this i(2)] obtain w where w: "?rec r (cr_states x r) = (cr_states x' r, Inr w)" by blast
  then show ?thesis
  proof (cases rule: recoverRef_result)
    case (1 c st rs)
    then show ?thesis
      by (intro exI [of _ c] exI [of _ st] exI [of _ rs] exI [of _ False]) (auto simp: recoverRecords_interrupt)
  next
    case (2 c st rs)
    then show ?thesis
      by (intro exI [of _ c] exI [of _ st] exI [of _ rs] exI [of _ True]) (auto simp: recoverRecords_interrupt)
  qed
qed

text \<open>A codec of the index: its numbering as a countable type, in unary.\<close>

definition unaryIndex :: "registry_index \<Rightarrow> string" where
  "unaryIndex i = replicate (Suc (to_nat (uint (ri_version i), ri_refs i))) CHR ''x''"

definition readUnaryIndex :: "string \<Rightarrow> registry_index option" where
  "readUnaryIndex s = (case from_nat (length s - 1) of (v, refs) \<Rightarrow> Some \<lparr>ri_version = word_of_int v, ri_refs = refs\<rparr>)"

lemma unaryIndex_codec: "codecKeeps unaryIndex readUnaryIndex"
  by (simp add: codecKeeps_def unaryIndex_def readUnaryIndex_def)

definition sampleRegistry :: registry_codec where
  "sampleRegistry = \<lparr>rg_spec = sampleSubSpec, rg_decode_index = readUnaryIndex, rg_encode_index = unaryIndex,
     rg_decode = (\<lambda>_. Some (sampleState SubRunning)),
     rg_encode = (\<lambda>st. if st = sampleState SubRunning
        then ''running'' else ''recovered''),
     rg_retries = 2, rg_defer = False\<rparr>"

definition quietRegistry :: registry_env where
  "quietRegistry = \<lparr>re_recover = (\<lambda>_ _. quiet), re_index = (\<lambda>_. quiet), re_state = (\<lambda>_. quiet)\<rparr>"

lemma sampleRegistry_simps:
  "rg_spec sampleRegistry = sampleSubSpec" "rg_decode_index sampleRegistry = readUnaryIndex"
  "rg_encode_index sampleRegistry = unaryIndex" "rg_retries sampleRegistry = 2"
  "rg_decode sampleRegistry s = Some (sampleState SubRunning)" "rg_encode sampleRegistry (sampleState SubRunning) = ''running''"
  by (simp_all add: sampleRegistry_def)

lemma quietRegistry_simps: "re_recover quietRegistry r k = quiet" "re_index quietRegistry k = quiet" "re_state quietRegistry k = quiet"
  by (simp_all add: quietRegistry_def)

lemma quiet_simps: "ce_before quiet b = b" "ce_between quiet b = b" "\<not> ce_read_fails quiet" "ce_write quiet = WriteOk"
  by (simp_all add: quiet_def)

lemma sample_observed:
  "run (casRegistryStep sampleRegistry) newCasRegistry [CasObserveOp False quietRegistry (sampleEvent SubRunning)] =
     \<lparr>cr_pending = None, cr_index = Some (unaryIndex \<lparr>ri_version = 1, ri_refs = [(''w'', ''p'')]\<rparr>),
      cr_states = (\<lambda>_. None)((''w'', ''p'') := Some ''running'')\<rparr>"
proof -
  have put: "putSubagentState sampleSubSpec (sampleChild SubRunning) (newRegistryState sampleSubSpec ''w'' ''p'') =
      Inr (sampleState SubRunning)"
    by code_simp
  have change: "registryIndexChange (''w'', ''p'') \<lparr>ri_version = 1, ri_refs = []\<rparr> = Inr (Changed \<lparr>ri_version = 1, ri_refs = [(''w'', ''p'')]\<rparr> ())"
    by code_simp
  have none: "readRegistryIndex readUnaryIndex None = Inr \<lparr>ri_version = 1, ri_refs = []\<rparr>"
    "readRegistry sampleSubSpec d ''w'' ''p'' None = Inr (newRegistryState sampleSubSpec ''w'' ''p'')" for d
    by (simp_all add: readRegistryIndex_def casRegistryIndexVersion_def readRegistry_def)
  have event: "lv_workspace (sampleEvent SubRunning) = ''w''" "lv_record (sampleEvent SubRunning) = sampleChild SubRunning"
    "sr_parent (sampleChild SubRunning) = ''p''"
    by (simp_all add: sampleEvent_def sampleChild_def)
  show ?thesis
    by (simp add: newCasRegistry_def casRegistryStep_def casObserve_def event sampleRegistry_simps put none change Let_def
        ensureDeferredRecovery_def registryEnsureIndexed_def quietRegistry_simps quiet_simps numeral_2_eq_2 casAttempt_def
        blobCommit_iff observeChange_def)
qed

lemma sample_readable:
  "readRegistryIndex readUnaryIndex (Some (unaryIndex \<lparr>ri_version = 1, ri_refs = [(''w'', ''p'')]\<rparr>)) =
     Inr \<lparr>ri_version = 1, ri_refs = [(''w'', ''p'')]\<rparr>"
  using unaryIndex_codec
  by (simp add: readRegistryIndex_def codecKeeps_def validateRegistryIndex_def casRegistryIndexVersion_def)

theorem distributed_recovery_misses_none_witness:
  "\<exists>x' b st rs changed. runRecovery sampleRegistry quietRegistry 9 None
      (run (casRegistryStep sampleRegistry) newCasRegistry [CasObserveOp False quietRegistry (sampleEvent SubRunning)]) = (x', Inr ()) \<and>
    readRegistry sampleSubSpec (rg_decode sampleRegistry) ''w'' ''p'' b = Inr st \<and>
    cr_states x' (''w'', ''p'') = (if changed then Some (rg_encode sampleRegistry (st\<lparr>rs_records := rs\<rparr>)) else b) \<and>
    rs = map (interruptRecord (format_stamp 9)) (rs_records st)"
proof -
  let ?x = "run (casRegistryStep sampleRegistry) newCasRegistry [CasObserveOp False quietRegistry (sampleEvent SubRunning)]"
  have checked: "checkRegistry sampleSubSpec ''w'' ''p'' (sampleState SubRunning) = Inr (sampleState SubRunning)" by code_simp
  have change: "recoverChange sampleSubSpec None (format_stamp 9) (sampleState SubRunning) =
      Inr (Changed (interruptState (format_stamp 9) (sampleState SubRunning)) ())" by code_simp
  have read: "readRegistry sampleSubSpec (rg_decode sampleRegistry) ''w'' ''p'' (Some ''running'') = Inr (sampleState SubRunning)"
    using checked by (simp add: readRegistry_def sampleRegistry_simps)
  have "\<exists>x'. runRecovery sampleRegistry quietRegistry 9 None ?x = (x', Inr ())"
    unfolding sample_observed
    by (simp add: runRecovery_def recoverAll_def sampleRegistry_simps sample_readable recoverRef_def read change numeral_2_eq_2
        casAttempt_def quietRegistry_simps quiet_simps blobCommit_iff)
  then obtain x' where run: "runRecovery sampleRegistry quietRegistry 9 None ?x = (x', Inr ())" by blast
  have peers: "list_all (opPeers (rg_decode_index sampleRegistry)) [CasObserveOp False quietRegistry (sampleEvent SubRunning)]"
    by (simp add: peersKeepIndex_def quietRegistry_simps quiet_simps)
  have codec: "codecKeeps (rg_encode_index sampleRegistry) (rg_decode_index sampleRegistry)"
    using unaryIndex_codec by (simp add: sampleRegistry_simps)
  have present: "cr_states ?x (''w'', ''p'') \<noteq> None" unfolding sample_observed by simp
  from distributed_recovery_misses_none [OF codec peers refl run present] run show ?thesis
    unfolding sampleRegistry_simps(1) fst_conv snd_conv by blast
qed

end
