(* ===== verification/CommandPolicy.thy ===== *)
theory CommandPolicy
  imports Prelude
begin

text \<open>
  Model of the command policy of \<open>pkg/tools\<close> (\<open>exec_policy_types.go\<close>, \<open>exec_policy.go\<close>,
  \<open>exec_policy_match.go\<close>): rules that match a prefix of an argument vector, the decision of the
  strictest one, the fallback from an absolute program to its base name, and the fixtures a policy
  has to satisfy before it is used. Paths are those of a Unix system.
\<close>

section \<open>Types\<close>

text \<open>A Go slice, which is nil or a list; \<open>elems\<close> is what ranging over it sees.\<close>

type_synonym 'a slice = "'a list option"

definition elems :: "'a slice \<Rightarrow> 'a list" where
  "elems s = (case s of None \<Rightarrow> [] | Some xs \<Rightarrow> xs)"

lemma elems_simps [simp]: "elems None = []" "elems (Some xs) = xs"
  by (simp_all add: elems_def)

datatype decision_code = DecisionUnset | DecisionAllow | DecisionRequiresApproval | DecisionDeny | DecisionOther string

record tool_decision =
  td_code :: decision_code
  td_reason :: string
  td_audit :: string

record command_token =
  tk_literal :: string
  tk_alternatives :: "string slice"

record command_rule =
  cu_id :: string
  cu_decision :: decision_code
  cu_reason :: string
  cu_audit :: string
  cu_tokens :: "command_token slice"
  cu_host :: string
  cu_read_only :: bool
  cu_match :: "string slice slice"
  cu_not_match :: "string slice slice"
  cu_env_allow :: "string slice"

record host_executable =
  he_name :: string
  he_paths :: "string slice"

record command_config =
  cg_rules :: "command_rule list"
  cg_hosts :: "host_executable list"
  cg_resolve :: bool
  cg_default :: decision_code

record command_request =
  cq_argv :: "string list"
  cq_root :: string
  cq_cwd :: string
  cq_env :: "string list"

record rule_match =
  rm_id :: string
  rm_prefix :: "string list"
  rm_decision :: decision_code
  rm_reason :: string
  rm_audit :: string
  rm_read_only :: bool
  rm_host :: string
  rm_program :: string

record command_decision =
  cd_decision :: tool_decision
  cd_rule :: string
  cd_prefix :: "string list"
  cd_matches :: "rule_match list"
  cd_read_only :: bool
  cd_host :: string
  cd_program :: string
  cd_root :: string
  cd_cwd :: string
  cd_env_keys :: "string list"

text \<open>The compiled policy; the paths of an executable are a set, kept as a list.\<close>

record command_policy =
  cp_rules :: "command_rule list"
  cp_hosts :: "(string \<times> string list) list"
  cp_resolve :: bool
  cp_default :: decision_code

datatype policy_error =
    EmptyPattern string | InvalidToken string nat | UnsupportedDecision decision_code
  | MatchFixture string "string list" | NotMatchFixture string "string list"

section \<open>Matching\<close>

definition validToken :: "command_token \<Rightarrow> bool" where
  "validToken t =
     (if tk_literal t \<noteq> [] \<and> elems (tk_alternatives t) = [] then True
      else if tk_literal t \<noteq> [] \<or> elems (tk_alternatives t) = [] then False
      else list_all (\<lambda>a. a \<noteq> []) (elems (tk_alternatives t)))"

definition tokenMatches :: "command_token \<Rightarrow> string \<Rightarrow> bool" where
  "tokenMatches t v =
     (if tk_literal t \<noteq> [] then tk_literal t = v else list_ex (\<lambda>a. a = v) (elems (tk_alternatives t)))"

definition commandDecisionSeverity :: "decision_code \<Rightarrow> nat" where
  "commandDecisionSeverity d =
     (case d of DecisionDeny \<Rightarrow> 3 | DecisionRequiresApproval \<Rightarrow> 2 | DecisionAllow \<Rightarrow> 1 | _ \<Rightarrow> 0)"

definition defaultCommandReason :: "decision_code \<Rightarrow> string" where
  "defaultCommandReason d =
     (case d of DecisionAllow \<Rightarrow> ''command is allowed by policy''
      | DecisionDeny \<Rightarrow> ''command is denied by policy'' | _ \<Rightarrow> ''command requires approval'')"

definition defaultCommandAuditCode :: "decision_code \<Rightarrow> string" where
  "defaultCommandAuditCode d =
     (case d of DecisionAllow \<Rightarrow> ''exec.allow'' | DecisionDeny \<Rightarrow> ''exec.deny'' | _ \<Rightarrow> ''exec.approval_required'')"

definition commandRuleReason :: "command_rule \<Rightarrow> string" where
  "commandRuleReason r = (if cu_reason r \<noteq> [] then cu_reason r else defaultCommandReason (cu_decision r))"

definition commandRuleAuditCode :: "command_rule \<Rightarrow> string" where
  "commandRuleAuditCode r = (if cu_audit r \<noteq> [] then cu_audit r else defaultCommandAuditCode (cu_decision r))"

text \<open>\<open>filepath.IsAbs\<close> and \<open>filepath.Base\<close>.\<close>

definition isAbs :: "string \<Rightarrow> bool" where
  "isAbs p \<longleftrightarrow> p \<noteq> [] \<and> hd p = CHR ''/''"

definition filepathBase :: "string \<Rightarrow> string" where
  "filepathBase p =
     (if p = [] then ''.''
      else let t = rev (dropWhile (\<lambda>c. c = CHR ''/'') (rev p));
               b = rev (takeWhile (\<lambda>c. c \<noteq> CHR ''/'') (rev t))
           in if b = [] then ''/'' else b)"

definition prefixMatches :: "command_rule \<Rightarrow> string list \<Rightarrow> bool" where
  "prefixMatches r argv \<longleftrightarrow> length (elems (cu_tokens r)) \<le> length argv \<and>
     list_all (\<lambda>(t, v). tokenMatches t v) (zip (elems (cu_tokens r)) argv)"

definition ruleMatch :: "command_rule \<Rightarrow> string list \<Rightarrow> string \<Rightarrow> rule_match option" where
  "ruleMatch r argv resolved =
     (if \<not> prefixMatches r argv then None
      else Some \<lparr>rm_id = cu_id r, rm_prefix = take (length (elems (cu_tokens r))) argv, rm_decision = cu_decision r,
                 rm_reason = commandRuleReason r, rm_audit = commandRuleAuditCode r, rm_read_only = cu_read_only r,
                 rm_host = (if cu_host r = [] \<and> resolved \<noteq> [] then filepathBase resolved else cu_host r),
                 rm_program = resolved\<rparr>)"

definition matchesExact :: "command_rule \<Rightarrow> string list \<Rightarrow> bool" where
  "matchesExact r argv \<longleftrightarrow> ruleMatch r argv [] \<noteq> None"

definition hostExecutableAllowed :: "command_policy \<Rightarrow> string \<Rightarrow> string \<Rightarrow> bool" where
  "hostExecutableAllowed p name path =
     (case map_of (cp_hosts p) name of None \<Rightarrow> True | Some paths \<Rightarrow> path \<in> set paths)"

definition matchesForArgv :: "command_policy \<Rightarrow> string list \<Rightarrow> rule_match list" where
  "matchesForArgv p argv =
     (let exact = List.map_filter (\<lambda>r. ruleMatch r argv []) (cp_rules p) in
      if exact \<noteq> [] \<or> \<not> cp_resolve p \<or> \<not> isAbs (hd argv) then exact
      else let program = filepathBase (hd argv) in
        if \<not> hostExecutableAllowed p program (hd argv) then []
        else List.map_filter (\<lambda>r. ruleMatch r (program # tl argv) (hd argv)) (cp_rules p))"

section \<open>The decision\<close>

definition betterMatch :: "rule_match \<Rightarrow> rule_match \<Rightarrow> rule_match" where
  "betterMatch best c =
     (if commandDecisionSeverity (rm_decision c) > commandDecisionSeverity (rm_decision best) then c
      else if rm_decision c = rm_decision best \<and> length (rm_prefix c) > length (rm_prefix best) then c
      else best)"

definition cutKey :: "string \<Rightarrow> string" where
  "cutKey entry =
     (let key = takeWhile (\<lambda>c. c \<noteq> CHR ''='') entry in
      if CHR ''='' \<notin> set entry \<or> key = [] then entry else key)"

fun collectKeys :: "string list \<Rightarrow> string list \<Rightarrow> string list \<Rightarrow> string list" where
  "collectKeys allowed seen [] = []"
| "collectKeys allowed seen (e # es) =
     (let key = cutKey e in
      if key = [] \<or> key \<in> set seen then collectKeys allowed seen es
      else if allowed \<noteq> [] \<and> key \<notin> set allowed then collectKeys allowed seen es
      else key # collectKeys allowed (key # seen) es)"

definition envKeys :: "string list \<Rightarrow> string list \<Rightarrow> string list" where
  "envKeys env allowlist = sort (collectKeys (filter (\<lambda>k. k \<noteq> []) allowlist) [] env)"

definition envAllowlistForRule :: "command_policy \<Rightarrow> string \<Rightarrow> string list" where
  "envAllowlistForRule p i =
     (case find (\<lambda>r. cu_id r = i) (cp_rules p) of None \<Rightarrow> [] | Some r \<Rightarrow> elems (cu_env_allow r))"

definition decideCommand :: "command_policy \<Rightarrow> command_request \<Rightarrow> command_decision" where
  "decideCommand p q =
     (let base = \<lparr>cd_decision = \<lparr>td_code = cp_default p, td_reason = defaultCommandReason (cp_default p),
                     td_audit = defaultCommandAuditCode (cp_default p)\<rparr>,
                  cd_rule = [], cd_prefix = [], cd_matches = [], cd_read_only = False, cd_host = [], cd_program = [],
                  cd_root = cq_root q, cd_cwd = cq_cwd q, cd_env_keys = envKeys (cq_env q) []\<rparr>
      in if cq_argv q = [] then base\<lparr>cd_decision := (cd_decision base)\<lparr>td_reason := ''command argv is empty''\<rparr>\<rparr>
         else case matchesForArgv p (cq_argv q) of
           [] \<Rightarrow> base
         | m # ms \<Rightarrow>
             let best = foldl betterMatch m ms in
             base\<lparr>cd_matches := m # ms,
                  cd_decision := \<lparr>td_code = rm_decision best, td_reason = rm_reason best, td_audit = rm_audit best\<rparr>,
                  cd_rule := rm_id best, cd_prefix := rm_prefix best, cd_read_only := rm_read_only best,
                  cd_host := rm_host best, cd_program := rm_program best,
                  cd_env_keys := envKeys (cq_env q) (envAllowlistForRule p (rm_id best))\<rparr>)"

section \<open>Compilation\<close>

definition validateDecision :: "decision_code \<Rightarrow> (policy_error, unit) result" where
  "validateDecision d =
     (case d of DecisionAllow \<Rightarrow> Inr () | DecisionRequiresApproval \<Rightarrow> Inr () | DecisionDeny \<Rightarrow> Inr ()
      | _ \<Rightarrow> Inl (UnsupportedDecision d))"

fun invalidTokenFrom :: "nat \<Rightarrow> command_token list \<Rightarrow> nat option" where
  "invalidTokenFrom i [] = None"
| "invalidTokenFrom i (t # ts) = (if validToken t then invalidTokenFrom (Suc i) ts else Some i)"

definition compileCommandRule :: "command_rule \<Rightarrow> (policy_error, command_rule) result" where
  "compileCommandRule r =
     (if elems (cu_tokens r) = [] then Inl (EmptyPattern (cu_id r))
      else let d = (if cu_decision r = DecisionUnset then DecisionAllow else cu_decision r) in
        and_then (validateDecision d) (\<lambda>_.
          case invalidTokenFrom 0 (elems (cu_tokens r)) of
            Some i \<Rightarrow> Inl (InvalidToken (cu_id r) i)
          | None \<Rightarrow> Inr (r\<lparr>cu_decision := d\<rparr>)))"

fun compileRules :: "command_rule list \<Rightarrow> (policy_error, command_rule list) result" where
  "compileRules [] = Inr []"
| "compileRules (r # rs) =
     and_then (compileCommandRule r) (\<lambda>r'. and_then (compileRules rs) (\<lambda>rs'. Inr (r' # rs')))"

fun compileHostExecutables :: "host_executable list \<Rightarrow> (string \<times> string list) list \<Rightarrow> (string \<times> string list) list" where
  "compileHostExecutables [] m = m"
| "compileHostExecutables (e # es) m =
     (if he_name e = [] then compileHostExecutables es m
      else compileHostExecutables es
        (AList.update (he_name e)
           ((case map_of m (he_name e) of None \<Rightarrow> [] | Some ps \<Rightarrow> ps) @ filter (\<lambda>p. p \<noteq> []) (elems (he_paths e))) m))"

definition checkRuleFixtures :: "command_rule \<Rightarrow> (policy_error, unit) result" where
  "checkRuleFixtures r =
     first_error
       (map (\<lambda>ex. guard (matchesExact r (elems ex)) (MatchFixture (cu_id r) (elems ex))) (elems (cu_match r)) @
        map (\<lambda>ex. guard (\<not> matchesExact r (elems ex)) (NotMatchFixture (cu_id r) (elems ex))) (elems (cu_not_match r)))"

definition validateFixtures :: "command_policy \<Rightarrow> (policy_error, unit) result" where
  "validateFixtures p = first_error (map checkRuleFixtures (cp_rules p))"

definition newCommandPolicy :: "command_config \<Rightarrow> (policy_error, command_policy) result" where
  "newCommandPolicy c =
     (let d = (if cg_default c = DecisionUnset then DecisionRequiresApproval else cg_default c) in
      and_then (validateDecision d) (\<lambda>_.
        and_then (compileRules (cg_rules c)) (\<lambda>rs.
          let p = \<lparr>cp_rules = rs, cp_hosts = compileHostExecutables (cg_hosts c) [], cp_resolve = cg_resolve c, cp_default = d\<rparr> in
          and_then (validateFixtures p) (\<lambda>_. Inr p))))"

end
