(* ===== verification/Requirements.thy ===== *)
theory Requirements
  imports CommandPolicy
begin

text \<open>
  Model of \<open>pkg/requirements\<close>: configuration layers with a source are composed into the
  requirements of a session (\<open>compose.go\<close>, \<open>layer.go\<close>, \<open>merge_policy.go\<close>,
  \<open>merge_hooks.go\<close>, \<open>merge_named.go\<close>, \<open>source.go\<close>), from which the command policy and the
  hook runtime are configured (\<open>requirements.go\<close>). \<open>reflect.DeepEqual\<close> is equality here: nil
  and empty slices are different values, and a Go map is its list of entries in key order.
\<close>

section \<open>Types\<close>

record source =
  so_label :: string
  so_kind :: string
  so_path :: string

record 'a sourced =
  sd_value :: 'a
  sd_source :: source

datatype approval_mode = ApprovalUnspecified | ApprovalNever | ApprovalOnRequest | ApprovalAlways | ApprovalOther string

record policy_requirement =
  pq_default :: decision_code
  pq_resolve :: "bool option"
  pq_rules :: "command_rule list"
  pq_hosts :: "host_executable list"

record hook_config =
  hc_timeout :: int
  hc_env_allow :: "string slice"

record command_hook =
  hk_name :: string
  hk_event :: string
  hk_command :: "string slice"
  hk_timeout :: int
  hk_env :: "(string \<times> string) slice"

record hook_requirement =
  hq_config :: hook_config
  hq_hooks :: "command_hook list"

record mcp_server =
  mc_name :: string
  mc_command :: string
  mc_args :: "string slice"
  mc_env :: "string slice"
  mc_idle :: int

datatype catalog_kind = CatalogUnset | CatalogPlugin | CatalogAgent | CatalogSkill | CatalogOther string

record catalog_source =
  ct_name :: string
  ct_kind :: catalog_kind
  ct_path :: string
  ct_uri :: string

record model_choice =
  mo_role :: string
  mo_model :: string

record file_store_path =
  fs_name :: string
  fs_path :: string

record feature_gate =
  fg_name :: string
  fg_enabled :: bool

record layer =
  ly_source :: source
  ly_approval :: "approval_mode option"
  ly_policy :: "policy_requirement option"
  ly_hooks :: "hook_requirement option"
  ly_servers :: "mcp_server list"
  ly_catalogs :: "catalog_source list"
  ly_models :: "model_choice list"
  ly_stores :: "file_store_path list"
  ly_features :: "feature_gate list"

text \<open>An invalid layer names the source as it is displayed, a conflict the field and both sources.\<close>

datatype requirement_error =
    MissingSource nat
  | InvalidLayer string string
  | ConflictError string source source string

type_synonym 'a table = "(string \<times> 'a sourced) list"

record merge_state =
  ms_approval :: "approval_mode sourced option"
  ms_default :: "decision_code sourced option"
  ms_resolve :: "bool sourced option"
  ms_rules :: "command_rule sourced list"
  ms_rule_by_id :: "command_rule table"
  ms_hosts :: "host_executable sourced list"
  ms_host_by_name :: "host_executable table"
  ms_hook_config :: "hook_requirement sourced option"
  ms_hooks :: "command_hook sourced list"
  ms_hook_by_key :: "command_hook table"
  ms_servers :: "mcp_server table"
  ms_catalogs :: "catalog_source table"
  ms_models :: "model_choice table"
  ms_stores :: "file_store_path table"
  ms_features :: "feature_gate table"

record requirements =
  rq_approval :: "approval_mode sourced option"
  rq_default :: "decision_code sourced option"
  rq_resolve :: "bool sourced option"
  rq_rules :: "command_rule sourced list"
  rq_hosts :: "host_executable sourced list"
  rq_hook_config :: "hook_config sourced option"
  rq_hooks :: "command_hook sourced list"
  rq_servers :: "mcp_server table"
  rq_catalogs :: "catalog_source table"
  rq_models :: "model_choice table"
  rq_stores :: "file_store_path table"
  rq_features :: "feature_gate table"

section \<open>Sources\<close>

definition newSource :: "string \<Rightarrow> source" where
  "newSource label = \<lparr>so_label = trim_space label, so_kind = [], so_path = []\<rparr>"

definition displaySource :: "source \<Rightarrow> string" where
  "displaySource s =
     (if trim_space (so_label s) \<noteq> [] then trim_space (so_label s)
      else if trim_space (so_path s) \<noteq> [] then trim_space (so_path s)
      else if trim_space (so_kind s) \<noteq> [] then trim_space (so_kind s)
      else ''<missing source>'')"

definition validSource :: "source \<Rightarrow> bool" where
  "validSource s \<longleftrightarrow> trim_space (so_label s) \<noteq> []"

definition withSource :: "'a \<Rightarrow> source \<Rightarrow> 'a sourced" where
  "withSource v s = \<lparr>sd_value = v, sd_source = s\<rparr>"

section \<open>Merging\<close>

text \<open>A single setting: two layers may not differ, the later source is kept.\<close>

definition mergeScalar :: "('a \<Rightarrow> 'a \<Rightarrow> bool) \<Rightarrow> string \<Rightarrow> string \<Rightarrow> source \<Rightarrow> 'a \<Rightarrow> 'a sourced option
     \<Rightarrow> (requirement_error, 'a sourced option) result" where
  "mergeScalar same field msg src v old =
     (case old of
        Some x \<Rightarrow> if \<not> same (sd_value x) v then Inl (ConflictError field (sd_source x) src msg) else Inr (Some (withSource v src))
      | None \<Rightarrow> Inr (Some (withSource v src)))"

text \<open>
  Entries with a key: each is checked, a known key has to have the same definition, a new one is
  recorded. The result is the table and the entries that are new, in their order. This is the loop
  of \<open>mergeNamed\<close>, which those over host executables, rules and hooks repeat.
\<close>

fun mergeEntries :: "('a \<Rightarrow> (string, unit) result) \<Rightarrow> ('a \<Rightarrow> string) \<Rightarrow> ('a \<Rightarrow> 'a \<Rightarrow> bool) \<Rightarrow> string \<Rightarrow> string \<Rightarrow> source
     \<Rightarrow> 'a list \<Rightarrow> 'a table \<Rightarrow> (requirement_error, 'a table \<times> 'a sourced list) result" where
  "mergeEntries check key same field msg src [] m = Inr (m, [])"
| "mergeEntries check key same field msg src (v # vs) m =
     (case check v of
        Inl e \<Rightarrow> Inl (InvalidLayer (displaySource src) e)
      | Inr _ \<Rightarrow>
          (case map_of m (key v) of
             Some x \<Rightarrow>
               if \<not> same (sd_value x) v then Inl (ConflictError (field @ ''.'' @ key v) (sd_source x) src msg)
               else mergeEntries check key same field msg src vs m
           | None \<Rightarrow>
               and_then (mergeEntries check key same field msg src vs (AList.update (key v) (withSource v src) m))
                 (\<lambda>(m', new). Inr (m', withSource v src # new))))"

definition mergeNamed :: "string \<Rightarrow> ('a \<Rightarrow> string) \<Rightarrow> ('a \<Rightarrow> (string, unit) result) \<Rightarrow> source \<Rightarrow> 'a list \<Rightarrow> 'a table
     \<Rightarrow> (requirement_error, 'a table) result" where
  "mergeNamed field nameOf check src vs m =
     and_then (mergeEntries (\<lambda>v. if trim_space (nameOf v) = [] then Inl (field @ '' name required'') else check v)
         nameOf (=) field ''definitions differ'' src vs m) (\<lambda>(m', _). Inr m')"

section \<open>The checks\<close>

definition validateApprovalMode :: "approval_mode \<Rightarrow> (string, unit) result" where
  "validateApprovalMode m =
     (case m of ApprovalNever \<Rightarrow> Inr () | ApprovalOnRequest \<Rightarrow> Inr () | ApprovalAlways \<Rightarrow> Inr ()
      | _ \<Rightarrow> Inl ''unsupported approval mode'')"

definition validatePolicyDecision :: "decision_code \<Rightarrow> (string, unit) result" where
  "validatePolicyDecision d =
     (case d of DecisionAllow \<Rightarrow> Inr () | DecisionRequiresApproval \<Rightarrow> Inr () | DecisionDeny \<Rightarrow> Inr ()
      | _ \<Rightarrow> Inl ''unsupported decision'')"

definition validCommandToken :: "command_token \<Rightarrow> bool" where
  "validCommandToken t =
     (if tk_literal t \<noteq> [] \<and> elems (tk_alternatives t) = [] then True
      else if tk_literal t \<noteq> [] \<or> elems (tk_alternatives t) = [] then False
      else list_all (\<lambda>a. a \<noteq> []) (elems (tk_alternatives t)))"

definition validateRule :: "command_rule \<Rightarrow> (string, unit) result" where
  "validateRule r =
     (if cu_decision r \<noteq> DecisionUnset \<and> failed (validatePolicyDecision (cu_decision r)) then Inl ''unsupported decision''
      else if elems (cu_tokens r) = [] then Inl ''command rule has empty pattern''
      else if list_all validCommandToken (elems (cu_tokens r)) then Inr () else Inl ''command rule has invalid token'')"

definition checkHost :: "host_executable \<Rightarrow> (string, unit) result" where
  "checkHost h = (if trim_space (he_name h) = [] then Inl ''host executable name required'' else Inr ())"

definition checkRule :: "command_rule \<Rightarrow> (string, unit) result" where
  "checkRule r = (if trim_space (cu_id r) = [] then Inl ''command rule id required'' else validateRule r)"

definition validHookEvent :: "string \<Rightarrow> bool" where
  "validHookEvent e \<longleftrightarrow> e \<in> set [''PreToolUse'', ''PostToolUse'', ''PostToolUseFailure'', ''Command'', ''UserPromptSubmit'',
     ''SessionStart'', ''SessionEnd'', ''TaskCreated'', ''TaskCompleted'', ''PreCompact'', ''PostCompact'', ''CwdChanged'',
     ''FileChanged'', ''ToolLifecycle'']"

definition checkHook :: "command_hook \<Rightarrow> (string, unit) result" where
  "checkHook h =
     (if hk_name h = [] then Inl ''hook name required''
      else if hk_event h = [] then Inl ''hook event required''
      else if \<not> validHookEvent (hk_event h) then Inl ''hook has unsupported event''
      else if elems (hk_command h) = [] \<or> hd (elems (hk_command h)) = [] then Inl ''hook command required''
      else Inr ())"

definition hookKey :: "command_hook \<Rightarrow> string" where
  "hookKey h = hk_event h @ ''.'' @ hk_name h"

definition hookTimeoutValue :: "int \<Rightarrow> int" where
  "hookTimeoutValue d = (if d \<le> 0 then 0 else d)"

definition sameHookConfig :: "hook_config \<Rightarrow> hook_config \<Rightarrow> bool" where
  "sameHookConfig a b \<longleftrightarrow> hookTimeoutValue (hc_timeout a) = hookTimeoutValue (hc_timeout b) \<and> hc_env_allow a = hc_env_allow b"

definition equalHook :: "command_hook \<Rightarrow> command_hook \<Rightarrow> bool" where
  "equalHook a b \<longleftrightarrow> hk_name a = hk_name b \<and> hk_event a = hk_event b \<and>
     hookTimeoutValue (hk_timeout a) = hookTimeoutValue (hk_timeout b) \<and> hk_command a = hk_command b \<and> hk_env a = hk_env b"

definition validateMCPServer :: "mcp_server \<Rightarrow> (string, unit) result" where
  "validateMCPServer s = (if trim_space (mc_command s) = [] then Inl ''mcp server command required'' else Inr ())"

definition validateCatalogSource :: "catalog_source \<Rightarrow> (string, unit) result" where
  "validateCatalogSource c =
     (case ct_kind c of
        CatalogUnset \<Rightarrow> Inl ''catalog kind required''
      | CatalogOther _ \<Rightarrow> Inl ''catalog has unsupported kind''
      | _ \<Rightarrow> if trim_space (ct_path c) = [] \<and> trim_space (ct_uri c) = [] then Inl ''catalog path or uri required'' else Inr ())"

definition validateModelChoice :: "model_choice \<Rightarrow> (string, unit) result" where
  "validateModelChoice c = (if trim_space (mo_model c) = [] then Inl ''model required'' else Inr ())"

definition validateFileStorePath :: "file_store_path \<Rightarrow> (string, unit) result" where
  "validateFileStorePath p = (if trim_space (fs_path p) = [] then Inl ''file store path required'' else Inr ())"

definition validateFeatureGate :: "feature_gate \<Rightarrow> (string, unit) result" where
  "validateFeatureGate g = Inr ()"

section \<open>One layer\<close>

definition mergeApproval :: "layer \<Rightarrow> merge_state \<Rightarrow> (requirement_error, merge_state) result" where
  "mergeApproval l s =
     (case ly_approval l of
        None \<Rightarrow> Inr s
      | Some m \<Rightarrow>
          if m = ApprovalUnspecified then Inr s
          else case validateApprovalMode m of
            Inl e \<Rightarrow> Inl (InvalidLayer (displaySource (ly_source l)) e)
          | Inr _ \<Rightarrow>
              and_then (mergeScalar (=) ''approval.mode'' ''approval modes differ'' (ly_source l) m (ms_approval s))
                (\<lambda>a. Inr (s\<lparr>ms_approval := a\<rparr>)))"

definition mergeDefault :: "source \<Rightarrow> decision_code \<Rightarrow> merge_state \<Rightarrow> (requirement_error, merge_state) result" where
  "mergeDefault src d s =
     (if d = DecisionUnset then Inr s
      else case validatePolicyDecision d of
        Inl e \<Rightarrow> Inl (InvalidLayer (displaySource src) e)
      | Inr _ \<Rightarrow>
          and_then (mergeScalar (=) ''tool_policy.default_decision'' ''default decisions differ'' src d (ms_default s))
            (\<lambda>a. Inr (s\<lparr>ms_default := a\<rparr>)))"

definition mergeResolve :: "source \<Rightarrow> bool option \<Rightarrow> merge_state \<Rightarrow> (requirement_error, merge_state) result" where
  "mergeResolve src r s =
     (case r of
        None \<Rightarrow> Inr s
      | Some b \<Rightarrow>
          and_then (mergeScalar (=) ''tool_policy.resolve_host_executables'' ''host executable resolution differs'' src b (ms_resolve s))
            (\<lambda>a. Inr (s\<lparr>ms_resolve := a\<rparr>)))"

definition mergeHosts :: "source \<Rightarrow> host_executable list \<Rightarrow> merge_state \<Rightarrow> (requirement_error, merge_state) result" where
  "mergeHosts src hs s =
     and_then (mergeEntries checkHost he_name (=) ''tool_policy.host_executables'' ''host executable definitions differ'' src hs
         (ms_host_by_name s))
       (\<lambda>(m, new). Inr (s\<lparr>ms_host_by_name := m, ms_hosts := ms_hosts s @ new\<rparr>))"

definition mergeRules :: "source \<Rightarrow> command_rule list \<Rightarrow> merge_state \<Rightarrow> (requirement_error, merge_state) result" where
  "mergeRules src rs s =
     and_then (mergeEntries checkRule cu_id (=) ''tool_policy.rules'' ''command rule definitions differ'' src rs (ms_rule_by_id s))
       (\<lambda>(m, new). Inr (s\<lparr>ms_rule_by_id := m, ms_rules := new @ ms_rules s\<rparr>))"

definition mergeToolPolicy :: "layer \<Rightarrow> merge_state \<Rightarrow> (requirement_error, merge_state) result" where
  "mergeToolPolicy l s =
     (case ly_policy l of
        None \<Rightarrow> Inr s
      | Some p \<Rightarrow>
          and_then (mergeDefault (ly_source l) (pq_default p) s) (\<lambda>s.
          and_then (mergeResolve (ly_source l) (pq_resolve p) s) (\<lambda>s.
          and_then (mergeHosts (ly_source l) (pq_hosts p) s) (\<lambda>s.
          mergeRules (ly_source l) (pq_rules p) s))))"

definition mergeHookConfig :: "source \<Rightarrow> hook_requirement \<Rightarrow> merge_state \<Rightarrow> (requirement_error, merge_state) result" where
  "mergeHookConfig src req s =
     (if hookTimeoutValue (hc_timeout (hq_config req)) > 0 \<or> elems (hc_env_allow (hq_config req)) \<noteq> [] then
        and_then (mergeScalar (\<lambda>a b. sameHookConfig (hq_config a) (hq_config b)) ''hooks.config'' ''hook runtime config differs'' src req
            (ms_hook_config s))
          (\<lambda>a. Inr (s\<lparr>ms_hook_config := a\<rparr>))
      else Inr s)"

definition mergeHookList :: "source \<Rightarrow> command_hook list \<Rightarrow> merge_state \<Rightarrow> (requirement_error, merge_state) result" where
  "mergeHookList src hs s =
     and_then (mergeEntries checkHook hookKey equalHook ''hooks'' ''hook command definitions differ'' src hs (ms_hook_by_key s))
       (\<lambda>(m, new). Inr (s\<lparr>ms_hook_by_key := m, ms_hooks := new @ ms_hooks s\<rparr>))"

definition mergeHooks :: "layer \<Rightarrow> merge_state \<Rightarrow> (requirement_error, merge_state) result" where
  "mergeHooks l s =
     (case ly_hooks l of
        None \<Rightarrow> Inr s
      | Some req \<Rightarrow> and_then (mergeHookConfig (ly_source l) req s) (mergeHookList (ly_source l) (hq_hooks req)))"

definition addLayer :: "nat \<Rightarrow> layer \<Rightarrow> merge_state \<Rightarrow> (requirement_error, merge_state) result" where
  "addLayer i l s =
     (if \<not> validSource (ly_source l) then Inl (MissingSource i)
      else
        and_then (mergeApproval l s) (\<lambda>s.
        and_then (mergeToolPolicy l s) (\<lambda>s.
        and_then (mergeHooks l s) (\<lambda>s.
        and_then (mergeNamed ''mcp_servers'' mc_name validateMCPServer (ly_source l) (ly_servers l) (ms_servers s)) (\<lambda>m.
        let s = s\<lparr>ms_servers := m\<rparr> in
        and_then (mergeNamed ''catalogs'' ct_name validateCatalogSource (ly_source l) (ly_catalogs l) (ms_catalogs s)) (\<lambda>m.
        let s = s\<lparr>ms_catalogs := m\<rparr> in
        and_then (mergeNamed ''models'' mo_role validateModelChoice (ly_source l) (ly_models l) (ms_models s)) (\<lambda>m.
        let s = s\<lparr>ms_models := m\<rparr> in
        and_then (mergeNamed ''file_stores'' fs_name validateFileStorePath (ly_source l) (ly_stores l) (ms_stores s)) (\<lambda>m.
        let s = s\<lparr>ms_stores := m\<rparr> in
        and_then (mergeNamed ''feature_gates'' fg_name validateFeatureGate (ly_source l) (ly_features l) (ms_features s)) (\<lambda>m.
        Inr (s\<lparr>ms_features := m\<rparr>))))))))))"

section \<open>All layers\<close>

definition newMergeState :: merge_state where
  "newMergeState = \<lparr>ms_approval = None, ms_default = None, ms_resolve = None, ms_rules = [], ms_rule_by_id = [], ms_hosts = [],
     ms_host_by_name = [], ms_hook_config = None, ms_hooks = [], ms_hook_by_key = [], ms_servers = [], ms_catalogs = [],
     ms_models = [], ms_stores = [], ms_features = []\<rparr>"

fun addLayers :: "nat \<Rightarrow> layer list \<Rightarrow> merge_state \<Rightarrow> (requirement_error, merge_state) result" where
  "addLayers i [] s = Inr s"
| "addLayers i (l # ls) s = and_then (addLayer i l s) (addLayers (Suc i) ls)"

definition outputRequirements :: "merge_state \<Rightarrow> requirements" where
  "outputRequirements s = \<lparr>rq_approval = ms_approval s, rq_default = ms_default s, rq_resolve = ms_resolve s, rq_rules = ms_rules s,
     rq_hosts = sort_key (\<lambda>h. he_name (sd_value h)) (ms_hosts s),
     rq_hook_config = map_option (\<lambda>x. withSource (hq_config (sd_value x)) (sd_source x)) (ms_hook_config s),
     rq_hooks = ms_hooks s, rq_servers = ms_servers s, rq_catalogs = ms_catalogs s, rq_models = ms_models s,
     rq_stores = ms_stores s, rq_features = ms_features s\<rparr>"

definition compose :: "layer list \<Rightarrow> (requirement_error, requirements) result" where
  "compose ls = and_then (addLayers 0 ls newMergeState) (\<lambda>s. Inr (outputRequirements s))"

section \<open>What the requirements configure\<close>

definition commandPolicyConfig :: "requirements \<Rightarrow> command_config" where
  "commandPolicyConfig r = \<lparr>cg_rules = map sd_value (rq_rules r), cg_hosts = map sd_value (rq_hosts r),
     cg_resolve = (case rq_resolve r of None \<Rightarrow> False | Some b \<Rightarrow> sd_value b),
     cg_default = (case rq_default r of None \<Rightarrow> DecisionUnset | Some d \<Rightarrow> sd_value d)\<rparr>"

definition hookRuntimeConfig :: "requirements \<Rightarrow> hook_config \<times> command_hook list" where
  "hookRuntimeConfig r =
     ((case rq_hook_config r of None \<Rightarrow> \<lparr>hc_timeout = 0, hc_env_allow = None\<rparr> | Some c \<Rightarrow> sd_value c), map sd_value (rq_hooks r))"

end
