(* ===== verification/CommandPolicyProofs.thy ===== *)
theory CommandPolicyProofs
  imports CommandPolicy
begin

text \<open>
  Correctness of the command policy: what compilation accepts, that the strictest applicable rule
  decides, and that the fixtures of a compiled policy hold.
\<close>

section \<open>Compilation\<close>

definition knownDecision :: "decision_code \<Rightarrow> bool" where
  "knownDecision d \<longleftrightarrow> d = DecisionAllow \<or> d = DecisionRequiresApproval \<or> d = DecisionDeny"

lemma validateDecision_iff [simp]: "validateDecision d = Inr u \<longleftrightarrow> knownDecision d"
  by (cases d) (simp_all add: validateDecision_def knownDecision_def)

definition withDecision :: "command_rule \<Rightarrow> command_rule" where
  "withDecision r = r\<lparr>cu_decision := (if cu_decision r = DecisionUnset then DecisionAllow else cu_decision r)\<rparr>"

lemma withDecision_simps [simp]:
  "cu_id (withDecision r) = cu_id r" "cu_tokens (withDecision r) = cu_tokens r" "cu_match (withDecision r) = cu_match r"
  "cu_not_match (withDecision r) = cu_not_match r" "cu_decision (withDecision r) = (if cu_decision r = DecisionUnset then DecisionAllow else cu_decision r)"
  "prefixMatches (withDecision r) = prefixMatches r"
  by (simp_all add: withDecision_def prefixMatches_def fun_eq_iff)

definition ruleFits :: "command_rule \<Rightarrow> bool" where
  "ruleFits r \<longleftrightarrow> elems (cu_tokens r) \<noteq> [] \<and> knownDecision (cu_decision (withDecision r)) \<and>
     list_all validToken (elems (cu_tokens r))"

lemma invalidTokenFrom_None [simp]: "invalidTokenFrom i ts = None \<longleftrightarrow> list_all validToken ts"
  by (induction ts arbitrary: i) auto

lemma compileCommandRule_iff: "compileCommandRule r = Inr r' \<longleftrightarrow> ruleFits r \<and> r' = withDecision r"
proof (cases "invalidTokenFrom 0 (elems (cu_tokens r))")
  case None
  moreover from this have "list_all validToken (elems (cu_tokens r))" by simp
  ultimately show ?thesis
    by (auto simp: compileCommandRule_def ruleFits_def Let_def withDecision_def simp del: invalidTokenFrom_None)
next
  case (Some i)
  then have "\<not> list_all validToken (elems (cu_tokens r))" using invalidTokenFrom_None by (metis option.distinct(1))
  with Some show ?thesis
    by (simp add: compileCommandRule_def ruleFits_def Let_def)
qed

lemma compileRules_iff: "compileRules rs = Inr rs' \<longleftrightarrow> list_all ruleFits rs \<and> rs' = map withDecision rs"
  by (induction rs arbitrary: rs') (auto simp: compileCommandRule_iff)

lemma matchesExact_iff [simp]: "matchesExact r argv \<longleftrightarrow> prefixMatches r argv"
  by (simp add: matchesExact_def ruleMatch_def)

definition fixturesHold :: "command_rule \<Rightarrow> bool" where
  "fixturesHold r \<longleftrightarrow> list_all (\<lambda>ex. prefixMatches r (elems ex)) (elems (cu_match r)) \<and>
     list_all (\<lambda>ex. \<not> prefixMatches r (elems ex)) (elems (cu_not_match r))"

lemma first_error_append: "first_error (xs @ ys) = Inr u \<longleftrightarrow> first_error xs = Inr () \<and> first_error ys = Inr ()"
  by (induction xs) (auto split: sum.splits)

lemma checkRuleFixtures_iff: "checkRuleFixtures r = Inr u \<longleftrightarrow> fixturesHold r"
  by (auto simp: checkRuleFixtures_def first_error_append first_error_map_ok_iff fixturesHold_def list_all_iff)

lemma validateFixtures_iff: "validateFixtures p = Inr u \<longleftrightarrow> list_all fixturesHold (cp_rules p)"
  by (auto simp: validateFixtures_def first_error_map_ok_iff checkRuleFixtures_iff list_all_iff)

lemma fixturesHold_withDecision [simp]: "fixturesHold (withDecision r) = fixturesHold r"
  by (simp add: fixturesHold_def)

definition configDefault :: "command_config \<Rightarrow> decision_code" where
  "configDefault c = (if cg_default c = DecisionUnset then DecisionRequiresApproval else cg_default c)"

lemma newCommandPolicy_iff:
  "newCommandPolicy c = Inr p \<longleftrightarrow> knownDecision (configDefault c) \<and> list_all ruleFits (cg_rules c) \<and> list_all fixturesHold (cg_rules c) \<and>
     p = \<lparr>cp_rules = map withDecision (cg_rules c), cp_hosts = compileHostExecutables (cg_hosts c) [], cp_resolve = cg_resolve c,
          cp_default = configDefault c\<rparr>"
  by (auto simp: newCommandPolicy_def Let_def compileRules_iff validateFixtures_iff list.pred_map comp_def configDefault_def)

lemma first_error_Inl: "first_error rs = Inl e \<Longrightarrow> Inl e \<in> set rs"
  by (induction rs) (auto split: sum.splits)

lemma validateFixtures_error:
  assumes "validateFixtures p = Inl e"
  shows "\<exists>i argv. e = MatchFixture i argv \<or> e = NotMatchFixture i argv"
proof -
  from assms obtain r where "checkRuleFixtures r = Inl e" unfolding validateFixtures_def by (auto dest!: first_error_Inl)
  then show ?thesis unfolding checkRuleFixtures_def by (auto dest!: first_error_Inl simp: guard_def split: if_splits)
qed

lemma newCommandPolicy_error:
  assumes "knownDecision (configDefault c)" "list_all ruleFits (cg_rules c)" "newCommandPolicy c = Inl e"
  shows "\<exists>i argv. e = MatchFixture i argv \<or> e = NotMatchFixture i argv"
proof -
  let ?p = "\<lparr>cp_rules = map withDecision (cg_rules c), cp_hosts = compileHostExecutables (cg_hosts c) [],
      cp_resolve = cg_resolve c, cp_default = configDefault c\<rparr>"
  have "validateDecision (configDefault c) = Inr ()" using assms(1) by (rule validateDecision_iff [THEN iffD2])
  moreover have "compileRules (cg_rules c) = Inr (map withDecision (cg_rules c))" using assms(2) by (simp add: compileRules_iff)
  ultimately have "newCommandPolicy c = and_then (validateFixtures ?p) (\<lambda>_. Inr ?p)"
    unfolding newCommandPolicy_def Let_def configDefault_def by (simp only: and_then_simps)
  with assms(3) have "validateFixtures ?p = Inl e" by (cases "validateFixtures ?p") simp_all
  then show ?thesis by (rule validateFixtures_error)
qed

section \<open>The best match\<close>

lemma betterMatch_cases:
  obtains (stricter) "commandDecisionSeverity (rm_decision c) > commandDecisionSeverity (rm_decision b)" "betterMatch b c = c"
    | (longer) "rm_decision c = rm_decision b" "length (rm_prefix c) > length (rm_prefix b)" "betterMatch b c = c"
    | (keep) "commandDecisionSeverity (rm_decision c) \<le> commandDecisionSeverity (rm_decision b)"
        "rm_decision c = rm_decision b \<longrightarrow> length (rm_prefix c) \<le> length (rm_prefix b)" "betterMatch b c = b"
proof (cases "commandDecisionSeverity (rm_decision c) > commandDecisionSeverity (rm_decision b)")
  case True
  then show thesis by (intro stricter) (simp_all add: betterMatch_def)
next
  case False
  show thesis
  proof (cases "rm_decision c = rm_decision b \<and> length (rm_prefix c) > length (rm_prefix b)")
    case True
    then show thesis by (intro longer) (simp_all add: betterMatch_def)
  next
    case longer: False
    with False have "betterMatch b c = b" by (auto simp: betterMatch_def)
    with False longer show thesis by (intro keep) auto
  qed
qed

lemma foldl_betterMatch:
  "foldl betterMatch m ms \<in> set (m # ms) \<and>
   (\<forall>x \<in> set (m # ms). commandDecisionSeverity (rm_decision x) \<le> commandDecisionSeverity (rm_decision (foldl betterMatch m ms))) \<and>
   (\<forall>x \<in> set (m # ms). rm_decision x = rm_decision (foldl betterMatch m ms) \<longrightarrow>
      length (rm_prefix x) \<le> length (rm_prefix (foldl betterMatch m ms)))"
proof (induction ms rule: rev_induct)
  case (snoc c ms)
  let ?b = "foldl betterMatch m ms"
  have eq: "foldl betterMatch m (ms @ [c]) = betterMatch ?b c" by simp
  have mem: "?b \<in> set (m # ms)"
    and sev: "commandDecisionSeverity (rm_decision x) \<le> commandDecisionSeverity (rm_decision ?b)" if "x \<in> set (m # ms)" for x
    using snoc that by blast+
  consider (stricter) "commandDecisionSeverity (rm_decision c) > commandDecisionSeverity (rm_decision ?b)" "betterMatch ?b c = c"
    | (longer) "rm_decision c = rm_decision ?b" "length (rm_prefix c) > length (rm_prefix ?b)" "betterMatch ?b c = c"
    | (keep) "commandDecisionSeverity (rm_decision c) \<le> commandDecisionSeverity (rm_decision ?b)"
        "rm_decision c = rm_decision ?b \<longrightarrow> length (rm_prefix c) \<le> length (rm_prefix ?b)" "betterMatch ?b c = ?b"
    by (rule betterMatch_cases)
  then show ?case
  proof cases
    case stricter
    have "commandDecisionSeverity (rm_decision x) < commandDecisionSeverity (rm_decision c)" if "x \<in> set (m # ms)" for x
      using sev [OF that] stricter(1) by (rule le_less_trans)
    then have less: "commandDecisionSeverity (rm_decision x) \<le> commandDecisionSeverity (rm_decision c)" "rm_decision x \<noteq> rm_decision c"
      if "x \<in> set (m # ms)" for x using that by (fastforce intro: less_imp_le)+
    then show ?thesis unfolding eq stricter(2) by auto
  next
    case longer
    have "commandDecisionSeverity (rm_decision x) \<le> commandDecisionSeverity (rm_decision c)" if "x \<in> set (m # ms)" for x
      using sev [OF that] longer(1) by simp
    moreover have "length (rm_prefix x) \<le> length (rm_prefix c)" if "x \<in> set (m # ms)" "rm_decision x = rm_decision c" for x
    proof -
      have "rm_decision x = rm_decision ?b" using that(2) longer(1) by simp
      with snoc that(1) have "length (rm_prefix x) \<le> length (rm_prefix ?b)" by blast
      with longer(2) show ?thesis by simp
    qed
    ultimately show ?thesis unfolding eq longer(3) by auto
  next
    case keep
    with snoc show ?thesis unfolding eq by auto
  qed
qed simp

section \<open>The rules that apply\<close>

text \<open>
  The reference: the rules whose pattern is a prefix of the command as given, or, when there are
  none, of the command with its absolute program replaced by its base name, if that is allowed.
\<close>

definition effectiveArgv :: "command_policy \<Rightarrow> string list \<Rightarrow> string list" where
  "effectiveArgv p argv =
     (if list_ex (\<lambda>r. prefixMatches r argv) (cp_rules p) \<or> \<not> cp_resolve p \<or> \<not> isAbs (hd argv) then argv
      else filepathBase (hd argv) # tl argv)"

definition applicableRules :: "command_policy \<Rightarrow> string list \<Rightarrow> command_rule list" where
  "applicableRules p argv =
     (if effectiveArgv p argv \<noteq> argv \<and> \<not> hostExecutableAllowed p (filepathBase (hd argv)) (hd argv) then []
      else filter (\<lambda>r. prefixMatches r (effectiveArgv p argv)) (cp_rules p))"

definition strictest :: "decision_code \<Rightarrow> decision_code list \<Rightarrow> decision_code" where
  "strictest d ds = (if DecisionDeny \<in> set ds then DecisionDeny else if DecisionRequiresApproval \<in> set ds then DecisionRequiresApproval
     else if ds \<noteq> [] then DecisionAllow else d)"

lemma ruleMatch_Some:
  "ruleMatch r argv x = Some m \<Longrightarrow> prefixMatches r argv \<and> rm_id m = cu_id r \<and> rm_decision m = cu_decision r \<and>
     rm_prefix m = take (length (elems (cu_tokens r))) argv \<and> length (rm_prefix m) = length (elems (cu_tokens r))"
  by (auto simp: ruleMatch_def prefixMatches_def split: if_splits)

lemma ruleMatch_None: "ruleMatch r argv x = None \<longleftrightarrow> \<not> prefixMatches r argv"
  by (simp add: ruleMatch_def)

lemma map_filter_ruleMatch:
  "List.map_filter (\<lambda>r. ruleMatch r argv x) rs = map (\<lambda>r. the (ruleMatch r argv x)) (filter (\<lambda>r. prefixMatches r argv) rs)"
proof (induction rs)
  case (Cons r rs)
  show ?case
  proof (cases "prefixMatches r argv")
    case True
    then obtain m where "ruleMatch r argv x = Some m" by (simp add: ruleMatch_def)
    with Cons True show ?thesis by (simp add: List.map_filter_simps)
  next
    case False
    then have "ruleMatch r argv x = None" by (simp add: ruleMatch_None)
    with Cons False show ?thesis by (simp add: List.map_filter_simps)
  qed
qed (simp add: List.map_filter_simps)

lemma map_filter_ruleMatch_Nil: "List.map_filter (\<lambda>r. ruleMatch r argv x) rs = [] \<longleftrightarrow> \<not> list_ex (\<lambda>r. prefixMatches r argv) rs"
  unfolding map_filter_ruleMatch by (auto simp: filter_empty_conv list_ex_iff)

text \<open>The matches are those of the applicable rules, on the effective arguments.\<close>

lemma matchesForArgv_rules:
  assumes "argv \<noteq> []"
  obtains x where "matchesForArgv p argv = map (\<lambda>r. the (ruleMatch r (effectiveArgv p argv) x)) (applicableRules p argv)"
proof (cases "list_ex (\<lambda>r. prefixMatches r argv) (cp_rules p) \<or> \<not> cp_resolve p \<or> \<not> isAbs (hd argv)")
  case True
  then have eff: "effectiveArgv p argv = argv" by (simp only: effectiveArgv_def if_True)
  have "matchesForArgv p argv = List.map_filter (\<lambda>r. ruleMatch r argv []) (cp_rules p)"
    unfolding matchesForArgv_def Let_def map_filter_ruleMatch_Nil not_not by (rule if_P [OF True])
  then show thesis
    using that [of "[]"] eff by (simp add: applicableRules_def map_filter_ruleMatch)
next
  case False
  then have eff: "effectiveArgv p argv = filepathBase (hd argv) # tl argv" by (simp only: effectiveArgv_def if_False)
  have none: "filter (\<lambda>r. prefixMatches r argv) (cp_rules p) = []" using False by (auto simp: filter_empty_conv list_ex_iff)
  have run: "matchesForArgv p argv =
     (if \<not> hostExecutableAllowed p (filepathBase (hd argv)) (hd argv) then []
      else List.map_filter (\<lambda>r. ruleMatch r (filepathBase (hd argv) # tl argv) (hd argv)) (cp_rules p))"
    unfolding matchesForArgv_def Let_def map_filter_ruleMatch_Nil not_not by (rule if_not_P [OF False])
  show thesis
  proof (cases "effectiveArgv p argv = argv")
    case True
    then have "List.map_filter (\<lambda>r. ruleMatch r (filepathBase (hd argv) # tl argv) (hd argv)) (cp_rules p) = []"
      using eff none by (simp add: map_filter_ruleMatch)
    with run True none have "matchesForArgv p argv = []" "applicableRules p argv = []" by (simp_all add: applicableRules_def)
    then show thesis using that by simp
  next
    case False
    with run eff show thesis
      using that [of "hd argv"] by (simp add: applicableRules_def map_filter_ruleMatch)
  qed
qed

lemma applicable_prefix: "r \<in> set (applicableRules p argv) \<Longrightarrow> r \<in> set (cp_rules p) \<and> prefixMatches r (effectiveArgv p argv)"
  by (auto simp: applicableRules_def split: if_splits)

lemma decideCommand_matched:
  assumes "cq_argv q \<noteq> []" "matchesForArgv p (cq_argv q) = m # ms"
  shows "cd_matches (decideCommand p q) = m # ms" "td_code (cd_decision (decideCommand p q)) = rm_decision (foldl betterMatch m ms)"
    "cd_rule (decideCommand p q) = rm_id (foldl betterMatch m ms)" "cd_prefix (decideCommand p q) = rm_prefix (foldl betterMatch m ms)"
  using assms by (simp_all add: decideCommand_def Let_def)

lemma decideCommand_unmatched:
  assumes "cq_argv q = [] \<or> matchesForArgv p (cq_argv q) = []"
  shows "cd_matches (decideCommand p q) = []" "td_code (cd_decision (decideCommand p q)) = cp_default p" "cd_rule (decideCommand p q) = []"
  using assms by (auto simp: decideCommand_def Let_def)

lemma strictest_eq:
  assumes "\<And>x. x \<in> set ds \<Longrightarrow> knownDecision x" "d \<in> set ds"
    "\<And>x. x \<in> set ds \<Longrightarrow> commandDecisionSeverity x \<le> commandDecisionSeverity d"
  shows "strictest e ds = d"
proof -
  have known: "knownDecision d" using assms(1,2) by blast
  consider "d = DecisionDeny" | "d = DecisionRequiresApproval" | "d = DecisionAllow" using known by (auto simp: knownDecision_def)
  then show ?thesis
  proof cases
    case 1
    with assms(2) show ?thesis by (simp add: strictest_def)
  next
    case 2
    with assms(3) [of DecisionDeny] have "DecisionDeny \<notin> set ds" by (auto simp: commandDecisionSeverity_def)
    with 2 assms(2) show ?thesis by (simp add: strictest_def)
  next
    case 3
    with assms(3) [of DecisionDeny] assms(3) [of DecisionRequiresApproval]
    have "DecisionDeny \<notin> set ds" "DecisionRequiresApproval \<notin> set ds" by (auto simp: commandDecisionSeverity_def)
    with 3 assms(2) show ?thesis by (auto simp: strictest_def)
  qed
qed

lemma strictest_ge: "d \<in> set ds \<Longrightarrow> knownDecision d \<Longrightarrow> commandDecisionSeverity d \<le> commandDecisionSeverity (strictest e ds)"
  by (auto simp: strictest_def knownDecision_def commandDecisionSeverity_def)

lemma decideCommand_rules:
  assumes argv: "cq_argv q \<noteq> []" and known: "\<And>r. r \<in> set (cp_rules p) \<Longrightarrow> knownDecision (cu_decision r)"
  shows "td_code (cd_decision (decideCommand p q)) = strictest (cp_default p) (map cu_decision (applicableRules p (cq_argv q)))"
    and "map rm_id (cd_matches (decideCommand p q)) = map cu_id (applicableRules p (cq_argv q))"
    and "applicableRules p (cq_argv q) \<noteq> [] \<Longrightarrow> \<exists>r \<in> set (applicableRules p (cq_argv q)).
      cd_rule (decideCommand p q) = cu_id r \<and> td_code (cd_decision (decideCommand p q)) = cu_decision r \<and>
      cd_prefix (decideCommand p q) = take (length (elems (cu_tokens r))) (effectiveArgv p (cq_argv q)) \<and>
      (\<forall>s \<in> set (applicableRules p (cq_argv q)). cu_decision s = cu_decision r \<longrightarrow> length (elems (cu_tokens s)) \<le> length (elems (cu_tokens r)))"
proof -
  let ?rs = "applicableRules p (cq_argv q)" and ?argv = "effectiveArgv p (cq_argv q)"
  obtain x where x: "matchesForArgv p (cq_argv q) = map (\<lambda>r. the (ruleMatch r ?argv x)) ?rs"
    using matchesForArgv_rules [OF argv] by blast
  have match: "\<exists>m. ruleMatch r ?argv x = Some m" if "r \<in> set ?rs" for r
    using applicable_prefix [OF that] by (simp add: ruleMatch_def)
  then have facts: "rm_id (the (ruleMatch r ?argv x)) = cu_id r" "rm_decision (the (ruleMatch r ?argv x)) = cu_decision r"
    "rm_prefix (the (ruleMatch r ?argv x)) = take (length (elems (cu_tokens r))) ?argv"
    "length (rm_prefix (the (ruleMatch r ?argv x))) = length (elems (cu_tokens r))" if "r \<in> set ?rs" for r
    using match [OF that] ruleMatch_Some [of r ?argv x] by (metis option.sel)+
  have "td_code (cd_decision (decideCommand p q)) = strictest (cp_default p) (map cu_decision ?rs) \<and>
    map rm_id (cd_matches (decideCommand p q)) = map cu_id ?rs \<and>
    (?rs \<noteq> [] \<longrightarrow> (\<exists>r \<in> set ?rs. cd_rule (decideCommand p q) = cu_id r \<and> td_code (cd_decision (decideCommand p q)) = cu_decision r \<and>
       cd_prefix (decideCommand p q) = take (length (elems (cu_tokens r))) ?argv \<and>
       (\<forall>s \<in> set ?rs. cu_decision s = cu_decision r \<longrightarrow> length (elems (cu_tokens s)) \<le> length (elems (cu_tokens r)))))"
  proof (cases "matchesForArgv p (cq_argv q)")
    case Nil
    with x have "?rs = []" by simp
    with Nil show ?thesis by (simp add: decideCommand_unmatched strictest_def)
  next
    case (Cons m ms)
    let ?b = "foldl betterMatch m ms"
    have all: "m # ms = map (\<lambda>r. the (ruleMatch r ?argv x)) ?rs" using x Cons by simp
    have best: "?b \<in> set (m # ms)"
      "\<forall>y \<in> set (m # ms). commandDecisionSeverity (rm_decision y) \<le> commandDecisionSeverity (rm_decision ?b)"
      "\<forall>y \<in> set (m # ms). rm_decision y = rm_decision ?b \<longrightarrow> length (rm_prefix y) \<le> length (rm_prefix ?b)"
      using foldl_betterMatch [of m ms] by blast+
    obtain r where r: "r \<in> set ?rs" "?b = the (ruleMatch r ?argv x)" using best(1) unfolding all by auto
    have sev: "commandDecisionSeverity (cu_decision s) \<le> commandDecisionSeverity (cu_decision r)" if "s \<in> set ?rs" for s
      using best(2) that facts(2) r unfolding all by simp
    have len: "length (elems (cu_tokens s)) \<le> length (elems (cu_tokens r))" if "s \<in> set ?rs" "cu_decision s = cu_decision r" for s
      using best(3) that facts(2,4) r unfolding all by simp
    note dec = decideCommand_matched [OF argv Cons]
    have "strictest (cp_default p) (map cu_decision ?rs) = cu_decision r"
      using known applicable_prefix r(1) sev by (intro strictest_eq) auto
    then have "td_code (cd_decision (decideCommand p q)) = strictest (cp_default p) (map cu_decision ?rs)"
      using dec(2) r facts(2) by simp
    moreover have "map rm_id (cd_matches (decideCommand p q)) = map cu_id ?rs"
      unfolding dec(1) all using facts(1) by simp
    moreover have "cd_rule (decideCommand p q) = cu_id r" "td_code (cd_decision (decideCommand p q)) = cu_decision r"
      "cd_prefix (decideCommand p q) = take (length (elems (cu_tokens r))) ?argv"
      using dec(2,3,4) r facts by simp_all
    ultimately show ?thesis using r(1) len by blast
  qed
  then show "td_code (cd_decision (decideCommand p q)) = strictest (cp_default p) (map cu_decision ?rs)"
    "map rm_id (cd_matches (decideCommand p q)) = map cu_id ?rs"
    "?rs \<noteq> [] \<Longrightarrow> \<exists>r \<in> set ?rs. cd_rule (decideCommand p q) = cu_id r \<and> td_code (cd_decision (decideCommand p q)) = cu_decision r \<and>
       cd_prefix (decideCommand p q) = take (length (elems (cu_tokens r))) ?argv \<and>
       (\<forall>s \<in> set ?rs. cu_decision s = cu_decision r \<longrightarrow> length (elems (cu_tokens s)) \<le> length (elems (cu_tokens r)))"
    by blast+
qed

section \<open>Properties\<close>

definition sampleRule :: "string \<Rightarrow> decision_code \<Rightarrow> string list \<Rightarrow> command_rule" where
  "sampleRule i d ts = \<lparr>cu_id = i, cu_decision = d, cu_reason = [], cu_audit = [],
     cu_tokens = Some (map (\<lambda>t. \<lparr>tk_literal = t, tk_alternatives = None\<rparr>) ts), cu_host = [], cu_read_only = False,
     cu_match = Some [Some ts], cu_not_match = None, cu_env_allow = None\<rparr>"

definition sampleConfig :: command_config where
  "sampleConfig = \<lparr>cg_rules = [sampleRule ''any'' DecisionUnset [''go''], sampleRule ''ask'' DecisionRequiresApproval [''go'', ''test''],
     sampleRule ''all'' DecisionDeny [''go'', ''test'', ''./...'']], cg_hosts = [], cg_resolve = True, cg_default = DecisionUnset\<rparr>"

definition samplePolicy :: command_policy where
  "samplePolicy = \<lparr>cp_rules = map withDecision (cg_rules sampleConfig), cp_hosts = [], cp_resolve = True, cp_default = DecisionRequiresApproval\<rparr>"

definition sampleCommand :: "string list \<Rightarrow> command_request" where
  "sampleCommand argv = \<lparr>cq_argv = argv, cq_root = ''/w'', cq_cwd = [], cq_env = [''A=1'', ''B'']\<rparr>"

lemma sample_compiles: "newCommandPolicy sampleConfig = Inr samplePolicy"
  by code_simp

text \<open>
  C30: the decision of a compiled policy is that of the strictest rule that applies: denied if any
  applicable rule denies, otherwise to be approved if any asks for it, allowed if all allow, and the
  default if no rule applies. The rules that apply are those whose pattern is a prefix of the command
  as given, or, when there are none and the program is an absolute path the host list admits, of
  the command with the program's base name. The reported rule is one of the deciding ones with the
  longest pattern, and the audit lists all that applied.
\<close>

theorem strictest_rule_decides:
  assumes "newCommandPolicy c = Inr p" "cq_argv q \<noteq> []"
  shows "td_code (cd_decision (decideCommand p q)) = strictest (cp_default p) (map cu_decision (applicableRules p (cq_argv q))) \<and>
    map rm_id (cd_matches (decideCommand p q)) = map cu_id (applicableRules p (cq_argv q)) \<and>
    (applicableRules p (cq_argv q) \<noteq> [] \<longrightarrow> (\<exists>r \<in> set (applicableRules p (cq_argv q)).
      cd_rule (decideCommand p q) = cu_id r \<and> td_code (cd_decision (decideCommand p q)) = cu_decision r \<and>
      cd_prefix (decideCommand p q) = take (length (elems (cu_tokens r))) (effectiveArgv p (cq_argv q)) \<and>
      (\<forall>s \<in> set (applicableRules p (cq_argv q)). cu_decision s = cu_decision r \<longrightarrow> length (elems (cu_tokens s)) \<le> length (elems (cu_tokens r)))))"
proof -
  have "knownDecision (cu_decision r)" if "r \<in> set (cp_rules p)" for r
    using assms(1) that unfolding newCommandPolicy_iff by (auto simp: list_all_iff ruleFits_def)
  from decideCommand_rules [OF assms(2) this] show ?thesis by blast
qed

theorem strictest_rule_decides_witness:
  "td_code (cd_decision (decideCommand samplePolicy (sampleCommand [''go'', ''test'', ''./...'']))) = DecisionDeny"
proof -
  have "cq_argv (sampleCommand [''go'', ''test'', ''./...'']) \<noteq> []" by (simp add: sampleCommand_def)
  moreover have "strictest (cp_default samplePolicy) (map cu_decision (applicableRules samplePolicy (cq_argv (sampleCommand [''go'', ''test'', ''./...''])))) = DecisionDeny"
    by code_simp
  ultimately show ?thesis using strictest_rule_decides [OF sample_compiles] by simp
qed

lemma collectKeys_set:
  "distinct (collectKeys allowed seen es) \<and> set (collectKeys allowed seen es) \<subseteq> cutKey ` set es - set seen"
  by (induction allowed seen es rule: collectKeys.induct) (auto simp: Let_def)

text \<open>
  C31: every decision is well-formed: whatever the command, the code is one of allow, requires
  approval and deny, and the keys of the environment that are reported are sorted, without
  repetition, and taken from the environment of the request.
\<close>

theorem decisions_are_well_formed:
  assumes "newCommandPolicy c = Inr p"
  shows "knownDecision (td_code (cd_decision (decideCommand p q))) \<and> sorted (cd_env_keys (decideCommand p q)) \<and>
    distinct (cd_env_keys (decideCommand p q)) \<and> set (cd_env_keys (decideCommand p q)) \<subseteq> cutKey ` set (cq_env q)"
proof -
  have known: "knownDecision (cu_decision r)" if "r \<in> set (cp_rules p)" for r
    using assms that unfolding newCommandPolicy_iff by (auto simp: list_all_iff ruleFits_def)
  have default: "knownDecision (cp_default p)" using assms unfolding newCommandPolicy_iff by simp
  have "knownDecision (td_code (cd_decision (decideCommand p q)))"
  proof (cases "cq_argv q = []")
    case True
    with default show ?thesis by (simp add: decideCommand_unmatched)
  next
    case False
    from decideCommand_rules(1) [OF this known] default show ?thesis by (auto simp: strictest_def knownDecision_def)
  qed
  moreover have "\<exists>allow. cd_env_keys (decideCommand p q) = envKeys (cq_env q) allow"
    by (auto simp: decideCommand_def Let_def split: list.split)
  ultimately show ?thesis
    using collectKeys_set by (fastforce simp: envKeys_def)
qed

theorem decisions_are_well_formed_witness:
  "knownDecision (td_code (cd_decision (decideCommand samplePolicy (sampleCommand [])))) \<and>
   cd_env_keys (decideCommand samplePolicy (sampleCommand [])) = [''A'', ''B'']"
proof -
  have "cd_env_keys (decideCommand samplePolicy (sampleCommand [])) = [''A'', ''B'']" by code_simp
  with decisions_are_well_formed [OF sample_compiles, of "sampleCommand []"] show ?thesis by blast
qed

text \<open>
  The fixtures of a compiled policy hold: a match example of a rule is decided by that rule or a
  stricter one, and none of its not-match examples has its pattern as a prefix.
\<close>

theorem fixtures_hold:
  assumes "newCommandPolicy c = Inr p" "r \<in> set (cp_rules p)"
  shows "(\<forall>ex \<in> set (elems (cu_match r)). cq_argv q = elems ex \<longrightarrow>
      cu_id r \<in> set (map rm_id (cd_matches (decideCommand p q))) \<and>
      commandDecisionSeverity (cu_decision r) \<le> commandDecisionSeverity (td_code (cd_decision (decideCommand p q)))) \<and>
    (\<forall>ex \<in> set (elems (cu_not_match r)). \<not> prefixMatches r (elems ex))"
proof -
  have rules: "cp_rules p = map withDecision (cg_rules c)" and all: "list_all fixturesHold (cp_rules p)" "list_all ruleFits (cg_rules c)"
    using assms(1) unfolding newCommandPolicy_iff by (simp_all add: list_all_iff)
  then have hold: "fixturesHold r" using assms(2) by (auto simp: list_all_iff)
  have tokens: "elems (cu_tokens r) \<noteq> []" using assms(2) all(2) unfolding rules by (auto simp: list_all_iff ruleFits_def)
  have known: "\<And>r. r \<in> set (cp_rules p) \<Longrightarrow> knownDecision (cu_decision r)"
    using all(2) unfolding rules by (auto simp: list_all_iff ruleFits_def)
  have "cu_id r \<in> set (map rm_id (cd_matches (decideCommand p q))) \<and>
      commandDecisionSeverity (cu_decision r) \<le> commandDecisionSeverity (td_code (cd_decision (decideCommand p q)))"
    if ex: "ex \<in> set (elems (cu_match r))" "cq_argv q = elems ex" for ex
  proof -
    have pre: "prefixMatches r (cq_argv q)" using hold ex by (simp add: fixturesHold_def list_all_iff)
    then have ne: "cq_argv q \<noteq> []" using tokens by (auto simp: prefixMatches_def)
    have "list_ex (\<lambda>r. prefixMatches r (cq_argv q)) (cp_rules p)" using assms(2) pre by (auto simp: list_ex_iff)
    then have "effectiveArgv p (cq_argv q) = cq_argv q" by (simp add: effectiveArgv_def)
    then have app: "r \<in> set (applicableRules p (cq_argv q))" using assms(2) pre by (simp add: applicableRules_def)
    note dec = decideCommand_rules [OF ne known]
    from dec(2) app have "cu_id r \<in> set (map rm_id (cd_matches (decideCommand p q)))" by simp
    moreover have "knownDecision (cu_decision r)" using known assms(2) by blast
    then have "commandDecisionSeverity (cu_decision r) \<le>
        commandDecisionSeverity (strictest (cp_default p) (map cu_decision (applicableRules p (cq_argv q))))"
      using app by (intro strictest_ge) simp_all
    ultimately show ?thesis using dec(1) by simp
  qed
  with hold show ?thesis by (auto simp: fixturesHold_def list_all_iff)
qed

text \<open>
  An observation on the fallback: the not-match examples are checked on the command as given only,
  so a policy can be accepted although the fallback matches one of them.
\<close>

definition looseRule :: command_rule where
  "looseRule = (sampleRule ''git'' DecisionAllow [''git''])\<lparr>cu_not_match := Some [Some [''/opt/bad/git'', ''push'']]\<rparr>"

theorem not_match_example_is_allowed:
  "case newCommandPolicy \<lparr>cg_rules = [looseRule], cg_hosts = [], cg_resolve = True, cg_default = DecisionDeny\<rparr> of
     Inl _ \<Rightarrow> False
   | Inr p \<Rightarrow> [''/opt/bad/git'', ''push''] \<in> set (map elems (elems (cu_not_match looseRule))) \<and>
       td_code (cd_decision (decideCommand p (sampleCommand [''/opt/bad/git'', ''push'']))) = DecisionAllow"
  by code_simp

end
