(* ===== verification/RequirementsProofs.thy ===== *)
theory RequirementsProofs
  imports Requirements CommandPolicyProofs "HOL-Library.Multiset"
begin

text \<open>
  Composition of layers succeeds exactly when every layer is valid and no two define the same
  setting differently; the requirements then hold every definition once, whatever the order of
  the layers.
\<close>

section \<open>Agreement\<close>

definition agree :: "('a \<Rightarrow> string) \<Rightarrow> ('a \<Rightarrow> 'a \<Rightarrow> bool) \<Rightarrow> 'a list \<Rightarrow> bool" where
  "agree key same vs \<longleftrightarrow> (\<forall>v \<in> set vs. \<forall>w \<in> set vs. key v = key w \<longrightarrow> same v w)"

definition entriesFit :: "('a \<Rightarrow> (string, unit) result) \<Rightarrow> ('a \<Rightarrow> string) \<Rightarrow> ('a \<Rightarrow> 'a \<Rightarrow> bool) \<Rightarrow> 'a list \<Rightarrow> bool" where
  "entriesFit check key same vs \<longleftrightarrow> (\<forall>v \<in> set vs. check v = Inr ()) \<and> agree key same vs"

text \<open>A table that merges the entries: one per key, equivalent to all entries of that key.\<close>

definition merges :: "('a \<Rightarrow> string) \<Rightarrow> ('a \<Rightarrow> 'a \<Rightarrow> bool) \<Rightarrow> 'a list \<Rightarrow> 'a table \<Rightarrow> bool" where
  "merges key same vs m \<longleftrightarrow>
     (\<forall>v \<in> set vs. \<exists>x. map_of m (key v) = Some x \<and> same (sd_value x) v) \<and>
     (\<forall>k x. map_of m k = Some x \<longrightarrow> sd_value x \<in> set vs \<and> key (sd_value x) = k)"

definition enumerates :: "('a \<Rightarrow> string) \<Rightarrow> 'a table \<Rightarrow> 'a sourced list \<Rightarrow> bool" where
  "enumerates key m xs \<longleftrightarrow> distinct (map (\<lambda>x. key (sd_value x)) xs) \<and> (\<forall>x. x \<in> set xs \<longleftrightarrow> (\<exists>k. map_of m k = Some x))"

lemma merges_Nil [simp]: "merges key same [] []" and enumerates_Nil [simp]: "enumerates key [] []"
  by (simp_all add: merges_def enumerates_def)

lemma withSource_simps [simp]: "sd_value (withSource v s) = v" "sd_source (withSource v s) = s"
  by (simp_all add: withSource_def)

lemma entriesFit_subset: "entriesFit check key same vs \<Longrightarrow> set ws \<subseteq> set vs \<Longrightarrow> entriesFit check key same ws"
  by (auto simp: entriesFit_def agree_def)

lemma entriesFit_cong: "set vs = set ws \<Longrightarrow> entriesFit check key same vs = entriesFit check key same ws"
  by (simp add: entriesFit_def agree_def)

lemma merges_agree: "equivp same \<Longrightarrow> merges key same vs m \<Longrightarrow> agree key same vs"
  unfolding agree_def merges_def by (metis equivp_symp equivp_transp option.inject)

lemma merges_more:
  assumes "equivp same" "merges key same vs m" "map_of m (key v) = Some x" "same (sd_value x) v"
  shows "merges key same (vs @ [v]) m"
  using assms unfolding merges_def by auto

lemma merges_new:
  assumes "equivp same" "merges key same vs m" "map_of m (key v) = None"
  shows "merges key same (vs @ [v]) (AList.update (key v) (withSource v src) m)"
proof -
  have "same v v" using assms(1) by (rule equivp_reflp)
  moreover have "key w \<noteq> key v" if "w \<in> set vs" for w using assms(2,3) that unfolding merges_def by force
  ultimately show ?thesis using assms(2) unfolding merges_def by auto
qed

lemma enumerates_new:
  assumes "merges key same vs m" "map_of m (key v) = None" "enumerates key m xs"
  shows "enumerates key (AList.update (key v) (withSource v src) m) (xs @ [withSource v src])"
    "enumerates key (AList.update (key v) (withSource v src) m) (withSource v src # xs)"
proof -
  let ?y = "withSource v src"
  have fresh: "key (sd_value x) \<noteq> key v" if "x \<in> set xs" for x
  proof -
    from that assms(3) obtain k where k: "map_of m k = Some x" unfolding enumerates_def by blast
    with assms(1) have "key (sd_value x) = k" unfolding merges_def by blast
    with k assms(2) show ?thesis by auto
  qed
  have "x = ?y \<or> x \<in> set xs \<longleftrightarrow> (\<exists>k. ((map_of m)(key v \<mapsto> ?y)) k = Some x)" for x
  proof
    assume "x = ?y \<or> x \<in> set xs"
    then show "\<exists>k. ((map_of m)(key v \<mapsto> ?y)) k = Some x"
    proof
      assume "x = ?y"
      then show ?thesis by (intro exI [of _ "key v"]) simp
    next
      assume "x \<in> set xs"
      then obtain k where k: "map_of m k = Some x" using assms(3) unfolding enumerates_def by blast
      then have "k \<noteq> key v" using assms(2) by auto
      with k show ?thesis by (intro exI [of _ k]) simp
    qed
  next
    assume "\<exists>k. ((map_of m)(key v \<mapsto> ?y)) k = Some x"
    then obtain k where "((map_of m)(key v \<mapsto> ?y)) k = Some x" by blast
    then have "x = ?y \<or> map_of m k = Some x" by (auto split: if_splits)
    with assms(3) show "x = ?y \<or> x \<in> set xs" unfolding enumerates_def by blast
  qed
  moreover have "distinct (map (\<lambda>x. key (sd_value x)) xs)" using assms(3) by (simp add: enumerates_def)
  ultimately show "enumerates key (AList.update (key v) ?y m) (xs @ [?y])" "enumerates key (AList.update (key v) ?y m) (?y # xs)"
    using fresh unfolding enumerates_def by (simp_all add: image_iff) metis+
qed

lemma mergeEntries_step:
  assumes eqv: "equivp same"
  shows "merges key same ws m \<Longrightarrow> (\<And>w. w \<in> set ws \<Longrightarrow> check w = Inr ()) \<Longrightarrow>
    (case mergeEntries check key same field msg src vs m of
       Inl _ \<Rightarrow> \<not> entriesFit check key same (ws @ vs)
     | Inr (m', new) \<Rightarrow> entriesFit check key same (ws @ vs) \<and> merges key same (ws @ vs) m' \<and>
         (\<forall>xs. enumerates key m xs \<longrightarrow> enumerates key m' (xs @ new) \<and> enumerates key m' (new @ xs)))"
proof (induction vs arbitrary: ws m)
  case Nil
  with merges_agree [OF eqv Nil.prems(1)] show ?case by (auto simp: entriesFit_def)
next
  case (Cons v vs)
  show ?case
  proof (cases "check v")
    case (Inl e)
    then show ?thesis by (auto simp: entriesFit_def)
  next
    case (Inr u)
    then have checked: "check w = Inr ()" if "w \<in> set (ws @ [v])" for w using that Cons.prems(2) by auto
    show ?thesis
    proof (cases "map_of m (key v)")
      case None
      let ?m = "AList.update (key v) (withSource v src) m"
      note enumerates' = enumerates_new [OF Cons.prems(1) None, where src = src]
      note ih = Cons.IH [OF merges_new [OF eqv Cons.prems(1) None, where src = src] checked]
      show ?thesis
      proof (cases "mergeEntries check key same field msg src vs ?m")
        case (Inl e)
        with ih show ?thesis using Inr None by simp
      next
        case (Inr r)
        obtain m' new where r: "r = (m', new)" by fastforce
        have "enumerates key m' (xs @ withSource v src # new) \<and> enumerates key m' (withSource v src # new @ xs)" if l: "enumerates key m xs" for xs
        proof -
          from ih Inr r enumerates' [OF l] have "enumerates key m' ((xs @ [withSource v src]) @ new)" "enumerates key m' (new @ (withSource v src # xs))"
            by (simp_all del: append_assoc)
          then show ?thesis by (auto simp: enumerates_def)
        qed
        with ih Inr r None \<open>check v = Inr u\<close> show ?thesis by simp
      qed
    next
      case (Some x)
      show ?thesis
      proof (cases "same (sd_value x) v")
        case False
        have "sd_value x \<in> set ws" "key (sd_value x) = key v" using Cons.prems(1) Some by (auto simp: merges_def)
        with False have "\<not> agree key same (ws @ v # vs)" by (auto simp: agree_def)
        with Inr Some False show ?thesis by (simp add: entriesFit_def)
      next
        case True
        from Cons.IH [OF merges_more [OF eqv Cons.prems(1) Some True] checked] Inr Some True show ?thesis
          by (cases "mergeEntries check key same field msg src vs m") simp_all
      qed
    qed
  qed
qed

section \<open>What the layers set\<close>

definition layerApprovals :: "layer \<Rightarrow> approval_mode list" where
  "layerApprovals l = (case ly_approval l of None \<Rightarrow> [] | Some m \<Rightarrow> if m = ApprovalUnspecified then [] else [m])"

definition layerDefaults :: "layer \<Rightarrow> decision_code list" where
  "layerDefaults l = (case ly_policy l of None \<Rightarrow> [] | Some p \<Rightarrow> if pq_default p = DecisionUnset then [] else [pq_default p])"

definition layerResolves :: "layer \<Rightarrow> bool list" where
  "layerResolves l = (case ly_policy l of None \<Rightarrow> [] | Some p \<Rightarrow> (case pq_resolve p of None \<Rightarrow> [] | Some b \<Rightarrow> [b]))"

definition layerHosts :: "layer \<Rightarrow> host_executable list" where
  "layerHosts l = (case ly_policy l of None \<Rightarrow> [] | Some p \<Rightarrow> pq_hosts p)"

definition layerRules :: "layer \<Rightarrow> command_rule list" where
  "layerRules l = (case ly_policy l of None \<Rightarrow> [] | Some p \<Rightarrow> pq_rules p)"

definition layerHookConfigs :: "layer \<Rightarrow> hook_requirement list" where
  "layerHookConfigs l = (case ly_hooks l of None \<Rightarrow> []
     | Some r \<Rightarrow> if hookTimeoutValue (hc_timeout (hq_config r)) > 0 \<or> elems (hc_env_allow (hq_config r)) \<noteq> [] then [r] else [])"

definition layerHooks :: "layer \<Rightarrow> command_hook list" where
  "layerHooks l = (case ly_hooks l of None \<Rightarrow> [] | Some r \<Rightarrow> hq_hooks r)"

abbreviation across :: "(layer \<Rightarrow> 'a list) \<Rightarrow> layer list \<Rightarrow> 'a list" where
  "across f ls \<equiv> concat (map f ls)"

definition namedCheck :: "string \<Rightarrow> ('a \<Rightarrow> string) \<Rightarrow> ('a \<Rightarrow> (string, unit) result) \<Rightarrow> 'a \<Rightarrow> (string, unit) result" where
  "namedCheck field nameOf check v = (if trim_space (nameOf v) = [] then Inl (field @ '' name required'') else check v)"

definition sameConfig :: "hook_requirement \<Rightarrow> hook_requirement \<Rightarrow> bool" where
  "sameConfig a b = sameHookConfig (hq_config a) (hq_config b)"

text \<open>A setting is an entry with the only key there is.\<close>

definition settingFits :: "('a \<Rightarrow> (string, unit) result) \<Rightarrow> ('a \<Rightarrow> 'a \<Rightarrow> bool) \<Rightarrow> 'a list \<Rightarrow> bool" where
  "settingFits check same vs \<longleftrightarrow> entriesFit check (\<lambda>_. []) same vs"

definition settles :: "('a \<Rightarrow> 'a \<Rightarrow> bool) \<Rightarrow> 'a list \<Rightarrow> 'a sourced option \<Rightarrow> bool" where
  "settles same vs old \<longleftrightarrow> (case old of None \<Rightarrow> vs = [] | Some x \<Rightarrow> sd_value x \<in> set vs \<and> (\<forall>v \<in> set vs. same (sd_value x) v))"

text \<open>
  When layers fit together: sources are labelled, every definition is valid by itself, and equal
  keys have the same definition.
\<close>

definition layersAgree :: "layer list \<Rightarrow> bool" where
  "layersAgree ls \<longleftrightarrow> (\<forall>l \<in> set ls. validSource (ly_source l)) \<and>
     settingFits validateApprovalMode (=) (across layerApprovals ls) \<and>
     settingFits validatePolicyDecision (=) (across layerDefaults ls) \<and>
     settingFits (\<lambda>_. Inr ()) (=) (across layerResolves ls) \<and>
     entriesFit checkHost he_name (=) (across layerHosts ls) \<and>
     entriesFit checkRule cu_id (=) (across layerRules ls) \<and>
     settingFits (\<lambda>_. Inr ()) sameConfig (across layerHookConfigs ls) \<and>
     entriesFit checkHook hookKey equalHook (across layerHooks ls) \<and>
     entriesFit (namedCheck ''mcp_servers'' mc_name validateMCPServer) mc_name (=) (across ly_servers ls) \<and>
     entriesFit (namedCheck ''catalogs'' ct_name validateCatalogSource) ct_name (=) (across ly_catalogs ls) \<and>
     entriesFit (namedCheck ''models'' mo_role validateModelChoice) mo_role (=) (across ly_models ls) \<and>
     entriesFit (namedCheck ''file_stores'' fs_name validateFileStorePath) fs_name (=) (across ly_stores ls) \<and>
     entriesFit (namedCheck ''feature_gates'' fg_name validateFeatureGate) fg_name (=) (across ly_features ls)"

definition tableOk :: "('a \<Rightarrow> (string, unit) result) \<Rightarrow> ('a \<Rightarrow> string) \<Rightarrow> ('a \<Rightarrow> 'a \<Rightarrow> bool) \<Rightarrow> 'a list \<Rightarrow> 'a table \<Rightarrow> bool" where
  "tableOk check key same vs m \<longleftrightarrow> entriesFit check key same vs \<and> merges key same vs m"

definition settingOk :: "('a \<Rightarrow> (string, unit) result) \<Rightarrow> ('a \<Rightarrow> 'a \<Rightarrow> bool) \<Rightarrow> 'a list \<Rightarrow> 'a sourced option \<Rightarrow> bool" where
  "settingOk check same vs a \<longleftrightarrow> settingFits check same vs \<and> settles same vs a"

text \<open>The state after some settings and entries of each kind.\<close>

definition holds :: "approval_mode list \<Rightarrow> decision_code list \<Rightarrow> bool list \<Rightarrow> host_executable list \<Rightarrow> command_rule list \<Rightarrow>
    hook_requirement list \<Rightarrow> command_hook list \<Rightarrow> mcp_server list \<Rightarrow> catalog_source list \<Rightarrow> model_choice list \<Rightarrow>
    file_store_path list \<Rightarrow> feature_gate list \<Rightarrow> merge_state \<Rightarrow> bool" where
  "holds as ds bs hs us cs ks ms ts os fs gs s \<longleftrightarrow>
     settingOk validateApprovalMode (=) as (ms_approval s) \<and>
     settingOk validatePolicyDecision (=) ds (ms_default s) \<and>
     settingOk (\<lambda>_. Inr ()) (=) bs (ms_resolve s) \<and>
     (tableOk checkHost he_name (=) hs (ms_host_by_name s) \<and> enumerates he_name (ms_host_by_name s) (ms_hosts s)) \<and>
     (tableOk checkRule cu_id (=) us (ms_rule_by_id s) \<and> enumerates cu_id (ms_rule_by_id s) (ms_rules s)) \<and>
     settingOk (\<lambda>_. Inr ()) sameConfig cs (ms_hook_config s) \<and>
     (tableOk checkHook hookKey equalHook ks (ms_hook_by_key s) \<and> enumerates hookKey (ms_hook_by_key s) (ms_hooks s)) \<and>
     tableOk (namedCheck ''mcp_servers'' mc_name validateMCPServer) mc_name (=) ms (ms_servers s) \<and>
     tableOk (namedCheck ''catalogs'' ct_name validateCatalogSource) ct_name (=) ts (ms_catalogs s) \<and>
     tableOk (namedCheck ''models'' mo_role validateModelChoice) mo_role (=) os (ms_models s) \<and>
     tableOk (namedCheck ''file_stores'' fs_name validateFileStorePath) fs_name (=) fs (ms_stores s) \<and>
     tableOk (namedCheck ''feature_gates'' fg_name validateFeatureGate) fg_name (=) gs (ms_features s)"

definition composes :: "layer list \<Rightarrow> merge_state \<Rightarrow> bool" where
  "composes ls s \<longleftrightarrow> holds (across layerApprovals ls) (across layerDefaults ls) (across layerResolves ls) (across layerHosts ls)
     (across layerRules ls) (across layerHookConfigs ls) (across layerHooks ls) (across ly_servers ls) (across ly_catalogs ls)
     (across ly_models ls) (across ly_stores ls) (across ly_features ls) s"

lemma set_across_mset: "mset ls = mset ls' \<Longrightarrow> set (across f ls) = set (across f ls')"
  by (metis set_concat set_map set_mset_mset)

lemma across_subset: "set ls \<subseteq> set ls' \<Longrightarrow> set (across f ls) \<subseteq> set (across f ls')"
  by auto

lemma layersAgree_mset:
  assumes "mset ls = mset ls'"
  shows "layersAgree ls \<longleftrightarrow> layersAgree ls'"
proof -
  have fit: "entriesFit check key same (across f ls) = entriesFit check key same (across f ls')"
    for check :: "'a \<Rightarrow> (string, unit) result" and key same f
    using set_across_mset [OF assms] by (rule entriesFit_cong)
  have "set ls = set ls'" using assms by (rule mset_eq_setD)
  then show ?thesis unfolding layersAgree_def settingFits_def by (simp only: fit)
qed

lemma entriesFit_prefix: "entriesFit check key same (across f (ls @ ls')) \<Longrightarrow> entriesFit check key same (across f ls)"
  by (erule entriesFit_subset) auto

lemma layersAgree_prefix:
  assumes "layersAgree (ls @ ls')"
  shows "layersAgree ls"
proof -
  have "\<forall>l \<in> set ls. validSource (ly_source l)" using assms by (auto simp: layersAgree_def)
  with assms show ?thesis
    unfolding layersAgree_def settingFits_def by (elim conjE, intro conjI) (assumption | erule entriesFit_prefix)+
qed

section \<open>One layer\<close>

text \<open>A step that succeeds exactly under a condition, and what it establishes then.\<close>

definition succeeds :: "bool \<Rightarrow> ('s \<Rightarrow> bool) \<Rightarrow> ('e, 's) result \<Rightarrow> bool" where
  "succeeds P Q r \<longleftrightarrow> (case r of Inl _ \<Rightarrow> \<not> P | Inr s \<Rightarrow> P \<and> Q s)"

lemma succeeds_Inr [simp]: "succeeds P Q (Inr s) \<longleftrightarrow> P \<and> Q s"
  and succeeds_Inl [simp]: "succeeds P Q (Inl e) \<longleftrightarrow> \<not> P"
  by (simp_all add: succeeds_def)

lemma succeeds_and_then:
  "succeeds P Q r \<Longrightarrow> (\<And>s. Q s \<Longrightarrow> succeeds P' R (f s)) \<Longrightarrow> succeeds (P \<and> P') R (and_then r f)"
  by (cases r) (auto simp: succeeds_def split: sum.splits)

lemma succeeds_map: "succeeds P Q r \<Longrightarrow> (\<And>s. Q s \<Longrightarrow> R (f s)) \<Longrightarrow> succeeds P R (and_then r (\<lambda>s. Inr (f s)))"
  by (cases r) auto

lemma mergeScalar_step:
  assumes "equivp same" "settingOk check same ws old" "check v = Inr ()"
  shows "succeeds (settingFits check same (ws @ [v])) (settingOk check same (ws @ [v])) (mergeScalar same field msg src v old)"
proof (cases old)
  case None
  have "same v v" using assms(1) by (rule equivp_reflp)
  with None assms show ?thesis
    by (simp add: mergeScalar_def settingOk_def settles_def settingFits_def entriesFit_def agree_def)
next
  case (Some x)
  have ws: "sd_value x \<in> set ws" "\<forall>w \<in> set ws. same (sd_value x) w" "\<forall>w \<in> set ws. check w = Inr ()"
    "\<forall>w \<in> set ws. \<forall>w' \<in> set ws. same w w'"
    using assms(2) Some by (simp_all add: settingOk_def settles_def settingFits_def entriesFit_def agree_def)
  show ?thesis
  proof (cases "same (sd_value x) v")
    case True
    have "same v w" "same w v" if "w \<in> set (ws @ [v])" for w
    proof -
      have "same (sd_value x) w" using that ws(2) True by auto
      with True assms(1) show "same v w" "same w v" by (meson equivp_symp equivp_transp)+
    qed
    with ws(3,4) assms(3) have "settingFits check same (ws @ [v])"
      by (auto simp: settingFits_def entriesFit_def agree_def)
    with True Some \<open>\<And>w. w \<in> set (ws @ [v]) \<Longrightarrow> same v w\<close> show ?thesis
      by (simp add: mergeScalar_def settingOk_def settles_def)
  next
    case False
    with ws(1) have "\<not> settingFits check same (ws @ [v])" by (auto simp: settingFits_def entriesFit_def agree_def)
    with False Some show ?thesis by (simp add: mergeScalar_def)
  qed
qed

lemma mergeEntries_ok:
  assumes "equivp same" "tableOk check key same ws m"
  shows "succeeds (entriesFit check key same (ws @ vs))
    (\<lambda>(m', new). tableOk check key same (ws @ vs) m' \<and>
       (\<forall>xs. enumerates key m xs \<longrightarrow> enumerates key m' (xs @ new) \<and> enumerates key m' (new @ xs)))
    (mergeEntries check key same field msg src vs m)"
proof -
  have "merges key same ws m" "\<And>w. w \<in> set ws \<Longrightarrow> check w = Inr ()"
    using assms(2) by (simp_all add: tableOk_def entriesFit_def)
  from mergeEntries_step [OF assms(1) this(1), where check = check and field = field and msg = msg and src = src and vs = vs] \<open>\<And>w. w \<in> set ws \<Longrightarrow> check w = Inr ()\<close> show ?thesis
    by (cases "mergeEntries check key same field msg src vs m") (auto simp: tableOk_def)
qed

lemma mergeNamed_ok:
  assumes "tableOk (namedCheck field key check) key (=) ws m"
  shows "succeeds (entriesFit (namedCheck field key check) key (=) (ws @ vs)) (tableOk (namedCheck field key check) key (=) (ws @ vs))
    (mergeNamed field key check src vs m)"
proof -
  have check: "(\<lambda>v. if trim_space (key v) = [] then Inl (field @ '' name required'') else check v) = namedCheck field key check"
    by (simp add: fun_eq_iff namedCheck_def)
  show ?thesis
    unfolding mergeNamed_def check case_prod_beta
    by (rule succeeds_map [OF mergeEntries_ok [OF identity_equivp assms]]) auto
qed

lemma equivp_sameConfig: "equivp sameConfig"
  by (rule equivpI) (auto simp: reflp_def symp_def transp_def sameConfig_def sameHookConfig_def)

lemma equivp_equalHook: "equivp equalHook"
  by (rule equivpI) (auto simp: reflp_def symp_def transp_def equalHook_def)

text \<open>The steps of a layer, each on its own part of the state.\<close>

lemma mergeApproval_ok:
  assumes st: "holds as ds bs hs us cs ks ms ts os fs gs s"
  shows "succeeds (settingFits validateApprovalMode (=) (as @ layerApprovals l))
    (holds (as @ layerApprovals l) ds bs hs us cs ks ms ts os fs gs) (mergeApproval l s)"
proof (cases "layerApprovals l")
  case Nil
  then have "mergeApproval l s = Inr s" by (auto simp: layerApprovals_def mergeApproval_def split: option.splits if_splits)
  with Nil st show ?thesis by (simp add: holds_def settingOk_def)
next
  case (Cons m rest)
  then have m: "ly_approval l = Some m" "m \<noteq> ApprovalUnspecified" "rest = []"
    by (auto simp: layerApprovals_def split: option.splits if_splits)
  show ?thesis
  proof (cases "validateApprovalMode m")
    case (Inl e)
    with m Cons show ?thesis by (auto simp: mergeApproval_def settingFits_def entriesFit_def)
  next
    case (Inr u)
    then have ok: "validateApprovalMode m = Inr ()" by simp
    have start: "settingOk validateApprovalMode (=) as (ms_approval s)" using st by (simp add: holds_def)
    have run: "mergeApproval l s = and_then (mergeScalar (=) ''approval.mode'' ''approval modes differ'' (ly_source l) m (ms_approval s))
        (\<lambda>a. Inr (s\<lparr>ms_approval := a\<rparr>))"
      using m ok by (simp add: mergeApproval_def)
    show ?thesis
      unfolding run Cons m(3) by (rule succeeds_map [OF mergeScalar_step [OF identity_equivp start ok]]) (use st in \<open>simp add: holds_def\<close>)
  qed
qed

lemma mergeDefault_ok:
  assumes st: "holds as ds bs hs us cs ks ms ts os fs gs s"
  shows "succeeds (settingFits validatePolicyDecision (=) (ds @ (if d = DecisionUnset then [] else [d])))
    (holds as (ds @ (if d = DecisionUnset then [] else [d])) bs hs us cs ks ms ts os fs gs) (mergeDefault src d s)"
proof (cases "d = DecisionUnset")
  case True
  with st show ?thesis by (simp add: mergeDefault_def holds_def settingOk_def)
next
  case False
  show ?thesis
  proof (cases "validatePolicyDecision d")
    case (Inl e)
    with False show ?thesis by (auto simp: mergeDefault_def settingFits_def entriesFit_def)
  next
    case (Inr u)
    then have ok: "validatePolicyDecision d = Inr ()" by simp
    have start: "settingOk validatePolicyDecision (=) ds (ms_default s)" using st by (simp add: holds_def)
    have run: "mergeDefault src d s = and_then (mergeScalar (=) ''tool_policy.default_decision'' ''default decisions differ'' src d (ms_default s))
        (\<lambda>a. Inr (s\<lparr>ms_default := a\<rparr>))"
      using False ok by (simp add: mergeDefault_def)
    show ?thesis
      unfolding run if_not_P [OF False]
      by (rule succeeds_map [OF mergeScalar_step [OF identity_equivp start ok]]) (use st in \<open>simp add: holds_def\<close>)
  qed
qed

lemma mergeResolve_ok:
  assumes st: "holds as ds bs hs us cs ks ms ts os fs gs s"
  shows "succeeds (settingFits (\<lambda>_. Inr ()) (=) (bs @ (case r of None \<Rightarrow> [] | Some b \<Rightarrow> [b])))
    (holds as ds (bs @ (case r of None \<Rightarrow> [] | Some b \<Rightarrow> [b])) hs us cs ks ms ts os fs gs) (mergeResolve src r s)"
proof (cases r)
  case None
  with st show ?thesis by (simp add: mergeResolve_def holds_def settingOk_def)
next
  case (Some b)
  have start: "settingOk (\<lambda>_. Inr ()) (=) bs (ms_resolve s)" using st by (simp add: holds_def)
  show ?thesis
    unfolding mergeResolve_def Some option.case
    by (rule succeeds_map [OF mergeScalar_step [OF identity_equivp start refl]]) (use st in \<open>simp add: holds_def\<close>)
qed

lemma mergeHosts_ok:
  assumes st: "holds as ds bs hs us cs ks ms ts os fs gs s"
  shows "succeeds (entriesFit checkHost he_name (=) (hs @ vs)) (holds as ds bs (hs @ vs) us cs ks ms ts os fs gs) (mergeHosts src vs s)"
proof -
  have start: "tableOk checkHost he_name (=) hs (ms_host_by_name s)" using st by (simp add: holds_def)
  show ?thesis
    unfolding mergeHosts_def case_prod_beta
    by (rule succeeds_map [OF mergeEntries_ok [OF identity_equivp start]]) (use st in \<open>auto simp: holds_def\<close>)
qed

lemma mergeRules_ok:
  assumes st: "holds as ds bs hs us cs ks ms ts os fs gs s"
  shows "succeeds (entriesFit checkRule cu_id (=) (us @ vs)) (holds as ds bs hs (us @ vs) cs ks ms ts os fs gs) (mergeRules src vs s)"
proof -
  have start: "tableOk checkRule cu_id (=) us (ms_rule_by_id s)" using st by (simp add: holds_def)
  show ?thesis
    unfolding mergeRules_def case_prod_beta
    by (rule succeeds_map [OF mergeEntries_ok [OF identity_equivp start]]) (use st in \<open>auto simp: holds_def\<close>)
qed

lemma mergeHookList_ok:
  assumes st: "holds as ds bs hs us cs ks ms ts os fs gs s"
  shows "succeeds (entriesFit checkHook hookKey equalHook (ks @ vs)) (holds as ds bs hs us cs (ks @ vs) ms ts os fs gs) (mergeHookList src vs s)"
proof -
  have start: "tableOk checkHook hookKey equalHook ks (ms_hook_by_key s)" using st by (simp add: holds_def)
  show ?thesis
    unfolding mergeHookList_def case_prod_beta
    by (rule succeeds_map [OF mergeEntries_ok [OF equivp_equalHook start]]) (use st in \<open>auto simp: holds_def\<close>)
qed

lemma mergeHookConfig_ok:
  assumes st: "holds as ds bs hs us cs ks ms ts os fs gs s"
  shows "succeeds (settingFits (\<lambda>_. Inr ()) sameConfig
      (cs @ (if hookTimeoutValue (hc_timeout (hq_config req)) > 0 \<or> elems (hc_env_allow (hq_config req)) \<noteq> [] then [req] else [])))
    (holds as ds bs hs us (cs @ (if hookTimeoutValue (hc_timeout (hq_config req)) > 0 \<or> elems (hc_env_allow (hq_config req)) \<noteq> [] then [req] else [])) ks ms ts os fs gs) (mergeHookConfig src req s)"
proof (cases "hookTimeoutValue (hc_timeout (hq_config req)) > 0 \<or> elems (hc_env_allow (hq_config req)) \<noteq> []")
  case False
  then have "mergeHookConfig src req s = Inr s" unfolding mergeHookConfig_def by (rule if_not_P)
  with st show ?thesis unfolding if_not_P [OF False] by (simp add: holds_def settingOk_def)
next
  case True
  have start: "settingOk (\<lambda>_. Inr ()) sameConfig cs (ms_hook_config s)" using st by (simp add: holds_def)
  show ?thesis
    unfolding mergeHookConfig_def if_P [OF True] sameConfig_def [abs_def, symmetric]
    by (rule succeeds_map [OF mergeScalar_step [OF equivp_sameConfig start refl]]) (use st in \<open>simp add: holds_def\<close>)
qed

lemma mergeToolPolicy_ok:
  assumes st: "holds as ds bs hs us cs ks ms ts os fs gs s"
  shows "succeeds (settingFits validatePolicyDecision (=) (ds @ layerDefaults l) \<and> settingFits (\<lambda>_. Inr ()) (=) (bs @ layerResolves l) \<and>
      entriesFit checkHost he_name (=) (hs @ layerHosts l) \<and> entriesFit checkRule cu_id (=) (us @ layerRules l))
    (holds as (ds @ layerDefaults l) (bs @ layerResolves l) (hs @ layerHosts l) (us @ layerRules l) cs ks ms ts os fs gs)
    (mergeToolPolicy l s)"
proof (cases "ly_policy l")
  case None
  with st show ?thesis
    by (simp add: mergeToolPolicy_def layerDefaults_def layerResolves_def layerHosts_def layerRules_def)
      (simp add: holds_def settingOk_def tableOk_def)
next
  case (Some p)
  have lists: "layerDefaults l = (if pq_default p = DecisionUnset then [] else [pq_default p])"
    "layerResolves l = (case pq_resolve p of None \<Rightarrow> [] | Some b \<Rightarrow> [b])" "layerHosts l = pq_hosts p" "layerRules l = pq_rules p"
    using Some by (simp_all add: layerDefaults_def layerResolves_def layerHosts_def layerRules_def)
  show ?thesis
    unfolding mergeToolPolicy_def Some option.case lists
    by (intro succeeds_and_then [OF mergeDefault_ok [OF st]] succeeds_and_then [OF mergeResolve_ok]
        succeeds_and_then [OF mergeHosts_ok] mergeRules_ok)
qed

lemma mergeHooks_ok:
  assumes st: "holds as ds bs hs us cs ks ms ts os fs gs s"
  shows "succeeds (settingFits (\<lambda>_. Inr ()) sameConfig (cs @ layerHookConfigs l) \<and> entriesFit checkHook hookKey equalHook (ks @ layerHooks l))
    (holds as ds bs hs us (cs @ layerHookConfigs l) (ks @ layerHooks l) ms ts os fs gs) (mergeHooks l s)"
proof (cases "ly_hooks l")
  case None
  with st show ?thesis
    by (simp add: mergeHooks_def layerHookConfigs_def layerHooks_def) (simp add: holds_def settingOk_def tableOk_def)
next
  case (Some req)
  have lists: "layerHookConfigs l =
      (if hookTimeoutValue (hc_timeout (hq_config req)) > 0 \<or> elems (hc_env_allow (hq_config req)) \<noteq> [] then [req] else [])"
    "layerHooks l = hq_hooks req"
    using Some by (simp_all add: layerHookConfigs_def layerHooks_def)
  show ?thesis
    unfolding mergeHooks_def Some option.case lists
    by (intro succeeds_and_then [OF mergeHookConfig_ok [OF st]] mergeHookList_ok)
qed

lemma mergeServers_ok:
  assumes st: "holds as ds bs hs us cs ks ms ts os fs gs s"
  shows "succeeds (entriesFit (namedCheck ''mcp_servers'' mc_name validateMCPServer) mc_name (=) (ms @ vs)) (holds as ds bs hs us cs ks (ms @ vs) ts os fs gs)
    (and_then (mergeNamed ''mcp_servers'' mc_name validateMCPServer src vs (ms_servers s)) (\<lambda>m. Inr (s\<lparr>ms_servers := m\<rparr>)))"
  by (rule succeeds_map [OF mergeNamed_ok]) (use st in \<open>simp_all add: holds_def\<close>)

lemma mergeCatalogs_ok:
  assumes st: "holds as ds bs hs us cs ks ms ts os fs gs s"
  shows "succeeds (entriesFit (namedCheck ''catalogs'' ct_name validateCatalogSource) ct_name (=) (ts @ vs)) (holds as ds bs hs us cs ks ms (ts @ vs) os fs gs)
    (and_then (mergeNamed ''catalogs'' ct_name validateCatalogSource src vs (ms_catalogs s)) (\<lambda>m. Inr (s\<lparr>ms_catalogs := m\<rparr>)))"
  by (rule succeeds_map [OF mergeNamed_ok]) (use st in \<open>simp_all add: holds_def\<close>)

lemma mergeModels_ok:
  assumes st: "holds as ds bs hs us cs ks ms ts os fs gs s"
  shows "succeeds (entriesFit (namedCheck ''models'' mo_role validateModelChoice) mo_role (=) (os @ vs)) (holds as ds bs hs us cs ks ms ts (os @ vs) fs gs)
    (and_then (mergeNamed ''models'' mo_role validateModelChoice src vs (ms_models s)) (\<lambda>m. Inr (s\<lparr>ms_models := m\<rparr>)))"
  by (rule succeeds_map [OF mergeNamed_ok]) (use st in \<open>simp_all add: holds_def\<close>)

lemma mergeStores_ok:
  assumes st: "holds as ds bs hs us cs ks ms ts os fs gs s"
  shows "succeeds (entriesFit (namedCheck ''file_stores'' fs_name validateFileStorePath) fs_name (=) (fs @ vs)) (holds as ds bs hs us cs ks ms ts os (fs @ vs) gs)
    (and_then (mergeNamed ''file_stores'' fs_name validateFileStorePath src vs (ms_stores s)) (\<lambda>m. Inr (s\<lparr>ms_stores := m\<rparr>)))"
  by (rule succeeds_map [OF mergeNamed_ok]) (use st in \<open>simp_all add: holds_def\<close>)

lemma mergeFeatures_ok:
  assumes st: "holds as ds bs hs us cs ks ms ts os fs gs s"
  shows "succeeds (entriesFit (namedCheck ''feature_gates'' fg_name validateFeatureGate) fg_name (=) (gs @ vs)) (holds as ds bs hs us cs ks ms ts os fs (gs @ vs))
    (and_then (mergeNamed ''feature_gates'' fg_name validateFeatureGate src vs (ms_features s)) (\<lambda>m. Inr (s\<lparr>ms_features := m\<rparr>)))"
  by (rule succeeds_map [OF mergeNamed_ok]) (use st in \<open>simp_all add: holds_def\<close>)

lemma and_then_assoc: "and_then (and_then r f) g = and_then r (\<lambda>a. and_then (f a) g)"
  by (cases r) simp_all

lemma addLayer_chain:
  assumes "validSource (ly_source l)"
  shows "addLayer i l s = and_then (mergeApproval l s) (\<lambda>s. and_then (mergeToolPolicy l s) (\<lambda>s. and_then (mergeHooks l s) (\<lambda>s.
     and_then (and_then (mergeNamed ''mcp_servers'' mc_name validateMCPServer (ly_source l) (ly_servers l) (ms_servers s)) (\<lambda>m. Inr (s\<lparr>ms_servers := m\<rparr>))) (\<lambda>s.
     and_then (and_then (mergeNamed ''catalogs'' ct_name validateCatalogSource (ly_source l) (ly_catalogs l) (ms_catalogs s)) (\<lambda>m. Inr (s\<lparr>ms_catalogs := m\<rparr>))) (\<lambda>s.
     and_then (and_then (mergeNamed ''models'' mo_role validateModelChoice (ly_source l) (ly_models l) (ms_models s)) (\<lambda>m. Inr (s\<lparr>ms_models := m\<rparr>))) (\<lambda>s.
     and_then (and_then (mergeNamed ''file_stores'' fs_name validateFileStorePath (ly_source l) (ly_stores l) (ms_stores s)) (\<lambda>m. Inr (s\<lparr>ms_stores := m\<rparr>))) (\<lambda>s.
     and_then (mergeNamed ''feature_gates'' fg_name validateFeatureGate (ly_source l) (ly_features l) (ms_features s)) (\<lambda>m. Inr (s\<lparr>ms_features := m\<rparr>)))))))))"
  using assms by (simp add: addLayer_def Let_def and_then_assoc)

lemma addLayer_ok:
  assumes st: "composes ls s" and sources: "\<forall>l \<in> set ls. validSource (ly_source l)"
  shows "succeeds (layersAgree (ls @ [l])) (composes (ls @ [l])) (addLayer i l s)"
proof (cases "validSource (ly_source l)")
  case False
  then show ?thesis by (simp add: addLayer_def layersAgree_def)
next
  case True
  have st': "holds (across layerApprovals ls) (across layerDefaults ls) (across layerResolves ls) (across layerHosts ls)
     (across layerRules ls) (across layerHookConfigs ls) (across layerHooks ls) (across ly_servers ls) (across ly_catalogs ls)
     (across ly_models ls) (across ly_stores ls) (across ly_features ls) s" using st by (simp only: composes_def)
  note steps = succeeds_and_then [OF mergeApproval_ok [OF st'] succeeds_and_then [OF mergeToolPolicy_ok succeeds_and_then [OF mergeHooks_ok
    succeeds_and_then [OF mergeServers_ok succeeds_and_then [OF mergeCatalogs_ok succeeds_and_then [OF mergeModels_ok
    succeeds_and_then [OF mergeStores_ok mergeFeatures_ok]]]]]]]
  have one: "across f (ls @ [l]) = across f ls @ f l" for f :: "layer \<Rightarrow> 'b list" by simp
  have src: "(\<forall>k \<in> set (ls @ [l]). validSource (ly_source k)) \<longleftrightarrow> True" using True sources by simp
  have agree: "layersAgree (ls @ [l]) \<longleftrightarrow>
     settingFits validateApprovalMode (=) (across layerApprovals ls @ layerApprovals l) \<and>
     (settingFits validatePolicyDecision (=) (across layerDefaults ls @ layerDefaults l) \<and>
      settingFits (\<lambda>_. Inr ()) (=) (across layerResolves ls @ layerResolves l) \<and>
      entriesFit checkHost he_name (=) (across layerHosts ls @ layerHosts l) \<and>
      entriesFit checkRule cu_id (=) (across layerRules ls @ layerRules l)) \<and>
     (settingFits (\<lambda>_. Inr ()) sameConfig (across layerHookConfigs ls @ layerHookConfigs l) \<and>
      entriesFit checkHook hookKey equalHook (across layerHooks ls @ layerHooks l)) \<and>
     entriesFit (namedCheck ''mcp_servers'' mc_name validateMCPServer) mc_name (=) (across ly_servers ls @ ly_servers l) \<and>
     entriesFit (namedCheck ''catalogs'' ct_name validateCatalogSource) ct_name (=) (across ly_catalogs ls @ ly_catalogs l) \<and>
     entriesFit (namedCheck ''models'' mo_role validateModelChoice) mo_role (=) (across ly_models ls @ ly_models l) \<and>
     entriesFit (namedCheck ''file_stores'' fs_name validateFileStorePath) fs_name (=) (across ly_stores ls @ ly_stores l) \<and>
     entriesFit (namedCheck ''feature_gates'' fg_name validateFeatureGate) fg_name (=) (across ly_features ls @ ly_features l)"
    by (simp only: layersAgree_def src one simp_thms conj_assoc)
  show ?thesis
    unfolding agree addLayer_chain [OF True] composes_def [of "ls @ [l]"] one by (rule steps)
qed

lemma addLayers_ok:
  "composes ls s \<Longrightarrow> layersAgree ls \<Longrightarrow> succeeds (layersAgree (ls @ ks)) (composes (ls @ ks)) (addLayers i ks s)"
proof (induction ks arbitrary: i ls s)
  case (Cons k ks)
  have sources: "\<forall>l \<in> set ls. validSource (ly_source l)" using Cons.prems(2) by (simp add: layersAgree_def)
  note step = addLayer_ok [OF Cons.prems(1) sources, of k i]
  show ?case
  proof (cases "addLayer i k s")
    case (Inl e)
    with step have "\<not> layersAgree (ls @ [k])" by simp
    with layersAgree_prefix [of "ls @ [k]" ks] have "\<not> layersAgree (ls @ k # ks)" by auto
    with Inl show ?thesis by simp
  next
    case (Inr s')
    with step have "layersAgree (ls @ [k])" "composes (ls @ [k]) s'" by simp_all
    from Cons.IH [OF this(2,1), of "Suc i"] Inr show ?thesis by simp
  qed
qed simp

lemma composes_new: "composes [] newMergeState"
  by (simp add: composes_def holds_def newMergeState_def settingOk_def settingFits_def settles_def tableOk_def entriesFit_def agree_def)

lemma layersAgree_Nil: "layersAgree []"
  by (simp add: layersAgree_def settingFits_def entriesFit_def agree_def)

lemma compose_cases:
  "(\<exists>e. compose ls = Inl e) \<and> \<not> layersAgree ls \<or> (\<exists>s. compose ls = Inr (outputRequirements s) \<and> layersAgree ls \<and> composes ls s)"
proof -
  have "succeeds (layersAgree ls) (composes ls) (addLayers 0 ls newMergeState)"
    using addLayers_ok [OF composes_new layersAgree_Nil, of ls 0] by simp
  then show ?thesis by (cases "addLayers 0 ls newMergeState") (auto simp: compose_def)
qed

section \<open>What the requirements hold\<close>

lemma tableOk_values:
  assumes "tableOk check key (=) vs m" "enumerates key m xs"
  shows "set (map sd_value xs) = set vs" "distinct (map key (map sd_value xs))"
proof -
  have "v \<in> sd_value ` set xs" if "v \<in> set vs" for v
  proof -
    from assms(1) that obtain x where "map_of m (key v) = Some x" "sd_value x = v" unfolding tableOk_def merges_def by blast
    with assms(2) show ?thesis unfolding enumerates_def by blast
  qed
  moreover have "sd_value x \<in> set vs" if "x \<in> set xs" for x
    using assms that unfolding tableOk_def merges_def enumerates_def by blast
  ultimately show "set (map sd_value xs) = set vs" by auto
  show "distinct (map key (map sd_value xs))" using assms(2) by (simp add: enumerates_def comp_def)
qed

lemma tableOk_lookup:
  "tableOk check key (=) vs m \<Longrightarrow> v \<in> set vs \<Longrightarrow> map_option sd_value (map_of m (key v)) = Some v"
  unfolding tableOk_def merges_def by fastforce

lemma settingOk_value:
  "settingOk check (=) vs a \<Longrightarrow> settingOk check' (=) ws b \<Longrightarrow> set vs = set ws \<Longrightarrow> map_option sd_value a = map_option sd_value b"
  unfolding settingOk_def settles_def by (cases a; cases b) auto

text \<open>The command policy that a state configures.\<close>

lemma policyConfig_facts:
  assumes "composes ls s"
  defines "c \<equiv> commandPolicyConfig (outputRequirements s)"
  shows "set (cg_rules c) = set (across layerRules ls)" "set (cg_hosts c) = set (across layerHosts ls)"
    "sorted (map he_name (cg_hosts c))" "distinct (map he_name (cg_hosts c))"
    "cg_default c = (case map_option sd_value (ms_default s) of None \<Rightarrow> DecisionUnset | Some d \<Rightarrow> d)"
    "cg_resolve c = (case map_option sd_value (ms_resolve s) of None \<Rightarrow> False | Some b \<Rightarrow> b)"
proof -
  have rules: "tableOk checkRule cu_id (=) (across layerRules ls) (ms_rule_by_id s)" "enumerates cu_id (ms_rule_by_id s) (ms_rules s)"
    and hosts: "tableOk checkHost he_name (=) (across layerHosts ls) (ms_host_by_name s)" "enumerates he_name (ms_host_by_name s) (ms_hosts s)"
    using assms(1) unfolding composes_def holds_def by blast+
  show "set (cg_rules c) = set (across layerRules ls)"
    using tableOk_values(1) [OF rules] by (simp add: c_def commandPolicyConfig_def outputRequirements_def)
  have hs: "cg_hosts c = map sd_value (sort_key (\<lambda>h. he_name (sd_value h)) (ms_hosts s))"
    by (simp add: c_def commandPolicyConfig_def outputRequirements_def)
  show "set (cg_hosts c) = set (across layerHosts ls)"
    using tableOk_values(1) [OF hosts] unfolding hs by simp
  have keys: "map he_name (cg_hosts c) = map (\<lambda>h. he_name (sd_value h)) (sort_key (\<lambda>h. he_name (sd_value h)) (ms_hosts s))"
    unfolding hs by simp
  show "sorted (map he_name (cg_hosts c))" unfolding keys by (rule sorted_sort_key)
  show "distinct (map he_name (cg_hosts c))"
    using tableOk_values(2) [OF hosts] unfolding keys distinct_map by (simp add: inj_on_def)
  show "cg_default c = (case map_option sd_value (ms_default s) of None \<Rightarrow> DecisionUnset | Some d \<Rightarrow> d)"
    "cg_resolve c = (case map_option sd_value (ms_resolve s) of None \<Rightarrow> False | Some b \<Rightarrow> b)"
    by (simp_all add: c_def commandPolicyConfig_def outputRequirements_def split: option.split)
qed

lemma policyConfig_order:
  assumes "composes ls s" "composes ls' s'" "mset ls' = mset ls"
  defines "c \<equiv> commandPolicyConfig (outputRequirements s)" and "c' \<equiv> commandPolicyConfig (outputRequirements s')"
  shows "set (cg_rules c') = set (cg_rules c)" "cg_hosts c' = cg_hosts c" "cg_default c' = cg_default c" "cg_resolve c' = cg_resolve c"
proof -
  note f = policyConfig_facts [OF assms(1), folded c_def] and f' = policyConfig_facts [OF assms(2), folded c'_def]
  note same = set_across_mset [OF assms(3)]
  show "set (cg_rules c') = set (cg_rules c)" unfolding f(1) f'(1) by (rule same)
  have hosts: "set (cg_hosts c') = set (cg_hosts c)" unfolding f(2) f'(2) by (rule same)
  have "inj_on he_name (set (cg_hosts c') \<union> set (cg_hosts c))" using f(4) hosts by (simp add: distinct_map)
  from map_sorted_distinct_set_unique [OF this f'(3,4) f(3,4) hosts] show "cg_hosts c' = cg_hosts c" .
  have set: "settingOk validatePolicyDecision (=) (across layerDefaults ls) (ms_default s)"
    "settingOk (\<lambda>_. Inr ()) (=) (across layerResolves ls) (ms_resolve s)" using assms(1) unfolding composes_def holds_def by blast+
  have set': "settingOk validatePolicyDecision (=) (across layerDefaults ls') (ms_default s')"
    "settingOk (\<lambda>_. Inr ()) (=) (across layerResolves ls') (ms_resolve s')" using assms(2) unfolding composes_def holds_def by blast+
  have "map_option sd_value (ms_default s') = map_option sd_value (ms_default s)"
    "map_option sd_value (ms_resolve s') = map_option sd_value (ms_resolve s)"
    by (rule settingOk_value [OF set'(1) set(1) same], rule settingOk_value [OF set'(2) set(2) same])
  then show "cg_default c' = cg_default c" "cg_resolve c' = cg_resolve c" by (simp_all add: f(5,6) f'(5,6))
qed

text \<open>The decision code of a policy depends on its set of rules only.\<close>

lemma effectiveArgv_cong:
  "set (cp_rules p') = set (cp_rules p) \<Longrightarrow> cp_resolve p' = cp_resolve p \<Longrightarrow> effectiveArgv p' argv = effectiveArgv p argv"
  by (simp add: effectiveArgv_def list_ex_iff)

lemma decision_cong:
  assumes "newCommandPolicy c = Inr p" "set (cg_rules c') = set (cg_rules c)" "cg_hosts c' = cg_hosts c"
    "cg_default c' = cg_default c" "cg_resolve c' = cg_resolve c"
  shows "\<exists>p'. newCommandPolicy c' = Inr p' \<and> (\<forall>q. td_code (cd_decision (decideCommand p' q)) = td_code (cd_decision (decideCommand p q)))"
proof -
  define p' where "p' = \<lparr>cp_rules = map withDecision (cg_rules c'), cp_hosts = compileHostExecutables (cg_hosts c') [],
    cp_resolve = cg_resolve c', cp_default = configDefault c'\<rparr>"
  have p: "p = \<lparr>cp_rules = map withDecision (cg_rules c), cp_hosts = compileHostExecutables (cg_hosts c) [],
      cp_resolve = cg_resolve c, cp_default = configDefault c\<rparr>" and fits: "\<forall>r \<in> set (cg_rules c). ruleFits r"
    using assms(1) unfolding newCommandPolicy_iff by (simp_all add: list_all_iff)
  have new: "newCommandPolicy c' = Inr p'"
  proof -
    have "configDefault c' = configDefault c" using assms(4) by (simp add: configDefault_def)
    with assms(1,2) show ?thesis unfolding newCommandPolicy_iff p'_def by (simp add: list_all_iff)
  qed
  have rules: "set (cp_rules p') = set (cp_rules p)" "cp_resolve p' = cp_resolve p" "cp_hosts p' = cp_hosts p" "cp_default p' = cp_default p"
    using assms(2-5) by (simp_all add: p p'_def configDefault_def)
  have known: "knownDecision (cu_decision r)" if "r \<in> set (cp_rules p)" for r
    using that fits by (auto simp: p ruleFits_def)
  have "td_code (cd_decision (decideCommand p' q)) = td_code (cd_decision (decideCommand p q))" for q
  proof (cases "cq_argv q = []")
    case True
    then show ?thesis by (simp add: decideCommand_unmatched rules)
  next
    case False
    have "set (applicableRules p' (cq_argv q)) = set (applicableRules p (cq_argv q))"
      unfolding applicableRules_def effectiveArgv_cong [OF rules(1,2)] hostExecutableAllowed_def rules(3) using rules(1) by simp
    then have "strictest (cp_default p') (map cu_decision (applicableRules p' (cq_argv q))) =
        strictest (cp_default p) (map cu_decision (applicableRules p (cq_argv q)))"
      unfolding strictest_def rules(4) by (simp flip: set_empty)
    with decideCommand_rules(1) [OF False, of p] decideCommand_rules(1) [OF False, of p'] known rules(1) show ?thesis by simp
  qed
  with new show ?thesis by blast
qed

section \<open>Samples\<close>

definition emptyLayer :: "string \<Rightarrow> layer" where
  "emptyLayer label = \<lparr>ly_source = \<lparr>so_label = label, so_kind = [], so_path = []\<rparr>, ly_approval = None, ly_policy = None, ly_hooks = None,
     ly_servers = [], ly_catalogs = [], ly_models = [], ly_stores = [], ly_features = []\<rparr>"

definition adminLayer :: layer where
  "adminLayer = (emptyLayer ''admin'')\<lparr>ly_approval := Some ApprovalOnRequest,
     ly_policy := Some \<lparr>pq_default = DecisionDeny, pq_resolve = Some True, pq_rules = [sampleRule ''push'' DecisionDeny [''git'', ''push'']],
       pq_hosts = [\<lparr>he_name = ''git'', he_paths = Some [''/usr/bin/git'']\<rparr>]\<rparr>\<rparr>"

definition userLayer :: layer where
  "userLayer = (emptyLayer ''user'')\<lparr>
     ly_policy := Some \<lparr>pq_default = DecisionUnset, pq_resolve = None, pq_rules = [sampleRule ''git'' DecisionAllow [''git'']], pq_hosts = []\<rparr>,
     ly_models := [\<lparr>mo_role = ''main'', mo_model = ''m''\<rparr>]\<rparr>"

definition sampleRequirements :: requirements where
  "sampleRequirements = (case compose [adminLayer, userLayer] of Inr r \<Rightarrow> r
     | Inl _ \<Rightarrow> outputRequirements newMergeState)"

lemma sample_composes: "compose [adminLayer, userLayer] = Inr sampleRequirements"
proof -
  have "\<not> failed (compose [adminLayer, userLayer])" by code_simp
  then show ?thesis by (cases "compose [adminLayer, userLayer]") (simp_all add: sampleRequirements_def)
qed

section \<open>Properties\<close>

text \<open>
  C32: layers compose exactly when they fit together: every layer names its source, every definition
  is valid by itself, and layers that define the same setting, host executable, command rule, hook,
  server, catalog, model role, file store or feature gate define it in the same way. In particular
  no layer overrides another silently.
\<close>

theorem compose_succeeds_iff: "(\<exists>r. compose ls = Inr r) \<longleftrightarrow> layersAgree ls"
  using compose_cases [of ls] by auto

text \<open>
  The requirements hold every definition of every layer, and nothing else.
\<close>

theorem requirements_are_complete:
  assumes "compose ls = Inr r"
  shows "set (map sd_value (rq_rules r)) = set (across layerRules ls) \<and> distinct (map cu_id (map sd_value (rq_rules r))) \<and>
    set (map sd_value (rq_hosts r)) = set (across layerHosts ls) \<and>
    (\<forall>v \<in> set (across ly_servers ls). map_option sd_value (map_of (rq_servers r) (mc_name v)) = Some v) \<and>
    (\<forall>v \<in> set (across ly_catalogs ls). map_option sd_value (map_of (rq_catalogs r) (ct_name v)) = Some v) \<and>
    (\<forall>v \<in> set (across ly_models ls). map_option sd_value (map_of (rq_models r) (mo_role v)) = Some v) \<and>
    (\<forall>v \<in> set (across ly_stores ls). map_option sd_value (map_of (rq_stores r) (fs_name v)) = Some v) \<and>
    (\<forall>v \<in> set (across ly_features ls). map_option sd_value (map_of (rq_features r) (fg_name v)) = Some v)"
proof -
  obtain s where s: "r = outputRequirements s" "composes ls s" using compose_cases [of ls] assms by auto
  have tables: "tableOk checkRule cu_id (=) (across layerRules ls) (ms_rule_by_id s)" "enumerates cu_id (ms_rule_by_id s) (ms_rules s)"
    "tableOk (namedCheck ''mcp_servers'' mc_name validateMCPServer) mc_name (=) (across ly_servers ls) (ms_servers s)"
    "tableOk (namedCheck ''catalogs'' ct_name validateCatalogSource) ct_name (=) (across ly_catalogs ls) (ms_catalogs s)"
    "tableOk (namedCheck ''models'' mo_role validateModelChoice) mo_role (=) (across ly_models ls) (ms_models s)"
    "tableOk (namedCheck ''file_stores'' fs_name validateFileStorePath) fs_name (=) (across ly_stores ls) (ms_stores s)"
    "tableOk (namedCheck ''feature_gates'' fg_name validateFeatureGate) fg_name (=) (across ly_features ls) (ms_features s)"
    using s(2) unfolding composes_def holds_def by blast+
  have lists: "rq_rules r = ms_rules s" "rq_servers r = ms_servers s" "rq_catalogs r = ms_catalogs s" "rq_models r = ms_models s"
    "rq_stores r = ms_stores s" "rq_features r = ms_features s" "map sd_value (rq_hosts r) = cg_hosts (commandPolicyConfig r)"
    by (simp_all add: s(1) outputRequirements_def commandPolicyConfig_def)
  have hosts: "set (cg_hosts (commandPolicyConfig r)) = set (across layerHosts ls)"
    using policyConfig_facts(2) [OF s(2)] s(1) by simp
  show ?thesis
    unfolding lists hosts
    by (intro conjI ballI tableOk_values [OF tables(1,2)] refl tableOk_lookup [OF tables(3)] tableOk_lookup [OF tables(4)]
        tableOk_lookup [OF tables(5)] tableOk_lookup [OF tables(6)] tableOk_lookup [OF tables(7)])
qed

theorem requirements_are_complete_witness:
  "sampleRule ''push'' DecisionDeny [''git'', ''push''] \<in> set (map sd_value (rq_rules sampleRequirements))"
proof -
  have "sampleRule ''push'' DecisionDeny [''git'', ''push''] \<in> set (across layerRules [adminLayer, userLayer])"
    by (simp add: adminLayer_def userLayer_def layerRules_def)
  with requirements_are_complete [OF sample_composes] show ?thesis by blast
qed

text \<open>
  The order of the layers does not weaken a policy: composed in any other order, the layers
  compose as well, and the command policy they configure is refused or gives every command the
  same decision.
\<close>

theorem layer_order_keeps_decisions:
  assumes "compose ls = Inr r" "mset ls' = mset ls"
  shows "\<exists>r'. compose ls' = Inr r' \<and>
    (case newCommandPolicy (commandPolicyConfig r) of
       Inl _ \<Rightarrow> failed (newCommandPolicy (commandPolicyConfig r'))
     | Inr p \<Rightarrow> \<exists>p'. newCommandPolicy (commandPolicyConfig r') = Inr p' \<and>
         (\<forall>q. td_code (cd_decision (decideCommand p' q)) = td_code (cd_decision (decideCommand p q))))"
proof -
  obtain s where s: "r = outputRequirements s" "layersAgree ls" "composes ls s" using compose_cases [of ls] assms(1) by auto
  then have "layersAgree ls'" using layersAgree_mset [OF assms(2)] by simp
  then obtain s' where s': "compose ls' = Inr (outputRequirements s')" "composes ls' s'" using compose_cases [of ls'] by auto
  note same = policyConfig_order [OF s(3) s'(2) assms(2), folded s(1)]
  let ?c = "commandPolicyConfig r" and ?c' = "commandPolicyConfig (outputRequirements s')"
  have "case newCommandPolicy ?c of
       Inl _ \<Rightarrow> failed (newCommandPolicy ?c')
     | Inr p \<Rightarrow> \<exists>p'. newCommandPolicy ?c' = Inr p' \<and>
         (\<forall>q. td_code (cd_decision (decideCommand p' q)) = td_code (cd_decision (decideCommand p q)))"
  proof (cases "newCommandPolicy ?c")
    case (Inr p)
    from decision_cong [OF this same] Inr show ?thesis by simp
  next
    case (Inl e)
    have "failed (newCommandPolicy ?c')"
    proof (cases "newCommandPolicy ?c'")
      case (Inr p')
      from decision_cong [OF this same(1) [symmetric] same(2) [symmetric] same(3) [symmetric] same(4) [symmetric]] Inl
      show ?thesis by simp
    qed simp
    with Inl show ?thesis by simp
  qed
  with s'(1) show ?thesis by blast
qed

theorem layer_order_keeps_decisions_witness:
  "\<exists>r' p'. compose [userLayer, adminLayer] = Inr r' \<and> newCommandPolicy (commandPolicyConfig r') = Inr p' \<and>
     td_code (cd_decision (decideCommand p' (sampleCommand [''/usr/bin/git'', ''push'']))) = DecisionDeny"
proof -
  have run: "case newCommandPolicy (commandPolicyConfig sampleRequirements) of
      Inl _ \<Rightarrow> False
    | Inr p \<Rightarrow> td_code (cd_decision (decideCommand p (sampleCommand [''/usr/bin/git'', ''push'']))) = DecisionDeny"
    by code_simp
  then obtain p where p: "newCommandPolicy (commandPolicyConfig sampleRequirements) = Inr p"
    "td_code (cd_decision (decideCommand p (sampleCommand [''/usr/bin/git'', ''push'']))) = DecisionDeny"
    by (cases "newCommandPolicy (commandPolicyConfig sampleRequirements)") simp_all
  have "mset [userLayer, adminLayer] = mset [adminLayer, userLayer]" by simp
  from layer_order_keeps_decisions [OF sample_composes this] p show ?thesis by fastforce
qed

text \<open>
  The checks of composition cover those of the policy: the configuration of composed
  requirements can be refused only because a fixture of a rule does not hold.
\<close>

theorem composed_policy_is_accepted:
  assumes "compose ls = Inr r"
  shows "case newCommandPolicy (commandPolicyConfig r) of Inr p \<Rightarrow> True
    | Inl e \<Rightarrow> \<exists>i argv. e = MatchFixture i argv \<or> e = NotMatchFixture i argv"
proof -
  let ?c = "commandPolicyConfig r"
  obtain s where s: "r = outputRequirements s" "layersAgree ls" "composes ls s" using compose_cases [of ls] assms by auto
  note f = policyConfig_facts [OF s(3), folded s(1)]
  have "ruleFits u" if "u \<in> set (cg_rules ?c)" for u
  proof -
    have "entriesFit checkRule cu_id (=) (across layerRules ls)" using s(2) unfolding layersAgree_def by blast
    then have "checkRule u = Inr ()" using that unfolding f(1) entriesFit_def by blast
    moreover have "validCommandToken = validToken" by (simp add: fun_eq_iff validCommandToken_def validToken_def)
    moreover have "failed (validatePolicyDecision d) = (\<not> knownDecision d)" for d
      by (cases d) (simp_all add: validatePolicyDecision_def knownDecision_def)
    ultimately show ?thesis
      by (auto simp: checkRule_def validateRule_def ruleFits_def knownDecision_def split: if_splits)
  qed
  then have rules: "list_all ruleFits (cg_rules ?c)" by (simp add: list_all_iff)
  have "settingOk validatePolicyDecision (=) (across layerDefaults ls) (ms_default s)"
    using s(3) unfolding composes_def holds_def by blast
  then have known: "knownDecision d" if "map_option sd_value (ms_default s) = Some d" for d
  proof -
    from that have "d \<in> set (across layerDefaults ls)"
      using \<open>settingOk _ _ _ _\<close> unfolding settingOk_def settles_def by auto
    then have "validatePolicyDecision d = Inr ()"
      using \<open>settingOk _ _ _ _\<close> unfolding settingOk_def settingFits_def entriesFit_def by blast
    then show ?thesis by (cases d) (simp_all add: validatePolicyDecision_def knownDecision_def)
  qed
  have "cg_default ?c = DecisionUnset \<or> knownDecision (cg_default ?c)"
    using f(5) known by (cases "ms_default s") simp_all
  then have default: "knownDecision (configDefault ?c)" by (auto simp: configDefault_def knownDecision_def)
  show ?thesis
    using newCommandPolicy_error [OF default rules] by (cases "newCommandPolicy ?c") auto
qed

theorem composed_policy_is_accepted_witness:
  "\<not> failed (newCommandPolicy (commandPolicyConfig sampleRequirements)) \<and>
   (case newCommandPolicy (commandPolicyConfig sampleRequirements) of Inr p \<Rightarrow> True
    | Inl e \<Rightarrow> \<exists>i argv. e = MatchFixture i argv \<or> e = NotMatchFixture i argv)"
proof -
  have "\<not> failed (newCommandPolicy (commandPolicyConfig sampleRequirements))" by code_simp
  with composed_policy_is_accepted [OF sample_composes] show ?thesis by simp
qed

end
