(* ===== verification/ToolPolicy.thy ===== *)
theory ToolPolicy
  imports TurnRegistries Inbound CommandPolicy
begin

text \<open>
  Tool calls and the policies that admit them (\<open>pkg/tools/policy.go\<close>, \<open>events.go\<close>,
  \<open>types.go\<close>, \<open>execution_scope.go\<close> and \<open>descriptor.go\<close>). The code meets its surroundings
  (approvers, the safety authorizer, the store of grants, the audit sink, the user, the bodies of
  the tools) through interfaces; the model keeps the history of these meetings in the world, and
  the answer of an interface is any function of the history so far. What the turn does is then a
  statement about the history it leaves.
\<close>

section \<open>Errors\<close>

text \<open>The error values that the code tells apart with \<open>errors.Is\<close>; \<open>Unclassified\<close> is any other.\<close>

datatype sentinel =
    Canceled | DeadlineExceeded
  | ErrInvalidArgument | ErrUnknownTool | ErrInvalidTool | ErrToolExists | ErrToolRequiresApproval
  | ErrCommandFailed | ExecutableNotFound | ErrPathOutsideRoot | ErrOldTextNotFound
  | ErrOldTextNotUnique | ErrInvalidPatch | ErrPatchUnsupported | ErrInvalidFile | ErrInvalidRoot
  | ErrParentCheckpointUncertain
  | Unclassified

text \<open>An error carries the sentinel it wraps and its text; \<open>%w\<close> keeps the first.\<close>

record tool_error =
  te_is :: sentinel
  te_text :: string

definition wrap :: "string \<Rightarrow> tool_error \<Rightarrow> tool_error" where
  "wrap context e = e\<lparr>te_text := context @ '': '' @ te_text e\<rparr>"

definition errorf :: "string \<Rightarrow> tool_error" where
  "errorf t = \<lparr>te_is = Unclassified, te_text = t\<rparr>"

definition invalidTool :: "string \<Rightarrow> tool_error" where
  "invalidTool t = \<lparr>te_is = ErrInvalidTool, te_text = ''tools: invalid tool: '' @ t\<rparr>"

definition requiresApproval :: "tool_error \<Rightarrow> bool" where
  "requiresApproval e \<longleftrightarrow> te_is e = ErrToolRequiresApproval"

lemma wrap_is [simp]: "te_is (wrap c e) = te_is e" "requiresApproval (wrap c e) = requiresApproval e"
  by (simp_all add: wrap_def requiresApproval_def)

lemma errorf_is [simp]: "\<not> requiresApproval (errorf t)" "\<not> requiresApproval (invalidTool t)"
  by (simp_all add: errorf_def invalidTool_def requiresApproval_def)

definition SafeToolError :: "tool_error \<Rightarrow> string \<times> string" where
  "SafeToolError e = (case te_is e of
      Canceled \<Rightarrow> (''canceled'', ''tool invocation canceled'')
    | DeadlineExceeded \<Rightarrow> (''timeout'', ''tool invocation timed out'')
    | ErrInvalidArgument \<Rightarrow> (''invalid_argument'', ''invalid tool arguments'')
    | ErrUnknownTool \<Rightarrow> (''unknown_tool'', ''unknown tool'')
    | ErrInvalidTool \<Rightarrow> (''invalid_tool'', ''invalid tool'')
    | ErrToolRequiresApproval \<Rightarrow> (''approval_required'', ''tool approval required'')
    | ExecutableNotFound \<Rightarrow> (''command_failed'', ''command executable not found'')
    | ErrCommandFailed \<Rightarrow> (''command_failed'', ''command exited unsuccessfully'')
    | ErrPathOutsideRoot \<Rightarrow> (''path_outside_workspace'', ''path outside workspace'')
    | ErrOldTextNotFound \<Rightarrow> (''old_text_not_found'', ''old text not found'')
    | ErrOldTextNotUnique \<Rightarrow> (''old_text_not_unique'', ''old text occurs more than once'')
    | ErrInvalidPatch \<Rightarrow> (''invalid_patch'', ''patch is invalid or could not be applied'')
    | ErrPatchUnsupported \<Rightarrow> (''patch_unsupported'', ''patch delegation is not supported'')
    | ErrInvalidFile \<Rightarrow> (''invalid_file'', ''invalid file'')
    | ErrInvalidRoot \<Rightarrow> (''invalid_workspace'', ''invalid workspace'')
    | _ \<Rightarrow> (''tool_error'', ''tool failed''))"

section \<open>Calls, requests and results\<close>

record tool_reference =
  tf_provider :: string
  tf_registration :: string
  tf_generation :: string
  tf_name :: string
  tf_revision :: string

text \<open>The call of a model as \<open>protocol.ToolInvokeEnvelope\<close>; its arguments are already raw JSON.\<close>

record tool_call =
  tc_id :: string
  tc_name :: string
  tc_args :: string
  tc_addr :: message_address
  tc_ref :: "tool_reference option"

record tool_request =
  rq_call :: string
  rq_message :: string
  rq_name :: string
  rq_args :: string
  rq_addr :: message_address
  rq_authority :: memory_authority
  rq_approved :: bool
  rq_ref :: "tool_reference option"
  rq_meta :: "(string \<times> string) list"

definition RequestFromEnvelope :: "tool_call \<Rightarrow> tool_request" where
  "RequestFromEnvelope c =
     \<lparr>rq_call = tc_id c, rq_message = [], rq_name = tc_name c, rq_args = tc_args c, rq_addr = tc_addr c,
      rq_authority = noAuthority, rq_approved = False, rq_ref = tc_ref c, rq_meta = []\<rparr>"

text \<open>The content parts that tool calls deal with, and any other part.\<close>

datatype tool_part = CallPart tool_call | ResultPart string string string bool | OtherPart string

text \<open>\<open>to_refs\<close> are the references of the metadata, \<open>to_parts\<close> and \<open>to_inject\<close> content parts.\<close>

record tool_result =
  to_call :: string
  to_name :: string
  to_payload :: string
  to_error :: bool
  to_refs :: "(string \<times> string \<times> string) list"
  to_parts :: "tool_part list"
  to_inject :: "tool_part list"

definition noResult :: tool_result where
  "noResult = \<lparr>to_call = [], to_name = [], to_payload = [], to_error = False, to_refs = [], to_parts = [], to_inject = []\<rparr>"

definition NewJSONResult :: "string \<Rightarrow> string \<Rightarrow> string \<Rightarrow> (tool_error, tool_result) result" where
  "NewJSONResult call name payload =
     (if call = [] \<or> name = [] then Inl (invalidTool ''call id and name required'')
      else Inr (noResult\<lparr>to_call := call, to_name := name,
                         to_payload := (if payload = [] then ''{}'' else payload)\<rparr>))"

datatype tool_status = ToolEventQueued | ToolEventStarted | ToolEventFinished | ToolEventAborted

text \<open>A lifecycle event; the duration and the sizes of the result are left out.\<close>

record tool_event =
  tv_status :: tool_status
  tv_call :: string
  tv_name :: string
  tv_addr :: message_address
  tv_hash :: string
  tv_bytes :: nat
  tv_approval :: string
  tv_policy :: decision_code
  tv_reason :: string
  tv_error :: bool
  tv_code :: string
  tv_message :: string

definition NewToolEvent :: "(string \<Rightarrow> string) \<Rightarrow> tool_status \<Rightarrow> tool_request \<Rightarrow> tool_event" where
  "NewToolEvent digest status q =
     \<lparr>tv_status = status, tv_call = rq_call q, tv_name = rq_name q, tv_addr = rq_addr q,
      tv_hash = digest (rq_args q), tv_bytes = length (rq_args q), tv_approval = [],
      tv_policy = DecisionUnset, tv_reason = [], tv_error = False, tv_code = [], tv_message = []\<rparr>"

definition ApplySafeError :: "tool_event \<Rightarrow> tool_error option \<Rightarrow> tool_event" where
  "ApplySafeError v e = (case e of
      None \<Rightarrow> v
    | Some x \<Rightarrow> v\<lparr>tv_code := fst (SafeToolError x), tv_message := snd (SafeToolError x)\<rparr>)"

record audit_record =
  ar_call :: string
  ar_name :: string
  ar_decision :: decision_code
  ar_reason :: string
  ar_audit :: string
  ar_hash :: string

definition NewAuditRecord :: "(string \<Rightarrow> string) \<Rightarrow> tool_request \<Rightarrow> tool_decision \<Rightarrow> audit_record" where
  "NewAuditRecord digest q d =
     \<lparr>ar_call = rq_call q, ar_name = rq_name q, ar_decision = td_code d, ar_reason = td_reason d,
      ar_audit = td_audit d, ar_hash = digest (rq_args q)\<rparr>"

section \<open>The history\<close>

text \<open>The hints of a descriptor, the verdict of a hook and of an authorizer, as their packages have them.\<close>

datatype trust_level = TrustDefault | TrustRequiresApproval | TrustPreAuthorized | TrustRequiresFreshApproval

datatype concurrency_class = ConcurrencyUnspecified | ConcurrencySequential | ConcurrencyParallelSafe

record hook_decision =
  hd_allow :: bool
  hd_reason :: string

datatype authz_outcome = Abstain | Allow | Deny | Prompt

record authz_decision =
  az_outcome :: authz_outcome
  az_reason :: string
  az_scope :: string

record authz_input =
  ai_call :: tool_call
  ai_addr :: message_address
  ai_trust :: trust_level
  ai_provider :: string

datatype approval_status = ApprovalPending | ApprovalApproved | ApprovalDenied | ApprovalExpired

text \<open>The body of a tool: the handler registered for it, the delegate of the turn, or a provider.\<close>

datatype body = Handler nat | Delegate | Provider string

text \<open>\<open>NoAnswer\<close> is an error of \<open>Await\<close>: the context ended first.\<close>

datatype reply = Answer decision | NoAnswer

text \<open>
  A message appended to the history of the session: the assistant's with its content, the result
  of a call, or a user's.
\<close>

datatype saved = SavedAssistant string "tool_part list" | SavedResult string "tool_part list" | SavedUser "tool_part list"

text \<open>
  One meeting of the turn with its surroundings, with the answer where there is one. \<open>Refused\<close>
  is an operation that reported an error.
\<close>

datatype event =
    HookAsked tool_call hook_decision
  | SafetyAsked authz_input authz_decision
  | PolicyAsked tool_request tool_decision
  | GrantLookup string string "bool option"
  | GrantStored string string
  | Audited audit_record
  | ApprovalShown string string "string list" approval_status string
  | Awaited string string reply
  | CatalogResolved tool_reference
  | BodyRun body tool_request
  | SinkEvent tool_event
  | Published tool_event
  | Observed string string
  | ModelPending nat
  | ModelAsked nat
  | AssistantKept string
  | Checkpointed "string list"
  | Confirmed string
  | Streamed tool_part
  | Saved saved
  | Refused event

text \<open>
  The world: the grants held in memory, the flags of the prepared invocations, the history.
\<close>

record world =
  wo_granted :: "string set"
  wo_used :: "bool list"
  wo_events :: "event list"

definition emit :: "event \<Rightarrow> world \<Rightarrow> world" where
  "emit e w = w\<lparr>wo_events := wo_events w @ [e]\<rparr>"

lemma emit_simps [simp]:
  "wo_events (emit e w) = wo_events w @ [e]" "wo_granted (emit e w) = wo_granted w" "wo_used (emit e w) = wo_used w"
  by (simp_all add: emit_def)

text \<open>
  The surroundings. \<open>ou_fault\<close> says whether an operation fails at a point of the history, the
  other fields answer the question of their name: \<open>ou_ended\<close> is the error of a context that has
  ended, \<open>ou_steered\<close> the ids of the messages drained from the steering inbox with the message that
  \<open>Deliver\<close> makes of each, \<open>ou_model\<close> the assistant message of a model call, \<open>ou_digest\<close> the hexadecimal SHA-256, \<open>ou_error_json\<close> the object \<open>{"error": ...}\<close>.
\<close>

record outside =
  ou_digest :: "string \<Rightarrow> string"
  ou_error_json :: "string \<Rightarrow> string"
  ou_fault :: "event list \<Rightarrow> event \<Rightarrow> tool_error option"
  ou_body :: "event list \<Rightarrow> body \<Rightarrow> tool_request \<Rightarrow> tool_result \<times> tool_error option"
  ou_granted :: "event list \<Rightarrow> string \<Rightarrow> string \<Rightarrow> bool option"
  ou_await :: "event list \<Rightarrow> string \<Rightarrow> string \<Rightarrow> reply"
  ou_ended :: "event list \<Rightarrow> tool_error option"
  ou_steered :: "event list \<Rightarrow> (string \<times> (tool_error, tool_part list) result) list"
  ou_model :: "event list \<Rightarrow> (tool_error, string \<times> tool_part list) result"
  ou_resolve :: "event list \<Rightarrow> tool_reference \<Rightarrow> (tool_error, string \<times> (string \<times> string) list) result"

text \<open>An operation that may fail: it enters the history, as \<open>Refused\<close> with the error it reports.\<close>

definition attempt :: "outside \<Rightarrow> event \<Rightarrow> world \<Rightarrow> tool_error option \<times> world" where
  "attempt ou e w = (case ou_fault ou (wo_events w) e of
      None \<Rightarrow> (None, emit e w)
    | Some x \<Rightarrow> (Some x, emit (Refused e) w))"

section \<open>Policies\<close>

text \<open>
  The policies of the package, and any other one; \<open>None\<close> is a nil policy, table or lookup. A
  lookup answers \<open>None\<close> for a tool without a declared effect.
\<close>

datatype policy =
    StaticPolicy "(string \<times> string) list option"
  | ReadOnlyAutoApprove "policy option" "(string \<Rightarrow> string option) option"
  | DynamicPolicy "policy option"
  | OtherPolicy "event list \<Rightarrow> tool_request \<Rightarrow> tool_decision"

definition ToolEffectRead :: string where "ToolEffectRead = ''read''"

definition allowed :: "tool_decision \<Rightarrow> bool" where
  "allowed d \<longleftrightarrow> td_code d = DecisionAllow"

definition notPreAuthorized :: tool_decision where
  "notPreAuthorized = \<lparr>td_code = DecisionRequiresApproval, td_reason = ''tool is not pre-authorized'',
     td_audit = ''tool.approval_required''\<rparr>"

definition grantKey :: "string \<Rightarrow> string \<Rightarrow> string" where
  "grantKey workspace tool = workspace @ [CHR 0x00] @ tool"

fun decide :: "policy \<Rightarrow> world \<Rightarrow> tool_request \<Rightarrow> tool_decision" where
  "decide (StaticPolicy table) w q = (case table of
      None \<Rightarrow> notPreAuthorized
    | Some t \<Rightarrow> (case map_of t (rq_name q) of
          Some reason \<Rightarrow> \<lparr>td_code = DecisionAllow, td_reason = reason, td_audit = ''tool.allow''\<rparr>
        | None \<Rightarrow> notPreAuthorized))"
| "decide (ReadOnlyAutoApprove base effect) w q =
     (if (case effect of None \<Rightarrow> False | Some f \<Rightarrow> f (rq_name q) = Some ToolEffectRead)
      then \<lparr>td_code = DecisionAllow, td_reason = ''read-only tool'', td_audit = ''tool.read_only''\<rparr>
      else case base of None \<Rightarrow> notPreAuthorized | Some p \<Rightarrow> decide p w q)"
| "decide (DynamicPolicy base) w q =
     (case (case base of None \<Rightarrow> None
            | Some p \<Rightarrow> (let d = decide p w q in if allowed d then Some d else None)) of
        Some d \<Rightarrow> d
      | None \<Rightarrow>
          (if grantKey (ma_workspace (rq_addr q)) (rq_name q) \<in> wo_granted w
           then \<lparr>td_code = DecisionAllow, td_reason = ''approved by user (granted)'', td_audit = ''tool.user_grant''\<rparr>
           else notPreAuthorized))"
| "decide (OtherPolicy f) w q = f (wo_events w) q"

text \<open>Grants of the \<open>DynamicPolicy\<close>. \<open>store\<close> says whether it has a durable store.\<close>

definition GrantSession :: "string \<Rightarrow> string \<Rightarrow> world \<Rightarrow> world" where
  "GrantSession workspace tool w = w\<lparr>wo_granted := insert (grantKey workspace tool) (wo_granted w)\<rparr>"

definition GrantAlways :: "outside \<Rightarrow> bool \<Rightarrow> string \<Rightarrow> string \<Rightarrow> world \<Rightarrow> tool_error option \<times> world" where
  "GrantAlways ou store workspace tool w =
     (let w = GrantSession workspace tool w in
      if store then attempt ou (GrantStored workspace tool) w else (None, w))"

text \<open>\<open>Hydrate\<close> reads the grants of a workspace; \<open>Inl\<close> is the error of the store.\<close>

definition Hydrate :: "(tool_error, string list) result option \<Rightarrow> string \<Rightarrow> world \<Rightarrow> tool_error option \<times> world" where
  "Hydrate listed workspace w = (case listed of
      None \<Rightarrow> (None, w)
    | Some (Inl e) \<Rightarrow> (Some e, w)
    | Some (Inr tools) \<Rightarrow> (None, w\<lparr>wo_granted := wo_granted w \<union> grantKey workspace ` set tools\<rparr>))"

definition policyError :: "tool_decision \<Rightarrow> string \<Rightarrow> tool_error" where
  "policyError d name =
     \<lparr>te_is = ErrToolRequiresApproval, te_text = ''tools: approval required: '' @ name @ '': '' @ td_reason d\<rparr>"

section \<open>The selected execution view\<close>

datatype view_access = ViewReadOnly | ViewReadWrite | ViewOther string

text \<open>
  What the context of a turn carries: the ceiling of \<open>WithViewWriteAccess\<close>, the write access of
  an execution scope, whether a delegate handles a tool, the ids and the authority for requests,
  the tools that are excluded, and whether a part emitter is there.
\<close>

record turn_context =
  cx_access :: "view_access option"
  cx_scope :: "view_access option"
  cx_delegate :: "(string \<Rightarrow> bool) option"
  cx_message :: "string option"
  cx_authority :: "memory_authority option"
  cx_excluded :: "string list"
  cx_emitter :: bool

definition ViewMutatingTool :: "string \<Rightarrow> bool" where
  "ViewMutatingTool name \<longleftrightarrow> name \<in> {''write_file'', ''edit_file'', ''apply_patch'', ''shell'', ''python''}"

definition WithViewWriteAccess :: "view_access \<Rightarrow> turn_context \<Rightarrow> turn_context" where
  "WithViewWriteAccess a cx = (case a of
      ViewReadOnly \<Rightarrow> cx\<lparr>cx_access := Some a\<rparr>
    | ViewReadWrite \<Rightarrow> cx\<lparr>cx_access := Some a\<rparr>
    | ViewOther _ \<Rightarrow> cx)"

definition readOnlyView :: "turn_context \<Rightarrow> bool" where
  "readOnlyView cx \<longleftrightarrow> cx_access cx = Some ViewReadOnly \<or> cx_scope cx = Some ViewReadOnly"

definition authorizeExecutionScope :: "turn_context \<Rightarrow> tool_request \<Rightarrow> tool_error option" where
  "authorizeExecutionScope cx q =
     (if \<not> readOnlyView cx \<or> \<not> ViewMutatingTool (rq_name q) then None
      else Some (errorf (''workspace execution view is read-only: tool '' @ [CHR 0x22] @ rq_name q @ [CHR 0x22] @ '' requires write admission'')))"

end
