(* ===== verification/ToolHooks.thy ===== *)
theory ToolHooks
  imports ToolPolicy
begin

text \<open>
  The gates before a tool call (\<open>pkg/hooks/hooks.go\<close>, \<open>executor.go\<close> and \<open>runtime.go\<close>):
  approvers in order with the first denial winning, the list of the tools a turn permits, and
  the command hooks, which are run until one blocks. The process of a command hook is a
  parameter.
\<close>

section \<open>Approvers\<close>

definition hookAllow :: hook_decision where
  "hookAllow = \<lparr>hd_allow = True, hd_reason = []\<rparr>"

definition hookDeny :: "string \<Rightarrow> hook_decision" where
  "hookDeny reason = \<lparr>hd_allow = False, hd_reason = reason\<rparr>"

text \<open>\<open>None\<close> is a nil approver in the list.\<close>

type_synonym approver = "event list \<Rightarrow> tool_call \<Rightarrow> hook_decision"

fun hookApprove :: "approver option list \<Rightarrow> tool_call \<Rightarrow> world \<Rightarrow> hook_decision \<times> world" where
  "hookApprove [] call w = (hookAllow, w)"
| "hookApprove (None # as) call w = hookApprove as call w"
| "hookApprove (Some a # as) call w =
     (let d = a (wo_events w) call; w = emit (HookAsked call d) w in
      if hd_allow d then hookApprove as call w else (d, w))"

text \<open>\<open>names\<close> is the table of the list, empty for no restriction.\<close>

record allow_list =
  al_names :: "string list"
  al_reason :: string

definition NewAllowList :: "string list \<Rightarrow> string \<Rightarrow> allow_list" where
  "NewAllowList names reason =
     (if names = [] then \<lparr>al_names = [], al_reason = []\<rparr>
      else \<lparr>al_names = filter (\<lambda>n. n \<noteq> []) names, al_reason = reason\<rparr>)"

definition allowListApprove :: "allow_list option \<Rightarrow> approver" where
  "allowListApprove a h call = (case a of
      None \<Rightarrow> hookAllow
    | Some l \<Rightarrow>
        (if al_names l = [] then hookAllow
         else if tc_name call \<in> set (al_names l) then hookAllow
         else hookDeny (if al_reason l = [] then ''tool not permitted for this turn'' else al_reason l)))"

section \<open>Command hooks\<close>

datatype hook_event =
    EventPreToolUse | EventPostToolUse | EventPostToolUseFailure | EventToolLifecycle | EventOther string

record command_hook =
  ch_name :: string
  ch_event :: hook_event
  ch_command :: "string list"
  ch_timeout :: int

record hook_output =
  ho_decision :: string
  ho_reason :: string

record hook_result =
  hr_name :: string
  hr_event :: hook_event
  hr_exit :: int
  hr_stdout :: string
  hr_stderr :: string
  hr_blocked :: bool
  hr_reason :: string
  hr_skipped :: bool

datatype hook_error = ErrInvalidHookCommand | ErrHookTimeout | ErrMalformedHookOutput | HookFailed string

text \<open>
  What the system reports of the process of a hook that may run for the given time: an exit with
  its code and outputs, the end of its context, or a failure to start.
\<close>

datatype process = Exited int string string | TimedOut | Ended string | NotRun string

text \<open>\<open>parse\<close> decodes the JSON of a hook's output.\<close>

record hook_env =
  he_default :: int
  he_process :: "command_hook \<Rightarrow> int \<Rightarrow> process"
  he_parse :: "string \<Rightarrow> hook_output option"

definition defaultHookTimeout :: int where "defaultHookTimeout = 60 * 1000000000"

definition hookTimeout :: "int \<Rightarrow> int \<Rightarrow> int" where
  "hookTimeout d h = (if h > 0 then h else if d > 0 then d else defaultHookTimeout)"

definition matchingHooks :: "hook_event \<Rightarrow> command_hook list \<Rightarrow> command_hook list" where
  "matchingHooks event hooks = filter (\<lambda>h. ch_event h = event) hooks"

definition parseHookOutput :: "hook_env \<Rightarrow> string \<Rightarrow> (hook_error, hook_output) result" where
  "parseHookOutput he stdout =
     (if trim_space stdout = [] then Inr \<lparr>ho_decision = [], ho_reason = []\<rparr>
      else case he_parse he (trim_space stdout) of
        None \<Rightarrow> Inl ErrMalformedHookOutput
      | Some out \<Rightarrow> Inr out)"

definition blockReason :: "hook_output \<Rightarrow> string \<Rightarrow> string \<Rightarrow> string" where
  "blockReason out stderr stdout =
     (if ho_reason out \<noteq> [] then ho_reason out
      else if trim_space stderr \<noteq> [] then trim_space stderr
      else if trim_space stdout \<noteq> [] then trim_space stdout
      else ''blocked by hook'')"

definition commandResult ::
  "hook_env \<Rightarrow> hook_event \<Rightarrow> command_hook \<Rightarrow> int \<Rightarrow> string \<Rightarrow> string \<Rightarrow> (hook_error, hook_result) result" where
  "commandResult he event hook code stdout stderr =
     and_then (parseHookOutput he stdout) (\<lambda>out.
       let blocked = (code = 2 \<or> ho_decision out = ''deny'') in
       Inr \<lparr>hr_name = ch_name hook, hr_event = event, hr_exit = code, hr_stdout = stdout, hr_stderr = stderr,
            hr_blocked = blocked, hr_reason = (if blocked then blockReason out stderr stdout else []),
            hr_skipped = False\<rparr>)"

definition runCommandHook :: "hook_env \<Rightarrow> hook_event \<Rightarrow> command_hook \<Rightarrow> (hook_error, hook_result) result" where
  "runCommandHook he event hook =
     (if ch_command hook = [] \<or> hd (ch_command hook) = [] then Inl ErrInvalidHookCommand
      else case he_process he hook (hookTimeout (he_default he) (ch_timeout hook)) of
        TimedOut \<Rightarrow> Inl ErrHookTimeout
      | Ended e \<Rightarrow> Inl (HookFailed e)
      | NotRun e \<Rightarrow> Inl (HookFailed e)
      | Exited code stdout stderr \<Rightarrow> commandResult he event hook code stdout stderr)"

text \<open>The loop of \<open>Dispatch\<close>: the results so far, and the error that ended it.\<close>

fun dispatchLoop :: "hook_env \<Rightarrow> hook_event \<Rightarrow> command_hook list \<Rightarrow> hook_result list \<times> hook_error option" where
  "dispatchLoop he event [] = ([], None)"
| "dispatchLoop he event (h # hs) =
     (case runCommandHook he event h of
        Inl e \<Rightarrow> ([], Some e)
      | Inr r \<Rightarrow>
          (if hr_blocked r then ([r], None)
           else let (rs, e) = dispatchLoop he event hs in (r # rs, e)))"

definition skippedResults :: "hook_event \<Rightarrow> command_hook list \<Rightarrow> hook_result list" where
  "skippedResults event hooks =
     map (\<lambda>h. \<lparr>hr_name = ch_name h, hr_event = event, hr_exit = 0, hr_stdout = [], hr_stderr = [],
               hr_blocked = False, hr_reason = [], hr_skipped = True\<rparr>) hooks"

text \<open>\<open>ended\<close> is the error of a context that has ended, \<open>guarded\<close> the recursion guard.\<close>

definition dispatchHooks ::
  "hook_env \<Rightarrow> string option \<Rightarrow> bool \<Rightarrow> hook_event \<Rightarrow> command_hook list \<Rightarrow> hook_result list \<times> hook_error option" where
  "dispatchHooks he ended guarded event hooks = (case ended of
      Some e \<Rightarrow> ([], Some (HookFailed e))
    | None \<Rightarrow>
        (if guarded then (skippedResults event (matchingHooks event hooks), None)
         else dispatchLoop he event (matchingHooks event hooks)))"

definition hookErrorText :: "hook_error \<Rightarrow> string" where
  "hookErrorText e = (case e of
      ErrInvalidHookCommand \<Rightarrow> ''hooks: invalid command hook''
    | ErrHookTimeout \<Rightarrow> ''hooks: command hook timed out''
    | ErrMalformedHookOutput \<Rightarrow> ''hooks: malformed hook JSON output''
    | HookFailed t \<Rightarrow> t)"

text \<open>\<open>Runtime.ApproveTool\<close>; \<open>None\<close> is a nil runtime.\<close>

definition runtimeApprove ::
  "hook_env \<Rightarrow> string option \<Rightarrow> bool \<Rightarrow> command_hook list option \<Rightarrow> hook_decision" where
  "runtimeApprove he ended guarded runtime = (case runtime of
      None \<Rightarrow> hookAllow
    | Some hooks \<Rightarrow>
        (if guarded then hookAllow
         else case dispatchHooks he ended guarded EventPreToolUse hooks of
           (results, Some e) \<Rightarrow> hookDeny (hookErrorText e)
         | (results, None) \<Rightarrow>
             (case find hr_blocked results of
                Some r \<Rightarrow> hookDeny (hr_reason r)
              | None \<Rightarrow> hookAllow)))"

section \<open>What the gates guarantee\<close>

text \<open>
  The verdicts \<open>ds\<close> of the \<open>n\<close> approvers that are there settle on \<open>d\<close>: all of them were asked and
  allow, or they were asked up to the first denial, which is \<open>d\<close>.
\<close>

definition settled :: "nat \<Rightarrow> hook_decision \<Rightarrow> hook_decision list \<Rightarrow> bool" where
  "settled n d ds \<longleftrightarrow>
     (if hd_allow d then length ds = n \<and> list_all hd_allow ds
      else length ds \<le> n \<and> ds \<noteq> [] \<and> last ds = d \<and> list_all hd_allow (butlast ds))"

definition present :: "'a option list \<Rightarrow> nat" where
  "present as = length (filter (\<lambda>a. a \<noteq> None) as)"

lemma present_simps [simp]: "present [] = 0" "present (None # as) = present as" "present (Some a # as) = Suc (present as)"
  by (simp_all add: present_def)

lemma settled_Cons: "hd_allow x \<Longrightarrow> settled n d ds \<Longrightarrow> settled (Suc n) d (x # ds)"
  by (simp add: settled_def split: if_splits)

text \<open>A step that only adds events to the history.\<close>

definition adds :: "world \<Rightarrow> world \<Rightarrow> event list \<Rightarrow> bool" where
  "adds w w' seg \<longleftrightarrow> wo_events w' = wo_events w @ seg"

lemma adds_refl [simp]: "adds w w seg \<longleftrightarrow> seg = []"
  by (simp add: adds_def)

lemma adds_emit [simp]: "adds w (emit e w) seg \<longleftrightarrow> seg = [e]"
  by (auto simp: adds_def)

lemma adds_trans: "adds w w1 xs \<Longrightarrow> adds w1 w2 ys \<Longrightarrow> adds w w2 (xs @ ys)"
  by (simp add: adds_def)

lemma hookApprove_settled:
  "hookApprove as call w = (d, w') \<Longrightarrow>
   \<exists>ds. adds w w' (map (HookAsked call) ds) \<and> settled (present as) d ds"
proof (induction as call w arbitrary: d w' rule: hookApprove.induct)
  case (1 call w)
  then show ?case by (auto simp: hookAllow_def settled_def)
next
  case (2 as call w)
  then show ?case by simp
next
  case (3 a as call w)
  let ?d = "a (wo_events w) call"
  let ?w = "emit (HookAsked call ?d) w"
  show ?case
  proof (cases "hd_allow ?d")
    case True
    with "3.prems" have "hookApprove as call ?w = (d, w')" by (simp add: Let_def)
    from "3.IH" [OF refl refl True this] obtain ds
      where ds: "adds ?w w' (map (HookAsked call) ds)" "settled (present as) d ds" by blast
    have "adds w w' (map (HookAsked call) (?d # ds))"
      using adds_trans [of w ?w "[HookAsked call ?d]", OF _ ds(1)] by simp
    with settled_Cons [OF True ds(2)] show ?thesis by (intro exI [of _ "?d # ds"]) simp
  next
    case False
    with "3.prems" have "(?d, ?w) = (d, w')" by (simp only: hookApprove.simps Let_def if_False)
    then have "d = ?d" "w' = ?w" by (blast dest: prod.inject [THEN iffD1])+
    with False show ?thesis by (intro exI [of _ "[?d]"]) (simp add: settled_def)
  qed
qed

lemma hookApprove_keeps:
  "wo_granted (snd (hookApprove as call w)) = wo_granted w \<and> wo_used (snd (hookApprove as call w)) = wo_used w"
  by (induction as call w rule: hookApprove.induct) (simp_all add: Let_def)

text \<open>
  The command hooks fail closed: a call passes only when every hook for it was run to an exit
  that does not block.
\<close>

definition hookPasses :: "hook_env \<Rightarrow> command_hook \<Rightarrow> bool" where
  "hookPasses he h =
     (case runCommandHook he EventPreToolUse h of Inl e \<Rightarrow> False | Inr r \<Rightarrow> \<not> hr_blocked r)"

lemma dispatchLoop_passes:
  "(case dispatchLoop he EventPreToolUse hs of
      (rs, Some e) \<Rightarrow> False | (rs, None) \<Rightarrow> find hr_blocked rs = None) \<longleftrightarrow> list_all (hookPasses he) hs"
  by (induction hs) (auto simp: hookPasses_def split: sum.splits prod.splits option.splits)


text \<open>A list whose names are all empty permits every tool, as an empty list does.\<close>

lemma blank_names_permit_all:
  "hd_allow (allowListApprove (Some (NewAllowList [[], []] reason)) h call)"
  by (simp add: allowListApprove_def NewAllowList_def hookAllow_def)

lemma allow_list_restricts:
  "hd_allow (allowListApprove (Some (NewAllowList names reason)) h call) \<longleftrightarrow>
     tc_name call \<in> set names - {[]} \<or> set names \<subseteq> {[]}"
  by (auto simp: allowListApprove_def NewAllowList_def hookAllow_def hookDeny_def filter_empty_conv)

end
