(* ===== verification/ToolRegistry.thy ===== *)
theory ToolRegistry
  imports ToolHooks
begin

text \<open>
  The registry of the local tools (\<open>pkg/tools/registry.go\<close> and \<open>descriptor.go\<close>): exclusion and
  registration of handlers, their descriptors, the admission of a request (policy, audit, the
  ceiling of the execution view) and the prepared invocation, which runs once.
\<close>

section \<open>Descriptors and the registry\<close>

record descriptor =
  ds_name :: string
  ds_description :: string
  ds_parameters :: string
  ds_kind :: string
  ds_meta :: "(string \<times> string) list"
  ds_effect :: string
  ds_trust :: trust_level
  ds_concurrency :: concurrency_class

definition nameOnly :: "string \<Rightarrow> descriptor" where
  "nameOnly name = \<lparr>ds_name = name, ds_description = [], ds_parameters = [], ds_kind = [], ds_meta = [],
     ds_effect = [], ds_trust = TrustDefault, ds_concurrency = ConcurrencyUnspecified\<rparr>"

text \<open>A handler is a number: what its body does is the parameter \<open>ou_body\<close>.\<close>

record registry =
  rg_handlers :: "(string \<times> nat) list"
  rg_descriptors :: "(string \<times> descriptor) list"
  rg_excluded :: "string list"
  rg_policy :: "policy option"
  rg_audit :: bool
  rg_events :: bool

definition NewRegistry :: registry where
  "NewRegistry = \<lparr>rg_handlers = [], rg_descriptors = [], rg_excluded = [], rg_policy = None,
     rg_audit = False, rg_events = False\<rparr>"

definition NewAuditedRegistry :: "policy option \<Rightarrow> bool \<Rightarrow> registry" where
  "NewAuditedRegistry p audit = NewRegistry\<lparr>rg_policy := p, rg_audit := audit\<rparr>"

definition SetPolicy :: "policy option \<Rightarrow> bool \<Rightarrow> registry \<Rightarrow> registry" where
  "SetPolicy p audit r = r\<lparr>rg_policy := p, rg_audit := audit\<rparr>"

definition SetEventSink :: "bool \<Rightarrow> registry \<Rightarrow> registry" where
  "SetEventSink sink r = r\<lparr>rg_events := sink\<rparr>"

definition SetExcluded :: "string list \<Rightarrow> registry \<Rightarrow> registry" where
  "SetExcluded names r =
     r\<lparr>rg_excluded := filter (\<lambda>n. n \<noteq> []) (List.map trim_space names) @ rg_excluded r\<rparr>"

definition isExcluded :: "registry \<Rightarrow> string \<Rightarrow> bool" where
  "isExcluded r name \<longleftrightarrow> name \<in> set (rg_excluded r)"

text \<open>\<open>None\<close> is a nil handler.\<close>

definition Register :: "string \<Rightarrow> nat option \<Rightarrow> registry \<Rightarrow> (tool_error, registry) result" where
  "Register name handler r = (case handler of
      None \<Rightarrow> Inl (invalidTool ''name and handler required'')
    | Some h \<Rightarrow>
        (if name = [] then Inl (invalidTool ''name and handler required'')
         else if isExcluded r name then Inr r
         else if map_of (rg_handlers r) name \<noteq> None
         then Inl \<lparr>te_is = ErrToolExists, te_text = ''tools: already registered: '' @ name\<rparr>
         else Inr (r\<lparr>rg_handlers := AList.update name h (rg_handlers r)\<rparr>)))"

definition Override :: "string \<Rightarrow> nat option \<Rightarrow> registry \<Rightarrow> (tool_error, registry) result" where
  "Override name handler r = (case handler of
      None \<Rightarrow> Inl (invalidTool ''name and handler required'')
    | Some h \<Rightarrow>
        (if name = [] then Inl (invalidTool ''name and handler required'')
         else if isExcluded r name then Inr r
         else Inr (r\<lparr>rg_handlers := AList.update name h (rg_handlers r)\<rparr>)))"

definition Describe :: "descriptor \<Rightarrow> registry \<Rightarrow> registry" where
  "Describe d r =
     (if ds_name d = [] \<or> isExcluded r (ds_name d) then r
      else r\<lparr>rg_descriptors := AList.update (ds_name d) d (rg_descriptors r)\<rparr>)"

definition EffectOf :: "registry \<Rightarrow> string \<Rightarrow> string option" where
  "EffectOf r name = (case map_of (rg_descriptors r) name of
      None \<Rightarrow> None
    | Some d \<Rightarrow> if ds_effect d = [] then None else Some (ds_effect d))"

definition Descriptors :: "registry \<Rightarrow> descriptor list" where
  "Descriptors r = sort_key ds_name
     (List.map (\<lambda>(name, h). case map_of (rg_descriptors r) name of Some d \<Rightarrow> d | None \<Rightarrow> nameOnly name)
        (rg_handlers r))"

definition Names :: "registry \<Rightarrow> string list" where
  "Names r = sort (List.map fst (rg_handlers r))"

section \<open>Admission and execution\<close>

definition noDecision :: tool_decision where
  "noDecision = \<lparr>td_code = DecisionUnset, td_reason = [], td_audit = []\<rparr>"

definition userApproved :: tool_decision where
  "userApproved = \<lparr>td_code = DecisionAllow, td_reason = ''approved by user'', td_audit = ''tool.user_approved''\<rparr>"

definition auditDecision :: "outside \<Rightarrow> registry \<Rightarrow> tool_request \<Rightarrow> tool_decision \<Rightarrow> world \<Rightarrow> tool_error option \<times> world" where
  "auditDecision ou r q d w =
     (if rg_audit r then attempt ou (Audited (NewAuditRecord (ou_digest ou) q d)) w else (None, w))"

text \<open>The decision of the registry, if it has a policy, and the error that refuses the request.\<close>

definition authorizeRequest ::
  "outside \<Rightarrow> registry \<Rightarrow> tool_request \<Rightarrow> world \<Rightarrow> (tool_decision option \<times> tool_error option) \<times> world" where
  "authorizeRequest ou r q w = (case rg_policy r of
      None \<Rightarrow> ((None, None), w)
    | Some p \<Rightarrow>
        (let (d, w1) = (if rq_approved q then (userApproved, w)
                        else (decide p w q, emit (PolicyAsked q (decide p w q)) w));
             (failed, w2) = auditDecision ou r q d w1 in
         case failed of
           Some e \<Rightarrow> ((Some d, Some (wrap ''record tool audit'' e)), w2)
         | None \<Rightarrow> ((Some d, if allowed d then None else Some (policyError d (rq_name q))), w2)))"

text \<open>
  An invocation that was admitted; the zero value has no registry, handler or flag. The flag is
  shared by the copies of the value, so the world holds it.
\<close>

record prepared =
  pi_registry :: "registry option"
  pi_request :: tool_request
  pi_handler :: "nat option"
  pi_decision :: "tool_decision option"
  pi_used :: "nat option"

record preparation_error =
  pe_error :: tool_error
  pe_decision :: "tool_decision option"

definition Prepare ::
  "outside \<Rightarrow> turn_context \<Rightarrow> registry \<Rightarrow> tool_request \<Rightarrow> world \<Rightarrow> (preparation_error, prepared) result \<times> world" where
  "Prepare ou cx r q w = (case map_of (rg_handlers r) (rq_name q) of
      None \<Rightarrow> (Inl \<lparr>pe_error = \<lparr>te_is = ErrUnknownTool, te_text = ''tools: unknown tool: '' @ rq_name q\<rparr>,
                    pe_decision = None\<rparr>, w)
    | Some h \<Rightarrow>
        (case authorizeRequest ou r q w of
           ((d, Some e), w1) \<Rightarrow> (Inl \<lparr>pe_error = e, pe_decision = d\<rparr>, w1)
         | ((d, None), w1) \<Rightarrow>
             (case authorizeExecutionScope cx q of
                Some e \<Rightarrow> (Inl \<lparr>pe_error = e, pe_decision = None\<rparr>, w1)
              | None \<Rightarrow>
                  (Inr \<lparr>pi_registry = Some r, pi_request = q, pi_handler = Some h, pi_decision = d,
                        pi_used = Some (length (wo_used w1))\<rparr>,
                   w1\<lparr>wo_used := wo_used w1 @ [False]\<rparr>))))"

definition emitToolEvent :: "registry \<Rightarrow> tool_event \<Rightarrow> world \<Rightarrow> world" where
  "emitToolEvent r v w = (if rg_events r then emit (SinkEvent v) w else w)"

definition finishedToolEvent :: "outside \<Rightarrow> tool_request \<Rightarrow> tool_result \<Rightarrow> tool_error option \<Rightarrow> tool_event" where
  "finishedToolEvent ou q res e =
     ApplySafeError ((NewToolEvent (ou_digest ou) ToolEventFinished q)\<lparr>tv_error := to_error res \<or> e \<noteq> None\<rparr>) e"

definition withPolicy :: "tool_decision option \<Rightarrow> tool_event \<Rightarrow> tool_event" where
  "withPolicy d v = (case d of None \<Rightarrow> v | Some x \<Rightarrow> v\<lparr>tv_policy := td_code x, tv_reason := td_reason x\<rparr>)"

text \<open>The body that answers a request: the delegate of the turn where it handles the tool.\<close>

definition bodyOf :: "turn_context \<Rightarrow> nat \<Rightarrow> tool_request \<Rightarrow> body" where
  "bodyOf cx h q = (case cx_delegate cx of
      Some handles \<Rightarrow> if handles (rq_name q) then Delegate else Handler h
    | None \<Rightarrow> Handler h)"

definition runBody :: "outside \<Rightarrow> body \<Rightarrow> tool_request \<Rightarrow> world \<Rightarrow> (tool_result \<times> tool_error option) \<times> world" where
  "runBody ou b q w = (ou_body ou (wo_events w) b q, emit (BodyRun b q) w)"

definition InvokePrepared ::
  "outside \<Rightarrow> turn_context \<Rightarrow> prepared \<Rightarrow> world \<Rightarrow> (tool_result \<times> tool_error option) \<times> world" where
  "InvokePrepared ou cx p w = (case (pi_registry p, pi_handler p, pi_used p) of
      (Some r, Some h, Some u) \<Rightarrow>
        (if wo_used w ! u then ((noResult, Some (invalidTool ''prepared invocation was already used'')), w)
         else
           (let q = pi_request p;
                w1 = emitToolEvent r (NewToolEvent (ou_digest ou) ToolEventStarted q)
                       (w\<lparr>wo_used := (wo_used w)[u := True]\<rparr>);
                ((res, e), w2) = runBody ou (bodyOf cx h q) q w1 in
            case e of
              Some x \<Rightarrow>
                ((res, Some (wrap (''invoke '' @ rq_name q) x)),
                 emitToolEvent r (finishedToolEvent ou q res (Some (wrap (''invoke '' @ rq_name q) x))) w2)
            | None \<Rightarrow> ((res, None), emitToolEvent r (withPolicy (pi_decision p) (finishedToolEvent ou q res None)) w2)))
    | _ \<Rightarrow> ((noResult, Some (invalidTool ''invocation was not prepared'')), w))"

definition InvokeRegistry ::
  "outside \<Rightarrow> turn_context \<Rightarrow> registry \<Rightarrow> tool_request \<Rightarrow> world \<Rightarrow> (tool_result \<times> tool_error option) \<times> world" where
  "InvokeRegistry ou cx r q w = (case Prepare ou cx r q w of
      (Inl pe, w1) \<Rightarrow>
        (let w2 = emitToolEvent r (NewToolEvent (ou_digest ou) ToolEventStarted q) w1 in
         ((noResult, Some (pe_error pe)),
          emitToolEvent r (withPolicy (pe_decision pe) (finishedToolEvent ou q noResult (Some (pe_error pe)))) w2))
    | (Inr p, w1) \<Rightarrow> InvokePrepared ou cx p w1)"

text \<open>\<open>Session.toolRequest\<close> and the four operations of the session on its registry.\<close>

definition toolRequest :: "turn_context \<Rightarrow> memory_authority \<Rightarrow> tool_call \<Rightarrow> bool \<Rightarrow> tool_request" where
  "toolRequest cx authority c approved =
     (let q = (RequestFromEnvelope c)\<lparr>rq_authority := authority, rq_approved := approved\<rparr> in
      case cx_message cx of None \<Rightarrow> q | Some m \<Rightarrow> q\<lparr>rq_message := m\<rparr>)"

definition sessionInvoke ::
  "outside \<Rightarrow> turn_context \<Rightarrow> registry \<Rightarrow> memory_authority \<Rightarrow> tool_call \<Rightarrow> bool \<Rightarrow> world \<Rightarrow>
   (tool_result \<times> tool_error option) \<times> world" where
  "sessionInvoke ou cx r authority c approved w = InvokeRegistry ou cx r (toolRequest cx authority c approved) w"

definition sessionPrepare ::
  "outside \<Rightarrow> turn_context \<Rightarrow> registry \<Rightarrow> memory_authority \<Rightarrow> tool_call \<Rightarrow> bool \<Rightarrow> world \<Rightarrow>
   (preparation_error, prepared) result \<times> world" where
  "sessionPrepare ou cx r authority c approved w = Prepare ou cx r (toolRequest cx authority c approved) w"

end
