(* ===== verification/ToolAuthz.thy ===== *)
theory ToolAuthz
  imports ToolRegistry
begin

text \<open>
  The authorization of the tool calls of a turn (\<open>pkg/turn/authz.go\<close>, \<open>tool_approval.go\<close>, the
  binding of catalog references in \<open>tool_catalog.go\<close>, and the admission of \<open>parallel_tools.go\<close>):
  grants, policy, safety and the prompt, in the order the runner asks them, for the local tools
  and for those of providers.
\<close>

section \<open>Verdicts\<close>

definition outcome :: "authz_outcome \<Rightarrow> authz_decision" where
  "outcome out = \<lparr>az_outcome = out, az_reason = [], az_scope = []\<rparr>"

definition because :: "authz_outcome \<Rightarrow> string \<Rightarrow> authz_decision" where
  "because out reason = \<lparr>az_outcome = out, az_reason = reason, az_scope = []\<rparr>"

lemma verdict_simps [simp]: "az_outcome (outcome out) = out" "az_outcome (because out r) = out"
  by (simp_all add: outcome_def because_def)

type_synonym authorizer = "authz_input \<Rightarrow> world \<Rightarrow> authz_decision \<times> world"

text \<open>\<open>resolveAuthz\<close>: the decision so far, and the authorizers still to ask (\<open>None\<close> is nil).\<close>

fun resolveFrom :: "authz_decision \<Rightarrow> authz_input \<Rightarrow> authorizer option list \<Rightarrow> world \<Rightarrow> authz_decision \<times> world" where
  "resolveFrom best i [] w = (best, w)"
| "resolveFrom best i (None # as) w = resolveFrom best i as w"
| "resolveFrom best i (Some a # as) w =
     (case a i w of (d, w1) \<Rightarrow>
        (case az_outcome d of
           Deny \<Rightarrow> (d, w1)
         | Prompt \<Rightarrow> resolveFrom d i as w1
         | Allow \<Rightarrow> resolveFrom (if az_outcome best \<noteq> Prompt then d else best) i as w1
         | Abstain \<Rightarrow> resolveFrom best i as w1))"

definition resolveAuthz :: "authz_input \<Rightarrow> authz_outcome \<Rightarrow> authorizer option list \<Rightarrow> world \<Rightarrow> authz_decision \<times> world" where
  "resolveAuthz i seed as w = resolveFrom (outcome seed) i as w"

definition trustBase :: "trust_level \<Rightarrow> authz_outcome" where
  "trustBase t = (if t = TrustRequiresApproval \<or> t = TrustRequiresFreshApproval then Prompt else Allow)"

section \<open>The runner\<close>

text \<open>
  The parts of a runner that its tool calls use. \<open>rn_granter\<close> is the \<open>DynamicPolicy\<close> that records
  grants, if there is one, and whether it has a durable store; \<open>rn_grants\<close> is the runner's own
  store of grants, \<open>rn_session\<close> the authority of its session.
\<close>

record runner =
  rn_registry :: registry
  rn_session :: memory_authority
  rn_safety :: "(event list \<Rightarrow> authz_input \<Rightarrow> authz_decision) option"
  rn_approvals :: bool
  rn_granter :: "bool option"
  rn_grants :: bool
  rn_scopes :: "string list"
  rn_policy :: "policy option"
  rn_approvers :: "approver option list"
  rn_catalog :: bool
  rn_publisher :: bool
  rn_observers :: nat
  rn_turn_observers :: nat

definition askSafety :: "runner \<Rightarrow> authz_input \<Rightarrow> world \<Rightarrow> authz_decision \<times> world" where
  "askSafety rn i w = (case rn_safety rn of
      None \<Rightarrow> (outcome Abstain, w)
    | Some f \<Rightarrow> (f (wo_events w) i, emit (SafetyAsked i (f (wo_events w) i)) w))"

definition policyVerdict :: "tool_decision \<Rightarrow> authz_decision" where
  "policyVerdict d = (case td_code d of
      DecisionAllow \<Rightarrow> because Allow (td_reason d)
    | DecisionDeny \<Rightarrow> because Deny (td_reason d)
    | DecisionRequiresApproval \<Rightarrow> because Prompt (td_reason d)
    | _ \<Rightarrow> outcome Abstain)"

definition policyAuthorizer :: "policy option \<Rightarrow> authz_input \<Rightarrow> world \<Rightarrow> authz_decision \<times> world" where
  "policyAuthorizer policy i w = (case policy of
      None \<Rightarrow> (outcome Abstain, w)
    | Some p \<Rightarrow>
        (let q = (RequestFromEnvelope (ai_call i))\<lparr>rq_addr := ai_addr i\<rparr>; d = decide p w q in
         (policyVerdict d, emit (PolicyAsked q d) w)))"

definition grantAuthorizer :: "outside \<Rightarrow> runner \<Rightarrow> authz_input \<Rightarrow> world \<Rightarrow> authz_decision \<times> world" where
  "grantAuthorizer ou rn i w =
     (if ai_trust i = TrustRequiresFreshApproval then (because Abstain ''fresh approval required'', w)
      else if ai_trust i = TrustPreAuthorized then (because Allow ''pre-authorized'', w)
      else if \<not> rn_grants rn then (outcome Abstain, w)
      else
        (let workspace = ma_workspace (ai_addr i); name = tc_name (ai_call i);
             answer = ou_granted ou (wo_events w) workspace name;
             w1 = emit (GrantLookup workspace name answer) w in
         case answer of
           Some True \<Rightarrow>
             (because Allow ''durable grant'',
              if rn_granter rn \<noteq> None then GrantSession workspace name w1 else w1)
         | _ \<Rightarrow> (outcome Abstain, w1)))"

text \<open>A part is shown only with an emitter; a failure to show it is only logged.\<close>

definition emitApproval ::
  "outside \<Rightarrow> turn_context \<Rightarrow> tool_call \<Rightarrow> string list \<Rightarrow> approval_status \<Rightarrow> string \<Rightarrow> world \<Rightarrow> world" where
  "emitApproval ou cx call scopes status reason w =
     (if cx_emitter cx then snd (attempt ou (ApprovalShown (tc_id call) (tc_name call) scopes status reason) w) else w)"

definition approvalScopesFor :: "runner \<Rightarrow> trust_level \<Rightarrow> string list" where
  "approvalScopesFor rn t =
     (if t = TrustRequiresFreshApproval then [''once'']
      else if rn_scopes rn = [] then [''once'', ''session'', ''always''] else rn_scopes rn)"

definition recordGrant :: "outside \<Rightarrow> runner \<Rightarrow> authz_input \<Rightarrow> string \<Rightarrow> world \<Rightarrow> world" where
  "recordGrant ou rn i scope w = (case rn_granter rn of
      None \<Rightarrow> w
    | Some store \<Rightarrow>
        (if ai_trust i = TrustRequiresFreshApproval then w
         else if scope = ''session'' then GrantSession (ma_workspace (ai_addr i)) (tc_name (ai_call i)) w
         else if scope = ''always'' then snd (GrantAlways ou store (ma_workspace (ai_addr i)) (tc_name (ai_call i)) w)
         else w))"

definition statusText :: "approval_status \<Rightarrow> string" where
  "statusText s = (case s of
      ApprovalPending \<Rightarrow> ''pending'' | ApprovalApproved \<Rightarrow> ''approved''
    | ApprovalDenied \<Rightarrow> ''denied'' | ApprovalExpired \<Rightarrow> ''expired'')"

definition interactiveAuthorizer ::
  "outside \<Rightarrow> turn_context \<Rightarrow> runner \<Rightarrow> authz_input \<Rightarrow> world \<Rightarrow> authz_decision \<times> world" where
  "interactiveAuthorizer ou cx rn i w =
     (let call = ai_call i; task = ma_task (ai_addr i);
          scopes = approvalScopesFor rn (ai_trust i);
          w1 = emitApproval ou cx call scopes ApprovalPending ''tool is not pre-authorized'' w;
          r = ou_await ou (wo_events w1) task (tc_id call);
          w2 = emit (Awaited task (tc_id call) r) w1 in
      if ou_ended ou (wo_events w2) \<noteq> None then (because Deny ''turn cancelled'', w2)
      else case r of
        NoAnswer \<Rightarrow>
          (because Deny (statusText ApprovalExpired), emitApproval ou cx call scopes ApprovalExpired [] w2)
      | Answer d \<Rightarrow>
          (if \<not> de_granted d
           then (because Deny (statusText ApprovalDenied), emitApproval ou cx call scopes ApprovalDenied [] w2)
           else (\<lparr>az_outcome = Allow, az_reason = [], az_scope = de_scope d\<rparr>,
                 emitApproval ou cx call scopes ApprovalApproved [] (recordGrant ou rn i (de_scope d) w2))))"

definition raise :: "authz_outcome \<Rightarrow> authz_outcome \<Rightarrow> authz_outcome" where
  "raise base verdict = (case verdict of
      Prompt \<Rightarrow> Prompt
    | Allow \<Rightarrow> if base \<noteq> Prompt then Allow else base
    | _ \<Rightarrow> base)"

definition finishAuthz ::
  "outside \<Rightarrow> turn_context \<Rightarrow> runner \<Rightarrow> authz_input \<Rightarrow> authz_outcome \<Rightarrow> world \<Rightarrow> authz_decision \<times> world" where
  "finishAuthz ou cx rn i base w =
     (case askSafety rn i w of (s, w1) \<Rightarrow>
        if az_outcome s = Deny then (s, w1)
        else if raise base (az_outcome s) = Prompt then
          (if \<not> rn_approvals rn then (because Deny ''approval required but no approval channel'', w1)
           else interactiveAuthorizer ou cx rn i w1)
        else (outcome (raise base (az_outcome s)), w1))"

definition authorizeTool ::
  "outside \<Rightarrow> turn_context \<Rightarrow> runner \<Rightarrow> authz_input \<Rightarrow> authz_outcome \<Rightarrow> world \<Rightarrow> authz_decision \<times> world" where
  "authorizeTool ou cx rn i base w =
     (case grantAuthorizer ou rn i w of (g, w1) \<Rightarrow>
        (case az_outcome g of
           Deny \<Rightarrow> (g, w1)
         | Allow \<Rightarrow> finishAuthz ou cx rn i Allow w1
         | _ \<Rightarrow> finishAuthz ou cx rn i base w1))"

definition authorizeToolProvider ::
  "outside \<Rightarrow> turn_context \<Rightarrow> runner \<Rightarrow> authz_input \<Rightarrow> authz_outcome \<Rightarrow> world \<Rightarrow> authz_decision \<times> world" where
  "authorizeToolProvider ou cx rn i base w =
     (case grantAuthorizer ou rn i w of (g, w1) \<Rightarrow>
        (case az_outcome g of
           Deny \<Rightarrow> (g, w1)
         | Allow \<Rightarrow> finishAuthz ou cx rn i Allow w1
         | _ \<Rightarrow>
             (if rn_policy rn = None then finishAuthz ou cx rn i base w1
              else case policyAuthorizer (rn_policy rn) i w1 of (d, w2) \<Rightarrow>
                if az_outcome d = Deny then (d, w2)
                else finishAuthz ou cx rn i (raise base (az_outcome d)) w2)))"

section \<open>The tools of a turn\<close>

text \<open>The table of a turn; \<open>tt_provider\<close> gives the id of the provider that surfaced a tool.\<close>

record turn_tools =
  tt_provider :: "(string \<times> string) list"
  tt_trust :: "(string \<times> trust_level) list"
  tt_concurrency :: "(string \<times> concurrency_class) list"
  tt_ref :: "(string \<times> tool_reference) list"

definition trustOf :: "turn_tools \<Rightarrow> string \<Rightarrow> trust_level" where
  "trustOf tt name = (case map_of (tt_trust tt) name of None \<Rightarrow> TrustDefault | Some t \<Rightarrow> t)"

definition concurrencyOf :: "turn_tools \<Rightarrow> string \<Rightarrow> concurrency_class" where
  "concurrencyOf tt name = (case map_of (tt_concurrency tt) name of None \<Rightarrow> ConcurrencyUnspecified | Some c \<Rightarrow> c)"

definition toolExcluded :: "turn_context \<Rightarrow> string \<Rightarrow> bool" where
  "toolExcluded cx name \<longleftrightarrow> name \<in> set (cx_excluded cx)"

definition toolReferenceKey :: "tool_reference \<Rightarrow> string" where
  "toolReferenceKey f = tf_provider f @ [CHR 0x00] @ tf_registration f @ [CHR 0x00] @ tf_generation f @ [CHR 0x00] @
     tf_name f @ [CHR 0x00] @ tf_revision f"

definition toolReferencesEqual :: "tool_reference \<Rightarrow> tool_reference \<Rightarrow> bool" where
  "toolReferencesEqual l r \<longleftrightarrow> toolReferenceKey l = toolReferenceKey r"

definition quoted :: "string \<Rightarrow> string" where
  "quoted s = [CHR 0x22] @ s @ [CHR 0x22]"

definition bindCatalogToolCall :: "tool_call \<Rightarrow> turn_tools \<Rightarrow> (tool_error, tool_call) result" where
  "bindCatalogToolCall call tt = (case map_of (tt_ref tt) (tc_name call) of
      None \<Rightarrow>
        (if map_of (tt_provider tt) (tc_name call) \<noteq> None
         then Inl (errorf (''turn: provider tool '' @ quoted (tc_name call) @ '' has no admitted catalog reference''))
         else if tc_ref call \<noteq> None
         then Inl (errorf (''turn: static tool '' @ quoted (tc_name call) @ '' cannot use a catalog reference''))
         else Inr call)
    | Some expected \<Rightarrow>
        (if (case tc_ref call of None \<Rightarrow> False | Some f \<Rightarrow> \<not> toolReferencesEqual f expected)
         then Inl (errorf (''turn: tool '' @ quoted (tc_name call) @ '' catalog reference does not match the admitted entry''))
         else Inr (call\<lparr>tc_ref := Some expected\<rparr>)))"

text \<open>The metadata of the entry that the live catalog resolves for the reference of a call.\<close>

definition resolveCatalogInvocation ::
  "outside \<Rightarrow> runner \<Rightarrow> tool_call \<Rightarrow> world \<Rightarrow> (tool_error, (string \<times> string) list) result \<times> world" where
  "resolveCatalogInvocation ou rn call w = (case tc_ref call of
      None \<Rightarrow> (Inl (errorf (''turn: provider tool '' @ quoted (tc_name call) @ '' has no live catalog reference'')), w)
    | Some f \<Rightarrow>
        (if \<not> rn_catalog rn
         then (Inl (errorf (''turn: provider tool '' @ quoted (tc_name call) @ '' has no live catalog reference'')), w)
         else case ou_resolve ou (wo_events w) f of
           Inl e \<Rightarrow> (Inl (wrap (''turn: resolve provider tool '' @ quoted (tc_name call)) e), emit (Refused (CatalogResolved f)) w)
         | Inr (name, meta) \<Rightarrow>
             (if name \<noteq> tc_name call
              then (Inl (errorf (''turn: resolved catalog entry name '' @ quoted name @ '' does not match invocation '' @
                                 quoted (tc_name call))), emit (CatalogResolved f) w)
              else (Inr meta, emit (CatalogResolved f) w))))"

definition policyErrorFor :: "string \<Rightarrow> tool_error" where
  "policyErrorFor name = \<lparr>te_is = ErrToolRequiresApproval, te_text = ''tools: approval required: '' @ name\<rparr>"

text \<open>The error of a refused call: the context's, if the turn ended, else \<open>otherwise\<close>.\<close>

definition refusal :: "outside \<Rightarrow> tool_error \<Rightarrow> world \<Rightarrow> tool_error" where
  "refusal ou otherwise w = (case ou_ended ou (wo_events w) of Some e \<Rightarrow> e | None \<Rightarrow> otherwise)"

definition providerRequest :: "turn_context \<Rightarrow> tool_call \<Rightarrow> (string \<times> string) list \<Rightarrow> tool_request" where
  "providerRequest cx call meta =
     (let q = (RequestFromEnvelope call)\<lparr>rq_meta := meta\<rparr>;
          q = (case cx_authority cx of None \<Rightarrow> q | Some a \<Rightarrow> q\<lparr>rq_authority := a\<rparr>) in
      case cx_message cx of None \<Rightarrow> q | Some m \<Rightarrow> q\<lparr>rq_message := m\<rparr>)"

section \<open>Sequential invocation\<close>

definition approveToolCall :: "runner \<Rightarrow> approver option list \<Rightarrow> tool_call \<Rightarrow> world \<Rightarrow> hook_decision \<times> world" where
  "approveToolCall rn perTurn call w =
     (case hookApprove perTurn call w of (d, w1) \<Rightarrow>
        if \<not> hd_allow d then (d, w1) else hookApprove (rn_approvers rn) call w1)"

definition invokeToolProvider ::
  "outside \<Rightarrow> turn_context \<Rightarrow> runner \<Rightarrow> string \<Rightarrow> message_address \<Rightarrow> tool_call \<Rightarrow> trust_level \<Rightarrow>
   (string \<times> string) list \<Rightarrow> world \<Rightarrow> (tool_result \<times> tool_error option) \<times> world" where
  "invokeToolProvider ou cx rn provider addr call trust meta w =
     (let i = \<lparr>ai_call = call, ai_addr = addr, ai_trust = trust, ai_provider = provider\<rparr> in
      case authorizeToolProvider ou cx rn i (trustBase trust) w of (d, w1) \<Rightarrow>
        if az_outcome d \<noteq> Allow then ((noResult, Some (refusal ou (policyErrorFor (tc_name call)) w1)), w1)
        else runBody ou (Provider provider) (providerRequest cx call meta) w1)"

definition invokeWithApproval ::
  "outside \<Rightarrow> turn_context \<Rightarrow> runner \<Rightarrow> message_address \<Rightarrow> tool_call \<Rightarrow> trust_level \<Rightarrow> world \<Rightarrow>
   (tool_result \<times> tool_error option) \<times> world" where
  "invokeWithApproval ou cx rn addr call trust w =
     (let i = \<lparr>ai_call = call, ai_addr = addr, ai_trust = trust, ai_provider = []\<rparr>;
          invoke = sessionInvoke ou cx (rn_registry rn) (rn_session rn) call in
      case askSafety rn i w of (s, w1) \<Rightarrow>
        (case az_outcome s of
           Deny \<Rightarrow> ((noResult, Some (policyErrorFor (tc_name call))), w1)
         | Prompt \<Rightarrow>
             (if \<not> rn_approvals rn then ((noResult, Some (policyErrorFor (tc_name call))), w1)
              else case interactiveAuthorizer ou cx rn i w1 of (g, w2) \<Rightarrow>
                if az_outcome g \<noteq> Allow then ((noResult, Some (refusal ou (policyErrorFor (tc_name call)) w2)), w2)
                else invoke True w2)
         | _ \<Rightarrow>
             (case invoke False w1 of ((res, e), w2) \<Rightarrow>
                (case e of
                   None \<Rightarrow> ((res, e), w2)
                 | Some x \<Rightarrow>
                     (if \<not> rn_approvals rn \<or> \<not> requiresApproval x then ((res, e), w2)
                      else case authorizeTool ou cx rn i Prompt w2 of (d, w3) \<Rightarrow>
                        if az_outcome d \<noteq> Allow then ((noResult, Some (refusal ou x w3)), w3)
                        else invoke True w3)))))"

definition invokeTool ::
  "outside \<Rightarrow> turn_context \<Rightarrow> runner \<Rightarrow> turn_tools \<Rightarrow> message_address \<Rightarrow> tool_call \<Rightarrow> world \<Rightarrow>
   (tool_result \<times> tool_error option) \<times> world" where
  "invokeTool ou cx rn tt addr call0 w =
     (if toolExcluded cx (tc_name call0)
      then ((noResult\<lparr>to_call := tc_id call0, to_name := tc_name call0,
                      to_payload := ou_error_json ou (tc_name call0 @ '' is not available in this context''),
                      to_error := True\<rparr>, None), w)
      else case bindCatalogToolCall call0 tt of
        Inl e \<Rightarrow> ((noResult, Some e), w)
      | Inr call \<Rightarrow>
          (case map_of (tt_provider tt) (tc_name call) of
             Some p \<Rightarrow>
               (case resolveCatalogInvocation ou rn call w of
                  (Inl e, w1) \<Rightarrow> ((noResult, Some e), w1)
                | (Inr meta, w1) \<Rightarrow> invokeToolProvider ou cx rn p addr call (trustOf tt (tc_name call)) meta w1)
           | None \<Rightarrow> invokeWithApproval ou cx rn addr call (trustOf tt (tc_name call)) w))"

section \<open>Admission for a parallel batch\<close>

text \<open>The closure of an admitted call: it runs the body and nothing else.\<close>

datatype closure = RunPrepared prepared | RunProvider string tool_request

definition runClosure :: "outside \<Rightarrow> turn_context \<Rightarrow> closure \<Rightarrow> world \<Rightarrow> (tool_result \<times> tool_error option) \<times> world" where
  "runClosure ou cx c w = (case c of
      RunPrepared p \<Rightarrow> InvokePrepared ou cx p w
    | RunProvider p q \<Rightarrow> runBody ou (Provider p) q w)"

definition closureOf :: "(preparation_error, prepared) result \<Rightarrow> (tool_error, closure) result" where
  "closureOf r = (case r of Inl pe \<Rightarrow> Inl (pe_error pe) | Inr p \<Rightarrow> Inr (RunPrepared p))"

definition prepareProviderTool ::
  "outside \<Rightarrow> turn_context \<Rightarrow> runner \<Rightarrow> string \<Rightarrow> message_address \<Rightarrow> tool_call \<Rightarrow> trust_level \<Rightarrow>
   (string \<times> string) list \<Rightarrow> world \<Rightarrow> (tool_error, closure) result \<times> world" where
  "prepareProviderTool ou cx rn provider addr call trust meta w =
     (let i = \<lparr>ai_call = call, ai_addr = addr, ai_trust = trust, ai_provider = provider\<rparr> in
      case authorizeToolProvider ou cx rn i (trustBase trust) w of (d, w1) \<Rightarrow>
        if az_outcome d \<noteq> Allow then (Inl (refusal ou (policyErrorFor (tc_name call)) w1), w1)
        else (Inr (RunProvider provider (providerRequest cx call meta)), w1))"

definition prepareLocalTool ::
  "outside \<Rightarrow> turn_context \<Rightarrow> runner \<Rightarrow> message_address \<Rightarrow> tool_call \<Rightarrow> trust_level \<Rightarrow> world \<Rightarrow>
   (tool_error, closure) result \<times> world" where
  "prepareLocalTool ou cx rn addr call trust w =
     (let i = \<lparr>ai_call = call, ai_addr = addr, ai_trust = trust, ai_provider = []\<rparr>;
          prepare = sessionPrepare ou cx (rn_registry rn) (rn_session rn) call in
      case askSafety rn i w of (s, w1) \<Rightarrow>
        (case az_outcome s of
           Deny \<Rightarrow> (Inl (policyErrorFor (tc_name call)), w1)
         | Prompt \<Rightarrow>
             (if \<not> rn_approvals rn then (Inl (policyErrorFor (tc_name call)), w1)
              else case interactiveAuthorizer ou cx rn i w1 of (g, w2) \<Rightarrow>
                if az_outcome g \<noteq> Allow then (Inl (refusal ou (policyErrorFor (tc_name call)) w2), w2)
                else apfst closureOf (prepare True w2))
         | _ \<Rightarrow>
             (case prepare False w1 of
                (Inr p, w2) \<Rightarrow> (Inr (RunPrepared p), w2)
              | (Inl pe, w2) \<Rightarrow>
                  (if \<not> rn_approvals rn \<or> \<not> requiresApproval (pe_error pe) then (Inl (pe_error pe), w2)
                   else case authorizeTool ou cx rn i Prompt w2 of (d, w3) \<Rightarrow>
                     if az_outcome d \<noteq> Allow then (Inl (refusal ou (pe_error pe) w3), w3)
                     else apfst closureOf (prepare True w3)))))"

definition prepareParallelTool ::
  "outside \<Rightarrow> turn_context \<Rightarrow> runner \<Rightarrow> turn_tools \<Rightarrow> message_address \<Rightarrow> tool_call \<Rightarrow> world \<Rightarrow>
   (tool_error, closure) result \<times> world" where
  "prepareParallelTool ou cx rn tt addr call0 w =
     (if toolExcluded cx (tc_name call0)
      then (Inl (errorf (tc_name call0 @ '' is not available in this context'')), w)
      else case bindCatalogToolCall call0 tt of
        Inl e \<Rightarrow> (Inl e, w)
      | Inr call \<Rightarrow>
          (case map_of (tt_provider tt) (tc_name call) of
             Some p \<Rightarrow>
               (case resolveCatalogInvocation ou rn call w of
                  (Inl e, w1) \<Rightarrow> (Inl e, w1)
                | (Inr meta, w1) \<Rightarrow> prepareProviderTool ou cx rn p addr call (trustOf tt (tc_name call)) meta w1)
           | None \<Rightarrow> prepareLocalTool ou cx rn addr call (trustOf tt (tc_name call)) w))"

end
