(* ===== verification/ToolAuthzProofs.thy ===== *)
theory ToolAuthzProofs
  imports ToolAuthz
begin

text \<open>
  What the authorization of a tool call leaves in the history: the segments that each stage adds,
  and the conditions under which the body of a tool is run.
\<close>

section \<open>Reading a history\<close>

definition bodies :: "event list \<Rightarrow> (body \<times> tool_request) list" where
  "bodies es = concat (List.map (\<lambda>e. case e of BodyRun b q \<Rightarrow> [(b, q)] | _ \<Rightarrow> []) es)"

definition verdicts :: "event list \<Rightarrow> (authz_input \<times> authz_decision) list" where
  "verdicts es = concat (List.map (\<lambda>e. case e of SafetyAsked i d \<Rightarrow> [(i, d)] | _ \<Rightarrow> []) es)"

lemma bodies_simps [simp]:
  "bodies [] = []" "bodies (xs @ ys) = bodies xs @ bodies ys"
  "bodies (BodyRun b q # es) = (b, q) # bodies es"
  by (simp_all add: bodies_def)

lemma verdicts_simps [simp]:
  "verdicts [] = []" "verdicts (xs @ ys) = verdicts xs @ verdicts ys"
  "verdicts (SafetyAsked i d # es) = (i, d) # verdicts es"
  by (simp_all add: verdicts_def)

definition isBody :: "event \<Rightarrow> bool" where
  "isBody e \<longleftrightarrow> (case e of BodyRun b q \<Rightarrow> True | _ \<Rightarrow> False)"

definition isVerdict :: "event \<Rightarrow> bool" where
  "isVerdict e \<longleftrightarrow> (case e of SafetyAsked i d \<Rightarrow> True | _ \<Rightarrow> False)"

lemma bodies_other [simp]: "\<not> isBody e \<Longrightarrow> bodies (e # es) = bodies es"
  by (cases e) (simp_all add: bodies_def isBody_def)

lemma verdicts_other [simp]: "\<not> isVerdict e \<Longrightarrow> verdicts (e # es) = verdicts es"
  by (cases e) (simp_all add: verdicts_def isVerdict_def)

lemma isBody_simps [simp]:
  "\<not> isBody (HookAsked c h)" "\<not> isBody (SafetyAsked i d)" "\<not> isBody (PolicyAsked q t)"
  "\<not> isBody (GrantLookup a b x)" "\<not> isBody (GrantStored a b)" "\<not> isBody (Audited r)"
  "\<not> isBody (ApprovalShown a b l s t')" "\<not> isBody (Awaited a b y)" "\<not> isBody (CatalogResolved f)"
  "isBody (BodyRun bd q)" "\<not> isBody (SinkEvent v)" "\<not> isBody (Published v)" "\<not> isBody (Observed a b)"
  "\<not> isBody (ModelPending n)" "\<not> isBody (ModelAsked n)" "\<not> isBody (AssistantKept a)"
  "\<not> isBody (Checkpointed l)" "\<not> isBody (Streamed p)" "\<not> isBody (Saved m)"
  "\<not> isBody (Confirmed a)" "\<not> isBody (Refused e)"
  by (simp_all add: isBody_def)

lemma isVerdict_simps [simp]:
  "\<not> isVerdict (HookAsked c h)" "isVerdict (SafetyAsked i d)" "\<not> isVerdict (PolicyAsked q t)"
  "\<not> isVerdict (GrantLookup a b x)" "\<not> isVerdict (GrantStored a b)" "\<not> isVerdict (Audited r)"
  "\<not> isVerdict (ApprovalShown a b l s t')" "\<not> isVerdict (Awaited a b y)" "\<not> isVerdict (CatalogResolved f)"
  "\<not> isVerdict (BodyRun bd q)" "\<not> isVerdict (SinkEvent v)" "\<not> isVerdict (Published v)" "\<not> isVerdict (Observed a b)"
  "\<not> isVerdict (ModelPending n)" "\<not> isVerdict (ModelAsked n)" "\<not> isVerdict (AssistantKept a)"
  "\<not> isVerdict (Checkpointed l)" "\<not> isVerdict (Streamed p)" "\<not> isVerdict (Saved m)"
  "\<not> isVerdict (Confirmed a)" "\<not> isVerdict (Refused e)"
  by (simp_all add: isVerdict_def)

text \<open>A segment without bodies and without verdicts of the safety authorizer.\<close>

definition quiet :: "event list \<Rightarrow> bool" where
  "quiet es \<longleftrightarrow> bodies es = [] \<and> verdicts es = []"

lemma quietSteps_simps [simp]:
  "quiet []" "quiet (xs @ ys) \<longleftrightarrow> quiet xs \<and> quiet ys"
  "\<not> isBody e \<Longrightarrow> \<not> isVerdict e \<Longrightarrow> quiet (e # es) \<longleftrightarrow> quiet es"
  by (auto simp: quiet_def)

text \<open>Every body in \<open>es\<close> is run at a point where \<open>A\<close> holds of the events before it.\<close>

fun checkBodies :: "(event list \<Rightarrow> body \<Rightarrow> tool_request \<Rightarrow> bool) \<Rightarrow> event list \<Rightarrow> event list \<Rightarrow> bool" where
  "checkBodies A pre [] \<longleftrightarrow> True"
| "checkBodies A pre (e # es) \<longleftrightarrow>
     (case e of BodyRun b q \<Rightarrow> A pre b q | _ \<Rightarrow> True) \<and> checkBodies A (pre @ [e]) es"

lemma checkBodies_append [simp]:
  "checkBodies A pre (xs @ ys) \<longleftrightarrow> checkBodies A pre xs \<and> checkBodies A (pre @ xs) ys"
  by (induction xs arbitrary: pre) auto

lemma checkBodies_none: "bodies es = [] \<Longrightarrow> checkBodies A pre es"
  by (induction es arbitrary: pre)
    (auto simp: bodies_def split: event.splits option.splits)

lemma checkBodies_quiet: "quiet es \<Longrightarrow> checkBodies A pre es"
  by (simp add: quiet_def checkBodies_none)

lemma checkBodies_mono:
  "checkBodies A p es \<Longrightarrow> (\<And>pre b q. A pre b q \<Longrightarrow> B (p0 @ pre) b q) \<Longrightarrow> checkBodies B (p0 @ p) es"
proof (induction es arbitrary: p)
  case Nil
  then show ?case by simp
next
  case (Cons e es)
  from Cons.prems have "checkBodies A (p @ [e]) es" by simp
  from Cons.IH [OF this Cons.prems(2)] have "checkBodies B (p0 @ p @ [e]) es" by simp
  with Cons.prems show ?case by (cases e) simp_all
qed

lemma checkBodies_split:
  "checkBodies A pre (xs @ BodyRun b q # ys) \<Longrightarrow> A (pre @ xs) b q"
  by simp

section \<open>The registry\<close>

lemma attempt_adds:
  "attempt ou e w = (x, w') \<Longrightarrow> adds w w' [if x = None then e else Refused e] \<and> wo_granted w' = wo_granted w \<and> wo_used w' = wo_used w"
  by (auto simp: attempt_def adds_def split: option.splits)

text \<open>
  What the registry promises of a request that it admits: it knows the tool, the policy allowed
  the request unless it was approved, the decision was audited, and a tool that may change the
  view is not run on a view that is read-only.
\<close>

definition policyAllows :: "registry \<Rightarrow> event list \<Rightarrow> tool_request \<Rightarrow> bool" where
  "policyAllows r pre q \<longleftrightarrow>
     rg_policy r = None \<or> rq_approved q \<or> (\<exists>d. PolicyAsked q d \<in> set pre \<and> allowed d)"

definition auditedAllow :: "outside \<Rightarrow> registry \<Rightarrow> event list \<Rightarrow> tool_request \<Rightarrow> bool" where
  "auditedAllow ou r pre q \<longleftrightarrow>
     rg_policy r = None \<or> \<not> rg_audit r \<or>
     (\<exists>d. Audited (NewAuditRecord (ou_digest ou) q d) \<in> set pre \<and> allowed d)"

definition registryAdmits :: "outside \<Rightarrow> turn_context \<Rightarrow> registry \<Rightarrow> event list \<Rightarrow> tool_request \<Rightarrow> bool" where
  "registryAdmits ou cx r pre q \<longleftrightarrow>
     rq_name q \<in> fst ` set (rg_handlers r) \<and> policyAllows r pre q \<and> auditedAllow ou r pre q \<and>
     \<not> (readOnlyView cx \<and> ViewMutatingTool (rq_name q))"

lemma registryAdmits_mono: "registryAdmits ou cx r pre q \<Longrightarrow> registryAdmits ou cx r (p0 @ pre) q"
  by (auto simp: registryAdmits_def policyAllows_def auditedAllow_def)

lemma auditDecision_adds:
  assumes "auditDecision ou r q d w = (x, w')"
  shows "\<exists>seg. adds w w' seg \<and> quiet seg \<and> wo_granted w' = wo_granted w \<and> wo_used w' = wo_used w \<and>
    (x = None \<and> rg_audit r \<longrightarrow> Audited (NewAuditRecord (ou_digest ou) q d) \<in> set seg)"
proof (cases "rg_audit r")
  case True
  with assms have "attempt ou (Audited (NewAuditRecord (ou_digest ou) q d)) w = (x, w')"
    by (simp add: auditDecision_def)
  from attempt_adds [OF this] show ?thesis
    by (intro exI [of _ "[if x = None then Audited (NewAuditRecord (ou_digest ou) q d) else Refused (Audited (NewAuditRecord (ou_digest ou) q d))]"])
      auto
next
  case False
  with assms show ?thesis by (auto simp: auditDecision_def)
qed

lemma authorizeRequest_adds:
  assumes "authorizeRequest ou r q w = ((d, e), w')"
  shows "\<exists>seg. adds w w' seg \<and> quiet seg \<and> wo_granted w' = wo_granted w \<and> wo_used w' = wo_used w \<and>
    (e = None \<longrightarrow> policyAllows r seg q \<and> auditedAllow ou r seg q)"
proof (cases "rg_policy r")
  case None
  with assms show ?thesis by (auto simp: authorizeRequest_def policyAllows_def auditedAllow_def)
next
  case (Some p)
  let ?d = "if rq_approved q then userApproved else decide p w q"
  let ?w = "if rq_approved q then w else emit (PolicyAsked q ?d) w"
  let ?s = "if rq_approved q then [] else [PolicyAsked q ?d]"
  obtain x w2 where au: "auditDecision ou r q ?d ?w = (x, w2)" by fastforce
  from assms Some au have out: "w' = w2" "e = None \<longleftrightarrow> x = None \<and> allowed ?d"
    by (auto simp: authorizeRequest_def Let_def split: option.splits if_splits)
  from auditDecision_adds [OF au] obtain seg where seg: "adds ?w w2 seg" "quiet seg"
    "wo_granted w2 = wo_granted ?w" "wo_used w2 = wo_used ?w"
    "x = None \<and> rg_audit r \<longrightarrow> Audited (NewAuditRecord (ou_digest ou) q ?d) \<in> set seg" by blast
  have "adds w ?w ?s" by simp
  from adds_trans [OF this seg(1)] have "adds w w2 (?s @ seg)" .
  moreover have "e = None \<longrightarrow> policyAllows r (?s @ seg) q \<and> auditedAllow ou r (?s @ seg) q"
    using out(2) seg(5) by (auto simp: policyAllows_def auditedAllow_def)
  ultimately show ?thesis using seg out(1) by (intro exI [of _ "?s @ seg"]) auto
qed

text \<open>An admitted invocation, as \<open>Prepare\<close> returns it.\<close>

definition preparedFor :: "registry \<Rightarrow> tool_request \<Rightarrow> nat \<Rightarrow> prepared \<Rightarrow> bool" where
  "preparedFor r q u p \<longleftrightarrow> pi_registry p = Some r \<and> pi_request p = q \<and> pi_used p = Some u \<and>
     (\<exists>h. pi_handler p = Some h \<and> map_of (rg_handlers r) (rq_name q) = Some h)"

lemma Prepare_adds:
  assumes "Prepare ou cx r q w = (res, w')"
  shows "\<exists>seg. adds w w' seg \<and> quiet seg \<and> wo_granted w' = wo_granted w \<and>
    (case res of Inl pe \<Rightarrow> wo_used w' = wo_used w
     | Inr p \<Rightarrow> wo_used w' = wo_used w @ [False] \<and> preparedFor r q (length (wo_used w)) p \<and>
                registryAdmits ou cx r seg q)"
proof (cases "map_of (rg_handlers r) (rq_name q)")
  case None
  with assms show ?thesis by (auto simp: Prepare_def)
next
  case (Some h)
  obtain d e w1 where au: "authorizeRequest ou r q w = ((d, e), w1)" by (metis prod.exhaust)
  from authorizeRequest_adds [OF au] obtain seg where seg: "adds w w1 seg" "quiet seg"
    "wo_granted w1 = wo_granted w" "wo_used w1 = wo_used w"
    "e = None \<longrightarrow> policyAllows r seg q \<and> auditedAllow ou r seg q" by blast
  have known: "rq_name q \<in> fst ` set (rg_handlers r)" using map_of_SomeD [OF Some] by force
  show ?thesis
  proof (cases "e = None \<and> authorizeExecutionScope cx q = None")
    case True
    then have view: "\<not> (readOnlyView cx \<and> ViewMutatingTool (rq_name q))"
      by (auto simp: authorizeExecutionScope_def split: if_splits)
    from True assms Some au have "res = Inr \<lparr>pi_registry = Some r, pi_request = q, pi_handler = Some h, pi_decision = d,
        pi_used = Some (length (wo_used w1))\<rparr>" "w' = w1\<lparr>wo_used := wo_used w1 @ [False]\<rparr>"
      by (simp_all add: Prepare_def)
    with True seg known view Some show ?thesis
      by (intro exI [of _ seg]) (simp add: preparedFor_def registryAdmits_def adds_def)
  next
    case False
    with assms Some au have "w' = w1" "\<exists>pe. res = Inl pe"
      by (auto simp: Prepare_def split: option.splits)
    with seg show ?thesis by auto
  qed
qed

lemma emitToolEvent_adds:
  "\<exists>seg. adds w (emitToolEvent r v w) seg \<and> quiet seg \<and> wo_granted (emitToolEvent r v w) = wo_granted w \<and>
     wo_used (emitToolEvent r v w) = wo_used w"
  by (auto simp: emitToolEvent_def)

lemma InvokePrepared_adds:
  assumes p: "preparedFor r q u p" and fresh: "u < length (wo_used w)" "\<not> wo_used w ! u"
    and run: "InvokePrepared ou cx p w = (out, w')"
  shows "\<exists>xs b ys. adds w w' (xs @ BodyRun b q # ys) \<and> quiet xs \<and> quiet ys \<and>
    b = bodyOf cx (the (pi_handler p)) q \<and> wo_granted w' = wo_granted w \<and> wo_used w' = (wo_used w)[u := True]"
proof -
  from p obtain h where h: "pi_handler p = Some h" by (auto simp: preparedFor_def)
  let ?w0 = "w\<lparr>wo_used := (wo_used w)[u := True]\<rparr>"
  let ?w1 = "emitToolEvent r (NewToolEvent (ou_digest ou) ToolEventStarted q) ?w0"
  obtain res e w2 where rb: "runBody ou (bodyOf cx h q) q ?w1 = ((res, e), w2)" by (metis prod.exhaust)
  then have w2: "w2 = emit (BodyRun (bodyOf cx h q) q) ?w1" by (simp add: runBody_def)
  from p fresh(2) run h rb have "\<exists>v. w' = emitToolEvent r v w2"
    by (auto simp: InvokePrepared_def preparedFor_def Let_def split: option.splits)
  then obtain v where w': "w' = emitToolEvent r v w2" by blast
  obtain xs where xs: "adds ?w0 ?w1 xs" "quiet xs" "wo_granted ?w1 = wo_granted ?w0" "wo_used ?w1 = wo_used ?w0"
    using emitToolEvent_adds by metis
  obtain ys where ys: "adds w2 w' ys" "quiet ys" "wo_granted w' = wo_granted w2" "wo_used w' = wo_used w2"
    using emitToolEvent_adds w' by metis
  have "adds w w' (xs @ BodyRun (bodyOf cx h q) q # ys)"
    using xs(1) ys(1) w2 by (simp add: adds_def)
  with xs ys w2 h show ?thesis by (intro exI [of _ xs] exI [of _ ys]) auto
qed

text \<open>The bodies that the registry runs for a request are admitted by it.\<close>

definition localBody :: "registry \<Rightarrow> turn_context \<Rightarrow> body \<Rightarrow> tool_request \<Rightarrow> bool" where
  "localBody r cx b q \<longleftrightarrow> (\<exists>h. map_of (rg_handlers r) (rq_name q) = Some h \<and> b = bodyOf cx h q)"

lemma InvokeRegistry_adds:
  assumes "InvokeRegistry ou cx r q w = (out, w')"
  shows "\<exists>seg. adds w w' seg \<and> verdicts seg = [] \<and> wo_granted w' = wo_granted w \<and>
    checkBodies (\<lambda>pre b q'. q' = q \<and> verdicts pre = [] \<and> localBody r cx b q \<and> registryAdmits ou cx r pre q) [] seg"
proof -
  obtain res w1 where pr: "Prepare ou cx r q w = (res, w1)" by fastforce
  from Prepare_adds [OF pr] obtain s1 where s1: "adds w w1 s1" "quiet s1" "wo_granted w1 = wo_granted w"
    "case res of Inl pe \<Rightarrow> wo_used w1 = wo_used w
     | Inr p \<Rightarrow> wo_used w1 = wo_used w @ [False] \<and> preparedFor r q (length (wo_used w)) p \<and> registryAdmits ou cx r s1 q"
    by blast
  show ?thesis
  proof (cases res)
    case (Inl pe)
    let ?v1 = "NewToolEvent (ou_digest ou) ToolEventStarted q"
    let ?w2 = "emitToolEvent r ?v1 w1"
    from assms pr Inl obtain v where w': "w' = emitToolEvent r v ?w2"
      by (auto simp: InvokeRegistry_def Let_def)
    obtain xs where xs: "adds w1 ?w2 xs" "quiet xs" "wo_granted ?w2 = wo_granted w1" using emitToolEvent_adds by metis
    obtain ys where ys: "adds ?w2 w' ys" "quiet ys" "wo_granted w' = wo_granted ?w2" using emitToolEvent_adds w' by metis
    have "adds w w' (s1 @ xs @ ys)" using s1(1) xs(1) ys(1) by (simp add: adds_def)
    moreover have "quiet (s1 @ xs @ ys)" using s1 xs ys by simp
    ultimately show ?thesis using s1(3) xs(3) ys(3)
      by (intro exI [of _ "s1 @ xs @ ys"]) (simp add: checkBodies_quiet quiet_def)
  next
    case (Inr p)
    with assms pr have run: "InvokePrepared ou cx p w1 = (out, w')" by (simp add: InvokeRegistry_def)
    from s1(4) Inr have p: "preparedFor r q (length (wo_used w)) p" "wo_used w1 = wo_used w @ [False]"
      "registryAdmits ou cx r s1 q" by simp_all
    from InvokePrepared_adds [OF p(1) _ _ run] p(2) obtain xs b ys where
      x: "adds w1 w' (xs @ BodyRun b q # ys)" "quiet xs" "quiet ys" "b = bodyOf cx (the (pi_handler p)) q"
        "wo_granted w' = wo_granted w1" by fastforce
    have "localBody r cx b q" using p(1) x(4) by (auto simp: localBody_def preparedFor_def)
    moreover have "registryAdmits ou cx r (s1 @ xs) q"
      using p(3) by (auto simp: registryAdmits_def policyAllows_def auditedAllow_def)
    moreover have "verdicts (s1 @ xs) = []" using s1(2) x(2) by (simp add: quiet_def)
    ultimately have "checkBodies (\<lambda>pre b q'. q' = q \<and> verdicts pre = [] \<and> localBody r cx b q \<and> registryAdmits ou cx r pre q) []
        (s1 @ xs @ BodyRun b q # ys)"
      using s1(2) x(2,3) by (simp add: checkBodies_quiet)
    moreover have "adds w w' (s1 @ xs @ BodyRun b q # ys)" using s1(1) x(1) by (simp add: adds_def)
    moreover have "verdicts (s1 @ xs @ BodyRun b q # ys) = []" using s1(2) x(2,3) by (simp add: quiet_def)
    ultimately show ?thesis using s1(3) x(5)
      by (intro exI [of _ "s1 @ xs @ BodyRun b q # ys"] conjI) simp_all
  qed
qed

section \<open>Grants, safety and the prompt\<close>

text \<open>The user said yes to a call; a grant stands for the tool of a call.\<close>

definition saidYes :: "authz_input \<Rightarrow> event list \<Rightarrow> bool" where
  "saidYes i pre \<longleftrightarrow>
     (\<exists>d. Awaited (ma_task (ai_addr i)) (tc_id (ai_call i)) (Answer d) \<in> set pre \<and> de_granted d)"

definition byGrant :: "authz_input \<Rightarrow> event list \<Rightarrow> bool" where
  "byGrant i pre \<longleftrightarrow> ai_trust i \<noteq> TrustRequiresFreshApproval \<and>
     (ai_trust i = TrustPreAuthorized \<or>
      GrantLookup (ma_workspace (ai_addr i)) (tc_name (ai_call i)) (Some True) \<in> set pre)"

text \<open>
  Safety is cleared: the authorizer was asked, if there is one, never denied, and where it asked
  for a prompt the user said yes.
\<close>

definition safetyCleared :: "runner \<Rightarrow> authz_input \<Rightarrow> event list \<Rightarrow> bool" where
  "safetyCleared rn i pre \<longleftrightarrow>
     (rn_safety rn = None \<or> verdicts pre \<noteq> []) \<and>
     list_all (\<lambda>(j, d). j = i \<and> az_outcome d \<noteq> Deny \<and> (az_outcome d = Prompt \<longrightarrow> saidYes i pre)) (verdicts pre)"

lemma saidYes_mono [simp]: "saidYes i xs \<or> saidYes i ys \<Longrightarrow> saidYes i (xs @ ys)"
  by (auto simp: saidYes_def)

lemma byGrant_mono [simp]: "byGrant i xs \<or> byGrant i ys \<Longrightarrow> byGrant i (xs @ ys)"
  by (auto simp: byGrant_def)

lemma safetyCleared_quiet: "safetyCleared rn i xs \<Longrightarrow> verdicts ys = [] \<Longrightarrow> safetyCleared rn i (xs @ ys)"
  by (auto simp: safetyCleared_def list_all_iff)

lemma quiet_safetyCleared: "verdicts xs = [] \<Longrightarrow> safetyCleared rn i ys \<Longrightarrow> safetyCleared rn i (xs @ ys)"
  by (auto simp: safetyCleared_def list_all_iff)

lemma safetyCleared_append: "safetyCleared rn i xs \<Longrightarrow> safetyCleared rn i ys \<Longrightarrow> safetyCleared rn i (xs @ ys)"
  by (auto simp: safetyCleared_def list_all_iff)

text \<open>Nothing was granted: the memory of grants and the durable store are as before.\<close>

definition isStored :: "event \<Rightarrow> bool" where
  "isStored e \<longleftrightarrow> (case e of GrantStored a b \<Rightarrow> True | _ \<Rightarrow> False)"

definition nothingGranted :: "world \<Rightarrow> world \<Rightarrow> event list \<Rightarrow> bool" where
  "nothingGranted w w' seg \<longleftrightarrow> wo_granted w' = wo_granted w \<and> list_all (\<lambda>e. \<not> isStored e) seg"

lemma nothingGranted_trans:
  "nothingGranted w w1 xs \<Longrightarrow> nothingGranted w1 w2 ys \<Longrightarrow> nothingGranted w w2 (xs @ ys)"
  by (simp add: nothingGranted_def)

lemma emitApproval_adds:
  "\<exists>seg. adds w (emitApproval ou cx call scopes st reason w) seg \<and> quiet seg \<and>
     nothingGranted w (emitApproval ou cx call scopes st reason w) seg"
proof (cases "cx_emitter cx")
  case True
  let ?e = "ApprovalShown (tc_id call) (tc_name call) scopes st reason"
  obtain x w' where at: "attempt ou ?e w = (x, w')" by fastforce
  with True have "emitApproval ou cx call scopes st reason w = w'" by (simp add: emitApproval_def)
  with attempt_adds [OF at] show ?thesis
    by (intro exI [of _ "[if x = None then ?e else Refused ?e]"]) (simp add: nothingGranted_def isStored_def)
next
  case False
  then show ?thesis by (simp add: emitApproval_def nothingGranted_def)
qed

lemma GrantSession_adds [simp]: "adds w (GrantSession a b w1) seg \<longleftrightarrow> adds w w1 seg"
  by (simp add: adds_def GrantSession_def)

lemma recordGrant_adds:
  "\<exists>seg. adds w (recordGrant ou rn i scope w) seg \<and> quiet seg \<and>
     (ai_trust i = TrustRequiresFreshApproval \<longrightarrow> nothingGranted w (recordGrant ou rn i scope w) seg)"
proof -
  have stored: "\<exists>seg. adds w (snd (GrantAlways ou store a b w)) seg \<and> quiet seg" for store a b
  proof (cases store)
    case True
    obtain x w' where at: "attempt ou (GrantStored a b) (GrantSession a b w) = (x, w')" by fastforce
    with True have "snd (GrantAlways ou store a b w) = w'" by (simp add: GrantAlways_def)
    moreover have "wo_events w' = wo_events w @ [if x = None then GrantStored a b else Refused (GrantStored a b)]"
      using attempt_adds [OF at] by (simp add: adds_def GrantSession_def)
    ultimately show ?thesis
      by (intro exI [of _ "[if x = None then GrantStored a b else Refused (GrantStored a b)]"]) (simp add: adds_def)
  next
    case False
    then show ?thesis by (simp add: GrantAlways_def)
  qed
  show ?thesis
  proof (cases "rn_granter rn")
    case None
    then show ?thesis by (simp add: recordGrant_def nothingGranted_def)
  next
    case (Some store)
    show ?thesis
    proof (cases "ai_trust i = TrustRequiresFreshApproval")
      case True
      with Some show ?thesis by (simp add: recordGrant_def nothingGranted_def)
    next
      case False
      with Some stored show ?thesis by (simp add: recordGrant_def)
    qed
  qed
qed

lemma interactive_adds:
  assumes "interactiveAuthorizer ou cx rn i w = (d, w')"
  shows "\<exists>seg. adds w w' seg \<and> quiet seg \<and>
    (ai_trust i = TrustRequiresFreshApproval \<longrightarrow> nothingGranted w w' seg) \<and>
    (az_outcome d = Allow \<and> saidYes i seg \<or> az_outcome d = Deny)"
proof -
  let ?c = "ai_call i" and ?t = "ma_task (ai_addr i)" and ?sc = "approvalScopesFor rn (ai_trust i)"
  let ?w1 = "emitApproval ou cx ?c ?sc ApprovalPending ''tool is not pre-authorized'' w"
  let ?r = "ou_await ou (wo_events ?w1) ?t (tc_id ?c)"
  let ?w2 = "emit (Awaited ?t (tc_id ?c) ?r) ?w1"
  obtain s1 where s1: "adds w ?w1 s1" "quiet s1" "nothingGranted w ?w1 s1" using emitApproval_adds by metis
  let ?s = "s1 @ [Awaited ?t (tc_id ?c) ?r]"
  have s2: "adds w ?w2 ?s" "quiet ?s" "nothingGranted w ?w2 ?s"
    using s1 by (auto simp: adds_def nothingGranted_def isStored_def)
  have closed: "\<exists>seg. adds w (emitApproval ou cx ?c ?sc st reason ?w2) seg \<and> quiet seg \<and>
      nothingGranted w (emitApproval ou cx ?c ?sc st reason ?w2) seg" for st reason
  proof -
    obtain s3 where "adds ?w2 (emitApproval ou cx ?c ?sc st reason ?w2) s3" "quiet s3"
      "nothingGranted ?w2 (emitApproval ou cx ?c ?sc st reason ?w2) s3" using emitApproval_adds by metis
    with s2 show ?thesis by (meson adds_trans nothingGranted_trans quietSteps_simps(2))
  qed
  consider (ended) "ou_ended ou (wo_events ?w2) \<noteq> None"
    | (silent) "ou_ended ou (wo_events ?w2) = None" "?r = NoAnswer"
    | (no) a where "ou_ended ou (wo_events ?w2) = None" "?r = Answer a" "\<not> de_granted a"
    | (yes) a where "ou_ended ou (wo_events ?w2) = None" "?r = Answer a" "de_granted a"
    by (cases ?r) auto
  then show ?thesis
  proof cases
    case ended
    with assms have "w' = ?w2" "az_outcome d = Deny" by (auto simp: interactiveAuthorizer_def Let_def)
    with s2 show ?thesis by blast
  next
    case silent
    with assms have "w' = emitApproval ou cx ?c ?sc ApprovalExpired [] ?w2" "az_outcome d = Deny"
      by (auto simp: interactiveAuthorizer_def Let_def)
    with closed show ?thesis by metis
  next
    case (no a)
    with assms have "w' = emitApproval ou cx ?c ?sc ApprovalDenied [] ?w2" "az_outcome d = Deny"
      by (auto simp: interactiveAuthorizer_def Let_def)
    with closed show ?thesis by metis
  next
    case (yes a)
    let ?w3 = "recordGrant ou rn i (de_scope a) ?w2"
    from yes assms have w': "w' = emitApproval ou cx ?c ?sc ApprovalApproved [] ?w3" and out: "az_outcome d = Allow"
      by (auto simp: interactiveAuthorizer_def Let_def)
    obtain s3 where s3: "adds ?w2 ?w3 s3" "quiet s3"
      "ai_trust i = TrustRequiresFreshApproval \<longrightarrow> nothingGranted ?w2 ?w3 s3" using recordGrant_adds by metis
    obtain s4 where s4: "adds ?w3 w' s4" "quiet s4" "nothingGranted ?w3 w' s4" using emitApproval_adds w' by metis
    have "adds w w' (?s @ s3 @ s4)" using s2(1) s3(1) s4(1) by (meson adds_trans)
    moreover have "quiet (?s @ s3 @ s4)" using s2(2) s3(2) s4(2) by simp
    moreover have "ai_trust i = TrustRequiresFreshApproval \<longrightarrow> nothingGranted w w' (?s @ s3 @ s4)"
      using s2(3) s3(3) s4(3) by (meson nothingGranted_trans)
    moreover have "saidYes i (?s @ s3 @ s4)" using yes by (auto simp: saidYes_def)
    ultimately show ?thesis using out by blast
  qed
qed

lemma askSafety_adds:
  assumes "askSafety rn i w = (s, w')"
  shows "\<exists>seg. adds w w' seg \<and> bodies seg = [] \<and> nothingGranted w w' seg \<and>
    verdicts seg = (if rn_safety rn = None then [] else [(i, s)]) \<and>
    (rn_safety rn = None \<longrightarrow> az_outcome s = Abstain)"
  using assms by (cases "rn_safety rn") (auto simp: askSafety_def nothingGranted_def isStored_def)

lemma grant_adds:
  assumes "grantAuthorizer ou rn i w = (g, w')"
  shows "\<exists>seg. adds w w' seg \<and> quiet seg \<and>
    (ai_trust i = TrustRequiresFreshApproval \<longrightarrow> nothingGranted w w' seg) \<and>
    (az_outcome g = Allow \<and> byGrant i seg \<or> az_outcome g = Abstain)"
proof -
  consider (fresh) "ai_trust i = TrustRequiresFreshApproval"
    | (pre) "ai_trust i = TrustPreAuthorized"
    | (none) "ai_trust i \<noteq> TrustRequiresFreshApproval" "ai_trust i \<noteq> TrustPreAuthorized" "\<not> rn_grants rn"
    | (ask) "ai_trust i \<noteq> TrustRequiresFreshApproval" "ai_trust i \<noteq> TrustPreAuthorized" "rn_grants rn"
    by blast
  then show ?thesis
  proof cases
    case ask
    let ?x = "GrantLookup (ma_workspace (ai_addr i)) (tc_name (ai_call i))"
    let ?a = "ou_granted ou (wo_events w) (ma_workspace (ai_addr i)) (tc_name (ai_call i))"
    have "adds w w' [?x ?a]"
      using ask assms by (auto simp: grantAuthorizer_def Let_def adds_def GrantSession_def split: option.splits bool.splits if_splits)
    moreover have "az_outcome g = Allow \<and> ?a = Some True \<or> az_outcome g = Abstain"
      using ask assms by (auto simp: grantAuthorizer_def Let_def split: option.splits bool.splits)
    ultimately show ?thesis using ask by (intro exI [of _ "[?x ?a]"]) (auto simp: byGrant_def)
  qed (use assms in \<open>auto simp: grantAuthorizer_def byGrant_def nothingGranted_def\<close>)
qed

text \<open>The request that the policy of the runner decides for a provider's tool.\<close>

definition policyRequest :: "authz_input \<Rightarrow> tool_request" where
  "policyRequest i = (RequestFromEnvelope (ai_call i))\<lparr>rq_addr := ai_addr i\<rparr>"

lemma policyVerdict_outcome:
  "az_outcome (policyVerdict t) = Deny \<longleftrightarrow> td_code t = DecisionDeny"
  "az_outcome (policyVerdict t) = Prompt \<longleftrightarrow> td_code t = DecisionRequiresApproval"
  by (cases "td_code t"; simp add: policyVerdict_def)+

lemma policyAuthorizer_Some:
  "policyAuthorizer (Some p) i w =
     (policyVerdict (decide p w (policyRequest i)), emit (PolicyAsked (policyRequest i) (decide p w (policyRequest i))) w)"
  by (simp only: policyAuthorizer_def policyRequest_def option.case Let_def)

lemma policy_adds:
  assumes "policyAuthorizer (Some p) i w = (d, w')"
  shows "\<exists>t. adds w w' [PolicyAsked (policyRequest i) t] \<and> nothingGranted w w' [PolicyAsked (policyRequest i) t] \<and>
    d = policyVerdict t"
proof -
  let ?t = "decide p w (policyRequest i)"
  from assms have "policyVerdict ?t = d" "emit (PolicyAsked (policyRequest i) ?t) w = w'"
    unfolding policyAuthorizer_Some by (blast dest: prod.inject [THEN iffD1])+
  then show ?thesis by (intro exI [of _ ?t]) (auto simp: nothingGranted_def isStored_def)
qed

lemma raise_simps [simp]:
  "raise Prompt x = Prompt" "raise b Prompt = Prompt" "raise Allow x = (if x = Prompt then Prompt else Allow)"
  by (cases x; simp add: raise_def)+

lemma finishAuthz_adds:
  assumes "finishAuthz ou cx rn i base w = (d, w')"
  shows "\<exists>seg. adds w w' seg \<and> bodies seg = [] \<and>
    (ai_trust i = TrustRequiresFreshApproval \<longrightarrow> nothingGranted w w' seg) \<and>
    (az_outcome d = Allow \<longrightarrow> safetyCleared rn i seg \<and> (base = Prompt \<longrightarrow> saidYes i seg))"
proof -
  obtain s w1 where as: "askSafety rn i w = (s, w1)" by fastforce
  from askSafety_adds [OF as] obtain s1 where s1: "adds w w1 s1" "bodies s1 = []" "nothingGranted w w1 s1"
    "verdicts s1 = (if rn_safety rn = None then [] else [(i, s)])" "rn_safety rn = None \<longrightarrow> az_outcome s = Abstain" by (elim exE conjE) (rule that)
  consider (deny) "az_outcome s = Deny"
    | (stuck) "az_outcome s \<noteq> Deny" "raise base (az_outcome s) = Prompt" "\<not> rn_approvals rn"
    | (prompt) "az_outcome s \<noteq> Deny" "raise base (az_outcome s) = Prompt" "rn_approvals rn"
    | (pass) "az_outcome s \<noteq> Deny" "raise base (az_outcome s) \<noteq> Prompt" by blast
  then show ?thesis
  proof cases
    case deny
    with assms as have "w' = w1" "az_outcome d = Deny" by (auto simp: finishAuthz_def)
    with s1 show ?thesis by auto
  next
    case stuck
    with assms as have "w' = w1" "az_outcome d = Deny" by (auto simp: finishAuthz_def)
    with s1 show ?thesis by auto
  next
    case prompt
    with assms as have ia: "interactiveAuthorizer ou cx rn i w1 = (d, w')" by (simp add: finishAuthz_def)
    from interactive_adds [OF ia] obtain s2 where s2: "adds w1 w' s2" "quiet s2"
      "ai_trust i = TrustRequiresFreshApproval \<longrightarrow> nothingGranted w1 w' s2"
      "az_outcome d = Allow \<and> saidYes i s2 \<or> az_outcome d = Deny" by blast
    have "az_outcome d = Allow \<longrightarrow> safetyCleared rn i (s1 @ s2) \<and> saidYes i (s1 @ s2)"
      using s1(4) s2(2,4) prompt by (auto simp: safetyCleared_def quiet_def)
    moreover have "adds w w' (s1 @ s2)" using s1(1) s2(1) by (rule adds_trans)
    moreover have "ai_trust i = TrustRequiresFreshApproval \<longrightarrow> nothingGranted w w' (s1 @ s2)"
      using s1(3) s2(3) by (auto intro: nothingGranted_trans)
    moreover have "bodies (s1 @ s2) = []" using s1(2) s2(2) by (simp add: quiet_def)
    ultimately show ?thesis by blast
  next
    case pass
    with assms as have "w' = w1" by (auto simp: finishAuthz_def)
    moreover from pass have "base \<noteq> Prompt" "az_outcome s \<noteq> Prompt" by auto
    ultimately show ?thesis using s1 pass by (intro exI [of _ s1]) (auto simp: safetyCleared_def)
  qed
qed

section \<open>The pipelines\<close>

definition consent :: "authz_input \<Rightarrow> event list \<Rightarrow> bool" where
  "consent i pre \<longleftrightarrow> saidYes i pre \<or> byGrant i pre"

text \<open>
  The policy of the runner is cleared: there is none, or a grant stands for the tool, or it was
  asked and did not deny, and where it asked for approval the user said yes.
\<close>

definition policyCleared :: "runner \<Rightarrow> authz_input \<Rightarrow> event list \<Rightarrow> bool" where
  "policyCleared rn i pre \<longleftrightarrow> rn_policy rn = None \<or> byGrant i pre \<or>
     (\<exists>t. PolicyAsked (policyRequest i) t \<in> set pre \<and> td_code t \<noteq> DecisionDeny \<and>
        (td_code t = DecisionRequiresApproval \<longrightarrow> saidYes i pre))"

lemma consent_mono [simp]: "consent i xs \<or> consent i ys \<Longrightarrow> consent i (xs @ ys)"
  by (auto simp: consent_def)

lemma policyCleared_mono: "policyCleared rn i xs \<or> policyCleared rn i ys \<Longrightarrow> policyCleared rn i (xs @ ys)"
  by (auto simp: policyCleared_def)

definition admits :: "authz_outcome \<Rightarrow> runner \<Rightarrow> authz_input \<Rightarrow> event list \<Rightarrow> bool" where
  "admits base rn i seg \<longleftrightarrow> safetyCleared rn i seg \<and> (base = Prompt \<longrightarrow> consent i seg)"

lemma finish_after:
  assumes "adds w w1 s1" "quiet s1" "ai_trust i = TrustRequiresFreshApproval \<longrightarrow> nothingGranted w w1 s1"
    and "finishAuthz ou cx rn i base w1 = (d, w')"
    and consents: "base0 = Prompt \<Longrightarrow> base = Prompt \<or> consent i s1"
  shows "\<exists>seg. adds w w' (s1 @ seg) \<and> bodies (s1 @ seg) = [] \<and>
    (ai_trust i = TrustRequiresFreshApproval \<longrightarrow> nothingGranted w w' (s1 @ seg)) \<and>
    (az_outcome d = Allow \<longrightarrow> admits base0 rn i (s1 @ seg) \<and> (base = Prompt \<longrightarrow> saidYes i (s1 @ seg)))"
proof -
  from finishAuthz_adds [OF assms(4)] obtain seg where seg: "adds w1 w' seg" "bodies seg = []"
    "ai_trust i = TrustRequiresFreshApproval \<longrightarrow> nothingGranted w1 w' seg"
    "az_outcome d = Allow \<longrightarrow> safetyCleared rn i seg \<and> (base = Prompt \<longrightarrow> saidYes i seg)" by blast
  have "adds w w' (s1 @ seg)" using assms(1) seg(1) by (rule adds_trans)
  moreover have "bodies (s1 @ seg) = []" using assms(2) seg(2) by (simp add: quiet_def)
  moreover have "ai_trust i = TrustRequiresFreshApproval \<longrightarrow> nothingGranted w w' (s1 @ seg)"
    using assms(3) seg(3) by (auto intro: nothingGranted_trans)
  moreover have "az_outcome d = Allow \<longrightarrow> admits base0 rn i (s1 @ seg) \<and> (base = Prompt \<longrightarrow> saidYes i (s1 @ seg))"
    using seg(4) consents assms(2)
    by (auto simp: admits_def quiet_def consent_def intro: quiet_safetyCleared)
  ultimately show ?thesis by blast
qed

lemma authorizeTool_adds:
  assumes "authorizeTool ou cx rn i base w = (d, w')"
  shows "\<exists>seg. adds w w' seg \<and> bodies seg = [] \<and>
    (ai_trust i = TrustRequiresFreshApproval \<longrightarrow> nothingGranted w w' seg) \<and>
    (az_outcome d = Allow \<longrightarrow> admits base rn i seg)"
proof -
  obtain g w1 where g: "grantAuthorizer ou rn i w = (g, w1)" by fastforce
  from grant_adds [OF g] obtain s1 where s1: "adds w w1 s1" "quiet s1"
    "ai_trust i = TrustRequiresFreshApproval \<longrightarrow> nothingGranted w w1 s1"
    "az_outcome g = Allow \<and> byGrant i s1 \<or> az_outcome g = Abstain" by blast
  let ?b = "if az_outcome g = Allow then Allow else base"
  have f: "finishAuthz ou cx rn i ?b w1 = (d, w')"
    using assms g s1(4) by (auto simp: authorizeTool_def)
  have "base = Prompt \<Longrightarrow> ?b = Prompt \<or> consent i s1" using s1(4) by (auto simp: consent_def)
  from finish_after [OF s1(1-3) f this] show ?thesis by blast
qed

lemma authorizeToolProvider_adds:
  assumes "authorizeToolProvider ou cx rn i base w = (d, w')"
  shows "\<exists>seg. adds w w' seg \<and> bodies seg = [] \<and>
    (ai_trust i = TrustRequiresFreshApproval \<longrightarrow> nothingGranted w w' seg) \<and>
    (az_outcome d = Allow \<longrightarrow> admits base rn i seg \<and> policyCleared rn i seg)"
proof -
  obtain g w1 where g: "grantAuthorizer ou rn i w = (g, w1)" by fastforce
  from grant_adds [OF g] obtain s1 where s1: "adds w w1 s1" "quiet s1"
    "ai_trust i = TrustRequiresFreshApproval \<longrightarrow> nothingGranted w w1 s1"
    "az_outcome g = Allow \<and> byGrant i s1 \<or> az_outcome g = Abstain" by blast
  show ?thesis
  proof (cases "az_outcome g = Allow \<or> rn_policy rn = None")
    case True
    let ?b = "if az_outcome g = Allow then Allow else base"
    have f: "finishAuthz ou cx rn i ?b w1 = (d, w')"
      using True assms g s1(4) by (auto simp: authorizeToolProvider_def)
    have "base = Prompt \<Longrightarrow> ?b = Prompt \<or> consent i s1" using s1(4) by (auto simp: consent_def)
    moreover have "policyCleared rn i s1" using True s1(4) by (auto simp: policyCleared_def)
    ultimately show ?thesis using finish_after [OF s1(1-3) f] policyCleared_mono by metis
  next
    case False
    then obtain p where p: "rn_policy rn = Some p" and abstain: "az_outcome g = Abstain" using s1(4) by auto
    obtain x w2 where x: "policyAuthorizer (Some p) i w1 = (x, w2)" by fastforce
    from policy_adds [OF x] obtain t where t: "adds w1 w2 [PolicyAsked (policyRequest i) t]"
      "nothingGranted w1 w2 [PolicyAsked (policyRequest i) t]" "x = policyVerdict t" by blast
    let ?s = "s1 @ [PolicyAsked (policyRequest i) t]"
    have s2: "adds w w2 ?s" "quiet ?s" "ai_trust i = TrustRequiresFreshApproval \<longrightarrow> nothingGranted w w2 ?s"
      using adds_trans [OF s1(1) t(1)] s1(2,3) t(2) by (auto intro: nothingGranted_trans)
    show ?thesis
    proof (cases "az_outcome x = Deny")
      case True
      with assms g abstain p x have "w' = w2" "az_outcome d = Deny" by (auto simp: authorizeToolProvider_def)
      with s2 show ?thesis by (intro exI [of _ ?s]) (simp add: quiet_def)
    next
      case False
      with assms g abstain p x have f: "finishAuthz ou cx rn i (raise base (az_outcome x)) w2 = (d, w')"
        by (simp add: authorizeToolProvider_def)
      have "base = Prompt \<Longrightarrow> raise base (az_outcome x) = Prompt \<or> consent i ?s" by simp
      from finish_after [OF s2 f this] obtain seg where seg: "adds w w' (?s @ seg)" "bodies (?s @ seg) = []"
        "ai_trust i = TrustRequiresFreshApproval \<longrightarrow> nothingGranted w w' (?s @ seg)"
        "az_outcome d = Allow \<longrightarrow> admits base rn i (?s @ seg) \<and> (raise base (az_outcome x) = Prompt \<longrightarrow> saidYes i (?s @ seg))"
        by blast
      have "az_outcome d = Allow \<longrightarrow> policyCleared rn i (?s @ seg)"
      proof
        assume "az_outcome d = Allow"
        with seg(4) have "raise base (az_outcome x) = Prompt \<longrightarrow> saidYes i (?s @ seg)" by blast
        then have "td_code t = DecisionRequiresApproval \<longrightarrow> saidYes i (?s @ seg)"
          using t(3) policyVerdict_outcome(2) [of t] by (metis raise_simps(2))
        moreover have "td_code t \<noteq> DecisionDeny" using False t(3) policyVerdict_outcome(1) [of t] by blast
        ultimately show "policyCleared rn i (?s @ seg)" by (auto simp: policyCleared_def)
      qed
      with seg show ?thesis by blast
    qed
  qed
qed

end
