(* ===== verification/ToolAuthzSpec.thy ===== *)
theory ToolAuthzSpec
  imports ToolAuthzProofs
begin

text \<open>
  No tool runs unauthorised: the conditions under which the runner reaches the body of a tool,
  one by one or prepared for a parallel batch; and the resolver of the authorizers.
\<close>

section \<open>The conditions\<close>

text \<open>
  The conditions for the body of a local tool, at a point of the history of its call: safety was
  cleared, the registry admits the request, the request is that of the call, and a request that
  passes the registry's policy as approved has the consent of the user or of a grant.
\<close>

definition localAdmitted :: "outside \<Rightarrow> turn_context \<Rightarrow> runner \<Rightarrow> authz_input \<Rightarrow> event list \<Rightarrow> tool_request \<Rightarrow> bool" where
  "localAdmitted ou cx rn i pre q \<longleftrightarrow>
     safetyCleared rn i pre \<and> registryAdmits ou cx (rn_registry rn) pre q \<and>
     q = toolRequest cx (rn_session rn) (ai_call i) (rq_approved q) \<and> (rq_approved q \<longrightarrow> consent i pre)"

text \<open>
  The conditions for the body of a provider's tool: safety and policy were cleared, there is
  consent where the trust of the tool demands it, and the live catalog resolved the reference.
\<close>

definition providerAdmitted :: "turn_context \<Rightarrow> runner \<Rightarrow> authz_input \<Rightarrow> event list \<Rightarrow> tool_request \<Rightarrow> bool" where
  "providerAdmitted cx rn i pre q \<longleftrightarrow>
     admits (trustBase (ai_trust i)) rn i pre \<and> policyCleared rn i pre \<and>
     (\<exists>f meta. tc_ref (ai_call i) = Some f \<and> CatalogResolved f \<in> set pre \<and> q = providerRequest cx (ai_call i) meta)"

definition inputFor :: "turn_tools \<Rightarrow> message_address \<Rightarrow> tool_call \<Rightarrow> authz_input" where
  "inputFor tt addr call =
     \<lparr>ai_call = call, ai_addr = addr, ai_trust = trustOf tt (tc_name call),
      ai_provider = (case map_of (tt_provider tt) (tc_name call) of None \<Rightarrow> [] | Some p \<Rightarrow> p)\<rparr>"

definition mayRun ::
  "outside \<Rightarrow> turn_context \<Rightarrow> runner \<Rightarrow> turn_tools \<Rightarrow> message_address \<Rightarrow> tool_call \<Rightarrow>
   event list \<Rightarrow> body \<Rightarrow> tool_request \<Rightarrow> bool" where
  "mayRun ou cx rn tt addr call0 pre b q \<longleftrightarrow>
     \<not> toolExcluded cx (tc_name call0) \<and>
     (case bindCatalogToolCall call0 tt of
        Inl e \<Rightarrow> False
      | Inr call \<Rightarrow>
          (case map_of (tt_provider tt) (tc_name call) of
             Some p \<Rightarrow> b = Provider p \<and> providerAdmitted cx rn (inputFor tt addr call) pre q
           | None \<Rightarrow> localBody (rn_registry rn) cx b q \<and> localAdmitted ou cx rn (inputFor tt addr call) pre q))"

section \<open>Sequential calls\<close>

lemma sessionInvoke_adds:
  assumes run: "sessionInvoke ou cx (rn_registry rn) (rn_session rn) (ai_call i) approved w1 = (out, w')"
    and before: "adds w w1 pre"
      "checkBodies (\<lambda>p b q. localBody (rn_registry rn) cx b q \<and> localAdmitted ou cx rn i p q) [] pre"
      "safetyCleared rn i pre" "approved \<longrightarrow> consent i pre"
  shows "\<exists>seg. adds w w' (pre @ seg) \<and> verdicts seg = [] \<and> wo_granted w' = wo_granted w1 \<and>
    checkBodies (\<lambda>p b q. localBody (rn_registry rn) cx b q \<and> localAdmitted ou cx rn i p q) [] (pre @ seg)"
proof -
  let ?q = "toolRequest cx (rn_session rn) (ai_call i) approved"
  let ?A = "\<lambda>p b q. localBody (rn_registry rn) cx b q \<and> localAdmitted ou cx rn i p q"
  have same: "rq_approved ?q = approved" by (simp add: toolRequest_def Let_def split: option.splits)
  from InvokeRegistry_adds [OF run [unfolded sessionInvoke_def]] obtain seg where
    seg: "adds w1 w' seg" "verdicts seg = []" "wo_granted w' = wo_granted w1"
      "checkBodies (\<lambda>p b q'. q' = ?q \<and> verdicts p = [] \<and> localBody (rn_registry rn) cx b ?q \<and>
         registryAdmits ou cx (rn_registry rn) p ?q) [] seg" by blast
  have "checkBodies ?A (pre @ []) seg"
  proof (rule checkBodies_mono [OF seg(4)])
    fix p b q
    assume "q = ?q \<and> verdicts p = [] \<and> localBody (rn_registry rn) cx b ?q \<and> registryAdmits ou cx (rn_registry rn) p ?q"
    with before(3,4) show "?A (pre @ p) b q"
      by (auto simp: localAdmitted_def same intro: safetyCleared_quiet registryAdmits_mono)
  qed
  then have "checkBodies ?A [] (pre @ seg)" using before(2) by simp
  moreover have "adds w w' (pre @ seg)" using before(1) seg(1) by (rule adds_trans)
  ultimately show ?thesis using seg(2,3) by blast
qed

lemma invokeWithApproval_adds:
  assumes run: "invokeWithApproval ou cx rn (ai_addr i) (ai_call i) (ai_trust i) w = (out, w')" and local: "ai_provider i = []"
  shows "\<exists>seg. adds w w' seg \<and>
    checkBodies (\<lambda>p b q. localBody (rn_registry rn) cx b q \<and> localAdmitted ou cx rn i p q) [] seg"
proof -
  let ?A = "\<lambda>p b q. localBody (rn_registry rn) cx b q \<and> localAdmitted ou cx rn i p q"
  let ?invoke = "sessionInvoke ou cx (rn_registry rn) (rn_session rn) (ai_call i)"
  have i: "i = \<lparr>ai_call = ai_call i, ai_addr = ai_addr i, ai_trust = ai_trust i, ai_provider = []\<rparr>"
    using local by simp
  obtain s w1 where as: "askSafety rn i w = (s, w1)" by fastforce
  from askSafety_adds [OF as] obtain s1 where s1: "adds w w1 s1" "bodies s1 = []" "nothingGranted w w1 s1"
    "verdicts s1 = (if rn_safety rn = None then [] else [(i, s)])" "rn_safety rn = None \<longrightarrow> az_outcome s = Abstain"
    by (elim exE conjE) (rule that)
  note def = invokeWithApproval_def [of ou cx rn "ai_addr i" "ai_call i" "ai_trust i" w, folded i, unfolded Let_def as]
  consider (deny) "az_outcome s = Deny" | (prompt) "az_outcome s = Prompt" | (pass) "az_outcome s = Allow \<or> az_outcome s = Abstain"
    by (cases "az_outcome s") auto
  then show ?thesis
  proof cases
    case deny
    with run def have "w' = w1" by simp
    with s1 show ?thesis using checkBodies_none by blast
  next
    case prompt
    obtain g w2 where g: "interactiveAuthorizer ou cx rn i w1 = (g, w2)" by fastforce
    from interactive_adds [OF g] obtain s2 where s2: "adds w1 w2 s2" "quiet s2"
      "az_outcome g = Allow \<and> saidYes i s2 \<or> az_outcome g = Deny" by blast
    have both: "adds w w2 (s1 @ s2)" "bodies (s1 @ s2) = []"
      using adds_trans [OF s1(1) s2(1)] s1(2) s2(2) by (simp_all add: quiet_def)
    consider (no) "\<not> rn_approvals rn" | (refused) "rn_approvals rn" "az_outcome g \<noteq> Allow" | (yes) "rn_approvals rn" "az_outcome g = Allow"
      by blast
    then show ?thesis
    proof cases
      case no
      with run def prompt have "w' = w1" by simp
      with s1 show ?thesis using checkBodies_none by blast
    next
      case refused
      with run def prompt g have "w' = w2" by simp
      with both show ?thesis using checkBodies_none by blast
    next
      case yes
      with run def prompt g have inv: "?invoke True w2 = (out, w')" by simp
      have "saidYes i s2" using yes s2(3) by auto
      then have "safetyCleared rn i (s1 @ s2)" "consent i (s1 @ s2)"
        using s1(4) s2(2) prompt by (auto simp: safetyCleared_def quiet_def consent_def)
      with sessionInvoke_adds [OF inv both(1) checkBodies_none [OF both(2)]] show ?thesis by blast
    qed
  next
    case pass
    have cleared: "safetyCleared rn i s1" using s1(4) pass by (auto simp: safetyCleared_def)
    obtain res e w2 where inv: "?invoke False w1 = ((res, e), w2)" by (metis prod.exhaust)
    from sessionInvoke_adds [OF inv s1(1) checkBodies_none [OF s1(2)] cleared] obtain s2 where s2: "adds w w2 (s1 @ s2)" "verdicts s2 = []"
      "checkBodies ?A [] (s1 @ s2)" by blast
    show ?thesis
    proof (cases "e = None \<or> \<not> rn_approvals rn \<or> \<not> requiresApproval (the e)")
      case True
      with run def pass inv have "w' = w2" by (cases e; cases "az_outcome s") auto
      with s2 show ?thesis by blast
    next
      case False
      then obtain x where x: "e = Some x" "rn_approvals rn" "requiresApproval x" by auto
      obtain d w3 where d: "authorizeTool ou cx rn i Prompt w2 = (d, w3)" by fastforce
      from authorizeTool_adds [OF d] obtain s3 where s3: "adds w2 w3 s3" "bodies s3 = []"
        "az_outcome d = Allow \<longrightarrow> admits Prompt rn i s3" by blast
      have three: "adds w w3 (s1 @ s2 @ s3)" using adds_trans [OF s2(1) s3(1)] by simp
      have checked: "checkBodies ?A [] (s1 @ s2 @ s3)" using s2(3) s3(2) by (simp add: checkBodies_none)
      show ?thesis
      proof (cases "az_outcome d = Allow")
        case True
        with run def pass inv x d have again: "?invoke True w3 = (out, w')" by (cases "az_outcome s") simp_all
        from True s3(3) have ok: "safetyCleared rn i s3" "consent i s3" by (auto simp: admits_def)
        have "safetyCleared rn i (s1 @ s2 @ s3)"
          using cleared ok(1) s2(2) by (intro safetyCleared_append quiet_safetyCleared)
        moreover have "consent i (s1 @ s2 @ s3)" using ok(2) by simp
        ultimately show ?thesis
          using sessionInvoke_adds [OF again three checked] by blast
      next
        case False
        with run def pass inv x d have "w' = w3" by (cases "az_outcome s") simp_all
        with three checked show ?thesis by blast
      qed
    qed
  qed
qed

lemma provider_adds:
  assumes i: "i = \<lparr>ai_call = call, ai_addr = addr, ai_trust = trust, ai_provider = p\<rparr>"
    and before: "adds w w1 [CatalogResolved f]" "tc_ref call = Some f"
    and d: "authorizeToolProvider ou cx rn i (trustBase trust) w1 = (d, w2)"
  shows "\<exists>seg. adds w w2 seg \<and> bodies seg = [] \<and> (az_outcome d = Allow \<longrightarrow> providerAdmitted cx rn i seg (providerRequest cx call meta))"
proof -
  from authorizeToolProvider_adds [OF d] obtain seg where seg: "adds w1 w2 seg" "bodies seg = []"
    "az_outcome d = Allow \<longrightarrow> admits (trustBase trust) rn i seg \<and> policyCleared rn i seg" by blast
  let ?s = "[CatalogResolved f] @ seg"
  have "adds w w2 ?s" using before(1) seg(1) by (rule adds_trans)
  moreover have "bodies ?s = []" using seg(2) by simp
  moreover have "admits (trustBase trust) rn i ?s" "policyCleared rn i ?s"
    if "admits (trustBase trust) rn i seg \<and> policyCleared rn i seg"
    using that quiet_safetyCleared [of "[CatalogResolved f]" rn i seg] consent_mono [of i "[CatalogResolved f]" seg]
      policyCleared_mono [of rn i "[CatalogResolved f]" seg]
    by (auto simp: admits_def)
  ultimately show ?thesis using seg(3) before(2) unfolding providerAdmitted_def i
    by (intro exI [of _ ?s]) auto
qed

lemma resolveCatalogInvocation_adds:
  assumes "resolveCatalogInvocation ou rn call w = (r, w')"
  shows "(\<exists>f. tc_ref call = Some f \<and> adds w w' [CatalogResolved f] \<and> wo_granted w' = wo_granted w \<and> wo_used w' = wo_used w) \<or>
    failed r \<and> (\<exists>seg. adds w w' seg \<and> quiet seg \<and> nothingGranted w w' seg)"
proof (cases "tc_ref call")
  case None
  with assms show ?thesis by (auto simp: resolveCatalogInvocation_def nothingGranted_def)
next
  case (Some f)
  show ?thesis
  proof (cases "rn_catalog rn")
    case True
    show ?thesis
    proof (cases "ou_resolve ou (wo_events w) f")
      case (Inl e)
      with assms Some True show ?thesis
        by (auto simp: resolveCatalogInvocation_def nothingGranted_def isStored_def)
    next
      case (Inr x)
      obtain name meta where "x = (name, meta)" by fastforce
      with Inr assms Some True show ?thesis by (auto simp: resolveCatalogInvocation_def split: if_splits)
    qed
  next
    case False
    with assms Some show ?thesis by (auto simp: resolveCatalogInvocation_def nothingGranted_def)
  qed
qed

lemma bound_name: "bindCatalogToolCall call0 tt = Inr call \<Longrightarrow> tc_name call = tc_name call0 \<and> tc_id call = tc_id call0"
  by (auto simp: bindCatalogToolCall_def split: option.splits if_splits)

lemma invokeToolProvider_adds:
  assumes i: "i = \<lparr>ai_call = call, ai_addr = addr, ai_trust = trust, ai_provider = p\<rparr>"
    and before: "adds w w1 [CatalogResolved f]" "tc_ref call = Some f"
    and run: "invokeToolProvider ou cx rn p addr call trust meta w1 = (out, w')"
  shows "\<exists>seg. adds w w' seg \<and> checkBodies (\<lambda>pre b q. b = Provider p \<and> providerAdmitted cx rn i pre q) [] seg"
proof -
  obtain d w2 where d: "authorizeToolProvider ou cx rn i (trustBase trust) w1 = (d, w2)" by fastforce
  from provider_adds [OF i before d] obtain seg where seg: "adds w w2 seg" "bodies seg = []"
    "az_outcome d = Allow \<longrightarrow> providerAdmitted cx rn i seg (providerRequest cx call meta)" by blast
  show ?thesis
  proof (cases "az_outcome d = Allow")
    case True
    let ?b = "BodyRun (Provider p) (providerRequest cx call meta)"
    from True run d i have "w' = emit ?b w2" by (simp add: invokeToolProvider_def runBody_def)
    then have "adds w w' (seg @ [?b])" using seg(1) by (simp add: adds_def)
    with True seg show ?thesis by (intro exI [of _ "seg @ [?b]"]) (simp add: checkBodies_none)
  next
    case False
    with run d i have "w' = w2" by (simp add: invokeToolProvider_def)
    with seg show ?thesis using checkBodies_none by blast
  qed
qed

lemma nothing_run: "adds w w' seg \<and> quiet seg \<Longrightarrow> \<exists>seg. adds w w' seg \<and> checkBodies A [] seg"
  using checkBodies_quiet by blast

section \<open>Parallel batches\<close>

definition closureBody :: "turn_context \<Rightarrow> closure \<Rightarrow> body \<times> tool_request" where
  "closureBody cx c = (case c of
      RunPrepared p \<Rightarrow> (bodyOf cx (the (pi_handler p)) (pi_request p), pi_request p)
    | RunProvider p q \<Rightarrow> (Provider p, q))"

lemma sessionPrepare_adds:
  assumes prep: "sessionPrepare ou cx (rn_registry rn) (rn_session rn) (ai_call i) approved w1 = (r, w')"
    and before: "adds w w1 pre" "bodies pre = []" "safetyCleared rn i pre" "approved \<longrightarrow> consent i pre"
  shows "\<exists>seg. adds w w' seg \<and> bodies seg = [] \<and> safetyCleared rn i seg \<and>
    (\<forall>c. closureOf r = Inr c \<longrightarrow> (case closureBody cx c of (b, q) \<Rightarrow>
       localBody (rn_registry rn) cx b q \<and> localAdmitted ou cx rn i seg q))"
proof -
  let ?q = "toolRequest cx (rn_session rn) (ai_call i) approved"
  have same: "rq_approved ?q = approved" by (simp add: toolRequest_def Let_def split: option.splits)
  from Prepare_adds [OF prep [unfolded sessionPrepare_def]] obtain seg where seg: "adds w1 w' seg" "quiet seg"
    "case r of Inl pe \<Rightarrow> wo_used w' = wo_used w1
     | Inr p \<Rightarrow> wo_used w' = wo_used w1 @ [False] \<and> preparedFor (rn_registry rn) ?q (length (wo_used w1)) p \<and>
         registryAdmits ou cx (rn_registry rn) seg ?q" by blast
  have cleared: "safetyCleared rn i (pre @ seg)" using before(3) seg(2) by (simp add: quiet_def safetyCleared_quiet)
  have "case closureBody cx c of (b, q) \<Rightarrow> localBody (rn_registry rn) cx b q \<and> localAdmitted ou cx rn i (pre @ seg) q"
    if c: "closureOf r = Inr c" for c
  proof -
    from c obtain p where p: "r = Inr p" "c = RunPrepared p" by (cases r) (auto simp: closureOf_def)
    with seg(3) have pf: "preparedFor (rn_registry rn) ?q (length (wo_used w1)) p"
      and adm: "registryAdmits ou cx (rn_registry rn) seg ?q" by simp_all
    from pf obtain h where "pi_handler p = Some h" "map_of (rg_handlers (rn_registry rn)) (rq_name ?q) = Some h" "pi_request p = ?q"
      by (auto simp: preparedFor_def)
    with cleared before(4) adm p(2) show ?thesis
      by (auto simp: closureBody_def localBody_def localAdmitted_def same intro: registryAdmits_mono)
  qed
  moreover have "adds w w' (pre @ seg)" using before(1) seg(1) by (rule adds_trans)
  moreover have "bodies (pre @ seg) = []" using before(2) seg(2) by (simp add: quiet_def)
  ultimately show ?thesis using cleared by blast
qed

lemma prepareLocalTool_adds:
  assumes run: "prepareLocalTool ou cx rn (ai_addr i) (ai_call i) (ai_trust i) w = (r, w')" and local: "ai_provider i = []"
  shows "\<exists>seg. adds w w' seg \<and> bodies seg = [] \<and>
    (\<forall>c. r = Inr c \<longrightarrow> (case closureBody cx c of (b, q) \<Rightarrow>
       localBody (rn_registry rn) cx b q \<and> localAdmitted ou cx rn i seg q))"
proof -
  let ?prepare = "sessionPrepare ou cx (rn_registry rn) (rn_session rn) (ai_call i)"
  have i: "i = \<lparr>ai_call = ai_call i, ai_addr = ai_addr i, ai_trust = ai_trust i, ai_provider = []\<rparr>"
    using local by simp
  obtain s w1 where as: "askSafety rn i w = (s, w1)" by fastforce
  from askSafety_adds [OF as] obtain s1 where s1: "adds w w1 s1" "bodies s1 = []" "nothingGranted w w1 s1"
    "verdicts s1 = (if rn_safety rn = None then [] else [(i, s)])" "rn_safety rn = None \<longrightarrow> az_outcome s = Abstain"
    by (elim exE conjE) (rule that)
  note def = prepareLocalTool_def [of ou cx rn "ai_addr i" "ai_call i" "ai_trust i" w, folded i, unfolded Let_def as]
  consider (deny) "az_outcome s = Deny" | (prompt) "az_outcome s = Prompt" | (pass) "az_outcome s = Allow \<or> az_outcome s = Abstain"
    by (cases "az_outcome s") auto
  then show ?thesis
  proof cases
    case deny
    with run def have "w' = w1" "failed r" by auto
    with s1 show ?thesis by auto
  next
    case prompt
    obtain g w2 where g: "interactiveAuthorizer ou cx rn i w1 = (g, w2)" by fastforce
    from interactive_adds [OF g] obtain s2 where s2: "adds w1 w2 s2" "quiet s2"
      "az_outcome g = Allow \<and> saidYes i s2 \<or> az_outcome g = Deny" by blast
    have both: "adds w w2 (s1 @ s2)" "bodies (s1 @ s2) = []"
      using adds_trans [OF s1(1) s2(1)] s1(2) s2(2) by (simp_all add: quiet_def)
    consider (no) "\<not> rn_approvals rn" | (refused) "rn_approvals rn" "az_outcome g \<noteq> Allow" | (yes) "rn_approvals rn" "az_outcome g = Allow"
      by blast
    then show ?thesis
    proof cases
      case no
      with run def prompt have "w' = w1" "failed r" by auto
      with s1 show ?thesis by auto
    next
      case refused
      with run def prompt g have "w' = w2" "failed r" by auto
      with both show ?thesis by auto
    next
      case yes
      obtain r0 w3 where p: "?prepare True w2 = (r0, w3)" by fastforce
      with yes run def prompt g have out: "r = closureOf r0" "w' = w3" by auto
      have "saidYes i s2" using yes s2(3) by auto
      then have "safetyCleared rn i (s1 @ s2)" "consent i (s1 @ s2)"
        using s1(4) s2(2) prompt by (auto simp: safetyCleared_def quiet_def consent_def)
      with sessionPrepare_adds [OF p both] out show ?thesis by blast
    qed
  next
    case pass
    have cleared: "safetyCleared rn i s1" using s1(4) pass by (auto simp: safetyCleared_def)
    obtain r0 w2 where p: "?prepare False w1 = (r0, w2)" by fastforce
    from sessionPrepare_adds [OF p s1(1,2) cleared] obtain s2 where s2: "adds w w2 s2" "bodies s2 = []" "safetyCleared rn i s2"
      "\<forall>c. closureOf r0 = Inr c \<longrightarrow> (case closureBody cx c of (b, q) \<Rightarrow>
         localBody (rn_registry rn) cx b q \<and> localAdmitted ou cx rn i s2 q)" by blast
    show ?thesis
    proof (cases r0)
      case (Inr x)
      with run def pass p have "r = closureOf r0" "w' = w2" by (cases "az_outcome s"; auto simp: closureOf_def)+
      with s2 show ?thesis by blast
    next
      case (Inl pe)
      show ?thesis
      proof (cases "rn_approvals rn \<and> requiresApproval (pe_error pe)")
        case False
        with run def pass p Inl have "w' = w2" "failed r" by (cases "az_outcome s"; auto)+
        with s2 show ?thesis by auto
      next
        case True
        obtain d w3 where d: "authorizeTool ou cx rn i Prompt w2 = (d, w3)" by fastforce
        from authorizeTool_adds [OF d] obtain s3 where s3: "adds w2 w3 s3" "bodies s3 = []"
          "az_outcome d = Allow \<longrightarrow> admits Prompt rn i s3" by blast
        have three: "adds w w3 (s2 @ s3)" "bodies (s2 @ s3) = []"
          using adds_trans [OF s2(1) s3(1)] s2(2) s3(2) by simp_all
        show ?thesis
        proof (cases "az_outcome d = Allow")
          case allow: True
          obtain r1 w4 where q: "?prepare True w3 = (r1, w4)" by fastforce
          with run def pass p Inl True allow d have out: "r = closureOf r1" "w' = w4" by (cases "az_outcome s"; auto)+
          from allow s3(3) have ok: "safetyCleared rn i s3" "consent i s3" by (auto simp: admits_def)
          have "safetyCleared rn i (s2 @ s3)" "consent i (s2 @ s3)"
            using s2(3) ok by (simp_all add: safetyCleared_append)
          with sessionPrepare_adds [OF q three] out show ?thesis by blast
        next
          case False
          with run def pass p Inl True d have "w' = w3" "failed r" by (cases "az_outcome s"; auto)+
          with three show ?thesis by auto
        qed
      qed
    qed
  qed
qed

lemma prepareProviderTool_adds:
  assumes i: "i = \<lparr>ai_call = call, ai_addr = addr, ai_trust = trust, ai_provider = p\<rparr>"
    and before: "adds w w1 [CatalogResolved f]" "tc_ref call = Some f"
    and run: "prepareProviderTool ou cx rn p addr call trust meta w1 = (r, w')"
  shows "\<exists>seg. adds w w' seg \<and> bodies seg = [] \<and>
    (\<forall>c. r = Inr c \<longrightarrow> (case closureBody cx c of (b, q) \<Rightarrow> b = Provider p \<and> providerAdmitted cx rn i seg q))"
proof -
  obtain d w2 where d: "authorizeToolProvider ou cx rn i (trustBase trust) w1 = (d, w2)" by fastforce
  from provider_adds [OF i before d] obtain seg where seg: "adds w w2 seg" "bodies seg = []"
    "az_outcome d = Allow \<longrightarrow> providerAdmitted cx rn i seg (providerRequest cx call meta)" by blast
  have "w' = w2" "az_outcome d \<noteq> Allow \<longrightarrow> failed r"
    "az_outcome d = Allow \<longrightarrow> r = Inr (RunProvider p (providerRequest cx call meta))"
    using run d i by (auto simp: prepareProviderTool_def split: if_splits)
  with seg show ?thesis by (intro exI [of _ seg]) (auto simp: closureBody_def)
qed

section \<open>Properties\<close>

text \<open>
  No tool runs unauthorised: whatever the approvers, the safety authorizer, the policies, the
  stores and the user answer, the body of a tool is reached only for a call that is not excluded
  and is bound to its catalog reference, after the safety authorizer did not deny it and, where
  it asked for a prompt, the user said yes. A local tool must be registered, its policy must
  have allowed the request or the user or a grant approved it, the decision must have been
  audited, and the execution view must permit it; the tool of a provider needs the verdict of
  the runner's policy or a grant, the consent that its trust demands, and a live catalog entry.
\<close>

theorem no_tool_runs_unauthorised:
  "\<exists>seg. adds w (snd (invokeTool ou cx rn tt addr call w)) seg \<and>
     checkBodies (mayRun ou cx rn tt addr call) [] seg"
proof -
  obtain out w' where run: "invokeTool ou cx rn tt addr call w = (out, w')" by fastforce
  let ?goal = "\<exists>seg. adds w w' seg \<and> checkBodies (mayRun ou cx rn tt addr call) [] seg"
  have ?goal
  proof (cases "toolExcluded cx (tc_name call) \<or> failed (bindCatalogToolCall call tt)")
    case True
    with run have "w' = w" by (cases "bindCatalogToolCall call tt") (auto simp: invokeTool_def split: if_splits)
    then show ?thesis using nothing_run [of w w' "[]"] by simp
  next
    case False
    then obtain c where c: "bindCatalogToolCall call tt = Inr c" and ok: "\<not> toolExcluded cx (tc_name call)"
      by (cases "bindCatalogToolCall call tt") auto
    let ?i = "inputFor tt addr c"
    show ?thesis
    proof (cases "map_of (tt_provider tt) (tc_name c)")
      case None
      with run c ok have "invokeWithApproval ou cx rn (ai_addr ?i) (ai_call ?i) (ai_trust ?i) w = (out, w')"
        by (simp add: invokeTool_def inputFor_def)
      from invokeWithApproval_adds [OF this] None obtain seg where "adds w w' seg"
        "checkBodies (\<lambda>p b q. localBody (rn_registry rn) cx b q \<and> localAdmitted ou cx rn ?i p q) [] seg"
        by (auto simp: inputFor_def)
      moreover have "mayRun ou cx rn tt addr call = (\<lambda>p b q. localBody (rn_registry rn) cx b q \<and> localAdmitted ou cx rn ?i p q)"
        using c ok None by (auto simp: mayRun_def fun_eq_iff)
      ultimately show ?thesis by auto
    next
      case (Some p)
      obtain r w1 where r: "resolveCatalogInvocation ou rn c w = (r, w1)" by fastforce
      show ?thesis
      proof (cases r)
        case (Inl e)
        with run c ok Some r have "w' = w1" by (simp add: invokeTool_def)
        with resolveCatalogInvocation_adds [OF r] show ?thesis
          using nothing_run by (metis isBody_simps(9) isVerdict_simps(9) quietSteps_simps(1) quietSteps_simps(3))
      next
        case (Inr meta)
        with resolveCatalogInvocation_adds [OF r] obtain f where f: "tc_ref c = Some f" "adds w w1 [CatalogResolved f]"
          by auto
        from run c ok Some r Inr have
          run': "invokeToolProvider ou cx rn p addr c (trustOf tt (tc_name c)) meta w1 = (out, w')" by (simp add: invokeTool_def)
        have i: "?i = \<lparr>ai_call = c, ai_addr = addr, ai_trust = trustOf tt (tc_name c), ai_provider = p\<rparr>"
          using Some by (simp add: inputFor_def)
        have "mayRun ou cx rn tt addr call = (\<lambda>pre b q. b = Provider p \<and> providerAdmitted cx rn ?i pre q)"
          using c ok Some by (auto simp: mayRun_def fun_eq_iff)
        with invokeToolProvider_adds [OF i f(2,1) run'] show ?thesis by simp
      qed
    qed
  qed
  with run show ?thesis by simp
qed

text \<open>
  The admission of a call for a parallel batch runs no body, and the closure that it returns
  runs exactly one body, for which all the conditions of an authorised call hold already.
\<close>

theorem prepared_calls_are_admitted:
  "case prepareParallelTool ou cx rn tt addr call w of (r, w') \<Rightarrow>
     \<exists>seg. adds w w' seg \<and> bodies seg = [] \<and>
       (case r of Inl e \<Rightarrow> True
        | Inr c \<Rightarrow> (case closureBody cx c of (b, q) \<Rightarrow> mayRun ou cx rn tt addr call seg b q))"
proof -
  obtain r w' where run: "prepareParallelTool ou cx rn tt addr call w = (r, w')" by fastforce
  have "\<exists>seg. adds w w' seg \<and> bodies seg = [] \<and>
    (\<forall>c. r = Inr c \<longrightarrow> (case closureBody cx c of (b, q) \<Rightarrow> mayRun ou cx rn tt addr call seg b q))"
  proof (cases "toolExcluded cx (tc_name call) \<or> failed (bindCatalogToolCall call tt)")
    case True
    with run have "w' = w" "failed r"
      by (cases "bindCatalogToolCall call tt"; auto simp: prepareParallelTool_def split: if_splits)+
    then show ?thesis by auto
  next
    case False
    then obtain c where c: "bindCatalogToolCall call tt = Inr c" and ok: "\<not> toolExcluded cx (tc_name call)"
      by (cases "bindCatalogToolCall call tt") auto
    let ?i = "inputFor tt addr c"
    show ?thesis
    proof (cases "map_of (tt_provider tt) (tc_name c)")
      case None
      with run c ok have "prepareLocalTool ou cx rn (ai_addr ?i) (ai_call ?i) (ai_trust ?i) w = (r, w')"
        by (simp add: prepareParallelTool_def inputFor_def)
      from prepareLocalTool_adds [OF this] None obtain seg where "adds w w' seg" "bodies seg = []"
        "\<forall>c. r = Inr c \<longrightarrow> (case closureBody cx c of (b, q) \<Rightarrow>
           localBody (rn_registry rn) cx b q \<and> localAdmitted ou cx rn ?i seg q)"
        by (auto simp: inputFor_def)
      with c ok None show ?thesis by (intro exI [of _ seg]) (simp add: mayRun_def)
    next
      case (Some p)
      obtain m w1 where m: "resolveCatalogInvocation ou rn c w = (m, w1)" by fastforce
      show ?thesis
      proof (cases m)
        case (Inl e)
        with run c ok Some m have "w' = w1" "failed r" by (auto simp: prepareParallelTool_def)
        with resolveCatalogInvocation_adds [OF m] show ?thesis
          by (auto simp: quiet_def)
      next
        case (Inr meta)
        with resolveCatalogInvocation_adds [OF m] obtain f where f: "tc_ref c = Some f" "adds w w1 [CatalogResolved f]"
          by auto
        from run c ok Some m Inr have
          run': "prepareProviderTool ou cx rn p addr c (trustOf tt (tc_name c)) meta w1 = (r, w')"
          by (simp add: prepareParallelTool_def)
        have i: "?i = \<lparr>ai_call = c, ai_addr = addr, ai_trust = trustOf tt (tc_name c), ai_provider = p\<rparr>"
          using Some by (simp add: inputFor_def)
        from prepareProviderTool_adds [OF i f(2,1) run'] c ok Some show ?thesis by (simp add: mayRun_def)
      qed
    qed
  qed
  with run show ?thesis by (cases r) auto
qed

end
