(* ===== verification/ToolAuthzLaws.thy ===== *)
theory ToolAuthzLaws
  imports ToolAuthzSpec
begin

text \<open>
  Laws of the authorization: the resolver and the pipelines that spell it out, fresh approval,
  and the agreement of the admission for parallel batches with sequential calls. The samples are
  a runner with one local tool and one tool of a provider.
\<close>

section \<open>The resolver\<close>

text \<open>An authorizer whose verdict does not depend on the history.\<close>

definition stateless :: "(authz_input \<Rightarrow> authz_decision) \<Rightarrow> authorizer" where
  "stateless f i w = (f i, w)"

definition strongest :: "authz_outcome \<Rightarrow> authz_outcome set \<Rightarrow> authz_outcome" where
  "strongest seed outs =
     (if Deny \<in> outs then Deny else if seed = Prompt \<or> Prompt \<in> outs then Prompt
      else if Allow \<in> outs then Allow else seed)"

lemma resolveFrom_strongest:
  "az_outcome (fst (resolveFrom best i (List.map (map_option stateless) fs) w)) =
     strongest (az_outcome best) {az_outcome (f i) | f. Some f \<in> set fs}"
proof (induction fs arbitrary: best)
  case Nil
  then show ?case by (simp add: strongest_def)
next
  case (Cons x fs)
  show ?case
  proof (cases x)
    case None
    with Cons show ?thesis by simp
  next
    case (Some f)
    have outs: "{az_outcome (g i) | g. Some g \<in> set (x # fs)} =
        insert (az_outcome (f i)) {az_outcome (g i) | g. Some g \<in> set fs}"
      using Some by auto
    show ?thesis unfolding outs using Cons Some
      by (cases "az_outcome (f i)") (auto simp: stateless_def strongest_def)
  qed
qed

text \<open>The outcome after a resolution: a remaining prompt is put to the user, if that is possible.\<close>

definition settle ::
  "outside \<Rightarrow> turn_context \<Rightarrow> runner \<Rightarrow> authz_input \<Rightarrow> authz_decision \<times> world \<Rightarrow> authz_outcome \<times> world" where
  "settle ou cx rn i r = (case r of (d, w) \<Rightarrow>
     if az_outcome d = Prompt then
       (if rn_approvals rn then apfst az_outcome (interactiveAuthorizer ou cx rn i w) else (Deny, w))
     else (az_outcome d, w))"

lemma raise_chain:
  "base \<noteq> Deny \<Longrightarrow> raise base x = (case x of Prompt \<Rightarrow> Prompt | Allow \<Rightarrow> if base \<noteq> Prompt then Allow else base | _ \<Rightarrow> base)"
  by (cases x) (simp_all add: raise_def)

lemma finishAuthz_settles:
  "apfst az_outcome (finishAuthz ou cx rn i (az_outcome best) w) =
     settle ou cx rn i (resolveFrom best i [Some (askSafety rn)] w)"
proof -
  obtain s w1 where s: "askSafety rn i w = (s, w1)" by fastforce
  then show ?thesis
    by (cases "az_outcome s"; cases "az_outcome best") (simp_all add: finishAuthz_def settle_def raise_def)
qed

section \<open>Samples\<close>

definition sampleAddr :: message_address where
  "sampleAddr = \<lparr>ma_tenant = [], ma_user = ''u'', ma_ownership = [], ma_workspace = ''w'', ma_thread = ''t'', ma_task = ''k''\<rparr>"

definition sampleCall :: "string \<Rightarrow> tool_call" where
  "sampleCall name = \<lparr>tc_id = ''c1'', tc_name = name, tc_args = ''{}'', tc_addr = sampleAddr, tc_ref = None\<rparr>"

definition sampleRef :: tool_reference where
  "sampleRef = \<lparr>tf_provider = ''p'', tf_registration = ''r'', tf_generation = ''g'', tf_name = ''deploy'', tf_revision = ''1''\<rparr>"

text \<open>Everything answers: the bodies succeed, nothing fails, the user's answer is given.\<close>

definition sampleOutside :: "reply \<Rightarrow> outside" where
  "sampleOutside answer = \<lparr>ou_digest = (\<lambda>s. s), ou_error_json = (\<lambda>s. s), ou_fault = (\<lambda>h e. None),
     ou_body = (\<lambda>h b q. (noResult\<lparr>to_call := rq_call q, to_name := rq_name q, to_payload := ''ok''\<rparr>, None)),
     ou_granted = (\<lambda>h a b. Some False), ou_await = (\<lambda>h a b. answer), ou_ended = (\<lambda>h. None),
     ou_steered = (\<lambda>h. []), ou_model = (\<lambda>h. Inl (errorf ''no model'')),
     ou_resolve = (\<lambda>h f. Inr (tf_name f, []))\<rparr>"

definition sampleContext :: turn_context where
  "sampleContext = \<lparr>cx_access = None, cx_scope = None, cx_delegate = None, cx_message = Some ''m'',
     cx_authority = None, cx_excluded = [], cx_emitter = True\<rparr>"

definition denyAll :: policy where
  "denyAll = OtherPolicy (\<lambda>h q. \<lparr>td_code = DecisionDeny, td_reason = ''forbidden'', td_audit = ''deny''\<rparr>)"

definition sampleRunner :: "policy option \<Rightarrow> runner" where
  "sampleRunner p = \<lparr>rn_registry = (NewAuditedRegistry p True)\<lparr>rg_handlers := [(''read'', 0), (''shell'', 1)]\<rparr>,
     rn_session = noAuthority, rn_safety = None, rn_approvals = True, rn_granter = Some False, rn_grants = False,
     rn_scopes = [], rn_policy = None, rn_approvers = [], rn_catalog = True, rn_publisher = False, rn_observers = 0,
     rn_turn_observers = 0\<rparr>"

definition sampleTools :: turn_tools where
  "sampleTools = \<lparr>tt_provider = [(''deploy'', ''p'')],
     tt_trust = [(''deploy'', TrustRequiresFreshApproval), (''shell'', TrustRequiresFreshApproval)],
     tt_concurrency = [(''read'', ConcurrencyParallelSafe)], tt_ref = [(''deploy'', sampleRef)]\<rparr>"

definition emptyWorld :: world where
  "emptyWorld = \<lparr>wo_granted = {}, wo_used = [], wo_events = []\<rparr>"

definition yesAlways :: reply where
  "yesAlways = Answer \<lparr>de_granted = True, de_scope = ''always''\<rparr>"

section \<open>Fresh approval\<close>

lemma fresh_base: "trustBase TrustRequiresFreshApproval = Prompt"
  by (simp add: trustBase_def)

lemma fresh_consent: "ai_trust i = TrustRequiresFreshApproval \<Longrightarrow> consent i pre \<longleftrightarrow> saidYes i pre"
  by (simp add: consent_def byGrant_def)

lemma runBody_grants: "runBody ou b q w = (out, w') \<Longrightarrow> nothingGranted w w' [BodyRun b q] \<and> adds w w' [BodyRun b q]"
  by (auto simp: runBody_def nothingGranted_def isStored_def)

lemma resolveCatalog_quiet:
  assumes "resolveCatalogInvocation ou rn call w = (r, w')"
  shows "\<exists>seg. adds w w' seg \<and> quiet seg \<and> nothingGranted w w' seg"
proof -
  from resolveCatalogInvocation_adds [OF assms] consider
    (found) f where "adds w w' [CatalogResolved f]" "wo_granted w' = wo_granted w"
    | (lost) "\<exists>seg. adds w w' seg \<and> quiet seg \<and> nothingGranted w w' seg" by blast
  then show ?thesis
  proof cases
    case (found f)
    then show ?thesis by (intro exI [of _ "[CatalogResolved f]"]) (simp add: nothingGranted_def isStored_def)
  qed
qed

lemma fresh_provider:
  assumes run: "invokeToolProvider ou cx rn p addr c TrustRequiresFreshApproval meta w = (out, w')"
  shows "\<exists>seg. adds w w' seg \<and> nothingGranted w w' seg \<and>
    checkBodies (\<lambda>pre b q.
      saidYes \<lparr>ai_call = c, ai_addr = addr, ai_trust = TrustRequiresFreshApproval, ai_provider = p\<rparr> pre) [] seg"
proof -
  let ?i = "\<lparr>ai_call = c, ai_addr = addr, ai_trust = TrustRequiresFreshApproval, ai_provider = p\<rparr>"
  obtain d w1 where d: "authorizeToolProvider ou cx rn ?i Prompt w = (d, w1)" by fastforce
  from authorizeToolProvider_adds [OF d] obtain s where s: "adds w w1 s" "bodies s = []" "nothingGranted w w1 s"
    "az_outcome d = Allow \<longrightarrow> saidYes ?i s" by (auto simp: admits_def fresh_consent)
  show ?thesis
  proof (cases "az_outcome d = Allow")
    case True
    let ?b = "BodyRun (Provider p) (providerRequest cx c meta)"
    from True run d have "runBody ou (Provider p) (providerRequest cx c meta) w1 = (out, w')"
      by (simp add: invokeToolProvider_def fresh_base)
    from runBody_grants [OF this] s(1,3) have "adds w w' (s @ [?b])" "nothingGranted w w' (s @ [?b])"
      by (blast intro: adds_trans nothingGranted_trans)+
    with True s(2,4) show ?thesis by (intro exI [of _ "s @ [?b]"]) (simp add: checkBodies_none)
  next
    case False
    with run d have "w' = w1" by (simp add: invokeToolProvider_def fresh_base)
    with s show ?thesis by (intro exI [of _ s]) (simp add: checkBodies_none)
  qed
qed

text \<open>
  C11: A provider's tool that requires fresh approval is put to the user at every call: its body
  runs only after the user said yes to this very call, and no grant is recorded or stored.
\<close>

theorem fresh_approval_is_asked_each_time:
  assumes "map_of (tt_provider tt) (tc_name call) = Some p"
    and "trustOf tt (tc_name call) = TrustRequiresFreshApproval"
  shows "case invokeTool ou cx rn tt addr call w of (out, w') \<Rightarrow>
    \<exists>seg. adds w w' seg \<and> nothingGranted w w' seg \<and>
      checkBodies (\<lambda>pre b q. saidYes (inputFor tt addr call) pre) [] seg"
proof -
  obtain out w' where run: "invokeTool ou cx rn tt addr call w = (out, w')" by fastforce
  let ?fresh = "\<lambda>pre b q. saidYes (inputFor tt addr call) pre"
  have "\<exists>seg. adds w w' seg \<and> nothingGranted w w' seg \<and> checkBodies ?fresh [] seg"
  proof (cases "toolExcluded cx (tc_name call) \<or> failed (bindCatalogToolCall call tt)")
    case True
    with run have "w' = w" by (cases "bindCatalogToolCall call tt") (auto simp: invokeTool_def split: if_splits)
    then show ?thesis by (intro exI [of _ "[]"]) (simp add: nothingGranted_def)
  next
    case False
    then obtain c where c: "bindCatalogToolCall call tt = Inr c" and ok: "\<not> toolExcluded cx (tc_name call)"
      by (cases "bindCatalogToolCall call tt") auto
    note name = bound_name [OF c]
    obtain r w1 where r: "resolveCatalogInvocation ou rn c w = (r, w1)" by fastforce
    from resolveCatalog_quiet [OF r] obtain s where s: "adds w w1 s" "quiet s" "nothingGranted w w1 s" by blast
    show ?thesis
    proof (cases r)
      case (Inl e)
      with run c ok assms name r have "w' = w1" by (simp add: invokeTool_def)
      with s show ?thesis using checkBodies_quiet by blast
    next
      case (Inr meta)
      let ?i = "\<lparr>ai_call = c, ai_addr = addr, ai_trust = TrustRequiresFreshApproval, ai_provider = p\<rparr>"
      have "invokeToolProvider ou cx rn p addr c TrustRequiresFreshApproval meta w1 = (out, w')"
        using run c ok assms name r Inr by (simp add: invokeTool_def)
      from fresh_provider [OF this] obtain s' where s': "adds w1 w' s'" "nothingGranted w1 w' s'"
        "checkBodies (\<lambda>pre b q. saidYes ?i pre) [] s'" by blast
      have "saidYes ?i pre \<Longrightarrow> saidYes (inputFor tt addr call) (s @ pre)" for pre
        using name saidYes_mono [of ?i s pre] by (simp add: saidYes_def inputFor_def)
      with checkBodies_mono [OF s'(3), of ?fresh s] have "checkBodies ?fresh [] (s @ s')"
        using s(2) by (simp add: checkBodies_quiet)
      with s s' show ?thesis by (intro exI [of _ "s @ s'"]) (blast intro: adds_trans nothingGranted_trans)
    qed
  qed
  with run show ?thesis by simp
qed

text \<open>The user is asked even after a grant for the session was given for the same tool.\<close>

theorem fresh_approval_is_asked_each_time_witness:
  "\<exists>seg. adds emptyWorld (snd (invokeTool (sampleOutside yesAlways) sampleContext (sampleRunner None) sampleTools
       sampleAddr (sampleCall ''deploy'') emptyWorld)) seg \<and>
     checkBodies (\<lambda>pre b q. saidYes (inputFor sampleTools sampleAddr (sampleCall ''deploy'')) pre) [] seg"
proof -
  have "map_of (tt_provider sampleTools) (tc_name (sampleCall ''deploy'')) = Some ''p''"
    "trustOf sampleTools (tc_name (sampleCall ''deploy'')) = TrustRequiresFreshApproval"
    by (simp_all add: sampleTools_def sampleCall_def trustOf_def)
  from fresh_approval_is_asked_each_time [OF this, where ou = "sampleOutside yesAlways" and cx = sampleContext and
      rn = "sampleRunner None" and addr = sampleAddr and w = emptyWorld]
  show ?thesis by (auto split: prod.splits)
qed

text \<open>
  For a local tool the hint is not consulted before the registry's policy is: where that allows
  the request (or there is none), the body runs and nobody is asked.
\<close>

lemma fresh_local_tool_runs_unasked:
  "trustOf sampleTools ''shell'' = TrustRequiresFreshApproval \<and>
   wo_events (snd (invokeTool (sampleOutside NoAnswer) sampleContext (sampleRunner None) sampleTools sampleAddr
     (sampleCall ''shell'') emptyWorld)) =
   [BodyRun (Handler 1) (toolRequest sampleContext noAuthority (sampleCall ''shell'') False)]"
  by code_simp

text \<open>
  A policy that denies a local tool is not the last word either: its error is that of a missing
  approval, so the user is asked, and a yes runs the body.
\<close>

lemma denied_local_tool_can_be_approved:
  "bodies (wo_events (snd (invokeTool (sampleOutside yesAlways) sampleContext (sampleRunner (Some denyAll)) sampleTools
     sampleAddr (sampleCall ''read'') emptyWorld))) =
   [(Handler 0, toolRequest sampleContext noAuthority (sampleCall ''read'') True)]"
  by code_simp

section \<open>The resolver and the pipelines\<close>

text \<open>
  The resolver takes the strongest verdict, whatever the order of the authorizers: a denial
  wins, then a prompt, then an allowance, and without any of them the seed stands.
\<close>

theorem strongest_verdict_wins:
  "az_outcome (fst (resolveAuthz i seed (List.map (map_option stateless) fs) w)) =
     strongest seed {az_outcome (f i) | f. Some f \<in> set fs}"
  using resolveFrom_strongest [of "outcome seed" i fs w] by (simp add: resolveAuthz_def)

lemma finishAuthz_from:
  "az_outcome best = b \<Longrightarrow>
   apfst az_outcome (finishAuthz ou cx rn i b w) = settle ou cx rn i (resolveFrom best i [Some (askSafety rn)] w)"
  using finishAuthz_settles [of ou cx rn i best w] by simp

text \<open>Behind a grant that abstains, the policy folds into the base as the resolver folds it into its best verdict.\<close>

lemma policyStage_agrees:
  assumes g: "grantAuthorizer ou rn i w = (g, w1)" "az_outcome g = Abstain" and p: "rn_policy rn = Some p"
  shows "apfst az_outcome (authorizeToolProvider ou cx rn i base w) =
    settle ou cx rn i (resolveAuthz i base [Some (policyAuthorizer (rn_policy rn)), Some (askSafety rn)] w1)"
proof -
  obtain d w2 where d: "policyAuthorizer (Some p) i w1 = (d, w2)" by fastforce
  let ?best = "case az_outcome d of Prompt \<Rightarrow> d | Allow \<Rightarrow> if base \<noteq> Prompt then d else outcome base | _ \<Rightarrow> outcome base"
  have left: "authorizeToolProvider ou cx rn i base w =
      (if az_outcome d = Deny then (d, w2) else finishAuthz ou cx rn i (raise base (az_outcome d)) w2)"
    using g p d by (simp add: authorizeToolProvider_def)
  have right: "resolveAuthz i base [Some (policyAuthorizer (rn_policy rn)), Some (askSafety rn)] w1 =
      (if az_outcome d = Deny then (d, w2) else resolveFrom ?best i [Some (askSafety rn)] w2)"
    using p d by (cases "az_outcome d") (simp_all add: resolveAuthz_def)
  have "az_outcome ?best = raise base (az_outcome d)" if "az_outcome d \<noteq> Deny"
    using that by (cases "az_outcome d") (simp_all add: raise_def)
  with finishAuthz_from have "az_outcome d \<noteq> Deny \<Longrightarrow>
      apfst az_outcome (finishAuthz ou cx rn i (raise base (az_outcome d)) w2) =
      settle ou cx rn i (resolveFrom ?best i [Some (askSafety rn)] w2)" by blast
  with left right show ?thesis by (cases "az_outcome d = Deny") (simp_all add: settle_def)
qed

text \<open>
  C12: The pipeline for the tools of providers, which the runner spells out by hand, is the
  resolver over the policy and the safety authorizer, after a grant had its say, with a
  remaining prompt put to the user: same outcome, same history.
\<close>

theorem pipeline_agrees_with_resolver:
  "apfst az_outcome (authorizeToolProvider ou cx rn i base w) =
     (case grantAuthorizer ou rn i w of (g, w1) \<Rightarrow>
        settle ou cx rn i
          (if az_outcome g = Allow then resolveAuthz i Allow [Some (askSafety rn)] w1
           else resolveAuthz i base [Some (policyAuthorizer (rn_policy rn)), Some (askSafety rn)] w1))"
proof -
  obtain g w1 where g: "grantAuthorizer ou rn i w = (g, w1)" by fastforce
  from grant_adds [OF g] consider (allow) "az_outcome g = Allow" | (abstain) "az_outcome g = Abstain" by auto
  then show ?thesis
  proof cases
    case allow
    with g have "authorizeToolProvider ou cx rn i base w = finishAuthz ou cx rn i Allow w1"
      by (simp add: authorizeToolProvider_def)
    with allow g finishAuthz_from [of "outcome Allow" Allow] show ?thesis by (simp add: resolveAuthz_def)
  next
    case abstain
    show ?thesis
    proof (cases "rn_policy rn")
      case None
      with g abstain have "authorizeToolProvider ou cx rn i base w = finishAuthz ou cx rn i base w1"
        by (simp add: authorizeToolProvider_def)
      with None g abstain finishAuthz_from [of "outcome base" base] show ?thesis
        by (simp add: resolveAuthz_def policyAuthorizer_def)
    next
      case (Some p)
      with policyStage_agrees [OF g abstain] g abstain show ?thesis by simp
    qed
  qed
qed

section \<open>Parallel admission mirrors sequential calls\<close>

lemma refusal_apart: "refusal ou e w = (case ou_ended ou (wo_events w) of Some x \<Rightarrow> x | None \<Rightarrow> e)"
  by (simp add: refusal_def)

definition runAfter ::
  "outside \<Rightarrow> turn_context \<Rightarrow> (tool_error, closure) result \<times> world \<Rightarrow> (tool_result \<times> tool_error option) \<times> world" where
  "runAfter ou cx r = (case r of (Inl e, w) \<Rightarrow> ((noResult, Some e), w) | (Inr c, w) \<Rightarrow> runClosure ou cx c w)"

text \<open>Without a sink for its events the registry's invocation is preparation and the closure.\<close>

lemma sessionInvoke_split:
  "\<not> rg_events r \<Longrightarrow>
   sessionInvoke ou cx r a call approved w = runAfter ou cx (apfst closureOf (sessionPrepare ou cx r a call approved w))"
  by (cases "sessionPrepare ou cx r a call approved w"; cases "fst (sessionPrepare ou cx r a call approved w)")
    (auto simp: sessionInvoke_def sessionPrepare_def InvokeRegistry_def runAfter_def closureOf_def runClosure_def
      emitToolEvent_def Let_def)

lemma invokeToolProvider_split:
  "invokeToolProvider ou cx rn p addr call trust meta w = runAfter ou cx (prepareProviderTool ou cx rn p addr call trust meta w)"
  by (auto simp: invokeToolProvider_def prepareProviderTool_def runAfter_def runClosure_def Let_def split: prod.splits)

lemma invokeWithApproval_split:
  assumes sink: "\<not> rg_events (rn_registry rn)"
    and prep: "prepareLocalTool ou cx rn addr call trust w = r"
    and quiet: "\<And>x. snd (fst (runAfter ou cx r)) = Some x \<Longrightarrow> \<not> failed (fst r) \<Longrightarrow> \<not> requiresApproval x"
  shows "invokeWithApproval ou cx rn addr call trust w = runAfter ou cx r"
proof -
  let ?i = "\<lparr>ai_call = call, ai_addr = addr, ai_trust = trust, ai_provider = []\<rparr>"
  let ?prepare = "sessionPrepare ou cx (rn_registry rn) (rn_session rn) call"
  note split = sessionInvoke_split [OF sink]
  obtain s w1 where as: "askSafety rn ?i w = (s, w1)" by fastforce
  note left = invokeWithApproval_def [of ou cx rn addr call trust w, unfolded Let_def as]
  note right = prepareLocalTool_def [of ou cx rn addr call trust w, unfolded Let_def as]
  consider (deny) "az_outcome s = Deny" | (prompt) "az_outcome s = Prompt" | (pass) "az_outcome s = Allow \<or> az_outcome s = Abstain"
    by (cases "az_outcome s") auto
  then show ?thesis
  proof cases
    case deny
    with left right prep show ?thesis by (auto simp: runAfter_def)
  next
    case prompt
    obtain g w2 where g: "interactiveAuthorizer ou cx rn ?i w1 = (g, w2)" by fastforce
    with prompt left right prep show ?thesis by (auto simp: runAfter_def split)
  next
    case pass
    obtain p w2 where p: "?prepare False w1 = (p, w2)" by fastforce
    show ?thesis
    proof (cases p)
      case (Inr x)
      with pass right prep p have r: "r = (Inr (RunPrepared x), w2)" by (cases "az_outcome s") auto
      obtain res e w3 where run: "runClosure ou cx (RunPrepared x) w2 = ((res, e), w3)" by (metis prod.exhaust)
      then have after: "runAfter ou cx r = ((res, e), w3)" using r by (simp add: runAfter_def)
      have "sessionInvoke ou cx (rn_registry rn) (rn_session rn) call False w1 = ((res, e), w3)"
        using p Inr after r by (simp add: split closureOf_def)
      moreover have "e = None \<or> \<not> requiresApproval (the e)" using quiet after r by (cases e) auto
      ultimately show ?thesis using pass left after by (cases "az_outcome s"; cases e) auto
    next
      case (Inl pe)
      have inv: "sessionInvoke ou cx (rn_registry rn) (rn_session rn) call False w1 = ((noResult, Some (pe_error pe)), w2)"
        using p Inl by (simp add: split closureOf_def runAfter_def)
      obtain d w3 where d: "authorizeTool ou cx rn ?i Prompt w2 = (d, w3)" by fastforce
      consider (stop) "\<not> rn_approvals rn \<or> \<not> requiresApproval (pe_error pe)"
        | (refused) "rn_approvals rn" "requiresApproval (pe_error pe)" "az_outcome d \<noteq> Allow"
        | (again) "rn_approvals rn" "requiresApproval (pe_error pe)" "az_outcome d = Allow" by blast
      then show ?thesis
      proof cases
        case stop
        then have "r = (Inl (pe_error pe), w2)" using pass right prep p Inl by (cases "az_outcome s") auto
        moreover have "invokeWithApproval ou cx rn addr call trust w = ((noResult, Some (pe_error pe)), w2)"
          using stop pass left inv by (cases "az_outcome s") auto
        ultimately show ?thesis by (simp add: runAfter_def)
      next
        case refused
        then have "r = (Inl (refusal ou (pe_error pe) w3), w3)" using pass right prep p Inl d by (cases "az_outcome s") auto
        moreover have "invokeWithApproval ou cx rn addr call trust w = ((noResult, Some (refusal ou (pe_error pe) w3)), w3)"
          using refused pass left inv d by (cases "az_outcome s") auto
        ultimately show ?thesis by (simp add: runAfter_def)
      next
        case again
        then have "r = apfst closureOf (?prepare True w3)" using pass right prep p Inl d by (cases "az_outcome s") auto
        moreover have "invokeWithApproval ou cx rn addr call trust w =
            sessionInvoke ou cx (rn_registry rn) (rn_session rn) call True w3"
          using again pass left inv d by (cases "az_outcome s") auto
        ultimately show ?thesis by (simp add: split)
      qed
    qed
  qed
qed

text \<open>
  C13: Admitting a call for a parallel batch and running the closure it returns is the sequential
  invocation of that call: same result, same error, same history. This needs a registry without
  an event sink (a refused preparation is reported there only by the sequential path), a tool
  that is not excluded, and a body that does not itself ask for approval, since only the
  sequential path then asks the user and runs the body again.
\<close>

theorem parallel_admission_mirrors_sequential:
  assumes sink: "\<not> rg_events (rn_registry rn)" and available: "\<not> toolExcluded cx (tc_name call)"
    and prep: "prepareParallelTool ou cx rn tt addr call w = r"
    and content: "\<And>x. snd (fst (runAfter ou cx r)) = Some x \<Longrightarrow> \<not> failed (fst r) \<Longrightarrow> \<not> requiresApproval x"
  shows "invokeTool ou cx rn tt addr call w = runAfter ou cx r"
proof (cases "bindCatalogToolCall call tt")
  case (Inl e)
  with available prep show ?thesis by (auto simp: invokeTool_def prepareParallelTool_def runAfter_def)
next
  case (Inr c)
  show ?thesis
  proof (cases "map_of (tt_provider tt) (tc_name c)")
    case None
    with prep available Inr have "prepareLocalTool ou cx rn addr c (trustOf tt (tc_name c)) w = r"
      by (simp add: prepareParallelTool_def)
    from invokeWithApproval_split [OF sink this content] available Inr None show ?thesis by (simp add: invokeTool_def)
  next
    case (Some p)
    obtain m w1 where m: "resolveCatalogInvocation ou rn c w = (m, w1)" by fastforce
    with prep available Inr Some show ?thesis
      by (cases m) (auto simp: invokeTool_def prepareParallelTool_def invokeToolProvider_split runAfter_def)
  qed
qed

theorem parallel_admission_mirrors_sequential_witness:
  "invokeTool (sampleOutside yesAlways) sampleContext (sampleRunner (Some denyAll)) sampleTools sampleAddr (sampleCall ''read'') emptyWorld =
   runAfter (sampleOutside yesAlways) sampleContext
     (prepareParallelTool (sampleOutside yesAlways) sampleContext (sampleRunner (Some denyAll)) sampleTools sampleAddr
        (sampleCall ''read'') emptyWorld)"
proof (rule parallel_admission_mirrors_sequential [OF _ _ refl])
  show "\<not> rg_events (rn_registry (sampleRunner (Some denyAll)))"
    by (simp add: sampleRunner_def NewAuditedRegistry_def NewRegistry_def)
  show "\<not> toolExcluded sampleContext (tc_name (sampleCall ''read''))"
    by (simp add: toolExcluded_def sampleContext_def)
next
  fix x
  assume *: "snd (fst (runAfter (sampleOutside yesAlways) sampleContext
     (prepareParallelTool (sampleOutside yesAlways) sampleContext (sampleRunner (Some denyAll)) sampleTools sampleAddr
        (sampleCall ''read'') emptyWorld))) = Some x"
  have "snd (fst (runAfter (sampleOutside yesAlways) sampleContext
     (prepareParallelTool (sampleOutside yesAlways) sampleContext (sampleRunner (Some denyAll)) sampleTools sampleAddr
        (sampleCall ''read'') emptyWorld))) = None" by code_simp
  with * show "\<not> requiresApproval x" by simp
qed

end
