(* ===== verification/ToolLoop.thy ===== *)
theory ToolLoop
  imports ToolAuthz
begin

text \<open>
  The loop of a turn between the model and its tools (\<open>pkg/turn/tool_loop.go\<close>, \<open>tool_events.go\<close>
  and the batch of \<open>parallel_tools.go\<close>): steering, the model call, the calls of its answer one by
  one or as a parallel batch, their results, and the messages injected after them. The journal's
  checkpoints, the session's appends and the stream are operations that may fail; the choice of
  the model, the token usage, the telemetry and the log are left out.
\<close>

section \<open>Operations that may fail\<close>

definition thenDo ::
  "('e, 'a) result \<times> world \<Rightarrow> ('a \<Rightarrow> world \<Rightarrow> ('e, 'b) result \<times> world) \<Rightarrow> ('e, 'b) result \<times> world" where
  "thenDo m f = (case m of (Inl e, w) \<Rightarrow> (Inl e, w) | (Inr x, w) \<Rightarrow> f x w)"

lemma thenDo_simps [simp]: "thenDo (Inl e, w) f = (Inl e, w)" "thenDo (Inr x, w) f = f x w"
  by (simp_all add: thenDo_def)

text \<open>The error of a failed operation is wrapped in its context, where it has one.\<close>

definition tryOp :: "outside \<Rightarrow> string \<Rightarrow> event \<Rightarrow> world \<Rightarrow> (tool_error, unit) result \<times> world" where
  "tryOp ou context e w = (case attempt ou e w of
      (None, w1) \<Rightarrow> (Inr (), w1)
    | (Some x, w1) \<Rightarrow> (Inl (if context = [] then x else wrap context x), w1))"

fun tryAll :: "outside \<Rightarrow> string \<Rightarrow> event list \<Rightarrow> world \<Rightarrow> (tool_error, unit) result \<times> world" where
  "tryAll ou context [] w = (Inr (), w)"
| "tryAll ou context (e # es) w = thenDo (tryOp ou context e w) (\<lambda>_. tryAll ou context es)"

section \<open>Events and observers\<close>

definition publishToolEvent :: "runner \<Rightarrow> tool_event \<Rightarrow> world \<Rightarrow> world" where
  "publishToolEvent rn v w = (if rn_publisher rn then emit (Published v) w else w)"

definition toolEventFromCall :: "outside \<Rightarrow> tool_status \<Rightarrow> tool_call \<Rightarrow> tool_event" where
  "toolEventFromCall ou status call = NewToolEvent (ou_digest ou) status (RequestFromEnvelope call)"

definition applyHookDecision :: "tool_event \<Rightarrow> hook_decision \<Rightarrow> tool_event" where
  "applyHookDecision v d =
     (if hd_allow d then v\<lparr>tv_approval := ''allow''\<rparr>
      else v\<lparr>tv_approval := ''deny'', tv_reason := hd_reason d, tv_error := True\<rparr>)"

definition finishToolEvent :: "outside \<Rightarrow> tool_call \<Rightarrow> tool_result \<Rightarrow> tool_error option \<Rightarrow> tool_event" where
  "finishToolEvent ou call res e = (case e of
      None \<Rightarrow> (toolEventFromCall ou ToolEventFinished call)\<lparr>tv_error := to_error res\<rparr>
    | Some x \<Rightarrow>
        (let status = (if te_is x = Canceled \<or> te_is x = DeadlineExceeded then ToolEventAborted else ToolEventFinished);
             v = ApplySafeError ((toolEventFromCall ou status call)\<lparr>tv_error := True\<rparr>) (Some x) in
         if requiresApproval x then v\<lparr>tv_policy := DecisionRequiresApproval\<rparr> else v))"

definition notify :: "nat \<Rightarrow> string \<Rightarrow> string \<Rightarrow> world \<Rightarrow> world" where
  "notify n what call w = w\<lparr>wo_events := wo_events w @ replicate n (Observed what call)\<rparr>"

definition notifyReferences :: "runner \<Rightarrow> tool_call \<Rightarrow> tool_result \<Rightarrow> world \<Rightarrow> world" where
  "notifyReferences rn call res w =
     (if to_error res then w else notify (rn_turn_observers rn * length (to_refs res)) ''reference'' (tc_id call) w)"

section \<open>Results\<close>

definition recordToolError :: "outside \<Rightarrow> tool_call \<Rightarrow> string \<Rightarrow> world \<Rightarrow> (tool_error, unit) result \<times> world" where
  "recordToolError ou call output w =
     (let part = ResultPart (tc_id call) (tc_name call) output True in
      thenDo (tryOp ou ''record tool error'' (Saved (SavedResult (tc_id call) [part])) w) (\<lambda>_.
        tryOp ou ''stream tool error'' (Streamed part)))"

definition confirm :: "outside \<Rightarrow> tool_call \<Rightarrow> world \<Rightarrow> (tool_error, unit) result \<times> world" where
  "confirm ou call = tryOp ou [] (Confirmed (tc_id call))"

text \<open>An error is handed to the model as the result of the call.\<close>

definition answerError :: "outside \<Rightarrow> tool_call \<Rightarrow> string \<Rightarrow> world \<Rightarrow> (tool_error, tool_part list) result \<times> world" where
  "answerError ou call reason w =
     thenDo (recordToolError ou call (ou_error_json ou reason) w) (\<lambda>_ w.
       thenDo (confirm ou call w) (\<lambda>_ w. (Inr [], w)))"

definition answerResult :: "outside \<Rightarrow> tool_call \<Rightarrow> tool_result \<Rightarrow> world \<Rightarrow> (tool_error, tool_part list) result \<times> world" where
  "answerResult ou call res w =
     (let part = ResultPart (to_call res) (to_name res) (to_payload res) (to_error res) in
      thenDo (tryOp ou (if to_parts res = [] then ''record tool result'' else ''record tool result parts'')
                (Saved (SavedResult (tc_id call) (part # to_parts res))) w) (\<lambda>_ w.
      thenDo (confirm ou call w) (\<lambda>_ w.
      thenDo (tryOp ou ''stream tool result'' (Streamed part) w) (\<lambda>_ w.
      thenDo (tryAll ou ''stream tool result extra part'' (List.map Streamed (to_parts res)) w) (\<lambda>_ w.
        (Inr (to_inject res), w))))))"

definition answerOutcome ::
  "outside \<Rightarrow> tool_call \<Rightarrow> tool_result \<Rightarrow> tool_error option \<Rightarrow> world \<Rightarrow> (tool_error, tool_part list) result \<times> world" where
  "answerOutcome ou call res e w = (case e of
      None \<Rightarrow> answerResult ou call res w
    | Some x \<Rightarrow>
        (if te_is x = ErrParentCheckpointUncertain then (Inl x, w)
         else if ou_ended ou (wo_events w) \<noteq> None then (Inl (wrap (''invoke tool '' @ tc_name call) x), w)
         else answerError ou call (te_text x) w))"

section \<open>One call after the other\<close>

definition normalizedCall :: "message_address \<Rightarrow> tool_call \<Rightarrow> tool_call" where
  "normalizedCall addr call = (if ma_thread (tc_addr call) = [] then call\<lparr>tc_addr := addr\<rparr> else call)"

text \<open>The calls of an assistant's content, and the table of their parts (the last one counts).\<close>

definition callsOf :: "tool_part list \<Rightarrow> tool_call list" where
  "callsOf content = concat (List.map (\<lambda>p. case p of CallPart c \<Rightarrow> [c] | _ \<Rightarrow> []) content)"

definition callParts :: "tool_part list \<Rightarrow> (string \<times> tool_part) list" where
  "callParts content = rev (List.map (\<lambda>c. (tc_id c, CallPart c)) (callsOf content))"

definition streamCall ::
  "outside \<Rightarrow> (string \<times> tool_part) list \<Rightarrow> tool_call \<Rightarrow> world \<Rightarrow> (tool_error, unit) result \<times> world" where
  "streamCall ou parts call w = (case map_of parts (tc_id call) of
      None \<Rightarrow> (Inr (), w)
    | Some p \<Rightarrow> tryOp ou ''stream tool call'' (Streamed p) w)"

definition refuseCall :: "outside \<Rightarrow> runner \<Rightarrow> tool_call \<Rightarrow> hook_decision \<Rightarrow> world \<Rightarrow> (tool_error, tool_part list) result \<times> world" where
  "refuseCall ou rn call d w =
     answerError ou call (hd_reason d)
       (publishToolEvent rn (applyHookDecision (toolEventFromCall ou ToolEventFinished call) d) w)"

definition startCall :: "outside \<Rightarrow> runner \<Rightarrow> tool_call \<Rightarrow> hook_decision \<Rightarrow> world \<Rightarrow> world" where
  "startCall ou rn call d w =
     notify (rn_observers rn) ''started'' (tc_id call)
       (publishToolEvent rn (applyHookDecision (toolEventFromCall ou ToolEventStarted call) d) w)"

definition finishCall :: "outside \<Rightarrow> runner \<Rightarrow> tool_call \<Rightarrow> tool_result \<Rightarrow> tool_error option \<Rightarrow> world \<Rightarrow> world" where
  "finishCall ou rn call res e w =
     (let w = notify (rn_observers rn) ''finished'' (tc_id call) w;
          w = (if e = None then notifyReferences rn call res w else w) in
      publishToolEvent rn (finishToolEvent ou call res e) w)"

definition handleCall ::
  "outside \<Rightarrow> turn_context \<Rightarrow> runner \<Rightarrow> turn_tools \<Rightarrow> approver option list \<Rightarrow> message_address \<Rightarrow>
   (string \<times> tool_part) list \<Rightarrow> tool_call \<Rightarrow> world \<Rightarrow> (tool_error, tool_part list) result \<times> world" where
  "handleCall ou cx rn tt perTurn addr parts call0 w =
     (let call = normalizedCall addr call0 in
      thenDo (tryOp ou [] (Checkpointed [tc_id call]) w) (\<lambda>_ w.
      thenDo (streamCall ou parts call w) (\<lambda>_ w.
        case approveToolCall rn perTurn call (publishToolEvent rn (toolEventFromCall ou ToolEventQueued call) w) of
          (d, w) \<Rightarrow>
            if \<not> hd_allow d then refuseCall ou rn call d w
            else case invokeTool ou cx rn tt addr call (startCall ou rn call d w) of
              ((res, e), w) \<Rightarrow> answerOutcome ou call res e (finishCall ou rn call res e w))))"

fun handleCalls ::
  "outside \<Rightarrow> turn_context \<Rightarrow> runner \<Rightarrow> turn_tools \<Rightarrow> approver option list \<Rightarrow> message_address \<Rightarrow>
   (string \<times> tool_part) list \<Rightarrow> tool_call list \<Rightarrow> world \<Rightarrow> (tool_error, tool_part list) result \<times> world" where
  "handleCalls ou cx rn tt perTurn addr parts [] w = (Inr [], w)"
| "handleCalls ou cx rn tt perTurn addr parts (c # cs) w =
     thenDo (handleCall ou cx rn tt perTurn addr parts c w) (\<lambda>inject w.
     thenDo (handleCalls ou cx rn tt perTurn addr parts cs w) (\<lambda>more w.
       (Inr (inject @ more), w)))"

section \<open>A parallel batch\<close>

definition toolBatchParallelSafe :: "tool_call list \<Rightarrow> turn_tools \<Rightarrow> bool" where
  "toolBatchParallelSafe calls tt \<longleftrightarrow>
     2 \<le> length calls \<and> list_all (\<lambda>c. concurrencyOf tt (tc_name c) = ConcurrencyParallelSafe) calls"

record batch_item =
  bi_call :: tool_call
  bi_decision :: hook_decision
  bi_refused :: "tool_error option"
  bi_closure :: "closure option"

definition admitItem ::
  "outside \<Rightarrow> turn_context \<Rightarrow> runner \<Rightarrow> turn_tools \<Rightarrow> approver option list \<Rightarrow> message_address \<Rightarrow>
   (string \<times> tool_part) list \<Rightarrow> tool_call \<Rightarrow> world \<Rightarrow> (tool_error, batch_item) result \<times> world" where
  "admitItem ou cx rn tt perTurn addr parts call w =
     thenDo (streamCall ou parts call w) (\<lambda>_ w.
       case approveToolCall rn perTurn call (publishToolEvent rn (toolEventFromCall ou ToolEventQueued call) w) of
         (d, w) \<Rightarrow>
           if \<not> hd_allow d
           then (Inr \<lparr>bi_call = call, bi_decision = d, bi_refused = Some (errorf (hd_reason d)), bi_closure = None\<rparr>, w)
           else case prepareParallelTool ou cx rn tt addr call w of
             (Inl e, w) \<Rightarrow>
               (if ou_ended ou (wo_events w) \<noteq> None then (Inl (wrap (''authorize tool '' @ tc_name call) e), w)
                else (Inr \<lparr>bi_call = call, bi_decision = d, bi_refused = Some e, bi_closure = None\<rparr>, w))
           | (Inr c, w) \<Rightarrow> (Inr \<lparr>bi_call = call, bi_decision = d, bi_refused = None, bi_closure = Some c\<rparr>, w))"

fun admitAll ::
  "outside \<Rightarrow> turn_context \<Rightarrow> runner \<Rightarrow> turn_tools \<Rightarrow> approver option list \<Rightarrow> message_address \<Rightarrow>
   (string \<times> tool_part) list \<Rightarrow> tool_call list \<Rightarrow> world \<Rightarrow> (tool_error, batch_item list) result \<times> world" where
  "admitAll ou cx rn tt perTurn addr parts [] w = (Inr [], w)"
| "admitAll ou cx rn tt perTurn addr parts (c # cs) w =
     thenDo (admitItem ou cx rn tt perTurn addr parts c w) (\<lambda>item w.
     thenDo (admitAll ou cx rn tt perTurn addr parts cs w) (\<lambda>items w.
       (Inr (item # items), w)))"

text \<open>
  The concurrent phase as an interleaving: the loop launches the items in order, and a launched
  body runs at any later point, as one step. \<open>br_next\<close> is the position of the loop, \<open>br_running\<close>
  the launched bodies that have not run, \<open>br_done\<close> their results.
\<close>

datatype batch_act = Launch | Complete nat

record batch_run =
  br_next :: nat
  br_running :: "nat list"
  br_done :: "(nat \<times> (tool_result \<times> tool_error option)) list"

definition newBatchRun :: batch_run where
  "newBatchRun = \<lparr>br_next = 0, br_running = [], br_done = []\<rparr>"

fun batchStep ::
  "outside \<Rightarrow> turn_context \<Rightarrow> runner \<Rightarrow> batch_item list \<Rightarrow> batch_act \<Rightarrow> batch_run \<times> world \<Rightarrow> batch_run \<times> world" where
  "batchStep ou cx rn items Launch (br, w) =
     (if br_next br < length items then
        (let item = items ! br_next br in
         case bi_closure item of
           None \<Rightarrow> (br\<lparr>br_next := br_next br + 1\<rparr>, w)
         | Some c \<Rightarrow>
             (br\<lparr>br_next := br_next br + 1, br_running := br_running br @ [br_next br]\<rparr>,
              startCall ou rn (bi_call item) (bi_decision item) w))
      else (br, w))"
| "batchStep ou cx rn items (Complete n) (br, w) =
     (if n \<in> set (br_running br) then
        (case bi_closure (items ! n) of
           None \<Rightarrow> (br, w)
         | Some c \<Rightarrow>
             (case runClosure ou cx c w of (out, w1) \<Rightarrow>
                (br\<lparr>br_running := filter (\<lambda>k. k \<noteq> n) (br_running br), br_done := (n, out) # br_done br\<rparr>, w1)))
      else (br, w))"

text \<open>The schedule goes as it likes; the wait makes sure that every item was launched and has run.\<close>

definition runBatch ::
  "outside \<Rightarrow> turn_context \<Rightarrow> runner \<Rightarrow> batch_item list \<Rightarrow> batch_act list \<Rightarrow> world \<Rightarrow> batch_run \<times> world" where
  "runBatch ou cx rn items schedule w =
     run (batchStep ou cx rn items) (newBatchRun, w)
       (schedule @ replicate (length items) Launch @ List.map Complete [0..<length items])"

definition commitItem ::
  "outside \<Rightarrow> runner \<Rightarrow> batch_item \<Rightarrow> (tool_result \<times> tool_error option) option \<Rightarrow> world \<Rightarrow>
   (tool_error, tool_part list) result \<times> world" where
  "commitItem ou rn item out w =
     (let call = bi_call item in
      case bi_refused item of
        Some x \<Rightarrow>
          answerError ou call (te_text x)
            (publishToolEvent rn
               (if \<not> hd_allow (bi_decision item)
                then applyHookDecision (toolEventFromCall ou ToolEventFinished call) (bi_decision item)
                else finishToolEvent ou call noResult (Some x)) w)
      | None \<Rightarrow>
          (case out of
             None \<Rightarrow> answerResult ou call noResult w
           | Some (res, e) \<Rightarrow>
               (let w = publishToolEvent rn (finishToolEvent ou call res e) (notify (rn_observers rn) ''finished'' (tc_id call) w) in
                answerOutcome ou call res e (if e = None then notifyReferences rn call res w else w))))"

fun commitAll ::
  "outside \<Rightarrow> runner \<Rightarrow> batch_item list \<Rightarrow> (nat \<Rightarrow> (tool_result \<times> tool_error option) option) \<Rightarrow> nat \<Rightarrow> world \<Rightarrow>
   (tool_error, tool_part list) result \<times> world" where
  "commitAll ou rn [] outs n w = (Inr [], w)"
| "commitAll ou rn (item # items) outs n w =
     thenDo (commitItem ou rn item (outs n) w) (\<lambda>inject w.
     thenDo (commitAll ou rn items outs (n + 1) w) (\<lambda>more w.
       (Inr (inject @ more), w)))"

definition runParallelToolBatch ::
  "outside \<Rightarrow> turn_context \<Rightarrow> runner \<Rightarrow> turn_tools \<Rightarrow> approver option list \<Rightarrow> message_address \<Rightarrow>
   (string \<times> tool_part) list \<Rightarrow> batch_act list \<Rightarrow> tool_call list \<Rightarrow> world \<Rightarrow> (tool_error, tool_part list) result \<times> world" where
  "runParallelToolBatch ou cx rn tt perTurn addr parts schedule calls0 w =
     (let calls = List.map (normalizedCall addr) calls0 in
      thenDo (tryOp ou [] (Checkpointed (List.map tc_id calls)) w) (\<lambda>_ w.
      thenDo (admitAll ou cx rn tt perTurn addr parts calls w) (\<lambda>items w.
        case runBatch ou cx rn items schedule w of
          (br, w) \<Rightarrow> commitAll ou rn items (map_of (br_done br)) 0 w)))"

section \<open>The loop\<close>

definition defaultMaxToolIterations :: nat where "defaultMaxToolIterations = 250"

definition toolIterationLimit :: "nat option \<Rightarrow> nat \<Rightarrow> nat" where
  "toolIterationLimit limit fallback = (case limit of None \<Rightarrow> fallback | Some n \<Rightarrow> if n = 0 then fallback else n)"

definition ErrToolLoopLimit :: tool_error where
  "ErrToolLoopLimit = errorf ''turn: tool loop limit reached''"

fun bindAll :: "tool_call list \<Rightarrow> turn_tools \<Rightarrow> (tool_error, tool_call list) result" where
  "bindAll [] tt = Inr []"
| "bindAll (c # cs) tt = and_then (bindCatalogToolCall c tt) (\<lambda>b. and_then (bindAll cs tt) (\<lambda>bs. Inr (b # bs)))"

fun deliverAll ::
  "outside \<Rightarrow> (string \<times> (tool_error, tool_part list) result) list \<Rightarrow> world \<Rightarrow> (tool_error, unit) result \<times> world" where
  "deliverAll ou [] w = (Inr (), w)"
| "deliverAll ou ((m, Inl e) # ms) w = (Inl (wrap (''render steering message '' @ quoted m) e), w)"
| "deliverAll ou ((m, Inr parts) # ms) w =
     thenDo (tryOp ou (''append steering message '' @ quoted m) (Saved (SavedUser parts)) w) (\<lambda>_. deliverAll ou ms)"

definition deliverSteering :: "outside \<Rightarrow> world \<Rightarrow> (tool_error, unit) result \<times> world" where
  "deliverSteering ou w = deliverAll ou (ou_steered ou (wo_events w)) w"

definition askModel :: "outside \<Rightarrow> nat \<Rightarrow> world \<Rightarrow> (tool_error, string \<times> tool_part list) result \<times> world" where
  "askModel ou n w = (case ou_model ou (wo_events w) of
      Inl e \<Rightarrow> (Inl e, emit (Refused (ModelAsked n)) w)
    | Inr m \<Rightarrow> (Inr m, emit (ModelAsked n) w))"

definition isCall :: "tool_part \<Rightarrow> bool" where
  "isCall p \<longleftrightarrow> (case p of CallPart c \<Rightarrow> True | _ \<Rightarrow> False)"

text \<open>The part of an iteration before its calls: the assistant message and its calls.\<close>

definition nextAssistant ::
  "outside \<Rightarrow> turn_tools \<Rightarrow> nat \<Rightarrow> world \<Rightarrow> (tool_error, (string \<times> tool_part list) \<times> tool_call list) result \<times> world" where
  "nextAssistant ou tt n w =
     thenDo (deliverSteering ou w) (\<lambda>_ w.
     thenDo (tryOp ou [] (ModelPending n) w) (\<lambda>_ w.
     thenDo (askModel ou n w) (\<lambda>(id, content) w.
     thenDo (tryOp ou ''append assistant message'' (Saved (SavedAssistant id content)) w) (\<lambda>_ w.
     thenDo (tryOp ou [] (AssistantKept id) w) (\<lambda>_ w.
       case bindAll (callsOf content) tt of
         Inl e \<Rightarrow> (Inl e, w)
       | Inr calls \<Rightarrow> (Inr ((id, content), calls), w))))))"

definition runCalls ::
  "outside \<Rightarrow> turn_context \<Rightarrow> runner \<Rightarrow> turn_tools \<Rightarrow> approver option list \<Rightarrow> message_address \<Rightarrow>
   batch_act list \<Rightarrow> tool_part list \<Rightarrow> tool_call list \<Rightarrow> world \<Rightarrow> (tool_error, unit) result \<times> world" where
  "runCalls ou cx rn tt perTurn addr schedule content calls w =
     thenDo (tryAll ou ''stream assistant part'' (List.map Streamed (filter (\<lambda>p. \<not> isCall p) content)) w) (\<lambda>_ w.
     thenDo (if toolBatchParallelSafe calls tt
             then runParallelToolBatch ou cx rn tt perTurn addr (callParts content) schedule calls w
             else handleCalls ou cx rn tt perTurn addr (callParts content) calls w) (\<lambda>inject w.
       if inject = [] then (Inr (), w)
       else tryOp ou ''append injected user message'' (Saved (SavedUser inject)) w))"

text \<open>The id of the assistant message goes with the context; an empty one leaves it as it is.\<close>

definition WithMessageID :: "string \<Rightarrow> turn_context \<Rightarrow> turn_context" where
  "WithMessageID m cx = (if m = [] then cx else cx\<lparr>cx_message := Some m\<rparr>)"

text \<open>\<open>k\<close> is the number of iterations left, \<open>n\<close> the count of those that have run.\<close>

fun providerLoop ::
  "outside \<Rightarrow> turn_context \<Rightarrow> runner \<Rightarrow> turn_tools \<Rightarrow> approver option list \<Rightarrow> message_address \<Rightarrow>
   (nat \<Rightarrow> batch_act list) \<Rightarrow> nat \<Rightarrow> nat \<Rightarrow> world \<Rightarrow> (tool_error, string \<times> tool_part list) result \<times> world" where
  "providerLoop ou cx rn tt perTurn addr schedules k n w =
     thenDo (nextAssistant ou tt n w) (\<lambda>((id, content), calls) w.
       if calls = [] then (Inr (id, content), w)
       else case k of
         0 \<Rightarrow> (Inl ErrToolLoopLimit, w)
       | Suc j \<Rightarrow>
           thenDo (runCalls ou (WithMessageID id cx) rn tt perTurn addr (schedules n) content calls w) (\<lambda>_ w.
             providerLoop ou (WithMessageID id cx) rn tt perTurn addr schedules j (n + 1) w))"

declare providerLoop.simps [simp del]

definition runProviderLoop ::
  "outside \<Rightarrow> turn_context \<Rightarrow> runner \<Rightarrow> turn_tools \<Rightarrow> approver option list \<Rightarrow> message_address \<Rightarrow>
   (nat \<Rightarrow> batch_act list) \<Rightarrow> nat \<Rightarrow> nat \<Rightarrow> world \<Rightarrow> (tool_error, string \<times> tool_part list) result \<times> world" where
  "runProviderLoop ou cx rn tt perTurn addr schedules limit n w =
     providerLoop ou cx rn tt perTurn addr schedules (limit - n) n w"

end
