(* ===== verification/ToolLoopProofs.thy ===== *)
theory ToolLoopProofs
  imports ToolAuthzLaws ToolLoop
begin

text \<open>
  What the loop between the model and its tools leaves in the history: which messages it saves
  and in which order, and under which conditions a body is run.
\<close>

section \<open>Reasoning about operations\<close>

text \<open>The operation started in \<open>w\<close> adds a segment, and \<open>P\<close> holds of its result and the segment.\<close>

definition leaves :: "('e, 'a) result \<times> world \<Rightarrow> world \<Rightarrow> (('e, 'a) result \<Rightarrow> event list \<Rightarrow> bool) \<Rightarrow> bool" where
  "leaves m w P \<longleftrightarrow> (\<exists>seg. adds w (snd m) seg \<and> P (fst m) seg)"

lemma leaves_return [simp]: "leaves (r, w) w P \<longleftrightarrow> P r []"
  by (simp add: leaves_def)

lemma leaves_conseq: "leaves m w P \<Longrightarrow> (\<And>r seg. P r seg \<Longrightarrow> Q r seg) \<Longrightarrow> leaves m w Q"
  by (auto simp: leaves_def)

lemma leavesI: "adds w (snd m) seg \<Longrightarrow> P (fst m) seg \<Longrightarrow> leaves m w P"
  by (auto simp: leaves_def)

lemma leaves_thenDo:
  assumes m: "leaves m w P"
    and next_op: "\<And>x w1 seg. adds w w1 seg \<Longrightarrow> P (Inr x) seg \<Longrightarrow> leaves (f x w1) w1 (\<lambda>r s. Q r (seg @ s))"
    and stop: "\<And>e seg. P (Inl e) seg \<Longrightarrow> Q (Inl e) seg"
  shows "leaves (thenDo m f) w Q"
proof -
  obtain r w1 where mr: "m = (r, w1)" by fastforce
  with m obtain seg where seg: "adds w w1 seg" "P r seg" by (auto simp: leaves_def)
  show ?thesis
  proof (cases r)
    case (Inl e)
    with mr seg stop show ?thesis by (auto simp: leaves_def)
  next
    case (Inr x)
    with next_op [OF seg(1)] seg(2) obtain s where "adds w1 (snd (f x w1)) s" "Q (fst (f x w1)) (seg @ s)"
      unfolding leaves_def by blast
    with Inr mr adds_trans [OF seg(1)] show ?thesis by (auto simp: leaves_def)
  qed
qed

text \<open>A step on the world before the operation.\<close>

lemma leaves_after: "adds w w1 s1 \<Longrightarrow> leaves m w1 (\<lambda>r s. Q r (s1 @ s)) \<Longrightarrow> leaves m w Q"
  by (auto simp: leaves_def intro: adds_trans)

section \<open>Reading the messages of a history\<close>

definition saves :: "event list \<Rightarrow> saved list" where
  "saves es = concat (List.map (\<lambda>e. case e of Saved m \<Rightarrow> [m] | _ \<Rightarrow> []) es)"

definition isSaved :: "event \<Rightarrow> bool" where
  "isSaved e \<longleftrightarrow> (case e of Saved m \<Rightarrow> True | _ \<Rightarrow> False)"

lemma saves_simps [simp]:
  "saves [] = []" "saves (xs @ ys) = saves xs @ saves ys" "saves (Saved m # es) = m # saves es"
  by (simp_all add: saves_def)

lemma saves_other [simp]: "\<not> isSaved e \<Longrightarrow> saves (e # es) = saves es"
  by (cases e) (simp_all add: saves_def isSaved_def)

lemma saves_none: "list_all (\<lambda>e. \<not> isSaved e) es \<Longrightarrow> saves es = []"
  by (induction es) simp_all

definition hookVerdicts :: "event list \<Rightarrow> (tool_call \<times> hook_decision) list" where
  "hookVerdicts es = concat (List.map (\<lambda>e. case e of HookAsked c d \<Rightarrow> [(c, d)] | _ \<Rightarrow> []) es)"

lemma hookVerdicts_simps [simp]:
  "hookVerdicts [] = []" "hookVerdicts (xs @ ys) = hookVerdicts xs @ hookVerdicts ys"
  "hookVerdicts (HookAsked c d # es) = (c, d) # hookVerdicts es"
  by (simp_all add: hookVerdicts_def)

text \<open>
  Events that neither save a message nor run a body nor ask for anything: reports to observers,
  sinks and the stream, and the checkpoints.
\<close>

definition report :: "event \<Rightarrow> bool" where
  "report e \<longleftrightarrow> (case e of
      SinkEvent v \<Rightarrow> True | Published v \<Rightarrow> True | Observed a b \<Rightarrow> True | Checkpointed l \<Rightarrow> True | Confirmed a \<Rightarrow> True
    | Streamed p \<Rightarrow> True | Refused x \<Rightarrow> True | ModelPending n \<Rightarrow> True | ModelAsked n \<Rightarrow> True | AssistantKept a \<Rightarrow> True
    | _ \<Rightarrow> False)"

lemma report_simps [simp]:
  "report (SinkEvent v)" "report (Published v)" "report (Observed a b)" "report (Checkpointed l)"
  "report (Confirmed a)" "report (Streamed p)" "report (Refused x)" "report (ModelPending n)"
  "report (ModelAsked n)" "report (AssistantKept a)" "\<not> report (Saved m)" "\<not> report (BodyRun bd q)"
  by (simp_all add: report_def)

lemma report_facts:
  "report e \<Longrightarrow> \<not> isBody e \<and> \<not> isVerdict e \<and> \<not> isSaved e \<and> (\<forall>es. hookVerdicts (e # es) = hookVerdicts es)"
  by (cases e) (simp_all add: report_def isBody_def isVerdict_def isSaved_def hookVerdicts_def)

lemma reports_facts:
  "list_all report es \<Longrightarrow> bodies es = [] \<and> verdicts es = [] \<and> saves es = [] \<and> hookVerdicts es = []"
  by (induction es) (simp_all add: report_facts)

section \<open>The authorization saves no message, asks no approver and leaves the journal alone\<close>

definition speaks :: "event \<Rightarrow> bool" where
  "speaks e \<longleftrightarrow> (case e of
      Saved m \<Rightarrow> True | HookAsked c d \<Rightarrow> True | ModelPending n \<Rightarrow> True | AssistantKept a \<Rightarrow> True
    | Checkpointed l \<Rightarrow> True | Confirmed a \<Rightarrow> True | _ \<Rightarrow> False)"

definition silent :: "world \<Rightarrow> world \<Rightarrow> bool" where
  "silent w w' \<longleftrightarrow> (\<exists>seg. adds w w' seg \<and> list_all (\<lambda>e. \<not> speaks e) seg)"

lemma unspoken: "list_all (\<lambda>e. \<not> speaks e) seg \<Longrightarrow> saves seg = [] \<and> hookVerdicts seg = []"
  by (induction seg) (auto simp: speaks_def saves_def hookVerdicts_def split: event.splits)

lemma silentD: "silent w w' \<Longrightarrow> \<exists>seg. adds w w' seg \<and> saves seg = [] \<and> hookVerdicts seg = []"
  using unspoken unfolding silent_def by blast

lemma silent_refl [simp]: "silent w w"
  unfolding silent_def by (intro exI [of _ "[]"]) simp

lemma silent_trans: "silent w w1 \<Longrightarrow> silent w1 w2 \<Longrightarrow> silent w w2"
  unfolding silent_def by (metis adds_trans list_all_append)

lemma speaks_simps [simp]:
  "\<not> speaks (SafetyAsked i d)" "\<not> speaks (PolicyAsked q t)" "\<not> speaks (GrantLookup a b x)"
  "\<not> speaks (GrantStored a b)" "\<not> speaks (Audited r)" "\<not> speaks (ApprovalShown a b l s t')"
  "\<not> speaks (Awaited a b y)" "\<not> speaks (CatalogResolved f)" "\<not> speaks (BodyRun bd q)"
  "\<not> speaks (SinkEvent v)" "\<not> speaks (Refused e)"
  by (simp_all add: speaks_def)

lemma silent_emit [simp]: "\<not> speaks e \<Longrightarrow> silent w (emit e w)"
  unfolding silent_def by (intro exI [of _ "[e]"]) (simp add: adds_def)

lemma silent_updates [simp]:
  "silent w (w1\<lparr>wo_used := u\<rparr>) \<longleftrightarrow> silent w w1" "silent w (GrantSession a b w1) \<longleftrightarrow> silent w w1"
  by (simp_all add: silent_def adds_def GrantSession_def)

lemma silent_attempt: "\<not> speaks e \<Longrightarrow> silent w (snd (attempt ou e w))"
  by (cases "ou_fault ou (wo_events w) e") (simp_all add: attempt_def)

lemma silent_auditDecision: "silent w (snd (auditDecision ou r q d w))"
  by (simp add: auditDecision_def silent_attempt)

lemma silent_authorizeRequest: "silent w (snd (authorizeRequest ou r q w))"
proof (cases "rg_policy r")
  case None
  then show ?thesis by (simp add: authorizeRequest_def)
next
  case (Some p)
  let ?d = "if rq_approved q then userApproved else decide p w q"
  let ?w = "if rq_approved q then w else emit (PolicyAsked q ?d) w"
  obtain x w2 where au: "auditDecision ou r q ?d ?w = (x, w2)" by fastforce
  have "snd (authorizeRequest ou r q w) = w2"
    using Some au by (auto simp: authorizeRequest_def Let_def split: option.splits if_splits)
  moreover have "silent w ?w" by simp
  moreover have "silent ?w w2" using silent_auditDecision [of ?w ou r q ?d] au by simp
  ultimately show ?thesis by (metis silent_trans)
qed

lemma silent_Prepare: "silent w (snd (Prepare ou cx r q w))"
proof -
  obtain d e w1 where au: "authorizeRequest ou r q w = ((d, e), w1)" by (metis prod.exhaust)
  with silent_authorizeRequest [of w ou r q] have "silent w w1" by simp
  with au show ?thesis by (auto simp: Prepare_def split: option.splits)
qed

lemma silent_emitToolEvent: "silent w (emitToolEvent r v w)"
  by (simp add: emitToolEvent_def)

lemma silent_InvokePrepared: "silent w (snd (InvokePrepared ou cx p w))"
proof (cases "pi_registry p \<noteq> None \<and> pi_handler p \<noteq> None \<and> pi_used p \<noteq> None")
  case True
  then obtain r h u where f: "pi_registry p = Some r" "pi_handler p = Some h" "pi_used p = Some u" by auto
  let ?q = "pi_request p"
  let ?w1 = "emitToolEvent r (NewToolEvent (ou_digest ou) ToolEventStarted ?q) (w\<lparr>wo_used := (wo_used w)[u := True]\<rparr>)"
  let ?w2 = "emit (BodyRun (bodyOf cx h ?q) ?q) ?w1"
  have "snd (InvokePrepared ou cx p w) = w \<or> (\<exists>v. snd (InvokePrepared ou cx p w) = emitToolEvent r v ?w2)"
    using f by (auto simp: InvokePrepared_def Let_def runBody_def split: option.splits prod.splits)
  moreover have "silent w ?w2"
    using silent_trans [OF silent_emitToolEvent [of "w\<lparr>wo_used := (wo_used w)[u := True]\<rparr>"]]
    by (metis silent_emit silent_emitToolEvent silent_refl silent_trans silent_updates(1) speaks_simps(9))
  ultimately show ?thesis by (metis silent_emitToolEvent silent_refl silent_trans)
next
  case False
  then show ?thesis by (auto simp: InvokePrepared_def split: option.splits)
qed

lemma silent_InvokeRegistry: "silent w (snd (InvokeRegistry ou cx r q w))"
proof -
  obtain res w1 where pr: "Prepare ou cx r q w = (res, w1)" by fastforce
  with silent_Prepare [of w ou cx r q] have s: "silent w w1" by simp
  show ?thesis
  proof (cases res)
    case (Inl pe)
    with pr show ?thesis
      by (simp add: InvokeRegistry_def Let_def) (metis s silent_emitToolEvent silent_trans)
  next
    case (Inr p)
    with pr s silent_InvokePrepared [of w1 ou cx p] show ?thesis
      by (simp add: InvokeRegistry_def) (metis silent_trans)
  qed
qed

lemma silent_emitApproval: "silent w (emitApproval ou cx call scopes st reason w)"
  by (simp add: emitApproval_def silent_attempt)

lemma silent_recordGrant: "silent w (recordGrant ou rn i scope w)"
proof -
  have "silent w (snd (GrantAlways ou store a b w))" for store a b
    using silent_attempt [of "GrantStored a b" "GrantSession a b w" ou]
    by (simp add: GrantAlways_def Let_def) (metis silent_refl silent_trans silent_updates(2))
  then show ?thesis by (auto simp: recordGrant_def split: option.splits)
qed

lemma silent_interactive: "silent w (snd (interactiveAuthorizer ou cx rn i w))"
proof -
  let ?c = "ai_call i" and ?t = "ma_task (ai_addr i)" and ?sc = "approvalScopesFor rn (ai_trust i)"
  let ?w1 = "emitApproval ou cx ?c ?sc ApprovalPending ''tool is not pre-authorized'' w"
  let ?r = "ou_await ou (wo_events ?w1) ?t (tc_id ?c)"
  let ?w2 = "emit (Awaited ?t (tc_id ?c) ?r) ?w1"
  have s: "silent w ?w2" by (rule silent_trans [OF silent_emitApproval silent_emit]) simp
  have shown: "silent w (emitApproval ou cx ?c ?sc st reason ?w2)" for st reason
    by (rule silent_trans [OF s silent_emitApproval])
  have granted: "silent w (emitApproval ou cx ?c ?sc st reason (recordGrant ou rn i scope ?w2))" for st reason scope
    by (rule silent_trans [OF silent_trans [OF s silent_recordGrant] silent_emitApproval])
  show ?thesis
  proof (cases ?r)
    case (Answer d)
    with s shown granted show ?thesis by (auto simp: interactiveAuthorizer_def Let_def)
  next
    case NoAnswer
    with s shown show ?thesis by (auto simp: interactiveAuthorizer_def Let_def)
  qed
qed

lemma silent_askSafety: "silent w (snd (askSafety rn i w))"
  by (auto simp: askSafety_def split: option.splits)

lemma silent_grant: "silent w (snd (grantAuthorizer ou rn i w))"
  by (auto simp: grantAuthorizer_def Let_def split: option.splits bool.splits)

lemma silent_policy: "silent w (snd (policyAuthorizer p i w))"
  by (auto simp: policyAuthorizer_def Let_def split: option.splits)

lemma silent_finishAuthz: "silent w (snd (finishAuthz ou cx rn i base w))"
proof -
  obtain s w1 where as: "askSafety rn i w = (s, w1)" by fastforce
  with silent_askSafety [of w rn i] have "silent w w1" by simp
  moreover have "silent w1 (snd (interactiveAuthorizer ou cx rn i w1))" by (rule silent_interactive)
  ultimately have "silent w (snd (interactiveAuthorizer ou cx rn i w1))" by (rule silent_trans)
  with \<open>silent w w1\<close> as show ?thesis by (simp add: finishAuthz_def)
qed

lemma silent_authorizeTool: "silent w (snd (authorizeTool ou cx rn i base w))"
proof -
  obtain g w1 where g: "grantAuthorizer ou rn i w = (g, w1)" by fastforce
  with silent_grant [of w ou rn i] have "silent w w1" by simp
  then have "silent w (snd (finishAuthz ou cx rn i b w1))" for b using silent_finishAuthz silent_trans by blast
  with \<open>silent w w1\<close> g show ?thesis by (cases "az_outcome g") (simp_all add: authorizeTool_def)
qed

lemma silent_authorizeToolProvider: "silent w (snd (authorizeToolProvider ou cx rn i base w))"
proof -
  obtain g w1 where g: "grantAuthorizer ou rn i w = (g, w1)" by fastforce
  with silent_grant [of w ou rn i] have s1: "silent w w1" by simp
  obtain d w2 where d: "policyAuthorizer (rn_policy rn) i w1 = (d, w2)" by fastforce
  with silent_policy [of w1 "rn_policy rn" i] s1 have s2: "silent w w2" by (metis silent_trans snd_conv)
  have "silent w (snd (finishAuthz ou cx rn i b w'))" if "silent w w'" for b w'
    using that silent_finishAuthz silent_trans by blast
  with s1 s2 g d show ?thesis by (cases "az_outcome g") (simp_all add: authorizeToolProvider_def)
qed

lemma silent_sessionInvoke: "silent w (snd (sessionInvoke ou cx r a c b w))"
  by (simp add: sessionInvoke_def silent_InvokeRegistry)

lemma silent_sessionPrepare: "silent w (snd (sessionPrepare ou cx r a c b w))"
  by (simp add: sessionPrepare_def silent_Prepare)

lemma silent_resolveCatalog: "silent w (snd (resolveCatalogInvocation ou rn call w))"
  by (auto simp: resolveCatalogInvocation_def split: option.splits sum.splits)

lemma silent_invokeWithApproval: "silent w (snd (invokeWithApproval ou cx rn addr call trust w))"
proof -
  let ?i = "\<lparr>ai_call = call, ai_addr = addr, ai_trust = trust, ai_provider = []\<rparr>"
  let ?invoke = "sessionInvoke ou cx (rn_registry rn) (rn_session rn) call"
  obtain s w1 where as: "askSafety rn ?i w = (s, w1)" by fastforce
  with silent_askSafety [of w rn ?i] have s1: "silent w w1" by simp
  obtain g w2 where g: "interactiveAuthorizer ou cx rn ?i w1 = (g, w2)" by fastforce
  with silent_interactive [of w1 ou cx rn ?i] s1 have s2: "silent w w2" by (metis silent_trans snd_conv)
  obtain res e w3 where inv: "?invoke False w1 = ((res, e), w3)" by (metis prod.exhaust)
  with silent_sessionInvoke [of w1 ou cx "rn_registry rn" "rn_session rn" call False] s1 have s3: "silent w w3"
    by (metis silent_trans snd_conv)
  obtain d w4 where d: "authorizeTool ou cx rn ?i Prompt w3 = (d, w4)" by fastforce
  with silent_authorizeTool [of w3 ou cx rn ?i Prompt] s3 have s4: "silent w w4" by (metis silent_trans snd_conv)
  have "silent w (snd (?invoke True w'))" if "silent w w'" for w'
    using that silent_sessionInvoke silent_trans by blast
  with s1 s2 s3 s4 as g inv d show ?thesis
    by (cases "az_outcome s"; cases e) (auto simp: invokeWithApproval_def Let_def)
qed

lemma silent_runBody: "silent w (snd (runBody ou b q w))"
  by (simp add: runBody_def)

lemma silent_invokeToolProvider: "silent w (snd (invokeToolProvider ou cx rn p addr call trust meta w))"
proof -
  let ?i = "\<lparr>ai_call = call, ai_addr = addr, ai_trust = trust, ai_provider = p\<rparr>"
  obtain d w1 where d: "authorizeToolProvider ou cx rn ?i (trustBase trust) w = (d, w1)" by fastforce
  with silent_authorizeToolProvider [of w ou cx rn ?i "trustBase trust"] have "silent w w1" by simp
  then have "silent w (snd (runBody ou b q w1))" for b q using silent_runBody silent_trans by blast
  with \<open>silent w w1\<close> d show ?thesis by (simp add: invokeToolProvider_def)
qed

lemma silent_invokeTool: "silent w (snd (invokeTool ou cx rn tt addr call w))"
proof (cases "bindCatalogToolCall call tt")
  case (Inl e)
  then show ?thesis by (simp add: invokeTool_def)
next
  case (Inr c)
  obtain m w1 where m: "resolveCatalogInvocation ou rn c w = (m, w1)" by fastforce
  with silent_resolveCatalog [of w ou rn c] have s1: "silent w w1" by simp
  have "silent w (snd (invokeToolProvider ou cx rn p addr c t meta w1))" for p t meta
    using s1 silent_invokeToolProvider silent_trans by blast
  with Inr m s1 silent_invokeWithApproval show ?thesis
    by (auto simp: invokeTool_def split: option.splits sum.splits)
qed

lemma silent_prepareLocalTool: "silent w (snd (prepareLocalTool ou cx rn addr call trust w))"
proof -
  let ?i = "\<lparr>ai_call = call, ai_addr = addr, ai_trust = trust, ai_provider = []\<rparr>"
  let ?prepare = "sessionPrepare ou cx (rn_registry rn) (rn_session rn) call"
  obtain s w1 where as: "askSafety rn ?i w = (s, w1)" by fastforce
  with silent_askSafety [of w rn ?i] have s1: "silent w w1" by simp
  obtain g w2 where g: "interactiveAuthorizer ou cx rn ?i w1 = (g, w2)" by fastforce
  with silent_interactive [of w1 ou cx rn ?i] s1 have s2: "silent w w2" by (metis silent_trans snd_conv)
  obtain r w3 where pr: "?prepare False w1 = (r, w3)" by (metis prod.exhaust)
  with silent_sessionPrepare [of w1 ou cx "rn_registry rn" "rn_session rn" call False] s1 have s3: "silent w w3"
    by (metis silent_trans snd_conv)
  obtain d w4 where d: "authorizeTool ou cx rn ?i Prompt w3 = (d, w4)" by fastforce
  with silent_authorizeTool [of w3 ou cx rn ?i Prompt] s3 have s4: "silent w w4" by (metis silent_trans snd_conv)
  have "silent w (snd (?prepare True w'))" if "silent w w'" for w'
    using that silent_sessionPrepare silent_trans by blast
  with s1 s2 s3 s4 as g pr d show ?thesis
    by (cases "az_outcome s"; cases r) (auto simp: prepareLocalTool_def Let_def)
qed

lemma silent_prepareParallelTool: "silent w (snd (prepareParallelTool ou cx rn tt addr call w))"
proof (cases "bindCatalogToolCall call tt")
  case (Inl e)
  then show ?thesis by (simp add: prepareParallelTool_def)
next
  case (Inr c)
  obtain m w1 where m: "resolveCatalogInvocation ou rn c w = (m, w1)" by fastforce
  with silent_resolveCatalog [of w ou rn c] have s1: "silent w w1" by simp
  have "silent w1 (snd (prepareProviderTool ou cx rn p addr c t meta w1))" for p t meta
    using silent_authorizeToolProvider [of w1 ou cx rn _ "trustBase t"]
    by (auto simp: prepareProviderTool_def Let_def split: prod.splits) (metis snd_conv)+
  then have "silent w (snd (prepareProviderTool ou cx rn p addr c t meta w1))" for p t meta
    using s1 silent_trans by blast
  with Inr m s1 silent_prepareLocalTool show ?thesis
    by (auto simp: prepareParallelTool_def split: option.splits sum.splits)
qed

lemma silent_runClosure: "silent w (snd (runClosure ou cx c w))"
  by (cases c) (simp_all add: runClosure_def silent_InvokePrepared silent_runBody)

end
