(* ===== verification/ToolLoopSpec.thy ===== *)
theory ToolLoopSpec
  imports ToolLoopProofs
begin

text \<open>
  What the loop guarantees: the messages it saves form a well-formed transcript at every moment,
  bodies run only behind all gates, and a parallel batch settles every admission before any body.
\<close>

section \<open>Single operations\<close>

lemma tryOp_leaves:
  "leaves (tryOp ou context e w) w (\<lambda>r s. s = [if failed r then Refused e else e])"
proof -
  obtain x w1 where at: "attempt ou e w = (x, w1)" by fastforce
  with attempt_adds [OF at] show ?thesis by (cases x) (auto simp: tryOp_def leaves_def failed_def)
qed

lemma tryAll_leaves:
  assumes "list_all report es"
  shows "leaves (tryAll ou context es w) w (\<lambda>r s. list_all report s)"
  using assms
proof (induction es arbitrary: w)
  case Nil
  then show ?case by simp
next
  case (Cons e es)
  have "leaves (thenDo (tryOp ou context e w) (\<lambda>_. tryAll ou context es)) w (\<lambda>r s. list_all report s)"
  proof (rule leaves_thenDo [OF tryOp_leaves])
    fix x :: unit and w1 seg
    assume "seg = [if failed (Inr x :: (tool_error, unit) result) then Refused e else e]"
    with Cons show "leaves (tryAll ou context es w1) w1 (\<lambda>r s. list_all report (seg @ s))" by simp
  qed simp
  then show ?case by simp
qed

text \<open>The call \<open>id\<close> was answered: one result was saved for it, at most one on a failure.\<close>

definition answers :: "string \<Rightarrow> ('e, 'a) result \<Rightarrow> event list \<Rightarrow> bool" where
  "answers c r s \<longleftrightarrow> bodies s = [] \<and>
     ((\<exists>ps. saves s = [SavedResult c ps]) \<or> failed r \<and> saves s = [])"

lemma isSaved_simps [simp]:
  "isSaved (Saved m)" "\<not> isSaved (event.Refused e)" "\<not> isSaved (Streamed p)" "\<not> isSaved (Checkpointed l)"
  "\<not> isSaved (Confirmed a)" "\<not> isSaved (BodyRun b q)"
  by (simp_all add: isSaved_def)

lemma save_answers: "leaves (tryOp ou context (Saved (SavedResult c ps)) w) w (answers c)"
  by (rule leaves_conseq [OF tryOp_leaves]) (auto simp: answers_def)

text \<open>After the result is saved only reports follow.\<close>

lemma then_reports:
  assumes "leaves m w (answers c)"
    and "\<And>x w1. leaves (f x w1) w1 (\<lambda>r s. list_all report s)"
  shows "leaves (thenDo m f) w (answers c)"
proof (rule leaves_thenDo [OF assms(1)], goal_cases)
  case (1 x w1 seg)
  then show ?case by (intro leaves_conseq [OF assms(2)]) (auto simp: answers_def dest: reports_facts)
next
  case (2 e seg)
  then show ?case by (simp add: answers_def)
qed

lemma report_tryOp: "report e \<Longrightarrow> leaves (tryOp ou context e w) w (\<lambda>r s. list_all report s)"
  by (rule leaves_conseq [OF tryOp_leaves]) simp

lemma reports_thenDo:
  assumes "leaves m w (\<lambda>r s. list_all report s)" and "\<And>x w1. leaves (f x w1) w1 (\<lambda>r s. list_all report s)"
  shows "leaves (thenDo m f) w (\<lambda>r s. list_all report s)"
  by (rule leaves_thenDo [OF assms(1)]) (auto intro: leaves_conseq [OF assms(2)])

lemma confirm_reports: "leaves (confirm ou call w) w (\<lambda>r s. list_all report s)"
  by (simp add: confirm_def report_tryOp)

lemma answerError_leaves: "leaves (answerError ou call reason w) w (answers (tc_id call))"
  unfolding answerError_def recordToolError_def Let_def
  by (intro then_reports save_answers reports_thenDo confirm_reports report_tryOp) simp_all

lemma answerResult_leaves: "leaves (answerResult ou call res w) w (answers (tc_id call))"
  unfolding answerResult_def Let_def
  by (intro then_reports save_answers reports_thenDo confirm_reports report_tryOp tryAll_leaves) (simp_all add: list_all_iff)

lemma answerOutcome_leaves: "leaves (answerOutcome ou call res e w) w (answers (tc_id call))"
  by (cases e) (auto simp: answerOutcome_def answerResult_leaves answerError_leaves answers_def)

section \<open>Gates\<close>

text \<open>All approvers, of the turn and of the runner, were asked about the call and allow it.\<close>

definition gatePassed :: "runner \<Rightarrow> approver option list \<Rightarrow> tool_call \<Rightarrow> event list \<Rightarrow> bool" where
  "gatePassed rn perTurn call es \<longleftrightarrow>
     length (hookVerdicts es) = present perTurn + present (rn_approvers rn) \<and>
     list_all (\<lambda>(c, d). c = call \<and> hd_allow d) (hookVerdicts es)"

lemma bodies_asked [simp]: "bodies (List.map (HookAsked call) ds) = []"
  by (induction ds) simp_all

lemma saves_asked [simp]: "saves (List.map (HookAsked call) ds) = []"
  by (induction ds) (simp_all add: saves_def)

lemma hookVerdicts_asked [simp]: "hookVerdicts (List.map (HookAsked call) ds) = List.map (Pair call) ds"
  by (induction ds) simp_all

lemma approveToolCall_adds:
  assumes "approveToolCall rn perTurn call w = (d, w')"
  shows "\<exists>ds. adds w w' (List.map (HookAsked call) ds) \<and>
    (hd_allow d \<longrightarrow> gatePassed rn perTurn call (List.map (HookAsked call) ds))"
proof -
  obtain d1 w1 where h1: "hookApprove perTurn call w = (d1, w1)" by fastforce
  from hookApprove_settled [OF h1] obtain xs where xs: "adds w w1 (List.map (HookAsked call) xs)" "settled (present perTurn) d1 xs"
    by blast
  show ?thesis
  proof (cases "hd_allow d1")
    case True
    obtain d2 w2 where h2: "hookApprove (rn_approvers rn) call w1 = (d2, w2)" by fastforce
    from hookApprove_settled [OF h2] obtain ys where ys: "adds w1 w2 (List.map (HookAsked call) ys)"
      "settled (present (rn_approvers rn)) d2 ys" by blast
    from assms h1 h2 True have "d = d2" "w' = w2" by (auto simp: approveToolCall_def)
    moreover have "hd_allow d2 \<longrightarrow> gatePassed rn perTurn call (List.map (HookAsked call) (xs @ ys))"
      using xs(2) ys(2) True by (auto simp: settled_def gatePassed_def list_all_iff)
    ultimately show ?thesis using adds_trans [OF xs(1) ys(1)] by (intro exI [of _ "xs @ ys"]) simp
  next
    case False
    with assms h1 have "d = d1" "w' = w1" by (auto simp: approveToolCall_def)
    with False xs show ?thesis by auto
  qed
qed

text \<open>
  A body may run for a call: the call was checkpointed, then it passed the gate, then it was
  authorised, and other things may have happened before and since.
\<close>

definition authorisedRun ::
  "outside \<Rightarrow> turn_context \<Rightarrow> runner \<Rightarrow> turn_tools \<Rightarrow> approver option list \<Rightarrow> message_address \<Rightarrow> tool_call \<Rightarrow>
   event list \<Rightarrow> body \<Rightarrow> tool_request \<Rightarrow> bool" where
  "authorisedRun ou cx rn tt perTurn addr call pre b q \<longleftrightarrow>
     (\<exists>p0 p1 p2 p3 ids. pre = p0 @ p1 @ p2 @ p3 \<and> Checkpointed ids \<in> set p0 \<and> tc_id call \<in> set ids \<and>
        gatePassed rn perTurn call p1 \<and> mayRun ou cx rn tt addr call p2 b q)"

lemma authorisedRun_left: "authorisedRun ou cx rn tt perTurn addr call pre b q \<Longrightarrow>
  authorisedRun ou cx rn tt perTurn addr call (xs @ pre) b q"
  unfolding authorisedRun_def by (metis Un_iff append.assoc set_append)

lemma authorisedRun_right: "authorisedRun ou cx rn tt perTurn addr call pre b q \<Longrightarrow>
  authorisedRun ou cx rn tt perTurn addr call (pre @ xs) b q"
  unfolding authorisedRun_def by (metis append.assoc)

section \<open>One call\<close>

definition reports :: "world \<Rightarrow> world \<Rightarrow> bool" where
  "reports w w' \<longleftrightarrow> (\<exists>s. adds w w' s \<and> list_all report s)"

lemma reports_trans: "reports w w1 \<Longrightarrow> reports w1 w2 \<Longrightarrow> reports w w2"
  unfolding reports_def by (metis adds_trans list_all_append)

lemma reports_refl [simp]: "reports w w"
  by (simp add: reports_def)

lemma publish_reports [simp]: "reports w (publishToolEvent rn v w)"
  by (simp add: reports_def publishToolEvent_def)

lemma notify_reports [simp]: "reports w (notify n what call w)"
  by (auto simp: reports_def notify_def adds_def list_all_iff)

lemma notifyReferences_reports [simp]: "reports w (notifyReferences rn call res w)"
  by (simp add: notifyReferences_def)

lemma startCall_reports: "reports w (startCall ou rn call d w)"
  unfolding startCall_def by (rule reports_trans [OF publish_reports notify_reports])

lemma finishCall_reports: "reports w (finishCall ou rn call res e w)"
proof -
  let ?w1 = "notify (rn_observers rn) ''finished'' (tc_id call) w"
  have "reports ?w1 (if e = None then notifyReferences rn call res ?w1 else ?w1)" by simp
  with notify_reports have "reports w (if e = None then notifyReferences rn call res ?w1 else ?w1)"
    by (rule reports_trans)
  then show ?thesis unfolding finishCall_def Let_def by (rule reports_trans [OF _ publish_reports])
qed

definition answeredOnce :: "string \<Rightarrow> ('e, 'a) result \<Rightarrow> event list \<Rightarrow> bool" where
  "answeredOnce c r s \<longleftrightarrow> (\<exists>ps. saves s = [SavedResult c ps]) \<or> failed r \<and> saves s = []"

lemma adds_unique: "adds w w' xs \<Longrightarrow> adds w w' ys \<Longrightarrow> xs = ys"
  by (simp add: adds_def)

lemma invokeTool_adds:
  assumes "invokeTool ou cx rn tt addr call w = (out, w')"
  shows "\<exists>seg. adds w w' seg \<and> saves seg = [] \<and> hookVerdicts seg = [] \<and> checkBodies (mayRun ou cx rn tt addr call) [] seg"
proof -
  from no_tool_runs_unauthorised [of w ou cx rn tt addr call] assms
  obtain seg where seg: "adds w w' seg" "checkBodies (mayRun ou cx rn tt addr call) [] seg" by auto
  from silentD [OF silent_invokeTool [of w ou cx rn tt addr call]] assms obtain s where "adds w w' s" "saves s = []" "hookVerdicts s = []"
    by auto
  with seg adds_unique show ?thesis by blast
qed

definition callPost ::
  "outside \<Rightarrow> turn_context \<Rightarrow> runner \<Rightarrow> turn_tools \<Rightarrow> approver option list \<Rightarrow> message_address \<Rightarrow> tool_call \<Rightarrow>
   ('e, 'a) result \<Rightarrow> event list \<Rightarrow> bool" where
  "callPost ou cx rn tt perTurn addr call r s \<longleftrightarrow>
     checkBodies (authorisedRun ou cx rn tt perTurn addr call) [] s \<and> answeredOnce (tc_id call) r s"

text \<open>After the checkpoint: the gate, the invocation and the answer.\<close>

lemma gatedCall_leaves:
  assumes before: "bodies s0 = []" "saves s0 = []" "Checkpointed ids \<in> set s0" "tc_id call \<in> set ids"
  shows "leaves
    (case approveToolCall rn perTurn call w of
       (d, w) \<Rightarrow>
         if \<not> hd_allow d then refuseCall ou rn call d w
         else case invokeTool ou cx rn tt addr call (startCall ou rn call d w) of
           ((res, e), w) \<Rightarrow> answerOutcome ou call res e (finishCall ou rn call res e w)) w
    (\<lambda>r s. callPost ou cx rn tt perTurn addr call r (s0 @ s))"
proof -
  let ?A = "authorisedRun ou cx rn tt perTurn addr call"
  obtain d w1 where g: "approveToolCall rn perTurn call w = (d, w1)" by fastforce
  from approveToolCall_adds [OF g] obtain ds where ds: "adds w w1 (List.map (HookAsked call) ds)"
    "hd_allow d \<longrightarrow> gatePassed rn perTurn call (List.map (HookAsked call) ds)" by blast
  let ?s1 = "s0 @ List.map (HookAsked call) ds"
  have s1: "bodies ?s1 = []" "saves ?s1 = []" using before(1,2) by simp_all
  show ?thesis
  proof (cases "hd_allow d")
    case False
    let ?w2 = "publishToolEvent rn (applyHookDecision (toolEventFromCall ou ToolEventFinished call) d) w1"
    obtain s2 where s2: "adds w1 ?w2 s2" "list_all report s2" using publish_reports reports_def by metis
    have "leaves (answerError ou call (hd_reason d) ?w2) w (\<lambda>r s. callPost ou cx rn tt perTurn addr call r (s0 @ s))"
    proof (rule leaves_after [OF adds_trans [OF ds(1) s2(1)]], rule leaves_conseq [OF answerError_leaves])
      fix r :: "(tool_error, tool_part list) result" and s
      assume "answers (tc_id call) r s"
      with s1 reports_facts [OF s2(2)] show "callPost ou cx rn tt perTurn addr call r (s0 @ (List.map (HookAsked call) ds @ s2) @ s)"
        by (auto simp: callPost_def answeredOnce_def answers_def checkBodies_none)
    qed
    with g False show ?thesis by (simp add: refuseCall_def)
  next
    case True
    let ?w2 = "startCall ou rn call d w1"
    obtain s2 where s2: "adds w1 ?w2 s2" "list_all report s2" using startCall_reports reports_def by metis
    obtain res e w3 where inv: "invokeTool ou cx rn tt addr call ?w2 = ((res, e), w3)" by (metis prod.exhaust)
    from invokeTool_adds [OF inv] obtain s3 where s3: "adds ?w2 w3 s3" "saves s3 = []" "hookVerdicts s3 = []"
      "checkBodies (mayRun ou cx rn tt addr call) [] s3" by blast
    let ?w4 = "finishCall ou rn call res e w3"
    obtain s4 where s4: "adds w3 ?w4 s4" "list_all report s4" using finishCall_reports reports_def by metis
    have gate: "gatePassed rn perTurn call (List.map (HookAsked call) ds @ s2)"
      using ds(2) True reports_facts [OF s2(2)] by (simp add: gatePassed_def)
    have "checkBodies ?A ((?s1 @ s2) @ []) s3"
    proof (rule checkBodies_mono [OF s3(4)])
      fix pre b q
      assume "mayRun ou cx rn tt addr call pre b q"
      with gate before(3,4) show "?A ((?s1 @ s2) @ pre) b q"
        unfolding authorisedRun_def
        by (intro exI [of _ s0] exI [of _ "List.map (HookAsked call) ds @ s2"] exI [of _ pre] exI [of _ "[]"] exI [of _ ids]) simp
    qed
    then have checked: "checkBodies ?A [] (((?s1 @ s2) @ s3) @ s4)"
      using s1(1) reports_facts [OF s2(2)] reports_facts [OF s4(2)] by (simp add: checkBodies_none)
    have "adds w ?w4 (List.map (HookAsked call) ds @ s2 @ s3 @ s4)"
      using ds(1) s2(1) s3(1) s4(1) by (simp add: adds_def)
    then have "leaves (answerOutcome ou call res e ?w4) w (\<lambda>r s. callPost ou cx rn tt perTurn addr call r (s0 @ s))"
    proof (rule leaves_after, intro leaves_conseq [OF answerOutcome_leaves])
      fix r :: "(tool_error, tool_part list) result" and s
      assume "answers (tc_id call) r s"
      with checked s1(2) s3(2) reports_facts [OF s2(2)] reports_facts [OF s4(2)]
      show "callPost ou cx rn tt perTurn addr call r (s0 @ (List.map (HookAsked call) ds @ s2 @ s3 @ s4) @ s)"
        by (auto simp: callPost_def answeredOnce_def answers_def checkBodies_none)
    qed
    with g True inv show ?thesis by simp
  qed
qed

lemma normalizedCall_id [simp]: "tc_id (normalizedCall addr call) = tc_id call"
  by (simp add: normalizedCall_def)

lemma streamCall_leaves: "leaves (streamCall ou parts call w) w (\<lambda>r s. list_all report s)"
proof (cases "map_of parts (tc_id call)")
  case None
  then show ?thesis by (simp add: streamCall_def)
next
  case (Some p)
  then show ?thesis by (simp add: streamCall_def report_tryOp)
qed

text \<open>A failure before the gate.\<close>

lemma callPost_stopped: "list_all report s \<Longrightarrow> failed r \<Longrightarrow> callPost ou cx rn tt perTurn addr call r s"
  using reports_facts [of s] by (simp add: callPost_def answeredOnce_def checkBodies_none)

lemma handleCall_leaves:
  "leaves (handleCall ou cx rn tt perTurn addr parts call0 w) w (callPost ou cx rn tt perTurn addr (normalizedCall addr call0))"
proof -
  let ?c = "normalizedCall addr call0"
  show ?thesis unfolding handleCall_def Let_def
  proof (rule leaves_thenDo [OF tryOp_leaves], goal_cases)
    case (1 x w1 s1)
    then have cp: "adds w w1 s1" "s1 = [Checkpointed [tc_id ?c]]" by simp_all
    show ?case
    proof (rule leaves_thenDo [OF streamCall_leaves], goal_cases)
      case (1 y w2 s2)
      let ?w3 = "publishToolEvent rn (toolEventFromCall ou ToolEventQueued ?c) w2"
      obtain s3 where s3: "adds w2 ?w3 s3" "list_all report s3" using publish_reports reports_def by metis
      have rep: "list_all report (s1 @ s2 @ s3)" using cp(2) 1(2) s3(2) by simp
      show ?case
      proof (rule leaves_after [OF s3(1)], rule leaves_conseq [OF gatedCall_leaves [of "s1 @ s2 @ s3" "[tc_id ?c]"]])
        show "bodies (s1 @ s2 @ s3) = []" "saves (s1 @ s2 @ s3) = []" using reports_facts [OF rep] by blast+
        show "Checkpointed [tc_id ?c] \<in> set (s1 @ s2 @ s3)" using cp(2) by simp
      qed simp_all
    next
      case (2 e s2)
      with cp(2) show ?case by (intro callPost_stopped) simp_all
    qed
  next
    case (2 e s1)
    then show ?case by (intro callPost_stopped) simp_all
  qed
qed

end
