(* ===== verification/ToolTranscript.thy ===== *)
theory ToolTranscript
  imports ToolLoopSpec
begin

text \<open>
  The whole loop: the transcript that it saves is well-formed at every moment, every body is
  authorised for a call of the answer at hand, and a parallel batch has its three phases.
\<close>

section \<open>Transcripts\<close>

text \<open>
  A transcript, read with the calls that still wait for their result: results come in the order
  of the calls, and nothing else comes before the last of them. The value is the calls that wait
  at the end, \<open>None\<close> for a transcript that is not well-formed.
\<close>

fun answered :: "string list \<Rightarrow> saved list \<Rightarrow> string list option" where
  "answered ps [] = Some ps"
| "answered ps (SavedResult c parts # ms) =
     (case ps of [] \<Rightarrow> None | p # rest \<Rightarrow> if p = c then answered rest ms else None)"
| "answered ps (SavedAssistant a content # ms) =
     (if ps = [] then answered (List.map tc_id (callsOf content)) ms else None)"
| "answered ps (SavedUser parts # ms) = (if ps = [] then answered [] ms else None)"

lemma answered_append:
  "answered ps (xs @ ys) = (case answered ps xs of None \<Rightarrow> None | Some rest \<Rightarrow> answered rest ys)"
  by (induction ps xs rule: answered.induct) (auto split: list.splits)

fun fromModel :: "saved \<Rightarrow> bool" where
  "fromModel (SavedAssistant a content) \<longleftrightarrow> True"
| "fromModel (SavedResult c parts) \<longleftrightarrow> False"
| "fromModel (SavedUser parts) \<longleftrightarrow> False"

text \<open>The operation answers the waiting calls \<open>ps\<close>: all of them on success, else a part.\<close>

definition serves :: "string list \<Rightarrow> ('e, 'a) result \<Rightarrow> event list \<Rightarrow> bool" where
  "serves ps r s \<longleftrightarrow> (\<exists>rest. answered ps (saves s) = Some rest \<and> (\<not> failed r \<longrightarrow> rest = [])) \<and>
     list_all (\<lambda>m. \<not> fromModel m) (saves s)"

definition someAuthorised ::
  "outside \<Rightarrow> turn_context \<Rightarrow> runner \<Rightarrow> turn_tools \<Rightarrow> approver option list \<Rightarrow> message_address \<Rightarrow> tool_call list \<Rightarrow>
   event list \<Rightarrow> body \<Rightarrow> tool_request \<Rightarrow> bool" where
  "someAuthorised ou cx rn tt perTurn addr calls pre b q \<longleftrightarrow>
     (\<exists>c\<in>set calls. authorisedRun ou cx rn tt perTurn addr (normalizedCall addr c) pre b q)"

definition callsPost ::
  "outside \<Rightarrow> turn_context \<Rightarrow> runner \<Rightarrow> turn_tools \<Rightarrow> approver option list \<Rightarrow> message_address \<Rightarrow> tool_call list \<Rightarrow>
   ('e, 'a) result \<Rightarrow> event list \<Rightarrow> bool" where
  "callsPost ou cx rn tt perTurn addr calls r s \<longleftrightarrow>
     checkBodies (someAuthorised ou cx rn tt perTurn addr calls) [] s \<and> serves (List.map tc_id calls) r s"

lemma checkBodies_imp:
  "checkBodies A p es \<Longrightarrow> (\<And>pre b q. A pre b q \<Longrightarrow> B pre b q) \<Longrightarrow> checkBodies B p es"
  using checkBodies_mono [of A p es B "[]"] by simp

lemma checkBodies_shift:
  "checkBodies A [] es \<Longrightarrow> (\<And>pre b q. A pre b q \<Longrightarrow> B (p0 @ pre) b q) \<Longrightarrow> checkBodies B p0 es"
  using checkBodies_mono [of A "[]" es B p0] by simp

lemma handleCalls_leaves:
  "leaves (handleCalls ou cx rn tt perTurn addr parts calls w) w (callsPost ou cx rn tt perTurn addr calls)"
proof (induction calls arbitrary: w)
  case Nil
  then show ?case by (simp add: callsPost_def serves_def)
next
  case (Cons c cs)
  show ?case unfolding handleCalls.simps
  proof (rule leaves_thenDo [OF handleCall_leaves], goal_cases)
    case (1 inject w1 s1)
    then obtain ps where s1: "saves s1 = [SavedResult (tc_id c) ps]"
      "checkBodies (authorisedRun ou cx rn tt perTurn addr (normalizedCall addr c)) [] s1"
      by (auto simp: callPost_def answeredOnce_def)
    show ?case
    proof (rule leaves_thenDo [OF Cons.IH], goal_cases)
      case (1 more w2 s2)
      then show ?case using s1
        by (auto simp: callsPost_def serves_def someAuthorised_def intro: checkBodies_imp
            elim!: checkBodies_shift checkBodies_imp [of _ "[]" s1] intro!: authorisedRun_left)
    next
      case (2 e s2)
      then show ?case using s1
        by (auto simp: callsPost_def serves_def someAuthorised_def intro: checkBodies_imp
            elim!: checkBodies_shift checkBodies_imp [of _ "[]" s1] intro!: authorisedRun_left)
    qed
  next
    case (2 e s1)
    then show ?case
      by (auto simp: callPost_def callsPost_def serves_def answeredOnce_def someAuthorised_def elim!: checkBodies_imp)
  qed
qed

section \<open>The batch\<close>

text \<open>
  The closure of an item is authorised by the segment \<open>s\<close>, whatever came before it: a checkpoint
  of the call is all that is needed there.
\<close>

definition closureReady ::
  "outside \<Rightarrow> turn_context \<Rightarrow> runner \<Rightarrow> turn_tools \<Rightarrow> approver option list \<Rightarrow> message_address \<Rightarrow> event list \<Rightarrow> batch_item \<Rightarrow> bool" where
  "closureReady ou cx rn tt perTurn addr s item \<longleftrightarrow>
     (\<forall>c. bi_closure item = Some c \<longrightarrow>
        (\<exists>xs p1 p2 p3. s = xs @ p1 @ p2 @ p3 \<and> gatePassed rn perTurn (bi_call item) p1 \<and>
           mayRun ou cx rn tt addr (bi_call item) p2 (fst (closureBody cx c)) (snd (closureBody cx c))))"

lemma closureReady_extend:
  "closureReady ou cx rn tt perTurn addr s item \<Longrightarrow> closureReady ou cx rn tt perTurn addr (xs @ s @ ys) item"
  unfolding closureReady_def by (metis append.assoc)

lemma prepareParallelTool_adds:
  assumes "prepareParallelTool ou cx rn tt addr call w = (r, w')"
  shows "\<exists>seg. adds w w' seg \<and> bodies seg = [] \<and> saves seg = [] \<and>
    (\<forall>c. r = Inr c \<longrightarrow> mayRun ou cx rn tt addr call seg (fst (closureBody cx c)) (snd (closureBody cx c)))"
proof -
  from prepared_calls_are_admitted [where ou = ou and cx = cx and rn = rn and tt = tt and addr = addr and call = call and w = w] assms
  obtain seg where seg: "adds w w' seg" "bodies seg = []"
    "\<forall>c. r = Inr c \<longrightarrow> mayRun ou cx rn tt addr call seg (fst (closureBody cx c)) (snd (closureBody cx c))"
    by (cases r) (auto simp: split_beta)
  from silentD [OF silent_prepareParallelTool [of w ou cx rn tt addr call]] assms obtain s where "adds w w' s" "saves s = []"
    by auto
  with seg adds_unique show ?thesis by blast
qed

definition itemPost ::
  "outside \<Rightarrow> turn_context \<Rightarrow> runner \<Rightarrow> turn_tools \<Rightarrow> approver option list \<Rightarrow> message_address \<Rightarrow> tool_call \<Rightarrow>
   ('e, batch_item) result \<Rightarrow> event list \<Rightarrow> bool" where
  "itemPost ou cx rn tt perTurn addr call r s \<longleftrightarrow> bodies s = [] \<and> saves s = [] \<and>
     (\<forall>item. r = Inr item \<longrightarrow> bi_call item = call \<and> (bi_closure item = None \<longleftrightarrow> bi_refused item \<noteq> None) \<and>
        closureReady ou cx rn tt perTurn addr s item)"

lemma admitItem_leaves:
  "leaves (admitItem ou cx rn tt perTurn addr parts call w) w (itemPost ou cx rn tt perTurn addr call)"
  unfolding admitItem_def
proof (rule leaves_thenDo [OF streamCall_leaves], goal_cases)
  case (1 x w1 s1)
  let ?w2 = "publishToolEvent rn (toolEventFromCall ou ToolEventQueued call) w1"
  obtain s2 where s2: "adds w1 ?w2 s2" "list_all report s2" using publish_reports reports_def by metis
  obtain d w3 where g: "approveToolCall rn perTurn call ?w2 = (d, w3)" by fastforce
  from approveToolCall_adds [OF g] obtain ds where ds: "adds ?w2 w3 (List.map (HookAsked call) ds)"
    "hd_allow d \<longrightarrow> gatePassed rn perTurn call (List.map (HookAsked call) ds)" by blast
  have a3: "adds w1 w3 (s2 @ List.map (HookAsked call) ds)" using s2(1) ds(1) by (rule adds_trans)
  note none = reports_facts [OF 1(2)] reports_facts [OF s2(2)]
  show ?case
  proof (cases "hd_allow d")
    case False
    with g a3 none show ?thesis
      by (intro leavesI [of _ _ "s2 @ List.map (HookAsked call) ds"]) (simp_all add: itemPost_def closureReady_def)
  next
    case True
    obtain r w4 where p: "prepareParallelTool ou cx rn tt addr call w3 = (r, w4)" by fastforce
    from prepareParallelTool_adds [OF p] obtain s4 where s4: "adds w3 w4 s4" "bodies s4 = []" "saves s4 = []"
      "\<forall>c. r = Inr c \<longrightarrow> mayRun ou cx rn tt addr call s4 (fst (closureBody cx c)) (snd (closureBody cx c))" by blast
    have a4: "adds w1 w4 ((s2 @ List.map (HookAsked call) ds) @ s4)" using a3 s4(1) by (rule adds_trans)
    have ready: "closureReady ou cx rn tt perTurn addr (s1 @ (s2 @ List.map (HookAsked call) ds) @ s4)
        \<lparr>bi_call = call, bi_decision = d, bi_refused = None, bi_closure = Some c\<rparr>" if "r = Inr c" for c
      using that s4(4) ds(2) True unfolding closureReady_def
      by (intro allI impI exI [of _ "s1 @ s2"] exI [of _ "List.map (HookAsked call) ds"] exI [of _ s4] exI [of _ "[]"]) simp
    show ?thesis
    proof (rule leavesI)
      show "adds w1 (snd (case approveToolCall rn perTurn call ?w2 of (d, w) \<Rightarrow>
           if \<not> hd_allow d
           then (Inr \<lparr>bi_call = call, bi_decision = d, bi_refused = Some (errorf (hd_reason d)), bi_closure = None\<rparr>, w)
           else case prepareParallelTool ou cx rn tt addr call w of
             (Inl e, w) \<Rightarrow>
               (if ou_ended ou (wo_events w) \<noteq> None then (Inl (wrap (''authorize tool '' @ tc_name call) e), w)
                else (Inr \<lparr>bi_call = call, bi_decision = d, bi_refused = Some e, bi_closure = None\<rparr>, w))
           | (Inr c, w) \<Rightarrow> (Inr \<lparr>bi_call = call, bi_decision = d, bi_refused = None, bi_closure = Some c\<rparr>, w)))
          ((s2 @ List.map (HookAsked call) ds) @ s4)"
        using g True p a4 by (cases r) simp_all
    next
      show "itemPost ou cx rn tt perTurn addr call (fst (case approveToolCall rn perTurn call ?w2 of (d, w) \<Rightarrow>
           if \<not> hd_allow d
           then (Inr \<lparr>bi_call = call, bi_decision = d, bi_refused = Some (errorf (hd_reason d)), bi_closure = None\<rparr>, w)
           else case prepareParallelTool ou cx rn tt addr call w of
             (Inl e, w) \<Rightarrow>
               (if ou_ended ou (wo_events w) \<noteq> None then (Inl (wrap (''authorize tool '' @ tc_name call) e), w)
                else (Inr \<lparr>bi_call = call, bi_decision = d, bi_refused = Some e, bi_closure = None\<rparr>, w))
           | (Inr c, w) \<Rightarrow> (Inr \<lparr>bi_call = call, bi_decision = d, bi_refused = None, bi_closure = Some c\<rparr>, w)))
          (s1 @ ((s2 @ List.map (HookAsked call) ds) @ s4))"
        using g True p none s4(2,3) ready by (cases r) (simp_all add: itemPost_def closureReady_def)
    qed
  qed
next
  case (2 e s1)
  then show ?case using reports_facts [of s1] by (simp add: itemPost_def)
qed

definition admittedPost ::
  "outside \<Rightarrow> turn_context \<Rightarrow> runner \<Rightarrow> turn_tools \<Rightarrow> approver option list \<Rightarrow> message_address \<Rightarrow> tool_call list \<Rightarrow>
   ('e, batch_item list) result \<Rightarrow> event list \<Rightarrow> bool" where
  "admittedPost ou cx rn tt perTurn addr calls r s \<longleftrightarrow> bodies s = [] \<and> saves s = [] \<and>
     (\<forall>items. r = Inr items \<longrightarrow> List.map bi_call items = calls \<and>
        list_all (\<lambda>i. (bi_closure i = None \<longleftrightarrow> bi_refused i \<noteq> None) \<and> closureReady ou cx rn tt perTurn addr s i) items)"

lemma admitAll_leaves:
  "leaves (admitAll ou cx rn tt perTurn addr parts calls w) w (admittedPost ou cx rn tt perTurn addr calls)"
proof (induction calls arbitrary: w)
  case Nil
  then show ?case by (simp add: admittedPost_def)
next
  case (Cons c cs)
  show ?case unfolding admitAll.simps
  proof (rule leaves_thenDo [OF admitItem_leaves], goal_cases)
    case (1 item w1 s1)
    show ?case
    proof (rule leaves_thenDo [OF Cons.IH], goal_cases)
      case (1 items w2 s2)
      have "closureReady ou cx rn tt perTurn addr (s1 @ s2) i" if "closureReady ou cx rn tt perTurn addr s2 i" for i
        using closureReady_extend [OF that, of s1 "[]"] by simp
      moreover have "closureReady ou cx rn tt perTurn addr (s1 @ s2) item" if "closureReady ou cx rn tt perTurn addr s1 item"
        using closureReady_extend [OF that, of "[]" s2] by simp
      ultimately show ?case using 1 \<open>itemPost _ _ _ _ _ _ _ _ _\<close>
        by (auto simp: itemPost_def admittedPost_def list_all_iff)
    next
      case (2 e s2)
      then show ?case using 1 by (simp add: itemPost_def admittedPost_def)
    qed
  next
    case (2 e s1)
    then show ?case by (simp add: itemPost_def admittedPost_def)
  qed
qed

end
