(* ===== verification/ToolBatch.thy ===== *)
theory ToolBatch
  imports ToolTranscript "HOL-Library.Multiset"
begin

text \<open>
  The phases of a parallel batch: the admissions, an interleaving of the admitted bodies in which
  each runs exactly once, and the answers in the order of the calls.
\<close>

section \<open>Flags of prepared invocations\<close>

lemma used_attempt [simp]: "wo_used (snd (attempt ou e w)) = wo_used w"
  by (cases "ou_fault ou (wo_events w) e") (simp_all add: attempt_def)

lemma used_emitApproval [simp]: "wo_used (emitApproval ou cx c sc st re w) = wo_used w"
  by (simp add: emitApproval_def)

lemma used_GrantSession [simp]: "wo_used (GrantSession a b w) = wo_used w"
  by (simp add: GrantSession_def)

lemma used_recordGrant [simp]: "wo_used (recordGrant ou rn i scope w) = wo_used w"
  by (auto simp: recordGrant_def GrantAlways_def Let_def split: option.splits)

lemma used_interactive [simp]: "wo_used (snd (interactiveAuthorizer ou cx rn i w)) = wo_used w"
  by (auto simp: interactiveAuthorizer_def Let_def split: reply.splits)

lemma used_askSafety [simp]: "wo_used (snd (askSafety rn i w)) = wo_used w"
  by (auto simp: askSafety_def split: option.splits)

lemma used_grant [simp]: "wo_used (snd (grantAuthorizer ou rn i w)) = wo_used w"
  by (auto simp: grantAuthorizer_def Let_def split: option.splits bool.splits)

lemma used_policy [simp]: "wo_used (snd (policyAuthorizer p i w)) = wo_used w"
  by (auto simp: policyAuthorizer_def Let_def split: option.splits)

lemma used_finishAuthz [simp]: "wo_used (snd (finishAuthz ou cx rn i base w)) = wo_used w"
proof -
  obtain s w1 where as: "askSafety rn i w = (s, w1)" by fastforce
  with used_askSafety [of rn i w] show ?thesis by (simp add: finishAuthz_def)
qed

lemma used_authorizeTool [simp]: "wo_used (snd (authorizeTool ou cx rn i base w)) = wo_used w"
proof -
  obtain g w1 where g: "grantAuthorizer ou rn i w = (g, w1)" by fastforce
  with used_grant [of ou rn i w] show ?thesis by (cases "az_outcome g") (simp_all add: authorizeTool_def)
qed

lemma used_authorizeToolProvider [simp]: "wo_used (snd (authorizeToolProvider ou cx rn i base w)) = wo_used w"
proof -
  obtain g w1 where g: "grantAuthorizer ou rn i w = (g, w1)" by fastforce
  obtain d w2 where d: "policyAuthorizer (rn_policy rn) i w1 = (d, w2)" by fastforce
  from g d used_grant [of ou rn i w] used_policy [of "rn_policy rn" i w1]
  show ?thesis by (cases "az_outcome g") (simp_all add: authorizeToolProvider_def)
qed

lemma used_resolveCatalog [simp]: "wo_used (snd (resolveCatalogInvocation ou rn call w)) = wo_used w"
  by (auto simp: resolveCatalogInvocation_def split: option.splits sum.splits)

lemma used_hookApprove [simp]: "wo_used (snd (hookApprove as call w)) = wo_used w"
  using hookApprove_keeps by blast

lemma used_approveToolCall [simp]: "wo_used (snd (approveToolCall rn perTurn call w)) = wo_used w"
proof -
  obtain d w1 where h: "hookApprove perTurn call w = (d, w1)" by fastforce
  with used_hookApprove [of perTurn call w] show ?thesis by (simp add: approveToolCall_def)
qed

lemma used_publish [simp]: "wo_used (publishToolEvent rn v w) = wo_used w"
  by (simp add: publishToolEvent_def)

lemma used_notify [simp]: "wo_used (notify n what c w) = wo_used w"
  by (simp add: notify_def)

lemma used_startCall [simp]: "wo_used (startCall ou rn call d w) = wo_used w"
  by (simp add: startCall_def)

lemma used_tryOp [simp]: "wo_used (snd (tryOp ou context e w)) = wo_used w"
proof -
  obtain x w1 where at: "attempt ou e w = (x, w1)" by fastforce
  with used_attempt [of ou e w] show ?thesis by (cases x) (simp_all add: tryOp_def)
qed

lemma used_streamCall [simp]: "wo_used (snd (streamCall ou parts call w)) = wo_used w"
  by (auto simp: streamCall_def split: option.splits)

text \<open>The flags of the closures that wait: new ones, and none of them set.\<close>

definition flagOf :: "closure \<Rightarrow> nat option" where
  "flagOf c = (case c of RunPrepared p \<Rightarrow> pi_used p | RunProvider p q \<Rightarrow> None)"

definition soundClosure :: "closure \<Rightarrow> bool" where
  "soundClosure c \<longleftrightarrow> (case c of RunPrepared p \<Rightarrow> (\<exists>r q u. preparedFor r q u p) | RunProvider p q \<Rightarrow> True)"

definition growsBy :: "world \<Rightarrow> world \<Rightarrow> closure option \<Rightarrow> bool" where
  "growsBy w w' c \<longleftrightarrow> (\<exists>n. wo_used w' = wo_used w @ replicate n False) \<and>
     (case c of None \<Rightarrow> True
      | Some x \<Rightarrow> soundClosure x \<and>
          (\<forall>u. flagOf x = Some u \<longrightarrow> length (wo_used w) \<le> u \<and> u < length (wo_used w')))"

lemma growsBy_same: "wo_used w' = wo_used w \<Longrightarrow> growsBy w w' None"
  by (auto simp: growsBy_def intro: exI [of _ 0])

lemma growsBy_before: "wo_used w1 = wo_used w \<Longrightarrow> growsBy w1 w' c \<Longrightarrow> growsBy w w' c"
  by (cases c) (simp_all add: growsBy_def)

definition closureResult :: "('e, closure) result \<Rightarrow> closure option" where
  "closureResult r = (case r of Inl e \<Rightarrow> None | Inr c \<Rightarrow> Some c)"

lemma closureResult_simps [simp]: "closureResult (Inl e) = None" "closureResult (Inr c) = Some c"
  by (simp_all add: closureResult_def)

lemma sessionPrepare_grows:
  assumes "sessionPrepare ou cx r a call b w = (res, w')"
  shows "growsBy w w' (closureResult (closureOf res))"
proof -
  from Prepare_adds [OF assms [unfolded sessionPrepare_def]]
  have used: "case res of Inl pe \<Rightarrow> wo_used w' = wo_used w
     | Inr p \<Rightarrow> wo_used w' = wo_used w @ [False] \<and> preparedFor r (toolRequest cx a call b) (length (wo_used w)) p"
    by (auto split: sum.splits)
  show ?thesis
  proof (cases res)
    case (Inl pe)
    with used show ?thesis by (simp add: closureOf_def growsBy_same)
  next
    case (Inr p)
    with used have "wo_used w' = wo_used w @ replicate 1 False" "preparedFor r (toolRequest cx a call b) (length (wo_used w)) p"
      by simp_all
    with Inr show ?thesis
      unfolding growsBy_def closureOf_def
      by (auto simp: soundClosure_def flagOf_def preparedFor_def intro: exI [of _ 1])
  qed
qed

lemma growsBy_failed: "growsBy w w' c \<Longrightarrow> growsBy w w' None"
  by (simp add: growsBy_def)

lemma growsBy_trans: "growsBy w w1 None \<Longrightarrow> growsBy w1 w' c \<Longrightarrow> growsBy w w' c"
  by (auto simp: growsBy_def replicate_add [symmetric] split: option.splits)

lemma prepareLocalTool_grows:
  assumes run: "prepareLocalTool ou cx rn addr call trust w = (r, w')"
  shows "growsBy w w' (closureResult r)"
proof -
  let ?i = "\<lparr>ai_call = call, ai_addr = addr, ai_trust = trust, ai_provider = []\<rparr>"
  let ?prepare = "sessionPrepare ou cx (rn_registry rn) (rn_session rn) call"
  obtain s w1 where as: "askSafety rn ?i w = (s, w1)" by fastforce
  with used_askSafety [of rn ?i w] have u1: "wo_used w1 = wo_used w" by simp
  note def = prepareLocalTool_def [of ou cx rn addr call trust w, unfolded Let_def as]
  consider (deny) "az_outcome s = Deny" | (prompt) "az_outcome s = Prompt" | (pass) "az_outcome s = Allow \<or> az_outcome s = Abstain"
    by (cases "az_outcome s") auto
  then show ?thesis
  proof cases
    case deny
    with run def u1 show ?thesis by (auto intro: growsBy_same)
  next
    case prompt
    obtain g w2 where g: "interactiveAuthorizer ou cx rn ?i w1 = (g, w2)" by fastforce
    with used_interactive [of ou cx rn ?i w1] u1 have u2: "wo_used w2 = wo_used w" by simp
    obtain r0 w3 where p: "?prepare True w2 = (r0, w3)" by fastforce
    have "growsBy w w3 (closureResult (closureOf r0))" using growsBy_before [OF u2 sessionPrepare_grows [OF p]] .
    with run def prompt g p u1 u2 show ?thesis by (auto intro: growsBy_same split: if_splits)
  next
    case pass
    obtain r0 w2 where p: "?prepare False w1 = (r0, w2)" by fastforce
    have g2: "growsBy w w2 (closureResult (closureOf r0))" using growsBy_before [OF u1 sessionPrepare_grows [OF p]] .
    obtain d w3 where d: "authorizeTool ou cx rn ?i Prompt w2 = (d, w3)" by fastforce
    with used_authorizeTool [of ou cx rn ?i Prompt w2] have u3: "wo_used w3 = wo_used w2" by simp
    obtain r1 w4 where q: "?prepare True w3 = (r1, w4)" by fastforce
    have g4: "growsBy w w4 (closureResult (closureOf r1))"
      using growsBy_trans [OF growsBy_failed [OF g2] growsBy_before [OF u3 sessionPrepare_grows [OF q]]] .
    have g3: "growsBy w w3 None" using g2 u3 by (simp add: growsBy_def)
    show ?thesis
    proof (cases r0)
      case (Inr x)
      with run def pass p have "r = closureOf r0" "w' = w2" by (cases "az_outcome s"; auto simp: closureOf_def)+
      with g2 show ?thesis by simp
    next
      case (Inl pe)
      with run def pass p d q have "r = Inl (pe_error pe) \<and> w' = w2 \<or> failed r \<and> w' = w3 \<or> r = closureOf r1 \<and> w' = w4"
        by (cases "az_outcome s") (auto split: if_splits)
      with g2 g3 g4 show ?thesis by (cases r) (auto intro: growsBy_failed)
    qed
  qed
qed

lemma prepareParallelTool_grows:
  assumes run: "prepareParallelTool ou cx rn tt addr call w = (r, w')"
  shows "growsBy w w' (closureResult r)"
proof (cases "toolExcluded cx (tc_name call) \<or> failed (bindCatalogToolCall call tt)")
  case True
  with run show ?thesis
    by (cases "bindCatalogToolCall call tt") (auto simp: prepareParallelTool_def intro: growsBy_same split: if_splits)
next
  case False
  then obtain c where c: "bindCatalogToolCall call tt = Inr c" and ok: "\<not> toolExcluded cx (tc_name call)"
    by (cases "bindCatalogToolCall call tt") auto
  show ?thesis
  proof (cases "map_of (tt_provider tt) (tc_name c)")
    case None
    with run c ok have "prepareLocalTool ou cx rn addr c (trustOf tt (tc_name c)) w = (r, w')"
      by (simp add: prepareParallelTool_def)
    then show ?thesis by (rule prepareLocalTool_grows)
  next
    case (Some p)
    let ?t = "trustOf tt (tc_name c)"
    let ?i = "\<lparr>ai_call = c, ai_addr = addr, ai_trust = ?t, ai_provider = p\<rparr>"
    obtain m w1 where m: "resolveCatalogInvocation ou rn c w = (m, w1)" by fastforce
    with used_resolveCatalog [of ou rn c w] have u1: "wo_used w1 = wo_used w" by simp
    obtain d w2 where d: "authorizeToolProvider ou cx rn ?i (trustBase ?t) w1 = (d, w2)" by fastforce
    with used_authorizeToolProvider [of ou cx rn ?i "trustBase ?t" w1] u1 have u2: "wo_used w2 = wo_used w" by simp
    have "w' = w1 \<and> failed r \<or> w' = w2 \<and> (failed r \<or> (\<exists>q. r = Inr (RunProvider p q)))"
      using run c ok Some m d by (cases m) (auto simp: prepareParallelTool_def prepareProviderTool_def split: if_splits)
    with u1 u2 show ?thesis
      by (cases r) (auto intro: growsBy_same simp: growsBy_def soundClosure_def flagOf_def intro: exI [of _ 0])
  qed
qed

definition itemFlag :: "batch_item \<Rightarrow> nat option" where
  "itemFlag item = (case bi_closure item of None \<Rightarrow> None | Some c \<Rightarrow> flagOf c)"

definition flags :: "batch_item list \<Rightarrow> nat list" where
  "flags items = concat (List.map (\<lambda>i. case itemFlag i of None \<Rightarrow> [] | Some u \<Rightarrow> [u]) items)"

lemma flags_simps [simp]:
  "flags [] = []" "flags (i # items) = (case itemFlag i of None \<Rightarrow> [] | Some u \<Rightarrow> [u]) @ flags items"
  by (simp_all add: flags_def)

lemma set_flags: "u \<in> set (flags items) \<longleftrightarrow> (\<exists>i\<in>set items. itemFlag i = Some u)"
  by (induction items) (auto split: option.splits)

definition soundItem :: "batch_item \<Rightarrow> bool" where
  "soundItem item \<longleftrightarrow> (case bi_closure item of None \<Rightarrow> True | Some c \<Rightarrow> soundClosure c)"

text \<open>The items wait: their closures are sound, their flags differ and are not set.\<close>

definition waiting :: "batch_item list \<Rightarrow> bool list \<Rightarrow> bool" where
  "waiting items used \<longleftrightarrow> list_all soundItem items \<and> distinct (flags items) \<and>
     list_all (\<lambda>u. u < length used \<and> \<not> used ! u) (flags items)"

lemma admitItem_grows:
  assumes "admitItem ou cx rn tt perTurn addr parts call w = (Inr item, w')"
  shows "growsBy w w' (bi_closure item)"
proof -
  obtain r w1 where st: "streamCall ou parts call w = (r, w1)" by fastforce
  with assms obtain x where x: "r = Inr x" by (cases r) (auto simp: admitItem_def)
  let ?w2 = "publishToolEvent rn (toolEventFromCall ou ToolEventQueued call) w1"
  obtain d w3 where g: "approveToolCall rn perTurn call ?w2 = (d, w3)" by fastforce
  have u3: "wo_used w3 = wo_used w"
    using used_streamCall [of ou parts call w] used_approveToolCall [of rn perTurn call ?w2] st g by simp
  show ?thesis
  proof (cases "hd_allow d")
    case False
    with assms st x g u3 show ?thesis by (auto simp: admitItem_def intro: growsBy_same)
  next
    case True
    obtain p w4 where p: "prepareParallelTool ou cx rn tt addr call w3 = (p, w4)" by fastforce
    from growsBy_before [OF u3 prepareParallelTool_grows [OF p]] have g4: "growsBy w w4 (closureResult p)" .
    from assms st x g True p have "w' = w4 \<and> bi_closure item = closureResult p"
      by (cases p) (auto simp: admitItem_def split: if_splits)
    with g4 show ?thesis by simp
  qed
qed

lemma admitAll_grows:
  "admitAll ou cx rn tt perTurn addr parts calls w = (Inr items, w') \<Longrightarrow>
   (\<exists>n. wo_used w' = wo_used w @ replicate n False) \<and> list_all soundItem items \<and> distinct (flags items) \<and>
   (\<forall>u\<in>set (flags items). length (wo_used w) \<le> u \<and> u < length (wo_used w'))"
proof (induction calls arbitrary: w items)
  case Nil
  then show ?case by (auto intro: exI [of _ 0])
next
  case (Cons c cs)
  obtain r w1 where i: "admitItem ou cx rn tt perTurn addr parts c w = (r, w1)" by fastforce
  with Cons.prems obtain item where item: "r = Inr item" by (cases r) auto
  with Cons.prems i obtain rest where rest: "admitAll ou cx rn tt perTurn addr parts cs w1 = (Inr rest, w')" "items = item # rest"
    by (cases "admitAll ou cx rn tt perTurn addr parts cs w1"; cases "fst (admitAll ou cx rn tt perTurn addr parts cs w1)") auto
  from admitItem_grows i item have g: "growsBy w w1 (bi_closure item)" by blast
  from Cons.IH [OF rest(1)] obtain n where n: "wo_used w' = wo_used w1 @ replicate n False" and
    r: "list_all soundItem rest" "distinct (flags rest)"
      "\<forall>u\<in>set (flags rest). length (wo_used w1) \<le> u \<and> u < length (wo_used w')" by blast
  from g obtain m where m: "wo_used w1 = wo_used w @ replicate m False" by (auto simp: growsBy_def)
  have first: "soundItem item" "\<forall>u. itemFlag item = Some u \<longrightarrow> length (wo_used w) \<le> u \<and> u < length (wo_used w1)"
    using g by (auto simp: growsBy_def soundItem_def itemFlag_def split: option.splits)
  have "wo_used w' = wo_used w @ replicate (m + n) False" using m n by (simp add: replicate_add)
  moreover have "distinct (flags items)" using r(2,3) first(2) rest(2) by (auto split: option.splits)
  moreover have "\<forall>u\<in>set (flags items). length (wo_used w) \<le> u \<and> u < length (wo_used w')"
  proof
    fix u
    assume "u \<in> set (flags items)"
    then have "itemFlag item = Some u \<or> u \<in> set (flags rest)" using rest(2) by (auto split: option.splits)
    moreover have "length (wo_used w) \<le> length (wo_used w1)" "length (wo_used w1) \<le> length (wo_used w')" using m n by simp_all
    ultimately show "length (wo_used w) \<le> u \<and> u < length (wo_used w')" using first(2) r(3) by fastforce
  qed
  ultimately show ?case using r(1) first(1) rest(2) by auto
qed

lemma admitAll_waiting:
  assumes "admitAll ou cx rn tt perTurn addr parts calls w = (Inr items, w')"
  shows "waiting items (wo_used w')"
proof -
  from admitAll_grows [OF assms] obtain n where n: "wo_used w' = wo_used w @ replicate n False"
    and f: "list_all soundItem items" "distinct (flags items)"
      "\<forall>u\<in>set (flags items). length (wo_used w) \<le> u \<and> u < length (wo_used w')" by blast
  then have "\<forall>u\<in>set (flags items). \<not> wo_used w' ! u"
    by (auto simp: nth_append)
  with f show ?thesis by (simp add: waiting_def list_all_iff)
qed

section \<open>The interleaving\<close>

definition calm :: "event \<Rightarrow> bool" where
  "calm e \<longleftrightarrow> report e \<or> isBody e"

lemma runClosure_once:
  assumes sound: "soundClosure c" and fresh: "\<And>u. flagOf c = Some u \<Longrightarrow> u < length (wo_used w) \<and> \<not> wo_used w ! u"
    and run: "runClosure ou cx c w = (out, w')"
  shows "\<exists>s. adds w w' s \<and> list_all calm s \<and> bodies s = [closureBody cx c] \<and>
    wo_used w' = (case flagOf c of None \<Rightarrow> wo_used w | Some u \<Rightarrow> (wo_used w)[u := True])"
proof (cases c)
  case (RunProvider p q)
  with run have "w' = emit (BodyRun (Provider p) q) w" by (simp add: runClosure_def runBody_def)
  with RunProvider show ?thesis
    by (intro exI [of _ "[BodyRun (Provider p) q]"]) (simp add: calm_def closureBody_def flagOf_def)
next
  case (RunPrepared p)
  with sound obtain r q u where p: "preparedFor r q u p" by (auto simp: soundClosure_def)
  then have u: "flagOf c = Some u" using RunPrepared by (simp add: flagOf_def preparedFor_def)
  from RunPrepared run have inv: "InvokePrepared ou cx p w = (out, w')" by (simp add: runClosure_def)
  from p obtain h where h: "pi_registry p = Some r" "pi_handler p = Some h" "pi_request p = q" "pi_used p = Some u"
    by (auto simp: preparedFor_def)
  let ?w0 = "w\<lparr>wo_used := (wo_used w)[u := True]\<rparr>"
  let ?w1 = "emitToolEvent r (NewToolEvent (ou_digest ou) ToolEventStarted q) ?w0"
  let ?w2 = "emit (BodyRun (bodyOf cx h q) q) ?w1"
  obtain res e where rb: "runBody ou (bodyOf cx h q) q ?w1 = ((res, e), ?w2)" by (simp add: runBody_def) (metis prod.exhaust)
  have "\<exists>v. w' = emitToolEvent r v ?w2"
    using h inv fresh [OF u] rb by (cases e) (auto simp: InvokePrepared_def Let_def)
  then obtain v where w': "w' = emitToolEvent r v ?w2" by blast
  let ?s = "(if rg_events r then [SinkEvent (NewToolEvent (ou_digest ou) ToolEventStarted q)] else []) @
    [BodyRun (bodyOf cx h q) q] @ (if rg_events r then [SinkEvent v] else [])"
  have "adds w w' ?s" unfolding w' by (simp add: adds_def emitToolEvent_def)
  moreover have "list_all calm ?s" by (simp add: calm_def)
  moreover have "bodies ?s = [closureBody cx c]" using h RunPrepared by (simp add: closureBody_def)
  moreover have "wo_used w' = (wo_used w)[u := True]" unfolding w' by (simp add: emitToolEvent_def)
  ultimately show ?thesis using u by (intro exI [of _ ?s]) simp
qed

lemma distinct_flags_nth:
  "distinct (flags items) \<Longrightarrow> j < length items \<Longrightarrow> k < length items \<Longrightarrow> itemFlag (items ! j) = Some u \<Longrightarrow>
   itemFlag (items ! k) = Some u \<Longrightarrow> j = k"
proof (induction items arbitrary: j k)
  case Nil
  then show ?case by simp
next
  case (Cons i items)
  have later: "itemFlag (items ! m) = Some u \<Longrightarrow> m < length items \<Longrightarrow> u \<in> set (flags items)" for m
    by (auto simp: set_flags)
  from Cons.prems have "itemFlag i = Some u \<Longrightarrow> u \<notin> set (flags items)" by auto
  with Cons later show ?case by (cases j; cases k) (auto split: option.splits)
qed

definition closureAt :: "batch_item list \<Rightarrow> nat \<Rightarrow> closure" where
  "closureAt items k = the (bi_closure (items ! k))"

text \<open>
  The state of the interleaving, since \<open>w0\<close>: what was launched and has run, the bodies in the
  history are those of the items that have run, and the flags of the others are not set.
\<close>

definition batchOk :: "turn_context \<Rightarrow> batch_item list \<Rightarrow> world \<Rightarrow> batch_run \<times> world \<Rightarrow> bool" where
  "batchOk cx items w0 st \<longleftrightarrow> (case st of (br, w) \<Rightarrow>
     br_next br \<le> length items \<and> distinct (br_running br @ List.map fst (br_done br)) \<and>
     set (br_running br) \<union> fst ` set (br_done br) = {k. k < br_next br \<and> bi_closure (items ! k) \<noteq> None} \<and>
     (\<forall>k<length items. k \<notin> fst ` set (br_done br) \<longrightarrow>
        (\<forall>u. itemFlag (items ! k) = Some u \<longrightarrow> u < length (wo_used w) \<and> \<not> wo_used w ! u)) \<and>
     (\<exists>s. adds w0 w s \<and> list_all calm s \<and>
        mset (bodies s) = mset (List.map (\<lambda>k. closureBody cx (closureAt items k)) (List.map fst (br_done br)))))"

lemma reports_calm: "list_all report s \<Longrightarrow> list_all calm s \<and> bodies s = []"
  by (induction s) (auto simp: calm_def report_facts)

lemma batchStep_ok:
  assumes sound: "list_all soundItem items" "distinct (flags items)" and ok: "batchOk cx items w0 st"
  shows "batchOk cx items w0 (batchStep ou cx rn items act st)"
proof -
  obtain br w where st: "st = (br, w)" by fastforce
  from ok st obtain s where inv: "br_next br \<le> length items" "distinct (br_running br @ List.map fst (br_done br))"
    "set (br_running br) \<union> fst ` set (br_done br) = {k. k < br_next br \<and> bi_closure (items ! k) \<noteq> None}"
    "\<forall>k<length items. k \<notin> fst ` set (br_done br) \<longrightarrow>
        (\<forall>u. itemFlag (items ! k) = Some u \<longrightarrow> u < length (wo_used w) \<and> \<not> wo_used w ! u)"
    "adds w0 w s" "list_all calm s"
    "mset (bodies s) = mset (List.map (\<lambda>k. closureBody cx (closureAt items k)) (List.map fst (br_done br)))"
    by (auto simp: batchOk_def)
  show ?thesis
  proof (cases act)
    case Launch
    let ?k = "br_next br"
    show ?thesis
    proof (cases "?k < length items")
      case False
      with Launch ok st show ?thesis by simp
    next
      case True
      show ?thesis
      proof (cases "bi_closure (items ! ?k)")
        case None
        then have "{k. k < ?k + 1 \<and> bi_closure (items ! k) \<noteq> None} = {k. k < ?k \<and> bi_closure (items ! k) \<noteq> None}"
          using less_Suc_eq by auto
        with Launch True None st inv show ?thesis by (auto simp: batchOk_def)
      next
        case (Some c)
        let ?w1 = "startCall ou rn (bi_call (items ! ?k)) (bi_decision (items ! ?k)) w"
        obtain s1 where s1: "adds w ?w1 s1" "list_all report s1" using startCall_reports reports_def by metis
        have grown: "{k. k < ?k + 1 \<and> bi_closure (items ! k) \<noteq> None} = insert ?k {k. k < ?k \<and> bi_closure (items ! k) \<noteq> None}"
          using Some less_Suc_eq by auto
        have new: "?k \<notin> set (br_running br)" "?k \<notin> fst ` set (br_done br)" using inv(3) by blast+
        have "adds w0 ?w1 (s @ s1)" using inv(5) s1(1) by (rule adds_trans)
        moreover have "list_all calm (s @ s1)" "bodies (s @ s1) = bodies s" using inv(6) reports_calm [OF s1(2)] by simp_all
        moreover have "batchStep ou cx rn items act st =
            (br\<lparr>br_next := ?k + 1, br_running := br_running br @ [?k]\<rparr>, ?w1)"
          using Launch True Some st by (simp add: Let_def)
        ultimately show ?thesis using inv True grown new
          by (auto simp: batchOk_def intro!: exI [of _ "s @ s1"])
      qed
    qed
  next
    case (Complete k)
    show ?thesis
    proof (cases "k \<in> set (br_running br)")
      case False
      with Complete ok st show ?thesis by simp
    next
      case True
      then have "k \<in> {k. k < br_next br \<and> bi_closure (items ! k) \<noteq> None}" using inv(3) by blast
      with inv(1) have k: "k < br_next br" "k < length items" and "bi_closure (items ! k) \<noteq> None" by auto
      then obtain c where c: "bi_closure (items ! k) = Some c" by auto
      have notdone: "k \<notin> fst ` set (br_done br)" using True inv(2) by auto
      have "soundItem (items ! k)" using sound(1) k(2) by (simp add: list_all_length)
      with c have sc: "soundClosure c" by (simp add: soundItem_def)
      have fresh: "u < length (wo_used w) \<and> \<not> wo_used w ! u" if "flagOf c = Some u" for u
        using that inv(4) k(2) notdone c by (simp add: itemFlag_def)
      obtain out w1 where run: "runClosure ou cx c w = (out, w1)" by fastforce
      from runClosure_once [OF sc fresh run] obtain s1 where s1: "adds w w1 s1" "list_all calm s1"
        "bodies s1 = [closureBody cx c]"
        "wo_used w1 = (case flagOf c of None \<Rightarrow> wo_used w | Some u \<Rightarrow> (wo_used w)[u := True])" by blast
      let ?br = "br\<lparr>br_running := filter (\<lambda>j. j \<noteq> k) (br_running br), br_done := (k, out) # br_done br\<rparr>"
      have step: "batchStep ou cx rn items act st = (?br, w1)" using Complete True c run st by simp
      have flags: "\<forall>j<length items. j \<notin> fst ` set (br_done ?br) \<longrightarrow>
          (\<forall>u. itemFlag (items ! j) = Some u \<longrightarrow> u < length (wo_used w1) \<and> \<not> wo_used w1 ! u)"
      proof (intro allI impI)
        fix j u
        assume j: "j < length items" "j \<notin> fst ` set (br_done ?br)" "itemFlag (items ! j) = Some u"
        with inv(4) have old: "u < length (wo_used w)" "\<not> wo_used w ! u" by auto
        have "flagOf c \<noteq> Some u"
          using distinct_flags_nth [OF sound(2) j(1) k(2) j(3)] j(2) c by (auto simp: itemFlag_def)
        with old s1(4) show "u < length (wo_used w1) \<and> \<not> wo_used w1 ! u" by (auto split: option.splits)
      qed
      have "adds w0 w1 (s @ s1)" using inv(5) s1(1) by (rule adds_trans)
      moreover have "list_all calm (s @ s1)" using inv(6) s1(2) by simp
      moreover have "mset (bodies (s @ s1)) =
          mset (List.map (\<lambda>k. closureBody cx (closureAt items k)) (List.map fst (br_done ?br)))"
        using inv(7) s1(3) c by (simp add: closureAt_def)
      moreover have "set (br_running ?br) \<union> fst ` set (br_done ?br) = {k. k < br_next ?br \<and> bi_closure (items ! k) \<noteq> None}"
        using inv(3) True by auto
      moreover have "distinct (br_running ?br @ List.map fst (br_done ?br))" using inv(2) notdone by auto
      ultimately show ?thesis using inv(1) flags unfolding step batchOk_def prod.case
        by (intro conjI exI [of _ "s @ s1"]) simp_all
    qed
  qed
qed

lemma runBatch_ok:
  assumes "list_all soundItem items" "distinct (flags items)" "batchOk cx items w0 st"
  shows "batchOk cx items w0 (run (batchStep ou cx rn items) st acts)"
  using assms by (induction acts arbitrary: st) (simp_all add: batchStep_ok)

text \<open>The wait: after the launches the loop is at its end, after the completions nothing runs.\<close>

lemma launch_next:
  "br_next (fst (batchStep ou cx rn items Launch st)) = (if br_next (fst st) < length items then br_next (fst st) + 1 else br_next (fst st))"
  by (cases st) (auto simp: Let_def split: option.splits)

lemma complete_next: "br_next (fst (batchStep ou cx rn items (Complete k) st)) = br_next (fst st)"
  by (cases st) (auto split: option.splits prod.splits)

lemma launches_next:
  "br_next (fst st) \<le> length items \<Longrightarrow> length items \<le> br_next (fst st) + n \<Longrightarrow>
   br_next (fst (run (batchStep ou cx rn items) st (replicate n Launch))) = length items"
proof (induction n arbitrary: st)
  case 0
  then show ?case by simp
next
  case (Suc n)
  then show ?case by (simp add: launch_next)
qed

lemma complete_running:
  assumes "batchOk cx items w0 st"
  shows "set (br_running (fst (batchStep ou cx rn items (Complete k) st))) = set (br_running (fst st)) - {k}"
proof -
  obtain br w where st: "st = (br, w)" by fastforce
  show ?thesis
  proof (cases "k \<in> set (br_running br)")
    case False
    with st show ?thesis by simp
  next
    case True
    with assms st have "k \<in> {k. k < br_next br \<and> bi_closure (items ! k) \<noteq> None}" by (auto simp: batchOk_def)
    then obtain c where "bi_closure (items ! k) = Some c" by auto
    with True st show ?thesis by (auto split: prod.splits)
  qed
qed

lemma completes_running:
  assumes "list_all soundItem items" "distinct (flags items)"
  shows "batchOk cx items w0 st \<Longrightarrow>
   br_next (fst (run (batchStep ou cx rn items) st (List.map Complete ks))) = br_next (fst st) \<and>
   set (br_running (fst (run (batchStep ou cx rn items) st (List.map Complete ks)))) = set (br_running (fst st)) - set ks"
proof (induction ks arbitrary: st)
  case Nil
  then show ?case by simp
next
  case (Cons k ks)
  with batchStep_ok [OF assms Cons.prems] show ?case by (auto simp: complete_next complete_running)
qed

definition closuresOf :: "batch_item list \<Rightarrow> closure list" where
  "closuresOf items = concat (List.map (\<lambda>i. case bi_closure i of None \<Rightarrow> [] | Some c \<Rightarrow> [c]) items)"

lemma closuresOf_nth:
  "closuresOf items = List.map (closureAt items) (filter (\<lambda>k. bi_closure (items ! k) \<noteq> None) [0..<length items])"
proof (induction items rule: rev_induct)
  case Nil
  then show ?case by (simp add: closuresOf_def)
next
  case (snoc i items)
  have "filter (\<lambda>k. bi_closure ((items @ [i]) ! k) \<noteq> None) [0..<length items] =
      filter (\<lambda>k. bi_closure (items ! k) \<noteq> None) [0..<length items]"
    by (rule filter_cong) (simp_all add: nth_append)
  moreover have "List.map (closureAt (items @ [i])) (filter (\<lambda>k. bi_closure (items ! k) \<noteq> None) [0..<length items]) =
      List.map (closureAt items) (filter (\<lambda>k. bi_closure (items ! k) \<noteq> None) [0..<length items])"
    by (rule map_cong) (auto simp: closureAt_def nth_append)
  moreover have "closuresOf (items @ [i]) = closuresOf items @ (case bi_closure i of None \<Rightarrow> [] | Some c \<Rightarrow> [c])"
    by (simp add: closuresOf_def)
  ultimately show ?case using snoc by (auto simp: closureAt_def split: option.splits)
qed

lemma runBatch_once:
  assumes w: "waiting items (wo_used w)" and run: "runBatch ou cx rn items schedule w = (br, w')"
  shows "\<exists>s. adds w w' s \<and> list_all calm s \<and> mset (bodies s) = mset (List.map (closureBody cx) (closuresOf items)) \<and>
    fst ` set (br_done br) = {k. k < length items \<and> bi_closure (items ! k) \<noteq> None}"
proof -
  from w have sound: "list_all soundItem items" "distinct (flags items)" by (simp_all add: waiting_def)
  let ?step = "batchStep ou cx rn items"
  have start: "batchOk cx items w (newBatchRun, w)"
    using w by (auto simp: batchOk_def newBatchRun_def waiting_def list_all_iff set_flags)
  let ?st1 = "run ?step (newBatchRun, w) schedule"
  let ?st2 = "run ?step ?st1 (replicate (length items) Launch)"
  let ?st3 = "run ?step ?st2 (List.map Complete [0..<length items])"
  note ok1 = runBatch_ok [OF sound start, of ou rn schedule]
  note ok2 = runBatch_ok [OF sound ok1, of ou rn "replicate (length items) Launch"]
  note ok3 = runBatch_ok [OF sound ok2, of ou rn "List.map Complete [0..<length items]"]
  have st3: "?st3 = (br, w')" using run by (simp add: runBatch_def run_append)
  have "br_next (fst ?st1) \<le> length items" using ok1 by (auto simp: batchOk_def split: prod.splits)
  then have "br_next (fst ?st2) = length items" by (simp add: launches_next)
  with completes_running [OF sound ok2, of ou rn "[0..<length items]"] st3
  have ended: "br_next br = length items" "set (br_running br) = set (br_running (fst ?st2)) - {0..<length items}" by simp_all
  from ok3 st3 obtain s where s: "adds w w' s" "list_all calm s"
    "mset (bodies s) = mset (List.map (\<lambda>k. closureBody cx (closureAt items k)) (List.map fst (br_done br)))"
    and dist: "distinct (br_running br @ List.map fst (br_done br))"
    and all: "set (br_running br) \<union> fst ` set (br_done br) = {k. k < length items \<and> bi_closure (items ! k) \<noteq> None}"
    using ended(1) by (auto simp: batchOk_def)
  have "set (br_running br) = {}" using ended(2) all by auto
  with all have keys: "fst ` set (br_done br) = {k. k < length items \<and> bi_closure (items ! k) \<noteq> None}" by simp
  let ?ks = "filter (\<lambda>k. bi_closure (items ! k) \<noteq> None) [0..<length items]"
  have "mset (List.map fst (br_done br)) = mset ?ks"
    using dist keys by (intro set_eq_iff_mset_eq_distinct [THEN iffD1]) auto
  then have "mset (List.map (\<lambda>k. closureBody cx (closureAt items k)) (List.map fst (br_done br))) =
      mset (List.map (\<lambda>k. closureBody cx (closureAt items k)) ?ks)"
    by (simp only: mset_map)
  also have "\<dots> = mset (List.map (closureBody cx) (closuresOf items))" by (simp only: closuresOf_nth map_map comp_def)
  finally show ?thesis using s keys by metis
qed

end
