(* ===== verification/ToolTurn.thy ===== *)
theory ToolTurn
  imports ToolBatch
begin

text \<open>
  The properties of the loop between the model and its tools: its transcript, the authorisation of
  its bodies, the phases of its parallel batches, and its bound.
\<close>

section \<open>The answers of a batch\<close>

lemma commitItem_leaves:
  "leaves (commitItem ou rn item out w) w (answers (tc_id (bi_call item)))"
proof (cases "bi_refused item")
  case (Some x)
  let ?v = "if \<not> hd_allow (bi_decision item)
    then applyHookDecision (toolEventFromCall ou ToolEventFinished (bi_call item)) (bi_decision item)
    else finishToolEvent ou (bi_call item) noResult (Some x)"
  obtain s where s: "adds w (publishToolEvent rn ?v w) s" "list_all report s" using publish_reports reports_def by metis
  have "leaves (answerError ou (bi_call item) (te_text x) (publishToolEvent rn ?v w)) w (answers (tc_id (bi_call item)))"
    by (rule leaves_after [OF s(1)], rule leaves_conseq [OF answerError_leaves])
      (use reports_facts [OF s(2)] in \<open>auto simp: answers_def\<close>)
  with Some show ?thesis by (simp add: commitItem_def Let_def)
next
  case None
  show ?thesis
  proof (cases out)
    case None
    with \<open>bi_refused item = None\<close> show ?thesis by (simp add: commitItem_def answerResult_leaves)
  next
    case (Some x)
    obtain res e where x: "x = (res, e)" by fastforce
    let ?c = "bi_call item"
    let ?w1 = "publishToolEvent rn (finishToolEvent ou ?c res e) (notify (rn_observers rn) ''finished'' (tc_id ?c) w)"
    let ?w2 = "if e = None then notifyReferences rn ?c res ?w1 else ?w1"
    have "reports w ?w1" by (rule reports_trans [OF notify_reports publish_reports])
    then have "reports w ?w2" by (rule reports_trans) simp
    then obtain s where s: "adds w ?w2 s" "list_all report s" using reports_def by metis
    have "leaves (answerOutcome ou ?c res e ?w2) w (answers (tc_id ?c))"
      by (rule leaves_after [OF s(1)], rule leaves_conseq [OF answerOutcome_leaves])
        (use reports_facts [OF s(2)] in \<open>auto simp: answers_def\<close>)
    with \<open>bi_refused item = None\<close> Some x show ?thesis by (simp add: commitItem_def Let_def)
  qed
qed

lemma commitAll_leaves:
  "leaves (commitAll ou rn items outs n w) w
     (\<lambda>r s. bodies s = [] \<and> serves (List.map (\<lambda>i. tc_id (bi_call i)) items) r s)"
proof (induction items arbitrary: n w)
  case Nil
  then show ?case by (simp add: serves_def)
next
  case (Cons i items)
  show ?case unfolding commitAll.simps
  proof (rule leaves_thenDo [OF commitItem_leaves], goal_cases)
    case (1 inject w1 s1)
    then obtain ps where s1: "saves s1 = [SavedResult (tc_id (bi_call i)) ps]" "bodies s1 = []" by (auto simp: answers_def)
    show ?case
    proof (rule leaves_thenDo [OF Cons.IH], goal_cases)
      case (1 more w2 s2)
      with s1 show ?case by (auto simp: serves_def)
    next
      case (2 e s2)
      with s1 show ?case by (auto simp: serves_def)
    qed
  next
    case (2 e s1)
    then show ?case by (auto simp: answers_def serves_def)
  qed
qed

section \<open>The phases\<close>

text \<open>An event of an admission: the answer of an approver, an authorizer, a policy, a store or the user.\<close>

definition admission :: "event \<Rightarrow> bool" where
  "admission e \<longleftrightarrow> (case e of
      HookAsked c d \<Rightarrow> True | SafetyAsked i d \<Rightarrow> True | PolicyAsked q d \<Rightarrow> True | GrantLookup a b x \<Rightarrow> True
    | GrantStored a b \<Rightarrow> True | Audited r \<Rightarrow> True | ApprovalShown a b l s t' \<Rightarrow> True | Awaited a b x \<Rightarrow> True
    | CatalogResolved f \<Rightarrow> True | _ \<Rightarrow> False)"

lemma calm_facts: "list_all calm s \<Longrightarrow> saves s = [] \<and> list_all (\<lambda>e. \<not> admission e) s"
proof (induction s)
  case Nil
  then show ?case by simp
next
  case (Cons e s)
  then show ?case by (cases e) (simp_all add: calm_def report_def isBody_def isSaved_def admission_def)
qed

text \<open>
  The segment of a batch: the checkpoint of all its calls, then their admissions in \<open>s1\<close>, then
  the bodies in \<open>s2\<close>, each admitted one once and no admission, then the answers in \<open>s3\<close>.
\<close>

definition phases :: "turn_context \<Rightarrow> tool_call list \<Rightarrow> (batch_item \<Rightarrow> event list \<Rightarrow> bool) \<Rightarrow> event list \<Rightarrow> bool" where
  "phases cx calls ready seg \<longleftrightarrow>
     (\<exists>s1 s2 s3 items. seg = Checkpointed (List.map tc_id calls) # s1 @ s2 @ s3 \<and>
        List.map bi_call items = calls \<and> list_all (\<lambda>i. ready i s1) items \<and>
        bodies s1 = [] \<and> saves s1 = [] \<and>
        list_all (\<lambda>e. \<not> admission e) s2 \<and> saves s2 = [] \<and>
        mset (bodies s2) = mset (List.map (closureBody cx) (closuresOf items)) \<and>
        bodies s3 = [])"

definition batchPost ::
  "outside \<Rightarrow> turn_context \<Rightarrow> runner \<Rightarrow> turn_tools \<Rightarrow> approver option list \<Rightarrow> message_address \<Rightarrow> tool_call list \<Rightarrow>
   ('e, 'a) result \<Rightarrow> event list \<Rightarrow> bool" where
  "batchPost ou cx rn tt perTurn addr calls r seg \<longleftrightarrow>
     serves (List.map tc_id calls) r seg \<and>
     (bodies seg = [] \<and> failed r \<and> saves seg = [] \<or>
      phases cx calls (\<lambda>i s. closureReady ou cx rn tt perTurn addr s i) seg)"

lemma runParallelToolBatch_leaves:
  "leaves (runParallelToolBatch ou cx rn tt perTurn addr parts schedule calls w) w
     (batchPost ou cx rn tt perTurn addr (List.map (normalizedCall addr) calls))"
  unfolding runParallelToolBatch_def Let_def
proof (rule leaves_thenDo [OF tryOp_leaves], goal_cases)
  case (1 x w1 s1)
  let ?calls = "List.map (normalizedCall addr) calls"
  let ?ids = "List.map tc_id ?calls"
  from 1 have s1: "adds w w1 s1" "s1 = [Checkpointed ?ids]" by simp_all
  obtain r w2 where ad: "admitAll ou cx rn tt perTurn addr parts ?calls w1 = (r, w2)" by fastforce
  from admitAll_leaves [of ou cx rn tt perTurn addr parts ?calls w1] ad obtain s2 where
    s2: "adds w1 w2 s2" "admittedPost ou cx rn tt perTurn addr ?calls r s2" by (auto simp: leaves_def)
  show ?case
  proof (cases r)
    case (Inl e)
    with ad s2 s1 show ?thesis
      by (intro leavesI [of _ _ s2]) (auto simp: batchPost_def admittedPost_def serves_def)
  next
    case (Inr items)
    with s2(2) have items: "List.map bi_call items = ?calls" "bodies s2 = []" "saves s2 = []"
      "list_all (\<lambda>i. closureReady ou cx rn tt perTurn addr s2 i) items"
      by (auto simp: admittedPost_def list_all_iff)
    have wait: "waiting items (wo_used w2)" using admitAll_waiting ad Inr by blast
    obtain br w3 where rb: "runBatch ou cx rn items schedule w2 = (br, w3)" by fastforce
    from runBatch_once [OF wait rb] obtain s3 where s3: "adds w2 w3 s3" "list_all calm s3"
      "mset (bodies s3) = mset (List.map (closureBody cx) (closuresOf items))" by blast
    from commitAll_leaves [of ou rn items "map_of (br_done br)" 0 w3] obtain s4 where
      s4: "adds w3 (snd (commitAll ou rn items (map_of (br_done br)) 0 w3)) s4" "bodies s4 = []"
        "serves (List.map (\<lambda>i. tc_id (bi_call i)) items) (fst (commitAll ou rn items (map_of (br_done br)) 0 w3)) s4"
      by (auto simp: leaves_def)
    have ids: "List.map (\<lambda>i. tc_id (bi_call i)) items = ?ids"
      using arg_cong [OF items(1), of "List.map tc_id"] by (simp add: comp_def)
    have "phases cx ?calls (\<lambda>i s. closureReady ou cx rn tt perTurn addr s i) (s1 @ s2 @ s3 @ s4)"
      unfolding phases_def
      by (intro exI [of _ s2] exI [of _ s3] exI [of _ s4] exI [of _ items])
        (use s1(2) items ids calm_facts [OF s3(2)] s3(3) s4(2) in simp)
    moreover have "saves (s1 @ s2 @ s3 @ s4) = saves s4" using s1(2) items(3) calm_facts [OF s3(2)] by simp
    moreover have "adds w1 (snd (commitAll ou rn items (map_of (br_done br)) 0 w3)) (s2 @ s3 @ s4)"
      using s2(1) s3(1) s4(1) by (simp add: adds_def)
    ultimately show ?thesis using ad Inr rb s4(3) ids
      by (intro leavesI [of _ _ "s2 @ s3 @ s4"]) (simp_all add: batchPost_def serves_def)
  qed
next
  case (2 e s1)
  then show ?case by (simp add: batchPost_def serves_def)
qed

text \<open>A body in the second phase is authorised by the first.\<close>

lemma checkBodies_all: "(\<And>b q xs. (b, q) \<in> set (bodies es) \<Longrightarrow> A (p @ xs) b q) \<Longrightarrow> checkBodies A p es"
proof (induction es arbitrary: p)
  case Nil
  then show ?case by simp
next
  case (Cons e es)
  have "checkBodies A (p @ [e]) es"
  proof (rule Cons.IH)
    fix b q xs
    assume "(b, q) \<in> set (bodies es)"
    then have "(b, q) \<in> set (bodies (e # es))" by (cases e) simp_all
    from Cons.prems [OF this, of "e # xs"] show "A ((p @ [e]) @ xs) b q" by simp
  qed
  moreover have "case e of BodyRun b q \<Rightarrow> A p b q | _ \<Rightarrow> True"
    using Cons.prems [of _ _ "[]"] by (cases e) simp_all
  ultimately show ?case by simp
qed

lemma set_closuresOf: "c \<in> set (closuresOf items) \<longleftrightarrow> (\<exists>i\<in>set items. bi_closure i = Some c)"
  unfolding closuresOf_def by (induction items) (auto split: option.splits)

lemma phases_authorised:
  assumes "phases cx (List.map (normalizedCall addr) calls) (\<lambda>i s. closureReady ou cx rn tt perTurn addr s i) seg"
  shows "checkBodies (someAuthorised ou cx rn tt perTurn addr calls) [] seg"
proof -
  let ?ids = "List.map tc_id (List.map (normalizedCall addr) calls)"
  from assms obtain s1 s2 s3 items where seg: "seg = Checkpointed ?ids # s1 @ s2 @ s3"
    and items: "List.map bi_call items = List.map (normalizedCall addr) calls"
    and ready: "list_all (\<lambda>i. closureReady ou cx rn tt perTurn addr s1 i) items"
    and none: "bodies s1 = []" "bodies s3 = []"
    and all: "mset (bodies s2) = mset (List.map (closureBody cx) (closuresOf items))"
    unfolding phases_def by (elim exE conjE) (rule that)
  have "checkBodies (someAuthorised ou cx rn tt perTurn addr calls) (Checkpointed ?ids # s1) s2"
  proof (rule checkBodies_all)
    fix b q xs
    assume "(b, q) \<in> set (bodies s2)"
    with all have "(b, q) \<in> set (List.map (closureBody cx) (closuresOf items))" by (metis mset_eq_setD)
    then obtain c where c: "c \<in> set (closuresOf items)" "closureBody cx c = (b, q)" by auto
    then obtain i where i: "i \<in> set items" "bi_closure i = Some c" "closureBody cx c = (b, q)"
      unfolding set_closuresOf by blast
    from i(1) items obtain call where call: "call \<in> set calls" "bi_call i = normalizedCall addr call"
      by (metis image_eqI image_iff list.set_map)
    from i ready have "closureReady ou cx rn tt perTurn addr s1 i" by (simp add: list_all_iff)
    with i(2,3) obtain ys p1 p2 p3 where p: "s1 = ys @ p1 @ p2 @ p3" "gatePassed rn perTurn (bi_call i) p1"
      "mayRun ou cx rn tt addr (bi_call i) p2 b q"
      unfolding closureReady_def by (metis fst_conv snd_conv)
    have "authorisedRun ou cx rn tt perTurn addr (normalizedCall addr call) (Checkpointed ?ids # s1) b q"
      unfolding authorisedRun_def using p call
      by (intro exI [of _ "Checkpointed ?ids # ys"] exI [of _ p1] exI [of _ p2] exI [of _ p3] exI [of _ ?ids]) auto
    then show "someAuthorised ou cx rn tt perTurn addr calls ((Checkpointed ?ids # s1) @ xs) b q"
      unfolding someAuthorised_def using call(1) authorisedRun_right by blast
  qed
  with none show ?thesis unfolding seg by (simp add: checkBodies_none)
qed

section \<open>The calls of an answer\<close>

lemma deliverAll_users:
  "leaves (deliverAll ou ms w) w (\<lambda>r s. bodies s = [] \<and> list_all (\<lambda>m. \<exists>ps. m = SavedUser ps) (saves s))"
proof (induction ou ms w rule: deliverAll.induct)
  case (3 ou m parts ms w)
  show ?case unfolding deliverAll.simps
  proof (rule leaves_thenDo [OF tryOp_leaves], goal_cases)
    case (1 x w1 s1)
    then show ?case by (intro leaves_conseq [OF "3.IH"]) simp
  next
    case (2 e s1)
    then show ?case by simp
  qed
qed simp_all

lemma users_answered: "list_all (\<lambda>m. \<exists>ps. m = SavedUser ps) ms \<Longrightarrow> answered [] ms = Some []"
  by (induction ms) auto

lemma users_human: "list_all (\<lambda>m. \<exists>ps. m = SavedUser ps) ms \<Longrightarrow> filter fromModel ms = []"
  by (induction ms) auto

lemma batch_callsPost:
  "leaves (runParallelToolBatch ou cx rn tt perTurn addr parts schedule calls w) w (callsPost ou cx rn tt perTurn addr calls)"
proof (rule leaves_conseq [OF runParallelToolBatch_leaves])
  fix r :: "(tool_error, tool_part list) result" and seg
  assume post: "batchPost ou cx rn tt perTurn addr (List.map (normalizedCall addr) calls) r seg"
  have "serves (List.map tc_id calls) r seg" using post by (simp add: batchPost_def comp_def)
  moreover have "checkBodies (someAuthorised ou cx rn tt perTurn addr calls) [] seg"
    using post phases_authorised checkBodies_none unfolding batchPost_def by blast
  ultimately show "callsPost ou cx rn tt perTurn addr calls r seg" by (simp add: callsPost_def)
qed

lemma runCalls_leaves:
  "leaves (runCalls ou cx rn tt perTurn addr schedule content calls w) w (callsPost ou cx rn tt perTurn addr calls)"
  unfolding runCalls_def
proof (rule leaves_thenDo [OF tryAll_leaves], goal_cases)
  case 1
  then show ?case by (simp add: list_all_iff)
next
  case (2 x w1 s1)
  then have s1: "bodies s1 = []" "saves s1 = []" using reports_facts by blast+
  have run: "leaves (if toolBatchParallelSafe calls tt
         then runParallelToolBatch ou cx rn tt perTurn addr (callParts content) schedule calls w1
         else handleCalls ou cx rn tt perTurn addr (callParts content) calls w1) w1 (callsPost ou cx rn tt perTurn addr calls)"
    by (simp add: batch_callsPost handleCalls_leaves)
  have shift: "checkBodies (someAuthorised ou cx rn tt perTurn addr calls) s1 s2"
    if "checkBodies (someAuthorised ou cx rn tt perTurn addr calls) [] s2" for s2
    using checkBodies_shift [OF that, of "someAuthorised ou cx rn tt perTurn addr calls" s1] authorisedRun_left
    unfolding someAuthorised_def by blast
  show ?case
  proof (rule leaves_thenDo [OF run], goal_cases)
    case (1 inject w2 s2)
    then have s2: "checkBodies (someAuthorised ou cx rn tt perTurn addr calls) (s1 @ []) (s2 @ [])"
      "answered (List.map tc_id calls) (saves s2) = Some []" "list_all (\<lambda>m. \<not> fromModel m) (saves s2)"
      using shift by (auto simp: callsPost_def serves_def)
    show ?case
    proof (cases "inject = []")
      case True
      with s1 s2 show ?thesis by (simp add: callsPost_def serves_def checkBodies_none)
    next
      case False
      have "leaves (tryOp ou ''append injected user message'' (Saved (SavedUser inject)) w2) w2
          (\<lambda>r s. callsPost ou cx rn tt perTurn addr calls r (s1 @ s2 @ s))"
        by (rule leaves_conseq [OF tryOp_leaves])
          (use s1 s2 in \<open>auto simp: callsPost_def serves_def checkBodies_none answered_append\<close>)
      with False show ?thesis by simp
    qed
  next
    case (2 e s2)
    with s1 shift show ?case by (auto simp: callsPost_def serves_def checkBodies_none)
  qed
next
  case (3 e s1)
  then show ?case using reports_facts [of s1] by (simp add: callsPost_def serves_def checkBodies_none)
qed


section \<open>The loop\<close>

text \<open>The transcript is well-formed, and on success no call waits for its result.\<close>

definition wellFormed :: "('e, 'a) result \<Rightarrow> event list \<Rightarrow> bool" where
  "wellFormed r seg \<longleftrightarrow>
     (case answered [] (saves seg) of None \<Rightarrow> False | Some left \<Rightarrow> failed r \<or> left = [])"

definition assistantPost ::
  "turn_tools \<Rightarrow> (tool_error, (string \<times> tool_part list) \<times> tool_call list) result \<Rightarrow> event list \<Rightarrow> bool" where
  "assistantPost tt r s \<longleftrightarrow> bodies s = [] \<and> length (filter fromModel (saves s)) \<le> 1 \<and>
     (case r of
        Inl e \<Rightarrow> answered [] (saves s) \<noteq> None
      | Inr ((aid, content), calls) \<Rightarrow>
          bindAll (callsOf content) tt = Inr calls \<and> SavedAssistant aid content \<in> set (saves s) \<and>
          answered [] (saves s) = Some (List.map tc_id (callsOf content)))"

lemma askModel_reports: "leaves (askModel ou n w) w (\<lambda>r s. list_all report s)"
  by (cases "ou_model ou (wo_events w)") (auto simp: askModel_def leaves_def)

lemma nextAssistant_leaves: "leaves (nextAssistant ou tt n w) w (assistantPost tt)"
  unfolding nextAssistant_def deliverSteering_def
proof (rule leaves_thenDo [OF deliverAll_users], goal_cases)
  case (1 x1 w1 s1)
  then have s1: "bodies s1 = []" "answered [] (saves s1) = Some []" "filter fromModel (saves s1) = []"
    using users_answered users_human by auto
  show ?case
  proof (rule leaves_thenDo [OF tryOp_leaves], goal_cases)
    case (1 x2 w2 s2)
    then have s2: "list_all report s2" by simp
    show ?case
    proof (rule leaves_thenDo [OF askModel_reports], goal_cases)
      case (1 answer w3 s3)
      obtain aid content where answer: "answer = (aid, content)" by fastforce
      note s3 = 1(2)
      note quiet = reports_facts [OF s2] reports_facts [OF s3]
      show ?case unfolding answer prod.case
      proof (rule leaves_thenDo [OF tryOp_leaves], goal_cases)
        case (1 x4 w4 s4)
        then have s4: "s4 = [Saved (SavedAssistant aid content)]" by simp
        show ?case
        proof (rule leaves_thenDo [OF tryOp_leaves], goal_cases)
          case (1 x5 w5 s5)
          then have s5: "list_all report s5" by simp
          from s1 s4 quiet reports_facts [OF s5] show ?case
            by (cases "bindAll (callsOf content) tt") (simp_all add: assistantPost_def answered_append)
        next
          case (2 e s5)
          then have s5: "list_all report s5" by simp
          from s1 s4 quiet reports_facts [OF s5] show ?case by (simp add: assistantPost_def answered_append)
        qed
      next
        case (2 e s4)
        with s1 quiet show ?case by (simp add: assistantPost_def answered_append)
      qed
    next
      case (2 e s3)
      with s1 reports_facts [OF s2] reports_facts [of s3] show ?case by (simp add: assistantPost_def)
    qed
  next
    case (2 e s2)
    with s1 show ?case by (simp add: assistantPost_def)
  qed
next
  case (2 e s1)
  then show ?case using users_answered users_human by (simp add: assistantPost_def)
qed

lemma bound_ids: "bindAll cs tt = Inr calls \<Longrightarrow> List.map tc_id calls = List.map tc_id cs"
proof (induction cs arbitrary: calls)
  case Nil
  then show ?case by simp
next
  case (Cons c cs)
  then show ?case by (auto simp: and_then_def dest: bound_name split: sum.splits)
qed


text \<open>
  A body of the loop: it runs for one of the calls of a saved answer of the model, checkpointed,
  passed by the gate and authorised since that answer was saved, under the id of the answer.
\<close>

definition loopAuthorised ::
  "outside \<Rightarrow> turn_context \<Rightarrow> runner \<Rightarrow> turn_tools \<Rightarrow> approver option list \<Rightarrow> message_address \<Rightarrow>
   event list \<Rightarrow> body \<Rightarrow> tool_request \<Rightarrow> bool" where
  "loopAuthorised ou cx rn tt perTurn addr pre b q \<longleftrightarrow>
     (\<exists>before aid content calls m since. pre = before @ since \<and> SavedAssistant aid content \<in> set (saves before) \<and>
        bindAll (callsOf content) tt = Inr calls \<and> (aid = [] \<or> m = Some aid) \<and>
        someAuthorised ou (cx\<lparr>cx_message := m\<rparr>) rn tt perTurn addr calls since b q)"

lemma loopAuthorised_left: "loopAuthorised ou cx rn tt perTurn addr pre b q \<Longrightarrow>
  loopAuthorised ou cx rn tt perTurn addr (xs @ pre) b q"
  unfolding loopAuthorised_def
proof (elim exE conjE)
  fix before aid content calls m since
  assume "pre = before @ since" "SavedAssistant aid content \<in> set (saves before)" "bindAll (callsOf content) tt = Inr calls"
    "aid = [] \<or> m = Some aid" "someAuthorised ou (cx\<lparr>cx_message := m\<rparr>) rn tt perTurn addr calls since b q"
  then show "\<exists>before aid content calls m since. xs @ pre = before @ since \<and> SavedAssistant aid content \<in> set (saves before) \<and>
      bindAll (callsOf content) tt = Inr calls \<and> (aid = [] \<or> m = Some aid) \<and>
      someAuthorised ou (cx\<lparr>cx_message := m\<rparr>) rn tt perTurn addr calls since b q"
    by (intro exI [of _ "xs @ before"] exI [of _ aid] exI [of _ content] exI [of _ calls] exI [of _ m] exI [of _ since]) simp
qed

definition loopPost ::
  "outside \<Rightarrow> turn_context \<Rightarrow> runner \<Rightarrow> turn_tools \<Rightarrow> approver option list \<Rightarrow> message_address \<Rightarrow> nat \<Rightarrow>
   (tool_error, string \<times> tool_part list) result \<Rightarrow> event list \<Rightarrow> bool" where
  "loopPost ou cx rn tt perTurn addr k r seg \<longleftrightarrow>
     checkBodies (loopAuthorised ou cx rn tt perTurn addr) [] seg \<and> wellFormed r seg \<and>
     length (filter fromModel (saves seg)) \<le> k + 1"

lemma loopPost_quiet: "bodies s = [] \<Longrightarrow> answered [] (saves s) \<noteq> None \<Longrightarrow> length (filter fromModel (saves s)) \<le> 1 \<Longrightarrow> failed r \<Longrightarrow>
  loopPost ou cx rn tt perTurn addr k r s"
  by (auto simp: loopPost_def wellFormed_def checkBodies_none)

lemma loopPost_message [simp]:
  "loopPost ou (cx\<lparr>cx_message := m\<rparr>) rn tt perTurn addr k r s = loopPost ou cx rn tt perTurn addr k r s"
proof -
  have "loopAuthorised ou (cx\<lparr>cx_message := m\<rparr>) rn tt perTurn addr = loopAuthorised ou cx rn tt perTurn addr"
    by (intro ext) (simp add: loopAuthorised_def)
  then show ?thesis by (simp add: loopPost_def)
qed

lemma withMessage: "\<exists>m. (aid = [] \<or> m = Some aid) \<and> WithMessageID aid cx = cx\<lparr>cx_message := m\<rparr>"
proof (cases "aid = []")
  case True
  then show ?thesis by (intro exI [of _ "cx_message cx"]) (simp add: WithMessageID_def)
next
  case False
  then show ?thesis by (simp add: WithMessageID_def)
qed

lemma loopPost_withMessage [simp]:
  "loopPost ou (WithMessageID aid cx) rn tt perTurn addr k r s = loopPost ou cx rn tt perTurn addr k r s"
  using withMessage [of aid cx] by auto

lemma calls_in_loop:
  assumes a: "assistantPost tt (Inr ((aid, content), calls)) s1"
    and c: "callsPost ou (WithMessageID aid cx) rn tt perTurn addr calls r s2"
  shows "checkBodies (loopAuthorised ou cx rn tt perTurn addr) [] (s1 @ s2)"
proof -
  from a have s1: "bodies s1 = []" "SavedAssistant aid content \<in> set (saves s1)" "bindAll (callsOf content) tt = Inr calls"
    by (simp_all add: assistantPost_def)
  have "checkBodies (loopAuthorised ou cx rn tt perTurn addr) s1 s2"
  proof (rule checkBodies_shift)
    show "checkBodies (someAuthorised ou (WithMessageID aid cx) rn tt perTurn addr calls) [] s2"
      using c by (simp add: callsPost_def)
    fix pre b q
    assume "someAuthorised ou (WithMessageID aid cx) rn tt perTurn addr calls pre b q"
    moreover obtain m where "aid = [] \<or> m = Some aid" "WithMessageID aid cx = cx\<lparr>cx_message := m\<rparr>"
      using withMessage by blast
    ultimately show "loopAuthorised ou cx rn tt perTurn addr (s1 @ pre) b q"
      using s1 unfolding loopAuthorised_def
      by (intro exI [of _ s1] exI [of _ aid] exI [of _ content] exI [of _ calls] exI [of _ m] exI [of _ pre]) simp
  qed
  with s1 show ?thesis by (simp add: checkBodies_none)
qed

lemma loopPost_step:
  assumes b: "checkBodies (loopAuthorised ou cx rn tt perTurn addr) [] s"
    and t: "answered [] (saves s) = Some []" "length (filter fromModel (saves s)) \<le> 1"
    and later: "loopPost ou cx rn tt perTurn addr k r s'"
  shows "loopPost ou cx rn tt perTurn addr (Suc k) r (s @ s')"
proof -
  have "checkBodies (loopAuthorised ou cx rn tt perTurn addr) s s'"
    by (rule checkBodies_shift [where A = "loopAuthorised ou cx rn tt perTurn addr"])
      (use later in \<open>auto simp: loopPost_def intro: loopAuthorised_left\<close>)
  with b t later show ?thesis by (simp add: loopPost_def wellFormed_def answered_append)
qed

lemma loopPost_stopped:
  assumes b: "checkBodies (loopAuthorised ou cx rn tt perTurn addr) [] s"
    and t: "answered [] (saves s) \<noteq> None" "length (filter fromModel (saves s)) \<le> 1" and "failed r"
  shows "loopPost ou cx rn tt perTurn addr k r s"
  using assms by (auto simp: loopPost_def wellFormed_def)

lemma callsPost_transcript:
  assumes a: "assistantPost tt (Inr ((aid, content), calls)) s1" and c: "callsPost ou cx rn tt perTurn addr calls r s2"
  shows "\<exists>left. answered [] (saves (s1 @ s2)) = Some left \<and> (failed r \<or> left = [])"
    and "length (filter fromModel (saves (s1 @ s2))) \<le> 1"
proof -
  from a have s1: "answered [] (saves s1) = Some (List.map tc_id calls)" "length (filter fromModel (saves s1)) \<le> 1"
    using bound_ids by (auto simp: assistantPost_def)
  from c obtain rest where s2: "answered (List.map tc_id calls) (saves s2) = Some rest" "\<not> failed r \<longrightarrow> rest = []"
    "list_all (\<lambda>m. \<not> fromModel m) (saves s2)" by (auto simp: callsPost_def serves_def)
  then have "filter fromModel (saves s2) = []" by (simp add: list_all_iff filter_empty_conv)
  with s1 s2 show "\<exists>left. answered [] (saves (s1 @ s2)) = Some left \<and> (failed r \<or> left = [])"
    and "length (filter fromModel (saves (s1 @ s2))) \<le> 1"
    by (auto simp: answered_append)
qed

lemma providerLoop_leaves:
  "leaves (providerLoop ou cx rn tt perTurn addr schedules k n w) w (loopPost ou cx rn tt perTurn addr k)"
proof (induction k arbitrary: cx n w)
  case (0 cx n w)
  show ?case
    apply (subst providerLoop.simps)
  proof (rule leaves_thenDo [OF nextAssistant_leaves], goal_cases)
    case (1 x w1 s1)
    obtain aid content calls where x: "x = ((aid, content), calls)" by (metis prod.exhaust)
    from 1(2) show ?case unfolding x
      by (auto simp: assistantPost_def loopPost_def wellFormed_def checkBodies_none dest: bound_ids)
  next
    case (2 e s1)
    then show ?case by (simp add: assistantPost_def loopPost_quiet)
  qed
next
  case (Suc k cx n w)
  show ?case
    apply (subst providerLoop.simps)
  proof (rule leaves_thenDo [OF nextAssistant_leaves], goal_cases)
    case (1 x w1 s1)
    obtain aid content calls where x: "x = ((aid, content), calls)" by (metis prod.exhaust)
    let ?cx = "WithMessageID aid cx"
    have s1: "assistantPost tt (Inr ((aid, content), calls)) s1" using 1(2) x by simp
    show ?case
    proof (cases "calls = []")
      case True
      with s1 x show ?thesis
        by (auto simp: assistantPost_def loopPost_def wellFormed_def checkBodies_none dest: bound_ids)
    next
      case False
      have "leaves
        (thenDo (runCalls ou ?cx rn tt perTurn addr (schedules n) content calls w1)
          (\<lambda>_ w. providerLoop ou ?cx rn tt perTurn addr schedules k (n + 1) w)) w1
        (\<lambda>r s. loopPost ou cx rn tt perTurn addr (Suc k) r (s1 @ s))"
      proof (rule leaves_thenDo [OF runCalls_leaves], goal_cases)
        case (1 y w2 s2)
        note s2 = this(2)
        show ?case
        proof (rule leaves_conseq [OF Suc.IH [of "?cx"]], goal_cases)
          case (1 r s3)
          then have "loopPost ou cx rn tt perTurn addr k r s3" by simp
          with calls_in_loop [OF s1 s2] callsPost_transcript [OF s1 s2]
          have "loopPost ou cx rn tt perTurn addr (Suc k) r ((s1 @ s2) @ s3)" by (intro loopPost_step) auto
          then show ?case by simp
        qed
      next
        case (2 e s2)
        show ?case
          by (rule loopPost_stopped) (use calls_in_loop [OF s1 2] callsPost_transcript [OF s1 2] in auto)
      qed
      with False x show ?thesis by simp
    qed
  next
    case (2 e s1)
    then show ?case by (simp add: assistantPost_def loopPost_quiet)
  qed
qed

section \<open>Properties\<close>

text \<open>
  C2: The transcript that a turn saves is well-formed at every moment: tool results come right
  after the answer of the model that called for them, in the order of its calls and one for each;
  when the loop ends with an answer no call waits for a result.
\<close>

theorem transcript_is_well_formed:
  "\<exists>seg. adds w (snd (runProviderLoop ou cx rn tt perTurn addr schedules limit n w)) seg \<and>
     wellFormed (fst (runProviderLoop ou cx rn tt perTurn addr schedules limit n w)) seg"
  using providerLoop_leaves [of ou cx rn tt perTurn addr schedules "limit - n" n w]
  unfolding runProviderLoop_def leaves_def loopPost_def by blast

text \<open>
  C1: Every tool body that a turn runs, in sequence or in a parallel batch, is run for a call of
  an answer of the model saved before, and since that answer its call was checkpointed in the
  journal, then allowed by every approver, then authorised for exactly this request.
\<close>

theorem loop_runs_only_authorised_bodies:
  "\<exists>seg. adds w (snd (runProviderLoop ou cx rn tt perTurn addr schedules limit n w)) seg \<and>
     checkBodies (loopAuthorised ou cx rn tt perTurn addr) [] seg"
  using providerLoop_leaves [of ou cx rn tt perTurn addr schedules "limit - n" n w]
  unfolding runProviderLoop_def leaves_def loopPost_def by blast

text \<open>
  The loop is bounded: with a limit of iterations, of which \<open>n\<close> have run, it saves at most
  one answer of the model for each iteration left and one more.
\<close>

theorem loop_is_bounded:
  "\<exists>seg. adds w (snd (runProviderLoop ou cx rn tt perTurn addr schedules limit n w)) seg \<and>
     length (filter fromModel (saves seg)) \<le> limit - n + 1"
  using providerLoop_leaves [of ou cx rn tt perTurn addr schedules "limit - n" n w]
  unfolding runProviderLoop_def leaves_def loopPost_def by blast


end
