(* ===== verification/Session.thy ===== *)
theory Session
  imports Steering "HOL-Library.AList"
begin

text \<open>
  The session of a thread (\<open>pkg/harness/session.go\<close>): its history in memory and in the durable
  store. Every turn reads the history once, appends to it, and saves the whole history at each
  append; a one-shot session keeps it in memory only. The registry and the authority that a
  session carries to its tools are part of the tool theories.
\<close>

section \<open>Messages and stores\<close>

datatype chat_part = TextPart string | AnyPart string

record chat =
  ch_id :: string
  ch_role :: role
  ch_addr :: message_address
  ch_parts :: "chat_part list"

text \<open>
  The durable histories: a store that knows workspaces keeps them per workspace and thread, any
  other store per thread.
\<close>

type_synonym history_key = "string option \<times> string"
type_synonym history_store = "history_key \<Rightarrow> chat list"

datatype session_error = MissingThreadID | MissingHistoryStore | LoadFailed | SaveFailed | ContextEnded

record session =
  sn_addr :: message_address
  sn_scoped :: bool
  sn_ephemeral :: bool
  sn_history :: "chat list"

definition historyKey :: "bool \<Rightarrow> message_address \<Rightarrow> history_key" where
  "historyKey scoped a =
     (if scoped \<and> ma_workspace a \<noteq> [] then (Some (ma_workspace a), ma_thread a) else (None, ma_thread a))"

section \<open>Operations\<close>

text \<open>\<open>store\<close> is \<open>None\<close> for a missing store; \<open>fault\<close> says that the read or write fails.\<close>

definition NewSession ::
  "bool \<Rightarrow> bool \<Rightarrow> message_address \<Rightarrow> history_store option \<Rightarrow> (session_error, session) result" where
  "NewSession scoped fault a store =
     (if ma_thread a = [] then Inl MissingThreadID
      else case store of
        None \<Rightarrow> Inl MissingHistoryStore
      | Some st \<Rightarrow>
          if fault then Inl LoadFailed
          else Inr \<lparr>sn_addr = a, sn_scoped = scoped, sn_ephemeral = False, sn_history = st (historyKey scoped a)\<rparr>)"

definition NewEphemeralSession :: "message_address \<Rightarrow> (session_error, session) result" where
  "NewEphemeralSession a =
     (if ma_thread a = [] then Inl MissingThreadID
      else Inr \<lparr>sn_addr = a, sn_scoped = False, sn_ephemeral = True, sn_history = []\<rparr>)"

definition orElse :: "string \<Rightarrow> string \<Rightarrow> string" where
  "orElse base x = (if x \<noteq> [] then x else base)"

text \<open>The identifiers of the override win where it has them; the ownership is that of the session.\<close>

definition mergeAddress :: "message_address \<Rightarrow> message_address \<Rightarrow> message_address" where
  "mergeAddress base x =
     base\<lparr>ma_tenant := orElse (ma_tenant base) (ma_tenant x),
          ma_workspace := orElse (ma_workspace base) (ma_workspace x),
          ma_user := orElse (ma_user base) (ma_user x),
          ma_thread := orElse (ma_thread base) (ma_thread x),
          ma_task := orElse (ma_task base) (ma_task x)\<rparr>"

definition sessionAppend ::
  "bool \<Rightarrow> bool \<Rightarrow> chat \<Rightarrow> session \<times> history_store \<Rightarrow> (session \<times> history_store) \<times> (session_error, unit) result" where
  "sessionAppend ended fault m st = (case st of (s, store) \<Rightarrow>
     if ended then (st, Inl ContextEnded)
     else
       (let next_history = sn_history s @ [m\<lparr>ch_addr := mergeAddress (sn_addr s) (ch_addr m)\<rparr>];
            s' = s\<lparr>sn_history := next_history\<rparr> in
        if sn_ephemeral s then ((s', store), Inr ())
        else if fault then (st, Inl SaveFailed)
        else ((s', store(historyKey (sn_scoped s) (sn_addr s) := next_history)), Inr ())))"

definition messageText :: "chat \<Rightarrow> string" where
  "messageText m = concat (map (\<lambda>p. case p of TextPart t \<Rightarrow> t | AnyPart x \<Rightarrow> []) (ch_parts m))"

definition sameMessage :: "chat \<Rightarrow> chat \<Rightarrow> bool" where
  "sameMessage old m \<longleftrightarrow>
     ch_id old \<noteq> [] \<and> ch_id m \<noteq> [] \<and> ch_id old = ch_id m \<or>
     messageText m \<noteq> [] \<and> messageText old = messageText m"

definition DropTrailingUserDuplicate :: "chat \<Rightarrow> session \<Rightarrow> session \<times> bool" where
  "DropTrailingUserDuplicate m s =
     (if sn_history s = [] \<or> ch_role m \<noteq> RoleUser then (s, False)
      else if ch_role (last (sn_history s)) \<noteq> RoleUser then (s, False)
      else if sameMessage (last (sn_history s)) m then (s\<lparr>sn_history := butlast (sn_history s)\<rparr>, True)
      else (s, False))"

definition AppendToolResultParts ::
  "bool \<Rightarrow> bool \<Rightarrow> string \<Rightarrow> chat_part list \<Rightarrow> session \<times> history_store \<Rightarrow>
   (session \<times> history_store) \<times> (session_error, unit) result" where
  "AppendToolResultParts ended fault call parts st =
     sessionAppend ended fault
       \<lparr>ch_id = call @ ''-result'', ch_role = RoleTool, ch_addr = sn_addr (fst st), ch_parts = parts\<rparr> st"

section \<open>The store of the package\<close>

text \<open>\<open>MemoryStore\<close> keeps the threads of every workspace apart; the empty workspace is that of plain threads.\<close>

type_synonym memory_store = "((string \<times> string) \<times> chat list) list"

definition memoryLoad :: "string \<times> string \<Rightarrow> memory_store \<Rightarrow> chat list" where
  "memoryLoad k st = (case map_of st k of None \<Rightarrow> [] | Some ms \<Rightarrow> ms)"

definition memorySave :: "string \<times> string \<Rightarrow> chat list \<Rightarrow> memory_store \<Rightarrow> memory_store" where
  "memorySave k ms st = AList.update k ms st"

definition LoadHistory :: "string \<Rightarrow> memory_store \<Rightarrow> chat list" where
  "LoadHistory thread st = memoryLoad ([], thread) st"

definition LoadWorkspaceHistory :: "string \<Rightarrow> string \<Rightarrow> memory_store \<Rightarrow> chat list" where
  "LoadWorkspaceHistory workspace thread st = memoryLoad (workspace, thread) st"

definition SaveHistory :: "string \<Rightarrow> chat list \<Rightarrow> memory_store \<Rightarrow> memory_store" where
  "SaveHistory thread ms st = memorySave ([], thread) ms st"

definition SaveWorkspaceHistory :: "string \<Rightarrow> string \<Rightarrow> chat list \<Rightarrow> memory_store \<Rightarrow> memory_store" where
  "SaveWorkspaceHistory workspace thread ms st = memorySave (workspace, thread) ms st"

section \<open>The history in memory and in the store\<close>

datatype session_op =
    DoAppend bool bool chat
  | DoResult bool bool string "chat_part list"
  | DoDrop chat

fun session_step :: "session_op \<Rightarrow> session \<times> history_store \<Rightarrow> session \<times> history_store" where
  "session_step (DoAppend ended fault m) st = fst (sessionAppend ended fault m st)"
| "session_step (DoResult ended fault c ps) st = fst (AppendToolResultParts ended fault c ps st)"
| "session_step (DoDrop m) st = (fst (DropTrailingUserDuplicate m (fst st)), snd st)"

text \<open>
  Other threads keep their histories; the session keeps its address and mode. A durable session's
  store holds what its history holds, or what it held before a duplicate was dropped from memory
  and nothing was appended since.
\<close>

definition sessionOk :: "session \<Rightarrow> history_store \<Rightarrow> session \<times> history_store \<Rightarrow> bool" where
  "sessionOk s0 store0 st \<longleftrightarrow> (case st of (s, store) \<Rightarrow>
     sn_addr s = sn_addr s0 \<and> sn_scoped s = sn_scoped s0 \<and> sn_ephemeral s = sn_ephemeral s0 \<and>
     (let k = historyKey (sn_scoped s0) (sn_addr s0) in
      {k'. store k' \<noteq> store0 k'} \<subseteq> {k} \<and>
      (if sn_ephemeral s0 then store k = store0 k
       else \<exists>dropped. store k = sn_history s @ dropped \<and> list_all (\<lambda>m. ch_role m = RoleUser) dropped)))"

lemma sessionOk_append:
  assumes "sessionOk s0 store0 (s, store)"
  shows "sessionOk s0 store0 (fst (sessionAppend ended fault m (s, store)))"
  using assms by (auto simp: sessionOk_def sessionAppend_def Let_def)

lemma sessionOk_drop:
  assumes ok: "sessionOk s0 store0 (s, store)"
  shows "sessionOk s0 store0 (fst (DropTrailingUserDuplicate m s), store)"
proof (cases "snd (DropTrailingUserDuplicate m s)")
  case True
  then have h: "sn_history s \<noteq> []" "ch_role (last (sn_history s)) = RoleUser"
    "fst (DropTrailingUserDuplicate m s) = s\<lparr>sn_history := butlast (sn_history s)\<rparr>"
    by (auto simp: DropTrailingUserDuplicate_def split: if_splits)
  show ?thesis
  proof (cases "sn_ephemeral s0")
    case True
    with ok h(3) show ?thesis by (simp add: sessionOk_def Let_def)
  next
    case False
    with ok obtain dropped where d: "store (historyKey (sn_scoped s0) (sn_addr s0)) = sn_history s @ dropped"
      "list_all (\<lambda>m. ch_role m = RoleUser) dropped" by (auto simp: sessionOk_def Let_def)
    have "sn_history s @ dropped = butlast (sn_history s) @ (last (sn_history s) # dropped)"
      using h(1) by (metis append.assoc append_Cons append_Nil append_butlast_last_id)
    with ok False h d show ?thesis
      by (auto simp: sessionOk_def Let_def intro!: exI [of _ "last (sn_history s) # dropped"])
  qed
next
  case False
  then have "fst (DropTrailingUserDuplicate m s) = s"
    by (auto simp: DropTrailingUserDuplicate_def split: if_splits)
  with ok show ?thesis by simp
qed

lemma sessionOk_step: "sessionOk s0 store0 st \<Longrightarrow> sessionOk s0 store0 (session_step x st)"
  by (cases st; cases x) (simp_all add: sessionOk_append sessionOk_drop AppendToolResultParts_def)

text \<open>A session as it is opened on a store.\<close>

definition openedSession :: "bool \<Rightarrow> bool \<Rightarrow> message_address \<Rightarrow> history_store \<Rightarrow> session" where
  "openedSession scoped ephemeral a store =
     \<lparr>sn_addr = a, sn_scoped = scoped, sn_ephemeral = ephemeral,
      sn_history = (if ephemeral then [] else store (historyKey scoped a))\<rparr>"

lemma NewSession_opened: "NewSession scoped fault a (Some store) = Inr s \<Longrightarrow> s = openedSession scoped False a store"
  by (auto simp: NewSession_def openedSession_def split: if_splits)

lemma opened_ok: "sessionOk (openedSession scoped ephemeral a store) store (openedSession scoped ephemeral a store, store)"
  by (simp add: sessionOk_def openedSession_def)

interpretation thread_session: store_machine "(openedSession scoped ephemeral a store, store)" session_step
    "sessionOk (openedSession scoped ephemeral a store) store"
  by unfold_locales (rule opened_ok, rule sessionOk_step)

text \<open>
  The contract of a keyed history store, with what the sessions rely on: a history that was saved
  is loaded again, and saving one thread leaves the others alone.
\<close>

locale history_contract =
  fixes load :: "'k \<Rightarrow> 's \<Rightarrow> chat list" and save :: "'k \<Rightarrow> chat list \<Rightarrow> 's \<Rightarrow> 's"
  assumes load_saved: "load k (save k ms st) = ms"
    and load_other: "k' \<noteq> k \<Longrightarrow> load k' (save k ms st) = load k' st"
begin

lemma saves_commute: "k \<noteq> k' \<Longrightarrow> load x (save k ms (save k' ms' st)) = load x (save k' ms' (save k ms st))"
  by (cases "x = k"; cases "x = k'") (simp_all add: load_saved load_other)

lemma last_save_counts: "load x (save k ms (save k ms' st)) = load x (save k ms st)"
  by (cases "x = k") (simp_all add: load_saved load_other)

end

interpretation memory: history_contract memoryLoad memorySave
  by unfold_locales (simp_all add: memoryLoad_def memorySave_def update_conv)

section \<open>Properties\<close>


text \<open>A one-shot session never writes.\<close>

lemma ephemeral_writes_nothing:
  "snd (run session_step (openedSession scoped True a store, store) ops) = store"
proof (rule ext)
  fix k
  obtain s' store' where st: "run session_step (openedSession scoped True a store, store) ops = (s', store')" by fastforce
  with thread_session.reachable_inv [of scoped True a store ops]
  have "{k. store' k \<noteq> store k} \<subseteq> {historyKey scoped a}" "store' (historyKey scoped a) = store (historyKey scoped a)"
    by (simp_all add: sessionOk_def openedSession_def Let_def)
  with st show "snd (run session_step (openedSession scoped True a store, store) ops) k = store k" by auto
qed

end
