(* ===== verification/TurnExecution.thy ===== *)
theory TurnExecution
  imports Session JournalProofs GoalStore ToolPolicy
begin

text \<open>
  The durable record of a running turn (\<open>pkg/turn/turn_execution.go\<close>): how the runner advances the
  journal of \<open>pkg/turnjournal\<close> around the model calls and the tool calls of a turn, closes it, and
  what a restarted host does with the records it finds. The store is the file store of the
  journal; the context, the faults and the clock of every store call are arguments.
\<close>

section \<open>References to messages\<close>

text \<open>JSON as far as the digest of a message looks into it.\<close>

datatype json = JObject "(string \<times> json) list" | JOther string

text \<open>
  \<open>mc_fields\<close> marshals a message and decodes it as an object, \<open>mc_encode\<close> marshals an object
  (with sorted keys); \<open>mc_sha\<close> is the hexadecimal SHA-256.
\<close>

record message_codec =
  mc_fields :: "chat \<Rightarrow> (string \<times> json) list option"
  mc_encode :: "(string \<times> json) list \<Rightarrow> string option"
  mc_sha :: "string \<Rightarrow> string"

datatype exec_error =
    MessageIdentity | MessageEncoding | MessageDuplicated string | MessageMissing string | MessageMismatch string
  | CreateFailed journal_error | UpdateFailed journal_error | LookupFailed journal_error
  | EmptyToolBatch | ChildMismatch | ChildEncoding | ChildCheckpoint journal_error | ResultMismatch
  | RecoveryUnsafe string | InterruptFailed string exec_error | SessionUnavailable session_error

definition without :: "string \<Rightarrow> (string \<times> json) list \<Rightarrow> (string \<times> json) list" where
  "without k kvs = filter (\<lambda>f. fst f \<noteq> k) kvs"

text \<open>The fields a history store fills in itself are left out.\<close>

definition canonicalFields :: "(string \<times> json) list \<Rightarrow> (string \<times> json) list" where
  "canonicalFields kvs =
     map (\<lambda>(k, v). (k, case v of
            JObject meta \<Rightarrow> if k = ''meta'' then JObject (without ''app_workspace'' meta) else v
          | JOther t \<Rightarrow> v))
       (without ''created_at'' kvs)"

definition canonicalJournalMessage :: "message_codec \<Rightarrow> chat \<Rightarrow> string option" where
  "canonicalJournalMessage mc m = (case mc_fields mc m of
      None \<Rightarrow> None
    | Some kvs \<Rightarrow> mc_encode mc (canonicalFields kvs))"

definition journalMessageRef ::
  "message_codec \<Rightarrow> chat \<Rightarrow> string \<Rightarrow> string \<Rightarrow> (exec_error, history_ref) result" where
  "journalMessageRef mc m workspace session =
     (if trim_space (ch_id m) = [] \<or> trim_space workspace = [] \<or> trim_space session = [] then Inl MessageIdentity
      else case canonicalJournalMessage mc m of
        None \<Rightarrow> Inl MessageEncoding
      | Some text \<Rightarrow> Inr \<lparr>hr_workspace = workspace, hr_session = session, hr_message = ch_id m,
                           hr_digest = mc_sha mc text\<rparr>)"

text \<open>The message with an id, which has to be there once.\<close>

definition findMessage :: "chat list \<Rightarrow> string \<Rightarrow> (exec_error, chat) result" where
  "findMessage history mid = (case filter (\<lambda>m. ch_id m = mid) history of
      [] \<Rightarrow> Inl (MessageMissing mid)
    | [m] \<Rightarrow> Inr m
    | _ \<Rightarrow> Inl (MessageDuplicated mid))"

definition refOf :: "message_codec \<Rightarrow> chat \<Rightarrow> (exec_error, history_ref) result" where
  "refOf mc m = journalMessageRef mc m (ma_workspace (ch_addr m)) (ma_thread (ch_addr m))"

definition journalPersistedMessageRef :: "message_codec \<Rightarrow> chat list \<Rightarrow> string \<Rightarrow> (exec_error, history_ref) result" where
  "journalPersistedMessageRef mc history mid = and_then (findMessage history mid) (refOf mc)"

definition journalMessageByRef :: "message_codec \<Rightarrow> chat list \<Rightarrow> history_ref \<Rightarrow> (exec_error, chat) result" where
  "journalMessageByRef mc history ref =
     and_then (findMessage history (hr_message ref)) (\<lambda>m.
       and_then (refOf mc m) (\<lambda>actual.
         if actual \<noteq> ref then Inl (MessageMismatch (hr_message ref)) else Inr m))"

section \<open>Updates\<close>

text \<open>One call of the store: whether its context has ended, its faults, and the time.\<close>

record store_call =
  sc_done :: bool
  sc_io :: io_env
  sc_now :: time

text \<open>The execution is the record in memory; \<open>None\<close> is a turn without a journal.\<close>

type_synonym execution = "turn_record option \<times> journal_disk"

definition updateExecution ::
  "journal_codec \<Rightarrow> store_call \<Rightarrow> (turn_record \<Rightarrow> turn_record) \<Rightarrow> execution \<Rightarrow> execution \<times> (exec_error, unit) result"
where
  "updateExecution jc sc mutate st = (case st of
      (None, disk) \<Rightarrow> (st, Inr ())
    | (Some r, disk) \<Rightarrow>
        (case fileUpdate jc (sc_done sc) (sc_io sc) (sc_now sc) (tr_revision r) (mutate r) disk of
           (disk', Inl e) \<Rightarrow> ((Some r, disk'), Inl (UpdateFailed e))
         | (disk', Inr r') \<Rightarrow> ((Some r', disk'), Inr ())))"

definition normalizeJournalInput :: "message_address \<Rightarrow> chat \<Rightarrow> chat" where
  "normalizeJournalInput a user =
     user\<lparr>ch_id := (if trim_space (ch_id user) = [] then ma_task a @ ''-input'' else ch_id user), ch_addr := a\<rparr>"

definition newExecutionRecord :: "string \<Rightarrow> message_address \<Rightarrow> history_ref \<Rightarrow> string \<Rightarrow> turn_record" where
  "newExecutionRecord owner a input last_message =
     \<lparr>tr_schema_revision = 0, tr_schema = [], tr_revision = 0, tr_workspace = ma_workspace a,
      tr_session = ma_thread a, tr_task = ma_task a, tr_owner = owner, tr_phase = PhasePrepared, tr_input = input,
      tr_iteration = 0, tr_last = last_message, tr_batch = None, tr_reason = [], tr_created = 0, tr_updated = 0,
      tr_completed = None\<rparr>"

text \<open>\<open>journaled\<close> says whether the runner has a journal.\<close>

definition beginTurnExecution ::
  "journal_codec \<Rightarrow> message_codec \<Rightarrow> bool \<Rightarrow> store_call \<Rightarrow> string \<Rightarrow> message_address \<Rightarrow> chat \<Rightarrow> journal_disk \<Rightarrow>
   journal_disk \<times> (exec_error, turn_record option) result" where
  "beginTurnExecution jc mc journaled sc owner a user disk =
     (if \<not> journaled \<or> trim_space (ma_task a) = [] then (disk, Inr None)
      else case journalMessageRef mc user (ma_workspace a) (ma_thread a) of
        Inl e \<Rightarrow> (disk, Inl e)
      | Inr input \<Rightarrow>
          (case fileCreate jc (sc_done sc) (sc_io sc) (sc_now sc) (newExecutionRecord owner a input (ch_id user)) disk of
             (disk', Inl e) \<Rightarrow> (disk', Inl (CreateFailed e))
           | (disk', Inr r) \<Rightarrow> (disk', Inr (Some r))))"

definition providerPending ::
  "journal_codec \<Rightarrow> store_call \<Rightarrow> nat \<Rightarrow> execution \<Rightarrow> execution \<times> (exec_error, unit) result" where
  "providerPending jc sc n st =
     updateExecution jc sc (\<lambda>r. r\<lparr>tr_phase := PhaseProviderPending, tr_iteration := of_nat n\<rparr>) st"

definition noRef :: history_ref where
  "noRef = \<lparr>hr_workspace = [], hr_session = [], hr_message = [], hr_digest = []\<rparr>"

definition assistantPersisted ::
  "journal_codec \<Rightarrow> message_codec \<Rightarrow> store_call \<Rightarrow> chat list \<Rightarrow> string \<Rightarrow> nat \<Rightarrow> execution \<Rightarrow>
   execution \<times> (exec_error, history_ref) result" where
  "assistantPersisted jc mc sc history mid n st =
     (if fst st = None then (st, Inr noRef)
      else case journalPersistedMessageRef mc history mid of
        Inl e \<Rightarrow> (st, Inl e)
      | Inr ref \<Rightarrow>
          (case updateExecution jc sc (\<lambda>r. r\<lparr>tr_iteration := of_nat n, tr_last := hr_message ref\<rparr>) st of
             (st', res) \<Rightarrow> (st', and_then res (\<lambda>_. Inr ref))))"

section \<open>Tool calls\<close>

definition requestedCheckpoint :: "message_codec \<Rightarrow> tool_call \<Rightarrow> tool_checkpoint" where
  "requestedCheckpoint mc c =
     \<lparr>tk_invocation = tc_id c, tk_name = tc_name c, tk_args = mc_sha mc (tc_args c), tk_outcome = OutcomeRequested,
      tk_external = None, tk_result = None\<rparr>"

definition withBatch :: "message_codec \<Rightarrow> tool_call list \<Rightarrow> history_ref \<Rightarrow> nat \<Rightarrow> turn_record \<Rightarrow> turn_record" where
  "withBatch mc calls assistant n r =
     r\<lparr>tr_phase := PhaseToolPending, tr_iteration := of_nat n,
       tr_batch := Some \<lparr>tb_assistant = assistant, tb_calls = map (requestedCheckpoint mc) calls\<rparr>\<rparr>"

text \<open>\<open>sc0\<close> is the store call that leaves the recoverable phase first, where that is needed.\<close>

definition toolsPending ::
  "journal_codec \<Rightarrow> message_codec \<Rightarrow> store_call \<Rightarrow> store_call \<Rightarrow> tool_call list \<Rightarrow> history_ref \<Rightarrow> nat \<Rightarrow> execution \<Rightarrow>
   execution \<times> (exec_error, unit) result" where
  "toolsPending jc mc sc0 sc calls assistant n st = (case fst st of
      None \<Rightarrow> (st, Inr ())
    | Some r \<Rightarrow>
        (if calls = [] then (st, Inl EmptyToolBatch)
         else case (if tr_phase r = PhaseChildResolved then providerPending jc sc0 n st else (st, Inr ())) of
           (st', Inl e) \<Rightarrow> (st', Inl e)
         | (st', Inr _) \<Rightarrow> updateExecution jc sc (withBatch mc calls assistant n) st'))"

text \<open>A child that a host admitted; \<open>ac_descriptor\<close> is its encoded descriptor.\<close>

record admitted_child =
  ac_background :: bool
  ac_invocation :: string
  ac_execution :: string
  ac_session :: string
  ac_descriptor :: "string option"

definition singleJournalTool :: "tool_batch option \<Rightarrow> tool_checkpoint option" where
  "singleJournalTool b = (case b of
      None \<Rightarrow> None
    | Some b \<Rightarrow> (case tb_calls b of [c] \<Rightarrow> Some c | _ \<Rightarrow> None))"

definition updateCall :: "nat \<Rightarrow> (tool_checkpoint \<Rightarrow> tool_checkpoint) \<Rightarrow> turn_record \<Rightarrow> turn_record" where
  "updateCall k f r =
     r\<lparr>tr_batch := map_option (\<lambda>b. b\<lparr>tb_calls := (tb_calls b)[k := f (tb_calls b ! k)]\<rparr>) (tr_batch r)\<rparr>"

definition awaitsAdmission :: "turn_record \<Rightarrow> string \<Rightarrow> bool" where
  "awaitsAdmission r invocation \<longleftrightarrow> (case singleJournalTool (tr_batch r) of
      None \<Rightarrow> False
    | Some c \<Rightarrow> tr_phase r = PhaseToolPending \<and> tk_outcome c = OutcomeRequested \<and> tk_invocation c = invocation)"

definition externalAdmitted ::
  "journal_codec \<Rightarrow> store_call \<Rightarrow> string \<Rightarrow> admitted_child \<Rightarrow> execution \<Rightarrow> execution \<times> (exec_error, unit) result" where
  "externalAdmitted jc sc task child st = (case fst st of
      None \<Rightarrow> (st, Inr ())
    | Some r \<Rightarrow>
        (if ac_background child then (st, Inr ())
         else if \<not> awaitsAdmission r (ac_invocation child) then (st, Inl ChildMismatch)
         else case ac_descriptor child of
           None \<Rightarrow> (st, Inl ChildEncoding)
         | Some d \<Rightarrow>
             (case newExternalChildRef jc task (ac_execution child) (ac_session child) d of
                Inl e \<Rightarrow> (st, Inl (ChildCheckpoint e))
              | Inr x \<Rightarrow>
                  updateExecution jc sc
                    (\<lambda>r. updateCall 0 (\<lambda>c. c\<lparr>tk_outcome := OutcomeAdmitted, tk_external := Some x\<rparr>)
                           (r\<lparr>tr_phase := PhaseWaitingExternalChild\<rparr>)) st)))"

text \<open>The position of a call in the batch.\<close>

fun callIndex :: "string \<Rightarrow> tool_checkpoint list \<Rightarrow> nat option" where
  "callIndex c [] = None"
| "callIndex c (x # xs) = (if tk_invocation x = c then Some 0 else map_option Suc (callIndex c xs))"

definition journalToolIndex :: "tool_batch option \<Rightarrow> string \<Rightarrow> nat option" where
  "journalToolIndex b c = (case b of None \<Rightarrow> None | Some b \<Rightarrow> callIndex c (tb_calls b))"

definition journalBatchConfirmedExcept :: "tool_batch option \<Rightarrow> nat \<Rightarrow> bool" where
  "journalBatchConfirmedExcept b k \<longleftrightarrow> (case b of
      None \<Rightarrow> False
    | Some b \<Rightarrow> k < length (tb_calls b) \<and>
        list_all (\<lambda>i. i = k \<or> tk_outcome (tb_calls b ! i) = OutcomeConfirmed) [0..<length (tb_calls b)])"

definition confirmedPhase :: "turn_record \<Rightarrow> nat \<Rightarrow> phase" where
  "confirmedPhase r k =
     (if (case tr_batch r of None \<Rightarrow> False | Some b \<Rightarrow> tk_external (tb_calls b ! k) \<noteq> None) then PhaseChildResolved
      else if journalBatchConfirmedExcept (tr_batch r) k then PhaseProviderPending
      else PhaseToolPending)"

definition confirmCall :: "nat \<Rightarrow> history_ref \<Rightarrow> nat \<Rightarrow> turn_record \<Rightarrow> turn_record" where
  "confirmCall k res n r =
     updateCall k (\<lambda>c. c\<lparr>tk_outcome := OutcomeConfirmed, tk_result := Some res\<rparr>)
       (r\<lparr>tr_phase := confirmedPhase r k, tr_iteration := of_nat n, tr_last := hr_message res\<rparr>)"

definition toolConfirmed ::
  "journal_codec \<Rightarrow> message_codec \<Rightarrow> store_call \<Rightarrow> chat list \<Rightarrow> string \<Rightarrow> nat \<Rightarrow> execution \<Rightarrow>
   execution \<times> (exec_error, unit) result" where
  "toolConfirmed jc mc sc history call n st = (case fst st of
      None \<Rightarrow> (st, Inr ())
    | Some r \<Rightarrow>
        (case journalToolIndex (tr_batch r) call of
           None \<Rightarrow> (st, Inl ResultMismatch)
         | Some k \<Rightarrow>
             (case journalPersistedMessageRef mc history (call @ ''-result'') of
                Inl e \<Rightarrow> (st, Inl e)
              | Inr res \<Rightarrow> updateExecution jc sc (confirmCall k res n) st)))"

section \<open>The end of a turn\<close>

definition journalBatchHasRequested :: "tool_batch option \<Rightarrow> bool" where
  "journalBatchHasRequested b \<longleftrightarrow> (case b of
      None \<Rightarrow> False | Some b \<Rightarrow> list_ex (\<lambda>c. tk_outcome c = OutcomeRequested) (tb_calls b))"

definition uncertainCall :: "tool_checkpoint \<Rightarrow> tool_checkpoint" where
  "uncertainCall c = (if tk_outcome c = OutcomeRequested then c\<lparr>tk_outcome := OutcomeUncertain\<rparr> else c)"

definition markJournalBatchUncertain :: "turn_record \<Rightarrow> turn_record" where
  "markJournalBatchUncertain r =
     r\<lparr>tr_batch := map_option (\<lambda>b. b\<lparr>tb_calls := map uncertainCall (tb_calls b)\<rparr>) (tr_batch r)\<rparr>"

text \<open>The first runes of a text; a byte that belongs to no rune becomes the replacement character.\<close>

definition runeText :: "char \<Rightarrow> string \<Rightarrow> string" where
  "runeText c cs =
     (if runeWidth c cs = 1 \<and> 128 \<le> (of_char c :: nat) then [CHR 0xEF, CHR 0xBF, CHR 0xBD]
      else take (runeWidth c cs) (c # cs))"

fun takeRunes :: "nat \<Rightarrow> string \<Rightarrow> string" where
  "takeRunes n [] = []"
| "takeRunes 0 (c # cs) = []"
| "takeRunes (Suc n) (c # cs) = runeText c cs @ takeRunes n (drop (runeWidth c cs) (c # cs))"

definition boundedJournalReason :: "string \<Rightarrow> string" where
  "boundedJournalReason reason =
     (let t = takeRunes 8192 (trim_space reason) in if t = [] then ''turn execution failed'' else t)"

text \<open>What \<open>errors.Is\<close> finds in the error that ended a run.\<close>

datatype stop_cause = StopCanceled | StopDeadline | StopTurnCancelled | StopCheckpointUncertain | StopRecoveryUnsafe

record run_error =
  re_text :: string
  re_is :: "stop_cause list"

definition finalPhase :: "bool \<Rightarrow> run_error option \<Rightarrow> tool_batch option \<Rightarrow> phase" where
  "finalPhase managed e b = (case e of
      None \<Rightarrow> if managed then PhaseCompleting else PhaseCompleted
    | Some x \<Rightarrow>
        (if re_is x \<noteq> [] \<or> journalBatchHasRequested b
         then if managed \<and> StopTurnCancelled \<notin> set (re_is x) then PhaseInterrupting else PhaseInterrupted
         else if managed then PhaseFailing else PhaseFailed))"

definition finishRecord :: "bool \<Rightarrow> run_error option \<Rightarrow> turn_record \<Rightarrow> turn_record" where
  "finishRecord managed e r =
     (let p = finalPhase managed e (tr_batch r);
          r' = r\<lparr>tr_phase := p, tr_reason := (case e of None \<Rightarrow> [] | Some x \<Rightarrow> boundedJournalReason (re_text x))\<rparr> in
      if p = PhaseInterrupted \<or> p = PhaseInterrupting then markJournalBatchUncertain r' else r')"

definition finishExecution ::
  "journal_codec \<Rightarrow> store_call \<Rightarrow> bool \<Rightarrow> run_error option \<Rightarrow> execution \<Rightarrow> execution \<times> (exec_error, unit) result" where
  "finishExecution jc sc managed e st = (case fst st of
      None \<Rightarrow> (st, Inr ())
    | Some r \<Rightarrow>
        (if terminalPhase (tr_phase r) then (st, Inr ()) else updateExecution jc sc (finishRecord managed e) st))"

definition interruptRecord' :: "bool \<Rightarrow> string \<Rightarrow> turn_record \<Rightarrow> turn_record" where
  "interruptRecord' managed reason r =
     markJournalBatchUncertain
       (r\<lparr>tr_phase := (if managed then PhaseInterrupting else PhaseInterrupted),
          tr_reason := boundedJournalReason reason\<rparr>)"

definition interruptExecution ::
  "journal_codec \<Rightarrow> store_call \<Rightarrow> bool \<Rightarrow> string \<Rightarrow> execution \<Rightarrow> execution \<times> (exec_error, unit) result" where
  "interruptExecution jc sc managed reason st = (case fst st of
      None \<Rightarrow> (st, Inr ())
    | Some r \<Rightarrow>
        (if terminalPhase (tr_phase r) then (st, Inr ())
         else updateExecution jc sc (interruptRecord' managed reason) st))"

section \<open>After a restart\<close>

text \<open>The calls of one acknowledgment; other hosts may write before the update and before the second look.\<close>

record ack_env =
  ak_get :: store_call
  ak_between :: "journal_disk \<Rightarrow> journal_disk"
  ak_update :: store_call
  ak_after :: "journal_disk \<Rightarrow> journal_disk"
  ak_again :: store_call

definition getRecord ::
  "journal_codec \<Rightarrow> store_call \<Rightarrow> string \<Rightarrow> string \<Rightarrow> journal_disk \<Rightarrow> (journal_error, turn_record) result" where
  "getRecord jc sc w t disk = fileGet jc (sc_done sc) (sc_io sc) w t disk"

definition notThisRunner :: exec_error where
  "notThisRunner = RecoveryUnsafe ''execution owner does not match this runner''"

definition AcknowledgeTaskTerminal ::
  "journal_codec \<Rightarrow> bool \<Rightarrow> ack_env \<Rightarrow> string \<Rightarrow> string \<Rightarrow> string \<Rightarrow> journal_disk \<Rightarrow>
   journal_disk \<times> (exec_error, unit) result" where
  "AcknowledgeTaskTerminal jc journaled env owner w t disk =
     (if \<not> journaled then (disk, Inr ())
      else case getRecord jc (ak_get env) w t disk of
        Inl e \<Rightarrow> (disk, if e = JournalNotFound then Inr () else Inl (LookupFailed e))
      | Inr r \<Rightarrow>
          (if tr_owner r \<noteq> owner then (disk, Inl notThisRunner)
           else if terminalPhase (tr_phase r) then (disk, Inr ())
           else case acknowledgedPhase (tr_phase r) of
             None \<Rightarrow> (disk, Inl (RecoveryUnsafe ''execution phase has no pending task terminal intent''))
           | Some p \<Rightarrow>
               (case fileUpdate jc (sc_done (ak_update env)) (sc_io (ak_update env)) (sc_now (ak_update env))
                       (tr_revision r) (r\<lparr>tr_phase := p\<rparr>) (ak_between env disk) of
                  (disk', Inr _) \<Rightarrow> (disk', Inr ())
                | (disk', Inl e) \<Rightarrow>
                    (if e \<noteq> JournalConflict then (disk', Inl (UpdateFailed e))
                     else case getRecord jc (ak_again env) w t (ak_after env disk') of
                       Inl _ \<Rightarrow> (ak_after env disk', Inl (UpdateFailed e))
                     | Inr current \<Rightarrow>
                         (ak_after env disk',
                          if terminalPhase (tr_phase current) then Inr () else Inl (UpdateFailed e))))))"

definition ActiveTurnExecutions ::
  "journal_codec \<Rightarrow> bool \<Rightarrow> store_call \<Rightarrow> string \<Rightarrow> journal_disk \<Rightarrow> (journal_error, turn_record list) result" where
  "ActiveTurnExecutions jc journaled sc owner disk =
     (if \<not> journaled then Inr [] else fileListActive jc (sc_done sc) (sc_io sc) owner disk)"

text \<open>The record of a running turn of this owner.\<close>

definition ownRecord ::
  "journal_codec \<Rightarrow> bool \<Rightarrow> store_call \<Rightarrow> string \<Rightarrow> string \<Rightarrow> string \<Rightarrow> journal_disk \<Rightarrow> (exec_error, turn_record) result"
where
  "ownRecord jc journaled sc owner w t disk =
     (if \<not> journaled then Inl (RecoveryUnsafe ''no execution journal is configured'')
      else case getRecord jc sc w t disk of
        Inl e \<Rightarrow> Inl (LookupFailed e)
      | Inr r \<Rightarrow> if tr_owner r \<noteq> owner then Inl notThisRunner else Inr r)"

definition phaseText :: "phase \<Rightarrow> string" where
  "phaseText p = (case p of
      PhaseUnset \<Rightarrow> [] | PhasePrepared \<Rightarrow> ''prepared'' | PhaseProviderPending \<Rightarrow> ''provider_pending''
    | PhaseToolPending \<Rightarrow> ''tool_pending'' | PhaseWaitingExternalChild \<Rightarrow> ''waiting_external_child''
    | PhaseChildResolved \<Rightarrow> ''child_resolved'' | PhaseCompleting \<Rightarrow> ''completing'' | PhaseFailing \<Rightarrow> ''failing''
    | PhaseInterrupting \<Rightarrow> ''interrupting'' | PhaseCompleted \<Rightarrow> ''completed'' | PhaseFailed \<Rightarrow> ''failed''
    | PhaseInterrupted \<Rightarrow> ''interrupted'' | PhaseUnknown t \<Rightarrow> t)"

definition unsafeReason :: "phase \<Rightarrow> string" where
  "unsafeReason p = ''startup recovery cannot safely replay phase '' @ [CHR 0x22] @ phaseText p @ [CHR 0x22]"

text \<open>
  \<open>ResumeTurn\<close> up to the run it resumes: the record, the address and the user message of the turn.
  \<open>history\<close> is what loading the session gives.
\<close>

definition ResumeTurn ::
  "journal_codec \<Rightarrow> message_codec \<Rightarrow> bool \<Rightarrow> store_call \<Rightarrow> store_call \<Rightarrow> bool \<Rightarrow> (session_error, chat list) result \<Rightarrow>
   string \<Rightarrow> string \<Rightarrow> string \<Rightarrow> journal_disk \<Rightarrow> journal_disk \<times> (exec_error, turn_record \<times> chat) result" where
  "ResumeTurn jc mc journaled sc sc' managed history owner w t disk =
     (case ownRecord jc journaled sc owner w t disk of
        Inl e \<Rightarrow> (disk, Inl e)
      | Inr r \<Rightarrow>
          (if terminalPhase (tr_phase r) then (disk, Inl (RecoveryUnsafe ''execution is already terminal''))
           else if tr_phase r \<noteq> PhaseWaitingExternalChild \<and> tr_phase r \<noteq> PhaseChildResolved then
             (case interruptExecution jc sc' managed (unsafeReason (tr_phase r)) (Some r, disk) of
                ((_, disk'), Inl e) \<Rightarrow> (disk', Inl (InterruptFailed (unsafeReason (tr_phase r)) e))
              | ((_, disk'), Inr _) \<Rightarrow> (disk', Inl (RecoveryUnsafe (unsafeReason (tr_phase r)))))
           else case history of
             Inl e \<Rightarrow> (disk, Inl (SessionUnavailable e))
           | Inr messages \<Rightarrow>
               (disk, and_then (journalMessageByRef mc messages (tr_input r)) (\<lambda>user.
                  Inr (r, user\<lparr>ch_addr := (ch_addr user)\<lparr>ma_workspace := tr_workspace r,
                            ma_thread := tr_session r, ma_task := tr_task r\<rparr>\<rparr>)))))"

definition InterruptTurn ::
  "journal_codec \<Rightarrow> bool \<Rightarrow> store_call \<Rightarrow> store_call \<Rightarrow> bool \<Rightarrow> string \<Rightarrow> string \<Rightarrow> string \<Rightarrow> string \<Rightarrow> journal_disk \<Rightarrow>
   journal_disk \<times> (exec_error, unit) result" where
  "InterruptTurn jc journaled sc sc' managed reason owner w t disk =
     (case ownRecord jc journaled sc owner w t disk of
        Inl e \<Rightarrow> (disk, Inl e)
      | Inr r \<Rightarrow>
          (case interruptExecution jc sc' managed reason (Some r, disk) of ((_, disk'), res) \<Rightarrow> (disk', res)))"

end
