(* ===== verification/ExecutionSteps.thy ===== *)
theory ExecutionSteps
  imports TurnExecution
begin

text \<open>
  The updates of a running turn against the rules of the journal: which batches are valid in
  which phase, and that every update the runner makes from such a record is a legal transition to
  a valid record.
\<close>

section \<open>Valid batches\<close>

text \<open>A call of a batch taken alone.\<close>

definition callOk :: "journal_codec \<Rightarrow> string \<Rightarrow> string \<Rightarrow> tool_checkpoint \<Rightarrow> bool" where
  "callOk jc w s c \<longleftrightarrow>
     validateIdentifier (tk_invocation c) = Inr () \<and> validateIdentifier (tk_name c) = Inr () \<and>
     validDigest (tk_args c) \<and>
     (case tk_external c of None \<Rightarrow> True | Some x \<Rightarrow> validateExternalChildRef jc x = Inr ()) \<and>
     (case tk_outcome c of
        OutcomeRequested \<Rightarrow> tk_external c = None \<and> tk_result c = None
      | OutcomeAdmitted \<Rightarrow> tk_external c \<noteq> None \<and> tk_result c = None
      | OutcomeConfirmed \<Rightarrow> (case tk_result c of None \<Rightarrow> False | Some h \<Rightarrow> validateHistoryRef h w s = Inr ())
      | OutcomeUncertain \<Rightarrow> tk_external c = None \<and> tk_result c = None
      | OutcomeOther t \<Rightarrow> False)"

definition tally :: "tool_outcome \<Rightarrow> tool_checkpoint list \<Rightarrow> nat" where
  "tally oc cs = length (filter (\<lambda>c. tk_outcome c = oc) cs)"

lemma tally_simps [simp]:
  "tally oc [] = 0" "tally oc (c # cs) = (if tk_outcome c = oc then Suc (tally oc cs) else tally oc cs)"
  by (simp_all add: tally_def)

lemma tally_0: "tally oc cs = 0 \<longleftrightarrow> (\<forall>c\<in>set cs. tk_outcome c \<noteq> oc)"
  by (auto simp: tally_def filter_empty_conv)

lemma tally_all: "tally oc cs = length cs \<longleftrightarrow> (\<forall>c\<in>set cs. tk_outcome c = oc)"
proof (induction cs)
  case (Cons c cs)
  have "tally oc cs \<le> length cs" by (simp add: tally_def)
  with Cons show ?case by auto
qed simp

definition plusTally :: "outcome_counts \<Rightarrow> tool_checkpoint list \<Rightarrow> outcome_counts" where
  "plusTally k cs = (case k of (q, a, d, u) \<Rightarrow>
     (q + tally OutcomeRequested cs, a + tally OutcomeAdmitted cs, d + tally OutcomeConfirmed cs,
      u + tally OutcomeUncertain cs))"

lemma result_unit: "(r :: ('e, unit) result) = Inr u \<longleftrightarrow> r = Inr ()"
  by simp

lemma checkCall_iff:
  "validateIdentifier (tk_invocation c) = Inr () \<Longrightarrow> validateIdentifier (tk_name c) = Inr () \<Longrightarrow> validDigest (tk_args c) \<Longrightarrow>
   checkCall jc r c k = Inr k' \<longleftrightarrow> callOk jc (tr_workspace r) (tr_session r) c \<and> k' = plusTally k [c]"
  by (cases "tk_outcome c"; cases "tk_external c"; cases "tk_result c")
    (auto simp: checkCall_def callOk_def plusTally_def and_then_Inr_iff split: prod.splits)

lemma plusTally_Cons: "plusTally (plusTally k [c]) cs = plusTally k (c # cs)"
  by (auto simp: plusTally_def split: prod.splits)

lemma checkCalls_iff:
  "checkCalls jc r cs seen k = Inr k' \<longleftrightarrow>
     list_all (callOk jc (tr_workspace r) (tr_session r)) cs \<and> distinct (map tk_invocation cs) \<and>
     set (map tk_invocation cs) \<inter> set seen = {} \<and> k' = plusTally k cs"
proof (induction cs arbitrary: seen k)
  case Nil
  then show ?case by (auto simp: plusTally_def split: prod.splits)
next
  case (Cons c cs)
  show ?case
  proof (cases "validateIdentifier (tk_invocation c) = Inr () \<and> tk_invocation c \<notin> set seen \<and>
      validateIdentifier (tk_name c) = Inr () \<and> validDigest (tk_args c)")
    case True
    then have "checkCalls jc r (c # cs) seen k = Inr k' \<longleftrightarrow>
        (\<exists>k1. checkCall jc r c k = Inr k1 \<and> checkCalls jc r cs (tk_invocation c # seen) k1 = Inr k')"
      by (simp add: and_then_Inr_iff)
    also have "\<dots> \<longleftrightarrow> callOk jc (tr_workspace r) (tr_session r) c \<and>
        checkCalls jc r cs (tk_invocation c # seen) (plusTally k [c]) = Inr k'"
      using True by (auto simp: checkCall_iff)
    finally show ?thesis unfolding Cons.IH plusTally_Cons using True by auto
  next
    case False
    then have "checkCalls jc r (c # cs) seen k \<noteq> Inr k'" by (auto simp: and_then_Inr_iff)
    moreover have "\<not> callOk jc (tr_workspace r) (tr_session r) c \<or> tk_invocation c \<in> set seen"
      using False by (auto simp: callOk_def)
    ultimately show ?thesis by auto
  qed
qed

text \<open>The outcomes of a batch that a phase admits.\<close>

definition countsFit :: "phase \<Rightarrow> tool_checkpoint list \<Rightarrow> bool" where
  "countsFit p cs \<longleftrightarrow> (case p of
      PhaseToolPending \<Rightarrow> tally OutcomeRequested cs \<noteq> 0 \<and> tally OutcomeAdmitted cs = 0 \<and> tally OutcomeUncertain cs = 0
    | PhaseWaitingExternalChild \<Rightarrow> length cs = 1 \<and> tally OutcomeAdmitted cs = 1
    | PhaseChildResolved \<Rightarrow> length cs = 1 \<and> tally OutcomeConfirmed cs = 1 \<and> tk_external (hd cs) \<noteq> None
    | PhasePrepared \<Rightarrow> False
    | PhaseProviderPending \<Rightarrow> tally OutcomeConfirmed cs = length cs
    | PhaseCompleted \<Rightarrow> tally OutcomeConfirmed cs = length cs
    | PhaseCompleting \<Rightarrow> tally OutcomeConfirmed cs = length cs
    | PhaseFailed \<Rightarrow> tally OutcomeRequested cs = 0 \<and> tally OutcomeUncertain cs = 0
    | PhaseFailing \<Rightarrow> tally OutcomeRequested cs = 0 \<and> tally OutcomeUncertain cs = 0
    | PhaseInterrupted \<Rightarrow> tally OutcomeRequested cs = 0
    | PhaseInterrupting \<Rightarrow> tally OutcomeRequested cs = 0
    | _ \<Rightarrow> True)"

lemma checkCounts_iff: "checkCounts r b (plusTally (0, 0, 0, 0) (tb_calls b)) = Inr () \<longleftrightarrow> countsFit (tr_phase r) (tb_calls b)"
  by (cases "tr_phase r") (auto simp: checkCounts_def plusTally_def countsFit_def guard_def)

definition batchFits :: "journal_codec \<Rightarrow> string \<Rightarrow> string \<Rightarrow> phase \<Rightarrow> tool_batch option \<Rightarrow> bool" where
  "batchFits jc w s p b \<longleftrightarrow> (case b of
      None \<Rightarrow> p \<notin> {PhaseToolPending, PhaseWaitingExternalChild, PhaseChildResolved}
    | Some b \<Rightarrow> tb_calls b \<noteq> [] \<and> length (tb_calls b) \<le> 1024 \<and> validateHistoryRef (tb_assistant b) w s = Inr () \<and>
        list_all (callOk jc w s) (tb_calls b) \<and> distinct (map tk_invocation (tb_calls b)) \<and> countsFit p (tb_calls b))"

lemma validateToolBatch_iff:
  "validateToolBatchForPhase jc r = Inr () \<longleftrightarrow> batchFits jc (tr_workspace r) (tr_session r) (tr_phase r) (tr_batch r)"
proof (cases "tr_batch r")
  case None
  then show ?thesis by (simp add: validateToolBatchForPhase_def batchFits_def)
next
  case (Some b)
  then show ?thesis
    by (auto simp: validateToolBatchForPhase_def batchFits_def and_then_Inr_iff checkCalls_iff checkCounts_iff)
qed

text \<open>The fields of a record that no update of a running turn changes.\<close>

definition headerOk :: "turn_record \<Rightarrow> bool" where
  "headerOk r \<longleftrightarrow> first_error (map validateIdentifier [tr_workspace r, tr_session r, tr_task r, tr_owner r]) = Inr () \<and>
     validateHistoryRef (tr_input r) (tr_workspace r) (tr_session r) = Inr ()"

lemma validateRecord_iff:
  "validateRecord jc r = Inr () \<longleftrightarrow>
     tr_schema r = Schema \<and> tr_schema_revision r = SchemaRevision \<and> tr_revision r \<noteq> 0 \<and> headerOk r \<and>
     validPhase (tr_phase r) \<and> (tr_last r = [] \<or> validateIdentifier (tr_last r) = Inr ()) \<and>
     tr_created r \<noteq> 0 \<and> tr_updated r \<noteq> 0 \<and> tr_created r \<le> tr_updated r \<and> validateTerminal r = Inr () \<and>
     batchFits jc (tr_workspace r) (tr_session r) (tr_phase r) (tr_batch r)"
  unfolding validateToolBatch_iff [symmetric] headerOk_def
  by (auto simp: validateRecord_def and_then_Inr_iff)


section \<open>Legal updates\<close>

text \<open>The record \<open>m\<close> is the current one with another phase, iteration, last message, batch or reason.\<close>

definition sameTurn :: "turn_record \<Rightarrow> turn_record \<Rightarrow> bool" where
  "sameTurn c m \<longleftrightarrow>
     m = c\<lparr>tr_phase := tr_phase m, tr_iteration := tr_iteration m, tr_last := tr_last m, tr_batch := tr_batch m,
           tr_reason := tr_reason m\<rparr>"

lemma sameTurn_fields:
  assumes "sameTurn c m"
  shows "tr_schema m = tr_schema c" "tr_schema_revision m = tr_schema_revision c" "tr_revision m = tr_revision c"
    "tr_workspace m = tr_workspace c" "tr_session m = tr_session c" "tr_task m = tr_task c" "tr_owner m = tr_owner c"
    "tr_input m = tr_input c" "tr_created m = tr_created c" "tr_updated m = tr_updated c" "headerOk m = headerOk c"
proof -
  let ?m = "c\<lparr>tr_phase := tr_phase m, tr_iteration := tr_iteration m, tr_last := tr_last m, tr_batch := tr_batch m,
           tr_reason := tr_reason m\<rparr>"
  have m: "m = ?m" using assms unfolding sameTurn_def .
  show "tr_schema m = tr_schema c" "tr_schema_revision m = tr_schema_revision c" "tr_revision m = tr_revision c"
    "tr_workspace m = tr_workspace c" "tr_session m = tr_session c" "tr_task m = tr_task c" "tr_owner m = tr_owner c"
    "tr_input m = tr_input c" "tr_created m = tr_created c" "tr_updated m = tr_updated c"
    by (subst m, simp)+
  then show "headerOk m = headerOk c" by (simp add: headerOk_def)
qed

definition needsReason :: "phase \<Rightarrow> bool" where
  "needsReason p \<longleftrightarrow> p \<in> {PhaseFailed, PhaseInterrupted, PhaseFailing, PhaseInterrupting}"

text \<open>An update that the journal accepts.\<close>

definition legalUpdate :: "journal_codec \<Rightarrow> turn_record \<Rightarrow> turn_record \<Rightarrow> bool" where
  "legalUpdate jc c m \<longleftrightarrow>
     sameTurn c m \<and> \<not> terminalPhase (tr_phase c) \<and> tr_iteration c \<le> tr_iteration m \<and>
     allowedPhaseTransition (tr_phase c) (tr_phase m) \<and> validPhase (tr_phase m) \<and>
     (tr_last m = [] \<or> validateIdentifier (tr_last m) = Inr ()) \<and>
     (needsReason (tr_phase m) \<longrightarrow> trim_space (tr_reason m) \<noteq> []) \<and>
     validateBatchChange jc c m = Inr () \<and>
     batchFits jc (tr_workspace c) (tr_session c) (tr_phase m) (tr_batch m)"

definition updateTime :: "time \<Rightarrow> turn_record \<Rightarrow> time" where
  "updateTime now c = (if now < tr_updated c then tr_updated c else now)"

lemma updatedRecord_fields [simp]:
  "tr_schema (updatedRecord now e c m) = Schema" "tr_schema_revision (updatedRecord now e c m) = SchemaRevision"
  "tr_created (updatedRecord now e c m) = tr_created c" "tr_updated (updatedRecord now e c m) = updateTime now c"
  "tr_iteration (updatedRecord now e c m) = tr_iteration m" "tr_input (updatedRecord now e c m) = tr_input m"
  "tr_last (updatedRecord now e c m) = tr_last m"
  by (simp_all add: updatedRecord_def updateTime_def Let_def)

lemma updatedRecord_completed:
  "tr_completed (updatedRecord now e c m) = (if terminalPhase (tr_phase m) then Some (updateTime now c) else None)"
  by (simp add: updatedRecord_def updateTime_def Let_def)

lemma updatedRecord_reason:
  "tr_reason (updatedRecord now e c m) =
     (if needsReason (tr_phase m) \<or> terminalPhase (tr_phase m) then tr_reason m else [])"
  by (auto simp: updatedRecord_def needsReason_def terminalPhase_def Let_def)

lemma legalUpdate_accepted:
  assumes c: "validateRecord jc c = Inr ()" "0 < tr_created c" and legal: "legalUpdate jc c m"
    and revision: "tr_revision c + 1 \<noteq> 0"
  shows "nextRecord jc now (tr_revision c) m c = Inr (updatedRecord now (tr_revision c) c m)"
proof -
  let ?n = "updatedRecord now (tr_revision c) c m"
  from legal have same: "sameTurn c m" by (simp add: legalUpdate_def)
  note f = sameTurn_fields [OF same]
  have times: "tr_created c \<le> updateTime now c" "updateTime now c \<noteq> 0" "tr_created c \<noteq> 0"
    using c by (auto simp: validateRecord_iff updateTime_def)
  have change: "validateBatchChange jc c ?n = validateBatchChange jc c m"
  proof -
    have "replacingConfirmed c b ?n b' = replacingConfirmed c b m b'" for b b'
      by (simp add: replacingConfirmed_def updatedRecord_simps)
    then show ?thesis
      by (cases "tr_batch c"; cases "tr_batch m") (simp_all add: validateBatchChange_def updatedRecord_simps)
  qed
  have header: "headerOk ?n = headerOk m" by (simp add: headerOk_def updatedRecord_simps)
  have terminal: "validateTerminal ?n = Inr ()"
    using legal times
    by (auto simp: validateTerminal_def updatedRecord_simps updatedRecord_completed updatedRecord_reason legalUpdate_def
        needsReason_def terminalPhase_def)
  have "validateTransition jc c ?n = Inr ()"
    using legal f c change
    by (simp add: validateTransition_def legalUpdate_def updatedRecord_simps validateRecord_iff linorder_not_less)
  moreover have "validateRecord jc ?n = Inr ()"
    using legal f c times revision header terminal unfolding validateRecord_iff
    by (simp add: updatedRecord_simps legalUpdate_def)
  ultimately show ?thesis by (simp add: nextRecord_def Let_def)
qed

section \<open>Executions in step with the journal\<close>

text \<open>
  The record in memory is valid, survives the JSON of the store as it is, and is the one on disk;
  its creation time is a real one.
\<close>

fun inStep :: "journal_codec \<Rightarrow> execution \<Rightarrow> bool" where
  "inStep jc (None, disk) = False"
| "inStep jc (Some r, disk) =
     (validateRecord jc r = Inr () \<and> storedRecord r = r \<and> encodable r \<and> 0 < tr_created r \<and>
      map_of disk (journalPath jc (tr_workspace r) (tr_task r)) = Some (JournalFile r))"

text \<open>What the journal may answer besides success: its surroundings failed, or the revisions are used up.\<close>

definition environmental :: "exec_error \<Rightarrow> bool" where
  "environmental e \<longleftrightarrow> e \<in> {UpdateFailed JournalContext, UpdateFailed JournalRead, UpdateFailed JournalWrite}"

text \<open>A call whose surroundings work.\<close>

definition healthy :: "store_call \<Rightarrow> bool" where
  "healthy sc \<longleftrightarrow> \<not> sc_done sc \<and> \<not> io_read_fails (sc_io sc) \<and> \<not> io_write_fails (sc_io sc) \<and> four_digit_year (sc_now sc)"

lemma encodable_updated:
  assumes "encodable c" "four_digit_year now"
  shows "encodable (updatedRecord now e c m)"
  using assms by (auto simp: encodable_def updateTime_def updatedRecord_completed)

text \<open>
  The update with the mutation: it went through and the execution is in step again, or nothing
  changed and the error is one of the surroundings.
\<close>

definition updated :: "journal_codec \<Rightarrow> store_call \<Rightarrow> turn_record \<Rightarrow> turn_record \<Rightarrow> journal_disk \<Rightarrow> execution \<Rightarrow> (exec_error, 'a) result \<Rightarrow> bool" where
  "updated jc sc r m disk st res \<longleftrightarrow> (case res of
      Inl e \<Rightarrow> \<not> healthy sc \<and> environmental e \<and> st = (Some r, disk)
    | Inr x \<Rightarrow> \<exists>now disk'. st = (Some (updatedRecord now (tr_revision r) r m), disk') \<and> inStep jc st)"

lemma storedRecord_updated:
  "storedRecord (updatedRecord now e c m) = updatedRecord now e c m \<longleftrightarrow> storedRecord m = m"
proof -
  have stored: "storedRecord x = x \<longleftrightarrow>
      map_option (\<lambda>b. b\<lparr>tb_calls := map storedCall (tb_calls b)\<rparr>) (tr_batch x) = tr_batch x" for x
    by (cases x) (simp add: storedRecord_def)
  show ?thesis unfolding stored updatedRecord_simps ..
qed

lemma updateExecution_legal:
  assumes st: "inStep jc (Some r, disk)" and legal: "legalUpdate jc r (mutate r)" and stored: "storedRecord (mutate r) = mutate r"
    and revision: "tr_revision r + 1 \<noteq> 0"
    and up: "updateExecution jc sc mutate (Some r, disk) = (st', res)"
  shows "updated jc sc r (mutate r) disk st' res"
proof -
  let ?n = "updatedRecord (sc_now sc) (tr_revision r) r (mutate r)"
  note f = sameTurn_fields [OF legal [unfolded legalUpdate_def, THEN conjunct1]]
  from st have r: "validateRecord jc r = Inr ()" "0 < tr_created r" "encodable r"
    and disk: "map_of disk (journalPath jc (tr_workspace r) (tr_task r)) = Some (JournalFile r)" by simp_all
  then have rev: "tr_revision r \<noteq> 0" by (simp add: validateRecord_iff)
  have load: "loadRecord jc (sc_io sc) (tr_workspace r) (tr_task r) disk =
      (if io_read_fails (sc_io sc) then Inl JournalRead else Inr r)"
    using r disk by (simp add: loadRecord_def decodeJournal_def)
  note nxt = legalUpdate_accepted [OF r(1,2) legal revision, of "sc_now sc"]
  have valid: "validateRecord jc ?n = Inr ()" using nextRecord_facts(5) [OF nxt] .
  show ?thesis
  proof (cases "sc_done sc \<or> io_read_fails (sc_io sc) \<or> io_write_fails (sc_io sc) \<or> \<not> encodable ?n")
    case True
    then have "\<not> healthy sc" using encodable_updated [OF r(3)] by (auto simp: healthy_def)
    with True up f rev load nxt show ?thesis
      by (auto simp: updateExecution_def fileUpdate_def persistRecord_def updated_def environmental_def split: if_splits)
  next
    case False
    let ?d = "AList.update (journalPath jc (tr_workspace r) (tr_task r)) (JournalFile (storedRecord ?n)) disk"
    from False up f rev load nxt have "st' = (Some ?n, ?d)" "\<not> failed res"
      by (auto simp: updateExecution_def fileUpdate_def persistRecord_def updatedRecord_simps)
    moreover from this have "inStep jc st'"
      using valid r(2) f stored False by (simp add: storedRecord_updated updatedRecord_simps update_conv)
    ultimately show ?thesis by (cases res) (auto simp: updated_def)
  qed
qed

end
