(* ===== verification/ExecutionProofs.thy ===== *)
theory ExecutionProofs
  imports ExecutionSteps
begin

text \<open>
  The operations of a running turn: each is a legal update of the journal in the phases in which
  the runner uses it.
\<close>

section \<open>Phases of a running turn\<close>

definition settledPhase :: "phase \<Rightarrow> bool" where
  "settledPhase p \<longleftrightarrow> p \<in> {PhasePrepared, PhaseProviderPending, PhaseChildResolved}"

definition busyPhase :: "phase \<Rightarrow> bool" where
  "busyPhase p \<longleftrightarrow> p = PhaseToolPending \<or> p = PhaseWaitingExternalChild"

definition runningPhase :: "phase \<Rightarrow> bool" where
  "runningPhase p \<longleftrightarrow> settledPhase p \<or> busyPhase p"

lemma running_facts:
  assumes "runningPhase p"
  shows "\<not> terminalPhase p" "validPhase p" "\<not> needsReason p" "\<not> pendingTerminal p"
  using assms
  by (auto simp: runningPhase_def settledPhase_def busyPhase_def terminalPhase_def validPhase_def needsReason_def
      pendingTerminal_def)

text \<open>The calls that wait for their result.\<close>

definition openIn :: "tool_checkpoint list \<Rightarrow> string list" where
  "openIn cs = map tk_invocation (filter (\<lambda>c. tk_outcome c \<noteq> OutcomeConfirmed) cs)"

definition openCalls :: "turn_record \<Rightarrow> string list" where
  "openCalls r = (case tr_batch r of None \<Rightarrow> [] | Some b \<Rightarrow> openIn (tb_calls b))"

lemma openIn_Nil: "openIn cs = [] \<longleftrightarrow> tally OutcomeConfirmed cs = length cs"
  by (auto simp: openIn_def tally_all filter_empty_conv)

lemma valid_fits: "validateRecord jc r = Inr () \<Longrightarrow> batchFits jc (tr_workspace r) (tr_session r) (tr_phase r) (tr_batch r)"
  by (simp add: validateRecord_iff)

lemma valid_batch:
  assumes "validateRecord jc r = Inr ()" "tr_batch r = Some b"
  shows "tb_calls b \<noteq> []" "length (tb_calls b) \<le> 1024"
    "validateHistoryRef (tb_assistant b) (tr_workspace r) (tr_session r) = Inr ()"
    "list_all (callOk jc (tr_workspace r) (tr_session r)) (tb_calls b)" "distinct (map tk_invocation (tb_calls b))"
    "countsFit (tr_phase r) (tb_calls b)"
  using valid_fits [OF assms(1)] assms(2) by (simp_all add: batchFits_def)

lemma settled_open:
  assumes "validateRecord jc r = Inr ()" "settledPhase (tr_phase r)"
  shows "openCalls r = []" "tr_phase r = PhasePrepared \<Longrightarrow> tr_batch r = None"
proof -
  show "openCalls r = []"
  proof (cases "tr_batch r")
    case (Some b)
    with assms valid_batch [OF assms(1) Some] show ?thesis
      by (cases "tr_phase r") (auto simp: openCalls_def openIn_Nil countsFit_def settledPhase_def)
  qed (simp add: openCalls_def)
  show "tr_batch r = None" if "tr_phase r = PhasePrepared"
    using that valid_fits [OF assms(1)] by (auto simp: batchFits_def countsFit_def split: option.splits)
qed

lemma settled_all:
  assumes "validateRecord jc r = Inr ()" "settledPhase (tr_phase r)" "tr_batch r = Some b"
  shows "toolBatchAll b OutcomeConfirmed"
  using settled_open(1) [OF assms(1,2)] valid_batch(1) [OF assms(1,3)] assms(3)
  by (simp add: openCalls_def openIn_Nil tally_all toolBatchAll_def list_all_iff)

section \<open>Batches that stay\<close>

lemma sameExternalChild_refl: "validateExternalChildRef jc x = Inr () \<Longrightarrow> sameExternalChild jc x x"
  by (auto simp: sameExternalChild_def equalJSON_def validateExternalChildRef_def and_then_Inr_iff split: if_splits option.splits)

text \<open>A call that stays as it is, or whose outcome advances.\<close>

lemma checkCallChange_step:
  assumes "callOk jc w s c" "allowedToolOutcomeTransition (tk_outcome c) (tk_outcome d)"
    "tk_external c = None \<or> tk_external d = tk_external c" "tk_result c = None \<or> tk_result d = tk_result c"
  shows "checkCallChange jc c d"
proof -
  have "validateExternalChildRef jc x = Inr ()" if "tk_external c = Some x" for x
    using that assms(1) by (simp add: callOk_def)
  then show ?thesis using assms(2-4)
    by (cases "tk_external c"; cases "tk_result c") (auto simp: checkCallChange_def sameExternalChild_refl)
qed

lemma checkCallChange_refl: "callOk jc w s c \<Longrightarrow> checkCallChange jc c c"
  by (rule checkCallChange_step) (simp_all add: allowedToolOutcomeTransition_def)

text \<open>The same batch with advanced calls.\<close>

lemma batchChange_advances:
  assumes "tr_batch r = Some b" "tr_batch m = Some (b\<lparr>tb_calls := cs\<rparr>)"
    and "list_all2 (\<lambda>c d. checkCallChange jc c d \<and> tk_invocation c = tk_invocation d \<and> tk_name c = tk_name d \<and> tk_args c = tk_args d)
      (tb_calls b) cs"
  shows "validateBatchChange jc r m = Inr ()"
proof -
  have "list_all2 (\<lambda>c d. tk_invocation c = tk_invocation d \<and> tk_name c = tk_name d \<and> tk_args c = tk_args d) (tb_calls b) cs"
    "list_all2 (checkCallChange jc) (tb_calls b) cs"
    using assms(3) by (auto elim: list_all2_mono)
  then show ?thesis using assms(1,2)
    by (simp add: validateBatchChange_def sameToolBatchIdentity_def list_all2_lengthD)
qed

lemma batchChange_same:
  assumes "validateRecord jc r = Inr ()" "tr_batch m = tr_batch r"
  shows "validateBatchChange jc r m = Inr ()"
proof (cases "tr_batch r")
  case (Some b)
  have "list_all2 (\<lambda>c d. checkCallChange jc c d \<and> tk_invocation c = tk_invocation d \<and> tk_name c = tk_name d \<and> tk_args c = tk_args d)
      (tb_calls b) (tb_calls b)"
    using valid_batch(4) [OF assms(1) Some] by (auto simp: list_all2_same list_all_iff intro: checkCallChange_refl)
  with Some assms(2) show ?thesis by (intro batchChange_advances [OF Some]) simp_all
qed (simp add: validateBatchChange_def)

section \<open>The model call\<close>

definition askedModel :: "nat \<Rightarrow> turn_record \<Rightarrow> turn_record" where
  "askedModel n r = r\<lparr>tr_phase := PhaseProviderPending, tr_iteration := of_nat n\<rparr>"

lemma sameTurn_updates [simp]:
  "sameTurn r (r\<lparr>tr_phase := p, tr_iteration := i\<rparr>)" "sameTurn r (r\<lparr>tr_iteration := i, tr_last := l\<rparr>)"
  "sameTurn r (r\<lparr>tr_phase := p, tr_iteration := i, tr_batch := b\<rparr>)"
  "sameTurn r (r\<lparr>tr_phase := p, tr_iteration := i, tr_last := l, tr_batch := b\<rparr>)"
  "sameTurn r (r\<lparr>tr_phase := p, tr_batch := b\<rparr>)" "sameTurn r (r\<lparr>tr_phase := p, tr_reason := t\<rparr>)"
  "sameTurn r (r\<lparr>tr_phase := p, tr_reason := t, tr_batch := b\<rparr>)"
  by (simp_all add: sameTurn_def)

lemma valid_last: "validateRecord jc r = Inr () \<Longrightarrow> tr_last r = [] \<or> validateIdentifier (tr_last r) = Inr ()"
  by (simp add: validateRecord_iff)

lemma legal_provider:
  assumes r: "validateRecord jc r = Inr ()" and p: "settledPhase (tr_phase r)" and n: "tr_iteration r \<le> of_nat n"
  shows "legalUpdate jc r (askedModel n r)"
proof -
  have "batchFits jc (tr_workspace r) (tr_session r) PhaseProviderPending (tr_batch r)"
  proof (cases "tr_batch r")
    case (Some b)
    from settled_open(1) [OF r p] Some valid_batch [OF r Some] show ?thesis
      by (simp add: batchFits_def countsFit_def openCalls_def openIn_Nil)
  qed (simp add: batchFits_def)
  moreover have "validateBatchChange jc r (askedModel n r) = Inr ()"
    by (rule batchChange_same [OF r]) (simp add: askedModel_def)
  moreover have "\<not> terminalPhase (tr_phase r)" "allowedPhaseTransition (tr_phase r) PhaseProviderPending"
    using p by (auto simp: settledPhase_def terminalPhase_def allowedPhaseTransition_def)
  ultimately show ?thesis using n valid_last [OF r]
    by (simp add: legalUpdate_def askedModel_def validPhase_def needsReason_def)
qed

lemma legal_assistant:
  assumes r: "validateRecord jc r = Inr ()" and p: "runningPhase (tr_phase r)" and n: "tr_iteration r \<le> of_nat n"
    and l: "validateIdentifier l = Inr ()"
  shows "legalUpdate jc r (r\<lparr>tr_iteration := of_nat n, tr_last := l\<rparr>)"
proof -
  have "validateBatchChange jc r (r\<lparr>tr_iteration := of_nat n, tr_last := l\<rparr>) = Inr ()"
    by (rule batchChange_same [OF r]) simp
  with n l running_facts [OF p] valid_fits [OF r] show ?thesis
    by (simp add: legalUpdate_def allowedPhaseTransition_def)
qed

section \<open>A new batch\<close>

definition callAdmissible :: "message_codec \<Rightarrow> tool_call \<Rightarrow> bool" where
  "callAdmissible mc c \<longleftrightarrow> validateIdentifier (tc_id c) = Inr () \<and> validateIdentifier (tc_name c) = Inr () \<and>
     validDigest (mc_sha mc (tc_args c))"

definition batchAdmissible :: "message_codec \<Rightarrow> tool_call list \<Rightarrow> bool" where
  "batchAdmissible mc calls \<longleftrightarrow> calls \<noteq> [] \<and> length calls \<le> 1024 \<and> list_all (callAdmissible mc) calls \<and>
     distinct (map tc_id calls)"

lemma requested_simps [simp]:
  "tk_outcome (requestedCheckpoint mc c) = OutcomeRequested" "tk_external (requestedCheckpoint mc c) = None"
  "tk_invocation (requestedCheckpoint mc c) = tc_id c"
  by (simp_all add: requestedCheckpoint_def)

lemma requested_ok: "callAdmissible mc c \<Longrightarrow> callOk jc w s (requestedCheckpoint mc c)"
  by (simp add: callAdmissible_def callOk_def requestedCheckpoint_def)

lemma tally_requested: "tally oc (map (requestedCheckpoint mc) calls) = (if oc = OutcomeRequested then length calls else 0)"
  by (induction calls) auto

lemma openIn_requested: "openIn (map (requestedCheckpoint mc) calls) = map tc_id calls"
  by (induction calls) (simp_all add: openIn_def)

lemma legal_tools:
  assumes r: "validateRecord jc r = Inr ()" and p: "tr_phase r = PhaseProviderPending" and n: "tr_iteration r \<le> of_nat n"
    and calls: "batchAdmissible mc calls" and a: "validateHistoryRef a (tr_workspace r) (tr_session r) = Inr ()"
  shows "legalUpdate jc r (withBatch mc calls a n r)"
proof -
  have "batchFits jc (tr_workspace r) (tr_session r) PhaseToolPending
      (Some \<lparr>tb_assistant = a, tb_calls = map (requestedCheckpoint mc) calls\<rparr>)"
    using calls a by (auto simp: batchFits_def batchAdmissible_def countsFit_def tally_requested list_all_iff comp_def
        intro: requested_ok)
  moreover have "validateBatchChange jc r (withBatch mc calls a n r) = Inr ()"
  proof (cases "tr_batch r")
    case (Some b)
    have "settledPhase (tr_phase r)" using p by (simp add: settledPhase_def)
    from settled_all [OF r this Some] calls p have "replacingConfirmed r b (withBatch mc calls a n r)
        \<lparr>tb_assistant = a, tb_calls = map (requestedCheckpoint mc) calls\<rparr>"
      by (simp add: replacingConfirmed_def withBatch_def toolBatchAll_def batchAdmissible_def list_all_iff)
    with Some show ?thesis by (simp add: validateBatchChange_def withBatch_def)
  qed (simp add: validateBatchChange_def)
  ultimately show ?thesis using n p valid_last [OF r]
    by (simp add: legalUpdate_def withBatch_def terminalPhase_def allowedPhaseTransition_def validPhase_def needsReason_def)
qed

end
