(* ===== verification/ExecutionCalls.thy ===== *)
theory ExecutionCalls
  imports ExecutionProofs
begin

text \<open>
  The updates that record a result, an admitted child and the end of a turn: each is a legal
  update of the journal from the phases in which the runner makes it.
\<close>

section \<open>A result\<close>

lemma callIndex_Some: "callIndex c cs = Some k \<Longrightarrow> k < length cs \<and> tk_invocation (cs ! k) = c"
proof (induction cs arbitrary: k)
  case (Cons x cs)
  then show ?case by (cases "tk_invocation x = c"; cases "callIndex c cs") auto
qed simp

lemma callIndex_None: "callIndex c cs = None \<longleftrightarrow> c \<notin> set (map tk_invocation cs)"
  by (induction cs) auto

lemma openIn_confirm:
  assumes "distinct (map tk_invocation cs)" "k < length cs" "tk_outcome d = OutcomeConfirmed"
  shows "openIn (cs[k := d]) = filter (\<lambda>x. x \<noteq> tk_invocation (cs ! k)) (openIn cs)"
  using assms
proof (induction cs arbitrary: k)
  case (Cons x cs)
  show ?case
  proof (cases k)
    case 0
    have "tk_invocation x \<notin> set (map tk_invocation cs)" using Cons.prems by simp
    then have "filter (\<lambda>y. y \<noteq> tk_invocation x) (openIn cs) = openIn cs"
      by (auto simp: openIn_def filter_id_conv image_iff)
    with 0 Cons.prems(3) show ?thesis by (simp add: openIn_def)
  next
    case (Suc j)
    with Cons.prems have "tk_invocation x \<notin> set (map tk_invocation cs)" "cs ! j \<in> set cs" by simp_all
    then have "tk_invocation x \<noteq> tk_invocation (cs ! j)" by auto
    with Suc Cons show ?thesis by (simp add: openIn_def)
  qed
qed simp

lemma all_except:
  assumes "k < length cs" "tk_outcome d = OutcomeConfirmed"
  shows "list_all (\<lambda>i. i = k \<or> tk_outcome (cs ! i) = OutcomeConfirmed) [0..<length cs] \<longleftrightarrow> openIn (cs[k := d]) = []"
proof -
  have "openIn (cs[k := d]) = [] \<longleftrightarrow> (\<forall>i<length cs. tk_outcome (cs[k := d] ! i) = OutcomeConfirmed)"
    using tally_all [of OutcomeConfirmed "cs[k := d]"] by (simp add: openIn_Nil all_set_conv_all_nth)
  also have "\<dots> \<longleftrightarrow> (\<forall>i<length cs. i = k \<or> tk_outcome (cs ! i) = OutcomeConfirmed)"
    using assms by (auto simp: nth_list_update)
  finally show ?thesis by (auto simp: list_all_iff)
qed

text \<open>Replacing one call of a batch.\<close>

lemma batchChange_update:
  assumes r: "validateRecord jc r = Inr ()" and b: "tr_batch r = Some b" and k: "k < length (tb_calls b)"
    and m: "tr_batch m = Some (b\<lparr>tb_calls := (tb_calls b)[k := d]\<rparr>)"
    and d: "checkCallChange jc (tb_calls b ! k) d" "tk_invocation d = tk_invocation (tb_calls b ! k)"
      "tk_name d = tk_name (tb_calls b ! k)" "tk_args d = tk_args (tb_calls b ! k)"
  shows "validateBatchChange jc r m = Inr ()"
proof (rule batchChange_advances [OF b m])
  show "list_all2 (\<lambda>c d. checkCallChange jc c d \<and> tk_invocation c = tk_invocation d \<and> tk_name c = tk_name d \<and> tk_args c = tk_args d)
      (tb_calls b) ((tb_calls b)[k := d])"
    unfolding list_all2_conv_all_nth
    using k d valid_batch(4) [OF r b] by (auto simp: nth_list_update list_all_length intro: checkCallChange_refl)
qed

lemma invocations_update:
  "k < length cs \<Longrightarrow> tk_invocation d = tk_invocation (cs ! k) \<Longrightarrow> map tk_invocation (cs[k := d]) = map tk_invocation cs"
  by (metis list_update_id map_update nth_map)

lemma batchFits_update:
  assumes r: "validateRecord jc r = Inr ()" and b: "tr_batch r = Some b" and k: "k < length (tb_calls b)"
    and d: "callOk jc (tr_workspace r) (tr_session r) d" "tk_invocation d = tk_invocation (tb_calls b ! k)"
    and p: "countsFit p ((tb_calls b)[k := d])"
  shows "batchFits jc (tr_workspace r) (tr_session r) p (Some (b\<lparr>tb_calls := (tb_calls b)[k := d]\<rparr>))"
proof -
  note v = valid_batch [OF r b]
  have "list_all (callOk jc (tr_workspace r) (tr_session r)) ((tb_calls b)[k := d])"
    using v(4) d(1) k by (auto simp: list_all_length nth_list_update)
  with v d k p show ?thesis by (simp add: batchFits_def invocations_update)
qed

definition confirmedCall :: "history_ref \<Rightarrow> tool_checkpoint \<Rightarrow> tool_checkpoint" where
  "confirmedCall res c = c\<lparr>tk_outcome := OutcomeConfirmed, tk_result := Some res\<rparr>"

lemma confirmedCall_simps [simp]:
  "tk_outcome (confirmedCall res c) = OutcomeConfirmed" "tk_result (confirmedCall res c) = Some res"
  "tk_invocation (confirmedCall res c) = tk_invocation c" "tk_name (confirmedCall res c) = tk_name c"
  "tk_args (confirmedCall res c) = tk_args c" "tk_external (confirmedCall res c) = tk_external c"
  by (simp_all add: confirmedCall_def)

text \<open>The call that a result is for: open in a busy phase.\<close>

lemma open_call:
  assumes r: "validateRecord jc r = Inr ()" and b: "tr_batch r = Some b" and k: "k < length (tb_calls b)"
    and p: "busyPhase (tr_phase r)" and out: "tk_outcome (tb_calls b ! k) \<noteq> OutcomeConfirmed"
  shows "tr_phase r = PhaseToolPending \<Longrightarrow> tk_outcome (tb_calls b ! k) = OutcomeRequested \<and> tk_external (tb_calls b ! k) = None"
    and "tr_phase r = PhaseWaitingExternalChild \<Longrightarrow>
      k = 0 \<and> length (tb_calls b) = 1 \<and> tk_outcome (tb_calls b ! k) = OutcomeAdmitted \<and> tk_external (tb_calls b ! k) \<noteq> None"
    and "tk_result (tb_calls b ! k) = None"
proof -
  note v = valid_batch [OF r b]
  let ?c = "tb_calls b ! k"
  from v(4) k have ok: "callOk jc (tr_workspace r) (tr_session r) ?c" by (simp add: list_all_length)
  have c: "?c \<in> set (tb_calls b)" using k by simp
  show 1: "tk_outcome ?c = OutcomeRequested \<and> tk_external ?c = None" if "tr_phase r = PhaseToolPending"
    using v(6) that out c ok by (cases "tk_outcome ?c") (auto simp: countsFit_def tally_0 callOk_def)
  show 2: "k = 0 \<and> length (tb_calls b) = 1 \<and> tk_outcome ?c = OutcomeAdmitted \<and> tk_external ?c \<noteq> None"
    if "tr_phase r = PhaseWaitingExternalChild"
  proof -
    have "length (tb_calls b) = 1" "tally OutcomeAdmitted (tb_calls b) = length (tb_calls b)"
      using v(6) that by (simp_all add: countsFit_def)
    with tally_all [of OutcomeAdmitted "tb_calls b"] c have "tk_outcome ?c = OutcomeAdmitted" by simp
    with k ok \<open>length (tb_calls b) = 1\<close> show ?thesis by (simp add: callOk_def)
  qed
  from p 1 2 ok show "tk_result ?c = None" by (auto simp: busyPhase_def callOk_def)
qed

lemma legal_confirm:
  assumes r: "validateRecord jc r = Inr ()" and b: "tr_batch r = Some b" and k: "k < length (tb_calls b)"
    and p: "busyPhase (tr_phase r)" and out: "tk_outcome (tb_calls b ! k) \<noteq> OutcomeConfirmed"
    and n: "tr_iteration r \<le> of_nat n" and res: "validateHistoryRef res (tr_workspace r) (tr_session r) = Inr ()"
  shows "legalUpdate jc r (confirmCall k res n r)"
    and "openCalls (confirmCall k res n r) = filter (\<lambda>x. x \<noteq> tk_invocation (tb_calls b ! k)) (openCalls r)"
    and "tr_phase (confirmCall k res n r) = (if tr_phase r = PhaseWaitingExternalChild then PhaseChildResolved
      else if openCalls (confirmCall k res n r) = [] then PhaseProviderPending else PhaseToolPending)"
proof -
  note v = valid_batch [OF r b]
  note oc = open_call [OF r b k p out]
  let ?c = "tb_calls b ! k" and ?d = "confirmedCall res (tb_calls b ! k)" and ?m = "confirmCall k res n r"
  let ?cs = "(tb_calls b)[k := ?d]"
  have m: "?m = r\<lparr>tr_phase := confirmedPhase r k, tr_iteration := of_nat n, tr_last := hr_message res,
      tr_batch := Some (b\<lparr>tb_calls := ?cs\<rparr>)\<rparr>"
    using b by (simp add: confirmCall_def updateCall_def confirmedCall_def)
  have still: "openCalls ?m = openIn ?cs" by (simp add: m openCalls_def)
  show opens: "openCalls ?m = filter (\<lambda>x. x \<noteq> tk_invocation ?c) (openCalls r)"
    unfolding still using openIn_confirm [OF v(5) k, of ?d] b by (simp add: openCalls_def)
  have phase: "confirmedPhase r k = (if tr_phase r = PhaseWaitingExternalChild then PhaseChildResolved
      else if openIn ?cs = [] then PhaseProviderPending else PhaseToolPending)"
    using b k p oc(1,2) all_except [OF k, of ?d] unfolding confirmedPhase_def journalBatchConfirmedExcept_def busyPhase_def
    by auto
  then show "tr_phase ?m = (if tr_phase r = PhaseWaitingExternalChild then PhaseChildResolved
      else if openCalls ?m = [] then PhaseProviderPending else PhaseToolPending)"
    by (simp add: still) (simp add: m)
  have ok: "callOk jc (tr_workspace r) (tr_session r) ?d"
    using v(4) k res by (auto simp: callOk_def list_all_length)
  have change: "validateBatchChange jc r ?m = Inr ()"
  proof (rule batchChange_update [OF r b k])
    show "tr_batch ?m = Some (b\<lparr>tb_calls := ?cs\<rparr>)" by (simp add: m)
    show "checkCallChange jc ?c ?d"
      by (rule checkCallChange_step [of jc "tr_workspace r" "tr_session r"])
        (use v(4) k p oc in \<open>auto simp: list_all_length allowedToolOutcomeTransition_def busyPhase_def\<close>)
  qed simp_all
  have "countsFit (confirmedPhase r k) ?cs"
  proof (cases "tr_phase r = PhaseWaitingExternalChild")
    case True
    with oc(2) have one: "length ?cs = 1" "k = 0" "tk_external ?c \<noteq> None" by auto
    then obtain x where "tb_calls b = [x]" by (auto simp: length_Suc_conv)
    with one True phase show ?thesis by (simp add: countsFit_def)
  next
    case False
    with p have tp: "tr_phase r = PhaseToolPending" by (simp add: busyPhase_def)
    have each: "tk_outcome x = OutcomeConfirmed \<or> tk_outcome x = OutcomeRequested" if "x \<in> set ?cs" for x
    proof -
      from that k have "x = ?d \<or> x \<in> set (tb_calls b)" by (auto dest: set_update_subset_insert [THEN subsetD])
      moreover have "callOk jc (tr_workspace r) (tr_session r) x" if "x \<in> set (tb_calls b)" using v(4) that by (simp add: list_all_iff)
      ultimately show ?thesis using v(6) tp
        by (cases "tk_outcome x") (auto simp: countsFit_def tally_0 callOk_def)
    qed
    show ?thesis
    proof (cases "openIn ?cs = []")
      case True
      with False phase show ?thesis by (simp add: countsFit_def openIn_Nil)
    next
      case nonempty: False
      then obtain x where "x \<in> set ?cs" "tk_outcome x \<noteq> OutcomeConfirmed"
        by (auto simp: openIn_Nil tally_all [of _ "?cs"] simp del: length_list_update)
      with each have "tally OutcomeRequested ?cs \<noteq> 0" "tally OutcomeAdmitted ?cs = 0" "tally OutcomeUncertain ?cs = 0"
        unfolding tally_0 by fastforce+
      with False nonempty phase show ?thesis by (simp add: countsFit_def)
    qed
  qed
  then have fits: "batchFits jc (tr_workspace r) (tr_session r) (confirmedPhase r k) (Some (b\<lparr>tb_calls := ?cs\<rparr>))"
    by (intro batchFits_update [OF r b k ok]) simp_all
  have run: "runningPhase (tr_phase r)" using p by (simp add: runningPhase_def)
  have step: "allowedPhaseTransition (tr_phase r) (confirmedPhase r k)" "validPhase (confirmedPhase r k)" "\<not> needsReason (confirmedPhase r k)"
    using p phase by (auto simp: busyPhase_def allowedPhaseTransition_def validPhase_def needsReason_def)
  show "legalUpdate jc r ?m"
    unfolding legalUpdate_def using change fits step n running_facts(1) [OF run] res
    by (simp add: m validateHistoryRef_def and_then_Inr_iff split: if_splits)
qed


section \<open>An admitted child\<close>

definition admittedCall :: "external_ref \<Rightarrow> tool_checkpoint \<Rightarrow> tool_checkpoint" where
  "admittedCall x c = c\<lparr>tk_outcome := OutcomeAdmitted, tk_external := Some x\<rparr>"

lemma admittedCall_simps [simp]:
  "tk_outcome (admittedCall x c) = OutcomeAdmitted" "tk_result (admittedCall x c) = tk_result c"
  "tk_invocation (admittedCall x c) = tk_invocation c" "tk_name (admittedCall x c) = tk_name c"
  "tk_args (admittedCall x c) = tk_args c" "tk_external (admittedCall x c) = Some x"
  by (simp_all add: admittedCall_def)

definition admitChild :: "external_ref \<Rightarrow> turn_record \<Rightarrow> turn_record" where
  "admitChild x r = updateCall 0 (admittedCall x) (r\<lparr>tr_phase := PhaseWaitingExternalChild\<rparr>)"

lemma awaitsAdmission_iff:
  "awaitsAdmission r i \<longleftrightarrow> tr_phase r = PhaseToolPending \<and>
     (\<exists>b c. tr_batch r = Some b \<and> tb_calls b = [c] \<and> tk_outcome c = OutcomeRequested \<and> tk_invocation c = i)"
proof (cases "tr_batch r")
  case None
  then show ?thesis by (simp add: awaitsAdmission_def singleJournalTool_def)
next
  case (Some b)
  then show ?thesis
    by (auto simp: awaitsAdmission_def singleJournalTool_def split: list.splits option.splits)
qed

lemma legal_admit:
  assumes r: "validateRecord jc r = Inr ()" and aw: "awaitsAdmission r i" and x: "validateExternalChildRef jc x = Inr ()"
  shows "legalUpdate jc r (admitChild x r)" "openCalls (admitChild x r) = [i]" "openCalls r = [i]"
    "tr_phase (admitChild x r) = PhaseWaitingExternalChild"
proof -
  from aw obtain b c where b: "tr_batch r = Some b" and c: "tb_calls b = [c]" "tk_outcome c = OutcomeRequested" "tk_invocation c = i"
    and p: "tr_phase r = PhaseToolPending" unfolding awaitsAdmission_iff by blast
  note v = valid_batch [OF r b]
  have m: "admitChild x r = r\<lparr>tr_phase := PhaseWaitingExternalChild, tr_batch := Some (b\<lparr>tb_calls := [admittedCall x c]\<rparr>)\<rparr>"
    using b c by (simp add: admitChild_def updateCall_def)
  show "openCalls (admitChild x r) = [i]" "openCalls r = [i]" "tr_phase (admitChild x r) = PhaseWaitingExternalChild"
    using b c by (simp_all add: m) (simp_all add: openCalls_def openIn_def)
  have ok: "callOk jc (tr_workspace r) (tr_session r) c" using v(4) c by simp
  with c have none: "tk_external c = None" "tk_result c = None" by (simp_all add: callOk_def)
  have "callOk jc (tr_workspace r) (tr_session r) (admittedCall x c)" using ok none x by (simp add: callOk_def)
  then have fits: "batchFits jc (tr_workspace r) (tr_session r) PhaseWaitingExternalChild (Some (b\<lparr>tb_calls := [admittedCall x c]\<rparr>))"
    using v(3) by (simp add: batchFits_def countsFit_def)
  have change: "validateBatchChange jc r (admitChild x r) = Inr ()"
  proof (rule batchChange_advances [OF b])
    show "tr_batch (admitChild x r) = Some (b\<lparr>tb_calls := [admittedCall x c]\<rparr>)" by (simp add: m)
    have "checkCallChange jc c (admittedCall x c)"
      by (rule checkCallChange_step [OF ok]) (use c none in \<open>simp_all add: allowedToolOutcomeTransition_def\<close>)
    then show "list_all2 (\<lambda>c d. checkCallChange jc c d \<and> tk_invocation c = tk_invocation d \<and> tk_name c = tk_name d \<and> tk_args c = tk_args d)
      (tb_calls b) [admittedCall x c]" by (simp add: c)
  qed
  have same: "sameTurn r (admitChild x r)" by (simp add: m)
  show "legalUpdate jc r (admitChild x r)"
    using same change fits p valid_last [OF r]
    by (simp add: legalUpdate_def m terminalPhase_def allowedPhaseTransition_def validPhase_def needsReason_def)
qed

section \<open>Reasons\<close>

lemma strip_front_Nil: "strip_front encs s = [] \<Longrightarrow> \<exists>es. set es \<subseteq> set encs \<and> [] \<notin> set es \<and> s = concat es"
proof (induction encs s rule: strip_front.induct)
  case (1 encs s)
  show ?case
  proof (cases "front_code encs s")
    case None
    with "1.prems" show ?thesis by (intro exI [of _ "[]"]) (simp add: strip_front.simps [of encs s])
  next
    case (Some e)
    with "1.prems" have "strip_front encs (drop (length e) s) = []" by (simp add: strip_front.simps [of encs s])
    from "1.IH" [OF Some this] obtain es where es: "set es \<subseteq> set encs" "[] \<notin> set es" "drop (length e) s = concat es" by blast
    from front_code_SomeD [OF Some] have e: "e \<noteq> []" "e \<in> set encs" "s = e @ drop (length e) s"
      by (auto elim!: prefixE)
    with es show ?thesis by (intro exI [of _ "e # es"]) auto
  qed
qed

lemma strip_back_Nil: "strip_back encs s = [] \<Longrightarrow> front_code encs s = None \<Longrightarrow> s = []"
proof -
  assume "strip_back encs s = []" and clean: "front_code encs s = None"
  then obtain es where es: "set es \<subseteq> rev ` set encs" "[] \<notin> set es" "rev s = concat es"
    using strip_front_Nil [of "map rev encs" "rev s"] by (auto simp: strip_back_def)
  then have s: "s = concat (rev (map rev es))" by (metis rev_concat rev_map rev_rev_ident)
  show "s = []"
  proof (cases "rev (map rev es)")
    case (Cons e fs)
    then have "e \<in> set (rev (map rev es))" by simp
    with es(1,2) have "e \<in> set encs" "e \<noteq> []" by auto
    moreover have "prefix e s" using s Cons by simp
    ultimately show ?thesis using clean by (auto simp: front_code_None_iff)
  qed (simp add: s)
qed

lemma trim_space_front: "front_code space_encodings (trim_space s) = None"
  unfolding trim_space_def using front_code_None_prefix [OF strip_back_prefix strip_front_clean] .

lemma runeWidth_pos: "0 < runeWidth c cs"
  by (simp add: runeWidth_def Let_def)

lemma runeText_Cons: "runeText c cs \<noteq> []"
  using runeWidth_pos [of c cs] by (simp add: runeText_def)

lemma takeRunes_Nil: "takeRunes (Suc n) s = [] \<longleftrightarrow> s = []"
  by (cases s) (simp_all add: runeText_Cons)

text \<open>The first rune of a text: the replacement character, or bytes of it as its first byte says.\<close>

lemma runeText_cases:
  obtains "runeText c cs = [CHR 0xEF, CHR 0xBF, CHR 0xBD]"
  | "of_char c < (128 :: nat)" "runeText c cs = [c]"
  | "runeText c cs = take (runeWidth c cs) (c # cs)" "2 \<le> runeWidth c cs"
proof (cases "runeWidth c cs = 1")
  case True
  then show ?thesis using that(1,2) by (cases "128 \<le> (of_char c :: nat)") (simp_all add: runeText_def)
next
  case False
  with runeWidth_pos [of c cs] have "2 \<le> runeWidth c cs" by simp
  then show ?thesis by (intro that(3)) (simp_all add: runeText_def)
qed

lemma runeWidth_le: "runeWidth c cs \<le> length (c # cs)"
proof -
  have "inRange lo hi cs i \<Longrightarrow> Suc i \<le> length cs" for lo hi i by (simp add: inRange_def)
  then show ?thesis unfolding runeWidth_def Let_def by fastforce
qed

lemma runeWidth_C2: "2 \<le> runeWidth (CHR 0xC2) cs \<Longrightarrow> runeWidth (CHR 0xC2) cs = 2"
  by (simp add: runeWidth_def Let_def split: if_splits)

lemma runeWidth_E: "c \<in> {CHR 0xE1, CHR 0xE2, CHR 0xE3} \<Longrightarrow> 2 \<le> runeWidth c cs \<Longrightarrow> runeWidth c cs = 3"
  by (auto simp: runeWidth_def Let_def split: if_splits)

definition spaceFirst :: "string \<Rightarrow> bool" where
  "spaceFirst e \<longleftrightarrow> (case e of [] \<Rightarrow> False | [c] \<Rightarrow> True
     | [c, d] \<Rightarrow> c = CHR 0xC2 | [c, d, x] \<Rightarrow> c \<in> {CHR 0xE1, CHR 0xE2, CHR 0xE3} | _ \<Rightarrow> False)"

lemma spaces_first: "list_all (\<lambda>e. spaceFirst e \<and> hd e \<noteq> CHR 0xEF) space_encodings"
  by code_simp

lemma takeRunes_space:
  assumes e: "e \<in> set space_encodings" and p: "prefix e (takeRunes (Suc n) (c # cs))"
  shows "prefix e (c # cs)"
proof -
  from e spaces_first have f: "spaceFirst e" "hd e \<noteq> CHR 0xEF" by (auto simp: list_all_iff)
  let ?rest = "takeRunes n (drop (runeWidth c cs) (c # cs))"
  from p have p: "prefix e (runeText c cs @ ?rest)" by simp
  have ne: "e \<noteq> []" using f(1) by (auto simp: spaceFirst_def)
  show ?thesis
  proof (cases c cs rule: runeText_cases)
    case 1
    with p ne f(2) show ?thesis by (cases e) auto
  next
    case 2
    with p ne have "hd e = c" by (cases e) auto
    with f(1) 2(1) have "e = [c]" by (auto simp: spaceFirst_def split: list.splits)
    then show ?thesis by simp
  next
    case 3
    then have "runeText c cs \<noteq> []" "hd (runeText c cs) = c" by (simp_all add: runeText_Cons take_Cons')
    with p ne have hd: "hd e = c" by (cases e; cases "runeText c cs") auto
    have len: "length e \<le> runeWidth c cs"
      using f(1) hd 3(2) runeWidth_C2 [of cs] runeWidth_E [of c cs] by (auto simp: spaceFirst_def split: list.splits)
    with 3(1) runeWidth_le [of c cs] have "length e \<le> length (runeText c cs)" by simp
    with p have "prefix e (runeText c cs)" by (rule prefix_length_prefix [OF _ prefixI [OF refl]])
    then show ?thesis using 3(1) take_is_prefix prefix_order.trans by metis
  qed
qed

text \<open>A bounded reason is not blank, so the journal accepts it.\<close>

lemma boundedJournalReason_not_blank: "trim_space (boundedJournalReason s) \<noteq> []"
proof -
  let ?t = "takeRunes 8192 (trim_space s)"
  have "front_code space_encodings ?t = None"
  proof (cases "trim_space s")
    case (Cons c cs)
    then have "\<forall>e \<in> set space_encodings. e = [] \<or> \<not> prefix e (c # cs)"
      using trim_space_front [of s] by (simp add: front_code_None_iff)
    then show ?thesis unfolding Cons front_code_None_iff using takeRunes_space [of _ 8191 c cs] by auto
  qed (simp add: front_code_None_iff)
  then have "trim_space ?t = [] \<Longrightarrow> ?t = []"
    by (simp add: trim_space_def strip_front_id strip_back_Nil)
  moreover have "trim_space ''turn execution failed'' \<noteq> []" by code_simp
  ultimately show ?thesis by (auto simp: boundedJournalReason_def Let_def)
qed

section \<open>The end of a turn\<close>

lemma uncertainCall_simps [simp]:
  "tk_result (uncertainCall c) = tk_result c"
  "tk_invocation (uncertainCall c) = tk_invocation c" "tk_name (uncertainCall c) = tk_name c"
  "tk_args (uncertainCall c) = tk_args c" "tk_external (uncertainCall c) = tk_external c"
  "tk_outcome (uncertainCall c) = (if tk_outcome c = OutcomeRequested then OutcomeUncertain else tk_outcome c)"
  by (simp_all add: uncertainCall_def)

lemma callOk_uncertain: "callOk jc w s c \<Longrightarrow> callOk jc w s (uncertainCall c)"
  by (cases "tk_outcome c = OutcomeRequested") (auto simp: callOk_def uncertainCall_def)

lemma checkCallChange_uncertain: "callOk jc w s c \<Longrightarrow> checkCallChange jc c (uncertainCall c)"
  by (rule checkCallChange_step) (simp_all add: allowedToolOutcomeTransition_def)

definition closingPhase :: "phase \<Rightarrow> bool" where
  "closingPhase p \<longleftrightarrow> p = PhaseInterrupted \<or> p = PhaseInterrupting"

lemma legal_interrupt:
  assumes r: "validateRecord jc r = Inr ()" and p: "runningPhase (tr_phase r)" and q: "closingPhase q" and t: "trim_space t \<noteq> []"
  shows "legalUpdate jc r (markJournalBatchUncertain (r\<lparr>tr_phase := q, tr_reason := t\<rparr>))"
    "\<not> journalBatchHasRequested (tr_batch (markJournalBatchUncertain (r\<lparr>tr_phase := q, tr_reason := t\<rparr>)))"
proof -
  let ?m = "markJournalBatchUncertain (r\<lparr>tr_phase := q, tr_reason := t\<rparr>)"
  have m: "?m = r\<lparr>tr_phase := q, tr_reason := t,
      tr_batch := map_option (\<lambda>b. b\<lparr>tb_calls := map uncertainCall (tb_calls b)\<rparr>) (tr_batch r)\<rparr>"
    by (simp add: markJournalBatchUncertain_def)
  show "\<not> journalBatchHasRequested (tr_batch ?m)"
    by (auto simp: m journalBatchHasRequested_def list_ex_iff split: option.splits)
  have "batchFits jc (tr_workspace r) (tr_session r) q (tr_batch ?m)"
  proof (cases "tr_batch r")
    case (Some b)
    note v = valid_batch [OF r Some]
    have "countsFit q (map uncertainCall (tb_calls b))"
      using q by (auto simp: closingPhase_def countsFit_def tally_0)
    moreover have "list_all (callOk jc (tr_workspace r) (tr_session r)) (map uncertainCall (tb_calls b))"
      using v(4) by (auto simp: list_all_iff intro: callOk_uncertain)
    ultimately show ?thesis using v Some by (simp add: m batchFits_def comp_def)
  qed (use q in \<open>auto simp: m batchFits_def closingPhase_def\<close>)
  moreover have "validateBatchChange jc r ?m = Inr ()"
  proof (cases "tr_batch r")
    case (Some b)
    show ?thesis
    proof (rule batchChange_advances [OF Some])
      show "tr_batch ?m = Some (b\<lparr>tb_calls := map uncertainCall (tb_calls b)\<rparr>)" by (simp add: m Some)
      show "list_all2 (\<lambda>c d. checkCallChange jc c d \<and> tk_invocation c = tk_invocation d \<and> tk_name c = tk_name d \<and> tk_args c = tk_args d)
        (tb_calls b) (map uncertainCall (tb_calls b))"
        using valid_batch(4) [OF r Some]
        by (auto simp: list_all2_conv_all_nth list_all_length intro: checkCallChange_uncertain)
    qed
  qed (simp add: m validateBatchChange_def)
  moreover have "allowedPhaseTransition (tr_phase r) q" "validPhase q"
    using p q by (auto simp: runningPhase_def settledPhase_def busyPhase_def closingPhase_def allowedPhaseTransition_def
        validPhase_def)
  ultimately show "legalUpdate jc r ?m"
    using t running_facts(1) [OF p] valid_last [OF r] unfolding legalUpdate_def by (simp add: m)
qed

text \<open>An end that leaves the batch as it is: no call of it waits without being admitted.\<close>

lemma legal_end:
  assumes r: "validateRecord jc r = Inr ()" and p: "runningPhase (tr_phase r)"
    and q: "q \<in> {PhaseFailed, PhaseFailing} \<and> trim_space t \<noteq> [] \<and> \<not> journalBatchHasRequested (tr_batch r) \<or>
      q \<in> {PhaseCompleted, PhaseCompleting} \<and> settledPhase (tr_phase r) \<and> (q = PhaseCompleting \<or> tr_phase r \<noteq> PhasePrepared)"
  shows "legalUpdate jc r (r\<lparr>tr_phase := q, tr_reason := t\<rparr>)"
proof -
  let ?m = "r\<lparr>tr_phase := q, tr_reason := t\<rparr>"
  have "batchFits jc (tr_workspace r) (tr_session r) q (tr_batch r)"
  proof (cases "tr_batch r")
    case None
    then show ?thesis using q by (auto simp: batchFits_def)
  next
    case (Some b)
    note v = valid_batch [OF r Some]
    have "countsFit q (tb_calls b)"
    proof (cases "q \<in> {PhaseFailed, PhaseFailing}")
      case True
      with q Some have "tally OutcomeRequested (tb_calls b) = 0"
        by (auto simp: journalBatchHasRequested_def tally_0 list_ex_iff)
      moreover have "tr_phase r \<noteq> PhaseToolPending" using v(6) calculation by (auto simp: countsFit_def)
      then have "tally OutcomeUncertain (tb_calls b) = 0"
      proof -
        have uncertain: "\<forall>c\<in>set (tb_calls b). tk_outcome c \<noteq> OutcomeUncertain"
          if "tally oc (tb_calls b) = length (tb_calls b)" "oc \<noteq> OutcomeUncertain" for oc
          using that by (simp add: tally_all)
        have "\<exists>oc. oc \<noteq> OutcomeUncertain \<and> tally oc (tb_calls b) = length (tb_calls b)"
        proof (cases "tr_phase r = PhaseWaitingExternalChild")
          case True
          with v(6) show ?thesis by (intro exI [of _ OutcomeAdmitted]) (simp add: countsFit_def)
        next
          case False
          with p \<open>tr_phase r \<noteq> PhaseToolPending\<close> have "settledPhase (tr_phase r)"
            by (auto simp: runningPhase_def busyPhase_def)
          from settled_open(1) [OF r this] Some show ?thesis
            by (intro exI [of _ OutcomeConfirmed]) (simp add: openCalls_def openIn_Nil)
        qed
        with uncertain show ?thesis unfolding tally_0 by blast
      qed
      ultimately show ?thesis using True by (auto simp: countsFit_def)
    next
      case False
      with q have "q \<in> {PhaseCompleted, PhaseCompleting}" "settledPhase (tr_phase r)" by auto
      with settled_open(1) [OF r] Some show ?thesis by (auto simp: countsFit_def openCalls_def openIn_Nil)
    qed
    with v Some show ?thesis by (simp add: batchFits_def)
  qed
  moreover have "validateBatchChange jc r ?m = Inr ()" by (rule batchChange_same [OF r]) simp
  moreover have "allowedPhaseTransition (tr_phase r) q" "validPhase q" "needsReason q \<longrightarrow> trim_space t \<noteq> []"
    using p q by (auto simp: runningPhase_def settledPhase_def busyPhase_def allowedPhaseTransition_def
        validPhase_def needsReason_def)
  ultimately show ?thesis
    using running_facts(1) [OF p] valid_last [OF r] unfolding legalUpdate_def by simp
qed

end
