(* ===== verification/ExecutionProtocol.thy ===== *)
theory ExecutionProtocol
  imports ExecutionCalls
begin

text \<open>
  The protocol of a running turn and its implementation by the journal: an abstract machine over
  the events of the runner, and each event simulated by the operation on the durable record.
\<close>

section \<open>Records as they are stored\<close>

definition keptBatch :: "tool_batch option \<Rightarrow> bool" where
  "keptBatch b \<longleftrightarrow> (case b of None \<Rightarrow> True | Some b \<Rightarrow> list_all (\<lambda>c. storedCall c = c) (tb_calls b))"

lemma map_fixed: "map f xs = xs \<longleftrightarrow> list_all (\<lambda>x. f x = x) xs"
  by (induction xs) auto

lemma stored_iff: "storedRecord r = r \<longleftrightarrow> keptBatch (tr_batch r)"
proof (cases "tr_batch r")
  case None
  then show ?thesis by (cases r) (simp add: storedRecord_def keptBatch_def)
next
  case (Some b)
  have "storedRecord r = r \<longleftrightarrow> map storedCall (tb_calls b) = tb_calls b"
    using Some by (cases r; cases b) (simp add: storedRecord_def)
  also have "\<dots> \<longleftrightarrow> list_all (\<lambda>c. storedCall c = c) (tb_calls b)"
    by (rule map_fixed)
  finally show ?thesis by (simp add: keptBatch_def Some)
qed

lemma storedCall_iff: "storedCall c = c \<longleftrightarrow> (case tk_external c of None \<Rightarrow> True | Some x \<Rightarrow> storedExternal x = x)"
  by (cases c; cases "tk_external c") (simp_all add: storedCall_def)

section \<open>The protocol\<close>

text \<open>What the runner tells the journal; \<open>Ending\<close> carries the error of the turn.\<close>

datatype turn_event =
    Asking nat
  | Answered string nat
  | Calling "tool_call list" history_ref nat
  | Admitting admitted_child
  | Resulting string nat
  | Ending "run_error option"

text \<open>\<open>Busy\<close> has the size of the batch and the calls without a result, \<open>Parked\<close> the call of the child.\<close>

datatype turn_state = Begun | Idle | Busy nat "string list" | Parked string | Closing | Over

text \<open>A turn of a managed task closes its record after the task, unless it was cancelled.\<close>

definition settlesFirst :: "bool \<Rightarrow> run_error option \<Rightarrow> bool" where
  "settlesFirst managed e \<longleftrightarrow> managed \<and> (case e of None \<Rightarrow> True | Some x \<Rightarrow> StopTurnCancelled \<notin> set (re_is x))"

fun afterEvent :: "bool \<Rightarrow> turn_event \<Rightarrow> turn_state \<Rightarrow> turn_state option" where
  "afterEvent managed (Asking n) s = (if s = Begun \<or> s = Idle then Some Idle else None)"
| "afterEvent managed (Answered mid n) s = (if s = Closing \<or> s = Over then None else Some s)"
| "afterEvent managed (Calling calls a n) s = (if s = Idle then Some (Busy (length calls) (map tc_id calls)) else None)"
| "afterEvent managed (Admitting child) s =
     (if ac_background child then Some s
      else if s = Busy 1 [ac_invocation child] then Some (Parked (ac_invocation child)) else None)"
| "afterEvent managed (Resulting c n) s = (case s of
      Busy k cs \<Rightarrow>
        if c \<notin> set cs then None
        else let rest = filter (\<lambda>x. x \<noteq> c) cs in Some (if rest = [] then Idle else Busy k rest)
    | Parked i \<Rightarrow> if c = i then Some Idle else None
    | _ \<Rightarrow> None)"
| "afterEvent managed (Ending e) s =
     (if s = Over then Some Over
      else if s = Closing \<or> e = None \<and> s \<noteq> Idle then None
      else Some (if settlesFirst managed e then Closing else Over))"

text \<open>The state of a record.\<close>

definition turnState :: "turn_record \<Rightarrow> turn_state" where
  "turnState r =
     (if terminalPhase (tr_phase r) then Over
      else if pendingTerminal (tr_phase r) then Closing
      else if tr_phase r = PhasePrepared then Begun
      else if tr_phase r = PhaseToolPending
        then Busy (case tr_batch r of None \<Rightarrow> 0 | Some b \<Rightarrow> length (tb_calls b)) (openCalls r)
      else if tr_phase r = PhaseWaitingExternalChild then Parked (hd (openCalls r))
      else Idle)"

section \<open>The operations\<close>

text \<open>
  One event against the journal; \<open>sc0\<close> is the first store call of \<open>toolsPending\<close>, \<open>history\<close> the
  history of the session at that moment, \<open>task\<close> the task of an admitted child.
\<close>

definition dropValue :: "('e, 'a) result \<Rightarrow> ('e, unit) result" where
  "dropValue res = and_then res (\<lambda>_. Inr ())"

fun perform ::
  "journal_codec \<Rightarrow> message_codec \<Rightarrow> bool \<Rightarrow> string \<Rightarrow> store_call \<Rightarrow> store_call \<Rightarrow> chat list \<Rightarrow> turn_event \<Rightarrow> execution \<Rightarrow>
   execution \<times> (exec_error, unit) result" where
  "perform jc mc managed task sc0 sc history (Asking n) st = providerPending jc sc n st"
| "perform jc mc managed task sc0 sc history (Answered mid n) st =
     map_prod (\<lambda>st. st) dropValue (assistantPersisted jc mc sc history mid n st)"
| "perform jc mc managed task sc0 sc history (Calling calls a n) st = toolsPending jc mc sc0 sc calls a n st"
| "perform jc mc managed task sc0 sc history (Admitting child) st = externalAdmitted jc sc task child st"
| "perform jc mc managed task sc0 sc history (Resulting c n) st = toolConfirmed jc mc sc history c n st"
| "perform jc mc managed task sc0 sc history (Ending e) st = finishExecution jc sc managed e st"

text \<open>The iteration that an event names.\<close>

fun eventIteration :: "turn_event \<Rightarrow> nat option" where
  "eventIteration (Asking n) = Some n"
| "eventIteration (Answered mid n) = Some n"
| "eventIteration (Calling calls a n) = Some n"
| "eventIteration (Resulting c n) = Some n"
| "eventIteration e = None"

text \<open>The message is in the history once, under the address of the turn.\<close>

definition recorded :: "message_codec \<Rightarrow> string \<Rightarrow> string \<Rightarrow> chat list \<Rightarrow> string \<Rightarrow> bool" where
  "recorded mc w s history mid \<longleftrightarrow> (case journalPersistedMessageRef mc history mid of
      Inl e \<Rightarrow> False | Inr ref \<Rightarrow> validateHistoryRef ref w s = Inr ())"

text \<open>The data of an event satisfies the limits of the journal.\<close>

fun soundEvent :: "journal_codec \<Rightarrow> message_codec \<Rightarrow> string \<Rightarrow> string \<Rightarrow> string \<Rightarrow> chat list \<Rightarrow> turn_event \<Rightarrow> bool" where
  "soundEvent jc mc task w s history (Answered mid n) = recorded mc w s history mid"
| "soundEvent jc mc task w s history (Calling calls a n) =
     (batchAdmissible mc calls \<and> validateHistoryRef a w s = Inr ())"
| "soundEvent jc mc task w s history (Admitting child) =
     (ac_background child \<or> (case ac_descriptor child of None \<Rightarrow> False
        | Some d \<Rightarrow> (case newExternalChildRef jc task (ac_execution child) (ac_session child) d of
            Inl e \<Rightarrow> False | Inr x \<Rightarrow> storedExternal x = x)))"
| "soundEvent jc mc task w s history (Resulting c n) = recorded mc w s history (c @ ''-result'')"
| "soundEvent jc mc task w s history e = True"

text \<open>
  The event went through and the record is in the next state, or its surroundings failed and the
  record is in the state it had; the execution stays in step with the journal. \<open>i\<close> bounds the
  iteration and \<open>k\<close> the revisions.
\<close>

definition tookStep ::
  "journal_codec \<Rightarrow> bool \<Rightarrow> nat \<Rightarrow> 32 word \<Rightarrow> turn_record \<Rightarrow> turn_state \<Rightarrow> execution \<Rightarrow> (exec_error, unit) result \<Rightarrow> bool" where
  "tookStep jc works k i r s' st res \<longleftrightarrow> inStep jc st \<and> (case fst st of
      None \<Rightarrow> False
    | Some r' \<Rightarrow>
        tr_workspace r' = tr_workspace r \<and> tr_session r' = tr_session r \<and> tr_iteration r' \<le> i \<and>
        unat (tr_revision r') \<le> unat (tr_revision r) + k \<and>
        (case res of
           Inl e \<Rightarrow> \<not> works \<and> environmental e \<and> turnState r' = turnState r
         | Inr _ \<Rightarrow> turnState r' = s'))"

lemma turnState_updated [simp]: "turnState (updatedRecord now e c m) = turnState m"
  by (simp add: turnState_def openCalls_def updatedRecord_simps)

lemma tookStep_after:
  assumes "tookStep jc works k i r1 s' st res" "turnState r1 = turnState r" "tr_workspace r1 = tr_workspace r"
    "tr_session r1 = tr_session r" "unat (tr_revision r1) + k \<le> unat (tr_revision r) + k'" "works' \<longrightarrow> works"
  shows "tookStep jc works' k' i r s' st res"
proof (cases "fst st")
  case None
  with assms(1) show ?thesis by (simp add: tookStep_def)
next
  case (Some r')
  with assms show ?thesis by (cases res) (auto simp: tookStep_def)
qed

lemma unat_next: "unat (v + 1 :: 64 word) \<le> unat v + 1"
  unfolding unat_word_ariths(1) by (rule order_trans [OF mod_less_eq_dividend]) simp

lemma update_took:
  assumes st: "inStep jc (Some r, disk)" and legal: "legalUpdate jc r (mutate r)" and kept: "keptBatch (tr_batch (mutate r))"
    and "tr_revision r + 1 \<noteq> 0" "updateExecution jc sc mutate (Some r, disk) = (st', res)"
    and state: "turnState (mutate r) = s'" and i: "tr_iteration (mutate r) \<le> i"
  shows "tookStep jc (healthy sc) 1 i r s' st' res"
proof -
  have up: "updated jc sc r (mutate r) disk st' res"
    by (rule updateExecution_legal) (use assms in \<open>simp_all add: stored_iff\<close>)
  note f = sameTurn_fields [OF legal [unfolded legalUpdate_def, THEN conjunct1]]
  have it: "tr_iteration r \<le> i" using legal i order_trans unfolding legalUpdate_def by blast
  show ?thesis
  proof (cases res)
    case (Inl e)
    with up st it show ?thesis by (simp add: updated_def tookStep_def)
  next
    case (Inr u)
    from up have "updated jc sc r (mutate r) disk st' (Inr u)" by (simp only: Inr)
    then obtain now disk' where st': "st' = (Some (updatedRecord now (tr_revision r) r (mutate r)), disk')" "inStep jc st'"
      unfolding updated_def sum.case by blast
    have "unat (tr_revision (updatedRecord now (tr_revision r) r (mutate r))) \<le> unat (tr_revision r) + 1"
      using unat_next [of "tr_revision r"] by (simp add: updatedRecord_simps)
    with st' f state i Inr show ?thesis by (simp add: tookStep_def updatedRecord_simps)
  qed
qed

lemma turnState_simps:
  "tr_phase r = PhasePrepared \<Longrightarrow> turnState r = Begun"
  "tr_phase r = PhaseProviderPending \<Longrightarrow> turnState r = Idle"
  "tr_phase r = PhaseChildResolved \<Longrightarrow> turnState r = Idle"
  "tr_phase r = PhaseWaitingExternalChild \<Longrightarrow> turnState r = Parked (hd (openCalls r))"
  "tr_phase r = PhaseToolPending \<Longrightarrow> tr_batch r = Some b \<Longrightarrow> turnState r = Busy (length (tb_calls b)) (openCalls r)"
  "terminalPhase (tr_phase r) \<Longrightarrow> turnState r = Over"
  "pendingTerminal (tr_phase r) \<Longrightarrow> turnState r = Closing"
  by (auto simp: turnState_def terminalPhase_def pendingTerminal_def)

lemma turnState_phase:
  assumes "validPhase (tr_phase r)"
  shows "turnState r = Begun \<longleftrightarrow> tr_phase r = PhasePrepared"
    "turnState r = Idle \<longleftrightarrow> tr_phase r = PhaseProviderPending \<or> tr_phase r = PhaseChildResolved"
    "turnState r = Closing \<longleftrightarrow> pendingTerminal (tr_phase r)"
    "turnState r = Over \<longleftrightarrow> terminalPhase (tr_phase r)"
    "turnState r = Busy k cs \<longleftrightarrow> tr_phase r = PhaseToolPending \<and>
       k = (case tr_batch r of None \<Rightarrow> 0 | Some b \<Rightarrow> length (tb_calls b)) \<and> cs = openCalls r"
    "turnState r = Parked i \<longleftrightarrow> tr_phase r = PhaseWaitingExternalChild \<and> i = hd (openCalls r)"
  using assms
  by (cases "tr_phase r"; auto simp: turnState_def terminalPhase_def pendingTerminal_def validPhase_def)+

lemma turnState_running:
  "validPhase (tr_phase r) \<Longrightarrow> runningPhase (tr_phase r) \<longleftrightarrow> turnState r \<noteq> Closing \<and> turnState r \<noteq> Over"
  by (cases "tr_phase r")
    (auto simp: turnState_def terminalPhase_def pendingTerminal_def validPhase_def runningPhase_def settledPhase_def
      busyPhase_def)

lemma inStep_facts:
  assumes "inStep jc (Some r, disk)"
  shows "validateRecord jc r = Inr ()" "keptBatch (tr_batch r)" "validPhase (tr_phase r)"
  using assms by (simp_all add: stored_iff [symmetric] validateRecord_iff)

section \<open>Each event\<close>

lemma took_asking:
  assumes st: "inStep jc (Some r, disk)" and rev: "tr_revision r + 1 \<noteq> 0"
    and s: "turnState r = Begun \<or> turnState r = Idle" and n: "tr_iteration r \<le> of_nat n"
    and up: "providerPending jc sc n (Some r, disk) = (st', res)"
  shows "tookStep jc (healthy sc) 1 (of_nat n) r Idle st' res"
proof (rule update_took [OF st _ _ rev])
  note f = inStep_facts [OF st]
  have "settledPhase (tr_phase r)" using s turnState_phase(1,2) [OF f(3)] by (auto simp: settledPhase_def)
  with f(1) n show "legalUpdate jc r (askedModel n r)" by (intro legal_provider) simp_all
  show "keptBatch (tr_batch (askedModel n r))" using f(2) by (simp add: askedModel_def)
  show "updateExecution jc sc (askedModel n) (Some r, disk) = (st', res)"
    using up by (simp add: providerPending_def askedModel_def [abs_def])
  show "turnState (askedModel n r) = Idle" by (rule turnState_simps) (simp add: askedModel_def)
  show "tr_iteration (askedModel n r) \<le> of_nat n" by (simp add: askedModel_def)
qed

lemma recorded_ref:
  assumes "recorded mc (tr_workspace r) (tr_session r) history mid"
  obtains ref where "journalPersistedMessageRef mc history mid = Inr ref"
    "validateHistoryRef ref (tr_workspace r) (tr_session r) = Inr ()" "validateIdentifier (hr_message ref) = Inr ()"
  using assms by (auto simp: recorded_def validateHistoryRef_def and_then_Inr_iff split: sum.splits if_splits)

lemma turnState_cong:
  "tr_phase m = tr_phase r \<Longrightarrow> tr_batch m = tr_batch r \<Longrightarrow> turnState m = turnState r"
  by (simp add: turnState_def openCalls_def)

lemma took_answered:
  assumes st: "inStep jc (Some r, disk)" and rev: "tr_revision r + 1 \<noteq> 0"
    and s: "turnState r \<noteq> Closing" "turnState r \<noteq> Over" and n: "tr_iteration r \<le> of_nat n"
    and rec: "recorded mc (tr_workspace r) (tr_session r) history mid"
    and up: "map_prod (\<lambda>st. st) dropValue (assistantPersisted jc mc sc history mid n (Some r, disk)) = (st', res)"
  shows "tookStep jc (healthy sc) 1 (of_nat n) r (turnState r) st' res"
proof -
  note f = inStep_facts [OF st]
  from recorded_ref [OF rec] obtain ref where ref: "journalPersistedMessageRef mc history mid = Inr ref"
    "validateIdentifier (hr_message ref) = Inr ()" .
  let ?f = "\<lambda>r. r\<lparr>tr_iteration := of_nat n, tr_last := hr_message ref\<rparr>"
  obtain st1 res1 where up1: "updateExecution jc sc ?f (Some r, disk) = (st1, res1)" by fastforce
  have run: "runningPhase (tr_phase r)" using turnState_running [OF f(3)] s by simp
  have "tookStep jc (healthy sc) 1 (of_nat n) r (turnState r) st1 res1"
  proof (rule update_took [OF st _ _ rev up1])
    show "legalUpdate jc r (?f r)" by (rule legal_assistant [OF f(1) run n ref(2)])
    show "keptBatch (tr_batch (?f r))" using f(2) by simp
    show "turnState (?f r) = turnState r" by (rule turnState_cong) simp_all
    show "tr_iteration (?f r) \<le> of_nat n" by simp
  qed
  moreover have "st' = st1" "res = res1" using up up1 ref(1)
    by (auto simp: assistantPersisted_def dropValue_def and_then_def split: sum.splits)
  ultimately show ?thesis by simp
qed

lemma took_calling:
  assumes st: "inStep jc (Some r, disk)" and rev: "tr_revision r + 1 \<noteq> 0" "tr_revision r + 2 \<noteq> 0"
    and s: "turnState r = Idle" and n: "tr_iteration r \<le> of_nat n"
    and calls: "batchAdmissible mc calls" "validateHistoryRef a (tr_workspace r) (tr_session r) = Inr ()"
    and up: "toolsPending jc mc sc0 sc calls a n (Some r, disk) = (st', res)"
  shows "tookStep jc (healthy sc0 \<and> healthy sc) 2 (of_nat n) r (Busy (length calls) (map tc_id calls)) st' res"
proof -
  note f = inStep_facts [OF st]
  have batch: "tookStep jc (healthy sc) 1 (of_nat n) r1 (Busy (length calls) (map tc_id calls)) st2 res2"
    if st1: "inStep jc (Some r1, disk1)" and rev1: "tr_revision r1 + 1 \<noteq> 0" and p: "tr_phase r1 = PhaseProviderPending"
      and n1: "tr_iteration r1 \<le> of_nat n" and w: "tr_workspace r1 = tr_workspace r" "tr_session r1 = tr_session r"
      and up1: "updateExecution jc sc (withBatch mc calls a n) (Some r1, disk1) = (st2, res2)" for r1 disk1 st2 res2
  proof -
    show ?thesis
    proof (rule update_took [OF st1 _ _ rev1 up1])
      show "legalUpdate jc r1 (withBatch mc calls a n r1)"
        using inStep_facts(1) [OF st1] p n1 calls w by (intro legal_tools) simp_all
      show "keptBatch (tr_batch (withBatch mc calls a n r1))"
        by (simp add: withBatch_def keptBatch_def list_all_iff storedCall_iff)
      show "turnState (withBatch mc calls a n r1) = Busy (length calls) (map tc_id calls)"
      proof -
        let ?b = "\<lparr>tb_assistant = a, tb_calls = map (requestedCheckpoint mc) calls\<rparr>"
        have b: "tr_phase (withBatch mc calls a n r1) = PhaseToolPending" "tr_batch (withBatch mc calls a n r1) = Some ?b"
          by (simp_all add: withBatch_def)
        from turnState_simps(5) [OF b] show ?thesis by (simp add: openCalls_def openIn_requested b(2))
      qed
      show "tr_iteration (withBatch mc calls a n r1) \<le> of_nat n" by (simp add: withBatch_def)
    qed
  qed
  have nonempty: "calls \<noteq> []" using calls by (simp add: batchAdmissible_def)
  show ?thesis
  proof (cases "tr_phase r = PhaseChildResolved")
    case False
    with s turnState_phase(2) [OF f(3)] have "tr_phase r = PhaseProviderPending" by simp
    with batch [OF st rev(1) _ n] up nonempty have "tookStep jc (healthy sc) 1 (of_nat n) r (Busy (length calls) (map tc_id calls)) st' res"
      by (simp add: toolsPending_def)
    then show ?thesis by (rule tookStep_after) simp_all
  next
    case True
    obtain st1 res1 where ask: "providerPending jc sc0 n (Some r, disk) = (st1, res1)" by fastforce
    have settled: "settledPhase (tr_phase r)" using True by (simp add: settledPhase_def)
    have asked: "updated jc sc0 r (askedModel n r) disk st1 res1"
    proof (rule updateExecution_legal [OF st _ _ rev(1)])
      show "legalUpdate jc r (askedModel n r)" by (rule legal_provider [OF f(1) settled n])
      show "storedRecord (askedModel n r) = askedModel n r" using f(2) by (simp add: stored_iff askedModel_def)
      show "updateExecution jc sc0 (askedModel n) (Some r, disk) = (st1, res1)"
        using ask by (simp add: providerPending_def askedModel_def [abs_def])
    qed
    show ?thesis
    proof (cases res1)
      case (Inl e)
      with asked have "\<not> healthy sc0" "environmental e" "st1 = (Some r, disk)" by (simp_all add: updated_def)
      with up nonempty True ask Inl st s n show ?thesis by (auto simp: toolsPending_def tookStep_def)
    next
      case (Inr u)
      from asked have "updated jc sc0 r (askedModel n r) disk st1 (Inr u)" by (simp only: Inr)
      then obtain now disk1 where 2: "st1 = (Some (updatedRecord now (tr_revision r) r (askedModel n r)), disk1)"
        "inStep jc st1" unfolding updated_def sum.case by blast
      let ?r1 = "updatedRecord now (tr_revision r) r (askedModel n r)"
      have "tr_revision ?r1 + 1 \<noteq> 0" using rev(2) by (simp add: updatedRecord_simps add.assoc)
      moreover have "inStep jc (Some ?r1, disk1)" using 2 by (simp only:)
      moreover have "tr_phase ?r1 = PhaseProviderPending" "tr_iteration ?r1 \<le> of_nat n"
        "tr_workspace ?r1 = tr_workspace r" "tr_session ?r1 = tr_session r"
        by (simp_all add: updatedRecord_simps askedModel_def)
      moreover have "updateExecution jc sc (withBatch mc calls a n) (Some ?r1, disk1) = (st', res)"
        using up nonempty True ask Inr 2(1) by (simp add: toolsPending_def)
      ultimately have "tookStep jc (healthy sc) 1 (of_nat n) ?r1 (Busy (length calls) (map tc_id calls)) st' res" by (intro batch)
      moreover have "turnState ?r1 = turnState r" using s by (simp add: turnState_simps askedModel_def)
      moreover have "tr_workspace ?r1 = tr_workspace r" "tr_session ?r1 = tr_session r" "tr_revision ?r1 = tr_revision r + 1"
        by (simp_all add: updatedRecord_simps askedModel_def)
      ultimately show ?thesis using unat_next [of "tr_revision r"] by (elim tookStep_after) simp_all
    qed
  qed
qed


lemma newExternal_valid: "newExternalChildRef jc task x s d = Inr ref \<Longrightarrow> validateExternalChildRef jc ref = Inr ()"
  by (auto simp: newExternalChildRef_def Let_def and_then_Inr_iff split: option.splits)

lemma keptBatch_update:
  assumes "keptBatch (tr_batch r)" "\<And>b. tr_batch r = Some b \<Longrightarrow> storedCall (f (tb_calls b ! k)) = f (tb_calls b ! k)"
  shows "keptBatch (tr_batch (updateCall k f r))"
proof (cases "tr_batch r")
  case (Some b)
  with assms show ?thesis
    by (auto simp: keptBatch_def updateCall_def list_all_iff dest!: set_update_subset_insert [THEN subsetD])
qed (simp add: keptBatch_def updateCall_def)

lemma took_admitting:
  assumes st: "inStep jc (Some r, disk)" and rev: "tr_revision r + 1 \<noteq> 0"
    and s: "turnState r = Busy 1 [i]" and child: "\<not> ac_background child" "ac_invocation child = i"
    and d: "ac_descriptor child = Some d"
    and x: "newExternalChildRef jc task (ac_execution child) (ac_session child) d = Inr x" "storedExternal x = x"
    and up: "externalAdmitted jc sc task child (Some r, disk) = (st', res)"
  shows "tookStep jc (healthy sc) 1 (tr_iteration r) r (Parked i) st' res"
proof -
  note f = inStep_facts [OF st]
  from s turnState_phase(5) [OF f(3), of 1 "[i]"] obtain b where p: "tr_phase r = PhaseToolPending"
    and b: "tr_batch r = Some b" "length (tb_calls b) = 1" and opens: "openIn (tb_calls b) = [i]"
    by (auto simp: openCalls_def split: option.splits)
  from b(2) obtain c where c: "tb_calls b = [c]" by (auto simp: length_Suc_conv)
  with opens have c': "tk_outcome c \<noteq> OutcomeConfirmed" "tk_invocation c = i"
    by (auto simp: openIn_def split: if_splits)
  have out: "tb_calls b ! 0 = c" using c by simp
  have "tk_outcome c = OutcomeRequested"
    using open_call(1) [OF f(1) b(1), of 0] p c' by (simp add: c busyPhase_def)
  with p b c c' have aw: "awaitsAdmission r i" unfolding awaitsAdmission_iff by blast
  note legal = legal_admit [OF f(1) aw newExternal_valid [OF x(1)]]
  have run: "updateExecution jc sc (admitChild x) (Some r, disk) = (st', res)"
    using up aw child d x(1) by (simp add: externalAdmitted_def admitChild_def [abs_def] admittedCall_def [abs_def])
  show ?thesis
  proof (rule update_took [OF st legal(1) _ rev run])
    show "keptBatch (tr_batch (admitChild x r))"
      unfolding admitChild_def by (rule keptBatch_update) (use f(2) x(2) in \<open>simp_all add: storedCall_iff\<close>)
    show "turnState (admitChild x r) = Parked i" using turnState_simps(4) [OF legal(4)] legal(2) by simp
    show "tr_iteration (admitChild x r) \<le> tr_iteration r" by (simp add: admitChild_def updateCall_def)
  qed
qed

lemma took_resulting:
  assumes st: "inStep jc (Some r, disk)" and rev: "tr_revision r + 1 \<noteq> 0" and n: "tr_iteration r \<le> of_nat n"
    and s: "afterEvent managed (Resulting c n) (turnState r) = Some s'"
    and rec: "recorded mc (tr_workspace r) (tr_session r) history (c @ ''-result'')"
    and up: "toolConfirmed jc mc sc history c n (Some r, disk) = (st', res)"
  shows "tookStep jc (healthy sc) 1 (of_nat n) r s' st' res"
proof -
  note f = inStep_facts [OF st]
  from s have p: "busyPhase (tr_phase r)"
    using turnState_phase(5,6) [OF f(3)] by (cases "turnState r") (auto simp: busyPhase_def)
  then obtain b where b: "tr_batch r = Some b"
    using valid_fits [OF f(1)] by (cases "tr_batch r") (auto simp: batchFits_def busyPhase_def)
  note v = valid_batch [OF f(1) b]
  have opens: "openCalls r = openIn (tb_calls b)" using b by (simp add: openCalls_def)
  have parked: "tr_phase r = PhaseWaitingExternalChild \<Longrightarrow> openCalls r \<noteq> []"
  proof -
    assume w: "tr_phase r = PhaseWaitingExternalChild"
    with v(6) obtain y where y: "tb_calls b = [y]" by (auto simp: countsFit_def length_Suc_conv)
    with v(6) w have "tk_outcome y = OutcomeAdmitted" by (simp add: countsFit_def split: if_splits)
    with y show ?thesis by (simp add: opens openIn_def)
  qed
  have "c \<in> set (openIn (tb_calls b))"
  proof (cases "tr_phase r = PhaseToolPending")
    case True
    with s turnState_simps(5) [OF True b] show ?thesis by (auto simp: opens split: if_splits)
  next
    case False
    with p have w: "tr_phase r = PhaseWaitingExternalChild" by (simp add: busyPhase_def)
    with s turnState_simps(4) [OF w] have "c = hd (openCalls r)" by (simp split: if_splits)
    with hd_in_set [OF parked [OF w]] show ?thesis by (simp only: opens)
  qed
  then obtain y where y: "y \<in> set (tb_calls b)" "tk_invocation y = c" "tk_outcome y \<noteq> OutcomeConfirmed"
    by (auto simp: openIn_def)
  then obtain k where k: "callIndex c (tb_calls b) = Some k"
    using callIndex_None [of c "tb_calls b"] by (cases "callIndex c (tb_calls b)") auto
  from callIndex_Some [OF k] have k': "k < length (tb_calls b)" "tk_invocation (tb_calls b ! k) = c" by simp_all
  have "tb_calls b ! k = y"
    using y k' v(5) by (metis distinct_map in_set_conv_nth inj_onD nth_mem)
  with y have out: "tk_outcome (tb_calls b ! k) \<noteq> OutcomeConfirmed" by simp
  from recorded_ref [OF rec] obtain ref where ref: "journalPersistedMessageRef mc history (c @ ''-result'') = Inr ref"
    "validateHistoryRef ref (tr_workspace r) (tr_session r) = Inr ()" .
  note legal = legal_confirm [OF f(1) b k'(1) p out n ref(2)]
  have run: "updateExecution jc sc (confirmCall k ref n) (Some r, disk) = (st', res)"
    using up b k ref(1) by (simp add: toolConfirmed_def journalToolIndex_def)
  show ?thesis
  proof (rule update_took [OF st legal(1) _ rev run])
    have call: "storedCall (tb_calls b ! k) = tb_calls b ! k" using f(2) b k'(1) by (simp add: keptBatch_def list_all_length)
    show "keptBatch (tr_batch (confirmCall k ref n r))"
      unfolding confirmCall_def by (rule keptBatch_update) (use f(2) call b in \<open>simp_all add: storedCall_iff\<close>)
    let ?m = "confirmCall k ref n r"
    have m: "tr_batch ?m = Some (b\<lparr>tb_calls := (tb_calls b)[k := confirmedCall ref (tb_calls b ! k)]\<rparr>)"
      using b by (simp add: confirmCall_def updateCall_def confirmedCall_def)
    show "tr_iteration ?m \<le> of_nat n" by (simp add: confirmCall_def updateCall_def)
    show "turnState ?m = s'"
    proof (cases "tr_phase r = PhaseWaitingExternalChild")
      case True
      then have "tr_phase ?m = PhaseChildResolved" using legal(3) by simp
      moreover have "s' = Idle" using s turnState_simps(4) [OF True] by (simp split: if_splits)
      ultimately show ?thesis by (simp add: turnState_simps)
    next
      case False
      with p have tp: "tr_phase r = PhaseToolPending" by (simp add: busyPhase_def)
      have rest: "openCalls ?m = filter (\<lambda>x. x \<noteq> c) (openCalls r)" using legal(2) k'(2) by simp
      have s': "s' = (if openCalls ?m = [] then Idle else Busy (length (tb_calls b)) (openCalls ?m))"
        using s turnState_simps(5) [OF tp b] by (simp add: rest Let_def split: if_splits)
      show ?thesis
      proof (cases "openCalls ?m = []")
        case True
        with False legal(3) s' show ?thesis by (simp add: turnState_simps)
      next
        case more: False
        with False legal(3) have "tr_phase ?m = PhaseToolPending" by simp
        from turnState_simps(5) [OF this m] more s' show ?thesis by simp
      qed
    qed
  qed
qed


lemma tookStep_stays:
  assumes "inStep jc (Some r, disk)" "tr_iteration r \<le> i" "turnState r = s"
  shows "tookStep jc works k i r s (Some r, disk) (Inr u)"
  using assms by (simp add: tookStep_def)

text \<open>The phase that ends a turn.\<close>

lemma finalPhase_failed:
  "finalPhase managed (Some x) b =
     (if re_is x = [] \<and> \<not> journalBatchHasRequested b then if managed then PhaseFailing else PhaseFailed
      else if managed \<and> StopTurnCancelled \<notin> set (re_is x) then PhaseInterrupting else PhaseInterrupted)"
  by (simp add: finalPhase_def)

lemma finalPhase_closes:
  "if settlesFirst managed e then pendingTerminal (finalPhase managed e b) else terminalPhase (finalPhase managed e b)"
proof (cases e)
  case None
  then show ?thesis by (simp add: settlesFirst_def finalPhase_def pendingTerminal_def terminalPhase_def)
next
  case (Some x)
  then show ?thesis
    by (cases "re_is x = [] \<and> \<not> journalBatchHasRequested b"; cases "StopTurnCancelled \<in> set (re_is x)"; cases managed)
      (auto simp: settlesFirst_def finalPhase_failed pendingTerminal_def terminalPhase_def)
qed

lemma finishRecord_legal:
  assumes r: "validateRecord jc r = Inr ()" "keptBatch (tr_batch r)" and p: "runningPhase (tr_phase r)"
    and ok: "e = None \<longrightarrow> tr_phase r = PhaseProviderPending \<or> tr_phase r = PhaseChildResolved"
  shows "legalUpdate jc r (finishRecord managed e r)" "keptBatch (tr_batch (finishRecord managed e r))"
    "tr_phase (finishRecord managed e r) = finalPhase managed e (tr_batch r)"
    "tr_iteration (finishRecord managed e r) = tr_iteration r"
    "e \<noteq> None \<longrightarrow> \<not> journalBatchHasRequested (tr_batch (finishRecord managed e r))"
proof -
  let ?q = "finalPhase managed e (tr_batch r)"
  let ?t = "case e of None \<Rightarrow> [] | Some x \<Rightarrow> boundedJournalReason (re_text x)"
  let ?m = "r\<lparr>tr_phase := ?q, tr_reason := ?t\<rparr>"
  show "tr_phase (finishRecord managed e r) = ?q" "tr_iteration (finishRecord managed e r) = tr_iteration r"
    by (simp_all add: finishRecord_def Let_def markJournalBatchUncertain_def)
  have kept: "keptBatch (tr_batch (markJournalBatchUncertain ?m))"
    using r(2) by (cases "tr_batch r") (auto simp: markJournalBatchUncertain_def keptBatch_def list_all_iff storedCall_iff)
  show "legalUpdate jc r (finishRecord managed e r)"
    "keptBatch (tr_batch (finishRecord managed e r))"
    "e \<noteq> None \<longrightarrow> \<not> journalBatchHasRequested (tr_batch (finishRecord managed e r))"
  proof (atomize (full), cases "closingPhase ?q")
    case True
    then obtain x where x: "e = Some x" by (cases e) (auto simp: closingPhase_def finalPhase_def split: if_splits)
    from True have m: "finishRecord managed e r = markJournalBatchUncertain ?m"
      by (simp add: finishRecord_def closingPhase_def Let_def)
    show "legalUpdate jc r (finishRecord managed e r) \<and> keptBatch (tr_batch (finishRecord managed e r)) \<and>
      (e \<noteq> None \<longrightarrow> \<not> journalBatchHasRequested (tr_batch (finishRecord managed e r)))"
      unfolding m using legal_interrupt [OF r(1) p True, of ?t] boundedJournalReason_not_blank kept x by simp
  next
    case False
    then have m: "finishRecord managed e r = ?m" by (simp add: finishRecord_def closingPhase_def Let_def)
    have q: "?q \<in> {PhaseFailed, PhaseFailing} \<and> trim_space ?t \<noteq> [] \<and> \<not> journalBatchHasRequested (tr_batch r) \<or>
      ?q \<in> {PhaseCompleted, PhaseCompleting} \<and> settledPhase (tr_phase r) \<and> (?q = PhaseCompleting \<or> tr_phase r \<noteq> PhasePrepared)"
    proof (cases e)
      case None
      with ok show ?thesis by (auto simp: finalPhase_def settledPhase_def)
    next
      case (Some x)
      with False have "re_is x = []" "\<not> journalBatchHasRequested (tr_batch r)"
        by (auto simp: finalPhase_failed closingPhase_def split: if_splits)
      with Some show ?thesis using boundedJournalReason_not_blank by (simp add: finalPhase_failed)
    qed
    then have "e \<noteq> None \<longrightarrow> \<not> journalBatchHasRequested (tr_batch r)"
      by (cases e) (auto simp: finalPhase_def split: if_splits)
    with legal_end [OF r(1) p q] r(2)
    show "legalUpdate jc r (finishRecord managed e r) \<and> keptBatch (tr_batch (finishRecord managed e r)) \<and>
      (e \<noteq> None \<longrightarrow> \<not> journalBatchHasRequested (tr_batch (finishRecord managed e r)))"
      unfolding m by simp
  qed
qed

lemma took_ending:
  assumes st: "inStep jc (Some r, disk)" and rev: "tr_revision r + 1 \<noteq> 0"
    and s: "afterEvent managed (Ending e) (turnState r) = Some s'"
    and up: "finishExecution jc sc managed e (Some r, disk) = (st', res)"
  shows "tookStep jc (healthy sc) 1 (tr_iteration r) r s' st' res"
proof -
  note f = inStep_facts [OF st]
  note ph = turnState_phase [OF f(3)]
  show ?thesis
  proof (cases "turnState r = Over")
    case True
    with s up ph(4) show ?thesis by (auto simp: finishExecution_def intro: tookStep_stays [OF st])
  next
    case False
    with s have notc: "turnState r \<noteq> Closing" and e: "e \<noteq> None \<or> turnState r = Idle"
      and s': "s' = (if settlesFirst managed e then Closing else Over)"
      by (simp_all split: if_splits)
    from False notc have run: "runningPhase (tr_phase r)" using turnState_running [OF f(3)] by simp
    have ok: "e = None \<longrightarrow> tr_phase r = PhaseProviderPending \<or> tr_phase r = PhaseChildResolved" using e ph(2) by auto
    note legal = finishRecord_legal [OF f(1,2) run ok, of managed]
    from False ph(4) up have run': "updateExecution jc sc (finishRecord managed e) (Some r, disk) = (st', res)"
      by (simp add: finishExecution_def)
    show ?thesis
    proof (rule update_took [OF st legal(1,2) rev run'])
      show "tr_iteration (finishRecord managed e r) \<le> tr_iteration r" using legal(4) by simp
      show "turnState (finishRecord managed e r) = s'"
        using finalPhase_closes [of managed e "tr_batch r"] turnState_simps(6,7) [of "finishRecord managed e r"]
        unfolding s' legal(3) by (simp split: if_splits)
    qed
  qed
qed

text \<open>One event of the protocol.\<close>

lemma event_took:
  assumes st: "inStep jc (Some r, disk)" and rev: "unat (tr_revision r) + 2 < 2 ^ 64"
    and s: "afterEvent managed ev (turnState r) = Some s'"
    and sound: "soundEvent jc mc task (tr_workspace r) (tr_session r) history ev"
    and i: "tr_iteration r \<le> i" "\<And>n. eventIteration ev = Some n \<Longrightarrow> i = of_nat n"
    and up: "perform jc mc managed task sc0 sc history ev (Some r, disk) = (st', res)"
  shows "tookStep jc (healthy sc0 \<and> healthy sc) 2 i r s' st' res"
proof -
  have next_ok: "tr_revision r + 1 \<noteq> 0" "tr_revision r + 2 \<noteq> 0"
    using rev by (auto simp: word_eq_iff_unsigned unat_word_ariths unsigned_eq_0_iff dest!: arg_cong [of _ _ unat])
  have more: "tookStep jc (healthy sc) 1 i r s' st' res \<Longrightarrow> tookStep jc (healthy sc0 \<and> healthy sc) 2 i r s' st' res"
    by (erule tookStep_after) simp_all
  have widen: "tookStep jc (healthy sc) 1 (tr_iteration r) r s' st' res \<Longrightarrow> tookStep jc (healthy sc) 1 i r s' st' res"
    using i(1) order_trans by (fastforce simp: tookStep_def split: option.splits)
  show ?thesis
  proof (cases ev)
    case (Asking n)
    with s have "turnState r = Begun \<or> turnState r = Idle" "s' = Idle" by (simp_all split: if_splits)
    with took_asking [OF st next_ok(1), of n sc st' res] Asking i up show ?thesis by (intro more) simp
  next
    case (Answered mid n)
    with s have "turnState r \<noteq> Closing" "turnState r \<noteq> Over" "s' = turnState r" by (simp_all split: if_splits)
    with took_answered [OF st next_ok(1), of n mc history mid sc st' res] Answered i up sound show ?thesis by (intro more) simp
  next
    case (Calling calls a n)
    with s have "turnState r = Idle" "s' = Busy (length calls) (map tc_id calls)" by (simp_all split: if_splits)
    with took_calling [OF st next_ok, of n mc calls a sc0 sc st' res] Calling i up sound show ?thesis by simp
  next
    case (Admitting child)
    show ?thesis
    proof (cases "ac_background child")
      case True
      with Admitting s up show ?thesis using tookStep_stays [OF st i(1)] by (auto simp: externalAdmitted_def)
    next
      case False
      with Admitting s have busy: "turnState r = Busy 1 [ac_invocation child]" "s' = Parked (ac_invocation child)"
        by (simp_all split: if_splits)
      from False Admitting sound obtain d x where dx: "ac_descriptor child = Some d"
        "newExternalChildRef jc task (ac_execution child) (ac_session child) d = Inr x" "storedExternal x = x"
        by (auto split: option.splits sum.splits)
      have up': "externalAdmitted jc sc task child (Some r, disk) = (st', res)" using up Admitting by simp
      from took_admitting [OF st next_ok(1) busy(1) False refl dx up'] busy(2) show ?thesis by (intro more widen) simp
    qed
  next
    case (Resulting c n)
    with took_resulting [OF st next_ok(1), of n managed c s' mc history sc st' res] i s up sound show ?thesis
      by (intro more) simp
  next
    case (Ending e)
    with took_ending [OF st next_ok(1), of managed e s' sc st' res] s up show ?thesis by (intro more widen) simp
  qed
qed

end
