(* ===== verification/LoopJournal.thy ===== *)
theory LoopJournal
  imports ToolBatch ExecutionProtocol
begin

text \<open>
  What the loop of a turn tells the journal: which of its steps are journal events, and in which
  order an operation writes them. The rules mirror those of the messages: one per way of composing
  operations.
\<close>

section \<open>The events of the journal\<close>

definition journaled :: "event \<Rightarrow> bool" where
  "journaled e \<longleftrightarrow> (case e of
      ModelPending n \<Rightarrow> True | AssistantKept a \<Rightarrow> True | Checkpointed l \<Rightarrow> True | Confirmed a \<Rightarrow> True | _ \<Rightarrow> False)"

definition journal :: "event list \<Rightarrow> event list" where
  "journal es = filter journaled es"

lemma journaled_simps [simp]:
  "journaled (ModelPending n)" "journaled (AssistantKept a)" "journaled (Checkpointed l)" "journaled (Confirmed a)"
  "\<not> journaled (Refused e)" "\<not> journaled (Saved m)" "\<not> journaled (Streamed p)" "\<not> journaled (Published v)"
  "\<not> journaled (Observed a b)" "\<not> journaled (HookAsked c d)" "\<not> journaled (ModelAsked n)"
  by (simp_all add: journaled_def)

lemma journal_simps [simp]:
  "journal [] = []" "journal (xs @ ys) = journal xs @ journal ys"
  "journal (e # es) = (if journaled e then e # journal es else journal es)"
  by (simp_all add: journal_def)

lemma journal_none: "list_all (\<lambda>e. \<not> journaled e) es \<Longrightarrow> journal es = []"
  by (induction es) simp_all

lemma unspoken_journal: "list_all (\<lambda>e. \<not> speaks e) es \<Longrightarrow> journal es = []"
  by (rule journal_none) (auto simp: list_all_iff speaks_def journaled_def split: event.splits)

text \<open>The operation tells the journal nothing.\<close>

definition offJournal :: "world \<Rightarrow> world \<Rightarrow> bool" where
  "offJournal w w' \<longleftrightarrow> (\<exists>s. adds w w' s \<and> journal s = [])"

lemma offJournal_refl [simp]: "offJournal w w"
  unfolding offJournal_def by (intro exI [of _ "[]"]) simp

lemma offJournal_trans: "offJournal w w1 \<Longrightarrow> offJournal w1 w2 \<Longrightarrow> offJournal w w2"
  unfolding offJournal_def by (metis adds_trans append_Nil journal_simps(2))

lemma offJournal_if: "offJournal w y \<Longrightarrow> offJournal w x \<Longrightarrow> offJournal w (if b then x else y)"
  by simp

lemma silent_off: "silent w w' \<Longrightarrow> offJournal w w'"
  using unspoken_journal unfolding silent_def offJournal_def by blast

lemma publish_off: "offJournal w (publishToolEvent rn v w)"
proof (cases "rn_publisher rn")
  case True
  then show ?thesis
    unfolding offJournal_def by (intro exI [of _ "[Published v]"]) (simp add: publishToolEvent_def adds_def)
qed (simp add: publishToolEvent_def)

lemma notify_off: "offJournal w (notify n what call w)"
proof -
  have "journal (replicate n (Observed what call)) = []" by (rule journal_none) (simp add: list_all_iff)
  moreover have "adds w (notify n what call w) (replicate n (Observed what call))" by (simp add: notify_def adds_def)
  ultimately show ?thesis unfolding offJournal_def by blast
qed

lemma notifyReferences_off: "offJournal w (notifyReferences rn call res w)"
  by (simp add: notifyReferences_def notify_off)

lemma startCall_off: "offJournal w (startCall ou rn call d w)"
  unfolding startCall_def by (rule offJournal_trans [OF publish_off notify_off])

lemma finishCall_off: "offJournal w (finishCall ou rn call res e w)"
proof -
  let ?w1 = "notify (rn_observers rn) ''finished'' (tc_id call) w"
  have "offJournal ?w1 (if e = None then notifyReferences rn call res ?w1 else ?w1)"
    by (simp add: notifyReferences_off)
  with notify_off have "offJournal w (if e = None then notifyReferences rn call res ?w1 else ?w1)"
    by (rule offJournal_trans)
  then show ?thesis unfolding finishCall_def Let_def by (rule offJournal_trans [OF _ publish_off])
qed

lemma approve_off: "approveToolCall rn perTurn call w = (d, w') \<Longrightarrow> offJournal w w'"
proof -
  assume "approveToolCall rn perTurn call w = (d, w')"
  from approveToolCall_adds [OF this] obtain ds where "adds w w' (List.map (HookAsked call) ds)" by blast
  moreover have "journal (List.map (HookAsked call) ds) = []" by (rule journal_none) (simp add: list_all_iff)
  ultimately show ?thesis unfolding offJournal_def by blast
qed

section \<open>What an operation writes\<close>

definition writes :: "('e, 'a) result \<times> world \<Rightarrow> world \<Rightarrow> (('e, 'a) result \<Rightarrow> event list \<Rightarrow> bool) \<Rightarrow> bool" where
  "writes m w P \<longleftrightarrow> leaves m w (\<lambda>r s. P r (journal s))"

lemma writes_return [simp]: "writes (r, w) w P \<longleftrightarrow> P r []"
  by (simp add: writes_def)

lemma writes_conseq: "writes m w P \<Longrightarrow> (\<And>r j. P r j \<Longrightarrow> Q r j) \<Longrightarrow> writes m w Q"
  unfolding writes_def by (rule leaves_conseq)

lemma writes_thenDo:
  assumes "writes m w P" "\<And>x w1 j. P (Inr x) j \<Longrightarrow> writes (f x w1) w1 (\<lambda>r j'. Q r (j @ j'))"
    "\<And>e j. P (Inl e) j \<Longrightarrow> Q (Inl e) j"
  shows "writes (thenDo m f) w Q"
  unfolding writes_def
proof (rule leaves_thenDo [OF assms(1) [unfolded writes_def]], goal_cases)
  case (1 x w1 seg)
  from assms(2) [OF 1(2), of w1] show ?case unfolding writes_def by simp
next
  case (2 e seg)
  then show ?case by (rule assms(3))
qed

lemma writes_off: "offJournal w w1 \<Longrightarrow> writes m w1 Q \<Longrightarrow> writes m w Q"
proof -
  assume "offJournal w w1" and m: "writes m w1 Q"
  then obtain s where "adds w w1 s" "journal s = []" by (auto simp: offJournal_def)
  with m show ?thesis unfolding writes_def by (intro leaves_after [of w w1 s]) simp_all
qed

lemma writes_tryOp:
  "writes (tryOp ou context e w) w (\<lambda>r j. j = (if failed r \<or> \<not> journaled e then [] else [e]))"
  unfolding writes_def by (rule leaves_conseq [OF tryOp_leaves]) simp

text \<open>Nothing at all.\<close>

definition nothing :: "('e, 'a) result \<Rightarrow> event list \<Rightarrow> bool" where
  "nothing r j \<longleftrightarrow> j = []"

lemma nothing_tryOp: "\<not> journaled e \<Longrightarrow> writes (tryOp ou context e w) w nothing"
  by (rule writes_conseq [OF writes_tryOp]) (simp add: nothing_def)

lemma nothing_thenDo:
  assumes "writes m w nothing" "\<And>x w1. writes (f x w1) w1 Q" "\<And>e. Q (Inl e) []"
  shows "writes (thenDo m f) w Q"
proof (rule writes_thenDo [OF assms(1)])
  fix x w1 j
  assume "nothing (Inr x :: ('a, 'b) result) j"
  then show "writes (f x w1) w1 (\<lambda>r j'. Q r (j @ j'))" using assms(2) by (simp add: nothing_def)
next
  fix e j
  assume "nothing (Inl e :: ('a, 'b) result) j"
  then show "Q (Inl e) j" using assms(3) by (simp add: nothing_def)
qed

lemma nothing_tryAll: "list_all (\<lambda>e. \<not> journaled e) es \<Longrightarrow> writes (tryAll ou context es w) w nothing"
proof (induction es arbitrary: w)
  case (Cons e es)
  then show ?case unfolding tryAll.simps
    by (intro nothing_thenDo nothing_tryOp) (simp_all add: nothing_def)
qed (simp add: nothing_def)

lemma nothing_streamCall: "writes (streamCall ou parts call w) w nothing"
  by (cases "map_of parts (tc_id call)") (simp_all add: streamCall_def nothing_tryOp nothing_def)

lemma nothing_deliverAll: "writes (deliverAll ou ms w) w nothing"
proof (induction ou ms w rule: deliverAll.induct)
  case (3 ou m parts ms w)
  show ?case unfolding deliverAll.simps
    by (intro nothing_thenDo nothing_tryOp 3) (simp_all add: nothing_def)
qed (simp_all add: nothing_def)

lemma nothing_askModel: "writes (askModel ou n w) w nothing"
  by (cases "ou_model ou (wo_events w)") (auto simp: askModel_def writes_def leaves_def nothing_def adds_def)

section \<open>One call\<close>

text \<open>The result of a call is confirmed, unless the operation fails before.\<close>

definition confirms :: "string \<Rightarrow> ('e, 'a) result \<Rightarrow> event list \<Rightarrow> bool" where
  "confirms c r j \<longleftrightarrow> j = [Confirmed c] \<or> failed r \<and> j = []"

lemma confirm_then:
  assumes "\<And>x w1. writes (f x w1) w1 nothing"
  shows "writes (thenDo (confirm ou call w) f) w (confirms (tc_id call))"
  unfolding confirm_def
proof (rule writes_thenDo [OF writes_tryOp])
  fix x :: unit and w1 j
  assume "j = (if failed (Inr x :: (tool_error, unit) result) \<or> \<not> journaled (Confirmed (tc_id call)) then [] else [Confirmed (tc_id call)])"
  then show "writes (f x w1) w1 (\<lambda>r j'. confirms (tc_id call) r (j @ j'))"
    by (intro writes_conseq [OF assms]) (simp add: confirms_def nothing_def)
qed (simp add: confirms_def)

lemma confirms_stop: "confirms c (Inl e) []"
  by (simp add: confirms_def)

lemma answerError_confirms: "writes (answerError ou call reason w) w (confirms (tc_id call))"
  unfolding answerError_def recordToolError_def Let_def
  by (intro nothing_thenDo nothing_tryOp confirm_then confirms_stop) (simp_all add: nothing_def)

lemma answerResult_confirms: "writes (answerResult ou call res w) w (confirms (tc_id call))"
  unfolding answerResult_def Let_def
  by (intro nothing_thenDo nothing_tryOp nothing_tryAll confirm_then confirms_stop) (simp_all add: nothing_def list_all_iff)

lemma answerOutcome_confirms: "writes (answerOutcome ou call res e w) w (confirms (tc_id call))"
  by (cases e) (auto simp: answerOutcome_def answerResult_confirms answerError_confirms confirms_stop)

lemma refuseCall_confirms: "writes (refuseCall ou rn call d w) w (confirms (tc_id call))"
  unfolding refuseCall_def by (rule writes_off [OF publish_off answerError_confirms])

text \<open>A batch: all its calls are checkpointed, then confirmed one after the other.\<close>

definition batchJournal :: "string list \<Rightarrow> ('e, 'a) result \<Rightarrow> event list \<Rightarrow> bool" where
  "batchJournal ids r j \<longleftrightarrow> failed r \<and> j = [] \<or>
     (\<exists>k. k \<le> length ids \<and> (failed r \<or> k = length ids) \<and> j = Checkpointed ids # List.map Confirmed (take k ids))"

lemma batchJournal_stop: "batchJournal ids (Inl e) []" "batchJournal ids (Inl e) [Checkpointed ids]"
  by (auto simp: batchJournal_def)

lemma confirms_batch: "confirms c r j \<Longrightarrow> batchJournal [c] r (Checkpointed [c] # j)"
  by (auto simp: confirms_def batchJournal_def intro: exI [of _ 1] exI [of _ 0])

lemma handleCall_batch: "writes (handleCall ou cx rn tt perTurn addr parts c w) w (batchJournal [tc_id c])"
proof -
  let ?c = "normalizedCall addr c"
  have rest: "writes
      (case approveToolCall rn perTurn ?c (publishToolEvent rn (toolEventFromCall ou ToolEventQueued ?c) w) of
          (d, w) \<Rightarrow>
            if \<not> hd_allow d then refuseCall ou rn ?c d w
            else case invokeTool ou cx rn tt addr ?c (startCall ou rn ?c d w) of
              ((res, e), w) \<Rightarrow> answerOutcome ou ?c res e (finishCall ou rn ?c res e w)) w (confirms (tc_id c))" for w
  proof -
    let ?w1 = "publishToolEvent rn (toolEventFromCall ou ToolEventQueued ?c) w"
    obtain d w2 where g: "approveToolCall rn perTurn ?c ?w1 = (d, w2)" by fastforce
    have w2: "offJournal w w2" using publish_off approve_off [OF g] by (rule offJournal_trans)
    show ?thesis
    proof (cases "hd_allow d")
      case False
      with g writes_off [OF w2 refuseCall_confirms [of ou rn ?c d w2]] show ?thesis by simp
    next
      case True
      let ?w3 = "startCall ou rn ?c d w2"
      obtain res e w4 where inv: "invokeTool ou cx rn tt addr ?c ?w3 = ((res, e), w4)" by (metis prod.exhaust)
      have "offJournal ?w3 w4" using silent_off [OF silent_invokeTool [of ?w3 ou cx rn tt addr ?c]] inv by simp
      then have "offJournal w (finishCall ou rn ?c res e w4)"
        by (intro offJournal_trans [OF _ finishCall_off] offJournal_trans [OF offJournal_trans [OF w2 startCall_off]])
      from writes_off [OF this answerOutcome_confirms [of ou ?c res e]] g True inv show ?thesis by simp
    qed
  qed
  show ?thesis unfolding handleCall_def Let_def
  proof (rule writes_thenDo [OF writes_tryOp], goal_cases)
    case (1 x w1 j)
    then have j: "j = [Checkpointed [tc_id c]]" by simp
    show ?case unfolding j
      by (rule nothing_thenDo [OF nothing_streamCall])
        (auto intro!: writes_conseq [OF rest] intro: confirms_batch batchJournal_stop)
  next
    case (2 e j)
    then show ?case by (simp add: batchJournal_stop)
  qed
qed

section \<open>A parallel batch\<close>

lemma admitItem_nothing: "writes (admitItem ou cx rn tt perTurn addr parts call w) w nothing"
  unfolding admitItem_def
proof (rule nothing_thenDo [OF nothing_streamCall])
  fix x :: unit and w
  let ?w1 = "publishToolEvent rn (toolEventFromCall ou ToolEventQueued call) w"
  obtain d w2 where g: "approveToolCall rn perTurn call ?w1 = (d, w2)" by fastforce
  have w2: "offJournal w w2" using publish_off approve_off [OF g] by (rule offJournal_trans)
  obtain p w3 where pr: "prepareParallelTool ou cx rn tt addr call w2 = (p, w3)" by fastforce
  then have w3: "offJournal w w3"
    using offJournal_trans [OF w2 silent_off [OF silent_prepareParallelTool [of w2 ou cx rn tt addr call]]] by simp
  show "writes (case approveToolCall rn perTurn call ?w1 of
         (d, w) \<Rightarrow>
           if \<not> hd_allow d
           then (Inr \<lparr>bi_call = call, bi_decision = d, bi_refused = Some (errorf (hd_reason d)), bi_closure = None\<rparr>, w)
           else case prepareParallelTool ou cx rn tt addr call w of
             (Inl e, w) \<Rightarrow>
               (if ou_ended ou (wo_events w) \<noteq> None then (Inl (wrap (''authorize tool '' @ tc_name call) e), w)
                else (Inr \<lparr>bi_call = call, bi_decision = d, bi_refused = Some e, bi_closure = None\<rparr>, w))
           | (Inr c, w) \<Rightarrow> (Inr \<lparr>bi_call = call, bi_decision = d, bi_refused = None, bi_closure = Some c\<rparr>, w)) w nothing"
    using g pr by (cases p) (auto intro: writes_off [OF w2] writes_off [OF w3] simp: nothing_def)
qed (simp add: nothing_def)

lemma admitAll_nothing: "writes (admitAll ou cx rn tt perTurn addr parts calls w) w nothing"
proof (induction calls arbitrary: w)
  case (Cons c cs)
  then show ?case unfolding admitAll.simps
    by (intro nothing_thenDo admitItem_nothing Cons.IH) (simp_all add: nothing_def)
qed (simp add: nothing_def)

lemma batchStep_off: "offJournal w (snd (batchStep ou cx rn items a (br, w)))"
proof (cases a)
  case Launch
  then show ?thesis by (auto simp: Let_def startCall_off split: option.splits)
next
  case (Complete n)
  have "offJournal w (snd (runClosure ou cx c w))" for c by (rule silent_off [OF silent_runClosure])
  with Complete show ?thesis by (auto split: option.splits prod.splits) (metis snd_conv)
qed

lemma runBatch_off:
  assumes "runBatch ou cx rn items schedule w = (br, w')"
  shows "offJournal w w'"
proof -
  have "offJournal w (snd (run (batchStep ou cx rn items) (br0, w) acts))" for br0 acts
  proof (induction acts arbitrary: br0 w)
    case (Cons a acts)
    obtain br1 w1 where st: "batchStep ou cx rn items a (br0, w) = (br1, w1)" by fastforce
    with batchStep_off [of w ou cx rn items a br0] have "offJournal w w1" by simp
    with Cons [of w1 br1] st show ?case using offJournal_trans by simp
  qed simp
  with assms show ?thesis unfolding runBatch_def by (metis snd_conv)
qed

lemma commitItem_confirms: "writes (commitItem ou rn item out w) w (confirms (tc_id (bi_call item)))"
proof (cases "bi_refused item")
  case (Some x)
  then show ?thesis by (simp add: commitItem_def Let_def writes_off [OF publish_off answerError_confirms])
next
  case None
  show ?thesis
  proof (cases out)
    case None
    with \<open>bi_refused item = None\<close> show ?thesis by (simp add: commitItem_def answerResult_confirms)
  next
    case (Some x)
    obtain res e where x: "x = (res, e)" by fastforce
    let ?c = "bi_call item"
    let ?w1 = "publishToolEvent rn (finishToolEvent ou ?c res e) (notify (rn_observers rn) ''finished'' (tc_id ?c) w)"
    have w1: "offJournal w ?w1" by (rule offJournal_trans [OF notify_off publish_off])
    then have "offJournal w (notifyReferences rn ?c res ?w1)" by (rule offJournal_trans [OF _ notifyReferences_off])
    with w1 have "offJournal w (if e = None then notifyReferences rn ?c res ?w1 else ?w1)" by (rule offJournal_if)
    from writes_off [OF this answerOutcome_confirms [of ou ?c res e]] \<open>bi_refused item = None\<close> Some x show ?thesis
      by (simp add: commitItem_def Let_def)
  qed
qed

definition confirmsSome :: "string list \<Rightarrow> ('e, 'a) result \<Rightarrow> event list \<Rightarrow> bool" where
  "confirmsSome ids r j \<longleftrightarrow> (\<exists>k. k \<le> length ids \<and> (failed r \<or> k = length ids) \<and> j = List.map Confirmed (take k ids))"

lemma confirmsSome_Cons:
  "confirmsSome ids r j \<Longrightarrow> failed r = failed r' \<Longrightarrow> confirmsSome (c # ids) r' (Confirmed c # j)"
proof -
  assume "confirmsSome ids r j" and same: "failed r = failed r'"
  then obtain k where "k \<le> length ids" "failed r \<or> k = length ids" "j = List.map Confirmed (take k ids)"
    by (auto simp: confirmsSome_def)
  with same show ?thesis unfolding confirmsSome_def by (intro exI [of _ "Suc k"]) simp
qed

lemma confirmsSome_stop: "confirmsSome ids (Inl e) []"
  unfolding confirmsSome_def by (intro exI [of _ 0]) simp

lemma commitAll_confirms:
  "writes (commitAll ou rn items outs n w) w (confirmsSome (List.map (\<lambda>i. tc_id (bi_call i)) items))"
proof (induction items arbitrary: n w)
  case Nil
  then show ?case by (simp add: confirmsSome_def)
next
  case (Cons i items)
  show ?case unfolding commitAll.simps
  proof (rule writes_thenDo [OF commitItem_confirms], goal_cases)
    case (1 inject w1 j)
    then have j: "j = [Confirmed (tc_id (bi_call i))]" by (simp add: confirms_def)
    show ?case unfolding j
      by (rule writes_thenDo [OF Cons.IH]) (simp_all add: confirmsSome_Cons)
  next
    case (2 e j)
    show ?case
    proof (cases "j = []")
      case True
      then show ?thesis by (simp add: confirmsSome_stop)
    next
      case False
      with 2 have "j = [Confirmed (tc_id (bi_call i))]" by (simp add: confirms_def)
      moreover have "confirmsSome (tc_id (bi_call i) # List.map (\<lambda>i. tc_id (bi_call i)) items)
          (Inl e :: (tool_error, tool_part list) result) [Confirmed (tc_id (bi_call i))]"
        by (rule confirmsSome_Cons [OF confirmsSome_stop [where e = e]]) simp
      ultimately show ?thesis by simp
    qed
  qed
qed

lemma runParallelToolBatch_batch:
  "writes (runParallelToolBatch ou cx rn tt perTurn addr parts schedule calls w) w (batchJournal (List.map tc_id calls))"
  unfolding runParallelToolBatch_def Let_def
proof (rule writes_thenDo [OF writes_tryOp], goal_cases)
  case (1 x w1 j)
  let ?calls = "List.map (normalizedCall addr) calls"
  let ?ids = "List.map tc_id calls"
  have ids: "List.map tc_id ?calls = ?ids" by (simp add: comp_def)
  from 1 have j: "j = [Checkpointed ?ids]" by (simp add: comp_def)
  obtain r w2 where ad: "admitAll ou cx rn tt perTurn addr parts ?calls w1 = (r, w2)" by fastforce
  have "offJournal w1 w2"
    using admitAll_nothing [of ou cx rn tt perTurn addr parts ?calls w1] ad
    by (auto simp: writes_def leaves_def nothing_def offJournal_def)
  show ?case
  proof (cases r)
    case (Inl e)
    with ad \<open>offJournal w1 w2\<close> show ?thesis unfolding j
      by (auto intro!: writes_off [of w1 w2] simp: batchJournal_stop)
  next
    case (Inr items)
    obtain br w3 where rb: "runBatch ou cx rn items schedule w2 = (br, w3)" by fastforce
    have w3: "offJournal w1 w3" using offJournal_trans [OF \<open>offJournal w1 w2\<close> runBatch_off [OF rb]] .
    have "admittedPost ou cx rn tt perTurn addr ?calls (Inr items :: (tool_error, batch_item list) result) s \<Longrightarrow>
        List.map (\<lambda>i. tc_id (bi_call i)) items = ?ids" for s
      unfolding admittedPost_def using ids by (metis (no_types, lifting) comp_apply list.map_comp map_eq_conv)
    moreover have "\<exists>s. admittedPost ou cx rn tt perTurn addr ?calls (Inr items :: (tool_error, batch_item list) result) s"
      using admitAll_leaves [of ou cx rn tt perTurn addr parts ?calls w1] ad Inr by (auto simp: leaves_def)
    ultimately have same: "List.map (\<lambda>i. tc_id (bi_call i)) items = ?ids" by blast
    have "writes (commitAll ou rn items (map_of (br_done br)) 0 w3) w1 (\<lambda>r j'. batchJournal ?ids r (j @ j'))"
      by (rule writes_off [OF w3], rule writes_conseq [OF commitAll_confirms])
        (auto simp: j same confirmsSome_def batchJournal_def)
    with ad Inr rb show ?thesis by simp
  qed
next
  case (2 e j)
  then show ?case by (simp add: batchJournal_stop)
qed

end
