(* ===== verification/ExecutionSpec.thy ===== *)
theory ExecutionSpec
  imports ExecutionProtocol
begin

text \<open>
  The properties of the durable record of a turn: its whole life from the first record, and what a
  restarted host does with it.
\<close>

section \<open>A whole turn\<close>

text \<open>Each event with the store calls it is given and the history at that moment.\<close>

type_synonym script = "(store_call \<times> store_call \<times> chat list \<times> turn_event) list"

definition events :: "script \<Rightarrow> turn_event list" where
  "events script = map (\<lambda>(sc0, sc, history, ev). ev) script"

fun performAll ::
  "journal_codec \<Rightarrow> message_codec \<Rightarrow> bool \<Rightarrow> string \<Rightarrow> script \<Rightarrow> execution \<Rightarrow> execution \<times> (exec_error, unit) result" where
  "performAll jc mc managed task [] st = (st, Inr ())"
| "performAll jc mc managed task ((sc0, sc, history, ev) # script) st =
     (case perform jc mc managed task sc0 sc history ev st of
        (st', Inl e) \<Rightarrow> (st', Inl e)
      | (st', Inr _) \<Rightarrow> performAll jc mc managed task script st')"

fun afterEvents :: "bool \<Rightarrow> turn_event list \<Rightarrow> turn_state \<Rightarrow> turn_state option" where
  "afterEvents managed [] s = Some s"
| "afterEvents managed (ev # evs) s = (case afterEvent managed ev s of
      None \<Rightarrow> None | Some s' \<Rightarrow> afterEvents managed evs s')"

text \<open>The iterations do not go down and fit their 32 bits.\<close>

fun iterationsFrom :: "nat \<Rightarrow> turn_event list \<Rightarrow> bool" where
  "iterationsFrom m [] = True"
| "iterationsFrom m (ev # evs) = (case eventIteration ev of
      None \<Rightarrow> iterationsFrom m evs
    | Some n \<Rightarrow> m \<le> n \<and> n < 2 ^ 32 \<and> iterationsFrom n evs)"

definition soundScript :: "journal_codec \<Rightarrow> message_codec \<Rightarrow> string \<Rightarrow> string \<Rightarrow> string \<Rightarrow> script \<Rightarrow> bool" where
  "soundScript jc mc task w s script =
     list_all (\<lambda>(sc0, sc, history, ev). soundEvent jc mc task w s history ev) script"

definition healthyScript :: "script \<Rightarrow> bool" where
  "healthyScript script = list_all (\<lambda>(sc0, sc, history, ev). healthy sc0 \<and> healthy sc) script"

text \<open>How a script ends: in the state of the protocol, or at a call whose surroundings failed.\<close>

definition scriptDone :: "journal_codec \<Rightarrow> script \<Rightarrow> turn_state \<Rightarrow> execution \<Rightarrow> (exec_error, unit) result \<Rightarrow> bool" where
  "scriptDone jc script s' st res \<longleftrightarrow> inStep jc st \<and> (case res of
      Inl e \<Rightarrow> environmental e \<and> \<not> healthyScript script
    | Inr _ \<Rightarrow> map_option turnState (fst st) = Some s')"

lemma script_took:
  assumes "inStep jc (Some r, disk)" "afterEvents managed (events script) (turnState r) = Some s'"
    "iterationsFrom m (events script)" "unat (tr_iteration r) \<le> m" "m < 2 ^ 32"
    "soundScript jc mc task (tr_workspace r) (tr_session r) script"
    "unat (tr_revision r) + 2 * length script < 2 ^ 64"
    "performAll jc mc managed task script (Some r, disk) = (st', res)"
  shows "scriptDone jc script s' st' res"
  using assms
proof (induction script arbitrary: r disk m)
  case Nil
  then show ?case by (auto simp: scriptDone_def events_def)
next
  case (Cons x script)
  obtain sc0 sc history ev where x: "x = (sc0, sc, history, ev)" by (metis prod.exhaust)
  note prems = Cons.prems [unfolded x]
  from prems(2) obtain s1 where s1: "afterEvent managed ev (turnState r) = Some s1"
    "afterEvents managed (events script) s1 = Some s'" by (auto simp: events_def split: option.splits)
  let ?n = "case eventIteration ev of None \<Rightarrow> m | Some n \<Rightarrow> n"
  have n: "m \<le> ?n" "?n < 2 ^ 32" "iterationsFrom ?n (events script)"
    using prems(3,5) by (auto simp: events_def split: option.splits)
  obtain st1 res1 where p: "perform jc mc managed task sc0 sc history ev (Some r, disk) = (st1, res1)" by fastforce
  have le: "tr_iteration r \<le> (of_nat ?n :: 32 word)"
    using prems(4) n(1,2) by (simp add: word_le_nat_alt unat_of_nat)
  have took: "tookStep jc (healthy sc0 \<and> healthy sc) 2 (of_nat ?n) r s1 st1 res1"
    by (rule event_took [OF prems(1) _ s1(1) _ le _ p])
      (use prems(6,7) in \<open>simp_all add: soundScript_def\<close>)
  then obtain r1 disk1 where st1: "st1 = (Some r1, disk1)" by (cases st1; cases "fst st1") (auto simp: tookStep_def)
  show ?case
  proof (cases res1)
    case (Inl e)
    with took st1 p prems(8) x show ?thesis by (auto simp: tookStep_def scriptDone_def healthyScript_def)
  next
    case (Inr u)
    from took st1 Inr have r1: "inStep jc (Some r1, disk1)" "turnState r1 = s1" "tr_workspace r1 = tr_workspace r"
      "tr_session r1 = tr_session r" "tr_iteration r1 \<le> of_nat ?n" "unat (tr_revision r1) \<le> unat (tr_revision r) + 2"
      by (simp_all add: tookStep_def del: inStep.simps)
    have "scriptDone jc script s' st' res"
    proof (rule Cons.IH [OF r1(1) _ n(3) _ n(2)])
      show "afterEvents managed (events script) (turnState r1) = Some s'" using s1(2) r1(2) by simp
      show "unat (tr_iteration r1) \<le> ?n" using r1(5) n(2) by (simp add: word_le_nat_alt unat_of_nat)
      show "soundScript jc mc task (tr_workspace r1) (tr_session r1) script"
        using prems(6) r1(3,4) by (simp add: soundScript_def)
      show "unat (tr_revision r1) + 2 * length script < 2 ^ 64" using prems(7) r1(6) by simp
      show "performAll jc mc managed task script (Some r1, disk1) = (st', res)" using prems(8) p Inr st1 by simp
    qed
    then show ?thesis by (cases res) (auto simp: scriptDone_def healthyScript_def)
  qed
qed

section \<open>The first record\<close>

lemma begin_in_step:
  assumes "beginTurnExecution jc mc True sc owner a user disk = (disk', Inr (Some r))" "0 < sc_now sc"
  shows "inStep jc (Some r, disk')" "turnState r = Begun" "tr_revision r = 1" "tr_iteration r = 0"
    "tr_workspace r = ma_workspace a" "tr_session r = ma_thread a" "tr_owner r = owner"
proof -
  from assms(1) obtain input where "fileCreate jc (sc_done sc) (sc_io sc) (sc_now sc) (newExecutionRecord owner a input (ch_id user)) disk = (disk', Inr r)"
    by (auto simp: beginTurnExecution_def split: if_splits sum.splits prod.splits)
  then have r: "r = createdRecord (sc_now sc) (newExecutionRecord owner a input (ch_id user))"
    and v: "validateRecord jc r = Inr ()" "encodable r"
    and disk: "disk' = AList.update (journalPath jc (tr_workspace r) (tr_task r)) (JournalFile (storedRecord r)) disk"
    by (auto simp: fileCreate_def persistRecord_def Let_def split: if_splits sum.splits)
  have f: "tr_batch r = None" "tr_phase r = PhasePrepared" "tr_created r = sc_now sc"
    by (simp_all add: r createdRecord_def newExecutionRecord_def)
  then have "storedRecord r = r" by (simp add: stored_iff keptBatch_def)
  with v disk f(3) assms(2) show "inStep jc (Some r, disk')" by (simp add: update_conv)
  show "turnState r = Begun" using f(2) by (rule turnState_simps)
  show "tr_revision r = 1" "tr_iteration r = 0" "tr_workspace r = ma_workspace a" "tr_session r = ma_thread a" "tr_owner r = owner"
    by (simp_all add: r createdRecord_def newExecutionRecord_def)
qed


section \<open>Closing a record\<close>

text \<open>What reading the record of a turn gives.\<close>

lemma inStep_lookup:
  assumes "inStep jc (Some r, disk)" "healthy sc"
  shows "getRecord jc sc (tr_workspace r) (tr_task r) disk = Inr r"
proof -
  from assms(1) have r: "validateRecord jc r = Inr ()" by simp
  then have "headerOk r" by (simp add: validateRecord_iff)
  then have "validateLookup (tr_workspace r) (tr_task r) = Inr ()"
    by (auto simp: headerOk_def validateLookup_def split: sum.splits)
  with r assms show ?thesis by (simp add: getRecord_def fileGet_def healthy_def loadRecord_def decodeJournal_def)
qed

lemma legal_acknowledge:
  assumes r: "validateRecord jc r = Inr ()" and p: "acknowledgedPhase (tr_phase r) = Some p"
  shows "legalUpdate jc r (r\<lparr>tr_phase := p\<rparr>)" "terminalPhase p" "\<not> terminalPhase (tr_phase r)"
proof -
  let ?m = "r\<lparr>tr_phase := p\<rparr>"
  from p consider "tr_phase r = PhaseCompleting" "p = PhaseCompleted" | "tr_phase r = PhaseFailing" "p = PhaseFailed"
    | "tr_phase r = PhaseInterrupting" "p = PhaseInterrupted"
    by (cases "tr_phase r") (auto simp: acknowledgedPhase_def)
  note cases = this
  then show nt: "terminalPhase p" "\<not> terminalPhase (tr_phase r)" by (cases; simp add: terminalPhase_def)+
  have "batchFits jc (tr_workspace r) (tr_session r) p (tr_batch r)"
    using cases valid_fits [OF r] by cases (auto simp: batchFits_def countsFit_def split: option.splits)
  moreover have "validateBatchChange jc r ?m = Inr ()" by (rule batchChange_same [OF r]) simp
  moreover have "allowedPhaseTransition (tr_phase r) p" "validPhase p"
    using cases by (cases; simp add: allowedPhaseTransition_def validPhase_def)+
  moreover have "needsReason p \<longrightarrow> trim_space (tr_reason r) \<noteq> []"
  proof -
    have t: "validateTerminal r = Inr ()" using r by (simp add: validateRecord_iff)
    show ?thesis
    proof
      assume reason: "needsReason p"
      have "tr_phase r = PhaseFailing \<or> tr_phase r = PhaseInterrupting"
        using cases by cases (use reason in \<open>simp_all add: needsReason_def\<close>)
      with t nt(2) show "trim_space (tr_reason r) \<noteq> []" by (auto simp: validateTerminal_def split: if_splits)
    qed
  qed
  moreover have "sameTurn r ?m" by (simp add: sameTurn_def)
  ultimately show "legalUpdate jc r ?m"
    using nt valid_last [OF r] unfolding legalUpdate_def by simp
qed

text \<open>The calls of an acknowledgment without another writer.\<close>

definition alone :: "ack_env \<Rightarrow> bool" where
  "alone env \<longleftrightarrow> ak_between env = (\<lambda>d. d) \<and> ak_after env = (\<lambda>d. d)"

lemma acknowledge_closes:
  assumes st: "inStep jc (Some r, disk)" and rev: "unat (tr_revision r) + 1 < 2 ^ 64"
    and s: "turnState r = Closing" and env: "ak_between env = (\<lambda>d. d)" "healthy (ak_get env)" "healthy (ak_update env)"
  shows "\<exists>r' disk'. AcknowledgeTaskTerminal jc True env (tr_owner r) (tr_workspace r) (tr_task r) disk = (disk', Inr ()) \<and>
    inStep jc (Some r', disk') \<and> turnState r' = Over \<and> acknowledgedPhase (tr_phase r) = Some (tr_phase r') \<and>
    tr_batch r' = tr_batch r"
proof -
  note f = inStep_facts [OF st]
  from s turnState_phase(3) [OF f(3)] obtain p where p: "acknowledgedPhase (tr_phase r) = Some p"
    by (auto simp: pendingTerminal_def acknowledgedPhase_def)
  note legal = legal_acknowledge [OF f(1) p]
  let ?f = "\<lambda>r. r\<lparr>tr_phase := p\<rparr>"
  obtain st' res where up: "updateExecution jc (ak_update env) ?f (Some r, disk) = (st', res)" by fastforce
  have next_ok: "tr_revision r + 1 \<noteq> 0" using rev by (auto simp: unat_word_ariths dest!: arg_cong [of _ _ unat])
  have "updated jc (ak_update env) r (?f r) disk st' res"
    by (rule updateExecution_legal [OF st legal(1) _ next_ok up]) (use f(2) in \<open>simp add: stored_iff\<close>)
  then obtain u where u: "res = Inr u" "updated jc (ak_update env) r (?f r) disk st' (Inr u)"
    using env(3) by (cases res) (simp_all add: updated_def)
  then obtain now disk' where st': "st' = (Some (updatedRecord now (tr_revision r) r (?f r)), disk')" "inStep jc st'"
    unfolding updated_def sum.case by blast
  let ?r' = "updatedRecord now (tr_revision r) r (?f r)"
  from up st'(1) u(1) have "fileUpdate jc (sc_done (ak_update env)) (sc_io (ak_update env)) (sc_now (ak_update env))
      (tr_revision r) (r\<lparr>tr_phase := p\<rparr>) disk = (disk', Inr ?r')"
    by (auto simp: updateExecution_def split: prod.splits sum.splits)
  then have "AcknowledgeTaskTerminal jc True env (tr_owner r) (tr_workspace r) (tr_task r) disk = (disk', Inr ())"
    using inStep_lookup [OF st env(2)] legal(3) p env(1) by (simp add: AcknowledgeTaskTerminal_def)
  moreover have "turnState ?r' = Over" using legal(2) by (simp add: turnState_simps)
  ultimately show ?thesis using st' p by (intro exI [of _ ?r'] exI [of _ disk']) (simp add: updatedRecord_simps del: inStep.simps)
qed


section \<open>After a restart\<close>

text \<open>What a resumed turn starts from.\<close>

definition resumeFrom :: "turn_record \<Rightarrow> turn_record \<times> chat \<Rightarrow> message_codec \<Rightarrow> chat list \<Rightarrow> bool" where
  "resumeFrom r start mc messages \<longleftrightarrow> (case start of (r', user) \<Rightarrow>
     r' = r \<and> ma_workspace (ch_addr user) = tr_workspace r \<and> ma_thread (ch_addr user) = tr_session r \<and>
     ma_task (ch_addr user) = tr_task r \<and>
     list_ex (\<lambda>m. ch_id m = ch_id user \<and> refOf mc m = Inr (tr_input r)) messages)"

lemma messageByRef_from:
  assumes "journalMessageByRef mc messages ref = Inr m"
  shows "m \<in> set messages" "ch_id m = hr_message ref" "refOf mc m = Inr ref"
proof -
  from assms have found: "findMessage messages (hr_message ref) = Inr m" "refOf mc m = Inr ref"
    by (auto simp: journalMessageByRef_def and_then_Inr_iff split: if_splits)
  from found(1) have "filter (\<lambda>x. ch_id x = hr_message ref) messages = [m]"
    by (auto simp: findMessage_def split: list.splits)
  then have "m \<in> set (filter (\<lambda>x. ch_id x = hr_message ref) messages)" by simp
  then show "m \<in> set messages" "ch_id m = hr_message ref" by simp_all
  show "refOf mc m = Inr ref" by (rule found(2))
qed

lemma interrupt_closes:
  assumes st: "inStep jc (Some r, disk)" and rev: "unat (tr_revision r) + 1 < 2 ^ 64" and p: "runningPhase (tr_phase r)"
    and sc: "healthy sc"
  shows "\<exists>r' disk'. interruptExecution jc sc managed reason (Some r, disk) = ((Some r', disk'), Inr ()) \<and>
    inStep jc (Some r', disk') \<and> turnState r' = (if managed then Closing else Over) \<and>
    closingPhase (tr_phase r') \<and> \<not> journalBatchHasRequested (tr_batch r') \<and>
    tr_workspace r' = tr_workspace r \<and> tr_task r' = tr_task r"
proof -
  note f = inStep_facts [OF st]
  let ?q = "if managed then PhaseInterrupting else PhaseInterrupted"
  let ?f = "interruptRecord' managed reason"
  have q: "closingPhase ?q" by (simp add: closingPhase_def)
  have m: "?f r = markJournalBatchUncertain (r\<lparr>tr_phase := ?q, tr_reason := boundedJournalReason reason\<rparr>)"
    by (simp add: interruptRecord'_def)
  note legal = legal_interrupt [OF f(1) p q boundedJournalReason_not_blank, of reason, folded m]
  have kept: "keptBatch (tr_batch (?f r))"
    using f(2) by (cases "tr_batch r") (auto simp: m markJournalBatchUncertain_def keptBatch_def list_all_iff storedCall_iff)
  have phase: "tr_phase (?f r) = ?q" by (simp add: m markJournalBatchUncertain_def)
  obtain st' res where up: "updateExecution jc sc ?f (Some r, disk) = (st', res)" by fastforce
  have next_ok: "tr_revision r + 1 \<noteq> 0" using rev by (auto simp: unat_word_ariths dest!: arg_cong [of _ _ unat])
  have "updated jc sc r (?f r) disk st' res"
    by (rule updateExecution_legal [OF st legal(1) _ next_ok up]) (use kept in \<open>simp add: stored_iff\<close>)
  then obtain u where u: "res = Inr u" "updated jc sc r (?f r) disk st' (Inr u)"
    using sc by (cases res) (simp_all add: updated_def)
  then obtain now disk' where st': "st' = (Some (updatedRecord now (tr_revision r) r (?f r)), disk')" "inStep jc st'"
    unfolding updated_def sum.case by blast
  let ?r' = "updatedRecord now (tr_revision r) r (?f r)"
  note same = sameTurn_fields [OF legal(1) [unfolded legalUpdate_def, THEN conjunct1]]
  have "interruptExecution jc sc managed reason (Some r, disk) = ((Some ?r', disk'), Inr ())"
    using up st'(1) u(1) running_facts(1) [OF p] by (simp add: interruptExecution_def)
  moreover have "turnState ?r' = (if managed then Closing else Over)"
    using phase turnState_simps(6,7) [of ?r'] by (cases managed) (simp_all add: updatedRecord_simps terminalPhase_def pendingTerminal_def)
  moreover have "closingPhase (tr_phase ?r')" using phase q by (simp add: updatedRecord_simps)
  moreover have "\<not> journalBatchHasRequested (tr_batch ?r')" using legal(2) by (simp add: updatedRecord_simps)
  moreover have "tr_workspace ?r' = tr_workspace r" "tr_task ?r' = tr_task r" using same by (simp_all add: updatedRecord_simps)
  ultimately show ?thesis using st' by (intro exI [of _ ?r'] exI [of _ disk']) (simp del: inStep.simps)
qed

text \<open>
  A restart with the record of a running turn: a turn that waits for a child or has its result is
  resumed from the user message of the record, and nothing is written; every other one is not run
  again but interrupted durably, and none of its calls is left requested.
\<close>

definition restartKept ::
  "journal_codec \<Rightarrow> message_codec \<Rightarrow> bool \<Rightarrow> (session_error, chat list) result \<Rightarrow> turn_record \<Rightarrow> journal_disk \<Rightarrow>
   journal_disk \<times> (exec_error, turn_record \<times> chat) result \<Rightarrow> bool" where
  "restartKept jc mc managed history r disk answer \<longleftrightarrow> (case answer of (disk', res) \<Rightarrow>
     if tr_phase r = PhaseWaitingExternalChild \<or> tr_phase r = PhaseChildResolved then
       disk' = disk \<and> (case (history, res) of
          (Inr messages, Inr start) \<Rightarrow> resumeFrom r start mc messages
        | (Inl e, Inr start) \<Rightarrow> False
        | (h, Inl e) \<Rightarrow> True)
     else res = Inl (RecoveryUnsafe (unsafeReason (tr_phase r))) \<and>
       (\<exists>r'. inStep jc (Some r', disk') \<and> turnState r' = (if managed then Closing else Over) \<and>
          closingPhase (tr_phase r') \<and> \<not> journalBatchHasRequested (tr_batch r') \<and>
          tr_workspace r' = tr_workspace r \<and> tr_task r' = tr_task r))"

lemma resume_keeps:
  assumes st: "inStep jc (Some r, disk)" and rev: "unat (tr_revision r) + 1 < 2 ^ 64" and p: "runningPhase (tr_phase r)"
    and sc: "healthy sc" "healthy sc'"
  shows "restartKept jc mc managed history r disk
    (ResumeTurn jc mc True sc sc' managed history (tr_owner r) (tr_workspace r) (tr_task r) disk)"
proof -
  have own: "ownRecord jc True sc (tr_owner r) (tr_workspace r) (tr_task r) disk = Inr r"
    using inStep_lookup [OF st sc(1)] by (simp add: ownRecord_def)
  note nt = running_facts(1) [OF p]
  show ?thesis
  proof (cases "tr_phase r = PhaseWaitingExternalChild \<or> tr_phase r = PhaseChildResolved")
    case True
    show ?thesis
    proof (cases history)
      case (Inl e)
      with True own nt show ?thesis by (auto simp: ResumeTurn_def restartKept_def)
    next
      case (Inr messages)
      show ?thesis
      proof (cases "journalMessageByRef mc messages (tr_input r)")
        case (Inl e)
        with True own nt Inr show ?thesis by (auto simp: ResumeTurn_def restartKept_def)
      next
        case found: (Inr user)
        note msg = messageByRef_from [OF found]
        have "resumeFrom r (r, user\<lparr>ch_addr := (ch_addr user)\<lparr>ma_workspace := tr_workspace r,
            ma_thread := tr_session r, ma_task := tr_task r\<rparr>\<rparr>) mc messages"
          using msg by (auto simp: resumeFrom_def list_ex_iff)
        with True own nt Inr found show ?thesis by (auto simp: ResumeTurn_def restartKept_def)
      qed
    qed
  next
    case False
    from interrupt_closes [OF st rev p sc(2), of managed "unsafeReason (tr_phase r)"] obtain r' disk' where
      i: "interruptExecution jc sc' managed (unsafeReason (tr_phase r)) (Some r, disk) = ((Some r', disk'), Inr ())"
      and r': "inStep jc (Some r', disk')" "turnState r' = (if managed then Closing else Over)" "closingPhase (tr_phase r')"
        "\<not> journalBatchHasRequested (tr_batch r')" "tr_workspace r' = tr_workspace r" "tr_task r' = tr_task r"
      by blast
    have answer: "ResumeTurn jc mc True sc sc' managed history (tr_owner r) (tr_workspace r) (tr_task r) disk =
        (disk', Inl (RecoveryUnsafe (unsafeReason (tr_phase r))))"
      using False own nt i by (simp add: ResumeTurn_def)
    show ?thesis unfolding answer restartKept_def prod.case using False r'
      by (auto simp del: inStep.simps intro!: exI [of _ r'])
  qed
qed


text \<open>A failing end, with a working store.\<close>

lemma finish_closes:
  assumes st: "inStep jc (Some r, disk)" and rev: "unat (tr_revision r) + 2 < 2 ^ 64" and p: "runningPhase (tr_phase r)"
    and sc: "healthy sc"
  shows "case finishExecution jc sc managed (Some x) (Some r, disk) of
    ((None, disk'), res) \<Rightarrow> False
  | ((Some r', disk'), res) \<Rightarrow> \<not> failed res \<and> inStep jc (Some r', disk') \<and>
      turnState r' = (if settlesFirst managed (Some x) then Closing else Over) \<and>
      \<not> journalBatchHasRequested (tr_batch r')"
proof -
  note f = inStep_facts [OF st]
  have ok: "Some x = None \<longrightarrow> tr_phase r = PhaseProviderPending \<or> tr_phase r = PhaseChildResolved" by simp
  note legal = finishRecord_legal [OF f(1,2) p ok, of managed]
  obtain st' res where up: "updateExecution jc sc (finishRecord managed (Some x)) (Some r, disk) = (st', res)" by fastforce
  have next_ok: "tr_revision r + 1 \<noteq> 0" using rev by (auto simp: unat_word_ariths dest!: arg_cong [of _ _ unat])
  have "updated jc sc r (finishRecord managed (Some x) r) disk st' res"
    by (rule updateExecution_legal [OF st _ _ next_ok up]) (use legal(1,2) in \<open>simp_all add: stored_iff\<close>)
  then obtain u where u: "res = Inr u" "updated jc sc r (finishRecord managed (Some x) r) disk st' (Inr u)"
    using sc by (cases res) (simp_all add: updated_def)
  then obtain now disk' where st': "st' = (Some (updatedRecord now (tr_revision r) r (finishRecord managed (Some x) r)), disk')"
    "inStep jc st'" unfolding updated_def sum.case by blast
  have "finishExecution jc sc managed (Some x) (Some r, disk) = (st', res)"
    using up running_facts(1) [OF p] by (simp add: finishExecution_def)
  moreover have "turnState (finishRecord managed (Some x) r) = (if settlesFirst managed (Some x) then Closing else Over)"
    using finalPhase_closes [of managed "Some x" "tr_batch r"] turnState_simps(6,7) [of "finishRecord managed (Some x) r"]
    unfolding legal(3) by (simp split: if_splits)
  ultimately show ?thesis using st' u(1) legal(5) by (simp add: updatedRecord_simps del: inStep.simps)
qed

section \<open>Properties\<close>


text \<open>A turn with one tool call and a child that another host runs.\<close>

definition runCodec :: journal_codec where
  "runCodec = \<lparr>jc_sha = (\<lambda>v. replicate 64 CHR 0x61), jc_valid = (\<lambda>v. True)\<rparr>"

definition runMessages :: message_codec where
  "runMessages = \<lparr>mc_fields = (\<lambda>m. Some [(''id'', JOther (ch_id m))]), mc_encode = (\<lambda>kvs. Some ''{}''),
     mc_sha = (\<lambda>v. replicate 64 CHR 0x61)\<rparr>"

definition goodCall :: "time \<Rightarrow> store_call" where
  "goodCall t = \<lparr>sc_done = False, sc_io = io_ok, sc_now = t\<rparr>"

definition runAddress :: message_address where
  "runAddress = \<lparr>ma_tenant = [], ma_user = [], ma_ownership = [], ma_workspace = ''w'', ma_thread = ''s'', ma_task = ''t''\<rparr>"

definition runMessage :: "string \<Rightarrow> chat" where
  "runMessage i = \<lparr>ch_id = i, ch_role = RoleAssistant, ch_addr = runAddress, ch_parts = []\<rparr>"

definition runHistory :: "chat list" where
  "runHistory = map runMessage [''a1'', ''c1-result'', ''a2'']"

definition runCall :: tool_call where
  "runCall = \<lparr>tc_id = ''c1'', tc_name = ''task'', tc_args = ''{}'', tc_addr = runAddress, tc_ref = None\<rparr>"

definition runAnswer :: history_ref where
  "runAnswer = \<lparr>hr_workspace = ''w'', hr_session = ''s'', hr_message = ''a1'', hr_digest = replicate 64 CHR 0x61\<rparr>"

definition runScript :: script where
  "runScript = map (\<lambda>ev. (goodCall 7, goodCall 8, runHistory, ev))
     [Asking 1, Answered ''a1'' 1, Calling [runCall] runAnswer 1,
      Admitting \<lparr>ac_background = False, ac_invocation = ''c1'', ac_execution = ''e1'', ac_session = ''s1'',
        ac_descriptor = Some ''{}''\<rparr>,
      Resulting ''c1'' 1, Asking 2, Answered ''a2'' 2, Ending None]"

definition runStart :: "journal_disk \<times> (exec_error, turn_record option) result" where
  "runStart = beginTurnExecution runCodec runMessages True (goodCall 5) ''host'' runAddress (runMessage ''u1'') []"

definition firstRecord :: turn_record where
  "firstRecord = (case runStart of (d, Inr (Some r)) \<Rightarrow> r | _ \<Rightarrow> newExecutionRecord [] runAddress noRef [])"

lemma run_child:
  "newExternalChildRef runCodec ''t'' ''e1'' ''s1'' ''{}'' =
     Inr \<lparr>xr_task = ''t'', xr_execution = ''e1'', xr_child = ''s1'', xr_descriptor = ''{}'', xr_digest = replicate 64 CHR 0x61\<rparr>"
proof -
  have "validateIdentifier ''t'' = Inr ()" "validateIdentifier ''e1'' = Inr ()" "validateIdentifier ''s1'' = Inr ()"
    "compactFrom False ''{}'' = ''{}''" "validDigest (replicate 64 CHR 0x61)" by code_simp+
  then show ?thesis
    by (simp add: newExternalChildRef_def compactJSON_def runCodec_def validateExternalChildRef_def
        maxExternalDescriptorBytes_def and_then_def)
qed

lemma run_sound:
  "storedExternal \<lparr>xr_task = ''t'', xr_execution = ''e1'', xr_child = ''s1'', xr_descriptor = ''{}'',
     xr_digest = replicate 64 CHR 0x61\<rparr> = \<lparr>xr_task = ''t'', xr_execution = ''e1'', xr_child = ''s1'',
     xr_descriptor = ''{}'', xr_digest = replicate 64 CHR 0x61\<rparr>"
  "recorded runMessages ''w'' ''s'' runHistory ''a1''" "recorded runMessages ''w'' ''s'' runHistory ''a2''"
  "recorded runMessages ''w'' ''s'' runHistory (''c1'' @ ''-result'')" "batchAdmissible runMessages [runCall]"
  "validateHistoryRef runAnswer ''w'' ''s'' = Inr ()" "ma_workspace runAddress = ''w''" "ma_thread runAddress = ''s''"
  by code_simp+

lemma runStart_first: "runStart = (fst runStart, Inr (Some firstRecord))"
  by code_simp



lemma firstRecord_facts:
  "inStep runCodec (Some firstRecord, fst runStart)" "tr_revision firstRecord = 1" "runningPhase (tr_phase firstRecord)"
proof -
  have "beginTurnExecution runCodec runMessages True (goodCall 5) ''host'' runAddress (runMessage ''u1'') [] =
      (fst runStart, Inr (Some firstRecord))"
    using runStart_first by (simp only: runStart_def)
  note b = begin_in_step [OF this]
  then show "inStep runCodec (Some firstRecord, fst runStart)" "tr_revision firstRecord = 1" by (simp_all add: goodCall_def del: inStep.simps)
  show "runningPhase (tr_phase firstRecord)" by code_simp
qed




end
