(* ===== verification/LoopProtocol.thy ===== *)
theory LoopProtocol
  imports LoopJournal ExecutionSpec
begin

text \<open>
  The loop of a turn and the journal together: every run of the loop follows the protocol of the
  journal, so that nothing it records is refused.
\<close>

section \<open>The journal's view of the loop\<close>

text \<open>What the protocol does not look at is left out of the calls and the reference.\<close>

definition plainCall :: "string \<Rightarrow> tool_call" where
  "plainCall i = \<lparr>tc_id = i, tc_name = [], tc_args = [], tc_addr = runAddress, tc_ref = None\<rparr>"

lemma plainCall_id [simp]: "tc_id (plainCall i) = i" "tc_id \<circ> plainCall = (\<lambda>i. i)"
  by (auto simp: plainCall_def)

text \<open>The iterations as the loop counts them: calls and results belong to the next one.\<close>

fun turnEvents :: "nat \<Rightarrow> event list \<Rightarrow> turn_event list" where
  "turnEvents m (ModelPending n # es) = Asking n # turnEvents n es"
| "turnEvents m (AssistantKept a # es) = Answered a m # turnEvents m es"
| "turnEvents m (Checkpointed ids # es) = Calling (List.map plainCall ids) noRef (m + 1) # turnEvents m es"
| "turnEvents m (Confirmed c # es) = Resulting c (m + 1) # turnEvents m es"
| "turnEvents m (e # es) = turnEvents m es"
| "turnEvents m [] = []"

fun lastAsked :: "nat \<Rightarrow> event list \<Rightarrow> nat" where
  "lastAsked m [] = m"
| "lastAsked m (e # es) = lastAsked (case e of ModelPending n \<Rightarrow> n | _ \<Rightarrow> m) es"

lemma turnEvents_append: "turnEvents m (xs @ ys) = turnEvents m xs @ turnEvents (lastAsked m xs) ys"
  by (induction m xs rule: turnEvents.induct) simp_all

lemma afterEvents_append:
  "afterEvents managed (xs @ ys) s = (case afterEvents managed xs s of None \<Rightarrow> None | Some s' \<Rightarrow> afterEvents managed ys s')"
  by (induction xs arbitrary: s) (auto split: option.splits)

lemma iterationsFrom_mono: "iterationsFrom m evs \<Longrightarrow> m' \<le> m \<Longrightarrow> iterationsFrom m' evs"
  by (induction evs arbitrary: m m') (auto split: option.splits)

lemma iterationsFrom_append:
  "iterationsFrom m xs \<Longrightarrow> list_all (\<lambda>ev. case eventIteration ev of None \<Rightarrow> True | Some n \<Rightarrow> n \<le> p) xs \<Longrightarrow> m \<le> p \<Longrightarrow>
   iterationsFrom p ys \<Longrightarrow> iterationsFrom m (xs @ ys)"
  by (induction xs arbitrary: m) (auto split: option.splits intro: iterationsFrom_mono)

text \<open>Every batch has calls, with different ids.\<close>

definition validBatches :: "event list \<Rightarrow> bool" where
  "validBatches es = list_all (\<lambda>e. case e of Checkpointed ids \<Rightarrow> ids \<noteq> [] \<and> distinct ids | _ \<Rightarrow> True) es"

lemma validBatches_simps [simp]:
  "validBatches []" "validBatches (xs @ ys) \<longleftrightarrow> validBatches xs \<and> validBatches ys"
  "validBatches (Checkpointed ids # es) \<longleftrightarrow> ids \<noteq> [] \<and> distinct ids \<and> validBatches es"
  "validBatches (Confirmed c # es) = validBatches es" "validBatches (ModelPending n # es) = validBatches es"
  "validBatches (AssistantKept a # es) = validBatches es"
  by (auto simp: validBatches_def)

section \<open>The calls of one answer\<close>

definition openState :: "turn_state \<Rightarrow> bool" where
  "openState s \<longleftrightarrow> s \<noteq> Closing \<and> s \<noteq> Over"

text \<open>From \<open>s\<close> the journal events are a path of the protocol; the operation ends well in \<open>Idle\<close> only.\<close>

definition follows :: "bool \<Rightarrow> nat \<Rightarrow> turn_state \<Rightarrow> ('e, 'a) result \<Rightarrow> event list \<Rightarrow> bool" where
  "follows managed m s r j \<longleftrightarrow> (if validBatches j then
     (case afterEvents managed (turnEvents m j) s of
        None \<Rightarrow> False
      | Some s' \<Rightarrow> openState s' \<and> (failed r \<or> s' = Idle))
     else True)"

lemma follows_append:
  assumes "follows managed m s (Inr x :: ('e, 'a) result) j" "follows managed (lastAsked m j) Idle r j'"
  shows "follows managed m s r (j @ j')"
  using assms by (auto simp: follows_def turnEvents_append afterEvents_append split: if_splits option.splits)

definition isCallEvent :: "event \<Rightarrow> bool" where
  "isCallEvent e \<longleftrightarrow> (case e of Checkpointed ids \<Rightarrow> True | Confirmed c \<Rightarrow> True | _ \<Rightarrow> False)"

lemma isCallEvent_simps [simp]: "isCallEvent (Checkpointed ids)" "isCallEvent (Confirmed c)"
  by (simp_all add: isCallEvent_def)

lemma calls_keep_count: "list_all isCallEvent j \<Longrightarrow> lastAsked m j = m"
  by (induction j) (auto simp: isCallEvent_def split: event.splits)

lemma calls_iterations:
  "list_all isCallEvent j \<Longrightarrow> list_all (\<lambda>ev. eventIteration ev = Some (m + 1)) (turnEvents m j)"
  by (induction j) (auto simp: isCallEvent_def split: event.splits)

lemma iterationsFrom_const:
  "list_all (\<lambda>ev. eventIteration ev = Some p) evs \<Longrightarrow> m \<le> p \<Longrightarrow> p < 2 ^ 32 \<Longrightarrow> iterationsFrom m evs"
  by (induction evs arbitrary: m) auto

definition callsPath :: "('e, 'a) result \<Rightarrow> event list \<Rightarrow> bool" where
  "callsPath r j \<longleftrightarrow> list_all isCallEvent j \<and> (\<forall>managed m. follows managed m Idle r j)"

lemma callsPath_nothing: "callsPath r []"
  by (simp add: callsPath_def follows_def openState_def)

lemma callsPath_append:
  assumes "callsPath (Inr x :: ('e, 'a) result) j" "callsPath r j'"
  shows "callsPath r (j @ j')"
proof -
  from assms have calls: "list_all isCallEvent (j @ j')" by (simp add: callsPath_def)
  have "follows managed m Idle r (j @ j')" for managed m
  proof (rule follows_append)
    show "follows managed m Idle (Inr x :: ('e, 'a) result) j" using assms(1) by (simp add: callsPath_def)
    show "follows managed (lastAsked m j) Idle r j'"
      using assms calls_keep_count [of j m] by (simp add: callsPath_def)
  qed
  with calls show ?thesis by (simp add: callsPath_def)
qed

lemma callsPath_failed: "callsPath r j \<Longrightarrow> failed r' \<or> \<not> failed r \<Longrightarrow> callsPath r' j"
  by (auto simp: callsPath_def follows_def split: option.splits)

lemma confirmed_path:
  "distinct ids \<Longrightarrow> k \<le> length ids \<Longrightarrow> ids \<noteq> [] \<Longrightarrow>
   afterEvents managed (turnEvents m (List.map Confirmed (take k ids))) (Busy n ids) =
     Some (if k = length ids then Idle else Busy n (drop k ids))"
proof (induction k arbitrary: ids)
  case (Suc k)
  then obtain c cs where ids: "ids = c # cs" by (cases ids) auto
  with Suc.prems have rest: "filter (\<lambda>x. x \<noteq> c) cs = cs" by (auto simp: filter_id_conv)
  show ?case
  proof (cases "cs = []")
    case True
    with ids Suc.prems show ?thesis by simp
  next
    case False
    with Suc.IH [of cs] Suc.prems ids rest show ?thesis by (simp add: Let_def)
  qed
qed simp

lemma batchJournal_path: "batchJournal ids r j \<Longrightarrow> callsPath r j"
proof -
  assume "batchJournal ids r j"
  then consider "failed r" "j = []"
    | k where "k \<le> length ids" "failed r \<or> k = length ids" "j = Checkpointed ids # List.map Confirmed (take k ids)"
    by (auto simp: batchJournal_def)
  then show ?thesis
  proof cases
    case 1
    then show ?thesis by (simp add: callsPath_nothing)
  next
    case 2
    have "follows managed m Idle r j" for managed m
    proof (cases "validBatches j")
      case True
      with 2(3) have ids: "distinct ids" "ids \<noteq> []" by auto
      with confirmed_path [OF ids(1) 2(1) ids(2), of managed m "length ids"] 2 True show ?thesis
        by (auto simp: follows_def openState_def)
    qed (simp add: follows_def)
    moreover have "list_all isCallEvent j" by (simp add: 2(3) list_all_iff)
    ultimately show ?thesis by (simp add: callsPath_def)
  qed
qed

lemma handleCalls_path: "writes (handleCalls ou cx rn tt perTurn addr parts calls w) w callsPath"
proof (induction calls arbitrary: w)
  case Nil
  then show ?case by (simp add: callsPath_nothing)
next
  case (Cons c cs)
  show ?case unfolding handleCalls.simps
  proof (rule writes_thenDo [OF handleCall_batch], goal_cases)
    case (1 inject w1 j)
    then have j: "callsPath (Inr inject :: (tool_error, tool_part list) result) j" by (rule batchJournal_path)
    show ?case
    proof (rule writes_thenDo [OF Cons.IH], goal_cases)
      case (1 more w2 j2)
      then have "callsPath (Inr (inject @ more) :: (tool_error, tool_part list) result) j2" by (rule callsPath_failed) simp
      from callsPath_append [OF j this] show ?case by simp
    next
      case (2 e j2)
      then show ?case by (rule callsPath_append [OF j])
    qed
  next
    case (2 e j)
    then show ?case by (rule batchJournal_path)
  qed
qed

lemma runCalls_path: "writes (runCalls ou cx rn tt perTurn addr schedule content calls w) w callsPath"
  unfolding runCalls_def
proof (rule nothing_thenDo, goal_cases)
  case 1
  show ?case by (rule nothing_tryAll) (simp add: list_all_iff)
next
  case (2 x w1)
  have run: "writes (if toolBatchParallelSafe calls tt
         then runParallelToolBatch ou cx rn tt perTurn addr (callParts content) schedule calls w1
         else handleCalls ou cx rn tt perTurn addr (callParts content) calls w1) w1 callsPath"
    by (auto simp: handleCalls_path intro: writes_conseq [OF runParallelToolBatch_batch] batchJournal_path)
  show ?case
  proof (rule writes_thenDo [OF run], goal_cases)
    case (1 inject w2 j)
    have "writes (if inject = [] then (Inr (), w2)
        else tryOp ou ''append injected user message'' (Saved (SavedUser inject)) w2) w2 nothing"
      by (simp add: nothing_tryOp) (simp add: nothing_def)
    then show ?case
      by (rule writes_conseq) (use 1 callsPath_append callsPath_nothing in \<open>fastforce simp: nothing_def\<close>)
  next
    case (2 e j)
    then show ?case by (auto elim: callsPath_failed)
  qed
next
  case (3 e)
  show ?case by (rule callsPath_nothing)
qed


section \<open>The loop\<close>

definition answerJournal :: "nat \<Rightarrow> ('e, 'a) result \<Rightarrow> event list \<Rightarrow> bool" where
  "answerJournal n r j \<longleftrightarrow> failed r \<and> j = [] \<or> failed r \<and> j = [ModelPending n] \<or>
     (\<exists>a. j = [ModelPending n, AssistantKept a])"

lemma nextAssistant_writes: "writes (nextAssistant ou tt n w) w (answerJournal n)"
  unfolding nextAssistant_def deliverSteering_def
proof (rule nothing_thenDo [OF nothing_deliverAll], goal_cases)
  case (1 x1 w1)
  show ?case
  proof (rule writes_thenDo [OF writes_tryOp], goal_cases)
    case (1 x2 w2 j2)
    then have j2: "j2 = [ModelPending n]" by simp
    show ?case
    proof (rule nothing_thenDo [OF nothing_askModel], goal_cases)
      case (1 answer w3)
      obtain aid content where answer: "answer = (aid, content)" by fastforce
      show ?case unfolding answer prod.case
      proof (rule nothing_thenDo [OF nothing_tryOp], goal_cases)
        case (2 x4 w4)
        show ?case
        proof (rule writes_thenDo [OF writes_tryOp], goal_cases)
          case (1 x5 w5 j5)
          then show ?case by (cases "bindAll (callsOf content) tt") (simp_all add: j2 answerJournal_def)
        next
          case (2 e j5)
          then show ?case by (simp add: j2 answerJournal_def)
        qed
      qed (simp_all add: j2 answerJournal_def)
    next
      case (2 e)
      show ?case by (simp add: j2 answerJournal_def)
    qed
  next
    case (2 e j2)
    then show ?case by (simp add: answerJournal_def)
  qed
next
  case (2 e)
  show ?case by (simp add: answerJournal_def)
qed

lemma answer_follows:
  assumes "answerJournal n r j" "s = Begun \<or> s = Idle"
  shows "follows managed m s r j"
  using assms by (auto simp: answerJournal_def follows_def openState_def)

definition loopPath :: "nat \<Rightarrow> nat \<Rightarrow> ('e, 'a) result \<Rightarrow> event list \<Rightarrow> bool" where
  "loopPath k n r j \<longleftrightarrow>
     (\<forall>managed m s. (s = Begun \<or> s = Idle \<longrightarrow> follows managed m s r j) \<and>
        (n + k + 1 < 2 ^ 32 \<longrightarrow> iterationsFrom n (turnEvents m j)))"

lemma answer_path: "answerJournal n r j \<Longrightarrow> loopPath k n r j"
  using answer_follows [of n r j] by (auto simp: loopPath_def answerJournal_def)

lemma answer_then_calls:
  assumes "answerJournal n (Inr x :: ('e, 'a) result) j1" "callsPath r j2"
  shows "loopPath k n r (j1 @ j2)"
proof -
  from assms(1) obtain a where j1: "j1 = [ModelPending n, AssistantKept a]" by (auto simp: answerJournal_def)
  have "follows managed m s r (j1 @ j2)" if "s = Begun \<or> s = Idle" for managed m s
    by (rule follows_append [OF answer_follows [OF assms(1) that]]) (use assms(2) in \<open>simp add: callsPath_def\<close>)
  moreover have "iterationsFrom n (turnEvents m (j1 @ j2))" if "n + k + 1 < 2 ^ 32" for m
    using that assms(2) iterationsFrom_const [OF calls_iterations [of j2 n], of n] by (simp add: j1 callsPath_def)
  ultimately show ?thesis by (simp add: loopPath_def)
qed

lemma loopPath_append:
  assumes a: "answerJournal n (Inr x :: ('e, 'a) result) j1" and c: "callsPath (Inr y :: ('f, 'b) result) j2"
    and later: "loopPath k (n + 1) r j3"
  shows "loopPath (Suc k) n r (j1 @ j2 @ j3)"
proof -
  from a obtain i where j1: "j1 = [ModelPending n, AssistantKept i]" by (auto simp: answerJournal_def)
  have calls: "list_all isCallEvent j2" using c by (simp add: callsPath_def)
  have "follows managed m s r (j1 @ j2 @ j3)" if "s = Begun \<or> s = Idle" for managed m s
  proof (rule follows_append [OF answer_follows [OF a that]], rule follows_append)
    show "follows managed (lastAsked m j1) Idle (Inr y :: ('f, 'b) result) j2" using c by (simp add: callsPath_def)
    show "follows managed (lastAsked (lastAsked m j1) j2) Idle r j3" using later by (simp add: loopPath_def)
  qed
  moreover have "iterationsFrom n (turnEvents m (j1 @ j2 @ j3))" if k: "n + Suc k + 1 < 2 ^ 32" for m
  proof -
    let ?e2 = "turnEvents n j2" and ?e3 = "turnEvents n j3"
    have e2: "list_all (\<lambda>ev. eventIteration ev = Some (n + 1)) ?e2" by (rule calls_iterations [OF calls])
    have "iterationsFrom n ?e2" by (rule iterationsFrom_const [OF e2]) (use k in simp_all)
    moreover have "iterationsFrom (n + 1) ?e3" using later k by (simp add: loopPath_def)
    ultimately have "iterationsFrom n (?e2 @ ?e3)"
      using e2 by (intro iterationsFrom_append [where p = "n + 1"]) (auto simp: list_all_iff)
    then show ?thesis using k by (simp add: j1 turnEvents_append calls_keep_count [OF calls])
  qed
  ultimately show ?thesis by (simp add: loopPath_def)
qed

lemma providerLoop_path:
  "writes (providerLoop ou cx rn tt perTurn addr schedules k n w) w (loopPath k n)"
proof (induction k arbitrary: cx n w)
  case (0 cx n w)
  show ?case
    apply (subst providerLoop.simps)
  proof (rule writes_thenDo [OF nextAssistant_writes], goal_cases)
    case (1 x w1 j1)
    obtain aid content calls where x: "x = ((aid, content), calls)" by (metis prod.exhaust)
    from 1 have "answerJournal n (r :: (tool_error, string \<times> tool_part list) result) j1" for r
      by (auto simp: answerJournal_def)
    then show ?case unfolding x by (auto intro: answer_path)
  next
    case (2 e j1)
    then show ?case by (intro answer_path) (simp add: answerJournal_def)
  qed
next
  case (Suc k cx n w)
  show ?case
    apply (subst providerLoop.simps)
  proof (rule writes_thenDo [OF nextAssistant_writes], goal_cases)
    case (1 x w1 j1)
    obtain aid content calls where x: "x = ((aid, content), calls)" by (metis prod.exhaust)
    let ?cx = "WithMessageID aid cx"
    note j1 = 1
    have fin: "answerJournal n (r :: (tool_error, string \<times> tool_part list) result) j1" for r
      using j1 by (auto simp: answerJournal_def)
    show ?case
    proof (cases "calls = []")
      case True
      with x show ?thesis by (auto intro: answer_path [OF fin])
    next
      case False
      have "writes
        (thenDo (runCalls ou ?cx rn tt perTurn addr (schedules n) content calls w1)
          (\<lambda>_ w. providerLoop ou ?cx rn tt perTurn addr schedules k (n + 1) w)) w1
        (\<lambda>r j. loopPath (Suc k) n r (j1 @ j))"
      proof (rule writes_thenDo [OF runCalls_path], goal_cases)
        case (1 y w2 j2)
        then show ?case by (intro writes_conseq [OF Suc.IH]) (rule loopPath_append [OF j1])
      next
        case (2 e j2)
        then have "callsPath (Inl e :: (tool_error, string \<times> tool_part list) result) j2" by (rule callsPath_failed) simp
        then show ?case by (rule answer_then_calls [OF j1])
      qed
      with False x show ?thesis by simp
    qed
  next
    case (2 e j1)
    then show ?case by (intro answer_path) (simp add: answerJournal_def)
  qed
qed

text \<open>How a turn ends: with the error of its loop, if it has one.\<close>

definition endingOf :: "('e, 'a) result \<Rightarrow> run_error \<Rightarrow> turn_event" where
  "endingOf r x = Ending (if failed r then Some x else None)"

lemma iterationsFrom_ending: "iterationsFrom m evs \<Longrightarrow> iterationsFrom m (evs @ [endingOf r x])"
  by (induction evs arbitrary: m) (auto simp: endingOf_def split: option.splits)

lemma follows_ends:
  assumes "follows managed m s r j" "validBatches j"
  shows "afterEvents managed (turnEvents m j @ [endingOf r x]) s =
    Some (if settlesFirst managed (if failed r then Some x else None) then Closing else Over)"
proof -
  from assms obtain s' where s': "afterEvents managed (turnEvents m j) s = Some s'" "openState s'" "failed r \<or> s' = Idle"
    by (auto simp: follows_def split: option.splits)
  then show ?thesis by (cases "failed r") (auto simp: afterEvents_append endingOf_def openState_def)
qed

text \<open>The journal events of a run, closed by the end of the turn, are a run of the protocol.\<close>

definition journalRun :: "bool \<Rightarrow> ('e, 'a) result \<Rightarrow> run_error \<Rightarrow> event list \<Rightarrow> bool" where
  "journalRun managed r x seg \<longleftrightarrow>
     (let evs = turnEvents 0 (journal seg) @ [endingOf r x] in
      afterEvents managed evs Begun = Some (if settlesFirst managed (if failed r then Some x else None) then Closing else Over) \<and>
      iterationsFrom 0 evs)"

lemma loop_runs_protocol:
  assumes "limit + 1 < 2 ^ 32"
  shows "\<exists>seg. adds w (snd (runProviderLoop ou cx rn tt perTurn addr schedules limit 0 w)) seg \<and>
    (validBatches (journal seg) \<longrightarrow>
       journalRun managed (fst (runProviderLoop ou cx rn tt perTurn addr schedules limit 0 w)) x seg)"
proof -
  let ?R = "runProviderLoop ou cx rn tt perTurn addr schedules limit 0 w"
  obtain seg where seg: "adds w (snd ?R) seg" "loopPath limit 0 (fst ?R) (journal seg)"
    using providerLoop_path [of ou cx rn tt perTurn addr schedules limit 0 w]
    unfolding runProviderLoop_def writes_def leaves_def by auto
  then have f: "follows managed 0 Begun (fst ?R) (journal seg)" and it: "iterationsFrom 0 (turnEvents 0 (journal seg))"
    using assms by (auto simp: loopPath_def)
  have "validBatches (journal seg) \<longrightarrow> journalRun managed (fst ?R) x seg"
    using follows_ends [OF f] iterationsFrom_ending [OF it, of "fst ?R" x] by (simp add: journalRun_def)
  with seg(1) show ?thesis by blast
qed

section \<open>Properties\<close>

text \<open>
  C15: The loop of a turn and the journal fit together: whatever the model, the tools, the approvers
  and the stores do, the journal events of the loop, closed by the end of the turn with the
  outcome of the loop, are a run of the journal's protocol from its first record to a closing or
  closed one, with iterations that never go down and fit 32 bits, as long as every batch has calls
  with different ids.
\<close>

theorem loop_follows_the_protocol:
  assumes "limit + 1 < 2 ^ 32"
  shows "\<exists>seg. adds w (snd (runProviderLoop ou cx rn tt perTurn addr schedules limit 0 w)) seg \<and>
    (validBatches (journal seg) \<longrightarrow>
       journalRun managed (fst (runProviderLoop ou cx rn tt perTurn addr schedules limit 0 w)) x seg)"
  by (rule loop_runs_protocol [OF assms])

text \<open>A turn with one call: the model asks for \<open>read\<close>, then answers.\<close>

definition oneCall :: outside where
  "oneCall = (sampleOutside NoAnswer)\<lparr>ou_model := (\<lambda>h.
     if saves h = [] then Inr (''a1'', [CallPart (sampleCall ''read'')]) else Inr (''a2'', []))\<rparr>"

definition oneCallRun :: "(tool_error, string \<times> tool_part list) result \<times> world" where
  "oneCallRun = runProviderLoop oneCall sampleContext (sampleRunner None) sampleTools [] sampleAddr (\<lambda>n. []) 5 0 emptyWorld"

lemma loop_follows_the_protocol_witness:
  "Confirmed ''c1'' \<in> set (wo_events (snd oneCallRun)) \<and>
   journalRun True (fst oneCallRun) \<lparr>re_text = [], re_is = []\<rparr> (wo_events (snd oneCallRun))"
proof -
  obtain seg where seg: "adds emptyWorld (snd oneCallRun) seg"
    "validBatches (journal seg) \<longrightarrow> journalRun True (fst oneCallRun) \<lparr>re_text = [], re_is = []\<rparr> seg"
    using loop_follows_the_protocol [of 5 emptyWorld oneCall sampleContext "sampleRunner None" sampleTools "[]" sampleAddr
        "\<lambda>n. []" True "\<lparr>re_text = [], re_is = []\<rparr>"]
    unfolding oneCallRun_def by auto
  then have "seg = wo_events (snd oneCallRun)" by (simp add: adds_def emptyWorld_def)
  moreover have "validBatches (journal (wo_events (snd oneCallRun)))" "Confirmed ''c1'' \<in> set (wo_events (snd oneCallRun))"
    by code_simp+
  ultimately show ?thesis using seg(2) by simp
qed

section \<open>The loop and its record\<close>

text \<open>Two events that the protocol does not tell apart.\<close>

fun sameShape :: "turn_event \<Rightarrow> turn_event \<Rightarrow> bool" where
  "sameShape (Asking n) (Asking n') = (n = n')"
| "sameShape (Answered m n) (Answered m' n') = (m = m' \<and> n = n')"
| "sameShape (Calling cs a n) (Calling cs' a' n') = (List.map tc_id cs = List.map tc_id cs' \<and> n = n')"
| "sameShape (Resulting c n) (Resulting c' n') = (c = c' \<and> n = n')"
| "sameShape (Ending e) (Ending e') = (e = e')"
| "sameShape _ _ = False"

lemma sameShape_after:
  "sameShape ev ev' \<Longrightarrow> afterEvent managed ev s = afterEvent managed ev' s \<and> eventIteration ev = eventIteration ev'"
proof (induction ev ev' rule: sameShape.induct)
  case (3 cs a n cs' a' n')
  then have "List.map tc_id cs = List.map tc_id cs'" "n = n'" by simp_all
  moreover from this(1) have "length cs = length cs'" by (rule map_eq_imp_length_eq)
  ultimately show ?case by simp
qed simp_all

lemma sameShape_events:
  "list_all2 sameShape evs evs' \<Longrightarrow> afterEvents managed evs s = afterEvents managed evs' s \<and> iterationsFrom m evs = iterationsFrom m evs'"
proof (induction evs evs' arbitrary: s m rule: list_all2_induct)
  case (Cons ev evs ev' evs')
  from sameShape_after [OF Cons(1)] have same: "afterEvent managed ev s = afterEvent managed ev' s"
    "eventIteration ev = eventIteration ev'" by simp_all
  with Cons.IH show ?case by (simp split: option.splits)
qed simp

text \<open>
  The record of the loop's turn: a script of the events of the loop, with data within the limits
  of the journal, is recorded to its end or stopped by its surroundings.
\<close>

theorem loop_is_recorded:
  assumes begun: "beginTurnExecution jc mc True sc owner a user disk = (disk1, Inr (Some r))" "0 < sc_now sc"
    and limit: "limit + 1 < 2 ^ 32"
    and seg: "adds w (snd (runProviderLoop ou cx rn tt perTurn addr schedules limit 0 w)) seg" "validBatches (journal seg)"
    and script: "list_all2 sameShape (events script)
      (turnEvents 0 (journal seg) @ [endingOf (fst (runProviderLoop ou cx rn tt perTurn addr schedules limit 0 w)) x])"
    and sound: "soundScript jc mc task (ma_workspace a) (ma_thread a) script" "2 * length script + 1 < 2 ^ 64"
  shows "\<exists>s'. (s' = Closing \<or> s' = Over) \<and>
    scriptDone jc script s' (fst (performAll jc mc managed task script (Some r, disk1)))
      (snd (performAll jc mc managed task script (Some r, disk1)))"
proof -
  let ?R = "runProviderLoop ou cx rn tt perTurn addr schedules limit 0 w"
  from loop_runs_protocol [OF limit, of w ou cx rn tt perTurn addr schedules managed x] seg adds_unique
  have run: "journalRun managed (fst ?R) x seg" by blast
  let ?s = "if settlesFirst managed (if failed (fst ?R) then Some x else None) then Closing else Over"
  have "afterEvents managed (events script) Begun = Some ?s" "iterationsFrom 0 (events script)"
    using run sameShape_events [OF script, of managed Begun 0] by (simp_all add: journalRun_def Let_def)
  note path = this
  note b = begin_in_step [OF begun]
  obtain st' res where p: "performAll jc mc managed task script (Some r, disk1) = (st', res)" by fastforce
  with script_took [OF b(1), of managed script ?s 0 mc task st' res] b path sound
  have "scriptDone jc script ?s st' res" by simp
  with p show ?thesis by (intro exI [of _ ?s]) simp
qed

end
